(* ===== verification/Prelude.thy ===== *)
theory Prelude
  imports Main "HOL-Library.Word"
begin

text \<open>
  Shared vocabulary of the EdgeOS development.

  \<^item> The machine integer types of \<^verbatim>\<open>include/stdint.h\<close> and \<^verbatim>\<open>include/types.h\<close> as
    words (\<open>u8\<close>, \<open>u16\<close>, \<open>u32\<close>, \<open>u64\<close>; \<open>c_int\<close> is the 32-bit \<^verbatim>\<open>int\<close>, read by \<^term>\<open>sint\<close>).
  \<^item> C strings: a \<open>cstr\<close> is the list of bytes before the terminating NUL; a \<open>cbuf\<close> is a
    character array of fixed size. \<open>chr_at\<close> reads a C string with its terminator,
    \<open>cstr_of\<close> reads the string a character array holds, \<open>lit\<close> is a string literal.
  \<^item> Loops of the form \<^verbatim>\<open>for (i = lo; i < hi; ++i) if (p(i)) return i;\<close> are
    \<open>first_idx p lo hi\<close>; its characterisation is proved once here.
  \<^item> The error numbers of \<^verbatim>\<open>syscall.c\<close>; \<open>uerr e\<close> is the value \<^verbatim>\<open>(uint64_t)-e\<close> a system call returns.
  \<^item> Collections of facts: \<open>model_simps\<close> (unfolding of constants of the model),
    \<open>frame_simps\<close> (fields an operation leaves alone), \<open>inv_intros\<close> (preservation lemmas).
\<close>

unbundle bit_operations_syntax

named_theorems model_simps
named_theorems frame_simps
named_theorems inv_intros

type_synonym u8 = "8 word"
type_synonym u16 = "16 word"
type_synonym u32 = "32 word"
type_synonym u64 = "64 word"
type_synonym c_int = "32 word"
type_synonym cstr = "u8 list"
type_synonym cbuf = "u8 list"

section \<open>Error numbers\<close>

definition EPERM :: int where [model_simps]: "EPERM = 1"
definition ENOENT :: int where [model_simps]: "ENOENT = 2"
definition ESRCH :: int where [model_simps]: "ESRCH = 3"
definition EINTR :: int where [model_simps]: "EINTR = 4"
definition EIO :: int where [model_simps]: "EIO = 5"
definition ENXIO :: int where [model_simps]: "ENXIO = 6"
definition EBADF :: int where [model_simps]: "EBADF = 9"
definition ECHILD :: int where [model_simps]: "ECHILD = 10"
definition EAGAIN :: int where [model_simps]: "EAGAIN = 11"
definition ENOMEM :: int where [model_simps]: "ENOMEM = 12"
definition EACCES :: int where [model_simps]: "EACCES = 13"
definition EFAULT :: int where [model_simps]: "EFAULT = 14"
definition EBUSY :: int where [model_simps]: "EBUSY = 16"
definition EEXIST :: int where [model_simps]: "EEXIST = 17"
definition ENOTDIR :: int where [model_simps]: "ENOTDIR = 20"
definition EISDIR :: int where [model_simps]: "EISDIR = 21"
definition EINVAL :: int where [model_simps]: "EINVAL = 22"
definition EMFILE :: int where [model_simps]: "EMFILE = 24"
definition ENOTTY :: int where [model_simps]: "ENOTTY = 25"
definition EPIPE :: int where [model_simps]: "EPIPE = 32"
definition ERANGE :: int where [model_simps]: "ERANGE = 34"
definition ENOSYS :: int where [model_simps]: "ENOSYS = 38"
definition ENOTEMPTY :: int where [model_simps]: "ENOTEMPTY = 39"

definition uerr :: "int \<Rightarrow> u64" where "uerr e = word_of_int (- e)"

section \<open>C strings\<close>

definition chr_at :: "cstr \<Rightarrow> nat \<Rightarrow> u8" where
  "chr_at s i = (if i < length s then s ! i else 0)"

definition cstr_of :: "cbuf \<Rightarrow> cstr" where
  "cstr_of b = takeWhile (\<lambda>c. c \<noteq> 0) b"

definition valid_cstr :: "cstr \<Rightarrow> bool" where
  "valid_cstr s \<longleftrightarrow> 0 \<notin> set s"

definition lit :: "string \<Rightarrow> cstr" where
  "lit s = map (\<lambda>c. word_of_nat (of_char c)) s"

lemma chr_at_Nil [simp]: "chr_at [] i = 0"
  by (simp add: chr_at_def)

lemma chr_at_Cons_0 [simp]: "chr_at (c # s) 0 = c"
  by (simp add: chr_at_def)

lemma chr_at_Cons_Suc [simp]: "chr_at (c # s) (Suc i) = chr_at s i"
  by (simp add: chr_at_def)

lemma chr_at_drop: "chr_at (drop n s) i = chr_at s (n + i)"
  by (auto simp: chr_at_def)

lemma chr_at_zero_iff: "valid_cstr s \<Longrightarrow> chr_at s i = 0 \<longleftrightarrow> length s \<le> i"
  by (auto simp: chr_at_def valid_cstr_def) (metis nth_mem)

lemma valid_cstr_Nil [simp]: "valid_cstr []"
  by (simp add: valid_cstr_def)

lemma valid_cstr_Cons [simp]: "valid_cstr (c # s) \<longleftrightarrow> c \<noteq> 0 \<and> valid_cstr s"
  by (auto simp: valid_cstr_def)

lemma valid_cstr_append [simp]: "valid_cstr (s @ t) \<longleftrightarrow> valid_cstr s \<and> valid_cstr t"
  by (auto simp: valid_cstr_def)

lemma valid_cstr_take [intro]: "valid_cstr s \<Longrightarrow> valid_cstr (take n s)"
  by (auto simp: valid_cstr_def dest: in_set_takeD)

lemma valid_cstr_drop [intro]: "valid_cstr s \<Longrightarrow> valid_cstr (drop n s)"
  by (auto simp: valid_cstr_def dest: in_set_dropD)

lemma valid_cstr_of [simp]: "valid_cstr (cstr_of b)"
  by (auto simp: valid_cstr_def cstr_of_def dest: set_takeWhileD)

lemma cstr_of_terminated: "valid_cstr s \<Longrightarrow> cstr_of (s @ 0 # rest) = s"
  by (induction s) (auto simp: cstr_of_def)

lemma length_cstr_of: "length (cstr_of b) \<le> length b"
  by (simp add: cstr_of_def length_takeWhile_le)

section \<open>Bounded search loops\<close>

definition first_idx :: "(nat \<Rightarrow> bool) \<Rightarrow> nat \<Rightarrow> nat \<Rightarrow> nat option" where
  "first_idx p lo hi = find p [lo..<hi]"

lemma first_idx_None: "first_idx p lo hi = None \<longleftrightarrow> (\<forall>i. lo \<le> i \<longrightarrow> i < hi \<longrightarrow> \<not> p i)"
  by (auto simp: first_idx_def find_None_iff)

lemma first_idx_Some:
  "first_idx p lo hi = Some i \<longleftrightarrow> lo \<le> i \<and> i < hi \<and> p i \<and> (\<forall>j. lo \<le> j \<longrightarrow> j < i \<longrightarrow> \<not> p j)"
proof
  assume "first_idx p lo hi = Some i"
  then obtain k where k: "k < length [lo..<hi]" "p ([lo..<hi] ! k)" "i = [lo..<hi] ! k"
      "\<forall>j<k. \<not> p ([lo..<hi] ! j)"
    unfolding first_idx_def by (auto simp: find_Some_iff)
  have "\<not> p j" if "lo \<le> j" "j < i" for j
    using k that by (auto dest!: spec [of _ "j - lo"])
  with k show "lo \<le> i \<and> i < hi \<and> p i \<and> (\<forall>j. lo \<le> j \<longrightarrow> j < i \<longrightarrow> \<not> p j)"
    by auto
next
  assume *: "lo \<le> i \<and> i < hi \<and> p i \<and> (\<forall>j. lo \<le> j \<longrightarrow> j < i \<longrightarrow> \<not> p j)"
  then have "p ([lo..<hi] ! (i - lo)) \<and> (\<forall>j < i - lo. \<not> p ([lo..<hi] ! j))"
    by auto
  with * show "first_idx p lo hi = Some i"
    unfolding first_idx_def find_Some_iff by (intro exI [of _ "i - lo"]) auto
qed

lemma first_idx_SomeD:
  "first_idx p lo hi = Some i \<Longrightarrow> lo \<le> i \<and> i < hi \<and> p i"
  by (simp add: first_idx_Some)

lemma first_idx_ex: "lo \<le> i \<Longrightarrow> i < hi \<Longrightarrow> p i \<Longrightarrow> \<exists>j. first_idx p lo hi = Some j"
  by (metis first_idx_None not_None_eq)

section \<open>Words\<close>

lemma unat_bound: "unat (w :: 'a::len word) < 2 ^ LENGTH('a)"
  using unsigned_less [of w] by simp

lemma unat_u8_bound: "unat (w :: u8) < 256"
  using unat_bound [of w] by simp

lemma unat_u16_bound: "unat (w :: u16) < 65536"
  using unat_bound [of w] by simp

lemma unat_u32_bound: "unat (w :: u32) < 4294967296"
  using unat_bound [of w] by simp

lemma unat_u64_bound: "unat (w :: u64) < 18446744073709551616"
  using unat_bound [of w] by simp

lemma unat_less_word: "a < b \<longleftrightarrow> unat a < unat (b :: 'a::len word)"
  by (simp add: word_less_nat_alt)

lemma unat_le_word: "a \<le> b \<longleftrightarrow> unat a \<le> unat (b :: 'a::len word)"
  by (simp add: word_le_nat_alt)

lemma unat_plus_no_wrap:
  "unat (a :: 'a::len word) + unat b < 2 ^ LENGTH('a) \<Longrightarrow> unat (a + b) = unat a + unat b"
  by (simp add: unat_word_ariths)

lemma unat_minus_no_wrap: "b \<le> a \<Longrightarrow> unat (a - b :: 'a::len word) = unat a - unat b"
  by (simp add: unat_sub)

end
