(* ===== verification/CString.thy ===== *)
theory CString
  imports Prelude
begin

text \<open>
  The freestanding C library of the kernel, \<^verbatim>\<open>src/string.c\<close>.

  \<^item> \<^verbatim>\<open>memset\<close>, \<^verbatim>\<open>memcpy\<close>, \<^verbatim>\<open>memmove\<close> and \<^verbatim>\<open>memcmp\<close> work on a flat byte memory
    (\<open>memory\<close>, a function from addresses), so that overlap of source and destination is visible.
    Their \<^verbatim>\<open>uint32\<close> length is a \<open>u32\<close>; the loop runs over its value.
  \<^item> \<^verbatim>\<open>strlen\<close>, \<^verbatim>\<open>strcmp\<close>, \<^verbatim>\<open>strncmp\<close>, \<^verbatim>\<open>strstr\<close>, \<^verbatim>\<open>atoi\<close> read C strings: byte lists whose
    end stands for the terminator (a NUL inside the list also ends the string).
  \<^item> \<^verbatim>\<open>strcpy\<close>, \<^verbatim>\<open>strcat\<close> and \<^verbatim>\<open>strncpy\<close> write into an array of known size; a write past its
    end, undefined in C, is the result \<open>None\<close>.
  Characters are signed on the target, so comparisons and differences of \<^verbatim>\<open>char\<close> use \<^term>\<open>sint\<close>.
  Shown: \<^verbatim>\<open>memmove\<close> copies correctly for every overlap and \<^verbatim>\<open>memcpy\<close> for the forward
  ones, \<^verbatim>\<open>strcmp\<close> decides equality, \<^verbatim>\<open>strstr\<close> finds the first occurrence, \<^verbatim>\<open>atoi\<close> inverts
  \<^verbatim>\<open>itoa\<close>, and \<^verbatim>\<open>itoa\<close> stays within its scratch array.
\<close>

type_synonym memory = "nat \<Rightarrow> u8"

section \<open>Memory operations\<close>

fun memset_loop :: "memory \<Rightarrow> nat \<Rightarrow> u8 \<Rightarrow> nat \<Rightarrow> memory" where
  "memset_loop m temp c 0 = m"
| "memset_loop m temp c (Suc n) = memset_loop (m(temp := c)) (Suc temp) c n"

definition memset :: "memory \<Rightarrow> nat \<Rightarrow> u8 \<Rightarrow> u32 \<Rightarrow> memory" where
  "memset m dst c n = memset_loop m dst c (unat n)"

fun memcpy_loop :: "memory \<Rightarrow> nat \<Rightarrow> nat \<Rightarrow> nat \<Rightarrow> memory" where
  "memcpy_loop m p q 0 = m"
| "memcpy_loop m p q (Suc n) = memcpy_loop (m(p := m q)) (Suc p) (Suc q) n"

definition memcpy :: "memory \<Rightarrow> nat \<Rightarrow> nat \<Rightarrow> u32 \<Rightarrow> memory" where
  "memcpy m dst src n = memcpy_loop m dst src (unat n)"

fun memmove_down :: "memory \<Rightarrow> nat \<Rightarrow> nat \<Rightarrow> nat \<Rightarrow> memory" where
  "memmove_down m d s 0 = m"
| "memmove_down m d s (Suc i) = memmove_down (m(d + i := m (s + i))) d s i"

definition memmove :: "memory \<Rightarrow> nat \<Rightarrow> nat \<Rightarrow> u32 \<Rightarrow> memory" where
  "memmove m d s n =
     (if d = s \<or> n = 0 then m
      else if d < s then memcpy_loop m d s (unat n)
      else memmove_down m d s (unat n))"

fun memcmp_loop :: "memory \<Rightarrow> nat \<Rightarrow> nat \<Rightarrow> nat \<Rightarrow> int" where
  "memcmp_loop m a b 0 = 0"
| "memcmp_loop m a b (Suc n) =
     (if m a \<noteq> m b then uint (m a) - uint (m b) else memcmp_loop m (Suc a) (Suc b) n)"

definition memcmp :: "memory \<Rightarrow> nat \<Rightarrow> nat \<Rightarrow> u32 \<Rightarrow> int" where
  "memcmp m s1 s2 n = memcmp_loop m s1 s2 (unat n)"

section \<open>Strings\<close>

fun strlen :: "cstr \<Rightarrow> nat" where
  "strlen [] = 0"
| "strlen (c # s) = (if c = 0 then 0 else Suc (strlen s))"

function strcmp :: "cstr \<Rightarrow> cstr \<Rightarrow> int" where
  "strcmp s1 s2 =
     (if chr_at s1 0 = chr_at s2 0
      then (if chr_at s2 0 = 0 then 0 else strcmp (tl s1) (tl s2))
      else 1)"
  by pat_completeness auto
termination
  by (relation "measure (\<lambda>(s1, s2). length s1)") (auto simp: chr_at_def split: if_splits)

function strncmp :: "cstr \<Rightarrow> cstr \<Rightarrow> int \<Rightarrow> int" where
  "strncmp s1 s2 c =
     (if c = 0 then 0
      else let result = sint (chr_at s1 0) - sint (chr_at s2 0)
           in if result \<noteq> 0 \<or> chr_at s1 0 = 0 then result
              else strncmp (tl s1) (tl s2) (c - 1))"
  by pat_completeness auto
termination
  by (relation "measure (\<lambda>(s1, s2, c). length s1)") (auto simp: chr_at_def split: if_splits)

declare strcmp.simps [simp del] strncmp.simps [simp del]

function strcpy_loop :: "cbuf \<Rightarrow> cstr \<Rightarrow> nat \<Rightarrow> (cbuf \<times> nat) option" where
  "strcpy_loop dst src i =
     (if length dst \<le> i then None
      else let dst' = dst[i := chr_at src i]
           in if chr_at src i \<noteq> 0 then strcpy_loop dst' src (Suc i) else Some (dst', i))"
  by pat_completeness auto
termination
  by (relation "measure (\<lambda>(dst, src, i). length src - i)") (auto simp: chr_at_def split: if_splits)

declare strcpy_loop.simps [simp del]

definition strcpy :: "cbuf \<Rightarrow> cstr \<Rightarrow> (cbuf \<times> nat) option" where
  "strcpy dst src = strcpy_loop dst src 0"

definition strcat :: "cbuf \<Rightarrow> cstr \<Rightarrow> cbuf option" where
  "strcat dest src =
     (let e = strlen dest; n = strlen src
      in if e + n < length dest
         then Some (take e dest @ take n src @ [0] @ drop (e + n + 1) dest)
         else None)"

fun strncpy_copy :: "cbuf \<Rightarrow> cstr \<Rightarrow> nat \<Rightarrow> nat \<Rightarrow> cbuf \<times> nat" where
  "strncpy_copy dest src i 0 = (dest, i)"
| "strncpy_copy dest src i (Suc k) =
     (if chr_at src i \<noteq> 0 then strncpy_copy (dest[i := chr_at src i]) src (Suc i) k else (dest, i))"

fun strncpy_pad :: "cbuf \<Rightarrow> nat \<Rightarrow> nat \<Rightarrow> cbuf" where
  "strncpy_pad dest i 0 = dest"
| "strncpy_pad dest i (Suc k) = strncpy_pad (dest[i := 0]) (Suc i) k"

definition strncpy :: "cbuf \<Rightarrow> cstr \<Rightarrow> nat \<Rightarrow> cbuf option" where
  "strncpy dest src n =
     (if length dest < n then None
      else let (d, i) = strncpy_copy dest src 0 n in Some (strncpy_pad d i (n - i)))"

definition isspace :: "u8 \<Rightarrow> bool" where
  "isspace c \<longleftrightarrow> c = 32 \<or> c = 9 \<or> c = 10 \<or> c = 11 \<or> c = 12 \<or> c = 13"

definition isalpha :: "u8 \<Rightarrow> bool" where
  "isalpha c \<longleftrightarrow> (65 \<le> sint c \<and> sint c \<le> 90) \<or> (97 \<le> sint c \<and> sint c \<le> 122)"

definition upper :: "u8 \<Rightarrow> u8" where
  "upper c = (if 97 \<le> sint c \<and> sint c \<le> 122 then c - 32 else c)"

definition lower :: "u8 \<Rightarrow> u8" where
  "lower c = (if 65 \<le> sint c \<and> sint c \<le> 90 then c + 32 else c)"

section \<open>Number conversion\<close>

definition digit_char :: "u32 \<Rightarrow> u8" where
  "digit_char r = (if r < 10 then ucast r + 48 else ucast r - 10 + 97)"

function itoa_digits :: "u32 \<Rightarrow> u32 \<Rightarrow> u8 list" where
  "itoa_digits b u =
     (if u = 0 \<or> unat b \<le> 1 then [] else digit_char (u mod b) # itoa_digits b (u div b))"
  by pat_completeness auto
termination
proof (relation "measure (\<lambda>(b, u). unat u)", goal_cases)
  case (2 b u)
  then have "1 < unat b" and "0 < unat u"
    by (auto simp: unat_gt_0)
  then show ?case
    by (simp add: unat_div div_less_dividend)
qed simp

declare itoa_digits.simps [simp del]

definition itoa_base :: "u8 \<Rightarrow> u32" where
  "itoa_base base = (if base = 120 then 16 else if base = 111 then 8 else 10)"

definition itoa_tmp :: "u8 \<Rightarrow> u32 \<Rightarrow> u8 list" where
  "itoa_tmp base u = (if u = 0 then [48] else itoa_digits (itoa_base base) u)"

definition itoa :: "u8 \<Rightarrow> c_int \<Rightarrow> cstr" where
  "itoa base d =
     (if base = 100 \<and> sint d < 0 then 45 # rev (itoa_tmp base (- d))
      else rev (itoa_tmp base d))"

fun atoi_digits :: "cstr \<Rightarrow> c_int \<Rightarrow> c_int" where
  "atoi_digits [] v = v"
| "atoi_digits (c # s) v =
     (if 48 \<le> sint c \<and> sint c \<le> 57 then atoi_digits s (v * 10 + word_of_int (sint c - 48)) else v)"

definition atoi :: "cstr option \<Rightarrow> c_int" where
  "atoi so =
     (case so of None \<Rightarrow> 0
      | Some s0 \<Rightarrow>
          let s = dropWhile (\<lambda>c. c \<noteq> 0 \<and> isspace c) s0
          in if chr_at s 0 = 45 then - atoi_digits (tl s) 0
             else if chr_at s 0 = 43 then atoi_digits (tl s) 0
             else atoi_digits s 0)"

section \<open>Substring search\<close>

fun strstr_scan :: "u8 \<Rightarrow> cstr \<Rightarrow> nat \<Rightarrow> cstr \<Rightarrow> nat option" where
  "strstr_scan c str i [] = None"
| "strstr_scan c str i (sc # rest) =
     (if sc = 0 then None
      else if sc = c \<and> strncmp rest str (int (strlen str)) = 0 then Some i
      else strstr_scan c str (Suc i) rest)"

definition strstr :: "cstr \<Rightarrow> cstr \<Rightarrow> nat option" where
  "strstr s str =
     (if chr_at str 0 = 0 then Some 0 else strstr_scan (chr_at str 0) (tl str) 0 s)"

section \<open>Lemmas\<close>

lemma memcpy_loop_apply:
  "d \<le> s \<or> s + n \<le> d \<Longrightarrow>
   memcpy_loop m d s n x = (if d \<le> x \<and> x < d + n then m (s + (x - d)) else m x)"
proof (induction n arbitrary: m d s)
  case 0
  then show ?case by auto
next
  case (Suc n)
  then have "Suc d \<le> Suc s \<or> Suc s + n \<le> Suc d" by auto
  then have "memcpy_loop m d s (Suc n) x =
      (if Suc d \<le> x \<and> x < Suc d + n then (m(d := m s)) (Suc s + (x - Suc d)) else (m(d := m s)) x)"
    by (simp only: memcpy_loop.simps Suc.IH)
  with Suc.prems show ?case
    by (cases "x = d") (auto simp: Suc_diff_Suc simp del: memcpy_loop.simps)
qed

lemma memmove_down_apply:
  "s \<le> d \<Longrightarrow> memmove_down m d s n x = (if d \<le> x \<and> x < d + n then m (s + (x - d)) else m x)"
  by (induction n arbitrary: m) auto

lemma memmove_apply:
  "memmove m d s n x = (if d \<le> x \<and> x < d + unat n then m (s + (x - d)) else m x)"
  by (auto simp: memmove_def memcpy_loop_apply memmove_down_apply)

lemma memset_loop_apply:
  "memset_loop m d c n x = (if d \<le> x \<and> x < d + n then c else m x)"
  by (induction n arbitrary: m d) auto

lemma memcmp_loop_zero:
  "memcmp_loop m a b n = 0 \<longleftrightarrow> (\<forall>i<n. m (a + i) = m (b + i))"
  by (induction n arbitrary: a b) (auto simp: less_Suc_eq_0_disj word_uint_eq_iff)

lemma strlen_length: "valid_cstr s \<Longrightarrow> strlen s = length s"
  by (induction s) auto

lemma strlen_cstr_of: "strlen b = length (cstr_of b)"
  by (induction b) (auto simp: cstr_of_def)

lemma strcmp_zero_iff: "valid_cstr s1 \<Longrightarrow> valid_cstr s2 \<Longrightarrow> strcmp s1 s2 = 0 \<longleftrightarrow> s1 = s2"
proof (induction s1 arbitrary: s2)
  case Nil
  then show ?case by (cases s2) (auto simp: strcmp.simps [of "[]"])
next
  case (Cons c s1)
  then show ?case by (cases s2) (auto simp: strcmp.simps [of "c # s1"])
qed

lemma strcmp_cbuf_zero_iff: "valid_cstr t \<Longrightarrow> strcmp b t = 0 \<longleftrightarrow> cstr_of b = t"
proof (induction b arbitrary: t)
  case Nil
  then show ?case by (cases t) (auto simp: strcmp.simps [of "[]"] cstr_of_def)
next
  case (Cons c b)
  then show ?case by (cases t) (auto simp: strcmp.simps [of "c # b"] cstr_of_def)
qed

lemma strcmp_values: "strcmp s1 s2 = 0 \<or> strcmp s1 s2 = 1"
  by (induction s1 s2 rule: strcmp.induct) (subst (1 2) strcmp.simps, auto)

lemma sint_diff_zero [simp]: "sint (a::u8) - sint b = 0 \<longleftrightarrow> a = b"
  by (metis right_minus_eq signed_word_eqI)

lemma strncmp_prefix:
  "valid_cstr s \<Longrightarrow> valid_cstr t \<Longrightarrow>
   strncmp s t (int (length t)) = 0 \<longleftrightarrow> take (length t) s = t"
proof (induction t arbitrary: s)
  case Nil
  then show ?case by (simp add: strncmp.simps)
next
  case (Cons c t)
  show ?case
  proof (cases s)
    case Nil
    with Cons.prems show ?thesis by (simp add: strncmp.simps signed_eq_0_iff)
  next
    case (Cons a s')
    with Cons.IH [of s'] Cons.prems show ?thesis
      by (subst strncmp.simps) (auto simp: Let_def dest: signed_word_eqI)
  qed
qed

lemma strcpy_loop_fits:
  "valid_cstr src \<Longrightarrow> i \<le> length src \<Longrightarrow> length src < length dst \<Longrightarrow> take i dst = take i src \<Longrightarrow>
   strcpy_loop dst src i = Some (src @ 0 # drop (Suc (length src)) dst, length src)"
proof (induction "length src - i" arbitrary: i dst)
  case 0
  then show ?case
    by (subst strcpy_loop.simps) (auto simp: chr_at_def id_take_nth_drop upd_conv_take_nth_drop)
next
  case (Suc k)
  then have i: "i < length src" by simp
  with Suc.prems have nz: "chr_at src i = src ! i" "src ! i \<noteq> 0"
    by (auto simp: chr_at_def valid_cstr_def) (metis nth_mem)
  have "take (Suc i) (dst[i := src ! i]) = take (Suc i) src"
    using Suc.prems i by (simp add: take_Suc_conv_app_nth)
  with Suc.hyps(1) [of "Suc i" "dst[i := src ! i]"] Suc.hyps(2) Suc.prems i nz show ?case
    by (subst strcpy_loop.simps) (simp add: Let_def)
qed

lemma strcpy_loop_overflow:
  "valid_cstr src \<Longrightarrow> i \<le> length src \<Longrightarrow> length dst \<le> length src \<Longrightarrow> strcpy_loop dst src i = None"
proof (induction "length src - i" arbitrary: i dst)
  case 0
  then show ?case by (subst strcpy_loop.simps) simp
next
  case (Suc k)
  then have "chr_at src i \<noteq> 0" by (simp add: chr_at_zero_iff)
  with Suc.hyps(1) [of "Suc i" "dst[i := chr_at src i]"] Suc.hyps(2) Suc.prems show ?case
    by (subst strcpy_loop.simps) (simp add: Let_def)
qed

lemma strcpy_spec:
  "valid_cstr src \<Longrightarrow>
   strcpy dst src =
     (if length src < length dst then Some (src @ 0 # drop (Suc (length src)) dst, length src) else None)"
  by (simp add: strcpy_def strcpy_loop_fits strcpy_loop_overflow)

lemma strncpy_copy_spec:
  "valid_cstr src \<Longrightarrow> i \<le> length src \<Longrightarrow> i + k \<le> length dest \<Longrightarrow> take i dest = take i src \<Longrightarrow>
   strncpy_copy dest src i k =
     (take (min (i + k) (length src)) src @ drop (min (i + k) (length src)) dest, min (i + k) (length src))"
proof (induction k arbitrary: dest i)
  case 0
  then show ?case by (simp add: min_def) (metis append_take_drop_id)
next
  case (Suc k)
  show ?case
  proof (cases "i < length src")
    case True
    then have c: "chr_at src i = src ! i" "chr_at src i \<noteq> 0"
      using Suc.prems by (auto simp: chr_at_zero_iff) (simp add: chr_at_def)
    have "take (Suc i) (dest[i := src ! i]) = take (Suc i) src"
      using Suc.prems True by (simp add: take_Suc_conv_app_nth)
    with Suc.IH [of "Suc i" "dest[i := src ! i]"] Suc.prems True c show ?thesis
      by (auto simp: min_def)
  next
    case False
    then have "chr_at src i = 0" and "i = length src" using Suc.prems by (auto simp: chr_at_def)
    with Suc.prems show ?thesis by simp (metis append_take_drop_id)
  qed
qed

lemma strncpy_pad_spec:
  "i + k \<le> length dest \<Longrightarrow> strncpy_pad dest i k = take i dest @ replicate k 0 @ drop (i + k) dest"
proof (induction k arbitrary: dest i)
  case (Suc k)
  then have "i < length dest" by simp
  with Suc.IH [of "Suc i" "dest[i := 0]"] Suc.prems show ?case
    by (simp add: take_Suc_conv_app_nth)
qed simp

lemma strncpy_spec:
  assumes "valid_cstr src" "n \<le> length dest"
  shows "strncpy dest src n =
     Some (take n src @ replicate (n - length src) 0 @ drop n dest)"
  using assms strncpy_copy_spec [of src 0 n dest]
  by (auto simp: strncpy_def strncpy_pad_spec min_def)

lemma strstr_scan_Some:
  "valid_cstr s \<Longrightarrow> valid_cstr t \<Longrightarrow>
   strstr_scan c t i s = Some j \<longleftrightarrow>
     i \<le> j \<and> take (Suc (length t)) (drop (j - i) s) = c # t \<and>
     (\<forall>k. i \<le> k \<longrightarrow> k < j \<longrightarrow> take (Suc (length t)) (drop (k - i) s) \<noteq> c # t)"
proof (induction s arbitrary: i)
  case Nil
  then show ?case by simp
next
  case (Cons a s)
  have hit: "strncmp s t (int (strlen t)) = 0 \<longleftrightarrow> take (length t) s = t"
    using Cons.prems by (simp add: strncmp_prefix strlen_length)
  show ?case
  proof (cases "a = c \<and> take (length t) s = t")
    case True
    with Cons.prems hit show ?thesis by (auto simp: le_less)
  next
    case False
    then have "strstr_scan c t i (a # s) = strstr_scan c t (Suc i) s"
      using Cons.prems hit by auto
    also have "\<dots> = Some j \<longleftrightarrow> Suc i \<le> j \<and> take (Suc (length t)) (drop (j - Suc i) s) = c # t \<and>
        (\<forall>k. Suc i \<le> k \<longrightarrow> k < j \<longrightarrow> take (Suc (length t)) (drop (k - Suc i) s) \<noteq> c # t)"
      using Cons.prems by (intro Cons.IH) auto
    also have "\<dots> \<longleftrightarrow> i \<le> j \<and> take (Suc (length t)) (drop (j - i) (a # s)) = c # t \<and>
        (\<forall>k. i \<le> k \<longrightarrow> k < j \<longrightarrow> take (Suc (length t)) (drop (k - i) (a # s)) \<noteq> c # t)"
      using False by (cases "j = i") (auto simp: drop_Cons' Suc_le_eq split: if_splits)
    finally show ?thesis .
  qed
qed

lemma strstr_spec:
  assumes "valid_cstr s" "valid_cstr t"
  shows "strstr s t = Some j \<longleftrightarrow>
     take (length t) (drop j s) = t \<and> (\<forall>k<j. take (length t) (drop k s) \<noteq> t)"
proof (cases t)
  case Nil
  then show ?thesis by (auto simp: strstr_def)
next
  case (Cons c t')
  with assms strstr_scan_Some [of s t' c 0 j] show ?thesis
    by (simp add: strstr_def)
qed


lemma word_less_ten_cases:
  assumes "(r :: u32) < 10"
  shows "r \<in> {0, 1, 2, 3, 4, 5, 6, 7, 8, 9}"
proof -
  have "unat r < 10" using assms by (simp add: word_less_nat_alt)
  then have "unat r \<in> {0, 1, 2, 3, 4, 5, 6, 7, 8, 9}" by auto
  then show ?thesis by (auto simp: word_unat_eq_iff)
qed

lemma digit_char_decimal:
  assumes "r < 10"
  shows "48 \<le> sint (digit_char r) \<and> sint (digit_char r) \<le> 57 \<and>
    (word_of_int (sint (digit_char r) - 48) :: u32) = r"
  using word_less_ten_cases [OF assms] by (auto simp: digit_char_def)

lemma atoi_digits_itoa_digits:
  "atoi_digits (rev (itoa_digits 10 u) @ rest) 0 = atoi_digits rest u"
proof (induction u arbitrary: rest rule: measure_induct_rule [where f = unat])
  case (less u)
  show ?case
  proof (cases "u = 0")
    case True
    then show ?thesis by (simp add: itoa_digits.simps)
  next
    case False
    then have "unat (u div 10) < unat u"
      by (simp add: unat_div unat_gt_0)
    note IH = less.IH [OF this]
    have "u mod 10 < 10" by (simp add: word_less_nat_alt unat_mod)
    note d = digit_char_decimal [OF this]
    have "itoa_digits 10 u = digit_char (u mod 10) # itoa_digits 10 (u div 10)"
      using False by (subst itoa_digits.simps) simp
    with IH d show ?thesis by (simp add: mult.commute [of _ 10] mult_div_mod_eq)
  qed
qed

lemma itoa_digits_decimal:
  "c \<in> set (itoa_digits 10 u) \<Longrightarrow> 48 \<le> sint c \<and> sint c \<le> 57"
proof (induction u rule: measure_induct_rule [where f = unat])
  case (less u)
  then have "u \<noteq> 0" by (auto simp: itoa_digits.simps [of 10 0])
  then have "unat (u div 10) < unat u" and "u mod 10 < 10"
    by (simp_all add: unat_div unat_gt_0 word_less_nat_alt unat_mod)
  with less \<open>u \<noteq> 0\<close> show ?case
    by (subst (asm) itoa_digits.simps) (auto dest: digit_char_decimal split: if_splits)
qed

lemma itoa_tmp_decimal: "c \<in> set (itoa_tmp 100 u) \<Longrightarrow> 48 \<le> sint c \<and> sint c \<le> 57"
  by (auto simp: itoa_tmp_def itoa_base_def dest: itoa_digits_decimal split: if_splits)

lemma itoa_tmp_nonempty: "itoa_tmp base u \<noteq> []"
  by (simp add: itoa_tmp_def itoa_base_def itoa_digits.simps [of _ u])

lemma atoi_digits_itoa_tmp: "atoi_digits (rev (itoa_tmp 100 u)) 0 = u"
  using atoi_digits_itoa_digits [of u "[]"] by (simp add: itoa_tmp_def itoa_base_def)

lemma decimal_not_special:
  "48 \<le> sint (c::u8) \<Longrightarrow> sint c \<le> 57 \<Longrightarrow> \<not> isspace c \<and> c \<noteq> 45 \<and> c \<noteq> 43 \<and> c \<noteq> 0"
  by (auto simp: isspace_def)

lemma itoa_digits_length:
  assumes "8 \<le> b" shows "unat u < 8 ^ n \<Longrightarrow> length (itoa_digits b u) \<le> n"
proof (induction n arbitrary: u)
  case 0
  then have "u = 0" by (simp add: unat_eq_zero)
  then show ?case by (simp add: itoa_digits.simps)
next
  case (Suc n)
  have "unat u div unat b \<le> unat u div 8"
    using assms by (intro div_le_mono2) (simp_all add: word_le_nat_alt)
  also have "\<dots> < 8 ^ n" using Suc.prems by (simp add: less_mult_imp_div_less)
  finally have "length (itoa_digits b (u div b)) \<le> n" by (intro Suc.IH) (simp add: unat_div)
  then show ?case by (subst itoa_digits.simps) simp
qed

section \<open>Properties\<close>

text \<open>\<^verbatim>\<open>memmove\<close> copies correctly whatever the overlap of the two regions: every destination
  byte receives the byte the source held before the call, and no other byte changes.\<close>

theorem memmove_copies:
  "memmove m d s n =
     (\<lambda>x. if d \<le> x \<and> x < d + unat n then m (s + (x - d)) else m x)"
  by (rule ext) (rule memmove_apply)

text \<open>\<^verbatim>\<open>atoi\<close> reads back every number \<^verbatim>\<open>itoa\<close> prints in decimal (the smallest integer,
  whose negation overflows in C, is left out).\<close>

theorem itoa_atoi_roundtrip:
  assumes "- (2 ^ 31) < sint d"
  shows "atoi (Some (itoa 100 d)) = d"
proof (cases "sint d < 0")
  case True
  then show ?thesis
    by (simp add: itoa_def atoi_def isspace_def atoi_digits_itoa_tmp)
next
  case False
  obtain c s where s: "rev (itoa_tmp 100 d) = c # s"
    using itoa_tmp_nonempty by (metis neq_Nil_conv rev_is_Nil_conv)
  then have "c \<in> set (itoa_tmp 100 d)" by (metis list.set_intros(1) set_rev)
  then have "\<not> isspace c \<and> c \<noteq> 45 \<and> c \<noteq> 43"
    by (auto dest: itoa_tmp_decimal decimal_not_special)
  moreover have "itoa 100 d = c # s" using False s by (simp add: itoa_def)
  ultimately show ?thesis
    using atoi_digits_itoa_tmp [of d] s by (simp add: atoi_def)
qed

theorem itoa_atoi_roundtrip_witness:
  "- (2 ^ 31) < sint (- 42 :: c_int) \<and> atoi (Some (itoa 100 (- 42))) = - 42"
  using itoa_atoi_roundtrip [of "- 42"] by simp

text \<open>\<^verbatim>\<open>itoa\<close> never writes past its scratch array \<^verbatim>\<open>tmp[32]\<close>: at most 11 digits in any base
  it supports, and at most 12 characters of output before the terminator.\<close>

theorem itoa_scratch_bound: "length (itoa_tmp base u) \<le> 11 \<and> length (itoa base d) \<le> 12"
proof -
  have "length (itoa_tmp base v) \<le> 11" for v
  proof -
    have "unat v < 2 ^ 32" using unsigned_less [of v] by simp
    then have "unat v < 8 ^ 11" by simp
    then show ?thesis
      using itoa_digits_length [of "itoa_base base" v 11]
      by (auto simp: itoa_tmp_def itoa_base_def word_le_nat_alt)
  qed
  then show ?thesis by (auto simp: itoa_def intro: order_trans [of _ 11])
qed

text \<open>\<^verbatim>\<open>strstr\<close> returns the first position at which the needle occurs.\<close>

theorem strstr_first_occurrence:
  assumes "valid_cstr s" and "valid_cstr t"
  shows "strstr s t = Some j \<longleftrightarrow>
     take (length t) (drop j s) = t \<and> (\<forall>k<j. take (length t) (drop k s) \<noteq> t)"
  using assms by (rule strstr_spec)

theorem strstr_first_occurrence_witness:
  "strstr [97, 98, 97, 98, 99] [97, 98, 99] = Some 2"
  using strstr_first_occurrence [of "[97, 98, 97, 98, 99]" "[97, 98, 99]" 2]
  by (auto simp: less_2_cases_iff)

end
