(* ===== verification/Block.thy ===== *)
theory Block
  imports CString
begin

text \<open>
  The block layer, \<^verbatim>\<open>src/block/block.c\<close> and \<^verbatim>\<open>include/block/block.h\<close>.

  A device (record \<open>block_device\<close>) carries the driver's function pointers; a null pointer is
  \<open>None\<close>. A driver routine is an arbitrary function of the hardware state \<open>'d\<close>: it returns the
  new hardware state, its return code and, for a read, the bytes it stored in the caller's buffer
  (also when it fails half way). The caller's buffer is a function from offsets to bytes; offsets
  are computed in 32 bits as in the code, so wrap-around of \<^verbatim>\<open>done * sector_size\<close> is visible.

  The transfer loops split a request into batches of at most 1024 sectors and halve the batch
  when the driver fails. Shown: the loops terminate; under the driver contract
  (\<open>driver_reads\<close>, \<open>driver_writes\<close>) a successful transfer moves exactly the requested
  sectors; a device that can transfer single sectors is always served; the registry never
  holds more than eight devices and finds a device by the name it was registered with.
\<close>

section \<open>Devices and the registry\<close>

type_synonym 'd read_fn = "'d \<Rightarrow> u32 \<Rightarrow> u32 \<Rightarrow> 'd \<times> int \<times> u8 list"
type_synonym 'd write_fn = "'d \<Rightarrow> u32 \<Rightarrow> u32 \<Rightarrow> u8 list \<Rightarrow> 'd \<times> int"

record 'd block_ops =
  read_sectors :: "'d read_fn option"
  write_sectors :: "'d write_fn option"

record 'd block_device =
  present :: bool
  name :: cbuf
  sector_size :: u32
  sector_count :: u32
  start_lba :: u32
  ctx :: nat
  ops :: "'d block_ops"

definition BLOCK_NAME_MAX :: nat where [model_simps]: "BLOCK_NAME_MAX = 16"
definition BLOCK_MAX_DEVICES :: nat where [model_simps]: "BLOCK_MAX_DEVICES = 8"
definition BLOCK_BATCH_MAX_SECTORS :: u32 where [model_simps]: "BLOCK_BATCH_MAX_SECTORS = 1024"

definition zero_block_device :: "'d block_device" where
  "zero_block_device =
     \<lparr>present = False, name = replicate BLOCK_NAME_MAX 0, sector_size = 0, sector_count = 0,
      start_lba = 0, ctx = 0, ops = \<lparr>read_sectors = None, write_sectors = None\<rparr>\<rparr>"

record 'd block_state =
  block_devices :: "'d block_device list"
  g_block_count :: nat

definition block_init :: "'d block_state" where
  "block_init =
     \<lparr>block_devices = replicate BLOCK_MAX_DEVICES zero_block_device, g_block_count = 0\<rparr>"

definition block_register ::
  "cstr option \<Rightarrow> u32 \<Rightarrow> u32 \<Rightarrow> u32 \<Rightarrow> nat \<Rightarrow> 'd block_ops \<Rightarrow> 'd block_state \<Rightarrow> int \<times> 'd block_state"
where
  "block_register nm ssize scount lba cx op st =
     (if BLOCK_MAX_DEVICES \<le> g_block_count st then (-1, st)
      else
        let dname = (case nm of None \<Rightarrow> replicate BLOCK_NAME_MAX 0
              | Some s \<Rightarrow> (the (strncpy (replicate BLOCK_NAME_MAX 0) s (BLOCK_NAME_MAX - 1)))
                            [BLOCK_NAME_MAX - 1 := 0]);
            dev = \<lparr>present = True, name = dname, sector_size = ssize, sector_count = scount,
                   start_lba = lba, ctx = cx, ops = op\<rparr>;
            i = g_block_count st
        in (int i, st\<lparr>block_devices := (block_devices st)[i := dev], g_block_count := Suc i\<rparr>))"

definition block_get :: "'d block_state \<Rightarrow> int \<Rightarrow> nat option" where
  "block_get st idx = (if idx < 0 \<or> idx \<ge> int (g_block_count st) then None else Some (nat idx))"

definition block_find :: "'d block_state \<Rightarrow> cstr \<Rightarrow> nat option" where
  "block_find st nm =
     first_idx (\<lambda>i. strcmp (name (block_devices st ! i)) nm = 0) 0 (g_block_count st)"

definition block_count :: "'d block_state \<Rightarrow> nat" where
  "block_count st = g_block_count st"

section \<open>Sector transfer\<close>

definition put_bytes :: "(nat \<Rightarrow> u8) \<Rightarrow> nat \<Rightarrow> u8 list \<Rightarrow> (nat \<Rightarrow> u8)" where
  "put_bytes out off bs = (\<lambda>x. if off \<le> x \<and> x < off + length bs then bs ! (x - off) else out x)"

definition get_bytes :: "(nat \<Rightarrow> u8) \<Rightarrow> nat \<Rightarrow> nat \<Rightarrow> u8 list" where
  "get_bytes src off n = map (\<lambda>i. src (off + i)) [0..<n]"

definition next_chunk :: "u32 \<Rightarrow> u32 \<Rightarrow> u32 \<Rightarrow> u32" where
  "next_chunk count dn max_batch = (if count - dn > max_batch then max_batch else count - dn)"

definition smaller_batch :: "u32 \<Rightarrow> u32" where
  "smaller_batch chunk = (if chunk div 2 = 0 then 1 else chunk div 2)"

lemma next_chunk_facts:
  assumes "dn < count" and "next_chunk count dn mb \<noteq> 0"
  shows "0 < unat (next_chunk count dn mb)"
    and "unat (dn + next_chunk count dn mb) = unat dn + unat (next_chunk count dn mb)"
    and "unat dn + unat (next_chunk count dn mb) \<le> unat count"
    and "unat (next_chunk count dn mb) \<le> unat mb"
proof -
  have "unat (count - dn) = unat count - unat dn"
    using assms(1) by (simp add: unat_minus_no_wrap)
  then have "unat (next_chunk count dn mb) \<le> unat count - unat dn"
    and "unat (next_chunk count dn mb) \<le> unat mb"
    by (auto simp: next_chunk_def word_less_nat_alt)
  moreover have "unat dn < unat count" using assms(1) by (simp add: word_less_nat_alt)
  ultimately show le: "unat dn + unat (next_chunk count dn mb) \<le> unat count"
    and "unat (next_chunk count dn mb) \<le> unat mb" by simp_all
  show "0 < unat (next_chunk count dn mb)" using assms(2) by (simp add: unat_gt_0)
  have "unat dn + unat (next_chunk count dn mb) < 2 ^ LENGTH(32)"
    using le unat_u32_bound [of count] by simp
  then show "unat (dn + next_chunk count dn mb) = unat dn + unat (next_chunk count dn mb)"
    by (rule unat_plus_no_wrap)
qed

lemma next_chunk_pos: "dn < count \<Longrightarrow> 0 < unat mb \<Longrightarrow> next_chunk count dn mb \<noteq> 0"
  by (auto simp: next_chunk_def unat_gt_0)

lemma smaller_batch_facts:
  assumes "\<not> chunk \<le> 1"
  shows "unat (smaller_batch chunk) < unat chunk" and "0 < unat (smaller_batch chunk)"
  using assms by (auto simp: smaller_batch_def word_le_nat_alt unat_div unat_gt_0)

text \<open>A batch of zero sectors cannot occur (the batch limit starts at 1024 and never drops below
  one); the equations need it excluded to terminate, and \<open>block_read_loop_live\<close> covers the rest.\<close>

function block_read_loop ::
  "'d read_fn \<Rightarrow> u32 \<Rightarrow> u32 \<Rightarrow> u32 \<Rightarrow> 'd \<Rightarrow> u32 \<Rightarrow> u32 \<Rightarrow> (nat \<Rightarrow> u8) \<Rightarrow> 'd \<times> int \<times> (nat \<Rightarrow> u8)"
where
  "block_read_loop rd ss lba count d dn max_batch out =
     (if \<not> dn < count then (d, 0, out)
      else let chunk = next_chunk count dn max_batch
           in if chunk = 0 then (d, -1, out)
              else case rd d (lba + dn) chunk of (d', rc, bs) \<Rightarrow>
                let out' = put_bytes out (unat (dn * ss)) bs
                in if rc = 0 then block_read_loop rd ss lba count d' (dn + chunk) max_batch out'
                   else if chunk \<le> 1 then (d', -1, out')
                   else block_read_loop rd ss lba count d' dn (smaller_batch chunk) out')"
  by pat_completeness auto
termination
proof (relation "measures [\<lambda>(rd, ss, lba, count, d, dn, mb, out). unat count - unat dn,
    \<lambda>(rd, ss, lba, count, d, dn, mb, out). unat mb]", goal_cases)
  case 2
  then show ?case using next_chunk_facts by fastforce
next
  case 3
  then show ?case using next_chunk_facts(4) smaller_batch_facts(1) by fastforce
qed simp

declare block_read_loop.simps [simp del]

function block_write_loop ::
  "'d write_fn \<Rightarrow> u32 \<Rightarrow> u32 \<Rightarrow> u32 \<Rightarrow> (nat \<Rightarrow> u8) \<Rightarrow> 'd \<Rightarrow> u32 \<Rightarrow> u32 \<Rightarrow> 'd \<times> int"
where
  "block_write_loop wr ss lba count src d dn max_batch =
     (if \<not> dn < count then (d, 0)
      else let chunk = next_chunk count dn max_batch
           in if chunk = 0 then (d, -1)
              else case wr d (lba + dn) chunk
                     (get_bytes src (unat (dn * ss)) (unat chunk * unat ss)) of (d', rc) \<Rightarrow>
                if rc = 0 then block_write_loop wr ss lba count src d' (dn + chunk) max_batch
                else if chunk \<le> 1 then (d', -1)
                else block_write_loop wr ss lba count src d' dn (smaller_batch chunk))"
  by pat_completeness auto
termination
proof (relation "measures [\<lambda>(wr, ss, lba, count, src, d, dn, mb). unat count - unat dn,
    \<lambda>(wr, ss, lba, count, src, d, dn, mb). unat mb]", goal_cases)
  case 2
  then show ?case using next_chunk_facts by fastforce
next
  case 3
  then show ?case using next_chunk_facts(4) smaller_batch_facts(1) by fastforce
qed simp

declare block_write_loop.simps [simp del]

definition block_read_sectors ::
  "'d block_device option \<Rightarrow> 'd \<Rightarrow> u32 \<Rightarrow> u32 \<Rightarrow> (nat \<Rightarrow> u8) option \<Rightarrow> 'd \<times> int \<times> (nat \<Rightarrow> u8) option"
where
  "block_read_sectors dev d lba count out =
     (case (dev, out) of
        (Some dv, Some o1) \<Rightarrow>
          (case read_sectors (ops dv) of
             None \<Rightarrow> (d, -1, out)
           | Some rd \<Rightarrow>
               if sector_size dv = 0 then (d, -1, out)
               else if count = 0 then (d, 0, out)
               else case block_read_loop rd (sector_size dv) lba count d 0 BLOCK_BATCH_MAX_SECTORS o1
                    of (d', rc, o2) \<Rightarrow> (d', rc, Some o2))
      | _ \<Rightarrow> (d, -1, out))"

definition block_write_sectors ::
  "'d block_device option \<Rightarrow> 'd \<Rightarrow> u32 \<Rightarrow> u32 \<Rightarrow> (nat \<Rightarrow> u8) option \<Rightarrow> 'd \<times> int"
where
  "block_write_sectors dev d lba count inp =
     (case (dev, inp) of
        (Some dv, Some src) \<Rightarrow>
          (case write_sectors (ops dv) of
             None \<Rightarrow> (d, -1)
           | Some wr \<Rightarrow>
               if sector_size dv = 0 then (d, -1)
               else if count = 0 then (d, 0)
               else block_write_loop wr (sector_size dv) lba count src d 0 BLOCK_BATCH_MAX_SECTORS)
      | _ \<Rightarrow> (d, -1))"

section \<open>The driver contract\<close>

definition sectors :: "('d \<Rightarrow> u32 \<Rightarrow> u8 list) \<Rightarrow> 'd \<Rightarrow> u32 \<Rightarrow> nat \<Rightarrow> u8 list" where
  "sectors content d lba n = concat (map (\<lambda>i. content d (lba + word_of_nat i)) [0..<n])"

definition driver_reads :: "'d read_fn \<Rightarrow> u32 \<Rightarrow> ('d \<Rightarrow> u32 \<Rightarrow> u8 list) \<Rightarrow> bool" where
  "driver_reads rd ss content \<longleftrightarrow>
     (\<forall>d lba. length (content d lba) = unat ss) \<and>
     (\<forall>d lba n d' rc bs. rd d lba n = (d', rc, bs) \<longrightarrow>
        content d' = content d \<and> length bs \<le> unat n * unat ss \<and>
        (rc = 0 \<longrightarrow> bs = sectors content d lba (unat n)))"

definition driver_writes :: "'d write_fn \<Rightarrow> u32 \<Rightarrow> ('d \<Rightarrow> u32 \<Rightarrow> u8 list) \<Rightarrow> bool" where
  "driver_writes wr ss content \<longleftrightarrow>
     (\<forall>d lba n bs d' rc. wr d lba n bs = (d', rc) \<longrightarrow> rc = 0 \<longrightarrow> length bs = unat n * unat ss \<longrightarrow>
        sectors content d' lba (unat n) = bs \<and>
        (\<forall>x. (\<forall>i < unat n. x \<noteq> lba + word_of_nat i) \<longrightarrow> content d' x = content d x)) \<and>
     (\<forall>d lba n bs d' rc. wr d lba n bs = (d', rc) \<longrightarrow> rc \<noteq> 0 \<longrightarrow>
        (\<forall>x. (\<forall>i < unat n. x \<noteq> lba + word_of_nat i) \<longrightarrow> content d' x = content d x))"

lemma length_sectors:
  "(\<And>l. length (content d l) = ss) \<Longrightarrow> length (sectors content d lba n) = n * ss"
  by (induction n) (simp_all add: sectors_def)

lemma sectors_add:
  "sectors content d lba (n + k) = sectors content d lba n @ sectors content d (lba + word_of_nat n) k"
  by (induction k) (simp_all add: sectors_def algebra_simps)

lemma sectors_cong: "content d = content d' \<Longrightarrow> sectors content d = sectors content d'"
  by (rule ext)+ (simp add: sectors_def)

lemma get_put_bytes_prefix:
  "get_bytes (put_bytes out off bs) 0 off = get_bytes out 0 off"
  by (simp add: get_bytes_def put_bytes_def)

lemma get_put_bytes_extend:
  "get_bytes (put_bytes out off bs) 0 (off + length bs) = get_bytes out 0 off @ bs"
  by (rule nth_equalityI) (auto simp: get_bytes_def put_bytes_def nth_append)

lemma length_get_bytes [simp]: "length (get_bytes src off n) = n"
  by (simp add: get_bytes_def)

lemma get_bytes_add: "get_bytes src off (n + k) = get_bytes src off n @ get_bytes src (off + n) k"
  by (rule nth_equalityI) (auto simp: get_bytes_def nth_append algebra_simps)

lemma driver_readsD:
  assumes "driver_reads rd ss content" "rd d lba n = (d', rc, bs)"
  shows "content d' = content d" "length bs \<le> unat n * unat ss" "rc = 0 \<Longrightarrow> bs = sectors content d lba (unat n)"
  using assms unfolding driver_reads_def by blast+

lemma driver_reads_length: "driver_reads rd ss content \<Longrightarrow> length (content d lba) = unat ss"
  unfolding driver_reads_def by blast

lemma unat_mult_no_wrap_le:
  assumes "unat (a :: u32) \<le> unat b" "unat b * unat s < 2 ^ 32"
  shows "unat (a * s) = unat a * unat s"
proof -
  have "unat a * unat s < 2 ^ 32"
    using assms by (meson le_less_trans mult_le_mono1)
  then show ?thesis by (simp add: unat_word_ariths)
qed

lemma block_read_loop_unfold:
  assumes "dn < count" "next_chunk count dn mb \<noteq> 0"
    "rd d (lba + dn) (next_chunk count dn mb) = (d1, rc, bs)"
  shows "block_read_loop rd ss lba count d dn mb out =
    (let out' = put_bytes out (unat (dn * ss)) bs
     in if rc = 0 then block_read_loop rd ss lba count d1 (dn + next_chunk count dn mb) mb out'
        else if next_chunk count dn mb \<le> 1 then (d1, -1, out')
        else block_read_loop rd ss lba count d1 dn (smaller_batch (next_chunk count dn mb)) out')"
  using assms by (subst block_read_loop.simps) (simp add: Let_def)

lemma block_read_loop_correct:
  "driver_reads rd ss content \<Longrightarrow> unat dn \<le> unat count \<Longrightarrow> unat count * unat ss < 2 ^ 32 \<Longrightarrow>
   get_bytes out 0 (unat dn * unat ss) = sectors content d lba (unat dn) \<Longrightarrow>
   block_read_loop rd ss lba count d dn mb out = (d', 0, out') \<Longrightarrow>
   content d' = content d \<and>
   get_bytes out' 0 (unat count * unat ss) = sectors content d lba (unat count)"
proof (induction rd ss lba count d dn mb out rule: block_read_loop.induct)
  case (1 rd ss lba count d dn mb out)
  note prems = "1.prems"
  show ?case
  proof (cases "dn < count")
    case False
    with prems have "unat dn = unat count" by (simp add: word_less_nat_alt)
    with False prems show ?thesis by (simp add: block_read_loop.simps [of rd ss lba count d dn])
  next
    case True
    let ?c = "next_chunk count dn mb"
    have c: "?c \<noteq> 0" using prems(5) True by (auto simp: block_read_loop.simps [of rd ss lba count d dn])
    obtain d1 rc bs where rd: "rd d (lba + dn) ?c = (d1, rc, bs)" by (metis prod_cases3)
    note drv = driver_readsD [OF prems(1) rd] and facts = next_chunk_facts [OF True c]
    have off: "unat (dn * ss) = unat dn * unat ss"
      using prems(2,3) by (rule unat_mult_no_wrap_le)
    let ?out = "put_bytes out (unat (dn * ss)) bs"
    note eq = block_read_loop_unfold [of dn count mb rd d lba d1 rc bs ss out, OF True c rd]
    show ?thesis
    proof (cases "rc = 0")
      case True
      have "length bs = unat ?c * unat ss"
        using drv(3) True prems(1) by (simp add: length_sectors driver_reads_length)
      then have "get_bytes ?out 0 (unat (dn + ?c) * unat ss) = sectors content d1 lba (unat (dn + ?c))"
        using get_put_bytes_extend [of out "unat dn * unat ss" bs] prems(4) drv True facts(2) off
        by (simp add: algebra_simps sectors_add sectors_cong [of content d1 d])
      then show ?thesis
        using "1.IH"(1) [OF _ refl c rd [symmetric] refl refl True] \<open>dn < count\<close> prems drv(1) eq True facts
        by (simp add: Let_def sectors_cong [of content d1 d])
    next
      case False
      have "get_bytes ?out 0 (unat dn * unat ss) = sectors content d1 lba (unat dn)"
        using prems(4) off drv(1) get_put_bytes_prefix [of out "unat dn * unat ss" bs]
        by (simp add: sectors_cong [of content d1 d])
      moreover have "\<not> ?c \<le> 1" using eq False prems(5) by (auto simp: Let_def split: if_splits)
      ultimately show ?thesis
        using "1.IH"(2) [OF _ refl c rd [symmetric] refl refl False] \<open>dn < count\<close> prems drv(1) eq False
        by (simp add: Let_def sectors_cong [of content d1 d])
    qed
  qed
qed

lemma block_read_loop_live:
  "(\<And>d l. fst (snd (rd d l 1)) = 0) \<Longrightarrow> 0 < unat mb \<Longrightarrow>
   fst (snd (block_read_loop rd ss lba count d dn mb out)) = 0"
proof (induction rd ss lba count d dn mb out rule: block_read_loop.induct)
  case (1 rd ss lba count d dn mb out)
  show ?case
  proof (cases "dn < count")
    case False
    then show ?thesis by (simp add: block_read_loop.simps [of rd ss lba count d dn])
  next
    case True
    let ?c = "next_chunk count dn mb"
    have c: "?c \<noteq> 0" using True "1.prems"(2) by (rule next_chunk_pos)
    obtain d1 rc bs where rd: "rd d (lba + dn) ?c = (d1, rc, bs)" by (metis prod_cases3)
    note eq = block_read_loop_unfold [of dn count mb rd d lba d1 rc bs ss out, OF True c rd]
    show ?thesis
    proof (cases "rc = 0")
      case zero: True
      then show ?thesis
        using "1.IH"(1) [OF _ refl c rd [symmetric] refl refl zero] True "1.prems" eq by (simp add: Let_def)
    next
      case False
      have "?c \<noteq> 1" using "1.prems"(1) [of d "lba + dn"] rd False by auto
      with c have gt: "\<not> ?c \<le> 1" by (simp add: word_le_nat_alt word_unat_eq_iff)
      with False show ?thesis
        using "1.IH"(2) [OF _ refl c rd [symmetric] refl refl False gt] True "1.prems" eq
          smaller_batch_facts(2) [OF gt]
        by (simp add: Let_def)
    qed
  qed
qed

lemma block_write_loop_unfold:
  assumes "dn < count" "next_chunk count dn mb \<noteq> 0"
    "wr d (lba + dn) (next_chunk count dn mb)
       (get_bytes src (unat (dn * ss)) (unat (next_chunk count dn mb) * unat ss)) = (d1, rc)"
  shows "block_write_loop wr ss lba count src d dn mb =
    (if rc = 0 then block_write_loop wr ss lba count src d1 (dn + next_chunk count dn mb) mb
     else if next_chunk count dn mb \<le> 1 then (d1, -1)
     else block_write_loop wr ss lba count src d1 dn (smaller_batch (next_chunk count dn mb)))"
  using assms by (subst block_write_loop.simps) (simp add: Let_def)

definition outside :: "u32 \<Rightarrow> nat \<Rightarrow> u32 \<Rightarrow> bool" where
  "outside lba n x \<longleftrightarrow> (\<forall>i<n. x \<noteq> lba + word_of_nat i)"

lemma outside_mono: "outside lba n x \<Longrightarrow> k \<le> n \<Longrightarrow> outside lba k x"
  by (simp add: outside_def)

lemma outside_sub: "outside lba n x \<Longrightarrow> k + j \<le> n \<Longrightarrow> outside (lba + word_of_nat k) j x"
  unfolding outside_def
proof (intro allI impI notI)
  fix l assume *: "\<forall>i<n. x \<noteq> lba + word_of_nat i" "k + j \<le> n" "l < j"
    "x = lba + word_of_nat k + word_of_nat l"
  then have "x = lba + word_of_nat (k + l)" and "k + l < n" by (simp_all add: add.assoc)
  with *(1) show False by blast
qed

lemma outside_before:
  assumes "i < k" "k + j \<le> 2 ^ 32"
  shows "outside (lba + word_of_nat k) j (lba + word_of_nat i)"
  unfolding outside_def
proof (intro allI impI notI)
  fix l assume l: "l < j" "lba + word_of_nat i = lba + word_of_nat k + (word_of_nat l :: u32)"
  then have "(word_of_nat i :: u32) = word_of_nat (k + l)" by (simp add: add.assoc)
  then have "unat (word_of_nat i :: u32) = unat (word_of_nat (k + l) :: u32)" by simp
  with assms l(1) show False by (simp only: unat_of_nat) simp
qed

lemma sectors_frame:
  "(\<And>i. i < n \<Longrightarrow> content d' (lba + word_of_nat i) = content d (lba + word_of_nat i)) \<Longrightarrow>
   sectors content d' lba n = sectors content d lba n"
  unfolding sectors_def by (intro arg_cong [where f = concat] map_cong) auto

lemma driver_writesD:
  assumes "driver_writes wr ss content" "wr d lba n bs = (d', rc)"
  shows "rc = 0 \<Longrightarrow> length bs = unat n * unat ss \<Longrightarrow> sectors content d' lba (unat n) = bs"
    and "length bs = unat n * unat ss \<Longrightarrow> outside lba (unat n) x \<Longrightarrow> content d' x = content d x"
  using assms unfolding driver_writes_def outside_def by blast+

lemma block_write_loop_correct:
  "driver_writes wr ss content \<Longrightarrow> unat dn \<le> unat count \<Longrightarrow> unat count * unat ss < 2 ^ 32 \<Longrightarrow>
   sectors content d lba (unat dn) = get_bytes src 0 (unat dn * unat ss) \<Longrightarrow>
   block_write_loop wr ss lba count src d dn mb = (d', 0) \<Longrightarrow>
   sectors content d' lba (unat count) = get_bytes src 0 (unat count * unat ss) \<and>
   (\<forall>x. outside lba (unat count) x \<longrightarrow> content d' x = content d x)"
proof (induction wr ss lba count src d dn mb rule: block_write_loop.induct)
  case (1 wr ss lba count src d dn mb)
  note prems = "1.prems"
  show ?case
  proof (cases "dn < count")
    case False
    with prems have "unat dn = unat count" by (simp add: word_less_nat_alt)
    with False prems show ?thesis by (simp add: block_write_loop.simps [of wr ss lba count src d dn])
  next
    case True
    let ?c = "next_chunk count dn mb"
    let ?bs = "get_bytes src (unat (dn * ss)) (unat ?c * unat ss)"
    have c: "?c \<noteq> 0" using prems(5) True by (auto simp: block_write_loop.simps [of wr ss lba count src d dn])
    obtain d1 rc where wr: "wr d (lba + dn) ?c ?bs = (d1, rc)" by fastforce
    note drv = driver_writesD [OF prems(1) wr] and facts = next_chunk_facts [OF True c]
    have off: "unat (dn * ss) = unat dn * unat ss"
      using prems(2,3) by (rule unat_mult_no_wrap_le)
    note eq = block_write_loop_unfold [of dn count mb wr d lba src ss d1 rc, OF True c wr]
    have le: "unat dn + unat ?c \<le> 2 ^ 32"
      using facts(3) unat_u32_bound [of count] by simp
    have before: "sectors content d1 lba (unat dn) = get_bytes src 0 (unat dn * unat ss)"
      unfolding prems(4) [symmetric]
      by (intro sectors_frame drv(2)) (use outside_before [OF _ le, of _ lba] in simp_all)
    have frame: "content d1 x = content d x" if "outside lba (unat count) x" for x
      using drv(2) outside_sub [OF that facts(3)] by simp
    show ?thesis
    proof (cases "rc = 0")
      case zero: True
      have "sectors content d1 lba (unat (dn + ?c)) = get_bytes src 0 (unat (dn + ?c) * unat ss)"
        using drv(1) zero before facts(2) off
        by (simp add: sectors_add add_mult_distrib get_bytes_add)
      then show ?thesis
        using "1.IH"(1) [OF _ refl c wr [symmetric] zero] True prems eq zero facts frame
        by simp
    next
      case False
      have "\<not> ?c \<le> 1" using eq False prems(5) by (auto split: if_splits)
      then show ?thesis
        using "1.IH"(2) [OF _ refl c wr [symmetric] False] True prems eq False before frame
        by simp
    qed
  qed
qed

section \<open>The registry\<close>

definition block_inv :: "'d block_state \<Rightarrow> bool" where
  "block_inv st \<longleftrightarrow> length (block_devices st) = BLOCK_MAX_DEVICES \<and>
     g_block_count st \<le> BLOCK_MAX_DEVICES"

lemma block_init_inv [inv_intros]: "block_inv block_init"
  by (simp add: block_inv_def block_init_def)

lemma block_register_inv [inv_intros]:
  "block_inv st \<Longrightarrow> block_inv (snd (block_register nm a b l cx bo st))"
  by (auto simp: block_inv_def block_register_def Let_def)

lemma registered_name:
  assumes "valid_cstr s" "length s < BLOCK_NAME_MAX"
  shows "cstr_of ((the (strncpy (replicate BLOCK_NAME_MAX 0) s (BLOCK_NAME_MAX - 1)))[BLOCK_NAME_MAX - 1 := 0]) = s"
proof -
  obtain k where k: "16 - length s = Suc k" "15 - length s = k"
    using assms(2) by (cases "16 - length s") (auto simp: model_simps)
  have *: "strncpy (replicate 16 0) s 15 = Some (s @ replicate k 0 @ [0])"
    using assms k by (subst strncpy_spec) (auto simp: model_simps)
  have "(s @ replicate k 0 @ [0])[15 := 0] = s @ 0 # replicate k (0 :: u8)"
    using assms k
    by (auto simp: list_eq_iff_nth_eq nth_list_update nth_append nth_Cons' model_simps)
  with * assms(1) show ?thesis
    by (simp add: model_simps cstr_of_terminated)
qed

lemma block_find_Some:
  "valid_cstr s \<Longrightarrow> block_find st s = Some i \<longleftrightarrow>
     i < g_block_count st \<and> cstr_of (name (block_devices st ! i)) = s \<and>
     (\<forall>j<i. cstr_of (name (block_devices st ! j)) \<noteq> s)"
  by (auto simp: block_find_def first_idx_Some strcmp_cbuf_zero_iff)

definition ram_read :: "(u32 \<Rightarrow> u8) read_fn" where
  "ram_read d lba n =
     (if unat n \<le> 2 then (d, 0, map (\<lambda>i. d (lba + word_of_nat i)) [0..<unat n]) else (d, -1, []))"

definition ram_write :: "(u32 \<Rightarrow> u8) write_fn" where
  "ram_write d lba n bs = ((\<lambda>x. if unat (x - lba) < unat n then bs ! unat (x - lba) else d x), 0)"

definition ram_device :: "(u32 \<Rightarrow> u8) block_device" where
  "ram_device = \<lparr>present = True, name = replicate 16 0, sector_size = 1, sector_count = 64,
     start_lba = 0, ctx = 0, ops = \<lparr>read_sectors = Some ram_read, write_sectors = Some ram_write\<rparr>\<rparr>"

lemma concat_singletons: "concat (map (\<lambda>i. [f i]) xs) = map f xs"
  by (induction xs) auto

lemma ram_driver_reads: "driver_reads ram_read 1 (\<lambda>d l. [d l])"
  by (auto simp: driver_reads_def ram_read_def sectors_def concat_singletons split: if_splits)

lemma ram_driver_writes: "driver_writes ram_write 1 (\<lambda>d l. [d l])"
proof -
  have unat_small: "unat (word_of_nat i :: u32) = i" if "i < unat (n :: u32)" for i n
    using that unat_u32_bound [of n] by (simp add: unat_of_nat)
  have out: "\<not> unat (x - lba) < unat n" if "\<forall>i<unat n. x \<noteq> lba + word_of_nat i" for x lba n :: u32
    using that by (auto dest!: spec [of _ "unat (x - lba)"])
  show ?thesis
    unfolding driver_writes_def ram_write_def
    by (auto simp: sectors_def concat_singletons unat_small list_eq_iff_nth_eq out)
qed

section \<open>Properties\<close>

text \<open>C36: a successful \<^verbatim>\<open>block_read_sectors\<close> leaves in the buffer exactly the requested sectors, in
  order, whatever batches the loop used and however often the driver failed and was retried with
  a smaller batch; the disk is not changed.\<close>

theorem block_read_sectors_correct:
  assumes "read_sectors (ops dev) = Some rd" "driver_reads rd (sector_size dev) content"
    and "unat count * unat (sector_size dev) < 2 ^ 32"
    and "block_read_sectors (Some dev) d lba count (Some out) = (d', 0, Some out')"
  shows "content d' = content d \<and>
    get_bytes out' 0 (unat count * unat (sector_size dev)) = sectors content d lba (unat count)"
proof (cases "count = 0")
  case True
  with assms show ?thesis
    by (auto simp: block_read_sectors_def get_bytes_def sectors_def split: if_splits)
next
  case False
  with assms have "block_read_loop rd (sector_size dev) lba count d 0 BLOCK_BATCH_MAX_SECTORS out = (d', 0, out')"
    by (auto simp: block_read_sectors_def split: if_splits prod.splits)
  with block_read_loop_correct [OF assms(2) _ assms(3), of 0 out d lba] show ?thesis
    by (simp add: get_bytes_def sectors_def)
qed

theorem block_read_sectors_correct_witness:
  "get_bytes (the (snd (snd (block_read_sectors (Some ram_device) ucast 5 3 (Some (\<lambda>_. 0)))))) 0 3 = [5, 6, 7]"
proof -
  obtain d' rc out' where r:
    "block_read_sectors (Some ram_device) ucast 5 3 (Some (\<lambda>_. 0)) = (d', rc, Some out')"
    by (cases "block_read_loop ram_read 1 5 3 ucast 0 BLOCK_BATCH_MAX_SECTORS (\<lambda>_. 0)")
      (auto simp: block_read_sectors_def ram_device_def)
  have "rc = 0"
    using r block_read_loop_live [of ram_read 1024 1 5 3 ucast 0 "\<lambda>_. 0"]
    by (auto simp: block_read_sectors_def ram_device_def model_simps ram_read_def split: prod.splits)
  with r have r0: "block_read_sectors (Some ram_device) ucast 5 3 (Some (\<lambda>_. 0)) = (d', 0, Some out')"
    by simp
  have "get_bytes out' 0 (unat (3 :: u32) * unat (sector_size ram_device)) =
      sectors (\<lambda>d l. [d l]) ucast 5 (unat (3 :: u32))"
    using block_read_sectors_correct [of ram_device ram_read "\<lambda>d l. [d l]", OF _ _ _ r0] ram_driver_reads
    by (simp add: ram_device_def)
  then show ?thesis
    using r by (simp add: ram_device_def sectors_def upt_rec)
qed

text \<open>halving the batch always ends in service: when the driver can read single sectors, every
  request succeeds.\<close>

theorem block_read_sectors_live:
  assumes "read_sectors (ops dev) = Some rd" "sector_size dev \<noteq> 0"
    and "\<And>d l. fst (snd (rd d l 1)) = 0"
  shows "fst (snd (block_read_sectors (Some dev) d lba count (Some out))) = 0"
  using assms block_read_loop_live [of rd BLOCK_BATCH_MAX_SECTORS "sector_size dev" lba count d 0 out]
  by (auto simp: block_read_sectors_def model_simps split: prod.splits)

theorem block_read_sectors_live_witness:
  "fst (snd (block_read_sectors (Some ram_device) ucast 5 3 (Some (\<lambda>_. 0)))) = 0"
  by (rule block_read_sectors_live [of ram_device ram_read]) (simp_all add: ram_device_def ram_read_def)

text \<open>C37: a successful \<^verbatim>\<open>block_write_sectors\<close> stores the buffer in the requested sectors and changes
  no other sector.\<close>

theorem block_write_sectors_correct:
  assumes "write_sectors (ops dev) = Some wr" "driver_writes wr (sector_size dev) content"
    and "unat count * unat (sector_size dev) < 2 ^ 32"
    and "block_write_sectors (Some dev) d lba count (Some src) = (d', 0)"
  shows "sectors content d' lba (unat count) = get_bytes src 0 (unat count * unat (sector_size dev)) \<and>
    (\<forall>x. outside lba (unat count) x \<longrightarrow> content d' x = content d x)"
proof (cases "count = 0")
  case True
  with assms show ?thesis
    by (auto simp: block_write_sectors_def get_bytes_def sectors_def split: if_splits)
next
  case False
  with assms have "block_write_loop wr (sector_size dev) lba count src d 0 BLOCK_BATCH_MAX_SECTORS = (d', 0)"
    by (auto simp: block_write_sectors_def split: if_splits)
  with block_write_loop_correct [OF assms(2) _ assms(3), of 0 d lba src] show ?thesis
    by (simp add: get_bytes_def sectors_def)
qed

theorem block_write_sectors_correct_witness:
  "fst (block_write_sectors (Some ram_device) (\<lambda>_. 9) 4 2 (Some (\<lambda>i. word_of_nat (i + 1)))) 5 = 2"
proof -
  obtain d' where r: "block_write_sectors (Some ram_device) (\<lambda>_. 9) 4 2
      (Some (\<lambda>i. word_of_nat (i + 1))) = (d', 0)"
    by (simp add: block_write_sectors_def ram_device_def ram_write_def model_simps
          block_write_loop.simps next_chunk_def word_less_nat_alt)
  have "sectors (\<lambda>d l. [d l]) d' 4 (unat (2 :: u32)) =
      get_bytes (\<lambda>i. word_of_nat (i + 1)) 0 (unat (2 :: u32) * unat (sector_size ram_device))"
    using block_write_sectors_correct [of ram_device ram_write "\<lambda>d l. [d l]", OF _ _ _ r] ram_driver_writes
    by (simp add: ram_device_def)
  with r show ?thesis by (simp add: ram_device_def sectors_def get_bytes_def upt_rec)
qed

text \<open>a device registered under a new name that fits the 16-byte field gets the next index and is
  found by that name and by that index.\<close>

theorem block_register_find:
  assumes "block_inv st" "valid_cstr s" "length s < BLOCK_NAME_MAX"
    and "g_block_count st < BLOCK_MAX_DEVICES" and "block_find st s = None"
    and "block_register (Some s) ssize scount lba cx op st = (idx, st')"
  shows "idx = int (g_block_count st) \<and> block_find st' s = Some (g_block_count st) \<and>
    block_get st' idx = Some (g_block_count st) \<and> block_count st' = Suc (block_count st)"
proof -
  have new: "block_devices st' ! g_block_count st = \<lparr>present = True,
      name = (the (strncpy (replicate BLOCK_NAME_MAX 0) s (BLOCK_NAME_MAX - 1)))[BLOCK_NAME_MAX - 1 := 0],
      sector_size = ssize, sector_count = scount, start_lba = lba, ctx = cx, ops = op\<rparr>"
    and old: "\<And>j. j < g_block_count st \<Longrightarrow> block_devices st' ! j = block_devices st ! j"
    and cnt: "g_block_count st' = Suc (g_block_count st)" "idx = int (g_block_count st)"
    using assms by (auto simp: block_register_def block_inv_def Let_def)
  have "cstr_of (name (block_devices st ! j)) \<noteq> s" if "j < g_block_count st" for j
    using assms(2,5) that by (auto simp: block_find_def first_idx_None strcmp_cbuf_zero_iff)
  then have "block_find st' s = Some (g_block_count st)"
    using assms(2,3) by (simp add: block_find_Some new old cnt registered_name [simplified])
  with cnt show ?thesis by (simp add: block_get_def block_count_def)
qed

theorem block_register_find_witness:
  "block_find (snd (block_register (Some [115, 100, 97]) 512 64 0 0
      \<lparr>read_sectors = None, write_sectors = None :: (u32 \<Rightarrow> u8) write_fn option\<rparr> block_init)) [115, 100, 97] = Some 0"
proof -
  have "block_inv (block_init :: (u32 \<Rightarrow> u8) block_state)" by (rule block_init_inv)
  moreover have "block_find (block_init :: (u32 \<Rightarrow> u8) block_state) [115, 100, 97] = None"
    by (simp add: block_find_def block_init_def first_idx_def)
  ultimately show ?thesis
    using block_register_find [of "block_init :: (u32 \<Rightarrow> u8) block_state" "[115, 100, 97]" 512 64 0 0
       "\<lparr>read_sectors = None, write_sectors = None\<rparr>"]
    by (simp add: block_init_def model_simps) (metis prod.collapse)
qed

end
