(* ===== verification/Task.thy ===== *)
theory Task
  imports Prelude
begin

text \<open>
  The task structure of \<^verbatim>\<open>include/sys/process.h\<close>.

  Pointers to tasks are values of \<open>tptr\<close>: \<open>TaskP i\<close> is \<^verbatim>\<open>&g_tasks[i]\<close> and \<open>IdleP c\<close> is
  \<^verbatim>\<open>&g_idle_tasks[c]\<close>; a null pointer is \<open>None\<close>. The task store \<open>task_heap\<close> maps pointers to
  structures, so that the intrusive links (run queue, process tree) are ordinary pointer fields
  and aliasing is explicit. Padding, the FPU save area and the argument pointer arrays that
  only alias \<^verbatim>\<open>start_argbuf\<close> are left out. \<open>zero_task\<close> is the structure after
  \<^verbatim>\<open>memset(t, 0, sizeof *t)\<close>.
\<close>

datatype task_state = TASK_UNUSED | TASK_RUNNABLE | TASK_RUNNING | TASK_BLOCKED | TASK_ZOMBIE

datatype tptr = TaskP nat | IdleP nat

record cpu_context =
  r15 :: u64
  r14 :: u64
  r13 :: u64
  r12 :: u64
  rbx :: u64
  rbp :: u64
  rip :: u64
  rsp :: u64

record edge_trap_frame =
  tf_rax :: u64
  tf_rbx :: u64
  tf_rcx :: u64
  tf_rdx :: u64
  tf_rbp :: u64
  tf_rdi :: u64
  tf_rsi :: u64
  tf_r8 :: u64
  tf_r9 :: u64
  tf_r10 :: u64
  tf_r11 :: u64
  tf_r12 :: u64
  tf_r13 :: u64
  tf_r14 :: u64
  tf_r15 :: u64
  tf_int_no :: u64
  tf_err_code :: u64
  tf_rip :: u64
  tf_cs :: u64
  tf_rflags :: u64
  tf_rsp :: u64
  tf_ss :: u64

record edge_user_vma =
  vma_start :: u64
  vma_end :: u64
  vma_prot :: u32
  vma_flags :: u32

record task =
  pid :: int
  ppid :: int
  exit_code :: int
  state :: task_state
  task_name :: cstr
  task_context :: cpu_context
  fork_tf :: edge_trap_frame
  cr3 :: u64
  kernel_stack_top :: u64
  user_stack_top :: u64
  user_heap_base :: u64
  user_brk :: u64
  user_heap_limit :: u64
  user_mmap_next :: u64
  user_vma_count :: u16
  fs_base :: u64
  start_entry :: u64
  start_argv :: u64
  start_envp :: u64
  start_at_phdr :: u64
  start_at_phnum :: u64
  start_at_entry :: u64
  start_at_base :: u64
  start_argc :: nat
  start_envc :: nat
  start_pending :: bool
  uid :: u32
  gid :: u32
  euid :: u32
  egid :: u32
  umask :: u32
  pgid :: int
  sid :: int
  ctty_kind :: int
  ctty_id :: int
  cwd :: cstr
  root :: cstr
  sigint_handler :: u64
  sigalrm_handler :: u64
  sigterm_handler :: u64
  sigchld_handler :: u64
  sigmask :: u64
  itimer_real_next_us :: u64
  itimer_real_interval_us :: u64
  itimer_real_active :: bool
  sigint_pending :: bool
  sigalrm_pending :: bool
  sigterm_pending :: bool
  sigchld_pending :: bool
  sig_stub_installed :: bool
  sigaltstack_sp :: u64
  sigaltstack_size :: u64
  sigaltstack_flags :: u32
  need_resched :: bool
  on_runqueue :: bool
  is_idle :: bool
  assigned_cpu :: int
  rq_prev :: "tptr option"
  rq_next :: "tptr option"
  parent :: "tptr option"
  first_child :: "tptr option"
  sibling_prev :: "tptr option"
  sibling_next :: "tptr option"
  start_argbuf :: "cstr list"
  user_vmas :: "edge_user_vma list"

definition PROCESS_USER_VMA_MAX :: nat where [model_simps]: "PROCESS_USER_VMA_MAX = 256"
definition TASK_NAME_MAX :: nat where [model_simps]: "TASK_NAME_MAX = 32"
definition PROCESS_CTTY_NONE :: int where [model_simps]: "PROCESS_CTTY_NONE = 0"
definition PROCESS_CTTY_CONSOLE :: int where [model_simps]: "PROCESS_CTTY_CONSOLE = 1"
definition PROCESS_CTTY_PTY :: int where [model_simps]: "PROCESS_CTTY_PTY = 2"

definition zero_vma :: edge_user_vma where
  "zero_vma = \<lparr>vma_start = 0, vma_end = 0, vma_prot = 0, vma_flags = 0\<rparr>"

definition zero_context :: cpu_context where
  "zero_context = \<lparr>r15 = 0, r14 = 0, r13 = 0, r12 = 0, rbx = 0, rbp = 0, rip = 0, rsp = 0\<rparr>"

definition zero_trap_frame :: edge_trap_frame where
  "zero_trap_frame = \<lparr>tf_rax = 0, tf_rbx = 0, tf_rcx = 0, tf_rdx = 0, tf_rbp = 0, tf_rdi = 0, tf_rsi = 0,
     tf_r8 = 0, tf_r9 = 0, tf_r10 = 0, tf_r11 = 0, tf_r12 = 0, tf_r13 = 0, tf_r14 = 0, tf_r15 = 0,
     tf_int_no = 0, tf_err_code = 0, tf_rip = 0, tf_cs = 0, tf_rflags = 0, tf_rsp = 0, tf_ss = 0\<rparr>"

definition zero_task :: task where
  "zero_task = \<lparr>pid = 0, ppid = 0, exit_code = 0, state = TASK_UNUSED, task_name = [],
     task_context = zero_context, fork_tf = zero_trap_frame, cr3 = 0, kernel_stack_top = 0,
     user_stack_top = 0, user_heap_base = 0, user_brk = 0, user_heap_limit = 0,
     user_mmap_next = 0, user_vma_count = 0, fs_base = 0, start_entry = 0, start_argv = 0,
     start_envp = 0, start_at_phdr = 0, start_at_phnum = 0, start_at_entry = 0, start_at_base = 0,
     start_argc = 0, start_envc = 0, start_pending = False, uid = 0, gid = 0, euid = 0, egid = 0,
     umask = 0, pgid = 0, sid = 0, ctty_kind = 0, ctty_id = 0, cwd = [], root = [],
     sigint_handler = 0, sigalrm_handler = 0, sigterm_handler = 0, sigchld_handler = 0,
     sigmask = 0, itimer_real_next_us = 0, itimer_real_interval_us = 0,
     itimer_real_active = False, sigint_pending = False, sigalrm_pending = False,
     sigterm_pending = False, sigchld_pending = False, sig_stub_installed = False,
     sigaltstack_sp = 0, sigaltstack_size = 0, sigaltstack_flags = 0, need_resched = False,
     on_runqueue = False, is_idle = False, assigned_cpu = 0, rq_prev = None, rq_next = None,
     parent = None, first_child = None, sibling_prev = None, sibling_next = None,
     start_argbuf = [], user_vmas = replicate PROCESS_USER_VMA_MAX zero_vma\<rparr>"

lemma zero_task_sched [simp]:
  "state zero_task = TASK_UNUSED" "on_runqueue zero_task = False" "is_idle zero_task = False"
  "assigned_cpu zero_task = 0" "rq_next zero_task = None" "rq_prev zero_task = None"
  "pid zero_task = 0" "parent zero_task = None" "first_child zero_task = None"
  "sibling_next zero_task = None" "sibling_prev zero_task = None"
  by (simp_all add: zero_task_def)

type_synonym task_heap = "tptr \<Rightarrow> task"

end
