(* ===== verification/DList.thy ===== *)
theory DList
  imports Prelude
begin

text \<open>
  Intrusive doubly linked lists, the structure behind the run queues of
  \<^verbatim>\<open>src/sys/scheduler.c\<close> and the child lists of \<^verbatim>\<open>src/sys/process.c\<close>.

  \<open>dseg nx pv p q xs\<close>: following \<open>nx\<close> from \<open>p\<close> visits exactly \<open>xs\<close> and stops at a null
  pointer, and the \<open>pv\<close> pointers lead back, the first to \<open>q\<close>. The locale
  \<open>intrusive_list\<close> is the contract of a routine that takes one element out (its effect on the
  two link fields and on the head); what it does to the whole list follows once for all
  users.
\<close>

primrec dseg ::
  "('p \<Rightarrow> 'p option) \<Rightarrow> ('p \<Rightarrow> 'p option) \<Rightarrow> 'p option \<Rightarrow> 'p option \<Rightarrow> 'p list \<Rightarrow> bool"
where
  "dseg nx pv p q [] \<longleftrightarrow> p = None"
| "dseg nx pv p q (x # xs) \<longleftrightarrow> p = Some x \<and> pv x = q \<and> dseg nx pv (nx x) (Some x) xs"

definition last_opt :: "'a list \<Rightarrow> 'a option" where
  "last_opt xs = (if xs = [] then None else Some (last xs))"

definition hd_opt :: "'a list \<Rightarrow> 'a option" where
  "hd_opt xs = (if xs = [] then None else Some (hd xs))"

lemma last_opt_simps [simp]:
  "last_opt [] = None" "last_opt (xs @ [x]) = Some x" "last_opt xs = None \<longleftrightarrow> xs = []"
  by (simp_all add: last_opt_def)

lemma last_opt_append: "ys \<noteq> [] \<Longrightarrow> last_opt (xs @ ys) = last_opt ys"
  by (simp add: last_opt_def)

lemma hd_opt_simps [simp]:
  "hd_opt [] = None" "hd_opt (x # xs) = Some x" "hd_opt xs = None \<longleftrightarrow> xs = []"
  by (simp_all add: hd_opt_def)

lemma last_opt_Some_in: "last_opt xs = Some x \<Longrightarrow> x \<in> set xs"
  by (auto simp: last_opt_def split: if_splits)

lemma dseg_head: "dseg nx pv p q xs \<Longrightarrow> p = hd_opt xs"
  by (cases xs) simp_all

lemma dseg_cong:
  "(\<And>x. x \<in> set xs \<Longrightarrow> nx x = nx' x \<and> pv x = pv' x) \<Longrightarrow> dseg nx pv p q xs = dseg nx' pv' p q xs"
  by (induction xs arbitrary: p q) auto

lemma dseg_middle:
  assumes "dseg nx pv p q (as @ t # bs)"
  shows "pv t = (if as = [] then q else Some (last as))" and "nx t = hd_opt bs"
    and "as \<noteq> [] \<Longrightarrow> nx (last as) = Some t" and "as = [] \<Longrightarrow> p = Some t"
    and "bs \<noteq> [] \<Longrightarrow> pv (hd bs) = Some t"
proof -
  have "pv t = (if as = [] then q else Some (last as)) \<and> nx t = hd_opt bs \<and>
    (as \<noteq> [] \<longrightarrow> nx (last as) = Some t) \<and> (as = [] \<longrightarrow> p = Some t) \<and> (bs \<noteq> [] \<longrightarrow> pv (hd bs) = Some t)"
    using assms
  proof (induction as arbitrary: p q)
    case Nil
    then show ?case by (cases bs) auto
  next
    case (Cons a as)
    then show ?case by (cases as) auto
  qed
  then show "pv t = (if as = [] then q else Some (last as))" and "nx t = hd_opt bs"
    and "as \<noteq> [] \<Longrightarrow> nx (last as) = Some t" and "as = [] \<Longrightarrow> p = Some t"
    and "bs \<noteq> [] \<Longrightarrow> pv (hd bs) = Some t"
    by blast+
qed

lemma dseg_unlink:
  assumes "dseg nx pv p q (as @ t # bs)" "distinct (as @ t # bs)"
    and "\<And>x. x \<noteq> t \<Longrightarrow> nx' x = (if as \<noteq> [] \<and> x = last as then nx t else nx x)"
    and "\<And>x. x \<noteq> t \<Longrightarrow> pv' x = (if bs \<noteq> [] \<and> x = hd bs then pv t else pv x)"
    and "p' = (if as = [] then nx t else p)"
  shows "dseg nx' pv' p' q (as @ bs)"
  using assms
proof (induction as arbitrary: p q p')
  case Nil
  show ?case
  proof (cases bs)
    case (Cons b bs')
    have "nx' x = nx x \<and> pv' x = pv x" if "x \<in> set bs'" for x
    proof -
      have "x \<noteq> t" and "x \<noteq> b" using that Nil.prems(2) Cons by auto
      with Nil.prems Cons show ?thesis by simp
    qed
    then have "dseg nx' pv' (nx b) (Some b) bs' = dseg nx pv (nx b) (Some b) bs'"
      by (rule dseg_cong)
    with Nil Cons show ?thesis by auto
  qed (use Nil in auto)
next
  case (Cons a as)
  show ?case
  proof (cases "as = []")
    case True
    have "dseg nx' pv' (nx t) (Some a) bs"
    proof (cases bs)
      case (Cons b bs')
      have "nx' x = nx x \<and> pv' x = pv x" if "x \<in> set bs'" for x
      proof -
        have "x \<noteq> t" and "x \<noteq> b" and "x \<noteq> a" using that Cons.prems(2) Cons True by auto
        with Cons.prems Cons True show ?thesis by simp
      qed
      then have "dseg nx' pv' (nx b) (Some b) bs' = dseg nx pv (nx b) (Some b) bs'"
        by (rule dseg_cong)
      with Cons.prems True Cons show ?thesis by auto
    qed (use Cons.prems True in auto)
    with Cons.prems True show ?thesis by auto
  next
    case False
    have "dseg nx' pv' (nx a) (Some a) (as @ bs)"
      by (rule Cons.IH) (use Cons.prems False in auto)
    moreover have "nx' a = nx a" and "pv' a = pv a"
      using Cons.prems False by (auto dest: hd_in_set last_in_set)
    ultimately show ?thesis using Cons.prems by auto
  qed
qed

lemma dseg_push_tail:
  assumes "dseg nx pv p q xs" "distinct xs" "t \<notin> set xs"
    and "\<And>x. x \<noteq> t \<Longrightarrow> nx' x = (if last_opt xs = Some x then Some t else nx x)" and "nx' t = None"
    and "\<And>x. x \<noteq> t \<Longrightarrow> pv' x = pv x" and "pv' t = (if xs = [] then q else last_opt xs)"
    and "p' = (if xs = [] then Some t else p)"
  shows "dseg nx' pv' p' q (xs @ [t])"
  using assms
proof (induction xs arbitrary: p q p')
  case (Cons a xs)
  show ?case
  proof (cases "xs = []")
    case False
    have "dseg nx' pv' (nx a) (Some a) (xs @ [t])"
      by (rule Cons.IH) (use Cons.prems False in \<open>auto simp: last_opt_def\<close>)
    moreover have "nx' a = nx a"
      using Cons.prems False by (auto simp: last_opt_def)
    ultimately show ?thesis using Cons.prems by auto
  qed (use Cons.prems in \<open>auto simp: last_opt_def\<close>)
qed auto

lemma dseg_push_head:
  assumes "dseg nx pv p None xs" "distinct xs" "t \<notin> set xs"
    and "\<And>x. x \<noteq> t \<Longrightarrow> nx' x = nx x" and "nx' t = p"
    and "\<And>x. x \<noteq> t \<Longrightarrow> pv' x = (if p = Some x then Some t else pv x)" and "pv' t = None"
  shows "dseg nx' pv' (Some t) None (t # xs)"
proof (cases xs)
  case (Cons a xs')
  have "nx' x = nx x \<and> pv' x = pv x" if "x \<in> set xs'" for x
  proof -
    have "x \<noteq> t" and "p \<noteq> Some x" using that assms(1-3) Cons by auto
    with assms(4,6) show ?thesis by simp
  qed
  then have "dseg nx' pv' (nx a) (Some a) xs' = dseg nx pv (nx a) (Some a) xs'"
    by (rule dseg_cong)
  with assms Cons show ?thesis by auto
qed (use assms in auto)

section \<open>The contract of an unlink routine\<close>

locale intrusive_list =
  fixes nx :: "'s \<Rightarrow> 'p \<Rightarrow> 'p option"
    and pv :: "'s \<Rightarrow> 'p \<Rightarrow> 'p option"
    and head :: "'s \<Rightarrow> 'p \<Rightarrow> 'p option"
    and linked :: "'s \<Rightarrow> 'p \<Rightarrow> bool"
    and unlink :: "'p \<Rightarrow> 's \<Rightarrow> 's"
  assumes nx_unlink: "linked s t \<Longrightarrow>
      nx (unlink t s) x = (if x = t then None else if pv s t = Some x then nx s t else nx s x)"
    and pv_unlink: "linked s t \<Longrightarrow>
      pv (unlink t s) x = (if x = t then None else if nx s t = Some x then pv s t else pv s x)"
    and head_unlink: "linked s t \<Longrightarrow> head (unlink t s) t = (if pv s t = None then nx s t else head s t)"
begin

lemma unlink_dseg:
  assumes "linked s t" "dseg (nx s) (pv s) (head s t) None (as @ t # bs)" "distinct (as @ t # bs)"
  shows "dseg (nx (unlink t s)) (pv (unlink t s)) (head (unlink t s) t) None (as @ bs)"
proof (rule dseg_unlink [OF assms(2,3)])
  note mid = dseg_middle [OF assms(2)]
  show "nx (unlink t s) x = (if as \<noteq> [] \<and> x = last as then nx s t else nx s x)" if "x \<noteq> t" for x
    using mid that nx_unlink [OF assms(1)] by auto
  show "pv (unlink t s) x = (if bs \<noteq> [] \<and> x = hd bs then pv s t else pv s x)" if "x \<noteq> t" for x
    using mid that pv_unlink [OF assms(1)] by (auto simp: hd_opt_def)
  show "head (unlink t s) t = (if as = [] then nx s t else head s t)"
    using mid head_unlink [OF assms(1)] by simp
qed

lemma unlink_other_dseg:
  assumes "linked s t" "dseg (nx s) (pv s) p None ys"
    and "t \<notin> set ys" and "\<And>x. pv s t = Some x \<Longrightarrow> x \<notin> set ys" and "\<And>x. nx s t = Some x \<Longrightarrow> x \<notin> set ys"
  shows "dseg (nx (unlink t s)) (pv (unlink t s)) p None ys"
proof -
  have "dseg (nx (unlink t s)) (pv (unlink t s)) p None ys = dseg (nx s) (pv s) p None ys"
    by (intro dseg_cong) (use assms nx_unlink pv_unlink in auto)
  with assms(2) show ?thesis by simp
qed

end

end
