(* ===== verification/Sched.thy ===== *)
theory Sched
  imports Task DList
begin

text \<open>
  The scheduler, \<^verbatim>\<open>src/sys/scheduler.c\<close> with \<^verbatim>\<open>include/sys/scheduler.h\<close>.

  State (record \<open>sched\<close>): the task store, the eight per-CPU structures, the logical CPU id, the
  ready flag, the tick counters, and the registers a context switch loads (kernel stack in the
  TSS, page-table root, FS base). Each public routine runs under the run queue's spin lock with
  interrupts off, so one routine is one atomic function of the state; the lock word itself and
  the debug output are not represented. \<open>pick_next_runnable_locked\<close> pops until it finds a
  runnable task and is a \<^theory_text>\<open>partial_function\<close>: that it returns is a theorem.

  Abstract specification: a queue of tasks per CPU (\<open>sched_rel\<close> relates it to the links).
  Shown: every routine refines its queue operation; the run queue discipline the debug
  routine \<^verbatim>\<open>sched_invariant_check\<close> looks for holds in every reachable state; yielding is
  round robin and serves every queued task.
\<close>

section \<open>State\<close>

definition SCHED_MAX_CPUS :: nat where [model_simps]: "SCHED_MAX_CPUS = 8"
definition PROC_MAX_TASKS :: nat where [model_simps]: "PROC_MAX_TASKS = 64"

record scheduler_cpu =
  current :: "tptr option"
  idle :: "tptr option"
  rq_head :: "tptr option"
  rq_tail :: "tptr option"
  logical_id :: nat

record sched =
  tasks :: task_heap
  sched_cpus :: "nat \<Rightarrow> scheduler_cpu"
  local_cpu_id :: nat
  scheduler_ready :: bool
  total_ticks :: u64
  idle_ticks :: u64
  tss_rsp0 :: u64
  reg_cr3 :: u64
  reg_fs_base :: u64

definition upd_task :: "tptr \<Rightarrow> (task \<Rightarrow> task) \<Rightarrow> ('a sched_scheme) \<Rightarrow> ('a sched_scheme)" where
  "upd_task p f s = s\<lparr>tasks := (tasks s)(p := f (tasks s p))\<rparr>"

definition upd_cpu :: "nat \<Rightarrow> (scheduler_cpu \<Rightarrow> scheduler_cpu) \<Rightarrow> ('a sched_scheme) \<Rightarrow> ('a sched_scheme)" where
  "upd_cpu c f s = s\<lparr>sched_cpus := (sched_cpus s)(c := f (sched_cpus s c))\<rparr>"

definition cpu_by_id :: "nat \<Rightarrow> nat" where
  "cpu_by_id i = (if SCHED_MAX_CPUS \<le> i then 0 else i)"

section \<open>Run queue primitives\<close>

definition rq_pop_head_locked :: "nat \<Rightarrow> 'a sched_scheme \<Rightarrow> tptr option \<times> 'a sched_scheme" where
  "rq_pop_head_locked c s =
     (case rq_head (sched_cpus s c) of
        None \<Rightarrow> (None, s)
      | Some t \<Rightarrow>
          let nx = rq_next (tasks s t);
              s1 = upd_cpu c (rq_head_update (\<lambda>_. nx)) s;
              s2 = (case nx of
                      Some h \<Rightarrow> upd_task h (rq_prev_update (\<lambda>_. None)) s1
                    | None \<Rightarrow> upd_cpu c (rq_tail_update (\<lambda>_. None)) s1)
          in (Some t, upd_task t (\<lambda>x. x\<lparr>rq_next := None, rq_prev := None, on_runqueue := False\<rparr>) s2))"

definition rq_push_tail_locked :: "nat \<Rightarrow> tptr \<Rightarrow> 'a sched_scheme \<Rightarrow> 'a sched_scheme" where
  "rq_push_tail_locked c t s =
     (if on_runqueue (tasks s t) then s
      else
        let tl = rq_tail (sched_cpus s c);
            s1 = upd_task t (\<lambda>x. x\<lparr>rq_prev := tl, rq_next := None\<rparr>) s;
            s2 = (case tl of
                    Some l \<Rightarrow> upd_task l (rq_next_update (\<lambda>_. Some t)) s1
                  | None \<Rightarrow> upd_cpu c (rq_head_update (\<lambda>_. Some t)) s1);
            s3 = upd_cpu c (rq_tail_update (\<lambda>_. Some t)) s2
        in upd_task t (on_runqueue_update (\<lambda>_. True)) s3)"

definition rq_remove_locked :: "nat \<Rightarrow> tptr \<Rightarrow> 'a sched_scheme \<Rightarrow> 'a sched_scheme" where
  "rq_remove_locked c t s =
     (if \<not> on_runqueue (tasks s t) then s
      else
        let nx = rq_next (tasks s t); pv = rq_prev (tasks s t);
            s1 = (case pv of
                    Some p \<Rightarrow> upd_task p (rq_next_update (\<lambda>_. nx)) s
                  | None \<Rightarrow> upd_cpu c (rq_head_update (\<lambda>_. nx)) s);
            s2 = (case nx of
                    Some n \<Rightarrow> upd_task n (rq_prev_update (\<lambda>_. pv)) s1
                  | None \<Rightarrow> upd_cpu c (rq_tail_update (\<lambda>_. pv)) s1)
        in upd_task t (\<lambda>x. x\<lparr>rq_prev := None, rq_next := None, on_runqueue := False\<rparr>) s2)"

partial_function (option) pop_until_runnable ::
  "nat \<Rightarrow> tptr option \<times> 'a sched_scheme \<Rightarrow> (tptr option \<times> 'a sched_scheme) option"
where
  "pop_until_runnable c r =
     (case fst r of
        None \<Rightarrow> Some (idle (sched_cpus (snd r) c), snd r)
      | Some t \<Rightarrow>
          if state (tasks (snd r) t) = TASK_RUNNABLE then Some (Some t, snd r)
          else pop_until_runnable c (rq_pop_head_locked c (snd r)))"

definition pick_next_runnable_locked ::
  "nat \<Rightarrow> 'a sched_scheme \<Rightarrow> (tptr option \<times> 'a sched_scheme) option"
where
  "pick_next_runnable_locked c s = pop_until_runnable c (rq_pop_head_locked c s)"

section \<open>Initialisation and queries\<close>

definition init_cpu :: "(nat \<Rightarrow> u64) \<Rightarrow> u64 \<Rightarrow> u64 \<Rightarrow> nat \<Rightarrow> 'a sched_scheme \<Rightarrow> 'a sched_scheme" where
  "init_cpu idle_stack idle_loop boot_cr3 i s =
     upd_cpu i (\<lambda>c. c\<lparr>current := Some (IdleP i), rq_head := None, rq_tail := None, logical_id := i,
                     idle := Some (IdleP i)\<rparr>)
       (upd_task (IdleP i)
          (\<lambda>t. t\<lparr>pid := 0, ppid := 0, exit_code := 0, state := TASK_RUNNING, on_runqueue := False,
                 is_idle := True, assigned_cpu := int i, rq_prev := None, rq_next := None,
                 parent := None, first_child := None, sibling_prev := None, sibling_next := None,
                 kernel_stack_top := idle_stack i, cr3 := boot_cr3, fs_base := 0,
                 task_context := (task_context t)
                   \<lparr>rsp := idle_stack i, rbp := idle_stack i, rip := idle_loop\<rparr>\<rparr>) s)"

definition scheduler_init :: "(nat \<Rightarrow> u64) \<Rightarrow> u64 \<Rightarrow> u64 \<Rightarrow> 'a sched_scheme \<Rightarrow> 'a sched_scheme" where
  "scheduler_init idle_stack idle_loop boot_cr3 s =
     (if scheduler_ready s then s
      else (fold (init_cpu idle_stack idle_loop boot_cr3) [0..<SCHED_MAX_CPUS] s)
             \<lparr>local_cpu_id := 0, scheduler_ready := True\<rparr>)"

definition scheduler_set_cpu_id :: "nat \<Rightarrow> 'a sched_scheme \<Rightarrow> 'a sched_scheme" where
  "scheduler_set_cpu_id i s = s\<lparr>local_cpu_id := (if SCHED_MAX_CPUS \<le> i then 0 else i)\<rparr>"

definition scheduler_cpu_id :: "'a sched_scheme \<Rightarrow> nat" where
  "scheduler_cpu_id s = (if SCHED_MAX_CPUS \<le> local_cpu_id s then 0 else local_cpu_id s)"

definition scheduler_cpu_local :: "'a sched_scheme \<Rightarrow> nat option" where
  "scheduler_cpu_local s =
     (if \<not> scheduler_ready s then None else Some (cpu_by_id (scheduler_cpu_id s)))"

definition scheduler_current_task :: "'a sched_scheme \<Rightarrow> tptr" where
  "scheduler_current_task s =
     (case scheduler_cpu_local s of
        None \<Rightarrow> IdleP 0
      | Some c \<Rightarrow>
          (case current (sched_cpus s c) of
             Some t \<Rightarrow> t
           | None \<Rightarrow> (case idle (sched_cpus s c) of Some t \<Rightarrow> t | None \<Rightarrow> IdleP 0)))"

section \<open>State changes of a task\<close>

definition task_cpu :: "'a sched_scheme \<Rightarrow> tptr \<Rightarrow> nat" where
  "task_cpu s t =
     (if 0 \<le> assigned_cpu (tasks s t) then nat (assigned_cpu (tasks s t)) else scheduler_cpu_id s)"

definition scheduler_set_boot_current :: "tptr \<Rightarrow> 'a sched_scheme \<Rightarrow> 'a sched_scheme" where
  "scheduler_set_boot_current t s =
     (case scheduler_cpu_local s of
        None \<Rightarrow> s
      | Some c \<Rightarrow>
          let s1 = (if on_runqueue (tasks s t) then rq_remove_locked c t s else s);
              s2 = upd_task t (\<lambda>x. x\<lparr>assigned_cpu := int (scheduler_cpu_id s), state := TASK_RUNNING\<rparr>) s1
          in upd_cpu c (current_update (\<lambda>_. Some t)) s2)"

definition scheduler_task_make_runnable :: "tptr \<Rightarrow> nat \<Rightarrow> 'a sched_scheme \<Rightarrow> 'a sched_scheme" where
  "scheduler_task_make_runnable t cpu_id s =
     (if is_idle (tasks s t) then s
      else
        let c = (if SCHED_MAX_CPUS \<le> cpu_id then 0 else cpu_id);
            old = (if 0 \<le> assigned_cpu (tasks s t) then nat (assigned_cpu (tasks s t)) else c);
            s1 = (if on_runqueue (tasks s t) \<and> old \<noteq> c then rq_remove_locked (cpu_by_id old) t s else s);
            s2 = upd_task t (assigned_cpu_update (\<lambda>_. int c)) s1;
            s3 = (if on_runqueue (tasks s2 t) then rq_remove_locked (cpu_by_id c) t s2 else s2);
            s4 = upd_task t (state_update (\<lambda>_. TASK_RUNNABLE)) s3
        in rq_push_tail_locked (cpu_by_id c) t s4)"

definition leave_queue :: "tptr \<Rightarrow> 'a sched_scheme \<Rightarrow> 'a sched_scheme" where
  "leave_queue t s =
     (if on_runqueue (tasks s t) then rq_remove_locked (cpu_by_id (task_cpu s t)) t s else s)"

definition scheduler_task_set_blocked :: "tptr \<Rightarrow> 'a sched_scheme \<Rightarrow> 'a sched_scheme" where
  "scheduler_task_set_blocked t s =
     (if is_idle (tasks s t) then s
      else upd_task t (\<lambda>x. x\<lparr>assigned_cpu := int (task_cpu s t), state := TASK_BLOCKED\<rparr>) (leave_queue t s))"

definition scheduler_task_set_zombie :: "tptr \<Rightarrow> 'a sched_scheme \<Rightarrow> 'a sched_scheme" where
  "scheduler_task_set_zombie t s =
     (if is_idle (tasks s t) then s
      else upd_task t (\<lambda>x. x\<lparr>assigned_cpu := int (task_cpu s t), state := TASK_ZOMBIE\<rparr>) (leave_queue t s))"

definition scheduler_task_set_unused :: "tptr \<Rightarrow> 'a sched_scheme \<Rightarrow> 'a sched_scheme" where
  "scheduler_task_set_unused t s =
     (if is_idle (tasks s t) then s
      else upd_task t (\<lambda>x. x\<lparr>assigned_cpu := -1, state := TASK_UNUSED\<rparr>) (leave_queue t s))"

definition scheduler_task_set_running :: "tptr \<Rightarrow> 'a sched_scheme \<Rightarrow> 'a sched_scheme" where
  "scheduler_task_set_running t s =
     (if is_idle (tasks s t) then s
      else upd_task t (\<lambda>x. x\<lparr>assigned_cpu := int (task_cpu s t), state := TASK_RUNNING\<rparr>) (leave_queue t s))"

section \<open>Scheduling\<close>

definition requeue_prev :: "bool \<Rightarrow> nat \<Rightarrow> tptr \<Rightarrow> 'a sched_scheme \<Rightarrow> 'a sched_scheme" where
  "requeue_prev tick_mode c prev s =
     (let st = state (tasks s prev)
      in if \<not> is_idle (tasks s prev) \<and>
            (st = TASK_RUNNING \<or> tick_mode \<and> st = TASK_RUNNABLE)
         then rq_push_tail_locked c prev (upd_task prev (state_update (\<lambda>_. TASK_RUNNABLE)) s)
         else s)"

definition switch_task_context :: "tptr \<Rightarrow> 'a sched_scheme \<Rightarrow> 'a sched_scheme" where
  "switch_task_context n s =
     s\<lparr>tss_rsp0 := kernel_stack_top (tasks s n), reg_cr3 := cr3 (tasks s n), reg_fs_base := fs_base (tasks s n)\<rparr>"

definition schedule_common :: "bool \<Rightarrow> 'a sched_scheme \<Rightarrow> 'a sched_scheme option" where
  "schedule_common tick_mode s =
     (case scheduler_cpu_local s of
        None \<Rightarrow> Some s
      | Some c \<Rightarrow>
          (case (case current (sched_cpus s c) of Some t \<Rightarrow> Some t | None \<Rightarrow> idle (sched_cpus s c)) of
             None \<Rightarrow> Some s
           | Some prev \<Rightarrow>
               (case pick_next_runnable_locked c (requeue_prev tick_mode c prev s) of
                  None \<Rightarrow> None
                | Some (next, s1) \<Rightarrow>
                    let s2 = (case next of
                                Some n \<Rightarrow>
                                  if is_idle (tasks s1 n) then s1
                                  else upd_task n (\<lambda>x. x\<lparr>assigned_cpu := int (scheduler_cpu_id s1),
                                         state := TASK_RUNNING, need_resched := False\<rparr>) s1
                              | None \<Rightarrow> s1);
                        s3 = upd_cpu c (\<lambda>k. k\<lparr>current := (case next of Some n \<Rightarrow> Some n | None \<Rightarrow> idle k)\<rparr>) s2
                    in Some (case current (sched_cpus s3 c) of
                         Some n \<Rightarrow> if n \<noteq> prev then switch_task_context n s3 else s3
                       | None \<Rightarrow> s3))))"

definition scheduler_yield :: "'a sched_scheme \<Rightarrow> 'a sched_scheme option" where
  "scheduler_yield s = schedule_common False s"

definition scheduler_tick :: "'a sched_scheme \<Rightarrow> 'a sched_scheme" where
  "scheduler_tick s =
     (case scheduler_cpu_local s of
        None \<Rightarrow> s
      | Some c \<Rightarrow>
          (case (case current (sched_cpus s c) of Some t \<Rightarrow> Some t | None \<Rightarrow> idle (sched_cpus s c)) of
             None \<Rightarrow> s
           | Some cur \<Rightarrow>
               let s1 = s\<lparr>total_ticks := total_ticks s + 1\<rparr>;
                   s2 = (if is_idle (tasks s1 cur) then s1\<lparr>idle_ticks := idle_ticks s1 + 1\<rparr> else s1)
               in if \<not> is_idle (tasks s2 cur) \<and> state (tasks s2 cur) = TASK_RUNNING
                  then upd_task cur (need_resched_update (\<lambda>_. True)) s2 else s2))"

section \<open>Effect of the primitives\<close>

lemma upd_task_simps [simp]:
  "tasks (upd_task p f s) = (tasks s)(p := f (tasks s p))"
  "sched_cpus (upd_task p f s) = sched_cpus s"
  "local_cpu_id (upd_task p f s) = local_cpu_id s"
  "scheduler_ready (upd_task p f s) = scheduler_ready s"
  "total_ticks (upd_task p f s) = total_ticks s"
  "idle_ticks (upd_task p f s) = idle_ticks s"
  "sched.more (upd_task p f s) = sched.more s"
  by (simp_all add: upd_task_def)

lemma upd_cpu_simps [simp]:
  "tasks (upd_cpu c g s) = tasks s"
  "sched_cpus (upd_cpu c g s) = (sched_cpus s)(c := g (sched_cpus s c))"
  "local_cpu_id (upd_cpu c g s) = local_cpu_id s"
  "scheduler_ready (upd_cpu c g s) = scheduler_ready s"
  "total_ticks (upd_cpu c g s) = total_ticks s"
  "idle_ticks (upd_cpu c g s) = idle_ticks s"
  "sched.more (upd_cpu c g s) = sched.more s"
  by (simp_all add: upd_cpu_def)

lemma scheduler_cpu_id_upd [simp]:
  "scheduler_cpu_id (upd_task p f s) = scheduler_cpu_id s"
  "scheduler_cpu_id (upd_cpu c g s) = scheduler_cpu_id s"
  by (simp_all add: scheduler_cpu_id_def)

text \<open>The part of a task and of a CPU structure that queue operations never touch.\<close>

definition unlinked :: "task \<Rightarrow> task" where
  "unlinked t = t\<lparr>rq_next := None, rq_prev := None, on_runqueue := False\<rparr>"

definition same_but_links :: "'a sched_scheme \<Rightarrow> 'a sched_scheme \<Rightarrow> bool" where
  "same_but_links s s' \<longleftrightarrow>
     (\<forall>x. unlinked (tasks s' x) = unlinked (tasks s x)) \<and>
     (\<forall>c. current (sched_cpus s' c) = current (sched_cpus s c) \<and> idle (sched_cpus s' c) = idle (sched_cpus s c)) \<and>
     local_cpu_id s' = local_cpu_id s \<and> scheduler_ready s' = scheduler_ready s \<and>
     total_ticks s' = total_ticks s \<and> idle_ticks s' = idle_ticks s \<and> sched.more s' = sched.more s"

lemma same_but_links_refl [simp]: "same_but_links s s"
  by (simp add: same_but_links_def)

lemma same_but_linksD:
  assumes "same_but_links s s'"
  shows "state (tasks s' x) = state (tasks s x)" "is_idle (tasks s' x) = is_idle (tasks s x)"
    "assigned_cpu (tasks s' x) = assigned_cpu (tasks s x)" "pid (tasks s' x) = pid (tasks s x)"
    "current (sched_cpus s' c) = current (sched_cpus s c)" "idle (sched_cpus s' c) = idle (sched_cpus s c)"
    "local_cpu_id s' = local_cpu_id s" "scheduler_ready s' = scheduler_ready s"
    "scheduler_cpu_id s' = scheduler_cpu_id s" "sched.more s' = sched.more s"
proof -
  have u: "unlinked (tasks s' x) = unlinked (tasks s x)"
    using assms by (simp add: same_but_links_def)
  show "state (tasks s' x) = state (tasks s x)"
    using arg_cong [OF u, of state] by (simp add: unlinked_def)
  show "is_idle (tasks s' x) = is_idle (tasks s x)"
    using arg_cong [OF u, of is_idle] by (simp add: unlinked_def)
  show "assigned_cpu (tasks s' x) = assigned_cpu (tasks s x)"
    using arg_cong [OF u, of assigned_cpu] by (simp add: unlinked_def)
  show "pid (tasks s' x) = pid (tasks s x)"
    using arg_cong [OF u, of pid] by (simp add: unlinked_def)
qed (use assms in \<open>simp_all add: same_but_links_def scheduler_cpu_id_def\<close>)

lemma rq_remove_same: "same_but_links s (rq_remove_locked c t s)"
  by (auto simp: same_but_links_def rq_remove_locked_def unlinked_def Let_def split: option.splits)

lemma rq_push_same: "same_but_links s (rq_push_tail_locked c t s)"
  by (auto simp: same_but_links_def rq_push_tail_locked_def unlinked_def Let_def split: option.splits)

lemma rq_pop_same: "same_but_links s (snd (rq_pop_head_locked c s))"
  by (auto simp: same_but_links_def rq_pop_head_locked_def unlinked_def Let_def split: option.splits)

lemma rq_remove_links:
  assumes "on_runqueue (tasks s t)"
  shows "rq_next (tasks (rq_remove_locked c t s) x) =
      (if x = t then None else if rq_prev (tasks s t) = Some x then rq_next (tasks s t) else rq_next (tasks s x))"
    and "rq_prev (tasks (rq_remove_locked c t s) x) =
      (if x = t then None else if rq_next (tasks s t) = Some x then rq_prev (tasks s t) else rq_prev (tasks s x))"
    and "on_runqueue (tasks (rq_remove_locked c t s) x) = (x \<noteq> t \<and> on_runqueue (tasks s x))"
    and "rq_head (sched_cpus (rq_remove_locked c t s) k) =
      (if k = c \<and> rq_prev (tasks s t) = None then rq_next (tasks s t) else rq_head (sched_cpus s k))"
    and "rq_tail (sched_cpus (rq_remove_locked c t s) k) =
      (if k = c \<and> rq_next (tasks s t) = None then rq_prev (tasks s t) else rq_tail (sched_cpus s k))"
  using assms by (auto simp: rq_remove_locked_def Let_def split: option.splits)

lemma rq_push_links:
  assumes "\<not> on_runqueue (tasks s t)" and "rq_tail (sched_cpus s c) \<noteq> Some t"
  shows "rq_next (tasks (rq_push_tail_locked c t s) x) =
      (if x = t then None else if rq_tail (sched_cpus s c) = Some x then Some t else rq_next (tasks s x))"
    and "rq_prev (tasks (rq_push_tail_locked c t s) x) =
      (if x = t then rq_tail (sched_cpus s c) else rq_prev (tasks s x))"
    and "on_runqueue (tasks (rq_push_tail_locked c t s) x) = (x = t \<or> on_runqueue (tasks s x))"
    and "rq_head (sched_cpus (rq_push_tail_locked c t s) k) =
      (if k = c \<and> rq_tail (sched_cpus s c) = None then Some t else rq_head (sched_cpus s k))"
    and "rq_tail (sched_cpus (rq_push_tail_locked c t s) k) = (if k = c then Some t else rq_tail (sched_cpus s k))"
  using assms by (auto simp: rq_push_tail_locked_def Let_def split: option.splits)

text \<open>Popping the head is removing it from the queue.\<close>

lemma rq_pop_is_remove:
  assumes "rq_head (sched_cpus s c) = Some t" "on_runqueue (tasks s t)" "rq_prev (tasks s t) = None"
  shows "rq_pop_head_locked c s = (Some t, rq_remove_locked c t s)"
proof -
  have clear: "(\<lambda>x::task. x\<lparr>rq_next := None, rq_prev := None, on_runqueue := False\<rparr>) =
      (\<lambda>x. x\<lparr>rq_prev := None, rq_next := None, on_runqueue := False\<rparr>)"
    by (rule ext) simp
  show ?thesis
    using assms by (cases "rq_next (tasks s t)")
      (simp_all add: rq_pop_head_locked_def rq_remove_locked_def clear)
qed

lemma rq_pop_empty: "rq_head (sched_cpus s c) = None \<Longrightarrow> rq_pop_head_locked c s = (None, s)"
  by (simp add: rq_pop_head_locked_def)

section \<open>Run queues as lists\<close>

interpretation rq: intrusive_list
  "\<lambda>s t. rq_next (tasks s t)" "\<lambda>s t. rq_prev (tasks s t)" "\<lambda>s _. rq_head (sched_cpus s c)"
  "\<lambda>s t. on_runqueue (tasks s t)" "rq_remove_locked c" for c
  by unfold_locales (auto simp: rq_remove_links)

definition queue_ok :: "'a sched_scheme \<Rightarrow> nat \<Rightarrow> tptr list \<Rightarrow> bool" where
  "queue_ok s c xs \<longleftrightarrow>
     dseg (\<lambda>t. rq_next (tasks s t)) (\<lambda>t. rq_prev (tasks s t)) (rq_head (sched_cpus s c)) None xs \<and>
     rq_tail (sched_cpus s c) = last_opt xs \<and> distinct xs"

lemma rq_remove_queue_ok:
  assumes "queue_ok s c (as @ t # bs)" "on_runqueue (tasks s t)"
  shows "queue_ok (rq_remove_locked c t s) c (as @ bs)"
proof -
  have d: "dseg (\<lambda>t. rq_next (tasks s t)) (\<lambda>t. rq_prev (tasks s t)) (rq_head (sched_cpus s c)) None (as @ t # bs)"
    and dis: "distinct (as @ t # bs)" and tl: "rq_tail (sched_cpus s c) = last_opt (as @ t # bs)"
    using assms(1) by (simp_all add: queue_ok_def)
  note mid = dseg_middle [OF d]
  have "rq_tail (sched_cpus (rq_remove_locked c t s) c) = last_opt (as @ bs)"
    using tl mid assms(2) by (cases "bs = []") (auto simp: rq_remove_links last_opt_def)
  then show ?thesis
    using rq.unlink_dseg [OF assms(2) d dis] dis by (simp add: queue_ok_def)
qed

lemma rq_remove_queue_other:
  assumes "queue_ok s c (as @ t # bs)" "on_runqueue (tasks s t)" "k \<noteq> c" "queue_ok s k ys"
    and "set (as @ t # bs) \<inter> set ys = {}"
  shows "queue_ok (rq_remove_locked c t s) k ys"
proof -
  have d: "dseg (\<lambda>t. rq_next (tasks s t)) (\<lambda>t. rq_prev (tasks s t)) (rq_head (sched_cpus s c)) None (as @ t # bs)"
    using assms(1) by (simp add: queue_ok_def)
  note mid = dseg_middle [OF d]
  have nb: "x \<notin> set ys" if "rq_prev (tasks s t) = Some x \<or> rq_next (tasks s t) = Some x" for x
    using that mid(1,2) assms(5) last_in_set [of as] hd_in_set [of bs]
    by (cases "as = []"; cases "bs = []") (auto simp: hd_opt_def disjoint_iff)
  have "dseg (\<lambda>x. rq_next (tasks (rq_remove_locked c t s) x)) (\<lambda>x. rq_prev (tasks (rq_remove_locked c t s) x))
      (rq_head (sched_cpus s k)) None ys"
    by (rule rq.unlink_other_dseg) (use assms nb in \<open>auto simp: queue_ok_def\<close>)
  with assms show ?thesis by (simp add: queue_ok_def rq_remove_links)
qed

lemma rq_push_queue_ok:
  assumes "queue_ok s c xs" "\<not> on_runqueue (tasks s t)" "t \<notin> set xs"
  shows "queue_ok (rq_push_tail_locked c t s) c (xs @ [t])"
proof -
  have tl: "rq_tail (sched_cpus s c) = last_opt xs" and dis: "distinct xs"
    and d: "dseg (\<lambda>t. rq_next (tasks s t)) (\<lambda>t. rq_prev (tasks s t)) (rq_head (sched_cpus s c)) None xs"
    using assms(1) by (simp_all add: queue_ok_def)
  have "rq_tail (sched_cpus s c) \<noteq> Some t"
    using tl assms(3) by (auto dest: last_opt_Some_in)
  note links = rq_push_links [OF assms(2) this]
  have "dseg (\<lambda>x. rq_next (tasks (rq_push_tail_locked c t s) x)) (\<lambda>x. rq_prev (tasks (rq_push_tail_locked c t s) x))
      (rq_head (sched_cpus (rq_push_tail_locked c t s) c)) None (xs @ [t])"
    by (rule dseg_push_tail [OF d dis assms(3)]) (use links tl in auto)
  with dis assms(3) links show ?thesis by (simp add: queue_ok_def)
qed

lemma rq_push_queue_other:
  assumes "queue_ok s c xs" "\<not> on_runqueue (tasks s t)" "t \<notin> set xs" "k \<noteq> c" "queue_ok s k ys"
    and "t \<notin> set ys" "set xs \<inter> set ys = {}"
  shows "queue_ok (rq_push_tail_locked c t s) k ys"
proof -
  have tl: "rq_tail (sched_cpus s c) = last_opt xs" using assms(1) by (simp add: queue_ok_def)
  then have "rq_tail (sched_cpus s c) \<noteq> Some t"
    using assms(3) by (auto dest: last_opt_Some_in)
  note links = rq_push_links [OF assms(2) this]
  have "dseg (\<lambda>x. rq_next (tasks (rq_push_tail_locked c t s) x)) (\<lambda>x. rq_prev (tasks (rq_push_tail_locked c t s) x))
      (rq_head (sched_cpus s k)) None ys =
    dseg (\<lambda>x. rq_next (tasks s x)) (\<lambda>x. rq_prev (tasks s x)) (rq_head (sched_cpus s k)) None ys"
    by (intro dseg_cong) (use links tl assms(6,7) in \<open>auto dest: last_opt_Some_in\<close>)
  with assms(4,5) links show ?thesis by (simp add: queue_ok_def)
qed

lemma rq_pop_queue_ok:
  assumes "queue_ok s c (t # xs)" "on_runqueue (tasks s t)"
  shows "rq_pop_head_locked c s = (Some t, rq_remove_locked c t s)"
  using assms by (intro rq_pop_is_remove) (simp_all add: queue_ok_def)

lemma queue_ok_upd_task:
  assumes "queue_ok s c xs" "\<And>x. rq_next (f x) = rq_next x" "\<And>x. rq_prev (f x) = rq_prev x"
  shows "queue_ok (upd_task t f s) c xs"
proof -
  have "dseg (\<lambda>x. rq_next (tasks (upd_task t f s) x)) (\<lambda>x. rq_prev (tasks (upd_task t f s) x))
      (rq_head (sched_cpus s c)) None xs =
    dseg (\<lambda>x. rq_next (tasks s x)) (\<lambda>x. rq_prev (tasks s x)) (rq_head (sched_cpus s c)) None xs"
    by (intro dseg_cong) (simp add: assms(2,3))
  with assms(1) show ?thesis by (simp add: queue_ok_def del: fun_upd_apply)
qed

section \<open>The abstract scheduler\<close>

text \<open>One list of tasks per CPU.\<close>

type_synonym queues = "nat \<Rightarrow> tptr list"

definition q_remove :: "tptr \<Rightarrow> queues \<Rightarrow> queues" where
  "q_remove t qs = (\<lambda>c. remove1 t (qs c))"

definition q_push :: "nat \<Rightarrow> tptr \<Rightarrow> queues \<Rightarrow> queues" where
  "q_push c t qs = qs(c := qs c @ [t])"

definition links_rel :: "'a sched_scheme \<Rightarrow> queues \<Rightarrow> bool" where
  "links_rel s qs \<longleftrightarrow>
     (\<forall>c < SCHED_MAX_CPUS. queue_ok s c (qs c)) \<and>
     (\<forall>c < SCHED_MAX_CPUS. \<forall>t \<in> set (qs c). assigned_cpu (tasks s t) = int c) \<and>
     (\<forall>t. on_runqueue (tasks s t) \<longleftrightarrow> (\<exists>c < SCHED_MAX_CPUS. t \<in> set (qs c)))"

lemma links_rel_queue:
  "links_rel s qs \<Longrightarrow> c < SCHED_MAX_CPUS \<Longrightarrow> queue_ok s c (qs c)"
  by (simp add: links_rel_def)

lemma links_rel_on:
  assumes "links_rel s qs" "on_runqueue (tasks s t)"
  shows "0 \<le> assigned_cpu (tasks s t)" "nat (assigned_cpu (tasks s t)) < SCHED_MAX_CPUS"
    "t \<in> set (qs (nat (assigned_cpu (tasks s t))))"
  using assms unfolding links_rel_def by (metis nat_int of_nat_0_le_iff)+

lemma links_rel_disjoint:
  assumes "links_rel s qs" "c < SCHED_MAX_CPUS" "k < SCHED_MAX_CPUS" "k \<noteq> c"
  shows "set (qs c) \<inter> set (qs k) = {}"
  using assms unfolding links_rel_def by (metis disjoint_iff of_nat_eq_iff)

lemma links_rel_off:
  "links_rel s qs \<Longrightarrow> \<not> on_runqueue (tasks s t) \<Longrightarrow> c < SCHED_MAX_CPUS \<Longrightarrow> t \<notin> set (qs c)"
  unfolding links_rel_def by blast

lemma links_rel_distinct: "links_rel s qs \<Longrightarrow> c < SCHED_MAX_CPUS \<Longrightarrow> distinct (qs c)"
  by (simp add: links_rel_def queue_ok_def)

lemma links_rel_remove:
  assumes rel: "links_rel s qs" and on: "on_runqueue (tasks s t)"
  shows "links_rel (rq_remove_locked (nat (assigned_cpu (tasks s t))) t s) (q_remove t qs)"
proof -
  let ?c = "nat (assigned_cpu (tasks s t))"
  let ?s = "rq_remove_locked ?c t s"
  note c = links_rel_on [OF rel on]
  then obtain as bs where q: "qs ?c = as @ t # bs" by (meson split_list)
  have same: "same_but_links s ?s" by (rule rq_remove_same)
  have dis: "distinct (as @ t # bs)" using links_rel_distinct [OF rel c(2)] q by simp
  have "queue_ok ?s k (q_remove t qs k)" if k: "k < SCHED_MAX_CPUS" for k
  proof (cases "k = ?c")
    case True
    have "queue_ok ?s ?c (as @ bs)"
      using links_rel_queue [OF rel c(2)] on q by (intro rq_remove_queue_ok) simp_all
    with True q dis show ?thesis by (simp add: q_remove_def remove1_append)
  next
    case False
    have "t \<notin> set (qs k)" using links_rel_disjoint [OF rel c(2) k False] c(3) by auto
    moreover have "queue_ok ?s k (qs k)"
      using links_rel_queue [OF rel] c(2) k False on q links_rel_disjoint [OF rel c(2) k False]
      by (intro rq_remove_queue_other [of s ?c as t bs k]) (auto simp flip: q)
    ultimately show ?thesis by (simp add: q_remove_def remove1_idem)
  qed
  moreover have "assigned_cpu (tasks ?s x) = int k" if "k < SCHED_MAX_CPUS" "x \<in> set (q_remove t qs k)" for k x
    using that rel same_but_linksD(3) [OF same]
      set_remove1_subset [of t "qs k", THEN subsetD, of x]
    by (simp add: links_rel_def q_remove_def)
  moreover have "on_runqueue (tasks ?s x) \<longleftrightarrow> (\<exists>k < SCHED_MAX_CPUS. x \<in> set (q_remove t qs k))" for x
    using rel on links_rel_distinct [OF rel]
    by (auto simp: links_rel_def q_remove_def rq_remove_links set_remove1_eq)
  ultimately show ?thesis by (simp add: links_rel_def)
qed

lemma links_rel_push:
  assumes rel: "links_rel s qs" and off: "\<not> on_runqueue (tasks s t)"
    and c: "c < SCHED_MAX_CPUS" and "assigned_cpu (tasks s t) = int c"
  shows "links_rel (rq_push_tail_locked c t s) (q_push c t qs)"
proof -
  let ?s = "rq_push_tail_locked c t s"
  note same = same_but_linksD [OF rq_push_same [of s c t]]
  have nin: "t \<notin> set (qs k)" if "k < SCHED_MAX_CPUS" for k
    using links_rel_off [OF rel off that] .
  have q: "queue_ok s c (qs c)" by (rule links_rel_queue [OF rel c])
  then have "rq_tail (sched_cpus s c) \<noteq> Some t"
    using nin [OF c] by (auto simp: queue_ok_def dest: last_opt_Some_in)
  note links = rq_push_links [OF off this]
  have "queue_ok ?s k (q_push c t qs k)" if k: "k < SCHED_MAX_CPUS" for k
  proof (cases "k = c")
    case True
    then show ?thesis using rq_push_queue_ok [OF q off nin [OF c]] by (simp add: q_push_def)
  next
    case False
    then show ?thesis
      using rq_push_queue_other [OF q off nin [OF c] False links_rel_queue [OF rel k] nin [OF k]]
        links_rel_disjoint [OF rel c k False]
      by (simp add: q_push_def)
  qed
  moreover have "assigned_cpu (tasks ?s x) = int k" if "k < SCHED_MAX_CPUS" "x \<in> set (q_push c t qs k)" for k x
    using that rel assms(4) by (auto simp: links_rel_def q_push_def same split: if_splits)
  moreover have "on_runqueue (tasks ?s x) \<longleftrightarrow> (\<exists>k < SCHED_MAX_CPUS. x \<in> set (q_push c t qs k))" for x
    using rel c by (auto simp: links_rel_def q_push_def links)
  ultimately show ?thesis by (simp add: links_rel_def)
qed

lemma links_rel_upd_task:
  assumes "links_rel s qs" "\<And>x. rq_next (f x) = rq_next x" "\<And>x. rq_prev (f x) = rq_prev x"
    "\<And>x. on_runqueue (f x) = on_runqueue x"
    and "on_runqueue (tasks s t) \<Longrightarrow> assigned_cpu (f (tasks s t)) = assigned_cpu (tasks s t)"
  shows "links_rel (upd_task t f s) qs"
  unfolding links_rel_def
proof (intro conjI allI impI ballI)
  fix c assume c: "c < SCHED_MAX_CPUS"
  show "queue_ok (upd_task t f s) c (qs c)"
    using links_rel_queue [OF assms(1) c] assms(2,3) by (rule queue_ok_upd_task)
  show "assigned_cpu (tasks (upd_task t f s) x) = int c" if "x \<in> set (qs c)" for x
  proof -
    have "on_runqueue (tasks s x)" "assigned_cpu (tasks s x) = int c"
      using that c assms(1) unfolding links_rel_def by auto
    with assms(5) show ?thesis by auto
  qed
next
  show "on_runqueue (tasks (upd_task t f s) x) \<longleftrightarrow> (\<exists>c < SCHED_MAX_CPUS. x \<in> set (qs c))" for x
    using assms(1,4) by (auto simp: links_rel_def)
qed

lemma links_rel_upd_cpu:
  assumes "links_rel s qs" "\<And>k. rq_head (f k) = rq_head k" "\<And>k. rq_tail (f k) = rq_tail k"
  shows "links_rel (upd_cpu c f s) qs"
  using assms by (auto simp: links_rel_def queue_ok_def)

section \<open>The scheduling discipline\<close>

definition run_inv :: "'a sched_scheme \<Rightarrow> bool" where
  "run_inv s \<longleftrightarrow>
     scheduler_ready s \<and>
     (\<forall>i. \<not> is_idle (tasks s (TaskP i))) \<and>
     (\<forall>c < SCHED_MAX_CPUS. current (sched_cpus s c) \<noteq> None) \<and>
     (\<forall>c < SCHED_MAX_CPUS. idle (sched_cpus s c) \<noteq> None) \<and>
     (\<forall>c < SCHED_MAX_CPUS. \<forall>i. idle (sched_cpus s c) = Some i \<longrightarrow> is_idle (tasks s i)) \<and>
     (\<forall>t. on_runqueue (tasks s t) \<longrightarrow> state (tasks s t) = TASK_RUNNABLE \<and> \<not> is_idle (tasks s t)) \<and>
     (\<forall>t. state (tasks s t) = TASK_RUNNABLE \<longrightarrow> \<not> is_idle (tasks s t) \<longrightarrow> on_runqueue (tasks s t)) \<and>
     (\<forall>t. state (tasks s t) = TASK_RUNNING \<longrightarrow> \<not> is_idle (tasks s t) \<longrightarrow>
            (\<exists>c < SCHED_MAX_CPUS. current (sched_cpus s c) = Some t)) \<and>
     (\<forall>c < SCHED_MAX_CPUS. \<forall>t. current (sched_cpus s c) = Some t \<longrightarrow> \<not> is_idle (tasks s t) \<longrightarrow>
            assigned_cpu (tasks s t) = int c) \<and>
     (\<forall>t. assigned_cpu (tasks s t) < int SCHED_MAX_CPUS)"

definition sched_inv :: "'a sched_scheme \<Rightarrow> queues \<Rightarrow> bool" where
  "sched_inv s qs \<longleftrightarrow> links_rel s qs \<and> run_inv s"

lemma scheduler_cpu_id_bound [simp]: "scheduler_cpu_id s < SCHED_MAX_CPUS"
  by (simp add: scheduler_cpu_id_def model_simps)

lemma cpu_by_id_bound [simp]: "cpu_by_id i < SCHED_MAX_CPUS"
  by (simp add: cpu_by_id_def model_simps)

lemma cpu_by_id_idem [simp]: "i < SCHED_MAX_CPUS \<Longrightarrow> cpu_by_id i = i"
  by (simp add: cpu_by_id_def)

lemma scheduler_cpu_local_ready [simp]:
  "scheduler_ready s \<Longrightarrow> scheduler_cpu_local s = Some (scheduler_cpu_id s)"
  by (simp add: scheduler_cpu_local_def)

lemma q_remove_off: "(\<And>c. t \<notin> set (qs c)) \<Longrightarrow> q_remove t qs = qs"
  by (simp add: q_remove_def remove1_idem)

lemma links_rel_cong:
  "links_rel s qs \<Longrightarrow> (\<And>c. c < SCHED_MAX_CPUS \<Longrightarrow> qs c = qs' c) \<Longrightarrow> links_rel s qs'"
  by (auto simp: links_rel_def)

lemma leave_queue_rel:
  assumes rel: "links_rel s qs"
  shows "links_rel (leave_queue t s) (q_remove t qs)" "same_but_links s (leave_queue t s)"
    "\<not> on_runqueue (tasks (leave_queue t s) t)"
    "x \<noteq> t \<Longrightarrow> on_runqueue (tasks (leave_queue t s) x) = on_runqueue (tasks s x)"
proof -
  consider (off) "\<not> on_runqueue (tasks s t)" | (on) "on_runqueue (tasks s t)" by blast
  then have "links_rel (leave_queue t s) (q_remove t qs) \<and> same_but_links s (leave_queue t s) \<and>
    \<not> on_runqueue (tasks (leave_queue t s) t) \<and>
    (x \<noteq> t \<longrightarrow> on_runqueue (tasks (leave_queue t s) x) = on_runqueue (tasks s x))"
  proof cases
    case off
    have "links_rel s (q_remove t qs)"
      by (rule links_rel_cong [OF rel]) (use links_rel_off [OF rel off] in \<open>simp add: q_remove_def remove1_idem\<close>)
    with off show ?thesis by (simp add: leave_queue_def)
  next
    case on
    then have "leave_queue t s = rq_remove_locked (nat (assigned_cpu (tasks s t))) t s"
      using links_rel_on [OF rel on] by (simp add: leave_queue_def task_cpu_def)
    with links_rel_remove [OF rel on] on show ?thesis by (simp add: rq_remove_same rq_remove_links)
  qed
  then show "links_rel (leave_queue t s) (q_remove t qs)" "same_but_links s (leave_queue t s)"
    "\<not> on_runqueue (tasks (leave_queue t s) t)"
    "x \<noteq> t \<Longrightarrow> on_runqueue (tasks (leave_queue t s) x) = on_runqueue (tasks s x)" by blast+
qed

text \<open>\<open>scheduler_task_make_runnable\<close> leaves the old queue, takes the target CPU and joins its queue.\<close>

lemma make_runnable_eq:
  assumes rel: "links_rel s qs" and "\<not> is_idle (tasks s t)"
  shows "scheduler_task_make_runnable t i s =
    rq_push_tail_locked (cpu_by_id i) t
      (upd_task t (\<lambda>x. x\<lparr>assigned_cpu := int (cpu_by_id i), state := TASK_RUNNABLE\<rparr>) (leave_queue t s))"
proof -
  let ?c = "cpu_by_id i"
  have c: "?c = (if SCHED_MAX_CPUS \<le> i then 0 else i)" by (simp add: cpu_by_id_def)
  have upd: "upd_task t (state_update (\<lambda>_. TASK_RUNNABLE)) (upd_task t (assigned_cpu_update (\<lambda>_. int ?c)) r) =
      upd_task t (\<lambda>x. x\<lparr>assigned_cpu := int ?c, state := TASK_RUNNABLE\<rparr>) r" for r :: "'a sched_scheme"
    by (simp add: upd_task_def)
  show ?thesis
  proof (cases "on_runqueue (tasks s t)")
    case False
    then show ?thesis
      using assms(2) by (simp add: scheduler_task_make_runnable_def leave_queue_def Let_def c [symmetric] upd)
  next
    case on: True
    note a = links_rel_on [OF rel on]
    show ?thesis
    proof (cases "nat (assigned_cpu (tasks s t)) = ?c")
      case False
      then show ?thesis using assms(2) on a
        by (simp add: scheduler_task_make_runnable_def leave_queue_def Let_def c [symmetric] upd task_cpu_def
            rq_remove_links)
    next
      case True
      then have same: "upd_task t (assigned_cpu_update (\<lambda>_. int ?c)) s = s"
        using a(1) by (simp add: upd_task_def fun_upd_idem)
      then have "upd_task t (assigned_cpu_update (\<lambda>_. int ?c)) (rq_remove_locked ?c t s) = rq_remove_locked ?c t s"
        using same_but_linksD(3) [OF rq_remove_same [of s ?c t], of t] a(1) True
        by (simp add: upd_task_def fun_upd_idem)
      with same True on a assms(2) show ?thesis
        by (simp add: scheduler_task_make_runnable_def leave_queue_def Let_def c [symmetric] task_cpu_def
            flip: upd)
    qed
  qed
qed

lemma make_runnable_rel:
  assumes rel: "links_rel s qs" and ni: "\<not> is_idle (tasks s t)"
  shows "links_rel (scheduler_task_make_runnable t i s) (q_push (cpu_by_id i) t (q_remove t qs))"
proof -
  note lq = leave_queue_rel [OF rel, where t = t]
  have "links_rel (upd_task t (\<lambda>x. x\<lparr>assigned_cpu := int (cpu_by_id i), state := TASK_RUNNABLE\<rparr>) (leave_queue t s))
      (q_remove t qs)"
    by (rule links_rel_upd_task [OF lq(1)]) (use lq(3) in simp_all)
  then show ?thesis
    unfolding make_runnable_eq [OF assms] by (rule links_rel_push) (use lq(3) in simp_all)
qed

lemma make_runnable_fields:
  fixes i :: nat
  assumes rel: "links_rel s qs" and ni: "\<not> is_idle (tasks s t)"
  defines "s' \<equiv> scheduler_task_make_runnable t i s"
  shows "state (tasks s' x) = (if x = t then TASK_RUNNABLE else state (tasks s x))"
    "assigned_cpu (tasks s' x) = (if x = t then int (cpu_by_id i) else assigned_cpu (tasks s x))"
    "on_runqueue (tasks s' x) = (x = t \<or> on_runqueue (tasks s x))"
    "is_idle (tasks s' x) = is_idle (tasks s x)"
    "current (sched_cpus s' c) = current (sched_cpus s c)" "idle (sched_cpus s' c) = idle (sched_cpus s c)"
    "scheduler_ready s' = scheduler_ready s" "scheduler_cpu_id s' = scheduler_cpu_id s"
    "sched.more s' = sched.more s"
proof -
  note lq = leave_queue_rel [OF rel, where t = t]
  note sl = same_but_linksD [OF lq(2)]
  let ?r = "upd_task t (\<lambda>x. x\<lparr>assigned_cpu := int (cpu_by_id i), state := TASK_RUNNABLE\<rparr>) (leave_queue t s)"
  note sp = same_but_linksD [OF rq_push_same [of ?r "cpu_by_id i" t]]
  have s': "s' = rq_push_tail_locked (cpu_by_id i) t ?r"
    unfolding s'_def by (rule make_runnable_eq [OF rel ni])
  have relr: "links_rel ?r (q_remove t qs)"
    by (rule links_rel_upd_task [OF lq(1)]) (use lq(3) in simp_all)
  have off: "\<not> on_runqueue (tasks ?r t)" using lq(3) by simp
  have "rq_tail (sched_cpus ?r (cpu_by_id i)) \<noteq> Some t"
    using links_rel_off [OF relr off cpu_by_id_bound] links_rel_queue [OF relr cpu_by_id_bound]
    by (auto simp: queue_ok_def dest: last_opt_Some_in)
  note on = rq_push_links(3) [OF off this]
  show "on_runqueue (tasks s' x) = (x = t \<or> on_runqueue (tasks s x))"
    unfolding s' on using lq(4) by auto
  show "state (tasks s' x) = (if x = t then TASK_RUNNABLE else state (tasks s x))"
    "assigned_cpu (tasks s' x) = (if x = t then int (cpu_by_id i) else assigned_cpu (tasks s x))"
    "is_idle (tasks s' x) = is_idle (tasks s x)"
    "current (sched_cpus s' c) = current (sched_cpus s c)" "idle (sched_cpus s' c) = idle (sched_cpus s c)"
    "scheduler_ready s' = scheduler_ready s" "scheduler_cpu_id s' = scheduler_cpu_id s"
    "sched.more s' = sched.more s"
    unfolding s' sp by (simp_all add: sl)
qed

lemma make_runnable_inv:
  assumes inv: "sched_inv s qs" and ni: "\<not> is_idle (tasks s t)"
    and call: "0 \<le> assigned_cpu (tasks s t) \<Longrightarrow> nat (assigned_cpu (tasks s t)) = cpu_by_id i"
  shows "sched_inv (scheduler_task_make_runnable t i s) (q_push (cpu_by_id i) t (q_remove t qs))"
proof -
  have rel: "links_rel s qs" and run: "run_inv s" using inv by (simp_all add: sched_inv_def)
  note f = make_runnable_fields [OF rel ni, where i = i]
  have cur: "assigned_cpu (tasks s t) = int (cpu_by_id i)" if "c < SCHED_MAX_CPUS" "current (sched_cpus s c) = Some t" for c
  proof -
    have "assigned_cpu (tasks s t) = int c" using run that ni by (simp add: run_inv_def)
    with call show ?thesis by simp
  qed
  have "run_inv (scheduler_task_make_runnable t i s)"
    unfolding run_inv_def f
  proof (intro conjI)
    show "\<forall>c<SCHED_MAX_CPUS. \<forall>x. current (sched_cpus s c) = Some x \<longrightarrow> \<not> is_idle (tasks s x) \<longrightarrow>
        (if x = t then int (cpu_by_id i) else assigned_cpu (tasks s x)) = int c"
      using run cur unfolding run_inv_def by auto
  qed (use run ni in \<open>auto simp: run_inv_def\<close>)
  with make_runnable_rel [OF rel ni] show ?thesis by (simp add: sched_inv_def)
qed

text \<open>The three routines that take a task off its queue share one shape.\<close>

definition take_off :: "tptr \<Rightarrow> (task \<Rightarrow> task) \<Rightarrow> 'a sched_scheme \<Rightarrow> 'a sched_scheme" where
  "take_off t f s = upd_task t f (leave_queue t s)"

lemma take_off_rel:
  assumes rel: "links_rel s qs" and "\<And>x. rq_next (f x) = rq_next x" "\<And>x. rq_prev (f x) = rq_prev x"
    "\<And>x. on_runqueue (f x) = on_runqueue x"
  shows "links_rel (take_off t f s) (q_remove t qs)"
  unfolding take_off_def using leave_queue_rel [OF rel, where t = t] assms(2-)
  by (intro links_rel_upd_task) simp_all

lemma take_off_inv:
  assumes inv: "sched_inv s qs" and ni: "\<not> is_idle (tasks s t)"
    and f: "\<And>x. rq_next (f x) = rq_next x" "\<And>x. rq_prev (f x) = rq_prev x"
      "\<And>x. on_runqueue (f x) = on_runqueue x" "\<And>x. is_idle (f x) = is_idle x"
      "\<And>x. state (f x) \<noteq> TASK_RUNNABLE" "\<And>x. state (f x) \<noteq> TASK_RUNNING"
      "\<And>x. assigned_cpu (f x) < int SCHED_MAX_CPUS"
      "\<And>x c. c < SCHED_MAX_CPUS \<Longrightarrow> current (sched_cpus s c) = Some t \<Longrightarrow>
         assigned_cpu (f x) = assigned_cpu (tasks s t)"
  shows "sched_inv (take_off t f s) (q_remove t qs)"
proof -
  have rel: "links_rel s qs" and run: "run_inv s" using inv by (simp_all add: sched_inv_def)
  note lq = leave_queue_rel [OF rel, where t = t]
  note sl = same_but_linksD [OF lq(2)]
  have on: "on_runqueue (tasks (leave_queue t s) x) = (x \<noteq> t \<and> on_runqueue (tasks s x))" for x
    using lq(3,4) by (cases "x = t") auto
  have "run_inv (take_off t f s)"
    using run f(4,5,6,7,8) ni lq(3) unfolding run_inv_def take_off_def
    by (auto simp: sl on f(3))
  with take_off_rel [OF rel f(1-3)] show ?thesis by (simp add: sched_inv_def)
qed

lemma set_state_take_off:
  assumes "\<not> is_idle (tasks s t)"
  shows "scheduler_task_set_blocked t s =
      take_off t (\<lambda>x. x\<lparr>assigned_cpu := int (task_cpu s t), state := TASK_BLOCKED\<rparr>) s"
    and "scheduler_task_set_zombie t s =
      take_off t (\<lambda>x. x\<lparr>assigned_cpu := int (task_cpu s t), state := TASK_ZOMBIE\<rparr>) s"
    and "scheduler_task_set_unused t s =
      take_off t (\<lambda>x. x\<lparr>assigned_cpu := -1, state := TASK_UNUSED\<rparr>) s"
  using assms
  by (simp_all add: scheduler_task_set_blocked_def scheduler_task_set_zombie_def
      scheduler_task_set_unused_def take_off_def)

lemma task_cpu_facts:
  assumes "run_inv s" "\<not> is_idle (tasks s t)"
  shows "task_cpu s t < SCHED_MAX_CPUS"
    and "c < SCHED_MAX_CPUS \<Longrightarrow> current (sched_cpus s c) = Some t \<Longrightarrow>
      int (task_cpu s t) = assigned_cpu (tasks s t)"
proof -
  have "assigned_cpu (tasks s t) < int SCHED_MAX_CPUS" using assms by (simp add: run_inv_def)
  then show "task_cpu s t < SCHED_MAX_CPUS" by (auto simp: task_cpu_def)
  show "int (task_cpu s t) = assigned_cpu (tasks s t)"
    if "c < SCHED_MAX_CPUS" "current (sched_cpus s c) = Some t"
    using assms that by (simp add: run_inv_def task_cpu_def)
qed

lemma set_blocked_inv:
  assumes "sched_inv s qs" "\<not> is_idle (tasks s t)"
  shows "sched_inv (scheduler_task_set_blocked t s) (q_remove t qs)"
  unfolding set_state_take_off [OF assms(2)] using assms task_cpu_facts [of s t]
  by (intro take_off_inv) (auto simp: sched_inv_def)

lemma set_zombie_inv:
  assumes "sched_inv s qs" "\<not> is_idle (tasks s t)"
  shows "sched_inv (scheduler_task_set_zombie t s) (q_remove t qs)"
  unfolding set_state_take_off [OF assms(2)] using assms task_cpu_facts [of s t]
  by (intro take_off_inv) (auto simp: sched_inv_def)

lemma set_unused_inv:
  assumes "sched_inv s qs" "\<not> is_idle (tasks s t)"
    and "\<And>c. c < SCHED_MAX_CPUS \<Longrightarrow> current (sched_cpus s c) \<noteq> Some t"
  shows "sched_inv (scheduler_task_set_unused t s) (q_remove t qs)"
  unfolding set_state_take_off [OF assms(2)] using assms
  by (intro take_off_inv) (auto simp: SCHED_MAX_CPUS_def)

section \<open>Picking and switching\<close>

lemma links_rel_pop:
  assumes rel: "links_rel s qs" and c: "c < SCHED_MAX_CPUS" and q: "qs c = t # xs"
  shows "rq_pop_head_locked c s = (Some t, rq_remove_locked c t s)"
    and "links_rel (rq_remove_locked c t s) (qs(c := xs))"
proof -
  have on: "on_runqueue (tasks s t)" and a: "assigned_cpu (tasks s t) = int c"
    using rel c q by (auto simp: links_rel_def)
  show "rq_pop_head_locked c s = (Some t, rq_remove_locked c t s)"
    using links_rel_queue [OF rel c] q on by (intro rq_pop_queue_ok) simp_all
  have rem: "links_rel (rq_remove_locked c t s) (q_remove t qs)"
    using links_rel_remove [OF rel on] a by simp
  have "t \<notin> set (qs k)" if "k < SCHED_MAX_CPUS" "k \<noteq> c" for k
    using links_rel_disjoint [OF rel c that] q by auto
  then show "links_rel (rq_remove_locked c t s) (qs(c := xs))"
    using q by (intro links_rel_cong [OF rem]) (auto simp: q_remove_def remove1_idem)
qed

text \<open>The loop of \<open>pick_next_runnable_locked\<close> ends: it drops the tasks before the first runnable one.\<close>

lemma pop_until_runnable_spec:
  assumes "links_rel s qs" "c < SCHED_MAX_CPUS"
    and "ys = dropWhile (\<lambda>t. state (tasks s t) \<noteq> TASK_RUNNABLE) (qs c)"
  shows "\<exists>s'. pop_until_runnable c (rq_pop_head_locked c s) =
      Some (case ys of [] \<Rightarrow> idle (sched_cpus s c) | t # _ \<Rightarrow> Some t, s') \<and>
    same_but_links s s' \<and> links_rel s' (qs(c := tl ys))"
  using assms
proof (induction "qs c" arbitrary: s qs)
  case Nil
  have "qs(c := []) = qs" using Nil(1) by (metis fun_upd_triv)
  moreover have "rq_head (sched_cpus s c) = None"
    using links_rel_queue [OF Nil(2,3)] Nil(1) by (simp add: queue_ok_def)
  ultimately show ?case
    using Nil by (simp add: rq_pop_empty pop_until_runnable.simps [of c "(None, s)"])
next
  case (Cons t xs)
  let ?s = "rq_remove_locked c t s"
  note pop = links_rel_pop [OF Cons.prems(1,2) Cons.hyps(2) [symmetric]]
  note same = same_but_linksD [OF rq_remove_same [of s c t]]
  show ?case
  proof (cases "state (tasks s t) = TASK_RUNNABLE")
    case True
    then have "ys = t # xs" using Cons by (simp flip: Cons.hyps(2))
    with True pop show ?thesis
      by (simp add: pop_until_runnable.simps [of c "(Some t, ?s)"] same rq_remove_same)
  next
    case False
    then have ys: "ys = dropWhile (\<lambda>t. state (tasks ?s t) \<noteq> TASK_RUNNABLE) ((qs(c := xs)) c)"
      using Cons by (simp add: same flip: Cons.hyps(2))
    from Cons.hyps(1) [OF _ pop(2) Cons.prems(2) ys] obtain s' where
      s': "pop_until_runnable c (rq_pop_head_locked c ?s) =
        Some (case ys of [] \<Rightarrow> idle (sched_cpus ?s c) | t # _ \<Rightarrow> Some t, s')"
      "same_but_links ?s s'" "links_rel s' (qs(c := tl ys))" by (auto simp only: fun_upd_same fun_upd_upd)
    have "same_but_links s s'"
      using s'(2) rq_remove_same [of s c t] by (simp add: same_but_links_def)
    with False pop s' show ?thesis
      by (simp add: pop_until_runnable.simps [of c "(Some t, ?s)"] same split: list.split)
  qed
qed

text \<open>The abstract scheduler step: requeue the running task, take the first of the queue.\<close>

definition q_yield :: "tptr list \<Rightarrow> tptr option \<Rightarrow> tptr list" where
  "q_yield q running = q @ (case running of Some t \<Rightarrow> [t] | None \<Rightarrow> [])"

definition running_task :: "'a sched_scheme \<Rightarrow> nat \<Rightarrow> tptr option" where
  "running_task s c =
     (case current (sched_cpus s c) of
        Some t \<Rightarrow> if \<not> is_idle (tasks s t) \<and> state (tasks s t) = TASK_RUNNING then Some t else None
      | None \<Rightarrow> None)"

lemma requeue_prev_spec:
  assumes inv: "sched_inv s qs" and c: "c < SCHED_MAX_CPUS" and cur: "current (sched_cpus s c) = Some prev"
  shows "links_rel (requeue_prev False c prev s) (qs(c := q_yield (qs c) (running_task s c)))"
    and "is_idle (tasks (requeue_prev False c prev s) x) = is_idle (tasks s x)"
    and "assigned_cpu (tasks (requeue_prev False c prev s) x) = assigned_cpu (tasks s x)"
    and "state (tasks (requeue_prev False c prev s) x) =
      (if running_task s c = Some x then TASK_RUNNABLE else state (tasks s x))"
    and "on_runqueue (tasks (requeue_prev False c prev s) x) =
      (running_task s c = Some x \<or> on_runqueue (tasks s x))"
    and "current (sched_cpus (requeue_prev False c prev s) k) = current (sched_cpus s k)"
    and "idle (sched_cpus (requeue_prev False c prev s) k) = idle (sched_cpus s k)"
    and "scheduler_ready (requeue_prev False c prev s) = scheduler_ready s"
    and "scheduler_cpu_id (requeue_prev False c prev s) = scheduler_cpu_id s"
    and "sched.more (requeue_prev False c prev s) = sched.more s"
proof -
  have rel: "links_rel s qs" and run: "run_inv s" using inv by (simp_all add: sched_inv_def)
  let ?s = "requeue_prev False c prev s"
  let ?r = "upd_task prev (state_update (\<lambda>_. TASK_RUNNABLE)) s"
  have *: "links_rel ?s (qs(c := q_yield (qs c) (running_task s c))) \<and>
    is_idle (tasks ?s x) = is_idle (tasks s x) \<and> assigned_cpu (tasks ?s x) = assigned_cpu (tasks s x) \<and>
    state (tasks ?s x) = (if running_task s c = Some x then TASK_RUNNABLE else state (tasks s x)) \<and>
    on_runqueue (tasks ?s x) = (running_task s c = Some x \<or> on_runqueue (tasks s x)) \<and>
    current (sched_cpus ?s k) = current (sched_cpus s k) \<and> idle (sched_cpus ?s k) = idle (sched_cpus s k) \<and>
    scheduler_ready ?s = scheduler_ready s \<and> scheduler_cpu_id ?s = scheduler_cpu_id s \<and>
    sched.more ?s = sched.more s"
  proof (cases "\<not> is_idle (tasks s prev) \<and> state (tasks s prev) = TASK_RUNNING")
    case True
    have a: "assigned_cpu (tasks s prev) = int c" using run c cur True by (simp add: run_inv_def)
    have off: "\<not> on_runqueue (tasks ?r prev)" using run True by (auto simp: run_inv_def)
    have r: "links_rel ?r qs" by (rule links_rel_upd_task [OF rel]) simp_all
    have "rq_tail (sched_cpus ?r c) \<noteq> Some prev"
      using links_rel_off [OF r off c] links_rel_queue [OF r c]
      by (auto simp: queue_ok_def dest: last_opt_Some_in)
    note on = rq_push_links(3) [OF off this]
    have "links_rel (rq_push_tail_locked c prev ?r) (q_push c prev qs)"
      by (rule links_rel_push [OF r off c]) (simp add: a)
    with True cur show ?thesis
      by (simp add: requeue_prev_def Let_def running_task_def q_yield_def q_push_def on
          same_but_linksD [OF rq_push_same])
  next
    case False
    then show ?thesis using rel cur by (auto simp: requeue_prev_def running_task_def q_yield_def)
  qed
  then show "links_rel ?s (qs(c := q_yield (qs c) (running_task s c)))"
    "is_idle (tasks ?s x) = is_idle (tasks s x)" "assigned_cpu (tasks ?s x) = assigned_cpu (tasks s x)"
    "state (tasks ?s x) = (if running_task s c = Some x then TASK_RUNNABLE else state (tasks s x))"
    "on_runqueue (tasks ?s x) = (running_task s c = Some x \<or> on_runqueue (tasks s x))"
    "current (sched_cpus ?s k) = current (sched_cpus s k)" "idle (sched_cpus ?s k) = idle (sched_cpus s k)"
    "scheduler_ready ?s = scheduler_ready s" "scheduler_cpu_id ?s = scheduler_cpu_id s"
    "sched.more ?s = sched.more s"
    by blast+
qed

lemma switch_task_context_simps [simp]:
  "tasks (switch_task_context n s) = tasks s" "sched_cpus (switch_task_context n s) = sched_cpus s"
  "scheduler_ready (switch_task_context n s) = scheduler_ready s"
  "local_cpu_id (switch_task_context n s) = local_cpu_id s"
  "scheduler_cpu_id (switch_task_context n s) = scheduler_cpu_id s"
  "sched.more (switch_task_context n s) = sched.more s"
  "reg_cr3 (switch_task_context n s) = cr3 (tasks s n)"
  "reg_fs_base (switch_task_context n s) = fs_base (tasks s n)"
  "tss_rsp0 (switch_task_context n s) = kernel_stack_top (tasks s n)"
  by (simp_all add: switch_task_context_def scheduler_cpu_id_def)

lemma switch_task_context_inv [simp]: "sched_inv (switch_task_context n s) qs = sched_inv s qs"
  by (simp add: sched_inv_def links_rel_def queue_ok_def run_inv_def)

text \<open>Installing the chosen task.\<close>

definition install :: "nat \<Rightarrow> tptr option \<Rightarrow> 'a sched_scheme \<Rightarrow> 'a sched_scheme" where
  "install c next s =
     (let s2 = (case next of
                  Some n \<Rightarrow>
                    if is_idle (tasks s n) then s
                    else upd_task n (\<lambda>x. x\<lparr>assigned_cpu := int (scheduler_cpu_id s),
                           state := TASK_RUNNING, need_resched := False\<rparr>) s
                | None \<Rightarrow> s)
      in upd_cpu c (\<lambda>k. k\<lparr>current := (case next of Some n \<Rightarrow> Some n | None \<Rightarrow> idle k)\<rparr>) s2)"

lemma install_rel:
  assumes "links_rel s qs" "\<And>n. next = Some n \<Longrightarrow> \<not> is_idle (tasks s n) \<Longrightarrow> \<not> on_runqueue (tasks s n)"
  shows "links_rel (install c next s) qs"
  unfolding install_def Let_def
  by (intro links_rel_upd_cpu; (simp split: option.split)?)
    (use assms in \<open>auto intro!: links_rel_upd_task split: option.split\<close>)

lemma install_idle_inv:
  assumes inv: "sched_inv s qs" and c: "c < SCHED_MAX_CPUS" and "running_task s c = None"
    and rel: "links_rel s1 qs" and same: "same_but_links s s1" and i: "idle (sched_cpus s c) = Some i"
  shows "sched_inv (install c (Some i) s1) qs"
proof -
  have run: "run_inv s" and rel0: "links_rel s qs" using inv by (simp_all add: sched_inv_def)
  note sl = same_but_linksD [OF same]
  have idle: "is_idle (tasks s i)" using run c i by (simp add: run_inv_def)
  have on: "on_runqueue (tasks s1 x) = on_runqueue (tasks s x)" for x
    using rel rel0 by (simp add: links_rel_def)
  have cur: "\<exists>k < SCHED_MAX_CPUS. k \<noteq> c \<and> current (sched_cpus s k) = Some x"
    if x: "state (tasks s x) = TASK_RUNNING" "\<not> is_idle (tasks s x)" for x
  proof -
    obtain k where k: "k < SCHED_MAX_CPUS" "current (sched_cpus s k) = Some x"
      using run x unfolding run_inv_def by blast
    then have "k \<noteq> c" using assms(3) x by (auto simp: running_task_def)
    with k show ?thesis by blast
  qed
  have "run_inv (install c (Some i) s1)"
    using run idle cur unfolding run_inv_def install_def Let_def
    by (simp add: sl on) metis
  moreover have "links_rel (install c (Some i) s1) qs"
    by (rule install_rel [OF rel]) (use idle sl in auto)
  ultimately show ?thesis by (simp add: sched_inv_def)
qed

lemma install_task_inv:
  assumes inv: "sched_inv s qs" and c: "c = scheduler_cpu_id s"
    and r: "r = requeue_prev False c prev s" and cur: "current (sched_cpus s c) = Some prev"
    and q: "q_yield (qs c) (running_task s c) = t # xs"
    and rel: "links_rel s1 (qs(c := xs))" and same: "same_but_links r s1"
  shows "sched_inv (install c (Some t) s1) (qs(c := xs)) \<and> \<not> is_idle (tasks s1 t)"
proof -
  have run: "run_inv s" using inv by (simp add: sched_inv_def)
  have cb: "c < SCHED_MAX_CPUS" by (simp add: c)
  note rq = requeue_prev_spec [OF inv cb cur, folded r]
  note sl = same_but_linksD [OF same]
  have relr: "links_rel r (qs(c := t # xs))" using rq(1) q by simp
  have dis: "distinct (t # xs)" using links_rel_distinct [OF relr cb] by simp
  have on: "on_runqueue (tasks s1 x) = (x \<noteq> t \<and> on_runqueue (tasks r x))" for x
  proof -
    have "t \<notin> set (qs k)" if "k < SCHED_MAX_CPUS" "k \<noteq> c" for k
      using links_rel_disjoint [OF relr cb that] that(2) by simp
    with rel relr dis cb show ?thesis unfolding links_rel_def by (auto split: if_splits)
  qed
  have tq: "on_runqueue (tasks r t)" "assigned_cpu (tasks r t) = int c"
    using relr cb unfolding links_rel_def by (auto split: if_splits)
  have ni: "\<not> is_idle (tasks s t)"
    using tq(1) run unfolding rq by (auto simp: run_inv_def running_task_def split: option.splits if_splits)
  have tc: "k = c" if "k < SCHED_MAX_CPUS" "current (sched_cpus s k) = Some t" for k
    using run that ni tq(2) unfolding rq by (simp add: run_inv_def)
  have others: "\<exists>k < SCHED_MAX_CPUS. k \<noteq> c \<and> current (sched_cpus s k) = Some x"
    if x: "state (tasks s x) = TASK_RUNNING" "\<not> is_idle (tasks s x)" "running_task s c \<noteq> Some x" for x
  proof -
    obtain k where k: "k < SCHED_MAX_CPUS" "current (sched_cpus s k) = Some x"
      using run x unfolding run_inv_def by blast
    then have "k \<noteq> c" using x by (auto simp: running_task_def)
    with k show ?thesis by blast
  qed
  have f: "state (tasks (install c (Some t) s1) x) = (if x = t then TASK_RUNNING
        else if running_task s c = Some x then TASK_RUNNABLE else state (tasks s x))"
    "is_idle (tasks (install c (Some t) s1) x) = is_idle (tasks s x)"
    "assigned_cpu (tasks (install c (Some t) s1) x) = (if x = t then int c else assigned_cpu (tasks s x))"
    "on_runqueue (tasks (install c (Some t) s1) x) =
      (x \<noteq> t \<and> (running_task s c = Some x \<or> on_runqueue (tasks s x)))"
    "current (sched_cpus (install c (Some t) s1) k) = (if k = c then Some t else current (sched_cpus s k))"
    "idle (sched_cpus (install c (Some t) s1) k) = idle (sched_cpus s k)"
    "scheduler_ready (install c (Some t) s1) = scheduler_ready s" for x k
    using ni by (simp_all add: install_def on sl rq c [symmetric])
  have rt: "\<not> is_idle (tasks s x) \<and> state (tasks s x) = TASK_RUNNING" if "running_task s c = Some x" for x
    using that by (auto simp: running_task_def split: option.splits if_splits)
  have "run_inv (install c (Some t) s1)"
    unfolding run_inv_def f
  proof (intro conjI)
    show "\<forall>x. (if x = t then TASK_RUNNING else if running_task s c = Some x then TASK_RUNNABLE
        else state (tasks s x)) = TASK_RUNNING \<longrightarrow> \<not> is_idle (tasks s x) \<longrightarrow>
        (\<exists>k<SCHED_MAX_CPUS. (if k = c then Some t else current (sched_cpus s k)) = Some x)"
      using others cb by (auto split: if_splits)
  qed (use run ni tc rt cb in \<open>auto simp: run_inv_def\<close>)
  moreover have "links_rel (install c (Some t) s1) (qs(c := xs))"
    by (rule install_rel [OF rel]) (simp add: on)
  ultimately show ?thesis using ni by (simp add: sched_inv_def sl rq)
qed

lemma schedule_common_install:
  assumes "scheduler_ready s" "c = scheduler_cpu_id s" "current (sched_cpus s c) = Some prev"
    and "pick_next_runnable_locked c (requeue_prev tick_mode c prev s) = Some (Some n, s1)"
  shows "schedule_common tick_mode s =
    Some (if n \<noteq> prev then switch_task_context n (install c (Some n) s1) else install c (Some n) s1)"
  using assms by (simp add: schedule_common_def install_def Let_def)

lemma install_facts [simp]:
  "current (sched_cpus (install c (Some n) s) c) = Some n"
  "scheduler_cpu_id (install c (Some n) s) = scheduler_cpu_id s"
  "sched.more (install c (Some n) s) = sched.more s"
  "is_idle (tasks (install c (Some n) s) x) = is_idle (tasks s x)"
  "\<not> is_idle (tasks s n) \<Longrightarrow> state (tasks (install c (Some n) s) n) = TASK_RUNNING"
  by (simp_all add: install_def)

lemma yield_spec:
  assumes inv: "sched_inv s qs" and c: "c = scheduler_cpu_id s"
    and q: "q = q_yield (qs c) (running_task s c)"
  shows "\<exists>s'. scheduler_yield s = Some s' \<and> sched_inv s' (qs(c := tl q)) \<and>
    current (sched_cpus s' c) = (case q of [] \<Rightarrow> idle (sched_cpus s c) | t # _ \<Rightarrow> Some t) \<and>
    scheduler_cpu_id s' = scheduler_cpu_id s \<and> sched.more s' = sched.more s \<and>
    running_task s' c = (case q of [] \<Rightarrow> None | t # _ \<Rightarrow> Some t) \<and>
    (current (sched_cpus s' c) = current (sched_cpus s c) \<or>
       reg_cr3 s' = cr3 (tasks s' (the (current (sched_cpus s' c)))) \<and>
       tss_rsp0 s' = kernel_stack_top (tasks s' (the (current (sched_cpus s' c)))) \<and>
       reg_fs_base s' = fs_base (tasks s' (the (current (sched_cpus s' c)))))"
proof -
  have run: "run_inv s" and rel: "links_rel s qs" using inv by (simp_all add: sched_inv_def)
  have cb: "c < SCHED_MAX_CPUS" by (simp add: c)
  have ready: "scheduler_ready s" using run by (simp add: run_inv_def)
  have "current (sched_cpus s c) \<noteq> None" "idle (sched_cpus s c) \<noteq> None"
    and idle: "\<And>i. idle (sched_cpus s c) = Some i \<Longrightarrow> is_idle (tasks s i)"
    using run cb by (simp_all add: run_inv_def)
  then obtain prev i where prev: "current (sched_cpus s c) = Some prev"
    and i: "idle (sched_cpus s c) = Some i" "is_idle (tasks s i)" by blast
  define r where "r = requeue_prev False c prev s"
  note rq = requeue_prev_spec [OF inv cb prev, folded r_def q]
  have "state (tasks r x) = TASK_RUNNABLE" if "x \<in> set q" for x
  proof -
    have "on_runqueue (tasks r x)" using rq(1) that cb by (auto simp: links_rel_def)
    with run show ?thesis unfolding rq by (auto simp: run_inv_def)
  qed
  then have "q = dropWhile (\<lambda>t. state (tasks r t) \<noteq> TASK_RUNNABLE) ((qs(c := q)) c)"
    by (cases q) simp_all
  from pop_until_runnable_spec [OF rq(1) cb this] obtain s1 where
    pick: "pick_next_runnable_locked c r = Some (case q of [] \<Rightarrow> idle (sched_cpus r c) | t # _ \<Rightarrow> Some t, s1)"
    and same: "same_but_links r s1" and rel1: "links_rel s1 (qs(c := tl q))"
    unfolding pick_next_runnable_locked_def by (auto simp only: fun_upd_upd)
  note sl = same_but_linksD [OF same]
  show ?thesis
  proof (cases q)
    case Nil
    then have none: "running_task s c = None" and qs: "qs(c := []) = qs"
      using q by (auto simp: q_yield_def split: option.splits)
    have "r = s" using none prev unfolding r_def requeue_prev_def
      by (auto simp: running_task_def split: if_splits)
    with inv rel1 same none qs Nil cb i(1) have "sched_inv (install c (Some i) s1) qs"
      by (intro install_idle_inv) simp_all
    moreover have "scheduler_yield s = Some (if i \<noteq> prev then switch_task_context i (install c (Some i) s1)
        else install c (Some i) s1)"
      unfolding scheduler_yield_def
      by (rule schedule_common_install [OF ready c prev]) (use pick Nil i \<open>r = s\<close> in \<open>simp add: r_def\<close>)
    ultimately show ?thesis using Nil i qs prev \<open>r = s\<close>
      by (auto simp: running_task_def sl)
  next
    case (Cons t xs)
    then have "q_yield (qs c) (running_task s c) = t # xs" "links_rel s1 (qs(c := xs))"
      using q rel1 by simp_all
    with same have inst: "sched_inv (install c (Some t) s1) (qs(c := xs)) \<and> \<not> is_idle (tasks s1 t)"
      by (intro install_task_inv [OF inv c r_def prev]) simp_all
    moreover have "scheduler_yield s = Some (if t \<noteq> prev then switch_task_context t (install c (Some t) s1)
        else install c (Some t) s1)"
      unfolding scheduler_yield_def
      by (rule schedule_common_install [OF ready c prev]) (use pick Cons in \<open>simp add: r_def\<close>)
    ultimately show ?thesis using Cons prev
      by (auto simp: running_task_def sl rq)
  qed
qed

section \<open>Reachable states\<close>

definition boot_sched :: "'a \<Rightarrow> 'a sched_scheme" where
  "boot_sched m =
     \<lparr>tasks = \<lambda>_. zero_task,
      sched_cpus = \<lambda>_. \<lparr>current = None, idle = None, rq_head = None, rq_tail = None, logical_id = 0\<rparr>,
      local_cpu_id = 0, scheduler_ready = False, total_ticks = 0, idle_ticks = 0,
      tss_rsp0 = 0, reg_cr3 = 0, reg_fs_base = 0, \<dots> = m\<rparr>"

definition not_current :: "tptr \<Rightarrow> 'a sched_scheme \<Rightarrow> bool" where
  "not_current t s \<longleftrightarrow> list_all (\<lambda>c. current (sched_cpus s c) \<noteq> Some t) [0..<SCHED_MAX_CPUS]"

lemma not_currentD: "not_current t s \<Longrightarrow> c < SCHED_MAX_CPUS \<Longrightarrow> current (sched_cpus s c) \<noteq> Some t"
  by (simp add: not_current_def list_all_iff)

text \<open>
  The calls the kernel makes. A task that was placed on a CPU is woken on that CPU, a slot is
  freed only when no CPU still runs it, the boot task is installed on a CPU that idles, and the CPU of a task is
  set from outside (\<^verbatim>\<open>sched_setaffinity\<close>) to the one it has, or while the task is neither queued nor running.
\<close>

inductive sched_step :: "'a sched_scheme \<Rightarrow> 'a sched_scheme \<Rightarrow> bool" where
  wake: "(0 \<le> assigned_cpu (tasks s t) \<Longrightarrow> nat (assigned_cpu (tasks s t)) = cpu_by_id i) \<Longrightarrow>
    sched_step s (scheduler_task_make_runnable t i s)"
| block: "sched_step s (scheduler_task_set_blocked t s)"
| zombie: "sched_step s (scheduler_task_set_zombie t s)"
| free: "not_current t s \<Longrightarrow> sched_step s (scheduler_task_set_unused t s)"
| boot: "\<not> is_idle (tasks s t) \<Longrightarrow> not_current t s \<Longrightarrow> \<not> on_runqueue (tasks s t) \<Longrightarrow>
    current (sched_cpus s (scheduler_cpu_id s)) = idle (sched_cpus s (scheduler_cpu_id s)) \<Longrightarrow>
    sched_step s (scheduler_set_boot_current t s)"
| yield: "scheduler_yield s = Some s' \<Longrightarrow> sched_step s s'"
| tick: "sched_step s (scheduler_tick s)"
| cpu: "sched_step s (scheduler_set_cpu_id i s)"
| affinity: "k < SCHED_MAX_CPUS \<Longrightarrow> int k = assigned_cpu (tasks s t) \<or> \<not> on_runqueue (tasks s t) \<and> not_current t s \<Longrightarrow>
    sched_step s (upd_task t (assigned_cpu_update (\<lambda>_. int k)) s)"

inductive sched_reach :: "'a sched_scheme \<Rightarrow> bool" where
  start: "sched_reach (scheduler_init idle_stack idle_loop boot_cr3 (boot_sched m))"
| step: "sched_reach s \<Longrightarrow> sched_step s s' \<Longrightarrow> sched_reach s'"

lemma init_cpus_fold:
  "tasks (fold (init_cpu st lp cr) [0..<n] s) (TaskP j) = tasks s (TaskP j) \<and>
   (let t = tasks (fold (init_cpu st lp cr) [0..<n] s) (IdleP j) in
     is_idle t = (j < n \<or> is_idle (tasks s (IdleP j))) \<and>
     on_runqueue t = (\<not> j < n \<and> on_runqueue (tasks s (IdleP j))) \<and>
     assigned_cpu t = (if j < n then int j else assigned_cpu (tasks s (IdleP j))) \<and>
     state t = (if j < n then TASK_RUNNING else state (tasks s (IdleP j)))) \<and>
   (let k = sched_cpus (fold (init_cpu st lp cr) [0..<n] s) j in
     current k = (if j < n then Some (IdleP j) else current (sched_cpus s j)) \<and>
     idle k = (if j < n then Some (IdleP j) else idle (sched_cpus s j)) \<and>
     rq_head k = (if j < n then None else rq_head (sched_cpus s j)) \<and>
     rq_tail k = (if j < n then None else rq_tail (sched_cpus s j))) \<and>
   sched.more (fold (init_cpu st lp cr) [0..<n] s) = sched.more s"
  by (induction n) (auto simp: init_cpu_def Let_def)

lemma scheduler_init_inv: "sched_inv (scheduler_init st lp cr (boot_sched m)) (\<lambda>_. [])"
proof -
  let ?s = "fold (init_cpu st lp cr) [0..<SCHED_MAX_CPUS] (boot_sched m)"
  note f = init_cpus_fold [of st lp cr SCHED_MAX_CPUS "boot_sched m", unfolded Let_def]
  have zero: "tasks (boot_sched m) x = zero_task" for x by (simp add: boot_sched_def)
  have ni: "\<not> is_idle (tasks ?s (TaskP j))" for j using f [of j] by (simp add: zero)
  have t: "on_runqueue (tasks ?s x) = False" "assigned_cpu (tasks ?s x) < int SCHED_MAX_CPUS"
    "state (tasks ?s x) \<noteq> TASK_RUNNABLE" "\<not> is_idle (tasks ?s x) \<Longrightarrow> state (tasks ?s x) \<noteq> TASK_RUNNING" for x
    using f by (cases x; auto simp: zero SCHED_MAX_CPUS_def)+
  show ?thesis
    using f t ni
    by (auto simp: sched_inv_def links_rel_def run_inv_def queue_ok_def scheduler_init_def boot_sched_def)
qed

lemma sched_inv_frame:
  assumes "tasks s' = tasks s" "sched_cpus s' = sched_cpus s" "scheduler_ready s' = scheduler_ready s"
    and "sched_inv s qs"
  shows "sched_inv s' qs"
proof -
  have "sched_inv s' qs = sched_inv s qs"
    unfolding sched_inv_def links_rel_def queue_ok_def run_inv_def assms(1-3) by (rule refl)
  with assms(4) show ?thesis by simp
qed

lemma set_boot_current_inv:
  assumes inv: "sched_inv s qs" and c: "c = scheduler_cpu_id s" and t: "\<not> is_idle (tasks s t)" "not_current t s"
    "\<not> on_runqueue (tasks s t)" and cur: "current (sched_cpus s c) = idle (sched_cpus s c)"
  shows "sched_inv (scheduler_set_boot_current t s) qs"
proof -
  have run: "run_inv s" and rel: "links_rel s qs" using inv by (simp_all add: sched_inv_def)
  have cb: "c < SCHED_MAX_CPUS" by (simp add: c)
  obtain i where i: "current (sched_cpus s c) = Some i" "is_idle (tasks s i)"
    using run cb cur unfolding run_inv_def by (metis not_None_eq)
  let ?r = "upd_cpu c (current_update (\<lambda>_. Some t))
      (upd_task t (\<lambda>x. x\<lparr>assigned_cpu := int c, state := TASK_RUNNING\<rparr>) s)"
  have eq: "scheduler_set_boot_current t s = ?r"
    using run t(3) c by (simp add: scheduler_set_boot_current_def run_inv_def)
  have "links_rel (scheduler_set_boot_current t s) qs"
    unfolding eq by (intro links_rel_upd_cpu links_rel_upd_task [OF rel]) (use t(3) in simp_all)
  moreover have keep: "\<exists>k<SCHED_MAX_CPUS. k \<noteq> c \<and> current (sched_cpus s k) = Some x"
    if "state (tasks s x) = TASK_RUNNING" "\<not> is_idle (tasks s x)" for x
    using run that i unfolding run_inv_def by (metis option.inject)
  have "run_inv (scheduler_set_boot_current t s)"
    unfolding run_inv_def eq
  proof (intro conjI)
    show "\<forall>x. state (tasks ?r x) = TASK_RUNNING \<longrightarrow> \<not> is_idle (tasks ?r x) \<longrightarrow>
        (\<exists>k<SCHED_MAX_CPUS. current (sched_cpus ?r k) = Some x)"
      using keep cb by auto
    show "\<forall>k<SCHED_MAX_CPUS. \<forall>x. current (sched_cpus ?r k) = Some x \<longrightarrow> \<not> is_idle (tasks ?r x) \<longrightarrow>
        assigned_cpu (tasks ?r x) = int k"
      using run not_currentD [OF t(2)] by (auto simp: run_inv_def)
  qed (use run t cb in \<open>auto simp: run_inv_def\<close>)
  ultimately show ?thesis by (simp add: sched_inv_def)
qed

lemma scheduler_tick_inv:
  assumes "sched_inv s qs"
  shows "sched_inv (scheduler_tick s) qs"
proof -
  have "sched_inv (upd_task t (need_resched_update (\<lambda>_. True)) s) qs" if "sched_inv s qs"
    for t and s :: "'a sched_scheme"
    using that links_rel_upd_task [of s qs "need_resched_update (\<lambda>_. True)" t]
    by (auto simp: sched_inv_def run_inv_def)
  moreover have "sched_inv (s\<lparr>total_ticks := a, idle_ticks := b\<rparr>) qs" "sched_inv (s\<lparr>total_ticks := a\<rparr>) qs" for a b
    by (rule sched_inv_frame [OF _ _ _ assms]; simp)+
  ultimately show ?thesis using assms
    by (simp add: scheduler_tick_def Let_def split: option.split)
qed

lemma affinity_inv:
  assumes "sched_inv s qs" "k < SCHED_MAX_CPUS" "int k = assigned_cpu (tasks s t) \<or> \<not> on_runqueue (tasks s t) \<and> not_current t s"
  shows "sched_inv (upd_task t (assigned_cpu_update (\<lambda>_. int k)) s) qs"
proof -
  have "links_rel (upd_task t (assigned_cpu_update (\<lambda>_. int k)) s) qs"
    using assms by (intro links_rel_upd_task) (auto simp: sched_inv_def)
  moreover have "run_inv (upd_task t (assigned_cpu_update (\<lambda>_. int k)) s)"
    using assms not_currentD [of t s] unfolding sched_inv_def run_inv_def by auto
  ultimately show ?thesis by (simp add: sched_inv_def)
qed

lemma sched_step_inv:
  assumes "sched_step s s'" "sched_inv s qs"
  shows "\<exists>qs'. sched_inv s' qs'"
  using assms
proof cases
  case (wake t i)
  then show ?thesis using assms(2) make_runnable_inv [of s qs t i]
    by (cases "is_idle (tasks s t)") (auto simp: scheduler_task_make_runnable_def)
next
  case (block t)
  then show ?thesis using assms(2) set_blocked_inv [of s qs t]
    by (cases "is_idle (tasks s t)") (auto simp: scheduler_task_set_blocked_def)
next
  case (zombie t)
  then show ?thesis using assms(2) set_zombie_inv [of s qs t]
    by (cases "is_idle (tasks s t)") (auto simp: scheduler_task_set_zombie_def)
next
  case (free t)
  then show ?thesis using assms(2) set_unused_inv [of s qs t] not_currentD
    by (cases "is_idle (tasks s t)") (auto simp: scheduler_task_set_unused_def)
next
  case (boot t)
  then show ?thesis using assms(2) set_boot_current_inv [of s qs _ t] by auto
next
  case yield
  then show ?thesis using yield_spec [OF assms(2) refl refl] by auto
next
  case tick
  then show ?thesis using scheduler_tick_inv [OF assms(2)] by auto
next
  case (cpu i)
  then have "sched_inv s' qs"
    by (intro sched_inv_frame [OF _ _ _ assms(2)]) (simp_all add: scheduler_set_cpu_id_def)
  then show ?thesis by blast
next
  case (affinity k t)
  then show ?thesis using affinity_inv [OF assms(2)] by blast
qed

lemma sched_reach_inv: "sched_reach s \<Longrightarrow> \<exists>qs. sched_inv s qs"
  by (induction rule: sched_reach.induct) (blast intro: scheduler_init_inv, blast dest: sched_step_inv)

section \<open>The debug check of the run queues\<close>

datatype sched_err =
  ERR_current_null | ERR_head_null | ERR_tail_null | ERR_rq_empty_current_not_idle
| ERR_current_not_running | ERR_onrq_state tptr | ERR_lost tptr | ERR_many_queues tptr
| ERR_onrq_absent tptr | ERR_offrq_present tptr | ERR_owner tptr

partial_function (option) rq_walk :: "'a sched_scheme \<Rightarrow> tptr \<Rightarrow> tptr option \<Rightarrow> nat \<Rightarrow> nat option" where
  "rq_walk s t q n =
     (case q of
        None \<Rightarrow> Some n
      | Some x \<Rightarrow> rq_walk s t (rq_next (tasks s x)) (if x = t then n + 1 else n))"

fun rq_scan :: "'a sched_scheme \<Rightarrow> tptr \<Rightarrow> nat list \<Rightarrow> nat \<Rightarrow> int \<Rightarrow> (nat \<times> int) option" where
  "rq_scan s t [] n owner = Some (n, owner)"
| "rq_scan s t (c # cs) n owner =
     (case rq_walk s t (rq_head (sched_cpus s c)) n of
        None \<Rightarrow> None
      | Some n' \<Rightarrow> rq_scan s t cs n' (if n < n' then int c else owner))"

definition check_task :: "'a sched_scheme \<Rightarrow> tptr \<Rightarrow> sched_err list option" where
  "check_task s t =
     (let st = state (tasks s t); onrq = on_runqueue (tasks s t) in
      if st = TASK_UNUSED then Some []
      else
        let is_current_any = list_ex (\<lambda>c. current (sched_cpus s c) = Some t) [0..<SCHED_MAX_CPUS]
        in case rq_scan s t [0..<SCHED_MAX_CPUS] 0 (-1) of
             None \<Rightarrow> None
           | Some (rq_count, rq_owner) \<Rightarrow> Some
               ((if onrq \<and> st \<noteq> TASK_RUNNABLE then [ERR_onrq_state t] else []) @
                (if (st = TASK_RUNNABLE \<or> st = TASK_RUNNING) \<and> \<not> onrq \<and> \<not> is_current_any then [ERR_lost t] else []) @
                (if 1 < rq_count then [ERR_many_queues t] else []) @
                (if onrq \<and> rq_count = 0 then [ERR_onrq_absent t] else []) @
                (if \<not> onrq \<and> 0 < rq_count then [ERR_offrq_present t] else []) @
                (if rq_count = 1 \<and> assigned_cpu (tasks s t) \<noteq> rq_owner then [ERR_owner t] else [])))"

fun check_tasks :: "'a sched_scheme \<Rightarrow> nat list \<Rightarrow> sched_err list option" where
  "check_tasks s [] = Some []"
| "check_tasks s (i # is) =
     (case check_task s (TaskP i) of
        None \<Rightarrow> None
      | Some es \<Rightarrow> (case check_tasks s is of None \<Rightarrow> None | Some es' \<Rightarrow> Some (es @ es')))"

definition sched_invariant_check :: "'a sched_scheme \<Rightarrow> nat \<Rightarrow> sched_err list option" where
  "sched_invariant_check s c =
     (let k = sched_cpus s c;
          cur_not_idle = (case current k of Some t \<Rightarrow> \<not> is_idle (tasks s t) | None \<Rightarrow> False);
          cur_not_running = (case current k of Some t \<Rightarrow> state (tasks s t) \<noteq> TASK_RUNNING | None \<Rightarrow> False);
          es = (if current k = None then [ERR_current_null] else []) @
               (if rq_head k = None \<and> rq_tail k \<noteq> None then [ERR_head_null] else []) @
               (if rq_head k \<noteq> None \<and> rq_tail k = None then [ERR_tail_null] else []) @
               (if rq_head k = None \<and> cur_not_idle then [ERR_rq_empty_current_not_idle] else []) @
               (if cur_not_idle \<and> cur_not_running then [ERR_current_not_running] else [])
      in case check_tasks s [0..<PROC_MAX_TASKS] of None \<Rightarrow> None | Some es' \<Rightarrow> Some (es @ es'))"

lemma count_distinct1: "distinct xs \<Longrightarrow> x \<in> set xs \<Longrightarrow> count_list xs x = 1"
  by (induction xs) (auto simp: count_list_0_iff)

lemma rq_walk_dseg:
  assumes "dseg (\<lambda>x. rq_next (tasks s x)) pv p q xs"
  shows "rq_walk s t p n = Some (n + count_list xs t)"
  using assms
proof (induction xs arbitrary: p q n)
  case Nil
  then show ?case by (simp add: rq_walk.simps)
next
  case (Cons x xs)
  then have "p = Some x" "dseg (\<lambda>x. rq_next (tasks s x)) pv (rq_next (tasks s x)) (Some x) xs" by simp_all
  with Cons.IH [OF this(2)] show ?case by (simp add: rq_walk.simps [of s t "Some x"])
qed

lemma rq_scan_off:
  assumes "\<And>c. c \<in> set cs \<Longrightarrow> queue_ok s c (qs c) \<and> t \<notin> set (qs c)"
  shows "rq_scan s t cs n owner = Some (n, owner)"
  using assms
proof (induction cs)
  case (Cons c cs)
  have "queue_ok s c (qs c)" using Cons.prems by simp
  then have "rq_walk s t (rq_head (sched_cpus s c)) n = Some (n + count_list (qs c) t)"
    unfolding queue_ok_def by (blast intro: rq_walk_dseg)
  with Cons show ?case by (simp add: count_list_0_iff)
qed simp

lemma rq_scan_at:
  assumes ok: "\<And>c. c < SCHED_MAX_CPUS \<Longrightarrow> queue_ok s c (qs c)" and k: "k < SCHED_MAX_CPUS" "t \<in> set (qs k)"
    and off: "\<And>c. c < SCHED_MAX_CPUS \<Longrightarrow> c \<noteq> k \<Longrightarrow> t \<notin> set (qs c)"
  shows "rq_scan s t [0..<SCHED_MAX_CPUS] 0 o0 = Some (1, int k)"
proof -
  have split: "[0..<SCHED_MAX_CPUS] = [0..<k] @ k # [Suc k..<SCHED_MAX_CPUS]"
    using k(1) upt_add_eq_append [of 0 k "SCHED_MAX_CPUS - k"] by (simp add: upt_conv_Cons)
  have app: "rq_scan s t (as @ bs) n own = (case rq_scan s t as n own of None \<Rightarrow> None
      | Some (n', own') \<Rightarrow> rq_scan s t bs n' own')" for as bs n own
    by (induction as arbitrary: n own) (auto split: option.split)
  have one: "rq_walk s t (rq_head (sched_cpus s k)) 0 = Some 1"
    using rq_walk_dseg [of s _ "rq_head (sched_cpus s k)" None "qs k" t 0] ok [OF k(1)] k(2) count_distinct1 [of "qs k" t]
    by (auto simp: queue_ok_def)
  have "rq_scan s t [0..<k] 0 o0 = Some (0, o0)" by (rule rq_scan_off [of _ _ qs]) (use k(1) ok off in auto)
  moreover have "rq_scan s t [Suc k..<SCHED_MAX_CPUS] 1 (int k) = Some (1, int k)"
    by (rule rq_scan_off [of _ _ qs]) (use ok off in auto)
  ultimately show ?thesis using one by (simp add: split app)
qed

lemma rq_scan_links:
  assumes "links_rel s qs" "\<And>c. c \<in> set cs \<Longrightarrow> c < SCHED_MAX_CPUS" "\<And>c. c \<in> set cs \<Longrightarrow> t \<notin> set (qs c)"
  shows "rq_scan s t cs n owner = Some (n, owner)"
  using assms by (intro rq_scan_off [of _ _ qs]) (simp add: links_rel_queue)

lemma queued_at:
  assumes "links_rel s qs" "on_runqueue (tasks s t)" "c < SCHED_MAX_CPUS" "c \<noteq> nat (assigned_cpu (tasks s t))"
  shows "t \<notin> set (qs c)"
  using links_rel_disjoint [OF assms(1) links_rel_on(2) [OF assms(1,2)] assms(3,4)] links_rel_on(3) [OF assms(1,2)] by auto

lemma rq_scan_on:
  assumes rel: "links_rel s qs" and on: "on_runqueue (tasks s t)"
  shows "rq_scan s t [0..<SCHED_MAX_CPUS] 0 o0 = Some (1, assigned_cpu (tasks s t))"
  using rq_scan_at [of s qs "nat (assigned_cpu (tasks s t))" t o0] links_rel_on [OF rel on] links_rel_queue [OF rel] queued_at [OF rel on]
  by simp

text \<open>Setting the CPU of a queued task does not move it: the check then reports the task.\<close>

lemma affinity_reported:
  assumes "sched_inv s qs" "on_runqueue (tasks s t)" "k \<noteq> assigned_cpu (tasks s t)"
  shows "check_task (upd_task t (assigned_cpu_update (\<lambda>_. k)) s) t = Some [ERR_owner t]"
proof -
  let ?s = "upd_task t (assigned_cpu_update (\<lambda>_. k)) s"
  have rel: "links_rel s qs" and "run_inv s" using assms(1) by (simp_all add: sched_inv_def)
  then have st: "state (tasks s t) = TASK_RUNNABLE" using assms(2) by (simp add: run_inv_def)
  have "(\<lambda>x. rq_next (tasks ?s x)) = (\<lambda>x. rq_next (tasks s x))" "(\<lambda>x. rq_prev (tasks ?s x)) = (\<lambda>x. rq_prev (tasks s x))"
    by (auto simp: fun_eq_iff)
  then have q: "queue_ok ?s c (qs c)" if "c < SCHED_MAX_CPUS" for c
    using links_rel_queue [OF rel that] unfolding queue_ok_def by simp
  have "rq_scan ?s t [0..<SCHED_MAX_CPUS] 0 (- 1) = Some (1, assigned_cpu (tasks s t))"
    using rq_scan_at [of ?s qs "nat (assigned_cpu (tasks s t))" t "- 1"] q links_rel_on [OF rel assms(2)] queued_at [OF rel assms(2)]
    by simp
  then show ?thesis using st assms(2,3) by (simp add: check_task_def Let_def)
qed

lemma check_task_ok:
  assumes inv: "sched_inv s qs" and t: "\<not> is_idle (tasks s t)"
  shows "check_task s t = Some []"
proof -
  have rel: "links_rel s qs" and run: "run_inv s" using inv by (simp_all add: sched_inv_def)
  show ?thesis
  proof (cases "on_runqueue (tasks s t)")
    case True
    then have "state (tasks s t) = TASK_RUNNABLE" using run by (simp add: run_inv_def)
    with True rq_scan_on [OF rel True] show ?thesis by (simp add: check_task_def)
  next
    case False
    have "rq_scan s t [0..<SCHED_MAX_CPUS] 0 (-1) = Some (0, -1)"
      by (rule rq_scan_links [OF rel]) (use links_rel_off [OF rel False] in auto)
    moreover have "state (tasks s t) \<noteq> TASK_RUNNABLE" using run t False by (auto simp: run_inv_def)
    moreover have "list_ex (\<lambda>c. current (sched_cpus s c) = Some t) [0..<SCHED_MAX_CPUS]"
      if "state (tasks s t) = TASK_RUNNING"
      using run t that unfolding run_inv_def list_ex_iff by (metis atLeast_upt lessThan_iff)
    ultimately show ?thesis using False by (simp add: check_task_def Let_def)
  qed
qed

lemma check_tasks_ok:
  assumes "sched_inv s qs"
  shows "check_tasks s is = Some []"
proof (induction "is")
  case (Cons i "is")
  have "check_task s (TaskP i) = Some []"
    using assms by (intro check_task_ok) (auto simp: sched_inv_def run_inv_def)
  with Cons show ?case by simp
qed simp

text \<open>
  C6: The run queue discipline. In every state that is reached from boot by the scheduler's calls under the conditions of the step relation (a task
  is woken on the CPU it is assigned to, a slot is freed when no CPU runs it, and \<^verbatim>\<open>sched_setaffinity\<close> assigns another CPU only to a task that is
  neither queued nor running), the scheduler's
  own debug check walks the queues to their end and reports nothing about any task: a task is
  marked as queued exactly when it is on one queue, once, of the CPU it is assigned to, and
  then it is runnable; no runnable or running task is lost. On the CPU, current, head and tail
  are consistent; only the two reports that also fire in ordinary states can appear. The condition on \<^verbatim>\<open>sched_setaffinity\<close>, which the
  system call does not check, is needed: assigning another CPU to a queued task makes the check report that task.
\<close>
theorem sched_discipline:
  assumes "sched_reach s" "c < SCHED_MAX_CPUS"
  shows "(\<exists>es. sched_invariant_check s c = Some es \<and>
      set es \<subseteq> {ERR_rq_empty_current_not_idle, ERR_current_not_running}) \<and>
    (\<forall>t k. on_runqueue (tasks s t) \<and> k \<noteq> assigned_cpu (tasks s t) \<longrightarrow>
       check_task (upd_task t (assigned_cpu_update (\<lambda>_. k)) s) t = Some [ERR_owner t])"
proof -
  obtain qs where inv: "sched_inv s qs" using sched_reach_inv [OF assms(1)] ..
  have q: "queue_ok s c (qs c)" using inv assms(2) by (simp add: sched_inv_def links_rel_def)
  have "rq_head (sched_cpus s c) = None \<longleftrightarrow> rq_tail (sched_cpus s c) = None"
    using q dseg_head by (force simp: queue_ok_def)
  moreover have "current (sched_cpus s c) \<noteq> None"
    using inv assms(2) by (simp add: sched_inv_def run_inv_def)
  ultimately have "\<exists>es. sched_invariant_check s c = Some es \<and> set es \<subseteq> {ERR_rq_empty_current_not_idle, ERR_current_not_running}"
    by (auto simp: sched_invariant_check_def check_tasks_ok [OF inv] Let_def)
  then show ?thesis using affinity_reported [OF inv] by blast
qed

text \<open>A small concrete system: one task running, two queued.\<close>

definition demo_boot :: sched where
  "demo_boot = scheduler_init (\<lambda>_. 4096) 77 5 (boot_sched ())"

definition demo_run :: sched where
  "demo_run = scheduler_set_boot_current (TaskP 0) demo_boot"

definition demo_sched :: sched where
  "demo_sched = scheduler_task_make_runnable (TaskP 2) 0 (scheduler_task_make_runnable (TaskP 1) 0 demo_run)"

lemma demo_boot_facts:
  "tasks demo_boot (TaskP i) = zero_task"
  "current (sched_cpus demo_boot c) = (if c < SCHED_MAX_CPUS then Some (IdleP c) else None)"
  "idle (sched_cpus demo_boot c) = (if c < SCHED_MAX_CPUS then Some (IdleP c) else None)"
  "scheduler_cpu_id demo_boot = 0" "scheduler_ready demo_boot"
  using init_cpus_fold [of "\<lambda>_. 4096" 77 5 SCHED_MAX_CPUS "boot_sched ()"]
  by (auto simp: demo_boot_def scheduler_init_def boot_sched_def Let_def scheduler_cpu_id_def SCHED_MAX_CPUS_def)

lemma demo_run_facts:
  "tasks demo_run (TaskP i) = (if i = 0 then zero_task\<lparr>assigned_cpu := 0, state := TASK_RUNNING\<rparr> else zero_task)"
  "current (sched_cpus demo_run 0) = Some (TaskP 0)" "scheduler_cpu_id demo_run = 0"
  by (simp_all add: demo_run_def scheduler_set_boot_current_def demo_boot_facts)

lemma demo_boot_reach: "sched_reach demo_boot" "sched_inv demo_boot (\<lambda>_. [])"
  unfolding demo_boot_def by (rule sched_reach.start scheduler_init_inv)+

lemma demo_run_reach: "sched_reach demo_run" "sched_inv demo_run (\<lambda>_. [])"
proof -
  have nc: "not_current (TaskP 0) demo_boot"
    by (simp add: not_current_def list_all_iff demo_boot_facts)
  show "sched_reach demo_run"
    unfolding demo_run_def
    by (rule sched_reach.step [OF demo_boot_reach(1)], rule sched_step.boot) (use nc in \<open>simp_all add: demo_boot_facts\<close>)
  show "sched_inv demo_run (\<lambda>_. [])"
    unfolding demo_run_def
    by (rule set_boot_current_inv [OF demo_boot_reach(2) refl]) (use nc in \<open>simp_all add: demo_boot_facts\<close>)
qed

lemma cpu_by_id_0: "cpu_by_id 0 = 0"
  by (simp add: cpu_by_id_def)

lemma demo_sched_reach:
  "sched_reach demo_sched" "sched_inv demo_sched ((\<lambda>_. [])(0 := [TaskP 1, TaskP 2]))"
  "scheduler_cpu_id demo_sched = 0" "running_task demo_sched 0 = Some (TaskP 0)"
proof -
  let ?d = "scheduler_task_make_runnable (TaskP 1) 0 demo_run"
  let ?q = "(\<lambda>_. [])(0 := [TaskP 1])"
  have rel: "links_rel demo_run (\<lambda>_. [])" using demo_run_reach(2) by (simp add: sched_inv_def)
  note f = make_runnable_fields [OF rel, of "TaskP 1", where i = 0]
  have "sched_inv ?d (q_push (cpu_by_id 0) (TaskP 1) (q_remove (TaskP 1) (\<lambda>_. [])))"
    by (rule make_runnable_inv [OF demo_run_reach(2)]) (simp_all add: demo_run_facts cpu_by_id_0)
  then have inv1: "sched_inv ?d ?q" by (simp add: q_push_def q_remove_def cpu_by_id_def SCHED_MAX_CPUS_def)
  then have rel1: "links_rel ?d ?q" by (simp add: sched_inv_def)
  note g = make_runnable_fields [OF rel1, of "TaskP 2", where i = 0]
  have "sched_inv demo_sched (q_push (cpu_by_id 0) (TaskP 2) (q_remove (TaskP 2) ?q))"
    unfolding demo_sched_def
    by (rule make_runnable_inv [OF inv1]) (simp_all add: f demo_run_facts cpu_by_id_0 del: One_nat_def)
  moreover have "q_push (cpu_by_id 0) (TaskP 2) (q_remove (TaskP 2) ?q) = (\<lambda>_. [])(0 := [TaskP 1, TaskP 2])"
    by (rule ext) (simp add: q_push_def q_remove_def cpu_by_id_def SCHED_MAX_CPUS_def)
  ultimately show "sched_inv demo_sched ((\<lambda>_. [])(0 := [TaskP 1, TaskP 2]))" by simp
  have "sched_reach ?d"
    by (rule sched_reach.step [OF demo_run_reach(1)], rule sched_step.wake) (simp add: demo_run_facts cpu_by_id_0)
  then show "sched_reach demo_sched"
    unfolding demo_sched_def by (rule sched_reach.step, intro sched_step.wake) (simp add: f demo_run_facts cpu_by_id_0 del: One_nat_def)
  show "scheduler_cpu_id demo_sched = 0" "running_task demo_sched 0 = Some (TaskP 0)"
    by (simp_all add: demo_sched_def running_task_def f g demo_run_facts del: One_nat_def)
qed

theorem sched_discipline_witness:
  "(\<exists>es. sched_invariant_check demo_sched 0 = Some es \<and>
     set es \<subseteq> {ERR_rq_empty_current_not_idle, ERR_current_not_running}) \<and>
   check_task (upd_task (TaskP 1) (assigned_cpu_update (\<lambda>_. 3)) demo_sched) (TaskP 1) = Some [ERR_owner (TaskP 1)]"
proof -
  have rel: "links_rel demo_sched ((\<lambda>_. [])(0 := [TaskP 1, TaskP 2]))" using demo_sched_reach(2) by (simp add: sched_inv_def)
  then have "assigned_cpu (tasks demo_sched (TaskP 1)) = int 0 \<and> on_runqueue (tasks demo_sched (TaskP 1))"
    unfolding links_rel_def by (simp add: SCHED_MAX_CPUS_def) (metis zero_less_numeral)
  then show ?thesis using sched_discipline [OF demo_sched_reach(1), of 0] by (simp add: SCHED_MAX_CPUS_def)
qed

text \<open>
  C16: Making a task runnable refines the abstract operation: the task leaves the queue it was
  on and becomes the last of the queue of the requested CPU (CPU 0 when the id is out of
  range), every other queue is kept, and the task is runnable on that CPU.
\<close>
theorem make_runnable_refines:
  assumes "links_rel s qs" "\<not> is_idle (tasks s t)"
  shows "links_rel (scheduler_task_make_runnable t i s) (q_push (cpu_by_id i) t (q_remove t qs)) \<and>
    state (tasks (scheduler_task_make_runnable t i s) t) = TASK_RUNNABLE \<and>
    assigned_cpu (tasks (scheduler_task_make_runnable t i s) t) = int (cpu_by_id i)"
  using make_runnable_rel [OF assms] make_runnable_fields(1,2) [OF assms] by simp

theorem make_runnable_refines_witness:
  "links_rel (scheduler_task_make_runnable (TaskP 1) 3 demo_sched)
     (q_push (cpu_by_id 3) (TaskP 1) (q_remove (TaskP 1) ((\<lambda>_. [])(0 := [TaskP 1, TaskP 2]))))"
proof -
  have "links_rel demo_sched ((\<lambda>_. [])(0 := [TaskP 1, TaskP 2]))" "\<not> is_idle (tasks demo_sched (TaskP 1))"
    using demo_sched_reach(2) unfolding sched_inv_def run_inv_def by blast+
  from make_runnable_refines [OF this, of 3] show ?thesis by simp
qed

text \<open>
  Blocking a task, making it a zombie and freeing its slot refine removal from the queues:
  the task is on no queue afterwards, all other tasks keep their place, and the task has the
  new state.
\<close>
theorem leave_runqueue_refines:
  assumes "links_rel s qs" "\<not> is_idle (tasks s t)"
  shows "links_rel (scheduler_task_set_blocked t s) (q_remove t qs) \<and>
    links_rel (scheduler_task_set_zombie t s) (q_remove t qs) \<and>
    links_rel (scheduler_task_set_unused t s) (q_remove t qs) \<and>
    state (tasks (scheduler_task_set_blocked t s) t) = TASK_BLOCKED \<and>
    state (tasks (scheduler_task_set_zombie t s) t) = TASK_ZOMBIE \<and>
    state (tasks (scheduler_task_set_unused t s) t) = TASK_UNUSED"
  unfolding set_state_take_off [OF assms(2)]
  by (intro conjI take_off_rel [OF assms(1)]) (simp_all add: take_off_def)

theorem leave_runqueue_refines_witness:
  "links_rel (scheduler_task_set_blocked (TaskP 1) demo_sched)
     (q_remove (TaskP 1) ((\<lambda>_. [])(0 := [TaskP 1, TaskP 2])))"
proof -
  have "links_rel demo_sched ((\<lambda>_. [])(0 := [TaskP 1, TaskP 2]))" "\<not> is_idle (tasks demo_sched (TaskP 1))"
    using demo_sched_reach(2) unfolding sched_inv_def run_inv_def by blast+
  from leave_runqueue_refines [OF this] show ?thesis by simp
qed

text \<open>
  C17: Yielding is round robin and always returns. The running task goes to the end of its CPU's
  queue, the first task of the queue (the idle task when the queue is empty) becomes current
  and running, the invariant is kept with the shortened queue, and when the CPU changes task,
  the page-table root, the kernel stack of the TSS and the FS base are those of the new task.
\<close>
theorem yield_round_robin:
  assumes "sched_inv s qs" "c = scheduler_cpu_id s" "q = q_yield (qs c) (running_task s c)"
  shows "\<exists>s'. scheduler_yield s = Some s' \<and> sched_inv s' (qs(c := tl q)) \<and>
    current (sched_cpus s' c) = (case q of [] \<Rightarrow> idle (sched_cpus s c) | t # _ \<Rightarrow> Some t) \<and>
    running_task s' c = (case q of [] \<Rightarrow> None | t # _ \<Rightarrow> Some t) \<and>
    (current (sched_cpus s' c) = current (sched_cpus s c) \<or>
       reg_cr3 s' = cr3 (tasks s' (the (current (sched_cpus s' c)))) \<and>
       tss_rsp0 s' = kernel_stack_top (tasks s' (the (current (sched_cpus s' c)))) \<and>
       reg_fs_base s' = fs_base (tasks s' (the (current (sched_cpus s' c)))))"
  using yield_spec [OF assms] by blast

theorem yield_round_robin_witness:
  "\<exists>s'. scheduler_yield demo_sched = Some s' \<and> current (sched_cpus s' 0) = Some (TaskP 1) \<and>
    sched_inv s' ((\<lambda>_. [])(0 := [TaskP 2, TaskP 0]))"
proof -
  have "[TaskP 1, TaskP 2, TaskP 0] = q_yield (((\<lambda>_. [])(0 := [TaskP 1, TaskP 2])) 0) (running_task demo_sched 0)"
    by (simp add: q_yield_def demo_sched_reach)
  from yield_round_robin [OF demo_sched_reach(2) demo_sched_reach(3) [symmetric] this] show ?thesis
    unfolding fun_upd_upd list.sel list.case by blast
qed

fun yields :: "nat \<Rightarrow> 'a sched_scheme \<Rightarrow> 'a sched_scheme option" where
  "yields 0 s = Some s"
| "yields (Suc n) s = (case scheduler_yield s of None \<Rightarrow> None | Some s' \<Rightarrow> yields n s')"

text \<open>
  C18: No queued task starves: the task with \<open>n\<close> tasks before it on the local CPU's queue is
  current after \<open>n + 1\<close> yields, whatever the state it starts from.
\<close>
theorem yield_serves_queue:
  assumes "sched_inv s qs" "qs (scheduler_cpu_id s) = xs @ t # ys"
  shows "\<exists>s'. yields (Suc (length xs)) s = Some s' \<and> current (sched_cpus s' (scheduler_cpu_id s)) = Some t"
  using assms
proof (induction xs arbitrary: s qs ys)
  case Nil
  from yield_spec [OF Nil(1) refl refl] Nil(2) show ?case by (auto simp: q_yield_def)
next
  case (Cons x xs)
  let ?c = "scheduler_cpu_id s"
  define q where "q = q_yield (qs ?c) (running_task s ?c)"
  from yield_spec [OF Cons.prems(1) refl q_def] obtain s' where
    s': "scheduler_yield s = Some s'" "sched_inv s' (qs(?c := tl q))" "scheduler_cpu_id s' = ?c" by blast
  have "(qs(?c := tl q)) (scheduler_cpu_id s') = xs @ t # q_yield ys (running_task s ?c)"
    using Cons.prems(2) s'(3) by (simp add: q_def q_yield_def)
  from Cons.IH [OF s'(2) this] show ?case using s'(1,3) by simp
qed

theorem yield_serves_queue_witness:
  "\<exists>s'. yields 2 demo_sched = Some s' \<and> current (sched_cpus s' 0) = Some (TaskP 2)"
proof -
  have "((\<lambda>_. [])(0 := [TaskP 1, TaskP 2])) (scheduler_cpu_id demo_sched) = [TaskP 1] @ TaskP 2 # []"
    by (simp add: demo_sched_reach)
  from yield_serves_queue [OF demo_sched_reach(2) this] show ?thesis
    by (simp add: demo_sched_reach numeral_2_eq_2)
qed

end
