(* ===== verification/Process.thy ===== *)
theory Process
  imports Sched CString
begin

text \<open>
  Processes, \<^verbatim>\<open>src/sys/process.c\<close> with \<^verbatim>\<open>include/sys/process.h\<close>.

  State: the scheduler's record extended by the pid counter, the page tables of every slot, the
  user memory regions of every slot (one byte store per region and slot), and the framebuffer
  windows the page tables map. Addresses the linker chooses (kernel image, table and stack
  arrays, entry points) are the record \<open>layout\<close>, a parameter. Two operations of other parts
  are arguments: \<open>release_fds\<close> for \<^verbatim>\<open>syscall_release_process_fds\<close> and \<open>elf_exec\<close> for
  \<^verbatim>\<open>elf_loader_exec\<close>. \<^verbatim>\<open>printf\<close> output is left out.

  The waiting loops give up the CPU in the middle; one turn of the loop is one function
  (\<open>process_wait_any\<close>, \<open>process_wait_pid\<close>), whose result is either the value returned or
  the state in which the caller sleeps and from which it takes the next turn.
\<close>

section \<open>Constants and state\<close>

definition PAGE_PRESENT :: u64 where [model_simps]: "PAGE_PRESENT = 0x001"
definition PAGE_WRITE :: u64 where [model_simps]: "PAGE_WRITE = 0x002"
definition PAGE_USER :: u64 where [model_simps]: "PAGE_USER = 0x004"
definition PAGE_PS :: u64 where [model_simps]: "PAGE_PS = 0x080"
definition USER_TEXT_BASE :: u64 where [model_simps]: "USER_TEXT_BASE = 0x20000000"
definition USER_STACK_BASE :: u64 where [model_simps]: "USER_STACK_BASE = 0x20200000"
definition USER_HEAP_BASE :: u64 where [model_simps]: "USER_HEAP_BASE = 0x20400000"
definition USER_HEAP_DEFAULT_DELTA :: u64 where [model_simps]: "USER_HEAP_DEFAULT_DELTA = 0x2000000"
definition USER_HEAP_SIZE :: u64 where [model_simps]: "USER_HEAP_SIZE = 0x2000000"
definition USER_HEAP_EXT_BASE :: u64 where [model_simps]: "USER_HEAP_EXT_BASE = 0x22400000"
definition USER_HEAP_EXT_SIZE :: u64 where [model_simps]: "USER_HEAP_EXT_SIZE = 0x800000"
definition USER_MMAP_BASE :: u64 where [model_simps]: "USER_MMAP_BASE = 0x30000000"
definition USER_BIGPIE_BASE :: u64 where [model_simps]: "USER_BIGPIE_BASE = 0x30000000"
definition USER_BIGPIE_SIZE :: u64 where [model_simps]: "USER_BIGPIE_SIZE = 0x1000000"
definition USER_FBDEV_BASE :: u64 where [model_simps]: "USER_FBDEV_BASE = 0x38000000"
definition USER_FBDEV_MAX_PAGES :: nat where [model_simps]: "USER_FBDEV_MAX_PAGES = 32"
definition USER_REGION_SIZE :: u64 where [model_simps]: "USER_REGION_SIZE = 0x200000"
definition USER_STACK_TOP :: u64 where [model_simps]: "USER_STACK_TOP = 0x20400000"
definition USER_LOW_BASE :: u64 where [model_simps]: "USER_LOW_BASE = 0x400000"
definition USER_LOW_SIZE :: u64 where [model_simps]: "USER_LOW_SIZE = 0x400000"
definition USER_AS_MAX_TASKS :: nat where [model_simps]: "USER_AS_MAX_TASKS = 16"
definition USER_LOW_PDE_CNT :: nat where [model_simps]: "USER_LOW_PDE_CNT = 2"
definition USER_HEAP_PDE_CNT :: nat where [model_simps]: "USER_HEAP_PDE_CNT = 16"
definition USER_HEAP_EXT_PDE_CNT :: nat where [model_simps]: "USER_HEAP_EXT_PDE_CNT = 4"
definition USER_BIGPIE_PDE_CNT :: nat where [model_simps]: "USER_BIGPIE_PDE_CNT = 8"
definition LINUX_SIGINT :: int where [model_simps]: "LINUX_SIGINT = 2"
definition LINUX_SIGKILL :: int where [model_simps]: "LINUX_SIGKILL = 9"
definition LINUX_SIGTERM :: int where [model_simps]: "LINUX_SIGTERM = 15"
definition LINUX_SIG_DFL :: u64 where [model_simps]: "LINUX_SIG_DFL = 0"
definition LINUX_SIG_IGN :: u64 where [model_simps]: "LINUX_SIG_IGN = 1"

text \<open>Addresses fixed by the linker.\<close>

record layout =
  kernel_start :: u64
  kernel_end :: u64
  pml4_addr :: "nat \<Rightarrow> u64"
  pdpt_addr :: "nat \<Rightarrow> u64"
  pd_addr :: "nat \<Rightarrow> nat \<Rightarrow> u64"
  kstack_addr :: "nat \<Rightarrow> u64"
  low_addr :: "nat \<Rightarrow> u64"
  text_addr :: "nat \<Rightarrow> u64"
  stack_addr :: "nat \<Rightarrow> u64"
  heap_addr :: "nat \<Rightarrow> u64"
  heap_ext_addr :: "nat \<Rightarrow> u64"
  bigpie_addr :: "nat \<Rightarrow> u64"
  fork_tf_addr :: "nat \<Rightarrow> u64"
  argv_addr :: "nat \<Rightarrow> u64"
  envp_addr :: "nat \<Rightarrow> u64"
  ret_from_fork_addr :: u64
  enter_user_addr :: u64
  idle_stack_addr :: "nat \<Rightarrow> u64"
  idle_loop_addr :: u64
  boot_cr3_val :: u64

type_synonym region = "nat \<Rightarrow> u8"

record proc = sched +
  next_pid :: int
  g_pml4 :: "nat \<Rightarrow> nat \<Rightarrow> u64"
  g_pdpt :: "nat \<Rightarrow> nat \<Rightarrow> u64"
  g_pd :: "nat \<Rightarrow> nat \<Rightarrow> nat \<Rightarrow> u64"
  user_low :: "nat \<Rightarrow> region"
  user_text :: "nat \<Rightarrow> region"
  user_stack :: "nat \<Rightarrow> region"
  user_heap :: "nat \<Rightarrow> region"
  user_heap_ext :: "nat \<Rightarrow> region"
  user_bigpie :: "nat \<Rightarrow> region"
  fb_window :: "(u64 \<times> nat) option"
  fb_remap :: "(u64 \<times> nat \<times> u64) option"

definition zeroed :: "nat \<Rightarrow> region \<Rightarrow> region" where
  "zeroed n r = (\<lambda>i. if i < n then 0 else r i)"

definition zeroed_from :: "nat \<Rightarrow> nat \<Rightarrow> region \<Rightarrow> region" where
  "zeroed_from k n r = (\<lambda>i. if k \<le> i \<and> i < k + n then 0 else r i)"

definition copied :: "nat \<Rightarrow> region \<Rightarrow> region \<Rightarrow> region" where
  "copied n src dst = (\<lambda>i. if i < n then src i else dst i)"

section \<open>The process tree\<close>

definition task_child_unlink :: "tptr \<Rightarrow> 'a sched_scheme \<Rightarrow> 'a sched_scheme" where
  "task_child_unlink child s =
     (let par = parent (tasks s child); pv = sibling_prev (tasks s child); nx = sibling_next (tasks s child);
          s1 = (case pv of
                  Some p \<Rightarrow> upd_task p (sibling_next_update (\<lambda>_. nx)) s
                | None \<Rightarrow> (case par of
                             Some q \<Rightarrow> upd_task q (first_child_update (\<lambda>_. nx)) s
                           | None \<Rightarrow> s));
          s2 = (case nx of Some n \<Rightarrow> upd_task n (sibling_prev_update (\<lambda>_. pv)) s1 | None \<Rightarrow> s1)
      in upd_task child (\<lambda>x. x\<lparr>sibling_prev := None, sibling_next := None, parent := None\<rparr>) s2)"

definition task_child_link :: "tptr option \<Rightarrow> tptr \<Rightarrow> 'a sched_scheme \<Rightarrow> 'a sched_scheme" where
  "task_child_link par child s =
     (let s1 = task_child_unlink child s;
          s2 = upd_task child (parent_update (\<lambda>_. par)) s1
      in case par of
           Some q \<Rightarrow>
             let h = first_child (tasks s2 q);
                 s3 = upd_task child (sibling_next_update (\<lambda>_. h)) s2;
                 s4 = (case h of Some f \<Rightarrow> upd_task f (sibling_prev_update (\<lambda>_. Some child)) s3 | None \<Rightarrow> s3);
                 s5 = upd_task q (first_child_update (\<lambda>_. Some child)) s4
             in upd_task child (ppid_update (\<lambda>_. pid (tasks s5 q))) s5
         | None \<Rightarrow> upd_task child (ppid_update (\<lambda>_. 0)) s2)"

definition wake_cpu :: "'a sched_scheme \<Rightarrow> tptr \<Rightarrow> nat" where
  "wake_cpu s t = task_cpu s t"

definition process_notify_parent_sigchld :: "tptr option \<Rightarrow> 'a sched_scheme \<Rightarrow> 'a sched_scheme" where
  "process_notify_parent_sigchld par s =
     (case par of
        None \<Rightarrow> s
      | Some p \<Rightarrow>
          if state (tasks s p) = TASK_UNUSED \<or> state (tasks s p) = TASK_ZOMBIE then s
          else
            let s1 = (if sigchld_handler (tasks s p) \<noteq> LINUX_SIG_IGN
                      then upd_task p (sigchld_pending_update (\<lambda>_. True)) s else s)
            in if state (tasks s1 p) = TASK_BLOCKED
               then scheduler_task_make_runnable p (wake_cpu s1 p) s1 else s1)"

definition task_find_by_pid :: "int \<Rightarrow> 'a sched_scheme \<Rightarrow> tptr option" where
  "task_find_by_pid p s =
     map_option TaskP
       (first_idx (\<lambda>i. state (tasks s (TaskP i)) \<noteq> TASK_UNUSED \<and> pid (tasks s (TaskP i)) = p) 0 PROC_MAX_TASKS)"

definition task_alloc :: "'a sched_scheme \<Rightarrow> nat option" where
  "task_alloc s = first_idx (\<lambda>i. state (tasks s (TaskP i)) = TASK_UNUSED) 0 USER_AS_MAX_TASKS"

section \<open>Address spaces\<close>

text \<open>An idle task is no element of \<^verbatim>\<open>g_tasks\<close>; its index lies outside the array.\<close>

definition task_index :: "tptr \<Rightarrow> nat" where
  "task_index t = (case t of TaskP i \<Rightarrow> i | IdleP c \<Rightarrow> PROC_MAX_TASKS + c)"

definition heap_span :: "task \<Rightarrow> u64 \<times> u64" where
  "heap_span t =
     (if USER_HEAP_BASE < user_heap_limit t
      then let bytes = user_heap_limit t - USER_HEAP_BASE
           in if USER_HEAP_SIZE < bytes
              then let ext = bytes - USER_HEAP_SIZE
                   in (USER_HEAP_SIZE, if USER_HEAP_EXT_SIZE < ext then USER_HEAP_EXT_SIZE else ext)
              else (bytes, 0)
      else (USER_HEAP_DEFAULT_DELTA, 0))"

definition task_clear_user_regions :: "tptr \<Rightarrow> 'a proc_scheme \<Rightarrow> 'a proc_scheme" where
  "task_clear_user_regions t s =
     (let idx = task_index t; (heap_bytes, heap_ext_bytes) = heap_span (tasks s t)
      in if USER_AS_MAX_TASKS \<le> idx then s
         else s\<lparr>user_low := (user_low s)(idx := zeroed (unat USER_LOW_SIZE) (user_low s idx)),
                user_text := (user_text s)(idx := zeroed (unat USER_REGION_SIZE) (user_text s idx)),
                user_stack := (user_stack s)(idx := zeroed (unat USER_REGION_SIZE) (user_stack s idx)),
                user_heap := (user_heap s)(idx := zeroed (unat heap_bytes) (user_heap s idx)),
                user_heap_ext := (user_heap_ext s)(idx := zeroed (unat heap_ext_bytes) (user_heap_ext s idx))\<rparr>)"

definition task_clear_user_vmas :: "tptr \<Rightarrow> 'a sched_scheme \<Rightarrow> 'a sched_scheme" where
  "task_clear_user_vmas t =
     upd_task t (\<lambda>x. x\<lparr>user_vma_count := 0, user_vmas := replicate PROCESS_USER_VMA_MAX zero_vma\<rparr>)"

definition task_name_from_path :: "cstr \<Rightarrow> nat \<Rightarrow> cstr" where
  "task_name_from_path path out_sz = take (out_sz - 1) (rev (takeWhile (\<lambda>c. c \<noteq> 47) (rev path)))"

definition pd_index :: "u64 \<Rightarrow> nat" where
  "pd_index va = unat ((drop_bit 21 va) AND 0x1FF)"

definition overlay :: "nat \<Rightarrow> nat \<Rightarrow> (nat \<Rightarrow> u64) \<Rightarrow> (nat \<Rightarrow> u64) \<Rightarrow> nat \<Rightarrow> u64" where
  "overlay start cnt entry pd = (\<lambda>i. if start \<le> i \<and> i < start + cnt \<and> i < 512 then entry (i - start) else pd i)"

definition identity_pde :: "layout \<Rightarrow> bool \<Rightarrow> nat \<Rightarrow> nat \<Rightarrow> u64" where
  "identity_pde L user_mode pdi i =
     (let base = push_bit 30 (word_of_nat pdi) + push_bit 21 (word_of_nat i);
          flags = PAGE_PRESENT OR PAGE_WRITE OR PAGE_PS;
          pend = base + 0x200000
      in base OR (if user_mode \<and> (pend \<le> kernel_start L \<or> kernel_end L \<le> base) then flags OR PAGE_USER else flags))"

definition user_pd0 :: "layout \<Rightarrow> (u64 \<times> nat) option \<Rightarrow> nat \<Rightarrow> (nat \<Rightarrow> u64) \<Rightarrow> nat \<Rightarrow> u64" where
  "user_pd0 L fb idx pd0 =
     (let uflags = PAGE_PRESENT OR PAGE_WRITE OR PAGE_USER OR PAGE_PS;
          page = (\<lambda>a p. (a + push_bit 21 (word_of_nat p)) OR uflags);
          pd1 = overlay (pd_index USER_LOW_BASE) USER_LOW_PDE_CNT (page (low_addr L idx)) pd0;
          pd2 = overlay (pd_index USER_TEXT_BASE) 1 (page (text_addr L idx)) pd1;
          pd3 = overlay (pd_index USER_STACK_BASE) 1 (page (stack_addr L idx)) pd2;
          pd4 = overlay (pd_index USER_HEAP_BASE) USER_HEAP_PDE_CNT (page (heap_addr L idx)) pd3;
          pd5 = overlay (pd_index USER_HEAP_EXT_BASE) USER_HEAP_EXT_PDE_CNT (page (heap_ext_addr L idx)) pd4;
          pd6 = overlay (pd_index USER_BIGPIE_BASE) USER_BIGPIE_PDE_CNT (page (bigpie_addr L idx)) pd5
      in case fb of
           None \<Rightarrow> pd6
         | Some (fb_phys, fb_pages) \<Rightarrow>
             overlay (pd_index USER_FBDEV_BASE) (min fb_pages USER_FBDEV_MAX_PAGES) (page fb_phys) pd6)"

definition task_build_address_space :: "layout \<Rightarrow> tptr \<Rightarrow> bool \<Rightarrow> 'a proc_scheme \<Rightarrow> 'a proc_scheme" where
  "task_build_address_space L t user_mode s =
     (let idx = task_index t;
          upper_flags = PAGE_PRESENT OR PAGE_WRITE OR (if user_mode then PAGE_USER else 0);
          pml4 = (\<lambda>i. if i = 0 then pdpt_addr L idx OR upper_flags else 0);
          pdpt = (\<lambda>i. if i < 4 then pd_addr L idx i OR upper_flags else 0);
          pd = (\<lambda>pdi i. if pdi < 4 \<and> i < 512 then identity_pde L user_mode pdi i else 0);
          pd' = (if user_mode \<and> idx < USER_AS_MAX_TASKS then pd(0 := user_pd0 L (fb_window s) idx (pd 0)) else pd);
          pd'' = (case fb_remap s of
                    None \<Rightarrow> pd'
                  | Some (fb_phys, fb_pages, fb_virt) \<Rightarrow>
                      pd'(3 := overlay (unat (ucast (drop_bit 21 (fb_virt - 0xC0000000)) :: u32)) fb_pages
                            (\<lambda>i. (fb_phys + push_bit 21 (word_of_nat i)) OR (PAGE_PRESENT OR PAGE_WRITE OR PAGE_PS)) (pd' 3)))
      in upd_task t (cr3_update (\<lambda>_. pml4_addr L idx))
           (s\<lparr>g_pml4 := (g_pml4 s)(idx := pml4), g_pdpt := (g_pdpt s)(idx := pdpt), g_pd := (g_pd s)(idx := pd'')\<rparr>))"

section \<open>Creation\<close>

definition process_current_task :: "'a sched_scheme \<Rightarrow> tptr" where
  "process_current_task s = scheduler_current_task s"

definition default_ids :: "task \<Rightarrow> task" where
  "default_ids t = t\<lparr>uid := 0, gid := 0, euid := 0, egid := 0, umask := 0x12, pgid := pid t, sid := pid t,
     ctty_kind := PROCESS_CTTY_CONSOLE, ctty_id := -1, sigaltstack_flags := 2, cwd := lit ''/'', assigned_cpu := -1\<rparr>"

definition fresh_heap :: "task \<Rightarrow> task" where
  "fresh_heap t = t\<lparr>user_stack_top := USER_STACK_TOP, user_heap_base := USER_HEAP_BASE, user_brk := USER_HEAP_BASE,
     user_heap_limit := USER_HEAP_BASE + USER_HEAP_DEFAULT_DELTA, user_mmap_next := USER_MMAP_BASE\<rparr>"

definition process_init :: "layout \<Rightarrow> 'a proc_scheme \<Rightarrow> 'a proc_scheme" where
  "process_init L s =
     (let s1 = s\<lparr>tasks := (\<lambda>p. case p of TaskP i \<Rightarrow> if i < PROC_MAX_TASKS then zero_task else tasks s p | IdleP _ \<Rightarrow> tasks s p),
                 next_pid := 1\<rparr>;
          s2 = scheduler_set_cpu_id 0 (scheduler_init (idle_stack_addr L) (idle_loop_addr L) (boot_cr3_val L) s1)
      in case task_alloc s2 of
           None \<Rightarrow> s2
         | Some i \<Rightarrow>
             let s3 = upd_task (TaskP i)
                        (\<lambda>t. default_ids (fresh_heap (t\<lparr>pid := next_pid s2, ppid := 0, state := TASK_UNUSED, exit_code := 0,
                               task_name := lit ''init'', kernel_stack_top := kstack_addr L 0\<rparr>)))
                        (s2\<lparr>next_pid := next_pid s2 + 1\<rparr>);
                 s4 = upd_task (TaskP i) (\<lambda>t. t\<lparr>fs_base := 0, cr3 := boot_cr3_val L\<rparr>) (task_clear_user_vmas (TaskP i) s3)
             in scheduler_set_boot_current (TaskP i) s4)"

definition inherit_fork :: "task \<Rightarrow> task \<Rightarrow> task" where
  "inherit_fork p c = c\<lparr>user_stack_top := user_stack_top p, user_heap_base := user_heap_base p, user_brk := user_brk p,
     user_heap_limit := user_heap_limit p, user_mmap_next := user_mmap_next p, user_vma_count := user_vma_count p,
     user_vmas := user_vmas p, fs_base := fs_base p, uid := uid p, gid := gid p, euid := euid p, egid := egid p,
     umask := umask p, pgid := pgid p, sid := sid p, ctty_kind := ctty_kind p, ctty_id := ctty_id p,
     cwd := (if cwd p \<noteq> [] then cwd p else lit ''/''),
     sigint_handler := sigint_handler p, sigalrm_handler := sigalrm_handler p, sigterm_handler := sigterm_handler p,
     sigchld_handler := sigchld_handler p, sigint_pending := False, sigalrm_pending := False, sigterm_pending := False,
     sigaltstack_sp := sigaltstack_sp p, sigaltstack_size := sigaltstack_size p, sigaltstack_flags := sigaltstack_flags p\<rparr>"

definition fork_copy_memory :: "nat \<Rightarrow> nat \<Rightarrow> u64 \<times> u64 \<Rightarrow> 'a proc_scheme \<Rightarrow> 'a proc_scheme" where
  "fork_copy_memory ci pi span s =
     (let (heap_copy, heap_ext_copy) = span;
          heap1 = copied (unat heap_copy) (user_heap s pi) (user_heap s ci);
          heap2 = (if heap_copy < USER_HEAP_SIZE
                   then zeroed_from (unat heap_copy) (unat (USER_HEAP_SIZE - heap_copy)) heap1 else heap1);
          ext1 = copied (unat heap_ext_copy) (user_heap_ext s pi) (user_heap_ext s ci);
          ext2 = (if heap_ext_copy < USER_HEAP_EXT_SIZE
                  then zeroed_from (unat heap_ext_copy) (unat (USER_HEAP_EXT_SIZE - heap_ext_copy)) ext1 else ext1)
      in s\<lparr>user_low := (user_low s)(ci := copied (unat USER_LOW_SIZE) (user_low s pi) (user_low s ci)),
           user_text := (user_text s)(ci := copied (unat USER_REGION_SIZE) (user_text s pi) (user_text s ci)),
           user_stack := (user_stack s)(ci := copied (unat USER_REGION_SIZE) (user_stack s pi) (user_stack s ci)),
           user_heap := (user_heap s)(ci := heap2),
           user_heap_ext := (user_heap_ext s)(ci := ext2)\<rparr>)"

definition fork_frame :: "edge_trap_frame \<Rightarrow> edge_trap_frame" where
  "fork_frame tf = tf\<lparr>tf_rax := 0, tf_rflags := tf_rflags tf AND NOT (push_bit 8 1)\<rparr>"

definition process_fork :: "layout \<Rightarrow> edge_trap_frame \<Rightarrow> 'a proc_scheme \<Rightarrow> int \<times> 'a proc_scheme" where
  "process_fork L parent_tf s =
     (let par = process_current_task s; pi = task_index par in
      case task_alloc s of
        None \<Rightarrow> (-1, s)
      | Some ci \<Rightarrow>
          if USER_AS_MAX_TASKS \<le> ci \<or> USER_AS_MAX_TASKS \<le> pi then (-1, s)
          else
            let child = TaskP ci; np = next_pid s;
                s1 = upd_task child (\<lambda>c. c\<lparr>pid := np, ppid := pid (tasks s par), state := TASK_UNUSED, exit_code := 0,
                       task_name := task_name (tasks s par)\<rparr>) (s\<lparr>next_pid := np + 1\<rparr>);
                s2 = task_clear_user_regions child (task_build_address_space L child True s1);
                s3 = upd_task child (\<lambda>c. inherit_fork (tasks s2 par) (c\<lparr>kernel_stack_top := kstack_addr L ci\<rparr>)) s2;
                s4 = task_child_link (Some par) child s3;
                s5 = fork_copy_memory ci pi (heap_span (tasks s4 par)) s4;
                s6 = upd_task child (\<lambda>c. c\<lparr>fork_tf := fork_frame parent_tf,
                       task_context := zero_context\<lparr>r12 := fork_tf_addr L ci, rip := ret_from_fork_addr L,
                         rsp := kernel_stack_top c, rbp := kernel_stack_top c\<rparr>\<rparr>) s5
            in (np, scheduler_task_set_blocked child s6))"

section \<open>Exit, adoption and waiting\<close>

partial_function (option) adopt_loop ::
  "tptr option \<Rightarrow> tptr option \<Rightarrow> nat \<Rightarrow> 'a sched_scheme \<Rightarrow> (nat \<times> 'a sched_scheme) option"
where
  "adopt_loop to c moved s =
     (case c of
        None \<Rightarrow> Some (moved, s)
      | Some x \<Rightarrow> adopt_loop to (sibling_next (tasks s x)) (moved + 1) (task_child_link to x s))"

fun adopt_scan :: "int \<Rightarrow> tptr option \<Rightarrow> nat list \<Rightarrow> nat \<Rightarrow> 'a sched_scheme \<Rightarrow> nat \<times> 'a sched_scheme" where
  "adopt_scan from_ppid to [] moved s = (moved, s)"
| "adopt_scan from_ppid to (i # is) moved s =
     (if state (tasks s (TaskP i)) = TASK_UNUSED \<or> ppid (tasks s (TaskP i)) \<noteq> from_ppid
      then adopt_scan from_ppid to is moved s
      else adopt_scan from_ppid to is (moved + 1) (task_child_link to (TaskP i) s))"

definition process_adopt_orphans :: "int \<Rightarrow> int \<Rightarrow> 'a sched_scheme \<Rightarrow> (nat \<times> 'a sched_scheme) option" where
  "process_adopt_orphans from_ppid to_ppid s =
     (let to = task_find_by_pid to_ppid s
      in case task_find_by_pid from_ppid s of
           Some f \<Rightarrow> adopt_loop to (first_child (tasks s f)) 0 s
         | None \<Rightarrow> Some (adopt_scan from_ppid to [0..<PROC_MAX_TASKS] 0 s))"

text \<open>
  The common part of \<^verbatim>\<open>process_exit_current\<close> and \<^verbatim>\<open>process_kill_pid\<close>; not returning
  from the adoption loop is \<open>None\<close>.
\<close>

definition terminate :: "tptr \<Rightarrow> int \<Rightarrow> 'a sched_scheme \<Rightarrow> 'a sched_scheme option" where
  "terminate t code s =
     (let s1 = upd_task t (exit_code_update (\<lambda>_. code)) s
      in case process_adopt_orphans (pid (tasks s1 t)) 1 s1 of
           None \<Rightarrow> None
         | Some (_, s2) \<Rightarrow>
             let par = parent (tasks s2 t); init = task_find_by_pid 1 s2;
                 (par', s3) =
                   (case (par, init) of
                      (Some p, Some i) \<Rightarrow>
                        if sigchld_handler (tasks s2 p) = LINUX_SIG_IGN
                        then (Some i, task_child_link (Some i) t (task_child_unlink t s2)) else (par, s2)
                    | _ \<Rightarrow> (par, s2))
             in Some (process_notify_parent_sigchld par' (scheduler_task_set_zombie t s3)))"

datatype 's exit_result = Halted | Exited 's

definition process_exit_current :: "int \<Rightarrow> 'a sched_scheme \<Rightarrow> ('a sched_scheme exit_result) option" where
  "process_exit_current code s =
     (let cur = process_current_task s
      in if pid (tasks s cur) = 1 then Some Halted else map_option Exited (terminate cur code s))"

definition process_kill_pid :: "int \<Rightarrow> int \<Rightarrow> 'a sched_scheme \<Rightarrow> (int \<times> 'a sched_scheme) option" where
  "process_kill_pid p code s =
     (case task_find_by_pid p s of
        None \<Rightarrow> Some (-1, s)
      | Some t \<Rightarrow> if p = 1 then Some (-1, s) else map_option (\<lambda>s'. (0, s')) (terminate t code s))"

text \<open>The scan of the children: the first matching zombie, and whether any child matched.\<close>

partial_function (option) wait_scan ::
  "(task \<Rightarrow> bool) \<Rightarrow> 'a sched_scheme \<Rightarrow> tptr option \<Rightarrow> bool \<Rightarrow> (tptr option \<times> bool) option"
where
  "wait_scan match s c found =
     (case c of
        None \<Rightarrow> Some (None, found)
      | Some x \<Rightarrow>
          if \<not> match (tasks s x) then wait_scan match s (sibling_next (tasks s x)) found
          else if state (tasks s x) = TASK_ZOMBIE then Some (Some x, True)
          else wait_scan match s (sibling_next (tasks s x)) True)"

definition wait_status :: "int \<Rightarrow> int" where
  "wait_status code = push_bit 8 (code AND 0xFF)"

definition reap :: "(int \<Rightarrow> 'a sched_scheme \<Rightarrow> 'a sched_scheme) \<Rightarrow> tptr \<Rightarrow> 'a sched_scheme \<Rightarrow> 'a sched_scheme" where
  "reap release_fds t s =
     upd_task t (\<lambda>_. zero_task)
       (scheduler_task_set_unused t (task_child_unlink t (release_fds (pid (tasks s t)) s)))"

datatype 's wait_result = Returned int "int option" 's | Sleeping 's

definition wait_sleep :: "tptr \<Rightarrow> 'a sched_scheme \<Rightarrow> ('a sched_scheme wait_result) option" where
  "wait_sleep par s = map_option Sleeping (scheduler_yield (scheduler_task_set_blocked par s))"

definition process_wait_any ::
  "(int \<Rightarrow> 'a sched_scheme \<Rightarrow> 'a sched_scheme) \<Rightarrow> 'a sched_scheme \<Rightarrow> ('a sched_scheme wait_result) option"
where
  "process_wait_any release_fds s =
     (let par = process_current_task s
      in case wait_scan (\<lambda>_. True) s (first_child (tasks s par)) False of
           None \<Rightarrow> None
         | Some (Some t, _) \<Rightarrow>
             Some (Returned (pid (tasks s t)) (Some (wait_status (exit_code (tasks s t)))) (reap release_fds t s))
         | Some (None, has_children) \<Rightarrow>
             if \<not> has_children then Some (Returned (-1) None s) else wait_sleep par s)"

definition wait_match :: "int \<Rightarrow> task \<Rightarrow> task \<Rightarrow> bool" where
  "wait_match p par t =
     (if 0 < p then pid t = p
      else if p = 0 then pgid t = pgid par
      else if p < -1 then pgid t = -p
      else True)"

definition process_wait_pid ::
  "(int \<Rightarrow> 'a sched_scheme \<Rightarrow> 'a sched_scheme) \<Rightarrow> int \<Rightarrow> int \<Rightarrow> 'a sched_scheme \<Rightarrow> ('a sched_scheme wait_result) option"
where
  "process_wait_pid release_fds p options s =
     (let par = process_current_task s
      in case wait_scan (wait_match p (tasks s par)) s (first_child (tasks s par)) False of
           None \<Rightarrow> None
         | Some (Some t, _) \<Rightarrow>
             Some (Returned (pid (tasks s t)) (Some (wait_status (exit_code (tasks s t)))) (reap release_fds t s))
         | Some (None, has_match) \<Rightarrow>
             if \<not> has_match then Some (Returned (-1) None s)
             else if options AND 1 \<noteq> 0 then Some (Returned 0 None s)
             else wait_sleep par s)"

section \<open>Signals\<close>

definition process_signal_one :: "tptr \<Rightarrow> int \<Rightarrow> 'a sched_scheme \<Rightarrow> (int \<times> 'a sched_scheme) option" where
  "process_signal_one t sig s =
     (let x = tasks s t in
      if state x = TASK_UNUSED \<or> state x = TASK_ZOMBIE then Some (-1, s)
      else if sig = LINUX_SIGKILL then (if pid x = 1 then Some (-1, s) else process_kill_pid (pid x) (128 + sig) s)
      else if sig \<noteq> LINUX_SIGINT \<and> sig \<noteq> LINUX_SIGTERM then Some (-1, s)
      else
        let handler = (if sig = LINUX_SIGINT then sigint_handler x else sigterm_handler x)
        in if handler = LINUX_SIG_IGN then Some (0, s)
           else if handler = LINUX_SIG_DFL
           then (if pid x = 1 then Some (-1, s) else process_kill_pid (pid x) (128 + sig) s)
           else
             let s1 = (if sig = LINUX_SIGINT then upd_task t (sigint_pending_update (\<lambda>_. True)) s
                       else upd_task t (sigterm_pending_update (\<lambda>_. True)) s)
             in Some (0, if state (tasks s1 t) = TASK_BLOCKED
                         then scheduler_task_make_runnable t (wake_cpu s1 t) s1 else s1))"

definition process_send_signal :: "int \<Rightarrow> int \<Rightarrow> 'a sched_scheme \<Rightarrow> (int \<times> 'a sched_scheme) option" where
  "process_send_signal p sig s =
     (if p \<le> 0 then Some (-1, s)
      else case task_find_by_pid p s of
             None \<Rightarrow> Some (-1, s)
           | Some t \<Rightarrow> process_signal_one t sig s)"

fun signal_group :: "int \<Rightarrow> int \<Rightarrow> nat list \<Rightarrow> nat \<Rightarrow> 'a sched_scheme \<Rightarrow> (nat \<times> 'a sched_scheme) option" where
  "signal_group g sig [] delivered s = Some (delivered, s)"
| "signal_group g sig (i # is) delivered s =
     (let x = tasks s (TaskP i)
      in if state x = TASK_UNUSED \<or> state x = TASK_ZOMBIE \<or> pgid x \<noteq> g then signal_group g sig is delivered s
         else case process_signal_one (TaskP i) sig s of
                None \<Rightarrow> None
              | Some (r, s') \<Rightarrow> signal_group g sig is (if r = 0 then delivered + 1 else delivered) s')"

definition process_send_signal_pgid :: "int \<Rightarrow> int \<Rightarrow> 'a sched_scheme \<Rightarrow> (int \<times> 'a sched_scheme) option" where
  "process_send_signal_pgid g sig s =
     (if g \<le> 0 then Some (-1, s)
      else case signal_group g sig [0..<PROC_MAX_TASKS] 0 s of
             None \<Rightarrow> None
           | Some (n, s') \<Rightarrow> Some (if 0 < n then 0 else -1, s'))"

fun kill_group :: "int \<Rightarrow> int \<Rightarrow> nat list \<Rightarrow> nat \<Rightarrow> 'a sched_scheme \<Rightarrow> (nat \<times> 'a sched_scheme) option" where
  "kill_group g code [] killed s = Some (killed, s)"
| "kill_group g code (i # is) killed s =
     (let t = TaskP i; x = tasks s t
      in if state x = TASK_UNUSED \<or> pid x = 1 \<or> pgid x \<noteq> g then kill_group g code is killed s
         else case process_adopt_orphans (pid x) 1 (upd_task t (exit_code_update (\<lambda>_. code)) s) of
                None \<Rightarrow> None
              | Some (_, s1) \<Rightarrow>
                  let s2 = scheduler_task_set_zombie t s1;
                      s3 = (case parent (tasks s2 t) of
                              Some p \<Rightarrow> if state (tasks s2 p) = TASK_BLOCKED
                                        then scheduler_task_make_runnable p (wake_cpu s2 p) s2 else s2
                            | None \<Rightarrow> s2)
                  in kill_group g code is (killed + 1) s3)"

definition process_kill_pgid :: "int \<Rightarrow> int \<Rightarrow> 'a sched_scheme \<Rightarrow> (int \<times> 'a sched_scheme) option" where
  "process_kill_pgid g code s =
     (if g \<le> 0 then Some (-1, s)
      else case kill_group g code [0..<PROC_MAX_TASKS] 0 s of
             None \<Rightarrow> None
           | Some (n, s') \<Rightarrow> Some (if 0 < n then 0 else -1, s'))"

definition process_set_state :: "int \<Rightarrow> task_state \<Rightarrow> 'a sched_scheme \<Rightarrow> int \<times> 'a sched_scheme" where
  "process_set_state p st s =
     (case task_find_by_pid p s of
        None \<Rightarrow> (-1, s)
      | Some t \<Rightarrow>
          (0, case st of
                TASK_RUNNABLE \<Rightarrow> scheduler_task_make_runnable t (task_cpu s t) s
              | TASK_RUNNING \<Rightarrow> scheduler_task_make_runnable t (task_cpu s t) s
              | TASK_BLOCKED \<Rightarrow> scheduler_task_set_blocked t s
              | TASK_ZOMBIE \<Rightarrow> scheduler_task_set_zombie t s
              | TASK_UNUSED \<Rightarrow> scheduler_task_set_unused t s))"

section \<open>Program start\<close>

record elf_image =
  entry_rip :: u64
  at_phdr :: u64
  at_phnum :: u64
  at_entry :: u64
  at_base :: u64

definition process_pick_target_cpu :: "'a sched_scheme \<Rightarrow> nat" where
  "process_pick_target_cpu s = scheduler_cpu_id s"

definition inherit_spawn :: "task \<Rightarrow> task \<Rightarrow> task" where
  "inherit_spawn p c = c\<lparr>uid := uid p, gid := gid p, euid := euid p, egid := egid p, umask := umask p,
     pgid := pgid p, sid := sid p, ctty_kind := ctty_kind p, ctty_id := ctty_id p,
     cwd := (if cwd p \<noteq> [] then cwd p else lit ''/''),
     sigint_handler := sigint_handler p, sigalrm_handler := sigalrm_handler p, sigterm_handler := sigterm_handler p,
     sigchld_handler := sigchld_handler p, sigaltstack_sp := sigaltstack_sp p, sigaltstack_size := sigaltstack_size p,
     sigaltstack_flags := sigaltstack_flags p, assigned_cpu := -1\<rparr>"

definition spawn_args :: "int \<Rightarrow> cstr list \<Rightarrow> cstr list" where
  "spawn_args argc argv = map (take 127) (take (nat (if argc < 0 then 0 else if 32 < argc then 32 else argc)) argv)"

definition release_slot :: "tptr \<Rightarrow> 'a sched_scheme \<Rightarrow> 'a sched_scheme" where
  "release_slot t s = upd_task t (\<lambda>_. zero_task) (scheduler_task_set_unused t (task_child_unlink t s))"

definition process_spawn_exec ::
  "layout \<Rightarrow> (cstr \<Rightarrow> 'a proc_scheme \<Rightarrow> elf_image option \<times> 'a proc_scheme) \<Rightarrow> cstr \<Rightarrow> int \<Rightarrow> cstr list \<Rightarrow>
   'a proc_scheme \<Rightarrow> int \<times> 'a proc_scheme"
where
  "process_spawn_exec L elf_exec path argc argv s =
     (let par = process_current_task s in
      case task_alloc s of
        None \<Rightarrow> (-1, s)
      | Some ci \<Rightarrow>
          let child = TaskP ci; np = next_pid s;
              s1 = upd_task child (\<lambda>_. inherit_spawn (tasks s par)
                     (fresh_heap (zero_task\<lparr>pid := np, ppid := pid (tasks s par), state := TASK_BLOCKED,
                       kernel_stack_top := kstack_addr L ci\<rparr>))) (s\<lparr>next_pid := np + 1\<rparr>);
              s2 = task_child_link (Some par) child s1;
              s3 = upd_task child (task_name_update (\<lambda>_. task_name_from_path path TASK_NAME_MAX)) s2
          in if USER_AS_MAX_TASKS \<le> ci then (-1, release_slot child s3)
             else
               let s4 = task_clear_user_regions child s3;
                   s5 = s4\<lparr>user_heap_ext := (user_heap_ext s4)(ci := zeroed (unat USER_HEAP_EXT_SIZE) (user_heap_ext s4 ci)),
                           user_bigpie := (user_bigpie s4)(ci := zeroed (unat USER_BIGPIE_SIZE) (user_bigpie s4 ci))\<rparr>;
                   s6 = task_build_address_space L child True s5;
                   args = spawn_args argc argv;
                   s7 = upd_task child (\<lambda>c. c\<lparr>start_argbuf := args, start_argc := length args\<rparr>) s6;
                   old_cr3 = reg_cr3 s7
               in case elf_exec path (s7\<lparr>reg_cr3 := cr3 (tasks s7 child)\<rparr>) of
                    (None, s8) \<Rightarrow> (-1, (release_slot child s8)\<lparr>reg_cr3 := old_cr3\<rparr>)
                  | (Some img, s8) \<Rightarrow>
                      let s9 = upd_task child (\<lambda>c. c\<lparr>start_entry := entry_rip img, start_argv := argv_addr L ci,
                                 start_envp := envp_addr L ci, start_at_phdr := at_phdr img, start_at_phnum := at_phnum img,
                                 start_at_entry := at_entry img, start_at_base := at_base img, start_pending := True,
                                 task_context := zero_context\<lparr>rsp := kernel_stack_top c, rbp := kernel_stack_top c,
                                   rip := enter_user_addr L\<rparr>\<rparr>) s8;
                          s10 = scheduler_task_set_blocked child s9;
                          s11 = scheduler_task_make_runnable child (process_pick_target_cpu s10) s10
                      in (pid (tasks s11 child), s11\<lparr>reg_cr3 := old_cr3\<rparr>))"

record user_exec_image =
  img_entry :: u64
  img_stack_top :: u64
  img_heap_base :: u64
  img_at_phdr :: u64
  img_at_phnum :: u64
  img_at_entry :: u64
  img_at_base :: u64

text \<open>What \<^verbatim>\<open>process_enter_user_current\<close> hands to \<^verbatim>\<open>user_exec_run\<close>, or nothing when the task has no program.\<close>

definition process_enter_user_current ::
  "'a sched_scheme \<Rightarrow> (user_exec_image \<times> 'a sched_scheme) option"
where
  "process_enter_user_current s =
     (let cur = process_current_task s; c = tasks s cur
      in if \<not> start_pending c then None
         else Some (\<lparr>img_entry = start_entry c, img_stack_top = user_stack_top c, img_heap_base = user_heap_base c,
                     img_at_phdr = start_at_phdr c, img_at_phnum = start_at_phnum c, img_at_entry = start_at_entry c,
                     img_at_base = start_at_base c\<rparr>,
                    upd_task cur (start_pending_update (\<lambda>_. False)) s))"

definition reset_signals :: "task \<Rightarrow> task" where
  "reset_signals t = (let keep = (\<lambda>h. if h \<noteq> LINUX_SIG_IGN then LINUX_SIG_DFL else h)
     in t\<lparr>sigint_handler := keep (sigint_handler t), sigalrm_handler := keep (sigalrm_handler t),
          sigterm_handler := keep (sigterm_handler t), sigchld_handler := keep (sigchld_handler t),
          sigint_pending := False, sigalrm_pending := False, sigterm_pending := False, sigchld_pending := False,
          sig_stub_installed := False, sigaltstack_sp := 0, sigaltstack_size := 0, sigaltstack_flags := 2\<rparr>)"

definition process_prepare_exec_current :: "'a proc_scheme \<Rightarrow> int \<times> 'a proc_scheme" where
  "process_prepare_exec_current s =
     (let cur = process_current_task s; i = task_index cur
      in if USER_AS_MAX_TASKS \<le> i then (-1, s)
         else
           let s1 = task_clear_user_regions cur s;
               s2 = s1\<lparr>user_heap_ext := (user_heap_ext s1)(i := zeroed (unat USER_HEAP_EXT_SIZE) (user_heap_ext s1 i)),
                       user_bigpie := (user_bigpie s1)(i := zeroed (unat USER_BIGPIE_SIZE) (user_bigpie s1 i))\<rparr>;
               s3 = upd_task cur fresh_heap s2;
               s4 = upd_task cur (\<lambda>t. reset_signals (t\<lparr>fs_base := 0\<rparr>)) (task_clear_user_vmas cur s3)
           in (0, s4\<lparr>reg_fs_base := 0\<rparr>))"

definition process_set_fs_base :: "u64 \<Rightarrow> 'a sched_scheme \<Rightarrow> int \<times> 'a sched_scheme" where
  "process_set_fs_base b s =
     (0, (upd_task (process_current_task s) (fs_base_update (\<lambda>_. b)) s)\<lparr>reg_fs_base := b\<rparr>)"

definition process_get_fs_base :: "'a sched_scheme \<Rightarrow> u64" where
  "process_get_fs_base s = fs_base (tasks s (process_current_task s))"

section \<open>Identity\<close>

definition process_set_current :: "int \<Rightarrow> 'a sched_scheme \<Rightarrow> int" where
  "process_set_current p s = (if pid (tasks s (process_current_task s)) = p then 0 else -1)"

definition process_getpid :: "'a sched_scheme \<Rightarrow> int" where
  "process_getpid s = pid (tasks s (process_current_task s))"

definition process_getppid :: "'a sched_scheme \<Rightarrow> int" where
  "process_getppid s = ppid (tasks s (process_current_task s))"

definition process_getuid :: "'a sched_scheme \<Rightarrow> u32" where
  "process_getuid s = uid (tasks s (process_current_task s))"

definition process_getgid :: "'a sched_scheme \<Rightarrow> u32" where
  "process_getgid s = gid (tasks s (process_current_task s))"

definition process_geteuid :: "'a sched_scheme \<Rightarrow> u32" where
  "process_geteuid s = euid (tasks s (process_current_task s))"

definition process_getegid :: "'a sched_scheme \<Rightarrow> u32" where
  "process_getegid s = egid (tasks s (process_current_task s))"

definition process_setuid :: "u32 \<Rightarrow> 'a sched_scheme \<Rightarrow> u32 \<times> 'a sched_scheme" where
  "process_setuid u s =
     (let cur = process_current_task s; c = tasks s cur
      in if euid c = 0 then (0, upd_task cur (\<lambda>t. t\<lparr>uid := u, euid := u\<rparr>) s)
         else if u = uid c \<or> u = euid c then (0, upd_task cur (euid_update (\<lambda>_. u)) s)
         else (-1, s))"

definition process_setgid :: "u32 \<Rightarrow> 'a sched_scheme \<Rightarrow> u32 \<times> 'a sched_scheme" where
  "process_setgid g s =
     (let cur = process_current_task s; c = tasks s cur
      in if euid c = 0 then (0, upd_task cur (\<lambda>t. t\<lparr>gid := g, egid := g\<rparr>) s)
         else if g = gid c \<or> g = egid c then (0, upd_task cur (egid_update (\<lambda>_. g)) s)
         else (-1, s))"

definition process_setreuid :: "u32 \<Rightarrow> u32 \<Rightarrow> 'a sched_scheme \<Rightarrow> int \<times> 'a sched_scheme" where
  "process_setreuid r e s =
     (let cur = process_current_task s; c = tasks s cur
      in if euid c \<noteq> 0 \<and> (r \<noteq> -1 \<and> r \<noteq> uid c \<and> r \<noteq> euid c \<or> e \<noteq> -1 \<and> e \<noteq> uid c \<and> e \<noteq> euid c) then (-1, s)
         else
           let s1 = (if r \<noteq> -1 then upd_task cur (uid_update (\<lambda>_. r)) s else s)
           in (0, if e \<noteq> -1 then upd_task cur (euid_update (\<lambda>_. e)) s1 else s1))"

definition process_setregid :: "u32 \<Rightarrow> u32 \<Rightarrow> 'a sched_scheme \<Rightarrow> int \<times> 'a sched_scheme" where
  "process_setregid r e s =
     (let cur = process_current_task s; c = tasks s cur
      in if euid c \<noteq> 0 \<and> (r \<noteq> -1 \<and> r \<noteq> gid c \<and> r \<noteq> egid c \<or> e \<noteq> -1 \<and> e \<noteq> gid c \<and> e \<noteq> egid c) then (-1, s)
         else
           let s1 = (if r \<noteq> -1 then upd_task cur (gid_update (\<lambda>_. r)) s else s)
           in (0, if e \<noteq> -1 then upd_task cur (egid_update (\<lambda>_. e)) s1 else s1))"

definition process_set_umask :: "u32 \<Rightarrow> 'a sched_scheme \<Rightarrow> u32 \<times> 'a sched_scheme" where
  "process_set_umask m s =
     (let cur = process_current_task s
      in (umask (tasks s cur), upd_task cur (umask_update (\<lambda>_. m AND 0x1FF)) s))"

definition process_setpgid :: "int \<Rightarrow> int \<Rightarrow> 'a sched_scheme \<Rightarrow> int \<times> 'a sched_scheme" where
  "process_setpgid p g s =
     (let cur = process_current_task s; c = tasks s cur; p' = (if p = 0 then pid c else p)
      in case task_find_by_pid p' s of
           None \<Rightarrow> (-1, s)
         | Some t \<Rightarrow>
             let g' = (if g = 0 then pid (tasks s t) else g)
             in if sid (tasks s t) \<noteq> sid c \<or> g' < 0 then (-1, s)
                else if g' \<noteq> pid (tasks s t) \<and>
                  (case task_find_by_pid g' s of None \<Rightarrow> True | Some l \<Rightarrow> sid (tasks s l) \<noteq> sid c) then (-1, s)
                else (0, upd_task t (pgid_update (\<lambda>_. g')) s))"

definition process_getpgid :: "int \<Rightarrow> 'a sched_scheme \<Rightarrow> int" where
  "process_getpgid p s =
     (case task_find_by_pid (if p = 0 then process_getpid s else p) s of None \<Rightarrow> -1 | Some t \<Rightarrow> pgid (tasks s t))"

definition process_getsid :: "int \<Rightarrow> 'a sched_scheme \<Rightarrow> int" where
  "process_getsid p s =
     (case task_find_by_pid (if p = 0 then process_getpid s else p) s of None \<Rightarrow> -1 | Some t \<Rightarrow> sid (tasks s t))"

definition process_setsid :: "'a sched_scheme \<Rightarrow> int \<times> 'a sched_scheme" where
  "process_setsid s =
     (let cur = process_current_task s; c = tasks s cur
      in if pgid c = pid c then (-1, s)
         else (pid c, upd_task cur (\<lambda>t. t\<lparr>sid := pid t, pgid := pid t, ctty_kind := PROCESS_CTTY_NONE, ctty_id := -1\<rparr>) s))"

definition process_get_task :: "int \<Rightarrow> 'a sched_scheme \<Rightarrow> tptr option" where
  "process_get_task p s = task_find_by_pid p s"

definition process_task_by_index :: "int \<Rightarrow> tptr option" where
  "process_task_by_index i = (if i < 0 \<or> int PROC_MAX_TASKS \<le> i then None else Some (TaskP (nat i)))"

definition state_char :: "task_state \<Rightarrow> char" where
  "state_char st = (case st of TASK_RUNNING \<Rightarrow> CHR ''R'' | TASK_RUNNABLE \<Rightarrow> CHR ''R''
     | TASK_BLOCKED \<Rightarrow> CHR ''S'' | TASK_ZOMBIE \<Rightarrow> CHR ''Z'' | TASK_UNUSED \<Rightarrow> CHR ''?'')"

definition process_list_print :: "'a sched_scheme \<Rightarrow> (int \<times> int \<times> char \<times> cstr) list" where
  "process_list_print s =
     map (\<lambda>i. let t = tasks s (TaskP i) in (pid t, ppid t, state_char (state t), task_name t))
       (filter (\<lambda>i. state (tasks s (TaskP i)) \<noteq> TASK_UNUSED) [0..<PROC_MAX_TASKS])"

end
