(* ===== verification/ProcTree.thy ===== *)
theory ProcTree
  imports Process
begin

text \<open>
  Correctness of the process layer of \<open>Process\<close>.

  \<open>tree_ok s cs\<close>: the child links of the task store represent the forest \<open>cs\<close> (the list of
  children of every task, most recent first). Linking, unlinking and adoption are operations on
  that forest; every routine of the process layer keeps the forest and the scheduler's
  discipline \<open>sched_inv\<close>. Built on that: termination of a process, waiting, fork, signals,
  credentials and the page tables.
\<close>

section \<open>What an operation depends on\<close>

definition sched_view :: "task \<Rightarrow> tptr option \<times> tptr option \<times> bool \<times> task_state \<times> bool \<times> int" where
  "sched_view t = (rq_next t, rq_prev t, on_runqueue t, state t, is_idle t, assigned_cpu t)"

definition tree_view :: "task \<Rightarrow> tptr option \<times> tptr option \<times> tptr option \<times> tptr option" where
  "tree_view t = (parent t, first_child t, sibling_prev t, sibling_next t)"

lemma sched_inv_view:
  assumes "\<And>x. sched_view (tasks s' x) = sched_view (tasks s x)" "sched_cpus s' = sched_cpus s"
    "scheduler_ready s' = scheduler_ready s"
  shows "sched_inv s' qs = sched_inv s qs"
proof -
  have f: "rq_next (tasks s' x) = rq_next (tasks s x)" "rq_prev (tasks s' x) = rq_prev (tasks s x)"
    "on_runqueue (tasks s' x) = on_runqueue (tasks s x)" "state (tasks s' x) = state (tasks s x)"
    "is_idle (tasks s' x) = is_idle (tasks s x)" "assigned_cpu (tasks s' x) = assigned_cpu (tasks s x)" for x
    using assms(1) [of x] by (simp_all add: sched_view_def)
  show ?thesis
    unfolding sched_inv_def links_rel_def queue_ok_def run_inv_def f assms(2,3) by (rule refl)
qed

lemma sched_inv_upd_task [simp]:
  "(\<And>x. sched_view (f x) = sched_view x) \<Longrightarrow> sched_inv (upd_task t f s) qs = sched_inv s qs"
  by (rule sched_inv_view) simp_all

section \<open>The forest\<close>

type_synonym forest = "tptr \<Rightarrow> tptr list"

definition tree_ok :: "'a sched_scheme \<Rightarrow> forest \<Rightarrow> bool" where
  "tree_ok s cs \<longleftrightarrow>
     (\<forall>p. dseg (\<lambda>t. sibling_next (tasks s t)) (\<lambda>t. sibling_prev (tasks s t)) (first_child (tasks s p)) None (cs p)) \<and>
     (\<forall>p. distinct (cs p)) \<and>
     (\<forall>p c. c \<in> set (cs p) \<longleftrightarrow> parent (tasks s c) = Some p) \<and>
     (\<forall>c. parent (tasks s c) = None \<longrightarrow> sibling_next (tasks s c) = None \<and> sibling_prev (tasks s c) = None)"

definition f_unlink :: "tptr \<Rightarrow> forest \<Rightarrow> forest" where
  "f_unlink t cs = (\<lambda>p. remove1 t (cs p))"

definition f_link :: "tptr option \<Rightarrow> tptr \<Rightarrow> forest \<Rightarrow> forest" where
  "f_link par t cs =
     (case par of None \<Rightarrow> f_unlink t cs | Some p \<Rightarrow> (f_unlink t cs)(p := t # f_unlink t cs p))"

lemma tree_ok_view:
  assumes "\<And>x. tree_view (tasks s' x) = tree_view (tasks s x)"
  shows "tree_ok s' cs = tree_ok s cs"
proof -
  have f: "parent (tasks s' x) = parent (tasks s x)" "first_child (tasks s' x) = first_child (tasks s x)"
    "sibling_prev (tasks s' x) = sibling_prev (tasks s x)" "sibling_next (tasks s' x) = sibling_next (tasks s x)" for x
    using assms [of x] by (simp_all add: tree_view_def)
  show ?thesis unfolding tree_ok_def f by (rule refl)
qed

lemma unlink_links:
  shows "sibling_next (tasks (task_child_unlink t s) x) =
      (if x = t then None else if sibling_prev (tasks s t) = Some x then sibling_next (tasks s t)
       else sibling_next (tasks s x))"
    and "sibling_prev (tasks (task_child_unlink t s) x) =
      (if x = t then None else if sibling_next (tasks s t) = Some x then sibling_prev (tasks s t)
       else sibling_prev (tasks s x))"
    and "first_child (tasks (task_child_unlink t s) x) =
      (if sibling_prev (tasks s t) = None \<and> parent (tasks s t) = Some x then sibling_next (tasks s t)
       else first_child (tasks s x))"
    and "parent (tasks (task_child_unlink t s) x) = (if x = t then None else parent (tasks s x))"
  by (auto simp: task_child_unlink_def Let_def split: option.splits)

interpretation child: intrusive_list
  "\<lambda>s t. sibling_next (tasks s t)" "\<lambda>s t. sibling_prev (tasks s t)" "\<lambda>s _. first_child (tasks s p)"
  "\<lambda>s t. parent (tasks s t) = Some p" task_child_unlink for p
  by unfold_locales (simp_all add: unlink_links)

lemma tree_unlink:
  assumes ok: "tree_ok s cs"
  shows "tree_ok (task_child_unlink t s) (f_unlink t cs)"
proof -
  let ?s = "task_child_unlink t s"
  have seg: "dseg (\<lambda>t. sibling_next (tasks s t)) (\<lambda>t. sibling_prev (tasks s t)) (first_child (tasks s p)) None (cs p)"
    and dis: "distinct (cs p)" and mem: "c \<in> set (cs p) \<longleftrightarrow> parent (tasks s c) = Some p" for p c
    using ok by (simp_all add: tree_ok_def)
  have "dseg (\<lambda>t. sibling_next (tasks ?s t)) (\<lambda>t. sibling_prev (tasks ?s t)) (first_child (tasks ?s p)) None
      (f_unlink t cs p)" for p
  proof (cases "parent (tasks s t) = Some p")
    case True
    then obtain as bs where q: "cs p = as @ t # bs" using mem split_list by metis
    have "t \<notin> set as" using dis [of p] q by simp
    then show ?thesis using child.unlink_dseg [OF True] seg [of p] dis [of p] q
      by (simp add: f_unlink_def remove1_append)
  next
    case False
    then have tn: "t \<notin> set (cs p)" using mem by simp
    have nb: "x \<notin> set (cs p)" if "sibling_prev (tasks s t) = Some x \<or> sibling_next (tasks s t) = Some x" for x
    proof (cases "parent (tasks s t)")
      case None
      then show ?thesis using ok that by (auto simp: tree_ok_def)
    next
      case (Some q)
      then obtain as bs where q: "cs q = as @ t # bs" using mem split_list by metis
      then have "x \<in> set (cs q)"
        using that dseg_middle(1,2) [OF seg [of q, unfolded q]]
        by (cases "as = []"; cases "bs = []") (auto simp: hd_opt_def)
      then show ?thesis using mem Some False by auto
    qed
    have hd: "first_child (tasks ?s p) = first_child (tasks s p)" using False by (simp add: unlink_links)
    have "dseg (\<lambda>x. sibling_next (tasks ?s x)) (\<lambda>x. sibling_prev (tasks ?s x)) (first_child (tasks s p)) None (cs p) =
        dseg (\<lambda>x. sibling_next (tasks s x)) (\<lambda>x. sibling_prev (tasks s x)) (first_child (tasks s p)) None (cs p)"
      by (intro dseg_cong) (use tn nb in \<open>auto simp: unlink_links\<close>)
    then show ?thesis using seg [of p] tn by (simp add: hd f_unlink_def remove1_idem)
  qed
  moreover have "c \<in> set (f_unlink t cs p) \<longleftrightarrow> parent (tasks ?s c) = Some p" for c p
    using mem dis [of p] by (auto simp: f_unlink_def unlink_links)
  moreover have "sibling_next (tasks ?s c) = None \<and> sibling_prev (tasks ?s c) = None"
    if "parent (tasks ?s c) = None" for c
  proof (cases "c = t")
    case False
    then have pc: "parent (tasks s c) = None" using that by (simp add: unlink_links)
    then have no: "sibling_next (tasks s c) = None" "sibling_prev (tasks s c) = None" "\<And>p. c \<notin> set (cs p)"
      using ok by (auto simp: tree_ok_def)
    have "sibling_prev (tasks s t) \<noteq> Some c \<and> sibling_next (tasks s t) \<noteq> Some c"
    proof (cases "parent (tasks s t)")
      case None
      then show ?thesis using ok by (simp add: tree_ok_def)
    next
      case (Some q)
      then obtain as bs where q: "cs q = as @ t # bs" using mem split_list by metis
      then show ?thesis
        using no(3) [of q] dseg_middle(1,2) [OF seg [of q, unfolded q]]
        by (cases "as = []"; cases "bs = []") (auto simp: hd_opt_def)
    qed
    with False no show ?thesis by (simp add: unlink_links)
  qed (simp add: unlink_links)
  ultimately show ?thesis using dis by (simp add: tree_ok_def f_unlink_def)
qed

lemma link_links:
  fixes s :: "'a sched_scheme"
  assumes "s1 = task_child_unlink t s"
  shows "sibling_next (tasks (task_child_link par t s) x) =
      (if x = t then (case par of Some p \<Rightarrow> first_child (tasks s1 p) | None \<Rightarrow> None) else sibling_next (tasks s1 x))"
    and "sibling_prev (tasks (task_child_link par t s) x) =
      (if (\<exists>p. par = Some p \<and> first_child (tasks s1 p) = Some x) then Some t else sibling_prev (tasks s1 x))"
    and "first_child (tasks (task_child_link par t s) x) = (if par = Some x then Some t else first_child (tasks s1 x))"
    and "parent (tasks (task_child_link par t s) x) = (if x = t then par else parent (tasks s1 x))"
proof -
  have t: "sibling_next (tasks s1 t) = None" by (simp add: assms unlink_links)
  show "sibling_next (tasks (task_child_link par t s) x) =
      (if x = t then (case par of Some p \<Rightarrow> first_child (tasks s1 p) | None \<Rightarrow> None) else sibling_next (tasks s1 x))"
    using t unfolding task_child_link_def Let_def assms [symmetric] by (simp split: option.split)
  show "sibling_prev (tasks (task_child_link par t s) x) =
      (if (\<exists>p. par = Some p \<and> first_child (tasks s1 p) = Some x) then Some t else sibling_prev (tasks s1 x))"
    unfolding task_child_link_def Let_def assms [symmetric] by (simp split: option.split)
  show "first_child (tasks (task_child_link par t s) x) = (if par = Some x then Some t else first_child (tasks s1 x))"
    unfolding task_child_link_def Let_def assms [symmetric] by (simp split: option.split)
  show "parent (tasks (task_child_link par t s) x) = (if x = t then par else parent (tasks s1 x))"
    unfolding task_child_link_def Let_def assms [symmetric] by (simp split: option.split)
qed

lemma tree_link:
  assumes ok: "tree_ok s cs"
  shows "tree_ok (task_child_link par t s) (f_link par t cs)"
proof -
  let ?u = "task_child_unlink t s" and ?cs = "f_unlink t cs" and ?s = "task_child_link par t s"
  have u: "tree_ok ?u ?cs" by (rule tree_unlink [OF ok])
  note l = link_links [OF refl, of par t s]
  have seg: "dseg (\<lambda>t. sibling_next (tasks ?u t)) (\<lambda>t. sibling_prev (tasks ?u t)) (first_child (tasks ?u p)) None (?cs p)"
    and dis: "distinct (?cs p)" and mem: "c \<in> set (?cs p) \<longleftrightarrow> parent (tasks ?u c) = Some p"
    and none: "parent (tasks ?u c) = None \<Longrightarrow> sibling_next (tasks ?u c) = None \<and> sibling_prev (tasks ?u c) = None" for p c
    using u by (simp_all add: tree_ok_def)
  have tn: "t \<notin> set (?cs p)" for p using mem by (simp add: unlink_links)
  show ?thesis
  proof (cases par)
    case None
    have "sibling_next (tasks ?u t) = None" "parent (tasks ?u t) = None" by (simp_all add: unlink_links)
    then have "tree_view (tasks ?s x) = tree_view (tasks ?u x)" for x
      using l [of x] None by (simp add: tree_view_def)
    then have "tree_ok ?s ?cs = tree_ok ?u ?cs" by (rule tree_ok_view)
    then show ?thesis using u None by (simp add: f_link_def)
  next
    case (Some p)
    have head: "first_child (tasks ?u p) = hd_opt (?cs p)" using dseg_head [OF seg] .
    have hm: "x \<in> set (?cs p)" if "first_child (tasks ?u p) = Some x" for x
      using that head by (auto simp: hd_opt_def split: if_splits)
    have "dseg (\<lambda>x. sibling_next (tasks ?s x)) (\<lambda>x. sibling_prev (tasks ?s x)) (Some t) None (t # ?cs p)"
      by (rule dseg_push_head [OF seg dis tn]) (use l Some hm tn in \<open>auto simp: unlink_links\<close>)
    moreover have "dseg (\<lambda>x. sibling_next (tasks ?s x)) (\<lambda>x. sibling_prev (tasks ?s x)) (first_child (tasks ?u q)) None (?cs q)"
      if "q \<noteq> p" for q
    proof -
      have "dseg (\<lambda>x. sibling_next (tasks ?s x)) (\<lambda>x. sibling_prev (tasks ?s x)) (first_child (tasks ?u q)) None (?cs q) =
        dseg (\<lambda>x. sibling_next (tasks ?u x)) (\<lambda>x. sibling_prev (tasks ?u x)) (first_child (tasks ?u q)) None (?cs q)"
        by (intro dseg_cong) (use l Some hm tn mem that in auto)
      then show ?thesis using seg by simp
    qed
    moreover have "sibling_next (tasks ?s c) = None \<and> sibling_prev (tasks ?s c) = None"
      if "parent (tasks ?s c) = None" for c
      using that l Some none hm mem by (auto split: if_splits)
    moreover have "c \<in> set ((?cs(p := t # ?cs p)) q) \<longleftrightarrow> parent (tasks ?s c) = Some q" for c q
      using mem [of c q] l(4) Some tn by (auto simp: unlink_links)
    ultimately show ?thesis using Some dis tn l
      by (simp add: tree_ok_def f_link_def)
  qed
qed

text \<open>Tree operations touch nothing but the tree fields and the parent's pid.\<close>

definition untreed :: "task \<Rightarrow> task" where
  "untreed t = t\<lparr>ppid := 0, parent := None, first_child := None, sibling_prev := None, sibling_next := None\<rparr>"

definition same_but_tree :: "'a sched_scheme \<Rightarrow> 'a sched_scheme \<Rightarrow> bool" where
  "same_but_tree s s' \<longleftrightarrow>
     (\<forall>x. untreed (tasks s' x) = untreed (tasks s x)) \<and> s'\<lparr>tasks := tasks s\<rparr> = s"

lemma same_but_tree_refl [simp]: "same_but_tree s s"
  by (simp add: same_but_tree_def)

lemma same_but_tree_trans: "same_but_tree s s' \<Longrightarrow> same_but_tree s' s'' \<Longrightarrow> same_but_tree s s''"
  unfolding same_but_tree_def
  by (metis sched.update_convs(1) sched.surjective sched.ext_inject)

lemma unlink_same_but_tree: "same_but_tree s (task_child_unlink t s)"
  by (auto simp: same_but_tree_def task_child_unlink_def untreed_def upd_task_def Let_def split: option.split)

lemma link_same_but_tree: "same_but_tree s (task_child_link par t s)"
proof -
  have "same_but_tree (task_child_unlink t s) (task_child_link par t s)"
    by (auto simp: same_but_tree_def task_child_link_def untreed_def upd_task_def Let_def split: option.split)
  with unlink_same_but_tree show ?thesis by (rule same_but_tree_trans)
qed

lemma same_but_treeD:
  assumes "same_but_tree s s'"
  shows "sched_view (tasks s' x) = sched_view (tasks s x)" "pid (tasks s' x) = pid (tasks s x)"
    "state (tasks s' x) = state (tasks s x)" "exit_code (tasks s' x) = exit_code (tasks s x)"
    "sigchld_handler (tasks s' x) = sigchld_handler (tasks s x)" "pgid (tasks s' x) = pgid (tasks s x)"
    "is_idle (tasks s' x) = is_idle (tasks s x)"
    "sched_cpus s' = sched_cpus s" "scheduler_ready s' = scheduler_ready s"
    "scheduler_cpu_id s' = scheduler_cpu_id s" "sched.more s' = sched.more s"
    "local_cpu_id s' = local_cpu_id s"
proof -
  have u: "untreed (tasks s' x) = untreed (tasks s x)" and e: "s'\<lparr>tasks := tasks s\<rparr> = s"
    using assms by (simp_all add: same_but_tree_def)
  show "sched_view (tasks s' x) = sched_view (tasks s x)"
    using arg_cong [OF u, of sched_view] by (simp add: untreed_def sched_view_def)
  show "pid (tasks s' x) = pid (tasks s x)" using arg_cong [OF u, of pid] by (simp add: untreed_def)
  show "state (tasks s' x) = state (tasks s x)" using arg_cong [OF u, of state] by (simp add: untreed_def)
  show "exit_code (tasks s' x) = exit_code (tasks s x)" using arg_cong [OF u, of exit_code] by (simp add: untreed_def)
  show "sigchld_handler (tasks s' x) = sigchld_handler (tasks s x)"
    using arg_cong [OF u, of sigchld_handler] by (simp add: untreed_def)
  show "pgid (tasks s' x) = pgid (tasks s x)" using arg_cong [OF u, of pgid] by (simp add: untreed_def)
  show "is_idle (tasks s' x) = is_idle (tasks s x)" using arg_cong [OF u, of is_idle] by (simp add: untreed_def)
  show "sched_cpus s' = sched_cpus s" using arg_cong [OF e, of sched_cpus] by simp
  show "scheduler_ready s' = scheduler_ready s" using arg_cong [OF e, of scheduler_ready] by simp
  show "sched.more s' = sched.more s" using arg_cong [OF e, of sched.more] by simp
  show "local_cpu_id s' = local_cpu_id s" using arg_cong [OF e, of local_cpu_id] by simp
  then show "scheduler_cpu_id s' = scheduler_cpu_id s" by (simp add: scheduler_cpu_id_def)
qed

lemma same_but_tree_sched_inv: "same_but_tree s s' \<Longrightarrow> sched_inv s' qs = sched_inv s qs"
  by (rule sched_inv_view) (simp_all add: same_but_treeD)

lemma same_but_tree_find: "same_but_tree s s' \<Longrightarrow> task_find_by_pid p s' = task_find_by_pid p s"
  by (simp add: task_find_by_pid_def same_but_treeD)

section \<open>Adoption and termination\<close>

lemma tree_ok_facts:
  assumes "tree_ok s cs"
  shows "first_child (tasks s p) = hd_opt (cs p)" "distinct (cs p)"
    "c \<in> set (cs p) \<longleftrightarrow> parent (tasks s c) = Some p"
    "cs p = as @ c # bs \<Longrightarrow> sibling_next (tasks s c) = hd_opt bs"
proof -
  have seg: "dseg (\<lambda>t. sibling_next (tasks s t)) (\<lambda>t. sibling_prev (tasks s t)) (first_child (tasks s p)) None (cs p)"
    using assms by (simp add: tree_ok_def)
  show "first_child (tasks s p) = hd_opt (cs p)" by (rule dseg_head [OF seg])
  show "distinct (cs p)" "c \<in> set (cs p) \<longleftrightarrow> parent (tasks s c) = Some p"
    using assms by (simp_all add: tree_ok_def)
  show "sibling_next (tasks s c) = hd_opt bs" if "cs p = as @ c # bs"
    using dseg_middle(2) [OF seg [unfolded that]] .
qed

definition f_adopt :: "tptr \<Rightarrow> tptr option \<Rightarrow> forest \<Rightarrow> forest" where
  "f_adopt f to cs =
     (case to of None \<Rightarrow> cs(f := []) | Some i \<Rightarrow> cs(f := [], i := rev (cs f) @ cs i))"

lemma f_link_head:
  assumes "cs f = x # xs" "to \<noteq> Some f" "distinct (cs f)" "\<And>p. p \<noteq> f \<Longrightarrow> x \<notin> set (cs p)"
  shows "f_link to x cs = (case to of None \<Rightarrow> cs(f := xs) | Some i \<Rightarrow> cs(f := xs, i := x # cs i))"
  using assms by (auto simp: f_link_def f_unlink_def remove1_idem fun_eq_iff split: option.split)

lemma adopt_loop_spec:
  assumes "tree_ok s cs" "cs f = xs" "to \<noteq> Some f"
  shows "\<exists>s'. adopt_loop to (hd_opt xs) n s = Some (n + length xs, s') \<and> same_but_tree s s' \<and>
    tree_ok s' (f_adopt f to cs)"
  using assms
proof (induction xs arbitrary: s cs n)
  case Nil
  have "cs(f := []) = cs" using Nil(2) by (metis fun_upd_triv)
  then have "f_adopt f to cs = cs"
    using Nil by (auto simp: f_adopt_def split: option.split)
  with Nil(1) show ?case by (simp add: adopt_loop.simps)
next
  case (Cons x xs)
  let ?s = "task_child_link to x s" and ?cs = "f_link to x cs"
  note t = tree_ok_facts [OF Cons.prems(1)]
  have nx: "sibling_next (tasks s x) = hd_opt xs" using t(4) [of f "[]" x xs] Cons.prems(2) by simp
  have off: "x \<notin> set (cs p)" if "p \<noteq> f" for p
    using t(3) [of x p] t(3) [of x f] Cons.prems(2) that by auto
  have link: "?cs = (case to of None \<Rightarrow> cs(f := xs) | Some i \<Rightarrow> cs(f := xs, i := x # cs i))"
    by (rule f_link_head [of cs f x xs to]) (use Cons.prems(2,3) t(2) [of f] off in auto)
  then have "?cs f = xs" using Cons.prems(3) by (auto split: option.split)
  from Cons.IH [OF tree_link [OF Cons.prems(1)] this Cons.prems(3), of "n + 1"] obtain s' where
    s': "adopt_loop to (hd_opt xs) (n + 1) ?s = Some (n + 1 + length xs, s')" "same_but_tree ?s s'"
      "tree_ok s' (f_adopt f to ?cs)" by blast
  have "f_adopt f to ?cs = f_adopt f to cs"
    using Cons.prems(2,3) by (auto simp: link f_adopt_def fun_eq_iff split: option.split)
  moreover have "same_but_tree s s'"
    using link_same_but_tree s'(2) by (rule same_but_tree_trans)
  ultimately show ?case using s'(1,3) nx
    by (simp add: adopt_loop.simps [of to "Some x"])
qed

lemma adopt_orphans_spec:
  assumes "tree_ok s cs" "task_find_by_pid p s = Some f" "task_find_by_pid q s \<noteq> Some f"
  shows "\<exists>s'. process_adopt_orphans p q s = Some (length (cs f), s') \<and> same_but_tree s s' \<and>
    tree_ok s' (f_adopt f (task_find_by_pid q s) cs)"
  using adopt_loop_spec [OF assms(1) refl assms(3), of 0] assms(2) tree_ok_facts(1) [OF assms(1), of f]
  by (simp add: process_adopt_orphans_def Let_def)

text \<open>Scheduler routines leave the tree alone.\<close>

lemma unlinked_tree_view: "unlinked t = unlinked t' \<Longrightarrow> tree_view t = tree_view t'"
proof -
  assume u: "unlinked t = unlinked t'"
  have "tree_view (unlinked x) = tree_view x" for x by (simp add: tree_view_def unlinked_def)
  with arg_cong [OF u, of tree_view] show ?thesis by simp
qed

lemma same_but_links_tree: "same_but_links s s' \<Longrightarrow> tree_view (tasks s' x) = tree_view (tasks s x)"
  by (rule unlinked_tree_view) (simp add: same_but_links_def)

lemma leave_queue_tree [simp]: "tree_view (tasks (leave_queue t s) x) = tree_view (tasks s x)"
  by (simp add: leave_queue_def same_but_links_tree [OF rq_remove_same])

lemma take_off_tree:
  "(\<And>x. tree_view (f x) = tree_view x) \<Longrightarrow> tree_view (tasks (take_off t f s) x) = tree_view (tasks s x)"
  by (simp add: take_off_def)

lemma set_zombie_tree: "tree_view (tasks (scheduler_task_set_zombie t s) x) = tree_view (tasks s x)"
  unfolding scheduler_task_set_zombie_def
  using leave_queue_tree [of t s x] by (cases "x = t") (simp_all add: tree_view_def)

lemma set_blocked_tree: "tree_view (tasks (scheduler_task_set_blocked t s) x) = tree_view (tasks s x)"
  unfolding scheduler_task_set_blocked_def
  using leave_queue_tree [of t s x] by (cases "x = t") (simp_all add: tree_view_def)

lemma set_unused_tree: "tree_view (tasks (scheduler_task_set_unused t s) x) = tree_view (tasks s x)"
  unfolding scheduler_task_set_unused_def
  using leave_queue_tree [of t s x] by (cases "x = t") (simp_all add: tree_view_def)

lemma make_runnable_tree:
  assumes "links_rel s qs"
  shows "tree_view (tasks (scheduler_task_make_runnable t i s) x) = tree_view (tasks s x)"
proof (cases "is_idle (tasks s t)")
  case False
  show ?thesis unfolding make_runnable_eq [OF assms False]
    unfolding same_but_links_tree [OF rq_push_same]
    using leave_queue_tree [of t s x] by (cases "x = t") (simp_all add: tree_view_def)
qed (simp add: scheduler_task_make_runnable_def)

lemmas sched_tree = set_zombie_tree set_blocked_tree set_unused_tree make_runnable_tree

text \<open>Scheduler routines touch nothing but the scheduling fields of tasks.\<close>

definition unsched :: "task \<Rightarrow> task" where
  "unsched t = t\<lparr>rq_next := None, rq_prev := None, on_runqueue := False, state := TASK_UNUSED,
     assigned_cpu := 0, need_resched := False\<rparr>"

lemma unlinked_unsched: "unlinked t = unlinked t' \<Longrightarrow> unsched t = unsched t'"
proof -
  assume u: "unlinked t = unlinked t'"
  have "unsched (unlinked x) = unsched x" for x by (simp add: unsched_def unlinked_def)
  with arg_cong [OF u, of unsched] show ?thesis by simp
qed

lemma same_but_links_unsched: "same_but_links s s' \<Longrightarrow> unsched (tasks s' x) = unsched (tasks s x)"
  by (rule unlinked_unsched) (simp add: same_but_links_def)

lemma upd_task_unsched:
  "(\<And>x. unsched (f x) = unsched x) \<Longrightarrow> unsched (tasks (upd_task t f s) x) = unsched (tasks s x)"
  by simp

lemma unsched_simps [simp]:
  "unsched (t\<lparr>assigned_cpu := a\<rparr>) = unsched t" "unsched (t\<lparr>state := st\<rparr>) = unsched t"
  "unsched (t\<lparr>assigned_cpu := a, state := st\<rparr>) = unsched t"
  "unsched (t\<lparr>assigned_cpu := a, state := st, need_resched := b\<rparr>) = unsched t"
  by (simp_all add: unsched_def)

lemma leave_queue_unsched: "unsched (tasks (leave_queue t s) x) = unsched (tasks s x)"
  by (simp add: leave_queue_def same_but_links_unsched [OF rq_remove_same])

lemma sched_unsched:
  "unsched (tasks (scheduler_task_set_zombie t s) x) = unsched (tasks s x)"
  "unsched (tasks (scheduler_task_set_blocked t s) x) = unsched (tasks s x)"
  "unsched (tasks (scheduler_task_set_unused t s) x) = unsched (tasks s x)"
  "unsched (tasks (scheduler_task_make_runnable t i s) x) = unsched (tasks s x)"
  by (auto simp: scheduler_task_set_zombie_def scheduler_task_set_blocked_def scheduler_task_set_unused_def
      scheduler_task_make_runnable_def leave_queue_unsched Let_def
      same_but_links_unsched [OF rq_push_same] same_but_links_unsched [OF rq_remove_same])

lemma unschedD:
  assumes "unsched t = unsched t'"
  shows "pid t = pid t'" "ppid t = ppid t'" "exit_code t = exit_code t'" "pgid t = pgid t'" "sid t = sid t'"
    "is_idle t = is_idle t'" "sigchld_handler t = sigchld_handler t'" "sigchld_pending t = sigchld_pending t'"
    "sigint_pending t = sigint_pending t'" "sigterm_pending t = sigterm_pending t'"
    "tree_view t = tree_view t'"
  using arg_cong [OF assms, of pid] arg_cong [OF assms, of ppid] arg_cong [OF assms, of exit_code]
    arg_cong [OF assms, of pgid] arg_cong [OF assms, of sid] arg_cong [OF assms, of is_idle]
    arg_cong [OF assms, of sigchld_handler] arg_cong [OF assms, of sigchld_pending]
    arg_cong [OF assms, of sigint_pending] arg_cong [OF assms, of sigterm_pending]
    arg_cong [OF assms, of tree_view]
  by (simp_all add: unsched_def tree_view_def)

lemma wake_spec:
  fixes t :: tptr
  assumes "sched_inv s qs"
  defines "s' \<equiv> scheduler_task_make_runnable t (task_cpu s t) s"
  shows "\<exists>qs'. sched_inv s' qs'" "\<not> is_idle (tasks s t) \<Longrightarrow> state (tasks s' t) = TASK_RUNNABLE"
    "x \<noteq> t \<Longrightarrow> state (tasks s' x) = state (tasks s x)"
proof -
  have rel: "links_rel s qs" and run: "run_inv s" using assms(1) by (simp_all add: sched_inv_def)
  have "assigned_cpu (tasks s t) < int SCHED_MAX_CPUS" using run by (simp add: run_inv_def)
  then have c: "task_cpu s t < SCHED_MAX_CPUS" by (auto simp: task_cpu_def)
  show "\<exists>qs'. sched_inv s' qs'"
  proof (cases "is_idle (tasks s t)")
    case False
    have "nat (assigned_cpu (tasks s t)) = cpu_by_id (task_cpu s t)" if "0 \<le> assigned_cpu (tasks s t)"
      using c that by (simp add: task_cpu_def)
    from make_runnable_inv [OF assms(1) False this] show ?thesis unfolding s'_def by blast
  qed (use assms in \<open>auto simp: scheduler_task_make_runnable_def\<close>)
  show "state (tasks s' t) = TASK_RUNNABLE" if "\<not> is_idle (tasks s t)"
    unfolding s'_def using make_runnable_fields(1) [OF rel that] by simp
  show "state (tasks s' x) = state (tasks s x)" if "x \<noteq> t"
    unfolding s'_def using make_runnable_fields(1) [OF rel] that
    by (cases "is_idle (tasks s t)") (simp_all add: scheduler_task_make_runnable_def)
qed

text \<open>Notifying a parent: it learns of the exit and does not stay asleep.\<close>

lemma notify_spec:
  fixes p :: tptr
  assumes inv: "sched_inv s qs"
  defines "s' \<equiv> process_notify_parent_sigchld (Some p) s"
  shows "\<exists>qs'. sched_inv s' qs'"
    and "x \<noteq> p \<Longrightarrow> state (tasks s' x) = state (tasks s x)"
    and "state (tasks s p) = TASK_ZOMBIE \<Longrightarrow> state (tasks s' p) = TASK_ZOMBIE"
    and "pid (tasks s' x) = pid (tasks s x)" "exit_code (tasks s' x) = exit_code (tasks s x)"
    and "tree_view (tasks s' x) = tree_view (tasks s x)"
    and "state (tasks s p) \<notin> {TASK_UNUSED, TASK_ZOMBIE} \<Longrightarrow> sigchld_handler (tasks s p) \<noteq> LINUX_SIG_IGN \<Longrightarrow>
      sigchld_pending (tasks s' p)"
    and "state (tasks s p) = TASK_BLOCKED \<Longrightarrow> \<not> is_idle (tasks s p) \<Longrightarrow> state (tasks s' p) = TASK_RUNNABLE"
proof -
  define s1 where "s1 = (if sigchld_handler (tasks s p) \<noteq> LINUX_SIG_IGN
    then upd_task p (sigchld_pending_update (\<lambda>_. True)) s else s)"
  have inv1: "sched_inv s1 qs" using inv by (simp add: s1_def sched_view_def)
  have st1: "state (tasks s1 x) = state (tasks s x)" "pid (tasks s1 x) = pid (tasks s x)"
    "exit_code (tasks s1 x) = exit_code (tasks s x)" "tree_view (tasks s1 x) = tree_view (tasks s x)"
    "is_idle (tasks s1 x) = is_idle (tasks s x)" for x
    by (simp_all add: s1_def tree_view_def)
  have s': "s' = (if state (tasks s p) = TASK_UNUSED \<or> state (tasks s p) = TASK_ZOMBIE then s
      else if state (tasks s p) = TASK_BLOCKED then scheduler_task_make_runnable p (task_cpu s1 p) s1 else s1)"
    using st1(1) [of p] by (simp add: s'_def process_notify_parent_sigchld_def s1_def wake_cpu_def Let_def)
  note w = wake_spec [OF inv1, where t = p]
  note u = unschedD [OF sched_unsched(4) [of p "task_cpu s1 p" s1]]
  show "\<exists>qs'. sched_inv s' qs'" using inv inv1 w(1) by (auto simp: s')
  show "state (tasks s' x) = state (tasks s x)" if "x \<noteq> p"
    using that w(3) [OF that] st1 by (simp add: s')
  show "state (tasks s' p) = TASK_ZOMBIE" if "state (tasks s p) = TASK_ZOMBIE" using that by (simp add: s')
  show "pid (tasks s' x) = pid (tasks s x)" "exit_code (tasks s' x) = exit_code (tasks s x)"
    "tree_view (tasks s' x) = tree_view (tasks s x)"
    by (simp_all add: s' u st1)
  show "sigchld_pending (tasks s' p)"
    if "state (tasks s p) \<notin> {TASK_UNUSED, TASK_ZOMBIE}" "sigchld_handler (tasks s p) \<noteq> LINUX_SIG_IGN"
    using that by (simp add: s' u) (simp add: s1_def)
  show "state (tasks s' p) = TASK_RUNNABLE" if "state (tasks s p) = TASK_BLOCKED" "\<not> is_idle (tasks s p)"
    using that w(2) st1 by (simp add: s')
qed

definition f_terminate :: "tptr \<Rightarrow> tptr \<Rightarrow> bool \<Rightarrow> forest \<Rightarrow> forest" where
  "f_terminate t init reparent cs =
     (let cs1 = f_adopt t (Some init) cs
      in if reparent then f_link (Some init) t (f_unlink t cs1) else cs1)"

definition ignores_children :: "'a sched_scheme \<Rightarrow> tptr option \<Rightarrow> bool" where
  "ignores_children s par =
     (case par of Some p \<Rightarrow> sigchld_handler (tasks s p) = LINUX_SIG_IGN | None \<Rightarrow> False)"

lemma task_find_cong:
  assumes "\<And>x. state (tasks s' x) = state (tasks s x)" "\<And>x. pid (tasks s' x) = pid (tasks s x)"
  shows "task_find_by_pid p s' = task_find_by_pid p s"
  by (simp add: task_find_by_pid_def assms)

lemma task_find_upd:
  "(\<And>x. state (f x) = state x) \<Longrightarrow> (\<And>x. pid (f x) = pid x) \<Longrightarrow>
    task_find_by_pid p (upd_task t f s) = task_find_by_pid p s"
  by (rule task_find_cong) simp_all

lemma f_adopt_parent:
  assumes "tree_ok s cs" "tree_ok s' (f_adopt t (Some i) cs)" "i \<noteq> t" "parent (tasks s t) \<noteq> Some t"
  shows "parent (tasks s' t) = parent (tasks s t)"
proof (cases "parent (tasks s t)")
  case None
  then have "t \<notin> set (cs p)" for p using tree_ok_facts(3) [OF assms(1)] by simp
  then have "t \<notin> set (f_adopt t (Some i) cs p)" for p by (simp add: f_adopt_def)
  with None show ?thesis using tree_ok_facts(3) [OF assms(2), of t] by (cases "parent (tasks s' t)") auto
next
  case (Some p)
  then have "t \<in> set (cs p)" "p \<noteq> t" using tree_ok_facts(3) [OF assms(1)] assms(4) by auto
  then have "t \<in> set (f_adopt t (Some i) cs p)" by (auto simp: f_adopt_def)
  then show ?thesis using Some tree_ok_facts(3) [OF assms(2)] by simp
qed

lemma terminate_spec:
  assumes inv: "sched_inv s qs" and tree: "tree_ok s cs" and ni: "\<not> is_idle (tasks s t)"
    and find: "task_find_by_pid (pid (tasks s t)) s = Some t" and init: "task_find_by_pid 1 s = Some i"
    and "i \<noteq> t" and own: "parent (tasks s t) \<noteq> Some t"
    and par: "par = (if ignores_children s (parent (tasks s t)) then Some i else parent (tasks s t))"
  shows "\<exists>s'. terminate t code s = Some s' \<and> (\<exists>qs'. sched_inv s' qs') \<and>
    tree_ok s' (f_terminate t i (ignores_children s (parent (tasks s t))) cs) \<and>
    state (tasks s' t) = TASK_ZOMBIE \<and> exit_code (tasks s' t) = code \<and> pid (tasks s' t) = pid (tasks s t) \<and>
    (\<forall>p. par = Some p \<longrightarrow> p \<noteq> t \<longrightarrow> state (tasks s p) = TASK_BLOCKED \<longrightarrow> \<not> is_idle (tasks s p) \<longrightarrow>
       state (tasks s' p) = TASK_RUNNABLE) \<and>
    (\<forall>p. par = Some p \<longrightarrow> p \<noteq> t \<longrightarrow> state (tasks s p) \<notin> {TASK_UNUSED, TASK_ZOMBIE} \<longrightarrow>
       sigchld_handler (tasks s p) \<noteq> LINUX_SIG_IGN \<longrightarrow> sigchld_pending (tasks s' p))"
proof -
  define s1 where "s1 = upd_task t (exit_code_update (\<lambda>_. code)) s"
  have inv1: "sched_inv s1 qs" using inv by (simp add: s1_def sched_view_def)
  have tree1: "tree_ok s1 cs" using tree by (subst tree_ok_view [of _ s]) (simp_all add: s1_def tree_view_def)
  have "task_find_by_pid (pid (tasks s1 t)) s1 = Some t" "task_find_by_pid 1 s1 = Some i"
    using find init by (simp_all add: s1_def task_find_upd)
  with adopt_orphans_spec [OF tree1, of "pid (tasks s1 t)" t 1] \<open>i \<noteq> t\<close> obtain n s2 where
    ad: "process_adopt_orphans (pid (tasks s1 t)) 1 s1 = Some (n, s2)" and sb: "same_but_tree s1 s2"
    and tree2: "tree_ok s2 (f_adopt t (Some i) cs)" by auto
  have inv2: "sched_inv s2 qs" using inv1 same_but_tree_sched_inv [OF sb] by simp
  have p2: "parent (tasks s2 t) = parent (tasks s t)"
    using f_adopt_parent [OF tree1 tree2 \<open>i \<noteq> t\<close>] own by (simp add: s1_def)
  have i2: "task_find_by_pid 1 s2 = Some i"
    using init same_but_tree_find [OF sb] by (simp add: s1_def task_find_upd)
  have h2: "sigchld_handler (tasks s2 x) = sigchld_handler (tasks s x)" for x
    using same_but_treeD(5) [OF sb] by (simp add: s1_def)
  let ?re = "ignores_children s (parent (tasks s t))"
  define s3 where "s3 = (if ?re then task_child_link (Some i) t (task_child_unlink t s2) else s2)"
  have sb3: "same_but_tree s1 s3"
    using sb same_but_tree_trans [OF sb same_but_tree_trans [OF unlink_same_but_tree link_same_but_tree]]
    by (simp add: s3_def)
  have f3: "state (tasks s3 x) = state (tasks s x)" "pid (tasks s3 x) = pid (tasks s x)"
    "is_idle (tasks s3 x) = is_idle (tasks s x)" "sigchld_handler (tasks s3 x) = sigchld_handler (tasks s x)"
    "exit_code (tasks s3 t) = code" for x
    using same_but_treeD [OF sb3] by (simp_all add: s1_def)
  have inv3: "sched_inv s3 qs" using inv1 same_but_tree_sched_inv [OF sb3] by simp
  have tree3: "tree_ok s3 (f_terminate t i ?re cs)"
    using tree2 tree_link [OF tree_unlink [OF tree2]] by (simp add: s3_def f_terminate_def)
  define s4 where "s4 = scheduler_task_set_zombie t s3"
  have ni3: "\<not> is_idle (tasks s3 t)" using ni f3 by simp
  have inv4: "sched_inv s4 (q_remove t qs)" unfolding s4_def by (rule set_zombie_inv [OF inv3 ni3])
  have t4: "tree_view (tasks s4 x) = tree_view (tasks s3 x)" for x by (simp add: s4_def set_zombie_tree)
  have links3: "links_rel s3 qs" using inv3 by (simp add: sched_inv_def)
  have z: "state (tasks s4 x) = (if x = t then TASK_ZOMBIE else state (tasks s x))" for x
    using ni3 f3(1) same_but_linksD(1) [OF leave_queue_rel(2) [OF links3, of t]]
    by (simp add: s4_def scheduler_task_set_zombie_def)
  note u4 = unschedD [OF sched_unsched(1) [of t s3], folded s4_def]
  have trm: "terminate t code s = Some (process_notify_parent_sigchld par s4)"
  proof (cases "parent (tasks s t)")
    case None
    then show ?thesis using ad p2 i2 par
      by (simp add: terminate_def s1_def [symmetric] Let_def ignores_children_def s3_def s4_def)
  next
    case (Some p)
    then show ?thesis using ad p2 i2 par h2
      by (simp add: terminate_def s1_def [symmetric] Let_def ignores_children_def s3_def s4_def)
  qed
  show ?thesis
  proof (cases par)
    case None
    have "tree_ok s4 (f_terminate t i ?re cs)" using tree3 t4 tree_ok_view [of s4 s3] by simp
    then show ?thesis using trm inv4 None z u4(1,3) f3
      by (auto simp: process_notify_parent_sigchld_def)
  next
    case (Some p)
    note nt = notify_spec [OF inv4, where p = p]
    have tree5: "tree_ok (process_notify_parent_sigchld (Some p) s4) (f_terminate t i ?re cs)"
      using tree3 t4 nt(6) tree_ok_view [of _ s3] by (metis (no_types))
    have "state (tasks (process_notify_parent_sigchld (Some p) s4) t) = TASK_ZOMBIE"
      using nt(2) [of t] nt(3) z by (cases "p = t") auto
    then show ?thesis using trm Some tree5 nt(1,4,5) nt(7,8) z u4(1,3,6,7) f3
      by auto
  qed
qed

section \<open>Waiting\<close>

lemma wait_scan_spec:
  assumes tree: "tree_ok s cs" and "cs p = as @ xs"
  shows "wait_scan m s (hd_opt xs) b =
    Some (case find (\<lambda>x. m (tasks s x) \<and> state (tasks s x) = TASK_ZOMBIE) xs of
            Some x \<Rightarrow> (Some x, True)
          | None \<Rightarrow> (None, b \<or> list_ex (\<lambda>x. m (tasks s x)) xs))"
  using assms(2)
proof (induction xs arbitrary: as b)
  case Nil
  then show ?case by (simp add: wait_scan.simps)
next
  case (Cons x xs)
  have nx: "sibling_next (tasks s x) = hd_opt xs" by (rule tree_ok_facts(4) [OF tree Cons.prems])
  have "cs p = (as @ [x]) @ xs" using Cons.prems by simp
  note IH = Cons.IH [OF this]
  show ?case
    by (simp add: wait_scan.simps [of m s "Some x"] nx IH split: option.split)
qed

lemma clear_slot_inv:
  assumes inv: "sched_inv v qs" and off: "\<not> on_runqueue (tasks v t)" and st: "state (tasks v t) = TASK_UNUSED"
    and ni: "\<not> is_idle (tasks v t)" and nc: "\<And>c. c < SCHED_MAX_CPUS \<Longrightarrow> current (sched_cpus v c) \<noteq> Some t"
  shows "sched_inv (upd_task t (\<lambda>_. zero_task) v) qs"
proof -
  let ?w = "upd_task t (\<lambda>_. zero_task) v"
  have rel: "links_rel v qs" and run: "run_inv v" using inv by (simp_all add: sched_inv_def)
  have q: "queue_ok ?w c (qs c)" if "c < SCHED_MAX_CPUS" for c
  proof -
    have tn: "t \<notin> set (qs c)" using links_rel_off [OF rel off that] .
    have "dseg (\<lambda>x. rq_next (tasks ?w x)) (\<lambda>x. rq_prev (tasks ?w x)) (rq_head (sched_cpus v c)) None (qs c) =
      dseg (\<lambda>x. rq_next (tasks v x)) (\<lambda>x. rq_prev (tasks v x)) (rq_head (sched_cpus v c)) None (qs c)"
      by (intro dseg_cong) (use tn in auto)
    then show ?thesis using links_rel_queue [OF rel that] by (simp add: queue_ok_def del: fun_upd_apply)
  qed
  have "links_rel ?w qs" using rel off q unfolding links_rel_def by auto
  moreover have "run_inv ?w"
    unfolding run_inv_def
  proof (intro conjI)
    show "\<forall>c<SCHED_MAX_CPUS. \<forall>i. idle (sched_cpus ?w c) = Some i \<longrightarrow> is_idle (tasks ?w i)"
      using run ni by (auto simp: run_inv_def)
    show "\<forall>c<SCHED_MAX_CPUS. \<forall>x. current (sched_cpus ?w c) = Some x \<longrightarrow> \<not> is_idle (tasks ?w x) \<longrightarrow>
        assigned_cpu (tasks ?w x) = int c"
      using run nc by (auto simp: run_inv_def)
    show "\<forall>x. assigned_cpu (tasks ?w x) < int SCHED_MAX_CPUS"
      using run by (simp add: run_inv_def SCHED_MAX_CPUS_def)
  qed (use run in \<open>simp_all add: run_inv_def\<close>)
  ultimately show ?thesis by (simp add: sched_inv_def)
qed

text \<open>
  The contract of the file layer towards the process layer: closing the files of a process
  changes no task and no CPU structure.
\<close>

locale fd_release =
  fixes release_fds :: "int \<Rightarrow> 'a sched_scheme \<Rightarrow> 'a sched_scheme"
  assumes release_tasks: "tasks (release_fds p s) = tasks s"
    and release_cpus: "sched_cpus (release_fds p s) = sched_cpus s"
    and release_ready: "scheduler_ready (release_fds p s) = scheduler_ready s"
begin

lemma reap_tree:
  assumes "tree_ok s cs" "cs t = []"
  shows "tree_ok (reap release_fds t s) (f_unlink t cs)"
proof -
  let ?r = "release_fds (pid (tasks s t)) s"
  let ?u = "task_child_unlink t ?r"
  have "tree_ok ?r cs" using assms(1) tree_ok_view [of ?r s] by (simp add: release_tasks)
  then have u: "tree_ok ?u (f_unlink t cs)" by (rule tree_unlink)
  have "f_unlink t cs t = []" using assms(2) by (simp add: f_unlink_def)
  then have z: "first_child (tasks ?u t) = None" "parent (tasks ?u t) = None"
    "sibling_next (tasks ?u t) = None" "sibling_prev (tasks ?u t) = None"
    using tree_ok_facts(1) [OF u, of t] by (simp_all add: unlink_links)
  have "tree_view (tasks (reap release_fds t s) x) = tree_view (tasks ?u x)" for x
  proof (cases "x = t")
    case True
    then show ?thesis using z by (simp add: reap_def tree_view_def)
  next
    case False
    then show ?thesis using set_unused_tree [of t ?u x] by (simp add: reap_def)
  qed
  then have "tree_ok (reap release_fds t s) (f_unlink t cs) = tree_ok ?u (f_unlink t cs)" by (rule tree_ok_view)
  then show ?thesis using u by simp
qed

lemma reap_sched:
  assumes inv: "sched_inv s qs" and ni: "\<not> is_idle (tasks s t)" and nc: "not_current t s"
  shows "sched_inv (reap release_fds t s) (q_remove t qs)"
proof -
  let ?r = "release_fds (pid (tasks s t)) s"
  let ?u = "task_child_unlink t ?r"
  have r: "sched_inv ?r qs" using inv sched_inv_view [of ?r s] by (simp add: release_tasks release_cpus release_ready)
  have sb: "same_but_tree ?r ?u" by (rule unlink_same_but_tree)
  have u: "sched_inv ?u qs" using r same_but_tree_sched_inv [OF sb] by simp
  have niu: "\<not> is_idle (tasks ?u t)" using ni same_but_treeD(7) [OF sb] by (simp add: release_tasks)
  have ncu: "current (sched_cpus ?u c) \<noteq> Some t" if "c < SCHED_MAX_CPUS" for c
    using not_currentD [OF nc that] same_but_treeD(8) [OF sb] by (simp add: release_cpus)
  let ?v = "scheduler_task_set_unused t ?u"
  have v: "sched_inv ?v (q_remove t qs)" by (rule set_unused_inv [OF u niu ncu])
  have relv: "links_rel ?v (q_remove t qs)" and runv: "run_inv ?v" using v by (simp_all add: sched_inv_def)
  have links: "links_rel ?u qs" using u by (simp add: sched_inv_def)
  have off: "\<not> on_runqueue (tasks ?v t)" and st: "state (tasks ?v t) = TASK_UNUSED"
    using leave_queue_rel(3) [OF links, of t] niu by (simp_all add: scheduler_task_set_unused_def)
  have cv: "current (sched_cpus ?v c) \<noteq> Some t" if "c < SCHED_MAX_CPUS" for c
    using ncu [OF that] same_but_linksD(5) [OF leave_queue_rel(2) [OF links, of t]] niu
    by (simp add: scheduler_task_set_unused_def)
  have iv: "\<not> is_idle (tasks ?v t)"
    using niu unschedD(6) [OF sched_unsched(3) [of t ?u t]] by simp
  show ?thesis unfolding reap_def by (rule clear_slot_inv [OF v off st iv cv])
qed

end

context fd_release
begin

lemma wait_pid_spec:
  assumes inv: "sched_inv s qs" and tree: "tree_ok s cs" and cur: "cur = process_current_task s"
    and m: "m = wait_match p (tasks s cur)"
    and ni: "\<not> is_idle (tasks s cur)"
    and kids: "\<And>t. t \<in> set (cs cur) \<Longrightarrow> state (tasks s t) = TASK_ZOMBIE \<Longrightarrow>
      not_current t s \<and> cs t = [] \<and> \<not> is_idle (tasks s t)"
  shows "case find (\<lambda>t. m (tasks s t) \<and> state (tasks s t) = TASK_ZOMBIE) (cs cur) of
     Some t \<Rightarrow> \<exists>s'. process_wait_pid release_fds p options s =
         Some (Returned (pid (tasks s t)) (Some ((exit_code (tasks s t) mod 256) * 256)) s') \<and> s' = reap release_fds t s \<and>
       tree_ok s' (f_unlink t cs) \<and> sched_inv s' (q_remove t qs) \<and> tasks s' t = zero_task
   | None \<Rightarrow>
       if \<not> list_ex (\<lambda>t. m (tasks s t)) (cs cur) then process_wait_pid release_fds p options s = Some (Returned (-1) None s)
       else if options AND 1 \<noteq> 0 then process_wait_pid release_fds p options s = Some (Returned 0 None s)
       else \<exists>s' qs'. process_wait_pid release_fds p options s = Some (Sleeping s') \<and> sched_inv s' qs' \<and>
         running_task s' (scheduler_cpu_id s) \<noteq> Some cur"
proof (cases "find (\<lambda>t. m (tasks s t) \<and> state (tasks s t) = TASK_ZOMBIE) (cs cur)")
  case (Some t)
  then have t: "t \<in> set (cs cur)" "state (tasks s t) = TASK_ZOMBIE"
    by (auto simp: find_Some_iff)
  note k = kids [OF t]
  have st: "wait_status c = (c mod 256) * 256" for c
    using take_bit_eq_mask [of 8 c] by (simp add: wait_status_def push_bit_eq_mult take_bit_eq_mod mask_eq_exp_minus_1)
  show ?thesis
    using wait_scan_spec [OF tree, of cur "[]" "cs cur" m False] tree_ok_facts(1) [OF tree, of cur] Some
      reap_tree [OF tree, of t] reap_sched [OF inv, of t] k
    by (simp add: process_wait_pid_def Let_def cur [symmetric] m [symmetric] st) (simp add: reap_def)
next
  case None
  let ?b = "scheduler_task_set_blocked cur s"
  have b: "sched_inv ?b (q_remove cur qs)" by (rule set_blocked_inv [OF inv ni])
  have links: "links_rel s qs" and run: "run_inv s" using inv by (simp_all add: sched_inv_def)
  have cpu: "scheduler_cpu_id ?b = scheduler_cpu_id s"
    using same_but_linksD(9) [OF leave_queue_rel(2) [OF links, of cur]] ni by (simp add: scheduler_task_set_blocked_def)
  let ?c = "scheduler_cpu_id s"
  define q where "q = q_yield (q_remove cur qs ?c) (running_task ?b ?c)"
  have curr: "current (sched_cpus ?b ?c) = Some cur"
  proof -
    have "current (sched_cpus s ?c) \<noteq> None" "scheduler_ready s" using run by (simp_all add: run_inv_def)
    then have "current (sched_cpus s ?c) = Some cur"
      using cur by (auto simp: process_current_task_def scheduler_current_task_def)
    then show ?thesis using same_but_linksD(5) [OF leave_queue_rel(2) [OF links, of cur]] ni
      by (simp add: scheduler_task_set_blocked_def)
  qed
  have "state (tasks ?b cur) = TASK_BLOCKED" using ni by (simp add: scheduler_task_set_blocked_def)
  then have "running_task ?b ?c = None" using curr by (simp add: running_task_def)
  then have q: "q = q_remove cur qs ?c" by (simp add: q_def q_yield_def)
  have "cur \<notin> set q"
    using q links_rel_distinct [OF links, of ?c] by (simp add: q_remove_def)
  with yield_spec [OF b cpu [symmetric] q_def] have
    "\<exists>s'. scheduler_yield ?b = Some s' \<and> sched_inv s' ((q_remove cur qs)(?c := tl q)) \<and>
      running_task s' ?c \<noteq> Some cur"
    by (auto split: list.splits)
  then have "\<exists>s' qs'. wait_sleep cur s = Some (Sleeping s') \<and> sched_inv s' qs' \<and> running_task s' ?c \<noteq> Some cur"
    by (auto simp: wait_sleep_def)
  then show ?thesis
    using None wait_scan_spec [OF tree, of cur "[]" "cs cur" m False] tree_ok_facts(1) [OF tree, of cur]
    by (auto simp: process_wait_pid_def Let_def cur [symmetric] m [symmetric])
qed

end

text \<open>A small concrete system: process 2 runs, its parent is init, process 3 is its child.\<close>

definition demo_pids :: sched where
  "demo_pids = upd_task (TaskP 1) (pid_update (\<lambda>_. 1)) (upd_task (TaskP 0) (pid_update (\<lambda>_. 2))
     (upd_task (TaskP 2) (pid_update (\<lambda>_. 3)) demo_sched))"

definition demo_tree :: sched where
  "demo_tree = task_child_link (Some (TaskP 0)) (TaskP 2) (task_child_link (Some (TaskP 1)) (TaskP 0) demo_pids)"

lemma demo_sched_tree_view: "tree_view (tasks demo_sched x) = (None, None, None, None)"
proof -
  have b: "tree_view (tasks (fold (init_cpu st lp cr) [0..<n] (boot_sched ())) x) = (None, None, None, None)" for st lp cr n
    by (induction n) (auto simp: tree_view_def init_cpu_def boot_sched_def)
  then have "tree_view (tasks demo_boot x) = (None, None, None, None)"
    by (simp add: demo_boot_def scheduler_init_def boot_sched_def)
  then have "tree_view (tasks demo_run x) = (None, None, None, None)"
    by (cases "x = TaskP 0") (simp_all add: demo_run_def scheduler_set_boot_current_def demo_boot_facts tree_view_def)
  then show ?thesis
    by (simp add: demo_sched_def unschedD(11) [OF sched_unsched(4)])
qed

definition demo_forest :: forest where
  "demo_forest = (\<lambda>_. [])(TaskP 1 := [TaskP 0], TaskP 0 := [TaskP 2])"

lemma demo_tree_ok: "tree_ok demo_tree demo_forest"
proof -
  have "tree_view (tasks demo_pids x) = (None, None, None, None)" for x
    using demo_sched_tree_view [of x] by (auto simp: demo_pids_def tree_view_def)
  then have "tree_ok demo_pids (\<lambda>_. [])"
    by (simp add: tree_ok_def tree_view_def)
  then have "tree_ok demo_tree (f_link (Some (TaskP 0)) (TaskP 2) (f_link (Some (TaskP 1)) (TaskP 0) (\<lambda>_. [])))"
    unfolding demo_tree_def by (intro tree_link)
  moreover have "f_link (Some (TaskP 0)) (TaskP 2) (f_link (Some (TaskP 1)) (TaskP 0) (\<lambda>_. [])) = demo_forest"
    by (rule ext) (simp add: f_link_def f_unlink_def demo_forest_def)
  ultimately show ?thesis by simp
qed

lemma demo_tree_sched: "sched_inv demo_tree ((\<lambda>_. [])(0 := [TaskP 1, TaskP 2]))"
proof -
  have "sched_inv demo_pids ((\<lambda>_. [])(0 := [TaskP 1, TaskP 2]))"
    using demo_sched_reach(2) by (simp add: demo_pids_def sched_view_def)
  then show ?thesis
    unfolding demo_tree_def
    using same_but_tree_sched_inv [OF link_same_but_tree [of demo_pids "Some (TaskP 1)" "TaskP 0"]]
      same_but_tree_sched_inv [OF link_same_but_tree [of "task_child_link (Some (TaskP 1)) (TaskP 0) demo_pids"
        "Some (TaskP 0)" "TaskP 2"]]
    by blast
qed

lemma demo_sched_states:
  "state (tasks demo_sched (TaskP i)) =
     (if i = 0 then TASK_RUNNING else if i = 1 \<or> i = 2 then TASK_RUNNABLE else TASK_UNUSED)"
  "current (sched_cpus demo_sched 0) = Some (TaskP 0)" "scheduler_ready demo_sched"
  "\<not> is_idle (tasks demo_sched (TaskP i))"
proof -
  have inv: "run_inv demo_sched" "links_rel demo_run (\<lambda>_. [])"
    using demo_sched_reach(2) demo_run_reach(2) by (simp_all add: sched_inv_def)
  let ?d = "scheduler_task_make_runnable (TaskP 1) 0 demo_run"
  have ni: "\<not> is_idle (tasks demo_run (TaskP j))" for j using demo_run_facts(1) [of j] by simp
  have ni1: "\<not> is_idle (tasks ?d (TaskP j))" for j
    using ni unschedD(6) [OF sched_unsched(4) [of "TaskP 1" 0 demo_run "TaskP j"]] by simp
  have rel1: "links_rel ?d (q_push (cpu_by_id 0) (TaskP 1) (q_remove (TaskP 1) (\<lambda>_. [])))"
    by (rule make_runnable_rel [OF inv(2) ni])
  note f = make_runnable_fields(1,5,7) [OF inv(2) ni [of 1], where i = 0]
  note g = make_runnable_fields(1,5,7) [OF rel1 ni1 [of 2], where i = 0, folded demo_sched_def]
  show "state (tasks demo_sched (TaskP i)) =
      (if i = 0 then TASK_RUNNING else if i = 1 \<or> i = 2 then TASK_RUNNABLE else TASK_UNUSED)"
    unfolding g(1) f(1) using demo_run_facts(1) [of i] demo_run_facts(1) [of 0] by simp
  show "current (sched_cpus demo_sched 0) = Some (TaskP 0)" unfolding g(2) f(2) by (rule demo_run_facts(2))
  show "scheduler_ready demo_sched" "\<not> is_idle (tasks demo_sched (TaskP i))" using inv by (simp_all add: run_inv_def)
qed

lemma demo_tree_facts:
  "state (tasks demo_tree (TaskP i)) = state (tasks demo_sched (TaskP i))"
  "pid (tasks demo_tree (TaskP i)) =
     (if i = 0 then 2 else if i = 1 then 1 else if i = 2 then 3 else pid (tasks demo_sched (TaskP i)))"
  "\<not> is_idle (tasks demo_tree (TaskP i))" "process_current_task demo_tree = TaskP 0"
  "sigchld_handler (tasks demo_tree x) = sigchld_handler (tasks demo_sched x)"
  "exit_code (tasks demo_tree x) = exit_code (tasks demo_sched x)"
proof -
  let ?a = "task_child_link (Some (TaskP 1)) (TaskP 0) demo_pids"
  note sb = same_but_treeD [OF link_same_but_tree [of demo_pids "Some (TaskP 1)" "TaskP 0"]]
    and sb2 = same_but_treeD [OF link_same_but_tree [of ?a "Some (TaskP 0)" "TaskP 2"], folded demo_tree_def]
  show "state (tasks demo_tree (TaskP i)) = state (tasks demo_sched (TaskP i))"
    "pid (tasks demo_tree (TaskP i)) =
     (if i = 0 then 2 else if i = 1 then 1 else if i = 2 then 3 else pid (tasks demo_sched (TaskP i)))"
    "\<not> is_idle (tasks demo_tree (TaskP i))"
    "sigchld_handler (tasks demo_tree x) = sigchld_handler (tasks demo_sched x)"
    "exit_code (tasks demo_tree x) = exit_code (tasks demo_sched x)"
    unfolding sb2 sb using demo_sched_states(4) by (auto simp: demo_pids_def)
  have "scheduler_cpu_id demo_tree = 0" "sched_cpus demo_tree = sched_cpus demo_sched"
    "scheduler_ready demo_tree"
    unfolding sb2 sb by (simp_all add: demo_pids_def demo_sched_reach demo_sched_states)
  then show "process_current_task demo_tree = TaskP 0"
    by (simp add: process_current_task_def scheduler_current_task_def demo_sched_states)
qed

lemma first_idx_eval:
  "first_idx p lo hi = (if hi \<le> lo then None else if p lo then Some lo else first_idx p (Suc lo) hi)"
  by (simp add: first_idx_def upt_conv_Cons)

lemma demo_tree_find:
  "task_find_by_pid 1 demo_tree = Some (TaskP 1)" "task_find_by_pid 2 demo_tree = Some (TaskP 0)"
  by (simp_all add: task_find_by_pid_def first_idx_eval [of _ 0] first_idx_eval [of _ "Suc 0"]
      demo_tree_facts demo_sched_states PROC_MAX_TASKS_def)

lemma demo_sched_sigchld: "sigchld_handler (tasks demo_sched (TaskP i)) = 0"
proof -
  have "sigchld_handler (tasks demo_run (TaskP i)) = 0"
    using demo_run_facts(1) [of i] by (simp add: zero_task_def)
  then show ?thesis by (simp add: demo_sched_def unschedD(7) [OF sched_unsched(4)])
qed

text \<open>
  C7: Exit. A process other than init that exits becomes a zombie with its exit code and stays
  in the table for its parent; all its children become children of init, in front of init's
  own; if its parent ignores SIGCHLD, it becomes itself a child of init. The parent, if it was
  asleep, is runnable, and SIGCHLD is pending for it unless it ignores the signal. The routine
  returns, and the forest and the run queues stay well formed.
\<close>
theorem exit_current_spec:
  assumes "sched_inv s qs" "tree_ok s cs" "cur = process_current_task s" "\<not> is_idle (tasks s cur)"
    and "pid (tasks s cur) \<noteq> 1" "task_find_by_pid (pid (tasks s cur)) s = Some cur"
    and "task_find_by_pid 1 s = Some i" "parent (tasks s cur) \<noteq> Some cur"
    and "par = (if ignores_children s (parent (tasks s cur)) then Some i else parent (tasks s cur))"
  shows "\<exists>s'. process_exit_current code s = Some (Exited s') \<and> (\<exists>qs'. sched_inv s' qs') \<and>
    tree_ok s' (f_terminate cur i (ignores_children s (parent (tasks s cur))) cs) \<and>
    state (tasks s' cur) = TASK_ZOMBIE \<and> exit_code (tasks s' cur) = code \<and>
    (\<forall>p. par = Some p \<longrightarrow> p \<noteq> cur \<longrightarrow> state (tasks s p) = TASK_BLOCKED \<longrightarrow> \<not> is_idle (tasks s p) \<longrightarrow>
       state (tasks s' p) = TASK_RUNNABLE) \<and>
    (\<forall>p. par = Some p \<longrightarrow> p \<noteq> cur \<longrightarrow> state (tasks s p) \<notin> {TASK_UNUSED, TASK_ZOMBIE} \<longrightarrow>
       sigchld_handler (tasks s p) \<noteq> LINUX_SIG_IGN \<longrightarrow> sigchld_pending (tasks s' p))"
proof -
  have "pid (tasks s i) = 1" using assms(7) by (auto simp: task_find_by_pid_def dest: first_idx_SomeD)
  then have "i \<noteq> cur" using assms(5) by auto
  from terminate_spec [OF assms(1,2,4,6,7) this assms(8,9), of code] assms(3,5) show ?thesis
    by (auto simp: process_exit_current_def Let_def)
qed

theorem exit_current_spec_witness:
  "\<exists>s'. process_exit_current 7 demo_tree = Some (Exited s') \<and> exit_code (tasks s' (TaskP 0)) = 7 \<and>
    state (tasks s' (TaskP 0)) = TASK_ZOMBIE \<and> tree_ok s' ((\<lambda>_. [])(TaskP 1 := [TaskP 2, TaskP 0]))"
proof -
  have par: "parent (tasks demo_tree (TaskP 0)) = Some (TaskP 1)"
    using tree_ok_facts(3) [OF demo_tree_ok, of "TaskP 0" "TaskP 1"] by (simp add: demo_forest_def)
  then have ig: "\<not> ignores_children demo_tree (parent (tasks demo_tree (TaskP 0)))"
    using demo_sched_sigchld by (simp add: ignores_children_def demo_tree_facts LINUX_SIG_IGN_def)
  have "f_terminate (TaskP 0) (TaskP 1) False demo_forest = (\<lambda>_. [])(TaskP 1 := [TaskP 2, TaskP 0])"
    by (rule ext) (simp add: f_terminate_def f_adopt_def demo_forest_def)
  with exit_current_spec [OF demo_tree_sched demo_tree_ok demo_tree_facts(4) [symmetric], of "TaskP 1", OF _ _ _ _ _ refl, of 7]
  show ?thesis using par ig by (auto simp: demo_tree_facts demo_tree_find)
qed

lemma kill_pid_effect:
  assumes "sched_inv s qs" "tree_ok s cs" "task_find_by_pid 1 s = Some i"
    and "\<And>t. task_find_by_pid p s = Some t \<Longrightarrow> \<not> is_idle (tasks s t) \<and> parent (tasks s t) \<noteq> Some t"
  shows "if p = 1 \<or> task_find_by_pid p s = None then process_kill_pid p code s = Some (-1, s)
    else \<exists>t s'. task_find_by_pid p s = Some t \<and> process_kill_pid p code s = Some (0, s') \<and>
      state (tasks s' t) = TASK_ZOMBIE \<and> exit_code (tasks s' t) = code \<and> pid (tasks s' t) = p \<and>
      (\<exists>qs'. sched_inv s' qs') \<and>
      tree_ok s' (f_terminate t i (ignores_children s (parent (tasks s t))) cs)"
proof (cases "p = 1 \<or> task_find_by_pid p s = None")
  case True
  then show ?thesis using assms(3) by (auto simp: process_kill_pid_def)
next
  case False
  then obtain t where t: "task_find_by_pid p s = Some t" by auto
  have pids: "pid (tasks s t) = p" "pid (tasks s i) = 1"
    using t assms(3) by (auto simp: task_find_by_pid_def dest: first_idx_SomeD)
  then have "i \<noteq> t" using False by auto
  from terminate_spec [OF assms(1,2) _ _ assms(3) this _ refl, of code] assms(4) [OF t] t pids False
  show ?thesis by (auto simp: process_kill_pid_def)
qed

text \<open>
  Kill. Killing a process other than init by its pid has the same effect on it, its
  children and its parent as its own exit with that code; init and unknown pids are refused
  with \<open>-1\<close> and nothing changes.
\<close>
theorem kill_pid_spec:
  assumes "sched_inv s qs" "tree_ok s cs" "task_find_by_pid 1 s = Some i"
    and "\<And>t. task_find_by_pid p s = Some t \<Longrightarrow> \<not> is_idle (tasks s t) \<and> parent (tasks s t) \<noteq> Some t"
  shows "if p = 1 \<or> task_find_by_pid p s = None then process_kill_pid p code s = Some (-1, s)
    else \<exists>t s'. task_find_by_pid p s = Some t \<and> process_kill_pid p code s = Some (0, s') \<and>
      state (tasks s' t) = TASK_ZOMBIE \<and> exit_code (tasks s' t) = code \<and> pid (tasks s' t) = p \<and>
      (\<exists>qs'. sched_inv s' qs') \<and>
      tree_ok s' (f_terminate t i (ignores_children s (parent (tasks s t))) cs)"
  using assms by (rule kill_pid_effect)

theorem kill_pid_spec_witness:
  "\<exists>s'. process_kill_pid 2 137 demo_tree = Some (0, s') \<and> state (tasks s' (TaskP 0)) = TASK_ZOMBIE"
proof -
  have "parent (tasks demo_tree (TaskP 0)) = Some (TaskP 1)"
    using tree_ok_facts(3) [OF demo_tree_ok, of "TaskP 0" "TaskP 1"] by (simp add: demo_forest_def)
  with kill_pid_spec [OF demo_tree_sched demo_tree_ok demo_tree_find(1), of 2 137] show ?thesis
    by (auto simp: demo_tree_facts demo_tree_find)
qed

section \<open>Credentials\<close>

datatype cred_call =
  CallSetuid u32 | CallSetgid u32 | CallSetreuid u32 u32 | CallSetregid u32 u32 | CallUmask u32 | CallSetsid

fun cred_do :: "cred_call \<Rightarrow> 'a sched_scheme \<Rightarrow> 'a sched_scheme" where
  "cred_do (CallSetuid u) s = snd (process_setuid u s)"
| "cred_do (CallSetgid g) s = snd (process_setgid g s)"
| "cred_do (CallSetreuid r e) s = snd (process_setreuid r e s)"
| "cred_do (CallSetregid r e) s = snd (process_setregid r e s)"
| "cred_do (CallUmask m) s = snd (process_set_umask m s)"
| "cred_do CallSetsid s = snd (process_setsid s)"

lemma process_current_upd [simp]: "process_current_task (upd_task t f s) = process_current_task s"
  by (simp add: process_current_task_def scheduler_current_task_def scheduler_cpu_local_def
      split: option.split)

definition uids :: "task \<Rightarrow> u32 set" where "uids t = {uid t, euid t}"
definition gids :: "task \<Rightarrow> u32 set" where "gids t = {gid t, egid t}"

lemma cred_do_step:
  assumes "cur = process_current_task s" "0 \<notin> uids (tasks s cur)"
  shows "process_current_task (cred_do c s) = cur" "uids (tasks (cred_do c s) cur) \<subseteq> uids (tasks s cur)"
    "gids (tasks (cred_do c s) cur) \<subseteq> gids (tasks s cur)" "x \<noteq> cur \<Longrightarrow> tasks (cred_do c s) x = tasks s x"
  using assms
  by (cases c; auto simp: uids_def gids_def process_setuid_def process_setgid_def process_setreuid_def
      process_setregid_def process_set_umask_def process_setsid_def Let_def split: if_splits)+

text \<open>
  C15: No privilege escalation. A process none of whose user ids is root cannot acquire any user
  or group id it does not hold: after any sequence of setuid, setgid, setreuid, setregid, umask
  and setsid calls its ids are among those it had, and no other task has changed.
\<close>
theorem credentials_confined:
  assumes "cur = process_current_task s" "0 \<notin> uids (tasks s cur)"
  shows "uids (tasks (fold cred_do calls s) cur) \<subseteq> uids (tasks s cur) \<and>
    gids (tasks (fold cred_do calls s) cur) \<subseteq> gids (tasks s cur) \<and>
    process_current_task (fold cred_do calls s) = cur \<and>
    (\<forall>x. x \<noteq> cur \<longrightarrow> tasks (fold cred_do calls s) x = tasks s x)"
  using assms
proof (induction calls arbitrary: s)
  case (Cons c calls)
  note st = cred_do_step [OF Cons.prems, where c = c]
  have "0 \<notin> uids (tasks (cred_do c s) cur)" using st(2) Cons.prems(2) by blast
  from Cons.IH [OF st(1) [symmetric] this] st show ?case by auto
qed simp

theorem credentials_confined_witness:
  "uids (tasks (fold cred_do [CallSetreuid 1000 0, CallSetuid 0, CallSetgid 0]
     (upd_task (TaskP 0) (\<lambda>t. t\<lparr>uid := 1000, euid := 1000, gid := 5, egid := 5\<rparr>) demo_tree)) (TaskP 0)) \<subseteq> {1000}"
proof -
  let ?s = "upd_task (TaskP 0) (\<lambda>t. t\<lparr>uid := 1000, euid := 1000, gid := 5, egid := 5\<rparr>) demo_tree"
  have "TaskP 0 = process_current_task ?s" "0 \<notin> uids (tasks ?s (TaskP 0))" "uids (tasks ?s (TaskP 0)) = {1000}"
    by (simp_all add: demo_tree_facts uids_def)
  with credentials_confined [OF this(1,2), of "[CallSetreuid 1000 0, CallSetuid 0, CallSetgid 0]"]
  show ?thesis by simp
qed

section \<open>Page tables\<close>

text \<open>
  The user windows of an address space: the page directory entries that map the task's own
  regions and the framebuffer.
\<close>

definition own_page :: "layout \<Rightarrow> nat \<Rightarrow> u64 \<Rightarrow> bool" where
  "own_page L idx a \<longleftrightarrow>
     (\<exists>p < USER_LOW_PDE_CNT. a = low_addr L idx + push_bit 21 (word_of_nat p)) \<or>
     a = text_addr L idx \<or> a = stack_addr L idx \<or>
     (\<exists>p < USER_HEAP_PDE_CNT. a = heap_addr L idx + push_bit 21 (word_of_nat p)) \<or>
     (\<exists>p < USER_HEAP_EXT_PDE_CNT. a = heap_ext_addr L idx + push_bit 21 (word_of_nat p)) \<or>
     (\<exists>p < USER_BIGPIE_PDE_CNT. a = bigpie_addr L idx + push_bit 21 (word_of_nat p))"

definition fb_page :: "(u64 \<times> nat) option \<Rightarrow> u64 \<Rightarrow> bool" where
  "fb_page fb a \<longleftrightarrow>
     (\<exists>phys n p. fb = Some (phys, n) \<and> p < min n USER_FBDEV_MAX_PAGES \<and> a = phys + push_bit 21 (word_of_nat p))"

definition uflags :: u64 where
  "uflags = PAGE_PRESENT OR PAGE_WRITE OR PAGE_USER OR PAGE_PS"

lemma overlay_cases:
  "overlay start cnt entry pd i = pd i \<or> (\<exists>p < cnt. overlay start cnt entry pd i = entry p)"
proof (cases "start \<le> i \<and> i < start + cnt \<and> i < 512")
  case True
  then have "i - start < cnt" by auto
  with True show ?thesis by (auto simp: overlay_def)
qed (auto simp: overlay_def)

lemma user_pd0_cases:
  "user_pd0 L fb idx pd i = pd i \<or>
   (\<exists>a. user_pd0 L fb idx pd i = a OR uflags \<and> (own_page L idx a \<or> fb_page fb a))"
proof -
  let ?pg = "\<lambda>a p. (a + push_bit 21 (word_of_nat p)) OR uflags"
  define good where "good e \<longleftrightarrow> (\<exists>a. e = a OR uflags \<and> (own_page L idx a \<or> fb_page fb a))" for e
  define ok where "ok q \<longleftrightarrow> q i = pd i \<or> good (q i)" for q
  have step: "ok (overlay st n (?pg a) q)" if "\<And>p. p < n \<Longrightarrow> good (?pg a p)" "ok q" for st n a q
    using overlay_cases [of st n "?pg a" q i] that by (auto simp: ok_def)
  have base: "ok pd" by (simp add: ok_def)
  have g: "p < USER_LOW_PDE_CNT \<Longrightarrow> good (?pg (low_addr L idx) p)"
    "p < 1 \<Longrightarrow> good (?pg (text_addr L idx) p)" "p < 1 \<Longrightarrow> good (?pg (stack_addr L idx) p)"
    "p < USER_HEAP_PDE_CNT \<Longrightarrow> good (?pg (heap_addr L idx) p)"
    "p < USER_HEAP_EXT_PDE_CNT \<Longrightarrow> good (?pg (heap_ext_addr L idx) p)"
    "p < USER_BIGPIE_PDE_CNT \<Longrightarrow> good (?pg (bigpie_addr L idx) p)"
    "fb = Some (ph, n) \<Longrightarrow> p < min n USER_FBDEV_MAX_PAGES \<Longrightarrow> good (?pg ph p)" for p ph n
    unfolding good_def own_page_def fb_page_def by (auto simp del: One_nat_def)
  have "ok (user_pd0 L fb idx pd)"
  proof (cases fb)
    case None
    show ?thesis unfolding user_pd0_def Let_def uflags_def [symmetric] None option.case
      by (intro step base g)
  next
    case (Some w)
    obtain ph n where w: "w = (ph, n)" by (cases w)
    show ?thesis unfolding user_pd0_def Let_def uflags_def [symmetric] Some option.case w prod.case
      by (intro step base g) (auto simp: Some w)
  qed
  then show ?thesis by (simp add: ok_def good_def)
qed

lemma and_4_take_bit: "take_bit 21 (w :: u64) = 0 \<Longrightarrow> w AND 4 = 0"
proof (rule bit_eqI)
  fix n assume z: "take_bit 21 w = 0"
  show "bit (w AND 4) n \<longleftrightarrow> bit 0 n"
  proof (cases "n = 2")
    case True
    have "bit (take_bit 21 w) 2 = bit w 2" by (simp add: bit_take_bit_iff)
    with z True show ?thesis by (simp add: bit_and_iff)
  next
    case False
    have "bit (4 :: u64) n \<longleftrightarrow> n = 2"
      using bit_exp_iff [where 'a = "64 word", of 2 n] by (simp add: possible_bit_def) auto
    with False show ?thesis by (simp add: bit_and_iff)
  qed
qed

lemma take_bit_page:
  "take_bit 21 (push_bit 21 (w :: u64)) = 0" "take_bit 21 (push_bit 30 (w :: u64)) = 0"
  by (simp_all add: take_bit_push_bit)

lemma take_bit_sum_0:
  fixes a b :: u64
  shows "take_bit 21 a = 0 \<Longrightarrow> take_bit 21 b = 0 \<Longrightarrow> take_bit 21 (a + b) = 0"
  by (simp add: take_bit_eq_0_iff)

lemma page_flags_user:
  assumes "take_bit 21 (a :: u64) = 0"
  shows "(a OR (PAGE_PRESENT OR PAGE_WRITE OR PAGE_PS)) AND PAGE_USER = 0"
proof -
  have "(a OR 0x83) AND 4 = (a AND 4) OR (0x83 AND 4)" by (rule bit.conj_disj_distrib2)
  also have "\<dots> = 0" using and_4_take_bit [OF assms] by simp
  finally show ?thesis by (simp add: PAGE_PRESENT_def PAGE_WRITE_def PAGE_PS_def PAGE_USER_def)
qed

lemma identity_pde_user:
  assumes "base = push_bit 30 (word_of_nat pdi) + push_bit 21 (word_of_nat i)"
    and "identity_pde L True pdi i AND PAGE_USER \<noteq> 0"
  shows "identity_pde L True pdi i = base OR uflags \<and> (base + 0x200000 \<le> kernel_start L \<or> kernel_end L \<le> base)"
proof -
  have al: "take_bit 21 base = 0" unfolding assms(1) by (intro take_bit_sum_0 take_bit_page)
  have "base + 0x200000 \<le> kernel_start L \<or> kernel_end L \<le> base"
    using assms(2) page_flags_user [OF al] by (auto simp: identity_pde_def Let_def assms(1) split: if_splits)
  moreover have "(PAGE_PRESENT OR PAGE_WRITE OR PAGE_PS) OR PAGE_USER = uflags"
    by (simp add: uflags_def model_simps)
  ultimately show ?thesis by (simp add: identity_pde_def Let_def assms(1) [symmetric])
qed

text \<open>
  C14: Memory isolation of address spaces. In the page directories built for a user task, every
  entry a user program may access maps one of the task's own regions, the framebuffer window,
  or a 2 MiB page that does not overlap the kernel image; so no user program reaches kernel
  memory or the regions of another task through them. The tables of other slots are kept.
  (The framebuffer remapping is 2 MiB aligned.)
\<close>
theorem address_space_isolated:
  assumes "idx < USER_AS_MAX_TASKS" "pdi < 4" "i < 512"
    and remap: "\<And>phys n v. fb_remap s = Some (phys, n, v) \<Longrightarrow> take_bit 21 phys = 0"
    and e: "e = g_pd (task_build_address_space L (TaskP idx) True s) idx pdi i" and user: "e AND PAGE_USER \<noteq> 0"
    and base: "base = push_bit 30 (word_of_nat pdi) + push_bit 21 (word_of_nat i)"
  shows "((\<exists>a. e = a OR uflags \<and> (own_page L idx a \<or> fb_page (fb_window s) a)) \<or>
      e = base OR uflags \<and> (base + 0x200000 \<le> kernel_start L \<or> kernel_end L \<le> base)) \<and>
    (\<forall>j. j \<noteq> idx \<longrightarrow> g_pd (task_build_address_space L (TaskP idx) True s) j = g_pd s j)"
proof -
  define pd where "pd = (\<lambda>pdi i. if pdi < 4 \<and> i < 512 then identity_pde L True pdi i else 0)"
  define pd' where "pd' = pd(0 := user_pd0 L (fb_window s) idx (pd 0))"
  have e1: "e = (case fb_remap s of None \<Rightarrow> pd' pdi i
      | Some (phys, n, v) \<Rightarrow> (pd'(3 := overlay (unat (ucast (drop_bit 21 (v - 0xC0000000)) :: u32)) n
          (\<lambda>i. (phys + push_bit 21 (word_of_nat i)) OR (PAGE_PRESENT OR PAGE_WRITE OR PAGE_PS)) (pd' 3))) pdi i)"
    using assms(1) unfolding e pd'_def pd_def
    by (simp add: task_build_address_space_def task_index_def upd_task_def Let_def split: option.split)
  have "e = pd' pdi i"
  proof (cases "fb_remap s")
    case (Some w)
    obtain phys n v where w: "w = (phys, n, v)" by (cases w)
    have "take_bit 21 (phys + push_bit 21 (word_of_nat k)) = 0" for k
      using remap Some w by (intro take_bit_sum_0 take_bit_page) simp_all
    note nouser = page_flags_user [OF this]
    show ?thesis
      using e1 user nouser overlay_cases [of "unat (ucast (drop_bit 21 (v - 0xC0000000)) :: u32)" n
          "\<lambda>i. (phys + push_bit 21 (word_of_nat i)) OR (PAGE_PRESENT OR PAGE_WRITE OR PAGE_PS)" "pd' 3" i]
      by (auto simp: Some w)
  qed (use e1 in simp)
  moreover have "pd' pdi i = pd pdi i \<or>
      (\<exists>a. pd' pdi i = a OR uflags \<and> (own_page L idx a \<or> fb_page (fb_window s) a))"
    using user_pd0_cases [of L "fb_window s" idx "pd 0" i] by (auto simp: pd'_def)
  ultimately have "(\<exists>a. e = a OR uflags \<and> (own_page L idx a \<or> fb_page (fb_window s) a)) \<or>
      e = base OR uflags \<and> (base + 0x200000 \<le> kernel_start L \<or> kernel_end L \<le> base)"
    using identity_pde_user [OF base, of L] user assms(2,3) by (auto simp: pd_def)
  moreover have "g_pd (task_build_address_space L (TaskP idx) True s) j = g_pd s j" if "j \<noteq> idx" for j
    using that by (simp add: task_build_address_space_def task_index_def upd_task_def Let_def)
  ultimately show ?thesis by blast
qed

definition demo_layout :: layout where
  "demo_layout =
     \<lparr>kernel_start = 0x8000000, kernel_end = 0x48800000, pml4_addr = \<lambda>i. 0, pdpt_addr = \<lambda>i. 0, pd_addr = \<lambda>i j. 0,
      kstack_addr = \<lambda>i. 0x8800000, low_addr = \<lambda>i. 0x40000000, text_addr = \<lambda>i. 0x9000000, stack_addr = \<lambda>i. 0x9200000,
      heap_addr = \<lambda>i. 0x10000000, heap_ext_addr = \<lambda>i. 0x18000000, bigpie_addr = \<lambda>i. 0x1A000000,
      fork_tf_addr = \<lambda>i. 0, argv_addr = \<lambda>i. 0, envp_addr = \<lambda>i. 0, ret_from_fork_addr = 0x8001000,
      enter_user_addr = 0x8002000, idle_stack_addr = \<lambda>i. 0x8003000, idle_loop_addr = 0x8004000, boot_cr3_val = 0x1000\<rparr>"

definition demo_proc :: proc where
  "demo_proc = sched.extend demo_tree
     \<lparr>next_pid = 4, g_pml4 = \<lambda>_ _. 0, g_pdpt = \<lambda>_ _. 0, g_pd = \<lambda>_ _ _. 0, user_low = \<lambda>_ _. 0, user_text = \<lambda>_ _. 9,
      user_stack = \<lambda>_ _. 0, user_heap = \<lambda>_ _. 3, user_heap_ext = \<lambda>_ _. 0, user_bigpie = \<lambda>_ _. 0,
      fb_window = None, fb_remap = None\<rparr>"

theorem address_space_isolated_witness:
  "\<exists>a. g_pd (task_build_address_space demo_layout (TaskP 0) True demo_proc) 0 0 256 = a OR uflags \<and>
     (own_page demo_layout 0 a \<or> fb_page (fb_window demo_proc) a)"
proof -
  have e: "g_pd (task_build_address_space demo_layout (TaskP 0) True demo_proc) 0 0 256 = 0x9000000 OR uflags"
    by (simp add: task_build_address_space_def task_index_def upd_task_def demo_proc_def sched.defs demo_layout_def
        USER_AS_MAX_TASKS_def user_pd0_def overlay_def pd_index_def uflags_def Let_def model_simps)
  have "(push_bit 30 (word_of_nat 0) + push_bit 21 (word_of_nat 256) :: u64) = 0x20000000" by simp
  moreover have "(0x9000000 OR uflags :: u64) \<noteq> 0x20000000 OR uflags" "(0x9000000 OR uflags) AND PAGE_USER \<noteq> 0"
    by (simp_all add: uflags_def model_simps)
  moreover have "fb_remap demo_proc = None" by (simp add: demo_proc_def sched.defs)
  ultimately show ?thesis
    unfolding e using address_space_isolated [of 0 0 256 demo_proc _ demo_layout, OF _ _ _ _ e [symmetric]]
    by (auto simp: USER_AS_MAX_TASKS_def)
qed

section \<open>Fork\<close>

text \<open>What a process sees of its memory: the six regions of a slot.\<close>

definition memory_of :: "'a proc_scheme \<Rightarrow> nat \<Rightarrow> region \<times> region \<times> region \<times> region \<times> region \<times> region" where
  "memory_of s i = (user_low s i, user_text s i, user_stack s i, user_heap s i, user_heap_ext s i, user_bigpie s i)"

definition same_memory :: "u64 \<times> u64 \<Rightarrow> 'a proc_scheme \<Rightarrow> nat \<Rightarrow> 'a proc_scheme \<Rightarrow> nat \<Rightarrow> bool" where
  "same_memory sp s i s' j \<longleftrightarrow>
     (\<forall>k < unat USER_LOW_SIZE. user_low s' j k = user_low s i k) \<and>
     (\<forall>k < unat USER_REGION_SIZE. user_text s' j k = user_text s i k) \<and>
     (\<forall>k < unat USER_REGION_SIZE. user_stack s' j k = user_stack s i k) \<and>
     (\<forall>k < unat USER_HEAP_SIZE. user_heap s' j k = (if k < unat (fst sp) then user_heap s i k else 0)) \<and>
     (\<forall>k < unat USER_HEAP_EXT_SIZE. user_heap_ext s' j k = (if k < unat (snd sp) then user_heap_ext s i k else 0))"

lemma memory_upd_task [simp]:
  "memory_of (upd_task t f s) i = memory_of s i" "next_pid (upd_task t f s) = next_pid s"
  "fb_window (upd_task t f s) = fb_window s" "fb_remap (upd_task t f s) = fb_remap s"
  by (simp_all add: memory_of_def upd_task_def)

lemma memory_upd_cpu [simp]: "memory_of (upd_cpu c f s) i = memory_of s i" "next_pid (upd_cpu c f s) = next_pid s"
  by (simp_all add: memory_of_def upd_cpu_def)

lemma memory_blocked [simp]:
  "memory_of (scheduler_task_set_blocked t s) i = memory_of s i"
  "next_pid (scheduler_task_set_blocked t s) = next_pid s"
  by (simp_all add: scheduler_task_set_blocked_def leave_queue_def rq_remove_locked_def Let_def split: option.split)

lemma memory_same_but_tree:
  assumes "same_but_tree s s'"
  shows "memory_of s' i = memory_of s i" "next_pid s' = next_pid s"
proof -
  have e: "s'\<lparr>tasks := tasks s\<rparr> = s" using assms by (simp add: same_but_tree_def)
  show "memory_of s' i = memory_of s i" using arg_cong [OF e, of "\<lambda>x. memory_of x i"] by (simp add: memory_of_def)
  show "next_pid s' = next_pid s" using arg_cong [OF e, of next_pid] by simp
qed

text \<open>What belongs to a slot besides its memory: its page tables.\<close>

definition tables_of :: "'a proc_scheme \<Rightarrow> nat \<Rightarrow> (nat \<Rightarrow> u64) \<times> (nat \<Rightarrow> u64) \<times> (nat \<Rightarrow> nat \<Rightarrow> u64)" where
  "tables_of s i = (g_pml4 s i, g_pdpt s i, g_pd s i)"

lemma tables_upd_task [simp]:
  "tables_of (upd_task t f s) i = tables_of s i" "proc.more (upd_task t f s) = proc.more s"
  by (simp_all add: tables_of_def upd_task_def)

lemma tables_same_but_tree:
  assumes "same_but_tree s s'"
  shows "tables_of s' i = tables_of s i" "proc.more s' = proc.more s"
proof -
  have e: "s'\<lparr>tasks := tasks s\<rparr> = s" using assms by (simp add: same_but_tree_def)
  show "tables_of s' i = tables_of s i" using arg_cong [OF e, of "\<lambda>x. tables_of x i"] by (simp add: tables_of_def)
  show "proc.more s' = proc.more s" using arg_cong [OF e, of proc.more] by simp
qed

lemma build_address_space_frame:
  "tasks (task_build_address_space L t b s) = (tasks s)(t := (tasks s t)\<lparr>cr3 := pml4_addr L (task_index t)\<rparr>)"
  "memory_of (task_build_address_space L t b s) i = memory_of s i"
  "next_pid (task_build_address_space L t b s) = next_pid s"
  "sched_cpus (task_build_address_space L t b s) = sched_cpus s"
  "scheduler_ready (task_build_address_space L t b s) = scheduler_ready s"
  "i \<noteq> task_index t \<Longrightarrow> tables_of (task_build_address_space L t b s) i = tables_of s i"
  "proc.more (task_build_address_space L t b s) = proc.more s"
  by (simp_all add: task_build_address_space_def upd_task_def Let_def memory_of_def tables_of_def)

lemma clear_regions_frame:
  "tasks (task_clear_user_regions t s) = tasks s" "sched_cpus (task_clear_user_regions t s) = sched_cpus s"
  "scheduler_ready (task_clear_user_regions t s) = scheduler_ready s"
  "next_pid (task_clear_user_regions t s) = next_pid s"
  "i \<noteq> task_index t \<Longrightarrow> memory_of (task_clear_user_regions t s) i = memory_of s i"
  "user_bigpie (task_clear_user_regions t s) = user_bigpie s"
  "tables_of (task_clear_user_regions t s) i = tables_of s i" "proc.more (task_clear_user_regions t s) = proc.more s"
  by (simp_all add: task_clear_user_regions_def Let_def memory_of_def tables_of_def split: prod.split)

lemma heap_span_le: "fst (heap_span t) \<le> USER_HEAP_SIZE" "snd (heap_span t) \<le> USER_HEAP_EXT_SIZE"
  by (auto simp: heap_span_def Let_def model_simps)

lemma fork_copy_frame:
  "tasks (fork_copy_memory ci pi sp s) = tasks s" "sched_cpus (fork_copy_memory ci pi sp s) = sched_cpus s"
  "scheduler_ready (fork_copy_memory ci pi sp s) = scheduler_ready s"
  "next_pid (fork_copy_memory ci pi sp s) = next_pid s"
  "i \<noteq> ci \<Longrightarrow> memory_of (fork_copy_memory ci pi sp s) i = memory_of s i"
  "user_bigpie (fork_copy_memory ci pi sp s) = user_bigpie s"
  "tables_of (fork_copy_memory ci pi sp s) i = tables_of s i" "proc.more (fork_copy_memory ci pi sp s) = proc.more s"
  by (simp_all add: fork_copy_memory_def Let_def memory_of_def tables_of_def split: prod.split)

lemma copied_then_zero:
  assumes "n \<le> (sz :: u64)" "k < unat sz"
  shows "(if n < sz then zeroed_from (unat n) (unat (sz - n)) (copied (unat n) src dst) else copied (unat n) src dst) k =
    (if k < unat n then src k else 0)"
proof -
  have "unat (sz - n) = unat sz - unat n" using assms(1) by (rule unat_minus_no_wrap)
  moreover have "unat n \<le> unat sz" "\<not> n < sz \<Longrightarrow> unat n = unat sz"
    using assms(1) by (simp_all add: word_le_nat_alt word_less_nat_alt)
  ultimately show ?thesis using assms(2) by (auto simp: copied_def zeroed_from_def)
qed

lemma fork_copy_same:
  assumes "fst sp \<le> USER_HEAP_SIZE" "snd sp \<le> USER_HEAP_EXT_SIZE"
  shows "same_memory sp s pi (fork_copy_memory ci pi sp s) ci"
proof -
  obtain a b where sp: "sp = (a, b)" by fastforce
  show ?thesis
    using copied_then_zero [of a USER_HEAP_SIZE _ "user_heap s pi" "user_heap s ci"]
      copied_then_zero [of b USER_HEAP_EXT_SIZE _ "user_heap_ext s pi" "user_heap_ext s ci"] assms
    by (simp add: same_memory_def fork_copy_memory_def sp Let_def) (simp add: copied_def)
qed

lemma inherit_fork_view:
  "sched_view (inherit_fork p c) = sched_view c" "tree_view (inherit_fork p c) = tree_view c"
  "pid (inherit_fork p c) = pid c" "ppid (inherit_fork p c) = ppid c"
  by (simp_all add: inherit_fork_def sched_view_def tree_view_def)

text \<open>The fields of a task that fork passes on.\<close>

definition inherited :: "task \<Rightarrow> (u32 \<times> u32 \<times> u32 \<times> u32 \<times> u32) \<times> (int \<times> int \<times> int \<times> int) \<times> (u64 \<times> u64 \<times> u64 \<times> u64) \<times>
    (u64 \<times> u64 \<times> u64 \<times> u64 \<times> u64) \<times> (u16 \<times> edge_user_vma list) \<times> u64 \<times> (u64 \<times> u64 \<times> u32)" where
  "inherited t = ((uid t, gid t, euid t, egid t, umask t), (pgid t, sid t, ctty_kind t, ctty_id t),
     (sigint_handler t, sigalrm_handler t, sigterm_handler t, sigchld_handler t),
     (user_stack_top t, user_heap_base t, user_brk t, user_heap_limit t, user_mmap_next t),
     (user_vma_count t, user_vmas t), fs_base t, (sigaltstack_sp t, sigaltstack_size t, sigaltstack_flags t))"

text \<open>The fields that fork sets for the child: no pending signal of these three, the working directory, the saved
  registers and the name.\<close>

definition child_start :: "task \<Rightarrow> (bool \<times> bool \<times> bool) \<times> cstr \<times> edge_trap_frame \<times> cstr" where
  "child_start t = ((sigint_pending t, sigalrm_pending t, sigterm_pending t), cwd t, fork_tf t, task_name t)"

lemma inherited_views:
  assumes "untreed t = untreed t'"
  shows "inherited t = inherited t'" "kernel_stack_top t = kernel_stack_top t'" "heap_span t = heap_span t'"
    "child_start t = child_start t'"
  using arg_cong [OF assms, of inherited] arg_cong [OF assms, of kernel_stack_top] arg_cong [OF assms, of heap_span]
    arg_cong [OF assms, of child_start]
  by (simp_all add: untreed_def inherited_def heap_span_def child_start_def)

lemma unsched_inherited:
  assumes "unsched t = unsched t'"
  shows "inherited t = inherited t'" "child_start t = child_start t'"
  using arg_cong [OF assms, of inherited] arg_cong [OF assms, of child_start]
  by (simp_all add: unsched_def inherited_def child_start_def)

lemma link_fresh:
  assumes "\<And>p. t \<notin> set (cs p)"
  shows "f_link (Some p) t cs = cs(p := t # cs p)"
  using assms by (simp add: f_link_def f_unlink_def remove1_idem)

lemma link_ppid: "p \<noteq> t \<Longrightarrow> ppid (tasks (task_child_link (Some p) t s) t) = pid (tasks s p)"
  using same_but_treeD(2) [OF unlink_same_but_tree [of s t], of p]
  by (simp add: task_child_link_def Let_def split: option.split)

lemma sched_inv_unqueued:
  assumes "sched_inv s qs" "\<not> on_runqueue (tasks s t)" 
  shows "sched_inv s' (q_remove t qs) \<Longrightarrow> sched_inv s' qs"
proof -
  have "q_remove t qs c = qs c" if "c < SCHED_MAX_CPUS" for c
    using assms that by (auto simp: sched_inv_def links_rel_def q_remove_def remove1_idem)
  then show "sched_inv s' (q_remove t qs) \<Longrightarrow> sched_inv s' qs"
    unfolding sched_inv_def using links_rel_cong by blast
qed

lemma upd_ppid: "ppid (tasks (upd_task t f s) x) = (if x = t then ppid (f (tasks s t)) else ppid (tasks s x))"
  by (simp add: upd_task_def)

lemma unlink_ppid: "ppid (tasks (task_child_unlink t s) x) = ppid (tasks s x)"
  by (simp add: task_child_unlink_def Let_def upd_ppid split: option.split)

lemma link_ppid_others: "x \<noteq> t \<Longrightarrow> ppid (tasks (task_child_link par t s) x) = ppid (tasks s x)"
  by (simp add: task_child_link_def Let_def upd_ppid unlink_ppid split: option.split)


lemma demo_proc_base:
  "tasks demo_proc = tasks demo_tree" "sched_cpus demo_proc = sched_cpus demo_tree"
  "scheduler_ready demo_proc = scheduler_ready demo_tree" "local_cpu_id demo_proc = local_cpu_id demo_tree"
  "next_pid demo_proc = 4"
  by (simp_all add: demo_proc_def sched.defs)

lemma demo_proc_inv:
  "sched_inv demo_proc ((\<lambda>_. [])(0 := [TaskP 1, TaskP 2]))" "tree_ok demo_proc demo_forest"
  "process_current_task demo_proc = TaskP 0"
proof -
  show "sched_inv demo_proc ((\<lambda>_. [])(0 := [TaskP 1, TaskP 2]))"
    using sched_inv_view [of demo_proc demo_tree] demo_tree_sched by (simp add: demo_proc_base)
  show "tree_ok demo_proc demo_forest"
    using tree_ok_view [of demo_proc demo_tree] demo_tree_ok by (simp add: demo_proc_base)
  show "process_current_task demo_proc = TaskP 0"
  proof -
    have "scheduler_cpu_id demo_proc = scheduler_cpu_id demo_tree"
      by (simp only: scheduler_cpu_id_def demo_proc_base)
    then have "process_current_task demo_proc = process_current_task demo_tree"
      by (simp only: process_current_task_def scheduler_current_task_def scheduler_cpu_local_def demo_proc_base)
    then show ?thesis by (simp add: demo_tree_facts)
  qed
qed


section \<open>Signals\<close>

definition handler_of :: "int \<Rightarrow> task \<Rightarrow> u64" where
  "handler_of sig t = (if sig = LINUX_SIGINT then sigint_handler t else sigterm_handler t)"

definition pending_of :: "int \<Rightarrow> task \<Rightarrow> bool" where
  "pending_of sig t = (if sig = LINUX_SIGINT then sigint_pending t else sigterm_pending t)"

definition fatal :: "int \<Rightarrow> task \<Rightarrow> bool" where
  "fatal sig t \<longleftrightarrow> sig = LINUX_SIGKILL \<or> (sig = LINUX_SIGINT \<or> sig = LINUX_SIGTERM) \<and> handler_of sig t = LINUX_SIG_DFL"

text \<open>
  Signals. Of the signals the kernel knows, SIGKILL and a SIGINT or SIGTERM without a
  handler end the process with code 128 plus the signal, but never init; an ignored SIGINT or
  SIGTERM does nothing; a handled one becomes pending and wakes a sleeping process without
  touching its exit code; any other signal and any signal to a missing or dead process is
  refused and nothing changes.
\<close>
theorem send_signal_spec:
  assumes inv: "sched_inv s qs" and tree: "tree_ok s cs" and init: "task_find_by_pid 1 s = Some i"
    and t: "task_find_by_pid p s = Some t" "0 < p" "state (tasks s t) \<noteq> TASK_ZOMBIE"
      "\<not> is_idle (tasks s t)" "parent (tasks s t) \<noteq> Some t"
  shows "if fatal sig (tasks s t) then
       (if p = 1 then process_send_signal p sig s = Some (-1, s)
        else \<exists>s'. process_send_signal p sig s = Some (0, s') \<and> state (tasks s' t) = TASK_ZOMBIE \<and>
          exit_code (tasks s' t) = 128 + sig)
     else if sig \<noteq> LINUX_SIGINT \<and> sig \<noteq> LINUX_SIGTERM then process_send_signal p sig s = Some (-1, s)
     else if handler_of sig (tasks s t) = LINUX_SIG_IGN then process_send_signal p sig s = Some (0, s)
     else \<exists>s' qs'. process_send_signal p sig s = Some (0, s') \<and> pending_of sig (tasks s' t) \<and> sched_inv s' qs' \<and>
       exit_code (tasks s' t) = exit_code (tasks s t) \<and>
       state (tasks s' t) = (if state (tasks s t) = TASK_BLOCKED then TASK_RUNNABLE else state (tasks s t))"
proof -
  have pt: "pid (tasks s t) = p" and live: "state (tasks s t) \<noteq> TASK_UNUSED"
    using t(1) by (auto simp: task_find_by_pid_def dest: first_idx_SomeD)
  have kill: "\<exists>s'. process_kill_pid p code s = Some (0, s') \<and> state (tasks s' t) = TASK_ZOMBIE \<and>
      exit_code (tasks s' t) = code" if "p \<noteq> 1" for code
    using kill_pid_effect [OF inv tree init, of p code] t that by auto
  define s1 where "s1 = (if sig = LINUX_SIGINT then upd_task t (sigint_pending_update (\<lambda>_. True)) s
                       else upd_task t (sigterm_pending_update (\<lambda>_. True)) s)"
  have inv1: "sched_inv s1 qs" using inv by (simp add: s1_def sched_view_def)
  have f1: "state (tasks s1 t) = state (tasks s t)" "exit_code (tasks s1 t) = exit_code (tasks s t)"
    "\<not> is_idle (tasks s1 t)" "pending_of sig (tasks s1 t)"
    using t(4) by (simp_all add: s1_def pending_of_def)
  note w = wake_spec [OF inv1, where t = t] and u = unschedD [OF sched_unsched(4) [of t "task_cpu s1 t" s1 t]]
  let ?s2 = "if state (tasks s1 t) = TASK_BLOCKED then scheduler_task_make_runnable t (task_cpu s1 t) s1 else s1"
  have s2: "\<exists>qs'. sched_inv ?s2 qs'" "exit_code (tasks ?s2 t) = exit_code (tasks s t)" "pending_of sig (tasks ?s2 t)"
    "state (tasks ?s2 t) = (if state (tasks s t) = TASK_BLOCKED then TASK_RUNNABLE else state (tasks s t))"
    using inv1 w(1,2) f1 u(3,9,10) by (auto simp: pending_of_def)
  consider (fatal) "fatal sig (tasks s t)"
    | (other) "\<not> fatal sig (tasks s t)" "sig \<noteq> LINUX_SIGINT" "sig \<noteq> LINUX_SIGTERM"
    | (ign) "\<not> fatal sig (tasks s t)" "sig = LINUX_SIGINT \<or> sig = LINUX_SIGTERM" "handler_of sig (tasks s t) = LINUX_SIG_IGN"
    | (handled) "\<not> fatal sig (tasks s t)" "sig = LINUX_SIGINT \<or> sig = LINUX_SIGTERM" "handler_of sig (tasks s t) \<noteq> LINUX_SIG_IGN"
    by blast
  then show ?thesis
  proof cases
    case fatal
    then have "process_send_signal p sig s = (if p = 1 then Some (-1, s) else process_kill_pid p (128 + sig) s)"
      using t pt live by (auto simp: process_send_signal_def process_signal_one_def Let_def fatal_def handler_of_def model_simps)
    with fatal kill show ?thesis by (cases "p = 1") simp_all
  next
    case other
    then show ?thesis using t pt live
      by (auto simp: process_send_signal_def process_signal_one_def Let_def fatal_def model_simps)
  next
    case ign
    then show ?thesis using t pt live
      by (auto simp: process_send_signal_def process_signal_one_def Let_def fatal_def handler_of_def model_simps)
  next
    case handled
    then have "process_send_signal p sig s = Some (0, ?s2)"
      using t pt live unfolding s1_def
      by (auto simp: process_send_signal_def process_signal_one_def Let_def fatal_def handler_of_def wake_cpu_def model_simps)
    with handled s2 show ?thesis by auto
  qed
qed

theorem send_signal_spec_witness:
  "\<exists>s'. process_send_signal 2 LINUX_SIGKILL demo_tree = Some (0, s') \<and> exit_code (tasks s' (TaskP 0)) = 137"
proof -
  have "parent (tasks demo_tree (TaskP 0)) = Some (TaskP 1)"
    using tree_ok_facts(3) [OF demo_tree_ok, of "TaskP 0" "TaskP 1"] by (simp add: demo_forest_def)
  with send_signal_spec [OF demo_tree_sched demo_tree_ok demo_tree_find, of LINUX_SIGKILL] show ?thesis
    by (auto simp: demo_tree_facts demo_sched_states fatal_def LINUX_SIGKILL_def)
qed

end
