(* ===== verification/FdTypes.thy ===== *)
theory FdTypes
  imports ProcTree
begin

text \<open>
  The state the system call layer keeps in \<^verbatim>\<open>src/sys/syscall.c\<close>: descriptor tables, open file
  references, pipes, sockets, pseudo terminals and the objects behind eventfd, timerfd, signalfd
  and epoll descriptors, with the console line discipline. The kernel state \<open>kern\<close> extends the
  process state. Arrays are functions on indices; a loop over an array is a fold over its index
  range. Inodes are those of \<^verbatim>\<open>include/vfs/vfs.h\<close>.
\<close>

record vfs_inode =
  i_ino :: u32
  i_mode :: u16
  i_uid :: u16
  i_gid :: u16
  i_size :: u32
  i_private :: "u32 list"

definition zero_inode :: vfs_inode where
  "zero_inode = \<lparr>i_ino = 0, i_mode = 0, i_uid = 0, i_gid = 0, i_size = 0, i_private = [0, 0, 0, 0]\<rparr>"

datatype edge_fd_kind =
  FD_NONE | FD_CONSOLE | FD_VFS | FD_PIPE_R | FD_PIPE_W | FD_SOCKET | FD_PTY_MASTER | FD_PTY_SLAVE
| FD_EVENTFD | FD_TIMERFD | FD_SIGNALFD | FD_EPOLL | FD_PIDFD

record edge_fd =
  fd_used :: bool
  fd_kind :: edge_fd_kind
  file_ref :: nat
  fd_oflags :: int
  fd_flags :: int
  fd_pos :: u64
  fd_inode :: vfs_inode
  fd_sb :: "nat option"
  fd_path :: cstr
  pipe_id :: int

definition zero_fd :: edge_fd where
  "zero_fd = \<lparr>fd_used = False, fd_kind = FD_NONE, file_ref = 0, fd_oflags = 0, fd_flags = 0, fd_pos = 0,
     fd_inode = zero_inode, fd_sb = None, fd_path = [], pipe_id = 0\<rparr>"

record edge_file_ref =
  fr_used :: bool
  fr_refs :: nat

record edge_fd_proc =
  fdp_pid :: int
  fds :: "nat \<Rightarrow> edge_fd"

definition zero_fd_proc :: edge_fd_proc where
  "zero_fd_proc = \<lparr>fdp_pid = 0, fds = \<lambda>_. zero_fd\<rparr>"

record edge_pipe =
  pp_used :: bool
  readers :: nat
  writers :: nat
  pp_rpos :: nat
  pp_wpos :: nat
  pp_count :: nat
  pp_buf :: "nat \<Rightarrow> u8"

definition zero_pipe :: edge_pipe where
  "zero_pipe = \<lparr>pp_used = False, readers = 0, writers = 0, pp_rpos = 0, pp_wpos = 0, pp_count = 0, pp_buf = \<lambda>_. 0\<rparr>"

record edge_socket =
  so_used :: bool
  so_refs :: nat
  so_domain :: int
  so_type :: int
  so_protocol :: int
  so_nonblock :: bool
  recv_timeout_us :: u64
  so_connected :: bool
  connect_in_progress :: bool
  connect_error :: int
  so_closed :: bool
  peer_addr :: "u8 list"
  peer_len :: nat
  bind_addr :: "u8 list"
  bind_len :: nat
  rx_buf :: "nat \<Rightarrow> u8"
  rx_len :: nat
  rx_peer :: "u8 list"
  rx_peer_len :: nat
  ping_hw :: bool
  ping_id_be :: u16
  ping_req :: "nat \<Rightarrow> u8"
  ping_req_len :: nat
  ping_peer :: "u8 list"
  ping_peer_len :: nat
  ping_next_seq_be :: u16
  ip_ttl :: u8
  so_pcb :: "nat option"
  local_port_be :: u16
  unix_peer_id :: int
  listening :: bool
  backlog :: int
  pending_head :: nat
  pending_tail :: nat
  pending_count :: nat
  pending_sock_ids :: "nat \<Rightarrow> int"

definition zero_socket :: edge_socket where
  "zero_socket = \<lparr>so_used = False, so_refs = 0, so_domain = 0, so_type = 0, so_protocol = 0, so_nonblock = False,
     recv_timeout_us = 0, so_connected = False, connect_in_progress = False, connect_error = 0,
     so_closed = False, peer_addr = replicate 28 0, peer_len = 0, bind_addr = replicate 28 0, bind_len = 0,
     rx_buf = (\<lambda>_. 0), rx_len = 0, rx_peer = replicate 28 0, rx_peer_len = 0, ping_hw = False,
     ping_id_be = 0, ping_req = (\<lambda>_. 0), ping_req_len = 0, ping_peer = replicate 28 0,
     ping_peer_len = 0, ping_next_seq_be = 0, ip_ttl = 0, so_pcb = None, local_port_be = 0, unix_peer_id = 0,
     listening = False, backlog = 0, pending_head = 0, pending_tail = 0, pending_count = 0,
     pending_sock_ids = (\<lambda>_. 0)\<rparr>"

record edge_eventfd =
  ev_used :: bool
  ev_refs :: int
  ev_counter :: u64
  ev_semaphore :: bool

record edge_timerfd =
  tm_used :: bool
  tm_refs :: int
  tm_clockid :: int
  tm_active :: bool
  tm_next_us :: u64
  tm_interval_us :: u64

record edge_signalfd =
  sg_used :: bool
  sg_refs :: int
  sg_mask :: u64

record edge_epoll_watch =
  w_fd :: int
  w_events :: u32
  w_data :: u64

record edge_epoll =
  ep_used :: bool
  ep_refs :: int
  ep_watch :: "edge_epoll_watch list"

definition zero_eventfd :: edge_eventfd where
  "zero_eventfd = \<lparr>ev_used = False, ev_refs = 0, ev_counter = 0, ev_semaphore = False\<rparr>"

definition zero_timerfd :: edge_timerfd where
  "zero_timerfd = \<lparr>tm_used = False, tm_refs = 0, tm_clockid = 0, tm_active = False, tm_next_us = 0, tm_interval_us = 0\<rparr>"

definition zero_signalfd :: edge_signalfd where
  "zero_signalfd = \<lparr>sg_used = False, sg_refs = 0, sg_mask = 0\<rparr>"

definition zero_epoll :: edge_epoll where
  "zero_epoll = \<lparr>ep_used = False, ep_refs = 0, ep_watch = []\<rparr>"

record edge_termios =
  c_iflag :: u32
  c_oflag :: u32
  c_cflag :: u32
  c_lflag :: u32
  c_line :: u8
  c_cc :: "u8 list"

record ring =
  rpos :: nat
  wpos :: nat
  rcount :: nat
  rbuf :: "nat \<Rightarrow> u8"

definition zero_ring :: ring where
  "zero_ring = \<lparr>rpos = 0, wpos = 0, rcount = 0, rbuf = \<lambda>_. 0\<rparr>"

record edge_pty =
  pty_used :: bool
  refs_master :: nat
  refs_slave :: nat
  unlocked :: bool
  fg_pgid :: int
  pty_termios :: edge_termios
  ws_row :: u16
  ws_col :: u16
  m2s :: ring
  s2m :: ring

definition zero_termios :: edge_termios where
  "zero_termios = \<lparr>c_iflag = 0, c_oflag = 0, c_cflag = 0, c_lflag = 0, c_line = 0, c_cc = replicate 19 0\<rparr>"

definition zero_pty :: edge_pty where
  "zero_pty = \<lparr>pty_used = False, refs_master = 0, refs_slave = 0, unlocked = False, fg_pgid = 0,
     pty_termios = zero_termios, ws_row = 0, ws_col = 0, m2s = zero_ring, s2m = zero_ring\<rparr>"

datatype lwip_call = UdpRemove nat | TcpCloseListen nat | TcpCloseConn nat

record kern = proc +
  fd_procs :: "nat \<Rightarrow> edge_fd_proc"
  file_refs :: "nat \<Rightarrow> edge_file_ref"
  pipes :: "nat \<Rightarrow> edge_pipe"
  sockets :: "nat \<Rightarrow> edge_socket"
  ptys :: "nat \<Rightarrow> edge_pty"
  eventfds :: "nat \<Rightarrow> edge_eventfd"
  timerfds :: "nat \<Rightarrow> edge_timerfd"
  signalfds :: "nat \<Rightarrow> edge_signalfd"
  epolls :: "nat \<Rightarrow> edge_epoll"
  lwip_calls :: "lwip_call list"
  next_ephemeral_port :: u16
  tty_termios :: edge_termios
  tty_foreground_pgid :: int
  tty_line_len :: nat
  tty_line_pos :: nat
  fb_hold_count :: int
  fb_present :: bool

definition EDGE_MAX_FD :: nat where [model_simps]: "EDGE_MAX_FD = 64"
definition EDGE_MAX_FD_PROCS :: nat where [model_simps]: "EDGE_MAX_FD_PROCS = 64"
definition EDGE_MAX_FILE_REFS :: nat where [model_simps]: "EDGE_MAX_FILE_REFS = 1024"
definition EDGE_MAX_PIPES :: nat where [model_simps]: "EDGE_MAX_PIPES = 32"
definition EDGE_PIPE_SIZE :: nat where [model_simps]: "EDGE_PIPE_SIZE = 4096"
definition EDGE_MAX_SOCKETS :: nat where [model_simps]: "EDGE_MAX_SOCKETS = 32"
definition EDGE_SOCK_ACCEPTQ :: nat where [model_simps]: "EDGE_SOCK_ACCEPTQ = 8"
definition EDGE_MAX_PTYS :: nat where [model_simps]: "EDGE_MAX_PTYS = 16"
definition EDGE_PTY_BUF_SIZE :: nat where [model_simps]: "EDGE_PTY_BUF_SIZE = 4096"
definition EDGE_MAX_EVENTFDS :: nat where [model_simps]: "EDGE_MAX_EVENTFDS = 64"
definition EDGE_MAX_TIMERFDS :: nat where [model_simps]: "EDGE_MAX_TIMERFDS = 64"
definition EDGE_MAX_SIGNALFDS :: nat where [model_simps]: "EDGE_MAX_SIGNALFDS = 64"
definition EDGE_MAX_EPOLLS :: nat where [model_simps]: "EDGE_MAX_EPOLLS = 32"
definition EDGE_EPOLL_MAX_WATCH :: nat where [model_simps]: "EDGE_EPOLL_MAX_WATCH = 64"
definition LINUX_O_WRONLY :: int where [model_simps]: "LINUX_O_WRONLY = 1"
definition LINUX_OPOST :: u32 where [model_simps]: "LINUX_OPOST = 1"
definition LINUX_ONLCR :: u32 where [model_simps]: "LINUX_ONLCR = 4"
definition LINUX_ICANON :: u32 where [model_simps]: "LINUX_ICANON = 2"
definition LINUX_ECHO :: u32 where [model_simps]: "LINUX_ECHO = 8"
definition LINUX_ISIG :: u32 where [model_simps]: "LINUX_ISIG = 1"
definition LINUX_VEOF :: nat where [model_simps]: "LINUX_VEOF = 4"
definition LINUX_AF_UNIX :: int where [model_simps]: "LINUX_AF_UNIX = 1"
definition LINUX_AF_INET :: int where [model_simps]: "LINUX_AF_INET = 2"
definition LINUX_AF_INET6 :: int where [model_simps]: "LINUX_AF_INET6 = 10"
definition LINUX_SOCK_STREAM :: int where [model_simps]: "LINUX_SOCK_STREAM = 1"
definition LINUX_SOCK_DGRAM :: int where [model_simps]: "LINUX_SOCK_DGRAM = 2"

end
