(* ===== verification/Ext2.thy ===== *)
theory Ext2
  imports Block FdTypes
begin

text \<open>
  The ext2 file system, \<^verbatim>\<open>src/fs/ext2/ext2.c\<close>: the on-disk structures with their little
  endian encoding, block transfer, inodes, bitmaps, directories and file data. A mounted file
  system is a slot of \<open>ext2_mounts\<close>; the static buffers \<open>g_io\<close> and \<open>g_io2\<close> and the state \<open>'d\<close> of
  the hardware are part of the state. A routine that returns -1 in C returns \<open>None\<close> (or \<open>False\<close>)
  together with the state it has reached. Offsets inside a block are natural numbers: a mounted
  block has at most 4096 bytes, so they do not wrap.
\<close>

section \<open>Little endian words\<close>

definition rd16le :: "(nat \<Rightarrow> u8) \<Rightarrow> nat \<Rightarrow> u16" where
  "rd16le p o1 = ucast (p o1) OR push_bit 8 (ucast (p (o1 + 1)))"

definition rd32le :: "(nat \<Rightarrow> u8) \<Rightarrow> nat \<Rightarrow> u32" where
  "rd32le p o1 = ucast (p o1) OR push_bit 8 (ucast (p (o1 + 1))) OR push_bit 16 (ucast (p (o1 + 2))) OR
     push_bit 24 (ucast (p (o1 + 3)))"

definition le16 :: "u16 \<Rightarrow> u8 list" where
  "le16 v = [ucast v, ucast (drop_bit 8 v)]"

definition le32 :: "u32 \<Rightarrow> u8 list" where
  "le32 v = [ucast v, ucast (drop_bit 8 v), ucast (drop_bit 16 v), ucast (drop_bit 24 v)]"

definition wr16le :: "(nat \<Rightarrow> u8) \<Rightarrow> nat \<Rightarrow> u16 \<Rightarrow> (nat \<Rightarrow> u8)" where
  "wr16le p o1 v = put_bytes p o1 (le16 v)"

definition wr32le :: "(nat \<Rightarrow> u8) \<Rightarrow> nat \<Rightarrow> u32 \<Rightarrow> (nat \<Rightarrow> u8)" where
  "wr32le p o1 v = put_bytes p o1 (le32 v)"

section \<open>On-disk structures\<close>

record ext2_super =
  inodes_count :: u32  blocks_count :: u32  r_blocks_count :: u32  sb_free_blocks_count :: u32
  sb_free_inodes_count :: u32  first_data_block :: u32  log_block_size :: u32  log_frag_size :: u32
  blocks_per_group :: u32  frags_per_group :: u32  inodes_per_group :: u32
  sb_mtime :: u32  sb_wtime :: u32
  mnt_count :: u16  max_mnt_count :: u16  magic :: u16  sb_state :: u16  sb_errors :: u16  minor_rev_level :: u16
  lastcheck :: u32  checkinterval :: u32  creator_os :: u32  rev_level :: u32
  def_resuid :: u16  def_resgid :: u16
  first_ino :: u32
  inode_size :: u16
  block_group_nr :: u16
  feature_compat :: u32
  feature_incompat :: u32
  feature_ro_compat :: u32

record ext2_bgdesc =
  block_bitmap :: u32  inode_bitmap :: u32  inode_table :: u32
  bg_free_blocks_count :: u16  bg_free_inodes_count :: u16  used_dirs_count :: u16
  bg_pad :: u16
  bg_reserved :: "u8 list"

record ext2_inode =
  e_mode :: u16  e_uid :: u16
  e_size :: u32  e_atime :: u32  e_ctime :: u32  e_mtime :: u32  e_dtime :: u32
  e_gid :: u16  links_count :: u16
  e_blocks :: u32  e_flags :: u32  e_osd1 :: u32
  e_block :: "u32 list"
  e_generation :: u32  e_file_acl :: u32  e_dir_acl :: u32  e_faddr :: u32
  e_osd2 :: "u8 list"

definition super_of :: "(nat \<Rightarrow> u8) \<Rightarrow> nat \<Rightarrow> ext2_super" where
  "super_of p k =
     \<lparr>inodes_count = rd32le p k, blocks_count = rd32le p (k + 4), r_blocks_count = rd32le p (k + 8),
      sb_free_blocks_count = rd32le p (k + 12), sb_free_inodes_count = rd32le p (k + 16),
      first_data_block = rd32le p (k + 20), log_block_size = rd32le p (k + 24), log_frag_size = rd32le p (k + 28),
      blocks_per_group = rd32le p (k + 32), frags_per_group = rd32le p (k + 36), inodes_per_group = rd32le p (k + 40),
      sb_mtime = rd32le p (k + 44), sb_wtime = rd32le p (k + 48), mnt_count = rd16le p (k + 52),
      max_mnt_count = rd16le p (k + 54), magic = rd16le p (k + 56), sb_state = rd16le p (k + 58),
      sb_errors = rd16le p (k + 60), minor_rev_level = rd16le p (k + 62), lastcheck = rd32le p (k + 64),
      checkinterval = rd32le p (k + 68), creator_os = rd32le p (k + 72), rev_level = rd32le p (k + 76),
      def_resuid = rd16le p (k + 80), def_resgid = rd16le p (k + 82), first_ino = rd32le p (k + 84),
      inode_size = rd16le p (k + 88), block_group_nr = rd16le p (k + 90), feature_compat = rd32le p (k + 92),
      feature_incompat = rd32le p (k + 96), feature_ro_compat = rd32le p (k + 100)\<rparr>"

definition super_bytes :: "ext2_super \<Rightarrow> u8 list" where
  "super_bytes s =
     concat (map le32 [inodes_count s, blocks_count s, r_blocks_count s, sb_free_blocks_count s, sb_free_inodes_count s,
       first_data_block s, log_block_size s, log_frag_size s, blocks_per_group s, frags_per_group s, inodes_per_group s,
       sb_mtime s, sb_wtime s]) @
     concat (map le16 [mnt_count s, max_mnt_count s, magic s, sb_state s, sb_errors s, minor_rev_level s]) @
     concat (map le32 [lastcheck s, checkinterval s, creator_os s, rev_level s]) @
     le16 (def_resuid s) @ le16 (def_resgid s) @ le32 (first_ino s) @ le16 (inode_size s) @ le16 (block_group_nr s) @
     concat (map le32 [feature_compat s, feature_incompat s, feature_ro_compat s])"

definition bgdesc_of :: "(nat \<Rightarrow> u8) \<Rightarrow> nat \<Rightarrow> ext2_bgdesc" where
  "bgdesc_of p k =
     \<lparr>block_bitmap = rd32le p k, inode_bitmap = rd32le p (k + 4), inode_table = rd32le p (k + 8),
      bg_free_blocks_count = rd16le p (k + 12), bg_free_inodes_count = rd16le p (k + 14),
      used_dirs_count = rd16le p (k + 16), bg_pad = rd16le p (k + 18), bg_reserved = get_bytes p (k + 20) 12\<rparr>"

definition bgdesc_bytes :: "ext2_bgdesc \<Rightarrow> u8 list" where
  "bgdesc_bytes b =
     le32 (block_bitmap b) @ le32 (inode_bitmap b) @ le32 (inode_table b) @ le16 (bg_free_blocks_count b) @
     le16 (bg_free_inodes_count b) @ le16 (used_dirs_count b) @ le16 (bg_pad b) @ bg_reserved b"

definition inode_of :: "(nat \<Rightarrow> u8) \<Rightarrow> nat \<Rightarrow> ext2_inode" where
  "inode_of p k =
     \<lparr>e_mode = rd16le p k, e_uid = rd16le p (k + 2), e_size = rd32le p (k + 4), e_atime = rd32le p (k + 8),
      e_ctime = rd32le p (k + 12), e_mtime = rd32le p (k + 16), e_dtime = rd32le p (k + 20), e_gid = rd16le p (k + 24),
      links_count = rd16le p (k + 26), e_blocks = rd32le p (k + 28), e_flags = rd32le p (k + 32), e_osd1 = rd32le p (k + 36),
      e_block = map (\<lambda>i. rd32le p (k + 40 + 4 * i)) [0..<15],
      e_generation = rd32le p (k + 100), e_file_acl = rd32le p (k + 104), e_dir_acl = rd32le p (k + 108),
      e_faddr = rd32le p (k + 112), e_osd2 = get_bytes p (k + 116) 12\<rparr>"

definition inode_bytes :: "ext2_inode \<Rightarrow> u8 list" where
  "inode_bytes x =
     le16 (e_mode x) @ le16 (e_uid x) @ le32 (e_size x) @ le32 (e_atime x) @ le32 (e_ctime x) @ le32 (e_mtime x) @
     le32 (e_dtime x) @ le16 (e_gid x) @ le16 (links_count x) @ le32 (e_blocks x) @ le32 (e_flags x) @ le32 (e_osd1 x) @
     concat (map le32 (e_block x)) @ le32 (e_generation x) @ le32 (e_file_acl x) @ le32 (e_dir_acl x) @
     le32 (e_faddr x) @ e_osd2 x"

definition zero_inode_rec :: ext2_inode where
  "zero_inode_rec = inode_of (\<lambda>_. 0) 0"

definition EXT2_INODE_BYTES :: nat where [model_simps]: "EXT2_INODE_BYTES = 128"
definition EXT2_SUPER_BYTES :: nat where [model_simps]: "EXT2_SUPER_BYTES = 104"
definition EXT2_BGDESC_BYTES :: nat where [model_simps]: "EXT2_BGDESC_BYTES = 32"
definition VFS_NAME_MAX :: nat where [model_simps]: "VFS_NAME_MAX = 64"
definition VFS_PATH_MAX :: nat where [model_simps]: "VFS_PATH_MAX = 256"
definition VFS_INODE_DIR :: u16 where [model_simps]: "VFS_INODE_DIR = 0x4000"
definition VFS_INODE_FILE :: u16 where [model_simps]: "VFS_INODE_FILE = 0x8000"
definition VFS_INODE_CHR :: u16 where [model_simps]: "VFS_INODE_CHR = 0x2000"
definition VFS_INODE_BLK :: u16 where [model_simps]: "VFS_INODE_BLK = 0x6000"

definition EXT4_INCOMPAT_FILETYPE :: u32 where "EXT4_INCOMPAT_FILETYPE = 2"
definition EXT4_RO_COMPAT_OK :: u32 where "EXT4_RO_COMPAT_OK = 1 OR 2 OR 4"

definition ext4_feature_set_supported :: "ext2_super \<Rightarrow> bool" where
  "ext4_feature_set_supported s \<longleftrightarrow>
     feature_incompat s AND NOT EXT4_INCOMPAT_FILETYPE = 0 \<and> feature_ro_compat s AND NOT EXT4_RO_COMPAT_OK = 0"

definition rec_len_min :: "nat \<Rightarrow> nat" where
  "rec_len_min name_len = 4 * ((8 + name_len + 3) div 4)"

definition vfs_mode_from_ext2 :: "u16 \<Rightarrow> u16" where
  "vfs_mode_from_ext2 m =
     (let kind = m AND 0xF000; perms = m AND 0xFFF
      in if kind = 0x4000 then VFS_INODE_DIR OR perms
         else if kind = 0x8000 then VFS_INODE_FILE OR perms
         else 0)"

section \<open>State and block transfer\<close>

record 'd ext2_fs =
  bdev :: "'d block_device option"
  sb :: ext2_super
  bg :: ext2_bgdesc
  block_size :: u32

record 'd ext2_st =
  ext2_mounts :: "nat \<Rightarrow> 'd ext2_fs"
  ext2_mount_count :: nat
  g_io :: "nat \<Rightarrow> u8"
  g_io2 :: "nat \<Rightarrow> u8"
  disk :: 'd

abbreviation bsize :: "nat \<Rightarrow> 'd ext2_st \<Rightarrow> nat" where
  "bsize f st \<equiv> unat (block_size (ext2_mounts st f))"

definition upd_fs :: "nat \<Rightarrow> ('d ext2_fs \<Rightarrow> 'd ext2_fs) \<Rightarrow> 'd ext2_st \<Rightarrow> 'd ext2_st" where
  "upd_fs f g st = st\<lparr>ext2_mounts := (ext2_mounts st)(f := g (ext2_mounts st f))\<rparr>"

definition fs_cnt :: "'d ext2_fs \<Rightarrow> u32 option" where
  "fs_cnt fs =
     (case bdev fs of
        None \<Rightarrow> None
      | Some dv \<Rightarrow> if sector_size dv = 0 \<or> block_size fs div sector_size dv = 0 then None
                   else Some (block_size fs div sector_size dv))"

definition dev_read :: "nat \<Rightarrow> u32 \<Rightarrow> u32 \<Rightarrow> 'd ext2_st \<Rightarrow> bool \<times> 'd ext2_st" where
  "dev_read f lba n st =
     (case block_read_sectors (bdev (ext2_mounts st f)) (disk st) lba n (Some (g_io st)) of
        (d, rc, out) \<Rightarrow> (0 \<le> rc, st\<lparr>disk := d, g_io := the out\<rparr>))"

definition dev_read2 :: "nat \<Rightarrow> u32 \<Rightarrow> u32 \<Rightarrow> 'd ext2_st \<Rightarrow> bool \<times> 'd ext2_st" where
  "dev_read2 f lba n st =
     (case block_read_sectors (bdev (ext2_mounts st f)) (disk st) lba n (Some (g_io2 st)) of
        (d, rc, out) \<Rightarrow> (0 \<le> rc, st\<lparr>disk := d, g_io2 := the out\<rparr>))"

definition dev_write :: "nat \<Rightarrow> u32 \<Rightarrow> u32 \<Rightarrow> 'd ext2_st \<Rightarrow> bool \<times> 'd ext2_st" where
  "dev_write f lba n st =
     (case block_write_sectors (bdev (ext2_mounts st f)) (disk st) lba n (Some (g_io st)) of
        (d, rc) \<Rightarrow> (0 \<le> rc, st\<lparr>disk := d\<rparr>))"

definition read_block :: "nat \<Rightarrow> u32 \<Rightarrow> 'd ext2_st \<Rightarrow> bool \<times> 'd ext2_st" where
  "read_block f b st = (case fs_cnt (ext2_mounts st f) of None \<Rightarrow> (False, st) | Some cnt \<Rightarrow> dev_read f (b * cnt) cnt st)"

definition read_block2 :: "nat \<Rightarrow> u32 \<Rightarrow> 'd ext2_st \<Rightarrow> bool \<times> 'd ext2_st" where
  "read_block2 f b st = (case fs_cnt (ext2_mounts st f) of None \<Rightarrow> (False, st) | Some cnt \<Rightarrow> dev_read2 f (b * cnt) cnt st)"

definition write_block :: "nat \<Rightarrow> u32 \<Rightarrow> 'd ext2_st \<Rightarrow> bool \<times> 'd ext2_st" where
  "write_block f b st = (case fs_cnt (ext2_mounts st f) of None \<Rightarrow> (False, st) | Some cnt \<Rightarrow> dev_write f (b * cnt) cnt st)"

definition sync_super_bg :: "nat \<Rightarrow> 'd ext2_st \<Rightarrow> bool \<times> 'd ext2_st" where
  "sync_super_bg f st =
     (if bdev (ext2_mounts st f) = None then (False, st)
      else case dev_read f 2 2 st of
        (False, s1) \<Rightarrow> (False, s1)
      | (True, s1) \<Rightarrow>
          (case dev_write f 2 2 (s1\<lparr>g_io := put_bytes (g_io s1) 0 (super_bytes (sb (ext2_mounts s1 f)))\<rparr>) of
             (False, s2) \<Rightarrow> (False, s2)
           | (True, s2) \<Rightarrow>
               (case read_block f (first_data_block (sb (ext2_mounts s2 f)) + 1) s2 of
                  (False, s3) \<Rightarrow> (False, s3)
                | (True, s3) \<Rightarrow>
                    write_block f (first_data_block (sb (ext2_mounts s3 f)) + 1)
                      (s3\<lparr>g_io := put_bytes (g_io s3) 0 (bgdesc_bytes (bg (ext2_mounts s3 f)))\<rparr>))))"

section \<open>Inodes and bitmaps\<close>

definition inode_ok :: "'d ext2_fs \<Rightarrow> u32 \<Rightarrow> bool" where
  "inode_ok fs ino \<longleftrightarrow> ino \<noteq> 0 \<and> ino \<le> inodes_count (sb fs)"

definition inode_blk :: "'d ext2_fs \<Rightarrow> u32 \<Rightarrow> u32" where
  "inode_blk fs ino = inode_table (bg fs) + ((ino - 1) * ucast (inode_size (sb fs))) div block_size fs"

definition inode_boff :: "'d ext2_fs \<Rightarrow> u32 \<Rightarrow> nat" where
  "inode_boff fs ino = unat (((ino - 1) * ucast (inode_size (sb fs))) mod block_size fs)"

definition read_inode :: "nat \<Rightarrow> u32 \<Rightarrow> 'd ext2_st \<Rightarrow> ext2_inode option \<times> 'd ext2_st" where
  "read_inode f ino st =
     (let fs = ext2_mounts st f
      in if \<not> inode_ok fs ino \<or> unat (block_size fs) < inode_boff fs ino + EXT2_INODE_BYTES then (None, st)
         else case read_block f (inode_blk fs ino) st of
                (False, s1) \<Rightarrow> (None, s1)
              | (True, s1) \<Rightarrow> (Some (inode_of (g_io s1) (inode_boff fs ino)), s1))"

definition write_inode :: "nat \<Rightarrow> u32 \<Rightarrow> ext2_inode \<Rightarrow> 'd ext2_st \<Rightarrow> bool \<times> 'd ext2_st" where
  "write_inode f ino x st =
     (let fs = ext2_mounts st f
      in if \<not> inode_ok fs ino \<or> unat (block_size fs) < inode_boff fs ino + EXT2_INODE_BYTES then (False, st)
         else case read_block f (inode_blk fs ino) st of
                (False, s1) \<Rightarrow> (False, s1)
              | (True, s1) \<Rightarrow>
                  write_block f (inode_blk fs ino)
                    (s1\<lparr>g_io := put_bytes (g_io s1) (inode_boff fs ino) (inode_bytes x)\<rparr>))"

definition bit_free :: "(nat \<Rightarrow> u8) \<Rightarrow> nat \<Rightarrow> bool" where
  "bit_free p i \<longleftrightarrow> \<not> bit (p (i div 8)) (i mod 8)"

definition set_bitmap :: "(nat \<Rightarrow> u8) \<Rightarrow> nat \<Rightarrow> (nat \<Rightarrow> u8)" where
  "set_bitmap p i = p(i div 8 := p (i div 8) OR push_bit (i mod 8) 1)"

definition dec16 :: "u16 \<Rightarrow> u16" where "dec16 v = (if v \<noteq> 0 then v - 1 else v)"
definition dec32 :: "u32 \<Rightarrow> u32" where "dec32 v = (if v \<noteq> 0 then v - 1 else v)"

definition count_down :: "bool \<Rightarrow> 'd ext2_fs \<Rightarrow> 'd ext2_fs" where
  "count_down is_inode fs =
     (if is_inode
      then fs\<lparr>sb := (sb fs)\<lparr>sb_free_inodes_count := dec32 (sb_free_inodes_count (sb fs))\<rparr>,
              bg := (bg fs)\<lparr>bg_free_inodes_count := dec16 (bg_free_inodes_count (bg fs))\<rparr>\<rparr>
      else fs\<lparr>sb := (sb fs)\<lparr>sb_free_blocks_count := dec32 (sb_free_blocks_count (sb fs))\<rparr>,
              bg := (bg fs)\<lparr>bg_free_blocks_count := dec16 (bg_free_blocks_count (bg fs))\<rparr>\<rparr>)"

definition ext2_alloc_from_bitmap :: "nat \<Rightarrow> u32 \<Rightarrow> u32 \<Rightarrow> bool \<Rightarrow> 'd ext2_st \<Rightarrow> u32 option \<times> 'd ext2_st" where
  "ext2_alloc_from_bitmap f bitmap_block mx is_inode st =
     (case read_block f bitmap_block st of
        (False, s1) \<Rightarrow> (None, s1)
      | (True, s1) \<Rightarrow>
          (case first_idx (bit_free (g_io s1)) 0 (unat mx) of
             None \<Rightarrow> (None, s1)
           | Some i \<Rightarrow>
               (case write_block f bitmap_block (s1\<lparr>g_io := set_bitmap (g_io s1) i\<rparr>) of
                  (False, s2) \<Rightarrow> (None, s2)
                | (True, s2) \<Rightarrow>
                    (case sync_super_bg f (upd_fs f (count_down is_inode) s2) of
                       (False, s3) \<Rightarrow> (None, s3)
                     | (True, s3) \<Rightarrow> (Some (word_of_nat i + (if is_inode then 1 else 0)), s3)))))"

section \<open>Directories\<close>

record ext2_dirent_hdr =
  de_inode :: u32
  de_rec_len :: nat
  de_name_len :: nat
  de_file_type :: u8

definition ext2_dirent_read :: "(nat \<Rightarrow> u8) \<Rightarrow> nat \<Rightarrow> nat \<Rightarrow> ext2_dirent_hdr option" where
  "ext2_dirent_read blk bs off =
     (if bs < off + 8 then None
      else let de = \<lparr>de_inode = rd32le blk off, de_rec_len = unat (rd16le blk (off + 4)),
                     de_name_len = unat (blk (off + 6)), de_file_type = blk (off + 7)\<rparr>
           in if de_rec_len de < 8 \<or> bs < off + de_rec_len de then None else Some de)"

text \<open>The records a directory loop visits in one block, with their offsets.\<close>

function block_dirents :: "(nat \<Rightarrow> u8) \<Rightarrow> nat \<Rightarrow> nat \<Rightarrow> (nat \<times> ext2_dirent_hdr) list" where
  "block_dirents blk bs off =
     (case ext2_dirent_read blk bs off of
        None \<Rightarrow> []
      | Some de \<Rightarrow> (off, de) # block_dirents blk bs (off + de_rec_len de))"
  by pat_completeness auto
termination
  by (relation "measure (\<lambda>(blk, bs, off). bs - off)")
    (auto simp: ext2_dirent_read_def Let_def split: if_splits)

declare block_dirents.simps [simp del]

definition dirent_name :: "(nat \<Rightarrow> u8) \<Rightarrow> nat \<Rightarrow> ext2_dirent_hdr \<Rightarrow> cstr" where
  "dirent_name blk off de = get_bytes blk (off + 8) (de_name_len de)"

definition dirent_live :: "ext2_dirent_hdr \<Rightarrow> bool" where
  "dirent_live de \<longleftrightarrow> de_inode de \<noteq> 0 \<and> 0 < de_name_len de \<and> de_name_len de < VFS_NAME_MAX"

definition dirent_listed :: "ext2_dirent_hdr \<Rightarrow> bool" where
  "dirent_listed de \<longleftrightarrow> dirent_live de \<and> rec_len_min (de_name_len de) \<le> de_rec_len de"

text \<open>The first record of the direct blocks that satisfies a test, with the block in \<open>g_io\<close>.\<close>

fun find_dirent ::
  "nat \<Rightarrow> ((nat \<Rightarrow> u8) \<Rightarrow> nat \<times> ext2_dirent_hdr \<Rightarrow> bool) \<Rightarrow> u32 list \<Rightarrow> 'd ext2_st \<Rightarrow>
     (u32 \<times> nat \<times> ext2_dirent_hdr) option \<times> 'd ext2_st" where
  "find_dirent f P [] st = (None, st)"
| "find_dirent f P (b # bs) st =
     (if b = 0 then find_dirent f P bs st
      else case read_block f b st of
        (False, s1) \<Rightarrow> find_dirent f P bs s1
      | (True, s1) \<Rightarrow>
          (case List.find (P (g_io s1)) (block_dirents (g_io s1) (bsize f s1) 0) of
             Some (off, de) \<Rightarrow> (Some (b, off, de), s1)
           | None \<Rightarrow> find_dirent f P bs s1))"

definition fill_inode :: "u32 \<Rightarrow> ext2_inode \<Rightarrow> vfs_inode \<Rightarrow> vfs_inode" where
  "fill_inode ino t out =
     out\<lparr>i_ino := ino, i_size := e_size t, i_mode := vfs_mode_from_ext2 (e_mode t), i_uid := e_uid t, i_gid := e_gid t\<rparr>"

definition inode_result :: "nat \<Rightarrow> u32 \<Rightarrow> vfs_inode \<Rightarrow> 'd ext2_st \<Rightarrow> vfs_inode option \<times> 'd ext2_st" where
  "inode_result f ino out st =
     (case read_inode f ino st of
        (None, s1) \<Rightarrow> (None, s1)
      | (Some t, s1) \<Rightarrow> (if vfs_mode_from_ext2 (e_mode t) = 0 then None else Some (fill_inode ino t out), s1))"

definition lookup_test :: "cstr \<Rightarrow> (nat \<Rightarrow> u8) \<Rightarrow> nat \<times> ext2_dirent_hdr \<Rightarrow> bool" where
  "lookup_test nm blk e \<longleftrightarrow> dirent_listed (snd e) \<and> strcmp (dirent_name blk (fst e) (snd e)) nm = 0"

definition ext2_lookup :: "nat \<Rightarrow> vfs_inode \<Rightarrow> cstr \<Rightarrow> vfs_inode \<Rightarrow> 'd ext2_st \<Rightarrow> vfs_inode option \<times> 'd ext2_st" where
  "ext2_lookup f dir nm out st =
     (case read_inode f (i_ino dir) st of
        (None, s1) \<Rightarrow> (None, s1)
      | (Some dino, s1) \<Rightarrow>
          (case find_dirent f (lookup_test nm) (take 12 (e_block dino)) s1 of
             (None, s2) \<Rightarrow> (None, s2)
           | (Some (b, off, de), s2) \<Rightarrow> inode_result f (de_inode de) out s2))"

fun nth_dirent :: "nat \<Rightarrow> nat \<Rightarrow> u32 list \<Rightarrow> 'd ext2_st \<Rightarrow> (cstr \<times> ext2_dirent_hdr) option \<times> 'd ext2_st" where
  "nth_dirent f k [] st = (None, st)"
| "nth_dirent f k (b # bs) st =
     (if b = 0 then nth_dirent f k bs st
      else case read_block f b st of
        (False, s1) \<Rightarrow> nth_dirent f k bs s1
      | (True, s1) \<Rightarrow>
          (let es = filter (\<lambda>e. dirent_listed (snd e)) (block_dirents (g_io s1) (bsize f s1) 0)
           in if k < length es then (Some (dirent_name (g_io s1) (fst (es ! k)) (snd (es ! k)), snd (es ! k)), s1)
              else nth_dirent f (k - length es) bs s1))"

definition ext2_readdir :: "nat \<Rightarrow> vfs_inode \<Rightarrow> u32 \<Rightarrow> vfs_inode \<Rightarrow> 'd ext2_st \<Rightarrow> (cstr \<times> vfs_inode) option \<times> 'd ext2_st" where
  "ext2_readdir f dir k out st =
     (case read_inode f (i_ino dir) st of
        (None, s1) \<Rightarrow> (None, s1)
      | (Some dino, s1) \<Rightarrow>
          (case nth_dirent f (unat k) (take 12 (e_block dino)) s1 of
             (None, s2) \<Rightarrow> (None, s2)
           | (Some (nm, de), s2) \<Rightarrow>
               (case inode_result f (de_inode de) out s2 of
                  (None, s3) \<Rightarrow> (None, s3)
                | (Some i, s3) \<Rightarrow> (Some (nm, i), s3))))"

section \<open>File data\<close>

definition file_block :: "nat \<Rightarrow> u32 \<Rightarrow> ext2_inode \<Rightarrow> u32 \<Rightarrow> 'd ext2_st \<Rightarrow> u32 option \<times> 'd ext2_st" where
  "file_block f bs x bi st =
     (if bi < 12 then (Some (e_block x ! unat bi), st)
      else let ind = bi - 12; ents = bs div 4
           in if ind < ents
              then if e_block x ! 12 = 0 then (None, st)
                   else case read_block f (e_block x ! 12) st of
                          (False, s1) \<Rightarrow> (None, s1)
                        | (True, s1) \<Rightarrow> (Some (rd32le (g_io s1) (4 * unat ind)), s1)
              else let outer = (ind - ents) div ents; inner = (ind - ents) mod ents
                   in if e_block x ! 13 = 0 \<or> ents \<le> outer then (None, st)
                      else case read_block f (e_block x ! 13) st of
                             (False, s1) \<Rightarrow> (None, s1)
                           | (True, s1) \<Rightarrow>
                               (let ind_block = rd32le (g_io s1) (4 * unat outer)
                                in if ind_block = 0 then (None, s1)
                                   else case read_block2 f ind_block s1 of
                                          (False, s2) \<Rightarrow> (None, s2)
                                        | (True, s2) \<Rightarrow> (Some (rd32le (g_io2 s2) (4 * unat inner)), s2)))"

text \<open>The bytes of one iteration: to the end of the block or of the request. Block size zero, a
  division by zero in C, is excluded by mounting; the loops stop on it.\<close>

definition io_len :: "u32 \<Rightarrow> u32 \<Rightarrow> u32 \<Rightarrow> u32 \<Rightarrow> u32" where
  "io_len bs pos len dn = (if bs - pos mod bs > len - dn then len - dn else bs - pos mod bs)"

lemma io_len_pos:
  assumes "dn < len" "bs \<noteq> 0"
  shows "0 < unat (io_len bs pos len dn)" "unat (io_len bs pos len dn) \<le> unat len - unat dn"
    "unat (dn + io_len bs pos len dn) = unat dn + unat (io_len bs pos len dn)"
proof -
  have l: "unat (len - dn) = unat len - unat dn" using assms(1) by (simp add: unat_minus_no_wrap)
  have m: "pos mod bs < bs" using assms(2) by (simp add: word_less_nat_alt unat_mod unat_gt_0)
  then have b: "unat (bs - pos mod bs) = unat bs - unat (pos mod bs)" by (simp add: unat_minus_no_wrap)
  show a: "0 < unat (io_len bs pos len dn)" "unat (io_len bs pos len dn) \<le> unat len - unat dn"
    using assms(1) l b m by (auto simp: io_len_def word_less_nat_alt)
  then show "unat (dn + io_len bs pos len dn) = unat dn + unat (io_len bs pos len dn)"
    using unat_u32_bound [of len] assms(1) by (intro unat_plus_no_wrap) (simp add: word_less_nat_alt)
qed

lemma io_len_decr: "dn < len \<Longrightarrow> bs \<noteq> 0 \<Longrightarrow> unat len - unat (dn + io_len bs pos len dn) < unat len - unat dn"
  using io_len_pos [of dn len bs pos] by (simp add: word_less_nat_alt)

function ext2_read_loop ::
  "nat \<Rightarrow> u32 \<Rightarrow> ext2_inode \<Rightarrow> u32 \<Rightarrow> u32 \<Rightarrow> u32 \<Rightarrow> u8 list \<Rightarrow> 'd ext2_st \<Rightarrow> u8 list \<times> 'd ext2_st" where
  "ext2_read_loop f bs x off len dn out st =
     (if \<not> dn < len \<or> bs = 0 then (out, st)
      else let pos = off + dn
           in case file_block f bs x (pos div bs) st of
                (None, s1) \<Rightarrow> (out, s1)
              | (Some b, s1) \<Rightarrow>
                  if b = 0 then (out, s1)
                  else case read_block f b s1 of
                         (False, s2) \<Rightarrow> (out, s2)
                       | (True, s2) \<Rightarrow>
                           let n = io_len bs pos len dn
                           in ext2_read_loop f bs x off len (dn + n)
                                (out @ get_bytes (g_io s2) (unat (pos mod bs)) (unat n)) s2)"
  by pat_completeness auto
termination
proof (relation "measure (\<lambda>(f, bs, x, off, len, dn, out, st). unat len - unat dn)", goal_cases)
  case (2 f bs x off len dn out st)
  then show ?case by (simp add: io_len_decr)
qed simp

declare ext2_read_loop.simps [simp del]

definition ext2_read :: "nat \<Rightarrow> vfs_inode \<Rightarrow> u32 \<Rightarrow> u32 \<Rightarrow> 'd ext2_st \<Rightarrow> u8 list option \<times> 'd ext2_st" where
  "ext2_read f inode off len st =
     (case read_inode f (i_ino inode) st of
        (None, s1) \<Rightarrow> (None, s1)
      | (Some x, s1) \<Rightarrow>
          if e_size x \<le> off then (Some [], s1)
          else let len' = (if off + len > e_size x then e_size x - off else len);
                   (out, s2) = ext2_read_loop f (block_size (ext2_mounts s1 f)) x off len' 0 [] s1
               in (Some out, s2))"

definition zero_io :: "nat \<Rightarrow> 'd ext2_st \<Rightarrow> 'd ext2_st" where
  "zero_io f st = st\<lparr>g_io := put_bytes (g_io st) 0 (replicate (bsize f st) 0)\<rparr>"

definition alloc_block :: "nat \<Rightarrow> 'd ext2_st \<Rightarrow> u32 option \<times> 'd ext2_st" where
  "alloc_block f st =
     ext2_alloc_from_bitmap f (block_bitmap (bg (ext2_mounts st f))) (blocks_per_group (sb (ext2_mounts st f))) False st"

definition ensure_block :: "nat \<Rightarrow> nat \<Rightarrow> ext2_inode \<Rightarrow> 'd ext2_st \<Rightarrow> bool \<times> ext2_inode \<times> 'd ext2_st" where
  "ensure_block f bi x st =
     (if e_block x ! bi \<noteq> 0 then (True, x, st)
      else case alloc_block f st of
             (None, s1) \<Rightarrow> (False, x, s1)
           | (Some nb, s1) \<Rightarrow>
               (case write_block f nb (zero_io f s1) of (ok, s2) \<Rightarrow> (ok, x\<lparr>e_block := (e_block x)[bi := nb]\<rparr>, s2)))"

function ext2_write_loop ::
  "nat \<Rightarrow> u32 \<Rightarrow> u32 \<Rightarrow> u8 list \<Rightarrow> u32 \<Rightarrow> u32 \<Rightarrow> ext2_inode \<Rightarrow> 'd ext2_st \<Rightarrow> ext2_inode \<times> u32 \<times> 'd ext2_st" where
  "ext2_write_loop f bs off src len dn x st =
     (if \<not> dn < len \<or> bs = 0 then (x, dn, st)
      else let pos = off + dn; bi = pos div bs
           in if 12 \<le> bi then (x, dn, st)
              else case ensure_block f (unat bi) x st of
                     (False, x1, s1) \<Rightarrow> (x1, dn, s1)
                   | (True, x1, s1) \<Rightarrow>
                       (case read_block f (e_block x1 ! unat bi) s1 of
                          (False, s2) \<Rightarrow> (x1, dn, s2)
                        | (True, s2) \<Rightarrow>
                            let n = io_len bs pos len dn;
                                s3 = s2\<lparr>g_io := put_bytes (g_io s2) (unat (pos mod bs)) (take (unat n) (drop (unat dn) src))\<rparr>
                            in case write_block f (e_block x1 ! unat bi) s3 of
                                 (False, s4) \<Rightarrow> (x1, dn, s4)
                               | (True, s4) \<Rightarrow> ext2_write_loop f bs off src len (dn + n) x1 s4))"
  by pat_completeness auto
termination
proof (relation "measure (\<lambda>(f, bs, off, src, len, dn, x, st). unat len - unat dn)", goal_cases)
  case (2 f bs off src len dn x st)
  then show ?case by (simp add: io_len_decr)
qed simp

declare ext2_write_loop.simps [simp del]

definition ext2_write :: "nat \<Rightarrow> vfs_inode \<Rightarrow> u32 \<Rightarrow> u8 list \<Rightarrow> 'd ext2_st \<Rightarrow> (u32 \<times> vfs_inode) option \<times> 'd ext2_st" where
  "ext2_write f inode off src st =
     (case read_inode f (i_ino inode) st of
        (None, s1) \<Rightarrow> (None, s1)
      | (Some x, s1) \<Rightarrow>
          (let (x1, dn, s2) = ext2_write_loop f (block_size (ext2_mounts s1 f)) off src (word_of_nat (length src)) 0 x s1;
               size1 = (if off + dn > e_size x1 then off + dn else e_size x1);
               x2 = x1\<lparr>e_size := size1, e_blocks := (size1 + 511) div 512\<rparr>
           in case write_inode f (i_ino inode) x2 s2 of
                (False, s3) \<Rightarrow> (None, s3)
              | (True, s3) \<Rightarrow> (Some (dn, inode\<lparr>i_size := size1\<rparr>), s3)))"

section \<open>Creating and removing entries\<close>

definition put_dirent :: "(nat \<Rightarrow> u8) \<Rightarrow> nat \<Rightarrow> u16 \<Rightarrow> u32 \<Rightarrow> bool \<Rightarrow> cstr \<Rightarrow> (nat \<Rightarrow> u8)" where
  "put_dirent p off slot child is_dir nm =
     put_bytes (put_bytes (wr16le (wr32le p off child) (off + 4) slot) (off + 6)
       [word_of_nat (length nm), if is_dir then 2 else 1]) (off + 8) nm"

definition slot_test :: "nat \<Rightarrow> (nat \<Rightarrow> u8) \<Rightarrow> nat \<times> ext2_dirent_hdr \<Rightarrow> bool" where
  "slot_test need blk e \<longleftrightarrow> de_inode (snd e) = 0 \<and> need \<le> de_rec_len (snd e)"

definition write_dirent :: "nat \<Rightarrow> u32 \<Rightarrow> u32 \<Rightarrow> ext2_inode \<Rightarrow> 'd ext2_st \<Rightarrow> bool \<times> 'd ext2_st" where
  "write_dirent f b dir_ino dino st =
     (case write_block f b st of (False, s1) \<Rightarrow> (False, s1) | (True, s1) \<Rightarrow> write_inode f dir_ino dino s1)"

definition ext2_insert_dirent ::
  "nat \<Rightarrow> ext2_inode \<Rightarrow> u32 \<Rightarrow> u32 \<Rightarrow> cstr \<Rightarrow> bool \<Rightarrow> 'd ext2_st \<Rightarrow> bool \<times> ext2_inode \<times> 'd ext2_st" where
  "ext2_insert_dirent f dino dir_ino child nm is_dir st =
     (if nm = [] \<or> VFS_NAME_MAX \<le> length nm then (False, dino, st)
      else case find_dirent f (slot_test (rec_len_min (length nm))) (take 12 (e_block dino)) st of
        (Some (b, off, de), s1) \<Rightarrow>
          (let p = put_bytes (g_io s1) off (replicate (de_rec_len de) 0);
               s2 = s1\<lparr>g_io := put_dirent p off (word_of_nat (de_rec_len de)) child is_dir nm\<rparr>
           in case write_dirent f b dir_ino dino s2 of (ok, s3) \<Rightarrow> (ok, dino, s3))
      | (None, s1) \<Rightarrow>
          (case first_idx (\<lambda>i. e_block dino ! i = 0) 0 12 of
             None \<Rightarrow> (False, dino, s1)
           | Some bi \<Rightarrow>
               (case alloc_block f s1 of
                  (None, s2) \<Rightarrow> (False, dino, s2)
                | (Some nb, s2) \<Rightarrow>
                    let sz = e_size dino + block_size (ext2_mounts s2 f);
                        d1 = dino\<lparr>e_block := (e_block dino)[bi := nb], e_size := sz, e_blocks := (sz + 511) div 512\<rparr>;
                        s3 = zero_io f s2;
                        s4 = s3\<lparr>g_io := put_dirent (g_io s3) 0 (ucast (block_size (ext2_mounts s3 f))) child is_dir nm\<rparr>
                    in case write_dirent f nb dir_ino d1 s4 of (ok, s5) \<Rightarrow> (ok, d1, s5))))"

definition dir_block_init :: "u32 \<Rightarrow> u32 \<Rightarrow> u32 \<Rightarrow> (nat \<Rightarrow> u8) \<Rightarrow> (nat \<Rightarrow> u8)" where
  "dir_block_init nino par bsz p =
     put_dirent (put_dirent p 0 (word_of_nat (rec_len_min 1)) nino True [46]) (rec_len_min 1)
       (ucast (bsz - word_of_nat (rec_len_min 1))) par True [46, 46]"

definition new_inode :: "u16 \<Rightarrow> bool \<Rightarrow> u32 \<Rightarrow> u32 \<Rightarrow> ext2_inode" where
  "new_inode mode is_dir euid1 egid1 =
     zero_inode_rec\<lparr>e_mode := (if is_dir then 0x4000 else 0x8000) OR (mode AND 0x1FF), e_uid := ucast euid1,
       e_gid := ucast egid1, links_count := if is_dir then 2 else 1\<rparr>"

text \<open>The first block of a new directory, with its two entries; the parent gains a link.\<close>

definition init_directory ::
  "nat \<Rightarrow> u32 \<Rightarrow> u32 \<Rightarrow> ext2_inode \<Rightarrow> 'd ext2_st \<Rightarrow> ext2_inode option \<times> 'd ext2_st" where
  "init_directory f nino par ni st =
     (case alloc_block f st of
        (None, s1) \<Rightarrow> (None, s1)
      | (Some nb, s1) \<Rightarrow>
          (let bsz = block_size (ext2_mounts s1 f);
               s2 = zero_io f s1
           in case write_block f nb (s2\<lparr>g_io := dir_block_init nino par bsz (g_io s2)\<rparr>) of
                (False, s3) \<Rightarrow> (None, s3)
              | (True, s3) \<Rightarrow>
                  (Some (ni\<lparr>e_block := (e_block ni)[0 := nb], e_size := bsz, e_blocks := bsz div 512\<rparr>), s3)))"

definition ext2_create_like ::
  "nat \<Rightarrow> vfs_inode \<Rightarrow> cstr \<Rightarrow> u16 \<Rightarrow> bool \<Rightarrow> u32 \<Rightarrow> u32 \<Rightarrow> vfs_inode \<Rightarrow> 'd ext2_st \<Rightarrow> vfs_inode option \<times> 'd ext2_st" where
  "ext2_create_like f dir nm mode is_dir euid1 egid1 out st =
     (if nm = [] \<or> VFS_NAME_MAX \<le> length nm then (None, st)
      else case read_inode f (i_ino dir) st of
        (None, s1) \<Rightarrow> (None, s1)
      | (Some dino, s1) \<Rightarrow>
          (case ext2_lookup f dir nm out s1 of
             (Some _, s2) \<Rightarrow> (None, s2)
           | (None, s2) \<Rightarrow>
               (case ext2_alloc_from_bitmap f (inode_bitmap (bg (ext2_mounts s2 f)))
                       (inodes_per_group (sb (ext2_mounts s2 f))) True s2 of
                  (None, s3) \<Rightarrow> (None, s3)
                | (Some nino, s3) \<Rightarrow>
                    (case (if is_dir then init_directory f nino (i_ino dir) (new_inode mode is_dir euid1 egid1) s3
                           else (Some (new_inode mode is_dir euid1 egid1), s3)) of
                       (None, s4) \<Rightarrow> (None, s4)
                     | (Some ni, s4) \<Rightarrow>
                         let d1 = (if is_dir then dino\<lparr>links_count := links_count dino + 1\<rparr> else dino)
                         in case write_inode f nino ni s4 of
                              (False, s5) \<Rightarrow> (None, s5)
                            | (True, s5) \<Rightarrow>
                                (case ext2_insert_dirent f d1 (i_ino dir) nino nm is_dir s5 of
                                   (False, d2, s6) \<Rightarrow> (None, s6)
                                 | (True, d2, s6) \<Rightarrow>
                                     (case write_inode f (i_ino dir) d2 s6 of
                                        (False, s7) \<Rightarrow> (None, s7)
                                      | (True, s7) \<Rightarrow>
                                          (Some (out\<lparr>i_ino := nino, i_mode := mode, i_size := e_size ni,
                                             i_uid := e_uid ni, i_gid := e_gid ni\<rparr>), s7)))))))"

definition ext2_create where "ext2_create f dir nm mode = ext2_create_like f dir nm mode False"
definition ext2_mkdir where "ext2_mkdir f dir nm mode = ext2_create_like f dir nm mode True"

definition unlink_test :: "cstr \<Rightarrow> (nat \<Rightarrow> u8) \<Rightarrow> nat \<times> ext2_dirent_hdr \<Rightarrow> bool" where
  "unlink_test nm blk e \<longleftrightarrow> dirent_live (snd e) \<and> strcmp (dirent_name blk (fst e) (snd e)) nm = 0"

definition ext2_unlink :: "nat \<Rightarrow> vfs_inode \<Rightarrow> cstr \<Rightarrow> 'd ext2_st \<Rightarrow> bool \<times> 'd ext2_st" where
  "ext2_unlink f dir nm st =
     (case read_inode f (i_ino dir) st of
        (None, s1) \<Rightarrow> (False, s1)
      | (Some dino, s1) \<Rightarrow>
          (case find_dirent f (unlink_test nm) (take 12 (e_block dino)) s1 of
             (None, s2) \<Rightarrow> (False, s2)
           | (Some (b, off, de), s2) \<Rightarrow> write_block f b (s2\<lparr>g_io := wr32le (g_io s2) off 0\<rparr>)))"

section \<open>Attributes and statistics\<close>

definition ext2_statfs :: "nat \<Rightarrow> 'd ext2_st \<Rightarrow> u32 \<times> u32" where
  "ext2_statfs f st =
     (let fs = ext2_mounts st f;
          total :: u64 = ucast (blocks_count (sb fs)) * ucast (block_size fs);
          free :: u64 = ucast (sb_free_blocks_count (sb fs)) * ucast (block_size fs);
          used = (if total > free then total - free else 0)
      in (ucast (total div 1024), ucast (used div 1024)))"

definition ext2_setattr :: "nat \<Rightarrow> vfs_inode \<Rightarrow> u16 \<Rightarrow> u16 \<Rightarrow> u16 \<Rightarrow> u32 \<Rightarrow> 'd ext2_st \<Rightarrow> bool \<times> 'd ext2_st" where
  "ext2_setattr f inode mode uid1 gid1 mask1 st =
     (case read_inode f (i_ino inode) st of
        (None, s1) \<Rightarrow> (False, s1)
      | (Some x, s1) \<Rightarrow>
          (let x1 = (if mask1 AND 1 \<noteq> 0 then x\<lparr>e_mode := (e_mode x AND 0xF000) OR (mode AND 0xFFF)\<rparr> else x);
               x2 = (if mask1 AND 2 \<noteq> 0 then x1\<lparr>e_uid := uid1\<rparr> else x1);
               x3 = (if mask1 AND 4 \<noteq> 0 then x2\<lparr>e_gid := gid1\<rparr> else x2)
           in write_inode f (i_ino inode) x3 s1))"

end
