(* ===== verification/VfsPath.thy ===== *)
theory VfsPath
  imports CString FdTypes Ext2
begin

text \<open>
  The path and permission routines of \<^verbatim>\<open>src/vfs/vfs.c\<close>: \<open>normalize_path\<close>, \<open>path_split_last\<close>,
  \<open>parse_decimal_str\<close>, \<open>vfs_permission_check\<close> and the mixing functions of the random pool. The
  character loops of the source, which move an index through a buffer, are recursions on the rest
  of the string; a copy that does not fit its buffer is \<open>None\<close>. The reference definition of a
  path is its list of components: \<open>components\<close> splits at slashes, \<open>canonical\<close> resolves \<open>.\<close> and
  \<open>..\<close>, and \<open>normalize_path\<close> is proved to compute it.
\<close>

section \<open>Normalising a path\<close>

abbreviation slash :: u8 where "slash \<equiv> 47"
abbreviation dot :: u8 where "dot \<equiv> 46"

definition path_src :: "cstr \<Rightarrow> cstr option \<Rightarrow> cstr option" where
  "path_src cwd1 inp =
     (let t = (case inp of
                 None \<Rightarrow> cwd1
               | Some s \<Rightarrow> if s = [] then cwd1
                           else if hd s = slash then s
                           else (if strcmp cwd1 (lit ''/'') \<noteq> 0 then cwd1 @ lit ''/'' else cwd1) @ s)
      in if length t < VFS_PATH_MAX then Some t else None)"

definition norm_up :: "cstr \<Rightarrow> cstr" where
  "norm_up out = (if 1 < length out then rev (dropWhile (\<lambda>c. c \<noteq> slash) (rev (butlast out))) else out)"

definition norm_sep :: "cstr \<Rightarrow> cstr" where
  "norm_sep out = (if 1 < length out \<and> length out < VFS_PATH_MAX - 1 then out @ [slash] else out)"

definition norm_put :: "cstr \<Rightarrow> cstr \<Rightarrow> cstr" where
  "norm_put out part = norm_sep out @ take (VFS_PATH_MAX - 1 - length (norm_sep out)) part"

definition norm_step :: "cstr \<Rightarrow> cstr \<Rightarrow> cstr" where
  "norm_step out part =
     (if part = [dot] then out else if part = [dot, dot] then norm_up out else norm_put out part)"

function norm_loop :: "cstr \<Rightarrow> cstr \<Rightarrow> cstr" where
  "norm_loop tmp out =
     (let t = dropWhile (\<lambda>c. c = slash) tmp
      in if t = [] then out
         else norm_loop (dropWhile (\<lambda>c. c \<noteq> slash) t) (norm_step out (takeWhile (\<lambda>c. c \<noteq> slash) t)))"
  by pat_completeness auto
termination
proof (relation "measure (\<lambda>(tmp, out). length tmp)")
  fix tmp out :: cstr and t
  assume t: "t = dropWhile (\<lambda>c. c = slash) tmp" "t \<noteq> []"
  then have "hd t \<noteq> slash" using hd_dropWhile [of "\<lambda>c. c = slash" tmp] by blast
  with t(2) have "length (dropWhile (\<lambda>c. c \<noteq> slash) t) < length t"
    by (cases t) (auto simp: le_imp_less_Suc length_dropWhile_le)
  moreover have "length t \<le> length tmp" using t(1) by (simp add: length_dropWhile_le)
  ultimately show "((dropWhile (\<lambda>c. c \<noteq> slash) t, norm_step out (takeWhile (\<lambda>c. c \<noteq> slash) t)), (tmp, out)) \<in> measure (\<lambda>(tmp, out). length tmp)"
    by simp
qed simp

declare norm_loop.simps [simp del]

definition norm_path :: "cstr \<Rightarrow> cstr option \<Rightarrow> cstr option" where
  "norm_path cwd1 inp =
     map_option (\<lambda>t. let out = norm_loop t (lit ''/'') in if out = [] then lit ''/'' else out) (path_src cwd1 inp)"

section \<open>Splitting off the last component\<close>

fun trim_len :: "cstr \<Rightarrow> nat \<Rightarrow> nat" where
  "trim_len path 0 = 0"
| "trim_len path (Suc n) = (if 0 < n \<and> path ! n = slash then trim_len path n else Suc n)"

fun cut_back :: "cstr \<Rightarrow> nat \<Rightarrow> nat" where
  "cut_back path 0 = 0"
| "cut_back path (Suc n) = (if path ! Suc n = slash then Suc n else cut_back path n)"

definition path_split_last :: "cstr \<Rightarrow> (cstr \<times> cstr) option" where
  "path_split_last path =
     (let len = trim_len path (length path); cut = cut_back path (len - 1); n = len - cut - 1
      in if n = 0 \<or> VFS_NAME_MAX \<le> n then None
         else Some (if cut = 0 then lit ''/'' else take cut path, take n (drop (cut + 1) path)))"

section \<open>Numbers\<close>

fun parse_decimal_loop :: "cstr \<Rightarrow> int \<Rightarrow> int option" where
  "parse_decimal_loop [] v = Some v"
| "parse_decimal_loop (c # s) v =
     (if sint c < 48 \<or> 57 < sint c then None
      else let v' = v * 10 + (sint c - 48) in if v' < 0 \<or> 1000000 < v' then None else parse_decimal_loop s v')"

definition parse_decimal_str :: "cstr \<Rightarrow> int option" where
  "parse_decimal_str s = (if s = [] then None else parse_decimal_loop s 0)"

section \<open>Permissions\<close>


definition perm_bits :: "vfs_inode \<Rightarrow> task \<Rightarrow> u16" where
  "perm_bits ino t =
     (let mode = i_mode ino AND 0xFFF
      in if euid t = ucast (i_uid ino) then drop_bit 6 mode AND 7
         else if egid t = ucast (i_gid ino) then drop_bit 3 mode AND 7
         else mode AND 7)"

definition vfs_permission_check :: "vfs_inode \<Rightarrow> u16 \<Rightarrow> task \<Rightarrow> int" where
  "vfs_permission_check ino mask1 t =
     (if euid t = 0 then
        (if mask1 AND 1 \<noteq> 0 \<and> (i_mode ino AND 0xFFF) AND 0x49 = 0 then - EACCES else 0)
      else let bits = perm_bits ino t
           in if mask1 AND 4 \<noteq> 0 \<and> bits AND 4 = 0 then - EACCES
              else if mask1 AND 2 \<noteq> 0 \<and> bits AND 2 = 0 then - EACCES
              else if mask1 AND 1 \<noteq> 0 \<and> bits AND 1 = 0 then - EACCES
              else 0)"

section \<open>The random pool\<close>

definition mix64 :: "u64 \<Rightarrow> u64" where
  "mix64 x =
     (let x = x XOR drop_bit 30 x; x = x * 0xBF58476D1CE4E5B9; x = x XOR drop_bit 27 x;
          x = x * 0x94D049BB133111EB
      in x XOR drop_bit 31 x)"

definition xorshift :: "u64 \<Rightarrow> u64" where
  "xorshift x = (let x = x XOR drop_bit 12 x; x = x XOR push_bit 25 x in x XOR drop_bit 27 x)"


section \<open>Components of a path\<close>

fun split_at :: "cstr \<Rightarrow> cstr list" where
  "split_at [] = [[]]"
| "split_at (c # s) = (if c = slash then [] # split_at s else (c # hd (split_at s)) # tl (split_at s))"

definition components :: "cstr \<Rightarrow> cstr list" where
  "components s = filter (\<lambda>p. p \<noteq> []) (split_at s)"

definition canon_step :: "cstr list \<Rightarrow> cstr \<Rightarrow> cstr list" where
  "canon_step ps p = (if p = [dot] then ps else if p = [dot, dot] then butlast ps else ps @ [p])"

definition canonical :: "cstr list \<Rightarrow> cstr list" where
  "canonical ps = foldl canon_step [] ps"

lemma split_at_nonempty [simp]: "split_at s \<noteq> []"
  by (cases s) auto

lemma split_at_word: "slash \<notin> set p \<Longrightarrow> split_at (p @ s) = (p @ hd (split_at s)) # tl (split_at s)"
  by (induction p) auto

lemma components_simps [simp]:
  "components [] = []" "components (slash # s) = components s"
  by (simp_all add: components_def)

lemma components_word:
  assumes "slash \<notin> set p" "p \<noteq> []" "s = [] \<or> hd s = slash"
  shows "components (p @ s) = p # components s"
proof -
  have "components (p @ s) = filter (\<lambda>p. p \<noteq> []) ((p @ hd (split_at s)) # tl (split_at s))"
    by (simp only: components_def split_at_word [OF assms(1)])
  then show ?thesis using assms(2,3) by (cases s) (auto simp: components_def)
qed

lemma components_unfold:
  "components s = (let t = dropWhile (\<lambda>c. c = slash) s
     in if t = [] then [] else takeWhile (\<lambda>c. c \<noteq> slash) t # components (dropWhile (\<lambda>c. c \<noteq> slash) t))"
proof -
  let ?t = "dropWhile (\<lambda>c. c = slash) s"
  have e: "components s = components ?t" by (induction s) auto
  show ?thesis
  proof (cases ?t)
    case Nil
    then show ?thesis using e by (simp add: Let_def del: dropWhile_eq_Nil_conv)
  next
    case (Cons c r)
    then have "c \<noteq> slash" using hd_dropWhile [of "\<lambda>c. c = slash" s] by simp
    then have "components (takeWhile (\<lambda>c. c \<noteq> slash) (c # r) @ dropWhile (\<lambda>c. c \<noteq> slash) (c # r)) =
        takeWhile (\<lambda>c. c \<noteq> slash) (c # r) # components (dropWhile (\<lambda>c. c \<noteq> slash) (c # r))"
      by (intro components_word) (auto dest: set_takeWhileD simp: hd_dropWhile [where P = "\<lambda>c. c \<noteq> slash", simplified])
    then show ?thesis using e Cons by (simp only: Let_def takeWhile_dropWhile_id list.simps if_False)
  qed
qed

lemma norm_loop_components: "norm_loop tmp out = foldl norm_step out (components tmp)"
proof (induction tmp out rule: norm_loop.induct)
  case (1 tmp out)
  then show ?case
    by (subst norm_loop.simps, subst components_unfold) (auto simp: Let_def)
qed

lemma split_at_parts: "p \<in> set (split_at s) \<Longrightarrow> slash \<notin> set p"
proof (induction s arbitrary: p)
  case (Cons c s)
  have "slash \<notin> set (hd (split_at s))" "\<And>q. q \<in> set (tl (split_at s)) \<Longrightarrow> slash \<notin> set q"
    by (rule Cons.IH, simp) (rule Cons.IH, simp add: list.set_sel)
  then show ?case using Cons by (auto split: if_splits)
qed simp

lemma components_parts: "p \<in> set (components s) \<Longrightarrow> p \<noteq> [] \<and> slash \<notin> set p"
  by (auto simp: components_def dest: split_at_parts)

lemma split_at_append: "split_at (u @ slash # v) = split_at u @ split_at v"
  by (induction u) auto

lemma components_append [simp]: "components (u @ slash # v) = components u @ components v"
  by (simp add: components_def split_at_append)

lemma components_single: "slash \<notin> set p \<Longrightarrow> p \<noteq> [] \<Longrightarrow> components p = [p]"
  using components_word [of p "[]"] by simp

text \<open>The length of a path written with one slash before every component.\<close>

definition path_len :: "cstr list \<Rightarrow> nat" where
  "path_len ps = sum_list (map (\<lambda>p. Suc (length p)) ps)"

lemma path_len_simps [simp]: "path_len [] = 0" "path_len (p # ps) = Suc (length p) + path_len ps"
  by (simp_all add: path_len_def)

lemma path_len_split: "path_len (filter (\<lambda>p. p \<noteq> []) (tl (split_at s))) + length (hd (split_at s)) \<le> length s"
proof (induction s)
  case (Cons c s)
  obtain h r where e: "split_at s = h # r" by (cases "split_at s") auto
  then show ?case using Cons.IH by auto
qed simp

lemma path_len_components: "hd t = slash \<Longrightarrow> t \<noteq> [] \<Longrightarrow> path_len (components t) \<le> length t"
proof (cases t)
  case (Cons c s)
  assume "hd t = slash"
  then have e: "components t = components s" using Cons by simp
  obtain h r where "split_at s = h # r" by (cases "split_at s") auto
  then show ?thesis using e Cons path_len_split [of s] by (auto simp: components_def)
qed simp

section \<open>The loop of \<open>normalize_path\<close> never truncates\<close>

definition fits :: "cstr \<Rightarrow> cstr list \<Rightarrow> bool" where
  "fits out ps \<longleftrightarrow> out \<noteq> [] \<and> length out + path_len ps \<le> (if 1 < length out then VFS_PATH_MAX - 1 else VFS_PATH_MAX)"

lemma norm_put_fits:
  assumes "fits out (p # ps)"
  shows "norm_put out p = (if 1 < length out then out @ slash # p else out @ p)"
proof -
  have "length out = Suc (length (tl out))" using assms by (cases out) (auto simp: fits_def)
  then show ?thesis using assms by (auto simp: fits_def norm_put_def norm_sep_def VFS_PATH_MAX_def split: if_splits)
qed

lemma norm_up_prefix:
  assumes "hd out = slash" "1 < length out"
  obtains u v where "out = u @ slash # v" "norm_up out = u @ [slash]" "v \<noteq> []"
    "slash \<notin> set (butlast v)"
proof -
  let ?b = "rev (butlast out)" and ?P = "\<lambda>c. c \<noteq> slash"
  have b: "slash \<in> set ?b" using assms by (cases out) auto
  obtain y ys where d: "dropWhile ?P ?b = y # ys" using b by (cases "dropWhile ?P ?b") auto
  have y: "y = slash" using d hd_dropWhile [of ?P ?b] by simp
  have "?b = takeWhile ?P ?b @ slash # ys" using d y by (metis takeWhile_dropWhile_id)
  then have "butlast out = rev ys @ slash # rev (takeWhile ?P ?b)" by (metis rev_append rev.simps(2) rev_rev_ident append.assoc append_Cons append_Nil)
  then have "out = rev ys @ slash # (rev (takeWhile ?P ?b) @ [last out])"
    using assms(2) append_butlast_last_id [of out] by (metis append.assoc append_Cons list.size(3) not_less_zero)
  moreover have "norm_up out = rev ys @ [slash]" using assms(2) d y by (simp add: norm_up_def)
  ultimately show ?thesis by (intro that [of "rev ys" "rev (takeWhile ?P ?b) @ [last out]"]) (auto dest: set_takeWhileD)
qed

lemma norm_step_fits:
  assumes f: "fits out (p # ps)" and h: "hd out = slash" and p: "p \<noteq> []"
  shows "fits (norm_step out p) ps \<and> hd (norm_step out p) = slash"
proof -
  have up: "fits (norm_up out) ps \<and> hd (norm_up out) = slash"
  proof (cases "1 < length out")
    case True
    then obtain u v where "out = u @ slash # v" "norm_up out = u @ [slash]" "v \<noteq> []" by (rule norm_up_prefix [OF h])
    then show ?thesis using f h by (cases u) (auto simp: fits_def split: if_splits)
  qed (use f h in \<open>auto simp: norm_up_def fits_def\<close>)
  have "fits (norm_put out p) ps \<and> hd (norm_put out p) = slash"
    unfolding norm_put_fits [OF f] using f h p by (cases out) (auto simp: fits_def VFS_PATH_MAX_def split: if_splits)
  moreover have "fits out ps" using f by (auto simp: fits_def split: if_splits)
  ultimately show ?thesis using up h by (simp add: norm_step_def)
qed

lemma norm_fold_fits:
  assumes "fits out (ps @ qs)" "hd out = slash" "\<And>p. p \<in> set ps \<Longrightarrow> p \<noteq> []"
  shows "fits (foldl norm_step out ps) qs \<and> hd (foldl norm_step out ps) = slash"
  using assms
proof (induction ps arbitrary: out)
  case (Cons p ps)
  then show ?case using norm_step_fits [of out p "ps @ qs"] by simp
qed simp

section \<open>Normalisation computes the canonical path\<close>

definition path_of :: "cstr list \<Rightarrow> cstr" where
  "path_of ps = (if ps = [] then [slash] else concat (map (Cons slash) ps))"

definition dir_of :: "cstr list \<Rightarrow> cstr" where
  "dir_of ps = concat (map (Cons slash) ps) @ [slash]"

definition name_part :: "cstr \<Rightarrow> bool" where
  "name_part p \<longleftrightarrow> p \<noteq> [] \<and> slash \<notin> set p"

lemma components_joined:
  assumes "\<And>p. p \<in> set ps \<Longrightarrow> name_part p"
  shows "components (path_of ps) = ps" "components (dir_of ps) = ps"
proof -
  have c: "components (concat (map (Cons slash) ps)) = ps"
    using assms by (induction ps rule: rev_induct) (auto simp: components_single name_part_def)
  show "components (path_of ps) = ps" "components (dir_of ps) = ps"
    using c by (simp_all add: path_of_def dir_of_def components_append [of _ "[]", simplified])
qed

lemma put_joined:
  "fits (path_of ps) (p # qs) \<Longrightarrow> name_part p \<Longrightarrow> (\<And>q. q \<in> set ps \<Longrightarrow> name_part q) \<Longrightarrow> norm_put (path_of ps) p = path_of (ps @ [p])"
  by (subst norm_put_fits) (auto simp: path_of_def neq_Nil_conv name_part_def)

lemma up_joined:
  assumes "name_part p"
  shows "norm_up (concat (map (Cons slash) ps) @ slash # p) = dir_of ps" "norm_up (dir_of (ps @ [p])) = dir_of ps"
proof -
  have d: "dropWhile (\<lambda>c. c \<noteq> slash) (rev q @ slash # r) = slash # r" if "slash \<notin> set q" for q r :: cstr
    using that by (subst dropWhile_append2) auto
  have b: "butlast (u @ slash # p) = u @ slash # butlast p" for u using assms by (simp add: butlast_append name_part_def)
  have "slash \<notin> set (butlast p)" using assms by (auto simp: name_part_def dest: in_set_butlastD)
  then show "norm_up (concat (map (Cons slash) ps) @ slash # p) = dir_of ps"
    using assms by (auto simp: norm_up_def dir_of_def b d name_part_def)
  show "norm_up (dir_of (ps @ [p])) = dir_of ps"
    using assms d [of p] by (simp add: norm_up_def dir_of_def butlast_append name_part_def)
qed

lemma step_dots [simp]:
  "norm_step out [dot] = out" "norm_step out [dot, dot] = norm_up out" "canon_step ps [dot] = ps" "canon_step ps [dot, dot] = butlast ps"
  by (simp_all add: norm_step_def canon_step_def)

lemma norm_names:
  assumes "fits (path_of qs) ps" "\<And>p. p \<in> set (ps @ qs) \<Longrightarrow> name_part p" "[dot, dot] \<notin> set ps"
  shows "foldl norm_step (path_of qs) ps = path_of (foldl canon_step qs ps)"
  using assms
proof (induction ps arbitrary: qs)
  case (Cons p ps)
  have h: "hd (path_of qs) = slash" by (cases qs) (auto simp: path_of_def)
  have f: "fits (norm_step (path_of qs) p) ps" using norm_step_fits [OF Cons.prems(1) h] Cons.prems(2) [of p] by (simp add: name_part_def)
  have s: "norm_step (path_of qs) p = path_of (canon_step qs p)"
    using put_joined [OF Cons.prems(1)] Cons.prems(2,3) by (auto simp: norm_step_def canon_step_def)
  show ?case using Cons.IH [of "canon_step qs p"] f Cons.prems(2,3) by (auto simp: s canon_step_def split: if_splits)
qed simp

lemma norm_dots:
  assumes "set ps \<subseteq> {[dot], [dot, dot]}" "\<And>p. p \<in> set qs \<Longrightarrow> name_part p"
  shows "foldl norm_step (dir_of qs) ps = dir_of (foldl canon_step qs ps)"
  using assms
proof (induction ps arbitrary: qs)
  case (Cons p ps)
  have "norm_step (dir_of qs) p = dir_of (canon_step qs p)"
  proof (cases qs rule: rev_cases)
    case Nil
    then show ?thesis using Cons.prems(1) by (auto simp: norm_step_def canon_step_def dir_of_def norm_up_def)
  next
    case (snoc rs r)
    then show ?thesis using up_joined(2) [of r rs] Cons.prems by (auto simp: norm_step_def canon_step_def)
  qed
  then show ?case using Cons by (auto simp: canon_step_def dest: in_set_butlastD split: if_splits)
qed simp

lemma norm_dots_first:
  assumes "set ps \<subseteq> {[dot], [dot, dot]}" "\<And>p. p \<in> set qs \<Longrightarrow> name_part p"
  shows "foldl norm_step (path_of qs) ps \<in> {path_of (foldl canon_step qs ps), dir_of (foldl canon_step qs ps)}"
  using assms
proof (induction ps arbitrary: qs)
  case (Cons p ps)
  show ?case
  proof (cases "p = [dot]")
    case True
    then show ?thesis using Cons by (simp add: norm_step_def canon_step_def)
  next
    case False
    then have p: "p = [dot, dot]" using Cons.prems(1) by simp
    have "norm_up (path_of qs) = dir_of (butlast qs)"
    proof (cases qs rule: rev_cases)
      case Nil
      then show ?thesis by (simp add: path_of_def norm_up_def dir_of_def)
    next
      case (snoc rs r)
      then show ?thesis using up_joined(1) [of r rs] Cons.prems(2) by (simp add: path_of_def)
    qed
    then show ?thesis
      using norm_dots [of ps "butlast qs"] Cons.prems p by (auto dest: in_set_butlastD)
  qed
qed simp

lemma path_src_facts:
  assumes "path_src cwd1 inp = Some t" "cwd1 \<noteq> []" "hd cwd1 = slash"
  shows "t \<noteq> []" "hd t = slash" "length t < VFS_PATH_MAX" "fits (lit ''/'') (components t)"
proof -
  show t: "t \<noteq> []" "hd t = slash" "length t < VFS_PATH_MAX"
    using assms by (auto simp: path_src_def Let_def lit_def split: option.splits if_splits)
  show "fits (lit ''/'') (components t)"
    using path_len_components [OF t(2,1)] t(3) by (simp add: fits_def lit_def VFS_PATH_MAX_def)
qed

lemma norm_loop_nonempty: "path_src cwd1 inp = Some t \<Longrightarrow> cwd1 \<noteq> [] \<Longrightarrow> hd cwd1 = slash \<Longrightarrow>
  norm_path cwd1 inp = Some (foldl norm_step (lit ''/'') (components t)) \<and> fits (foldl norm_step (lit ''/'') (components t)) [] \<and>
  hd (foldl norm_step (lit ''/'') (components t)) = slash"
  using norm_fold_fits [of "lit ''/''" "components t" "[]"] path_src_facts(4) [of cwd1 inp t] components_parts
  by (simp add: norm_path_def norm_loop_components Let_def fits_def lit_def)

text \<open>C25: Normalisation computes the canonical path: with the working directory absolute, if every name of
  the joined path stands before every \<open>..\<close>, the result has exactly the components that
  remain when \<open>.\<close> is dropped and \<open>..\<close> removes its predecessor, and without \<open>..\<close> it is their canonical
  spelling with single slashes; nothing is truncated.\<close>

theorem normalize_path_canonical:
  assumes "cwd1 \<noteq> []" "hd cwd1 = slash" "path_src cwd1 inp = Some t" "components t = ps @ qs"
    "[dot, dot] \<notin> set ps" "set qs \<subseteq> {[dot], [dot, dot]}"
  shows "\<exists>r. norm_path cwd1 inp = Some r \<and> components r = canonical (components t) \<and>
    (qs = [] \<longrightarrow> r = path_of (canonical (components t)))"
proof -
  note F = path_src_facts [OF assms(3,1,2)]
  have np: "name_part p" if "p \<in> set (ps @ qs)" for p using components_parts [of p t] that assms(4) by (simp add: name_part_def)
  have root: "lit ''/'' = path_of []" by (simp add: path_of_def lit_def)
  have f: "fits (path_of []) ps" using F(4) unfolding assms(4) root by (auto simp: fits_def path_len_def split: if_splits)
  have names: "foldl norm_step (path_of []) ps = path_of (foldl canon_step [] ps)" by (rule norm_names [OF f _ assms(5)]) (use np in auto)
  have cs: "p \<in> set (foldl canon_step us vs) \<Longrightarrow> p \<in> set (us @ vs)" for p us vs
  proof (induction vs arbitrary: us)
    case (Cons v vs)
    have "set (canon_step us v) \<subseteq> insert v (set us)" by (auto simp: canon_step_def dest: in_set_butlastD)
    then show ?case using Cons.IH [of "canon_step us v"] Cons.prems by auto
  qed simp
  have np1: "name_part p" if "p \<in> set (foldl canon_step us vs)" "set (us @ vs) \<subseteq> set (ps @ qs)" for p us vs
    using cs [OF that(1)] that(2) np by blast
  have "foldl norm_step (path_of []) (ps @ qs) \<in> {path_of (canonical (ps @ qs)), dir_of (canonical (ps @ qs))}"
    using norm_dots_first [OF assms(6), of "foldl canon_step [] ps"] np1 [of _ "[]" ps] by (simp add: names canonical_def)
  moreover have "components (path_of (canonical (ps @ qs))) = canonical (ps @ qs)" "components (dir_of (canonical (ps @ qs))) = canonical (ps @ qs)"
    by (rule components_joined, rule np1 [of _ "[]" "ps @ qs"], simp add: canonical_def, simp)+
  ultimately show ?thesis
    using norm_loop_nonempty [OF assms(3,1,2)] names unfolding assms(4) root by (auto simp: canonical_def)
qed

theorem normalize_path_canonical_witness:
  "\<exists>r. norm_path (lit ''/home'') (Some (lit ''./x//y/..'')) = Some r \<and> components r = [lit ''home'', lit ''x'']"
proof -
  have t: "path_src (lit ''/home'') (Some (lit ''./x//y/..'')) = Some (lit ''/home/./x//y/..'')" by code_simp
  have c: "components (lit ''/home/./x//y/..'') = [lit ''home'', [dot], lit ''x'', lit ''y''] @ [[dot, dot]]" by code_simp
  have "canonical (components (lit ''/home/./x//y/..'')) = [lit ''home'', lit ''x'']" by code_simp
  then show ?thesis using normalize_path_canonical [OF _ _ t c] by (simp add: lit_def)
qed

text \<open>C26: Whatever the path, the normalised path is absolute, fits its buffer, and has only components of
  the source path, none of them \<open>.\<close> or \<open>..\<close>: the walk from a mount root never sees a
  component that leads upwards.\<close>

theorem normalize_path_confined:
  assumes "cwd1 \<noteq> []" "hd cwd1 = slash" "path_src cwd1 inp = Some t"
  shows "\<exists>r. norm_path cwd1 inp = Some r \<and> r \<noteq> [] \<and> hd r = slash \<and> length r < VFS_PATH_MAX \<and>
    set (components r) \<subseteq> set (components t) - {[dot], [dot, dot]}"
proof -
  let ?r = "foldl norm_step (lit ''/'') (components t)"
  have gen: "set (components (foldl norm_step out ps)) \<subseteq> S"
    if "fits out ps" "hd out = slash" "\<And>p. p \<in> set ps \<Longrightarrow> name_part p" "set (components out) \<subseteq> S" "set ps - {[dot], [dot, dot]} \<subseteq> S" for out ps S
    using that
  proof (induction ps arbitrary: out)
    case (Cons p ps)
    note f = norm_step_fits [OF Cons.prems(1,2)]
    have "set (components (norm_up out)) \<subseteq> S"
    proof (cases "1 < length out")
      case True
      then obtain u v where "out = u @ slash # v" "norm_up out = u @ [slash]" by (rule norm_up_prefix [OF Cons.prems(2)])
      then show ?thesis using Cons.prems(4) by (simp add: components_append [of u "[]"])
    qed (use Cons.prems(4) in \<open>simp add: norm_up_def\<close>)
    moreover have "set (components (norm_put out p)) \<subseteq> insert p S"
      unfolding norm_put_fits [OF Cons.prems(1)]
      using Cons.prems(1-4) by (cases out) (auto simp: components_single name_part_def fits_def)
    ultimately have "set (components (norm_step out p)) \<subseteq> S" using Cons.prems(4,5) by (auto simp: norm_step_def)
    then show ?case using Cons.IH [of "norm_step out p"] f Cons.prems(3,5) by (auto simp: name_part_def)
  qed simp
  have "set (components ?r) \<subseteq> set (components t) - {[dot], [dot, dot]}"
    by (rule gen [OF path_src_facts(4) [OF assms(3,1,2)]]) (use components_parts in \<open>auto simp: lit_def name_part_def\<close>)
  then show ?thesis
    using norm_loop_nonempty [OF assms(3,1,2)] by (auto simp: fits_def VFS_PATH_MAX_def split: if_splits)
qed

theorem normalize_path_confined_witness:
  "\<exists>r. norm_path (lit ''/a'') (Some (lit ''../../b/../c'')) = Some r \<and> set (components r) \<subseteq> {lit ''a'', lit ''b'', lit ''c''}"
proof -
  have t: "path_src (lit ''/a'') (Some (lit ''../../b/../c'')) = Some (lit ''/a/../../b/../c'')" by code_simp
  have "set (components (lit ''/a/../../b/../c'')) - {[dot], [dot, dot]} = {lit ''a'', lit ''b'', lit ''c''}" by code_simp
  then show ?thesis using normalize_path_confined [OF _ _ t] by (auto simp: lit_def)
qed

text \<open>A name after \<open>..\<close> leaves a doubled slash behind, on which the next \<open>..\<close> stops short.\<close>

lemma normalize_dotdot_defect:
  "norm_path (lit ''/'') (Some (lit ''/a/b/../c/../..'')) = Some (lit ''/a/'')"
  "canonical (components (lit ''/a/b/../c/../..'')) = []"
  "norm_path (lit ''/'') (Some (lit ''/dev/x/../null'')) = Some (lit ''/dev//null'')"
  by code_simp+

section \<open>Properties of the other routines\<close>

lemma trim_len_plain: "path \<noteq> [] \<Longrightarrow> last path \<noteq> slash \<Longrightarrow> trim_len path (length path) = length path"
  by (cases "length path") (auto simp: last_conv_nth)

lemma cut_back_at:
  assumes "u @ slash # v = path" "slash \<notin> set v" "n < Suc (length u + length v)" "length u \<le> n"
  shows "cut_back path n = length u"
  using assms(3,4)
proof (induction n)
  case (Suc n)
  show ?case
  proof (cases "length u = Suc n")
    case True
    then show ?thesis using assms(1) by (auto simp: nth_append)
  next
    case False
    then have "path ! Suc n = v ! (n - length u)" "n - length u < length v"
      using assms(1) Suc.prems by (auto simp: nth_append nth_Cons' Suc_diff_le)
    then have "path ! Suc n \<noteq> slash" using assms(2) by (metis nth_mem)
    then show ?thesis using Suc False by simp
  qed
qed (use assms(1) in simp)

text \<open>The last component of a path that does not end in a slash is split off exactly: the parent is
  the part before the last slash (the root if that is empty), and a name that does not fit an inode
  name is refused.\<close>

theorem path_split_last_spec:
  assumes "slash \<notin> set v" "v \<noteq> []"
  shows "path_split_last (u @ slash # v) =
    (if length v < VFS_NAME_MAX then Some (if u = [] then lit ''/'' else u, v) else None)"
proof -
  have "last (u @ slash # v) \<noteq> slash" using assms by (metis last_append last_ConsR last_in_set list.distinct(1))
  then have t: "trim_len (u @ slash # v) (length (u @ slash # v)) = Suc (length u + length v)"
    by (subst trim_len_plain) auto
  have "cut_back (u @ slash # v) (length u + length v) = length u" by (rule cut_back_at [OF refl assms(1)]) auto
  then show ?thesis using t assms(2) by (simp add: path_split_last_def Let_def)
qed

theorem path_split_last_spec_witness:
  "path_split_last (lit ''/sbin/init'') = Some (lit ''/sbin'', lit ''init'')"
  using path_split_last_spec [of "lit ''init''" "lit ''/sbin''"] by (simp add: lit_def VFS_NAME_MAX_def)

lemma and_bit_zero: "(m :: u16) AND 1 = 0 \<longleftrightarrow> \<not> bit m 0" "m AND 2 = 0 \<longleftrightarrow> \<not> bit m 1" "m AND 4 = 0 \<longleftrightarrow> \<not> bit m 2"
  using and_exp_eq_0_iff_not_bit [of m 0] and_exp_eq_0_iff_not_bit [of m 1] and_exp_eq_0_iff_not_bit [of m 2] by simp_all

lemma perm_masks: "(7 :: u16) = mask 3" "(0xFFF :: u16) = mask 12"
  by (simp_all add: mask_eq_exp_minus_1)

lemma perm_bits_bit: "r < 3 \<Longrightarrow> bit (perm_bits ino t) r \<longleftrightarrow>
   bit (i_mode ino) (r + (if euid t = ucast (i_uid ino) then 6 else if egid t = ucast (i_gid ino) then 3 else 0))"
  by (auto simp: perm_bits_def Let_def perm_masks bit_and_iff bit_drop_bit_eq bit_mask_iff add.commute)

lemma any_exec: "(md :: u16) AND 0x49 \<noteq> 0 \<longleftrightarrow> bit md 0 \<or> bit md 3 \<or> bit md 6"
proof -
  have "(0x49 :: u16) = 2 ^ 0 OR (2 ^ 3 OR 2 ^ 6)" by simp
  then have "md AND 0x49 = 0 \<longleftrightarrow> md AND 2 ^ 0 = 0 \<and> md AND 2 ^ 3 = 0 \<and> md AND 2 ^ 6 = 0"
    by (simp only: bit.conj_disj_distrib or_eq_0_iff)
  then show ?thesis by (simp only: and_exp_eq_0_iff_not_bit) blast
qed

lemma below_3: "(\<forall>r < 3. P r) \<longleftrightarrow> P 2 \<and> P 1 \<and> P (0 :: nat)"
  by (auto simp: numeral_3_eq_3 numeral_2_eq_2 less_Suc_eq)

text \<open>C27: The permission check grants exactly what the mode bits of the inode say: for an ordinary process each
  requested bit (read 2, write 1, execute 0) must be set in the triple of its class, which is bits 6 to 8 of the mode for
  the owner, else bits 3 to 5 for a member of the group, else bits 0 to 2, so the owner is
  judged by the owner bits even if the group or others have more; the superuser is refused only
  execution of a file nobody may execute (bits 0, 3 and 6 clear). The result is 0 or the error.\<close>

theorem permission_check_spec:
  "((vfs_permission_check ino m t = 0) \<longleftrightarrow>
     (if euid t = 0 then bit m 0 \<longrightarrow> bit (i_mode ino) 0 \<or> bit (i_mode ino) 3 \<or> bit (i_mode ino) 6
      else \<forall>r < 3. bit m r \<longrightarrow>
        bit (i_mode ino) (r + (if euid t = ucast (i_uid ino) then 6 else if egid t = ucast (i_gid ino) then 3 else 0)))) \<and>
   vfs_permission_check ino m t \<in> {0, - EACCES}"
proof (rule conjI)
  have a: "(i_mode ino AND 0xFFF) AND 0x49 = i_mode ino AND 0x49"
    by (subst and.assoc) simp
  have e: "i_mode ino AND 0x49 = 0 \<longleftrightarrow> \<not> (bit (i_mode ino) 0 \<or> bit (i_mode ino) 3 \<or> bit (i_mode ino) 6)"
    using any_exec [of "i_mode ino"] by blast
  have b: "bit (perm_bits ino t) 0 \<longleftrightarrow> bit (i_mode ino) (0 + (if euid t = ucast (i_uid ino) then 6 else if egid t = ucast (i_gid ino) then 3 else 0))"
    "bit (perm_bits ino t) 1 \<longleftrightarrow> bit (i_mode ino) (1 + (if euid t = ucast (i_uid ino) then 6 else if egid t = ucast (i_gid ino) then 3 else 0))"
    "bit (perm_bits ino t) 2 \<longleftrightarrow> bit (i_mode ino) (2 + (if euid t = ucast (i_uid ino) then 6 else if egid t = ucast (i_gid ino) then 3 else 0))"
    by (simp_all only: perm_bits_bit)
  show "(vfs_permission_check ino m t = 0) \<longleftrightarrow>
     (if euid t = 0 then bit m 0 \<longrightarrow> bit (i_mode ino) 0 \<or> bit (i_mode ino) 3 \<or> bit (i_mode ino) 6
      else \<forall>r < 3. bit m r \<longrightarrow>
        bit (i_mode ino) (r + (if euid t = ucast (i_uid ino) then 6 else if egid t = ucast (i_gid ino) then 3 else 0)))"
    unfolding vfs_permission_check_def Let_def a e and_bit_zero b below_3 EACCES_def by auto
qed (auto simp: vfs_permission_check_def Let_def)

theorem permission_check_spec_witness:
  "vfs_permission_check (zero_inode\<lparr>i_mode := 0x81A4, i_uid := 5\<rparr>) 2 (zero_task\<lparr>euid := 7, egid := 1\<rparr>) = - EACCES \<and>
   vfs_permission_check (zero_inode\<lparr>i_mode := 0x81A4, i_uid := 7\<rparr>) 6 (zero_task\<lparr>euid := 7, egid := 1\<rparr>) = 0"
proof (rule conjI)
  let ?t = "zero_task\<lparr>euid := 7, egid := 1\<rparr>"
  let ?i = "zero_inode\<lparr>i_mode := 0x81A4, i_uid := 5\<rparr>"
  show "vfs_permission_check ?i 2 ?t = - EACCES"
    using permission_check_spec [of ?i 2 ?t] by (auto simp: below_3 zero_inode_def zero_task_def)
  let ?j = "zero_inode\<lparr>i_mode := 0x81A4, i_uid := 7\<rparr>"
  show "vfs_permission_check ?j 6 ?t = 0"
    using permission_check_spec [of ?j 6 ?t] by (auto simp: below_3 zero_inode_def zero_task_def)
qed
section \<open>The mixing functions lose nothing\<close>

lemma drop_bit_fix: "0 < k \<Longrightarrow> drop_bit k (z :: u64) = z \<Longrightarrow> z = 0"
proof -
  assume k: "0 < k" and z: "drop_bit k z = z"
  have "unat z div 2 ^ k = unat z" using z by (metis unat_drop_bit_eq drop_bit_eq_div)
  then have "unat z = 0" using k by (metis div_less_dividend gr0I one_less_numeral_iff one_less_power semiring_norm(76) less_irrefl)
  then show ?thesis by (simp add: unat_eq_0)
qed

lemma push_bit_fix:
  assumes "0 < k" "push_bit k (z :: u64) = z"
  shows "z = 0"
proof -
  have "\<not> bit z n" for n
  proof (induction n rule: less_induct)
    case (less n)
    have "bit z n \<longleftrightarrow> k \<le> n \<and> n < 64 \<and> bit z (n - k)" using arg_cong [OF assms(2), of "\<lambda>w. bit w n"] by (auto simp: bit_simps)
    then show ?case using less [of "n - k"] assms(1) by auto
  qed
  then show ?thesis by (simp add: bit_eq_iff)
qed

lemma xor_shift_inj:
  assumes "0 < k"
  shows "x XOR drop_bit k x = y XOR drop_bit k y \<longleftrightarrow> x = (y :: u64)" "x XOR push_bit k x = y XOR push_bit k y \<longleftrightarrow> x = (y :: u64)"
proof -
  have c: "f (a XOR b) = a XOR b" if "a XOR f a = b XOR f b" "f (a XOR b) = f a XOR f b" for f :: "u64 \<Rightarrow> u64" and a b
  proof -
    have "bit (f a XOR f b) n = bit (a XOR b) n" for n
      using arg_cong [OF that(1), of "\<lambda>w. bit w n"] by (auto simp: bit_xor_iff)
    then show ?thesis unfolding that(2) by (simp add: bit_eq_iff)
  qed
  have e: "a = b" if "a XOR b = 0" for a b :: u64
  proof -
    have "bit a n = bit b n" for n using arg_cong [OF that, of "\<lambda>w. bit w n"] by (auto simp: bit_xor_iff)
    then show ?thesis by (simp add: bit_eq_iff)
  qed
  show "x XOR drop_bit k x = y XOR drop_bit k y \<longleftrightarrow> x = y"
    using drop_bit_fix [OF assms, of "x XOR y"] c [of x "drop_bit k" y] e [of x y] by (metis drop_bit_xor)
  show "x XOR push_bit k x = y XOR push_bit k y \<longleftrightarrow> x = y"
    using push_bit_fix [OF assms, of "x XOR y"] c [of x "push_bit k" y] e [of x y] by (metis push_bit_xor)
qed

lemma mult_inj:
  assumes "a' * a = (1 :: u64)"
  shows "x * a = y * a \<longleftrightarrow> x = y"
proof
  assume "x * a = y * a"
  then have "a' * a * x = a' * a * y" by (simp add: mult.assoc mult.commute [of a])
  then show "x = y" by (simp add: assms)
qed simp

text \<open>The functions that stir the random pool lose no state: \<open>mix64\<close> and the generator step are injective,
  so no two pool states are ever merged, and the generator is stuck at zero only if it starts there.\<close>

theorem rng_lossless:
  "inj mix64 \<and> inj xorshift \<and> (xorshift x = 0 \<longleftrightarrow> x = 0)"
proof (intro conjI)
  have "0x96DE1B173F119089 * 0xBF58476D1CE4E5B9 = (1 :: u64)" "0x319642B2D24D8EC3 * 0x94D049BB133111EB = (1 :: u64)" by simp_all
  note m = this [THEN mult_inj]
  show "inj mix64" by (rule injI) (simp only: mix64_def Let_def xor_shift_inj m zero_less_numeral)
  show i: "inj xorshift" by (rule injI) (simp only: xorshift_def Let_def xor_shift_inj zero_less_numeral)
  have "xorshift 0 = 0" by (simp add: xorshift_def)
  then show "xorshift x = 0 \<longleftrightarrow> x = 0" using injD [OF i, of x 0] by auto
qed

end
