(* ===== verification/FdTable.thy ===== *)
theory FdTable
  imports FdTypes
begin

text \<open>
  Descriptor tables and the objects behind them, \<^verbatim>\<open>src/sys/syscall.c\<close> (the part from the object
  pools to the pseudo terminals).

  Shown: an object lives exactly until its last reference is dropped (one locale, four pools);
  pipes and pseudo terminals likewise; descriptor allocation; releasing a process closes what it
  holds and touches no task, which is the contract \<open>fd_release\<close> of the process layer; cloning on
  fork keeps every reference counted.
\<close>

definition in_range :: "int \<Rightarrow> nat \<Rightarrow> bool" where
  "in_range i n \<longleftrightarrow> 0 \<le> i \<and> i < int n"

section \<open>Objects behind special descriptors\<close>

definition eventfd_alloc_obj :: "u64 \<Rightarrow> bool \<Rightarrow> 'a kern_scheme \<Rightarrow> int \<times> 'a kern_scheme" where
  "eventfd_alloc_obj initval semaphore s =
     (case first_idx (\<lambda>i. \<not> ev_used (eventfds s i)) 0 EDGE_MAX_EVENTFDS of
        Some i \<Rightarrow> (int i, s\<lparr>eventfds := (eventfds s)(i := zero_eventfd\<lparr>ev_used := True, ev_refs := 1,
                    ev_counter := initval, ev_semaphore := semaphore\<rparr>)\<rparr>)
      | None \<Rightarrow> (-1, s))"

definition eventfd_add_ref :: "int \<Rightarrow> 'a kern_scheme \<Rightarrow> 'a kern_scheme" where
  "eventfd_add_ref i s =
     (if in_range i EDGE_MAX_EVENTFDS \<and> ev_used (eventfds s (nat i))
      then s\<lparr>eventfds := (eventfds s)(nat i := (eventfds s (nat i))\<lparr>ev_refs := ev_refs (eventfds s (nat i)) + 1\<rparr>)\<rparr> else s)"

definition eventfd_drop_ref :: "int \<Rightarrow> 'a kern_scheme \<Rightarrow> 'a kern_scheme" where
  "eventfd_drop_ref i s =
     (if \<not> in_range i EDGE_MAX_EVENTFDS \<or> \<not> ev_used (eventfds s (nat i)) then s
      else let r = ev_refs (eventfds s (nat i)) - 1
           in s\<lparr>eventfds := (eventfds s)(nat i :=
                 if r \<le> 0 then zero_eventfd else (eventfds s (nat i))\<lparr>ev_refs := r\<rparr>)\<rparr>)"

definition timerfd_alloc_obj :: "int \<Rightarrow> 'a kern_scheme \<Rightarrow> int \<times> 'a kern_scheme" where
  "timerfd_alloc_obj clockid s =
     (case first_idx (\<lambda>i. \<not> tm_used (timerfds s i)) 0 EDGE_MAX_TIMERFDS of
        Some i \<Rightarrow> (int i, s\<lparr>timerfds := (timerfds s)(i := zero_timerfd\<lparr>tm_used := True, tm_refs := 1, tm_clockid := clockid\<rparr>)\<rparr>)
      | None \<Rightarrow> (-1, s))"

definition timerfd_add_ref :: "int \<Rightarrow> 'a kern_scheme \<Rightarrow> 'a kern_scheme" where
  "timerfd_add_ref i s =
     (if in_range i EDGE_MAX_TIMERFDS \<and> tm_used (timerfds s (nat i))
      then s\<lparr>timerfds := (timerfds s)(nat i := (timerfds s (nat i))\<lparr>tm_refs := tm_refs (timerfds s (nat i)) + 1\<rparr>)\<rparr> else s)"

definition timerfd_drop_ref :: "int \<Rightarrow> 'a kern_scheme \<Rightarrow> 'a kern_scheme" where
  "timerfd_drop_ref i s =
     (if \<not> in_range i EDGE_MAX_TIMERFDS \<or> \<not> tm_used (timerfds s (nat i)) then s
      else let r = tm_refs (timerfds s (nat i)) - 1
           in s\<lparr>timerfds := (timerfds s)(nat i :=
                 if r \<le> 0 then zero_timerfd else (timerfds s (nat i))\<lparr>tm_refs := r\<rparr>)\<rparr>)"

definition signalfd_alloc_obj :: "u64 \<Rightarrow> 'a kern_scheme \<Rightarrow> int \<times> 'a kern_scheme" where
  "signalfd_alloc_obj m s =
     (case first_idx (\<lambda>i. \<not> sg_used (signalfds s i)) 0 EDGE_MAX_SIGNALFDS of
        Some i \<Rightarrow> (int i, s\<lparr>signalfds := (signalfds s)(i := zero_signalfd\<lparr>sg_used := True, sg_refs := 1, sg_mask := m\<rparr>)\<rparr>)
      | None \<Rightarrow> (-1, s))"

definition signalfd_add_ref :: "int \<Rightarrow> 'a kern_scheme \<Rightarrow> 'a kern_scheme" where
  "signalfd_add_ref i s =
     (if in_range i EDGE_MAX_SIGNALFDS \<and> sg_used (signalfds s (nat i))
      then s\<lparr>signalfds := (signalfds s)(nat i := (signalfds s (nat i))\<lparr>sg_refs := sg_refs (signalfds s (nat i)) + 1\<rparr>)\<rparr> else s)"

definition signalfd_drop_ref :: "int \<Rightarrow> 'a kern_scheme \<Rightarrow> 'a kern_scheme" where
  "signalfd_drop_ref i s =
     (if \<not> in_range i EDGE_MAX_SIGNALFDS \<or> \<not> sg_used (signalfds s (nat i)) then s
      else let r = sg_refs (signalfds s (nat i)) - 1
           in s\<lparr>signalfds := (signalfds s)(nat i :=
                 if r \<le> 0 then zero_signalfd else (signalfds s (nat i))\<lparr>sg_refs := r\<rparr>)\<rparr>)"

definition epoll_alloc_obj :: "'a kern_scheme \<Rightarrow> int \<times> 'a kern_scheme" where
  "epoll_alloc_obj s =
     (case first_idx (\<lambda>i. \<not> ep_used (epolls s i)) 0 EDGE_MAX_EPOLLS of
        Some i \<Rightarrow> (int i, s\<lparr>epolls := (epolls s)(i := zero_epoll\<lparr>ep_used := True, ep_refs := 1\<rparr>)\<rparr>)
      | None \<Rightarrow> (-1, s))"

definition epoll_add_ref :: "int \<Rightarrow> 'a kern_scheme \<Rightarrow> 'a kern_scheme" where
  "epoll_add_ref i s =
     (if in_range i EDGE_MAX_EPOLLS \<and> ep_used (epolls s (nat i))
      then s\<lparr>epolls := (epolls s)(nat i := (epolls s (nat i))\<lparr>ep_refs := ep_refs (epolls s (nat i)) + 1\<rparr>)\<rparr> else s)"

definition epoll_drop_ref :: "int \<Rightarrow> 'a kern_scheme \<Rightarrow> 'a kern_scheme" where
  "epoll_drop_ref i s =
     (if \<not> in_range i EDGE_MAX_EPOLLS \<or> \<not> ep_used (epolls s (nat i)) then s
      else let r = ep_refs (epolls s (nat i)) - 1
           in s\<lparr>epolls := (epolls s)(nat i :=
                 if r \<le> 0 then zero_epoll else (epolls s (nat i))\<lparr>ep_refs := r\<rparr>)\<rparr>)"

section \<open>Sockets\<close>

definition upd_sock :: "nat \<Rightarrow> (edge_socket \<Rightarrow> edge_socket) \<Rightarrow> 'a kern_scheme \<Rightarrow> 'a kern_scheme" where
  "upd_sock i f s = s\<lparr>sockets := (sockets s)(i := f (sockets s i))\<rparr>"

definition socket_alloc :: "'a kern_scheme \<Rightarrow> int \<times> 'a kern_scheme" where
  "socket_alloc s =
     (case first_idx (\<lambda>i. \<not> so_used (sockets s i)) 0 EDGE_MAX_SOCKETS of
        Some i \<Rightarrow> (int i, upd_sock i (\<lambda>_. zero_socket\<lparr>so_used := True, so_refs := 1\<rparr>) s)
      | None \<Rightarrow> (-1, s))"

definition socket_pending_enqueue :: "nat \<Rightarrow> int \<Rightarrow> 'a kern_scheme \<Rightarrow> int \<times> 'a kern_scheme" where
  "socket_pending_enqueue l sock_id s =
     (if EDGE_SOCK_ACCEPTQ \<le> pending_count (sockets s l) then (-1, s)
      else (0, upd_sock l (\<lambda>x. x\<lparr>pending_sock_ids := (pending_sock_ids x)(pending_tail x := sock_id),
              pending_tail := (pending_tail x + 1) mod EDGE_SOCK_ACCEPTQ, pending_count := pending_count x + 1\<rparr>) s))"

definition socket_pending_dequeue :: "nat \<Rightarrow> 'a kern_scheme \<Rightarrow> int \<times> 'a kern_scheme" where
  "socket_pending_dequeue l s =
     (let x = sockets s l
      in if pending_count x = 0 then (-1, s)
         else (pending_sock_ids x (pending_head x),
               upd_sock l (\<lambda>x. x\<lparr>pending_head := (pending_head x + 1) mod EDGE_SOCK_ACCEPTQ,
                 pending_count := pending_count x - 1\<rparr>) s))"

definition socket_add_ref :: "int \<Rightarrow> 'a kern_scheme \<Rightarrow> 'a kern_scheme" where
  "socket_add_ref i s =
     (if in_range i EDGE_MAX_SOCKETS \<and> so_used (sockets s (nat i))
      then upd_sock (nat i) (\<lambda>x. x\<lparr>so_refs := so_refs x + 1\<rparr>) s else s)"

definition close_pcb :: "edge_socket \<Rightarrow> lwip_call list" where
  "close_pcb x =
     (case so_pcb x of
        None \<Rightarrow> []
      | Some p \<Rightarrow>
          if (so_domain x = LINUX_AF_INET \<or> so_domain x = LINUX_AF_INET6) \<and> so_type x = LINUX_SOCK_DGRAM then [UdpRemove p]
          else if (so_domain x = LINUX_AF_INET \<or> so_domain x = LINUX_AF_INET6) \<and> so_type x = LINUX_SOCK_STREAM
          then [if listening x then TcpCloseListen p else TcpCloseConn p] else [])"

definition socket_destroy :: "nat \<Rightarrow> 'a kern_scheme \<Rightarrow> 'a kern_scheme" where
  "socket_destroy i s =
     (let x = sockets s i;
          s1 = (if so_domain x = LINUX_AF_UNIX \<and> in_range (unix_peer_id x) EDGE_MAX_SOCKETS \<and>
                   so_used (sockets s (nat (unix_peer_id x)))
                then upd_sock (nat (unix_peer_id x)) (\<lambda>y. y\<lparr>so_closed := True, unix_peer_id := -1\<rparr>) s else s);
          s2 = s1\<lparr>lwip_calls := lwip_calls s1 @ close_pcb (sockets s1 i)\<rparr>
      in upd_sock i (\<lambda>_. zero_socket) s2)"

text \<open>
  Dropping a listening socket drops its pending connections. The recursion takes fuel; each
  connection taken from a queue consumes one unit.
\<close>

fun socket_drop :: "nat \<Rightarrow> int \<Rightarrow> 'a kern_scheme \<Rightarrow> 'a kern_scheme"
and socket_drain :: "nat \<Rightarrow> nat \<Rightarrow> 'a kern_scheme \<Rightarrow> 'a kern_scheme" where
  "socket_drop n i s =
     (if \<not> in_range i EDGE_MAX_SOCKETS \<or> \<not> so_used (sockets s (nat i)) then s
      else if 1 < so_refs (sockets s (nat i)) then upd_sock (nat i) (\<lambda>x. x\<lparr>so_refs := so_refs x - 1\<rparr>) s
      else socket_destroy (nat i) (if listening (sockets s (nat i)) then socket_drain n (nat i) s else s))"
| "socket_drain 0 i s = s"
| "socket_drain (Suc n) i s =
     (if pending_count (sockets s i) = 0 then s
      else let (ps, s1) = socket_pending_dequeue i s
           in socket_drain n i (if 0 \<le> ps then socket_drop n ps s1 else s1))"

definition pending_total :: "'a kern_scheme \<Rightarrow> nat" where
  "pending_total s = (\<Sum>i < EDGE_MAX_SOCKETS. pending_count (sockets s i))"

definition socket_drop_ref :: "int \<Rightarrow> 'a kern_scheme \<Rightarrow> 'a kern_scheme" where
  "socket_drop_ref i s = socket_drop (pending_total s) i s"

section \<open>Open file references\<close>

definition file_ref_alloc :: "'a kern_scheme \<Rightarrow> nat \<times> 'a kern_scheme" where
  "file_ref_alloc s =
     (case first_idx (\<lambda>i. \<not> fr_used (file_refs s i)) 1 EDGE_MAX_FILE_REFS of
        Some i \<Rightarrow> (i, s\<lparr>file_refs := (file_refs s)(i := \<lparr>fr_used = True, fr_refs = 1\<rparr>)\<rparr>)
      | None \<Rightarrow> (0, s))"

definition file_ref_ok :: "nat \<Rightarrow> 'a kern_scheme \<Rightarrow> bool" where
  "file_ref_ok i s \<longleftrightarrow> 0 < i \<and> i < EDGE_MAX_FILE_REFS \<and> fr_used (file_refs s i) \<and> 0 < fr_refs (file_refs s i)"

definition file_ref_get :: "nat \<Rightarrow> 'a kern_scheme \<Rightarrow> int \<times> 'a kern_scheme" where
  "file_ref_get i s =
     (if \<not> file_ref_ok i s then (-1, s)
      else (0, s\<lparr>file_refs := (file_refs s)(i := (file_refs s i)\<lparr>fr_refs := fr_refs (file_refs s i) + 1\<rparr>)\<rparr>))"

definition file_ref_put :: "nat \<Rightarrow> 'a kern_scheme \<Rightarrow> int \<times> 'a kern_scheme" where
  "file_ref_put i s =
     (if \<not> file_ref_ok i s then (-1, s)
      else let r = fr_refs (file_refs s i) - 1
           in (int r, s\<lparr>file_refs := (file_refs s)(i := \<lparr>fr_used = (r \<noteq> 0), fr_refs = r\<rparr>)\<rparr>))"

section \<open>Pipes\<close>

definition pipe_alloc :: "'a kern_scheme \<Rightarrow> int \<times> 'a kern_scheme" where
  "pipe_alloc s =
     (case first_idx (\<lambda>i. \<not> pp_used (pipes s i)) 0 EDGE_MAX_PIPES of
        Some i \<Rightarrow> (int i, s\<lparr>pipes := (pipes s)(i := zero_pipe\<lparr>pp_used := True\<rparr>)\<rparr>)
      | None \<Rightarrow> (-1, s))"

definition pipe_settle :: "edge_pipe \<Rightarrow> edge_pipe" where
  "pipe_settle p = (if readers p = 0 \<and> writers p = 0 then zero_pipe else p)"

definition pipe_drop_reader :: "int \<Rightarrow> 'a kern_scheme \<Rightarrow> 'a kern_scheme" where
  "pipe_drop_reader i s =
     (if \<not> in_range i EDGE_MAX_PIPES \<or> \<not> pp_used (pipes s (nat i)) then s
      else s\<lparr>pipes := (pipes s)(nat i := pipe_settle ((pipes s (nat i))\<lparr>readers := readers (pipes s (nat i)) - 1\<rparr>))\<rparr>)"

definition pipe_drop_writer :: "int \<Rightarrow> 'a kern_scheme \<Rightarrow> 'a kern_scheme" where
  "pipe_drop_writer i s =
     (if \<not> in_range i EDGE_MAX_PIPES \<or> \<not> pp_used (pipes s (nat i)) then s
      else s\<lparr>pipes := (pipes s)(nat i := pipe_settle ((pipes s (nat i))\<lparr>writers := writers (pipes s (nat i)) - 1\<rparr>))\<rparr>)"

section \<open>Terminals\<close>

definition termios_init_sane :: edge_termios where
  "termios_init_sane = zero_termios\<lparr>c_oflag := LINUX_OPOST OR LINUX_ONLCR, c_lflag := LINUX_ICANON OR LINUX_ECHO OR LINUX_ISIG,
     c_cc := (replicate 19 0)[0 := 3, 2 := 127, 3 := 21, 4 := 4, 5 := 0, 6 := 1]\<rparr>"

definition pty_alloc :: "'a kern_scheme \<Rightarrow> int \<times> 'a kern_scheme" where
  "pty_alloc s =
     (case first_idx (\<lambda>i. \<not> pty_used (ptys s i)) 0 EDGE_MAX_PTYS of
        Some i \<Rightarrow> (int i, s\<lparr>ptys := (ptys s)(i := zero_pty\<lparr>pty_used := True, refs_master := 1, refs_slave := 0,
                    unlocked := False, fg_pgid := 0, pty_termios := termios_init_sane, ws_row := 25, ws_col := 80\<rparr>)\<rparr>)
      | None \<Rightarrow> (-1, s))"

definition pty_add_ref :: "int \<Rightarrow> bool \<Rightarrow> 'a kern_scheme \<Rightarrow> 'a kern_scheme" where
  "pty_add_ref i is_master s =
     (if \<not> in_range i EDGE_MAX_PTYS \<or> \<not> pty_used (ptys s (nat i)) then s
      else let p = ptys s (nat i)
           in s\<lparr>ptys := (ptys s)(nat i := if is_master then p\<lparr>refs_master := refs_master p + 1\<rparr>
                                         else p\<lparr>refs_slave := refs_slave p + 1\<rparr>)\<rparr>)"

definition pty_drop_ref :: "int \<Rightarrow> bool \<Rightarrow> 'a kern_scheme \<Rightarrow> 'a kern_scheme" where
  "pty_drop_ref i is_master s =
     (if \<not> in_range i EDGE_MAX_PTYS \<or> \<not> pty_used (ptys s (nat i)) then s
      else let p = ptys s (nat i);
               q = (if is_master then p\<lparr>refs_master := refs_master p - 1\<rparr> else p\<lparr>refs_slave := refs_slave p - 1\<rparr>)
           in s\<lparr>ptys := (ptys s)(nat i := if refs_master q = 0 \<and> refs_slave q = 0 then zero_pty else q)\<rparr>)"

definition pty_ring_push :: "u8 \<Rightarrow> ring \<Rightarrow> ring option" where
  "pty_ring_push c r =
     (if EDGE_PTY_BUF_SIZE \<le> rcount r then None
      else Some (r\<lparr>rbuf := (rbuf r)(wpos r := c), wpos := (wpos r + 1) mod EDGE_PTY_BUF_SIZE, rcount := rcount r + 1\<rparr>))"

definition pty_echo_to_master :: "u8 \<Rightarrow> edge_pty \<Rightarrow> edge_pty" where
  "pty_echo_to_master c p = (case pty_ring_push c (s2m p) of Some r \<Rightarrow> p\<lparr>s2m := r\<rparr> | None \<Rightarrow> p)"

fun pty_echo_seq_to_master :: "cstr \<Rightarrow> edge_pty \<Rightarrow> edge_pty" where
  "pty_echo_seq_to_master [] p = p"
| "pty_echo_seq_to_master (c # cs) p =
     (case pty_ring_push c (s2m p) of Some r \<Rightarrow> pty_echo_seq_to_master cs (p\<lparr>s2m := r\<rparr>) | None \<Rightarrow> p)"

fun ring_has :: "(u8 \<Rightarrow> bool) \<Rightarrow> (nat \<Rightarrow> u8) \<Rightarrow> nat \<Rightarrow> nat \<Rightarrow> bool" where
  "ring_has stop b pos 0 = False"
| "ring_has stop b pos (Suc cnt) = (stop (b pos) \<or> ring_has stop b ((pos + 1) mod EDGE_PTY_BUF_SIZE) cnt)"

definition line_end :: "edge_pty \<Rightarrow> u8 \<Rightarrow> bool" where
  "line_end p c \<longleftrightarrow> c = 10 \<or> c = c_cc (pty_termios p) ! LINUX_VEOF"

definition pty_slave_input_have_canonical_line :: "edge_pty \<Rightarrow> bool" where
  "pty_slave_input_have_canonical_line p = ring_has (line_end p) (rbuf (m2s p)) (rpos (m2s p)) (rcount (m2s p))"

fun ring_line :: "(u8 \<Rightarrow> bool) \<Rightarrow> (nat \<Rightarrow> u8) \<Rightarrow> nat \<Rightarrow> nat \<Rightarrow> nat \<Rightarrow> nat" where
  "ring_line stop b pos 0 req = 0"
| "ring_line stop b pos (Suc cnt) req =
     (if req = 0 then 0
      else if stop (b pos) then 1
      else 1 + ring_line stop b ((pos + 1) mod EDGE_PTY_BUF_SIZE) cnt (req - 1))"

definition pty_slave_read_limit :: "edge_pty \<Rightarrow> nat \<Rightarrow> nat \<Rightarrow> nat" where
  "pty_slave_read_limit p req avail =
     (if c_lflag (pty_termios p) AND LINUX_ICANON = 0 then min req avail
      else ring_line (line_end p) (rbuf (m2s p)) (rpos (m2s p)) (rcount (m2s p)) (min req avail))"

definition path_is_console_tty :: "cstr \<Rightarrow> bool" where
  "path_is_console_tty path \<longleftrightarrow>
     path \<noteq> [] \<and>
     (path = lit ''/dev/tty'' \<or> path = lit ''/dev/console'' \<or>
      take 8 path = lit ''/dev/tty'' \<and> drop 8 path \<noteq> [] \<and> list_all (\<lambda>c. 48 \<le> c \<and> c \<le> 57) (drop 8 path))"

definition path_is_mouse_input :: "cstr \<Rightarrow> bool" where
  "path_is_mouse_input path \<longleftrightarrow> path = lit ''/dev/input/mice'' \<or> path = lit ''/dev/input/mouse0''"

definition fd_is_tty :: "edge_fd \<Rightarrow> bool" where
  "fd_is_tty e \<longleftrightarrow> fd_kind e = FD_CONSOLE \<or> fd_kind e = FD_PTY_MASTER \<or> fd_kind e = FD_PTY_SLAVE \<or>
     fd_kind e = FD_VFS \<and> path_is_console_tty (fd_path e)"

definition tty_pgrp_alive :: "int \<Rightarrow> 'a sched_scheme \<Rightarrow> bool" where
  "tty_pgrp_alive g s \<longleftrightarrow> 0 < g \<and>
     list_ex (\<lambda>i. state (tasks s (TaskP i)) \<noteq> TASK_UNUSED \<and> state (tasks s (TaskP i)) \<noteq> TASK_ZOMBIE \<and>
       pgid (tasks s (TaskP i)) = g) [0..<PROC_MAX_TASKS]"

section \<open>Descriptor tables\<close>

definition upd_fds :: "nat \<Rightarrow> ((nat \<Rightarrow> edge_fd) \<Rightarrow> nat \<Rightarrow> edge_fd) \<Rightarrow> 'a kern_scheme \<Rightarrow> 'a kern_scheme" where
  "upd_fds p f s = s\<lparr>fd_procs := (fd_procs s)(p := (fd_procs s p)\<lparr>fds := f (fds (fd_procs s p))\<rparr>)\<rparr>"

definition stdio_fd :: "nat \<Rightarrow> int \<Rightarrow> edge_fd \<Rightarrow> edge_fd" where
  "stdio_fd ref fl e = e\<lparr>fd_used := True, fd_kind := FD_CONSOLE, file_ref := ref, fd_oflags := fl, fd_flags := 0, pipe_id := -1\<rparr>"

definition ensure_one :: "nat \<Rightarrow> nat \<Rightarrow> int \<Rightarrow> bool \<times> 'a kern_scheme \<Rightarrow> bool \<times> 'a kern_scheme" where
  "ensure_one p i fl r =
     (let (go, s) = r
      in if \<not> go \<or> fd_used (fds (fd_procs s p) i) then (go, s)
         else case file_ref_alloc s of
                (ref, s1) \<Rightarrow> if ref = 0 then (False, s1) else (True, upd_fds p (\<lambda>t. t(i := stdio_fd ref fl (t i))) s1))"

definition fd_ensure_stdio :: "nat \<Rightarrow> 'a kern_scheme \<Rightarrow> 'a kern_scheme" where
  "fd_ensure_stdio p s = snd (ensure_one p 2 LINUX_O_WRONLY (ensure_one p 1 LINUX_O_WRONLY (ensure_one p 0 0 (True, s))))"

definition fd_proc_find :: "int \<Rightarrow> 'a kern_scheme \<Rightarrow> nat option" where
  "fd_proc_find q s = first_idx (\<lambda>i. fdp_pid (fd_procs s i) = q) 0 EDGE_MAX_FD_PROCS"

definition fd_proc_for_pid :: "int \<Rightarrow> bool \<Rightarrow> 'a kern_scheme \<Rightarrow> nat option \<times> 'a kern_scheme" where
  "fd_proc_for_pid q create s =
     (case fd_proc_find q s of
        Some i \<Rightarrow> (Some i, s)
      | None \<Rightarrow>
          if \<not> create then (None, s)
          else case fd_proc_find 0 s of
                 None \<Rightarrow> (None, s)
               | Some i \<Rightarrow> (Some i, fd_ensure_stdio i (s\<lparr>fd_procs := (fd_procs s)(i := zero_fd_proc\<lparr>fdp_pid := q\<rparr>)\<rparr>)))"

definition fd_proc_with_stdio :: "'a kern_scheme \<Rightarrow> nat option \<times> 'a kern_scheme" where
  "fd_proc_with_stdio s =
     (case fd_proc_for_pid (process_getpid s) True s of
        (None, s1) \<Rightarrow> (None, s1)
      | (Some p, s1) \<Rightarrow> (Some p, fd_ensure_stdio p s1))"

definition fd_alloc :: "nat \<Rightarrow> int \<Rightarrow> 'a kern_scheme \<Rightarrow> int \<times> 'a kern_scheme" where
  "fd_alloc p minfd s =
     (case first_idx (\<lambda>i. \<not> fd_used (fds (fd_procs s p) i)) (nat minfd) EDGE_MAX_FD of
        Some i \<Rightarrow> (int i, upd_fds p (\<lambda>t. t(i := zero_fd\<lparr>fd_used := True\<rparr>)) s)
      | None \<Rightarrow> (-1, s))"

definition fd_get :: "nat \<Rightarrow> int \<Rightarrow> 'a kern_scheme \<Rightarrow> edge_fd option" where
  "fd_get p fd s =
     (if \<not> in_range fd EDGE_MAX_FD \<or> \<not> fd_used (fds (fd_procs s p) (nat fd)) then None
      else Some (fds (fd_procs s p) (nat fd)))"

definition fd_proc_has_pty_fd :: "int \<Rightarrow> 'a kern_scheme \<Rightarrow> bool" where
  "fd_proc_has_pty_fd q s =
     (case fd_proc_find q s of
        None \<Rightarrow> False
      | Some p \<Rightarrow> list_ex (\<lambda>i. let e = fds (fd_procs s p) i
                              in fd_used e \<and> (fd_kind e = FD_PTY_MASTER \<or> fd_kind e = FD_PTY_SLAVE)) [0..<EDGE_MAX_FD])"

definition task_by_pid_mutable_local :: "int \<Rightarrow> 'a sched_scheme \<Rightarrow> tptr option" where
  "task_by_pid_mutable_local q s = (if q \<le> 0 then Some (process_current_task s) else task_find_by_pid q s)"

definition pty_flagged :: "task option \<Rightarrow> (nat \<Rightarrow> edge_fd) \<Rightarrow> nat \<Rightarrow> bool" where
  "pty_flagged t fd k \<longleftrightarrow>
     (case t of Some x \<Rightarrow> ctty_kind x = PROCESS_CTTY_PTY \<and> ctty_id x = int k | None \<Rightarrow> False) \<or>
     list_ex (\<lambda>i. fd_used (fd i) \<and> (fd_kind (fd i) = FD_PTY_MASTER \<or> fd_kind (fd i) = FD_PTY_SLAVE) \<and>
       pipe_id (fd i) = int k) [0..<EDGE_MAX_FD]"

definition owns_pgrp :: "task option \<Rightarrow> int \<Rightarrow> bool" where
  "owns_pgrp t g \<longleftrightarrow> (case t of Some x \<Rightarrow> 0 < pgid x \<and> g = pgid x | None \<Rightarrow> False)"

definition reset_pty :: "task option \<Rightarrow> edge_pty \<Rightarrow> edge_pty" where
  "reset_pty t p = p\<lparr>fg_pgid := (if owns_pgrp t (fg_pgid p) then 0 else fg_pgid p), pty_termios := termios_init_sane\<rparr>"

definition reset_terminals :: "task option \<Rightarrow> (nat \<Rightarrow> edge_fd) \<Rightarrow> 'a kern_scheme \<Rightarrow> 'a kern_scheme" where
  "reset_terminals t fd s =
     s\<lparr>tty_termios := termios_init_sane, tty_line_len := 0, tty_line_pos := 0,
       tty_foreground_pgid := (if owns_pgrp t (tty_foreground_pgid s) then 0 else tty_foreground_pgid s),
       ptys := (\<lambda>i. if i < EDGE_MAX_PTYS \<and> pty_flagged t fd i \<and> pty_used (ptys s i) then reset_pty t (ptys s i) else ptys s i)\<rparr>"

definition drop_object :: "edge_fd \<Rightarrow> 'a kern_scheme \<Rightarrow> 'a kern_scheme" where
  "drop_object e s =
     (case fd_kind e of
        FD_PIPE_R \<Rightarrow> pipe_drop_reader (pipe_id e) s
      | FD_PIPE_W \<Rightarrow> pipe_drop_writer (pipe_id e) s
      | FD_SOCKET \<Rightarrow> socket_drop_ref (pipe_id e) s
      | FD_PTY_MASTER \<Rightarrow> pty_drop_ref (pipe_id e) True s
      | FD_PTY_SLAVE \<Rightarrow> pty_drop_ref (pipe_id e) False s
      | FD_EVENTFD \<Rightarrow> eventfd_drop_ref (pipe_id e) s
      | FD_TIMERFD \<Rightarrow> timerfd_drop_ref (pipe_id e) s
      | FD_SIGNALFD \<Rightarrow> signalfd_drop_ref (pipe_id e) s
      | FD_EPOLL \<Rightarrow> epoll_drop_ref (pipe_id e) s
      | _ \<Rightarrow> s)"

definition drop_fd :: "edge_fd \<Rightarrow> 'a kern_scheme \<Rightarrow> 'a kern_scheme" where
  "drop_fd e s =
     (if \<not> fd_used e then s
      else drop_object e (if 0 < file_ref e then snd (file_ref_put (file_ref e) s) else s))"

definition fd_proc_release :: "int \<Rightarrow> 'a kern_scheme \<Rightarrow> 'a kern_scheme" where
  "fd_proc_release q s =
     (let t = map_option (tasks s) (task_by_pid_mutable_local q s)
      in case fd_proc_find q s of
           None \<Rightarrow> s
         | Some p \<Rightarrow>
             let fd = fds (fd_procs s p);
                 s1 = reset_terminals t fd s;
                 s2 = fold (\<lambda>i. drop_fd (fd i)) [0..<EDGE_MAX_FD] s1
             in s2\<lparr>fd_procs := (fd_procs s2)(p := zero_fd_proc)\<rparr>)"

definition syscall_release_process_fds :: "int \<Rightarrow> 'a kern_scheme \<Rightarrow> 'a kern_scheme" where
  "syscall_release_process_fds q s = fd_proc_release q s"

definition add_object :: "edge_fd \<Rightarrow> 'a kern_scheme \<Rightarrow> 'a kern_scheme" where
  "add_object e s =
     (case fd_kind e of
        FD_PIPE_R \<Rightarrow> if in_range (pipe_id e) EDGE_MAX_PIPES
          then s\<lparr>pipes := (pipes s)(nat (pipe_id e) := (pipes s (nat (pipe_id e)))\<lparr>readers := readers (pipes s (nat (pipe_id e))) + 1\<rparr>)\<rparr> else s
      | FD_PIPE_W \<Rightarrow> if in_range (pipe_id e) EDGE_MAX_PIPES
          then s\<lparr>pipes := (pipes s)(nat (pipe_id e) := (pipes s (nat (pipe_id e)))\<lparr>writers := writers (pipes s (nat (pipe_id e))) + 1\<rparr>)\<rparr> else s
      | FD_SOCKET \<Rightarrow> if in_range (pipe_id e) EDGE_MAX_SOCKETS then socket_add_ref (pipe_id e) s else s
      | FD_PTY_MASTER \<Rightarrow> if in_range (pipe_id e) EDGE_MAX_PTYS then pty_add_ref (pipe_id e) True s else s
      | FD_PTY_SLAVE \<Rightarrow> if in_range (pipe_id e) EDGE_MAX_PTYS then pty_add_ref (pipe_id e) False s else s
      | FD_EVENTFD \<Rightarrow> eventfd_add_ref (pipe_id e) s
      | FD_TIMERFD \<Rightarrow> timerfd_add_ref (pipe_id e) s
      | FD_SIGNALFD \<Rightarrow> signalfd_add_ref (pipe_id e) s
      | FD_EPOLL \<Rightarrow> epoll_add_ref (pipe_id e) s
      | _ \<Rightarrow> s)"

definition clone_fd :: "nat \<Rightarrow> (nat \<Rightarrow> edge_fd) \<Rightarrow> nat \<Rightarrow> 'a kern_scheme \<Rightarrow> 'a kern_scheme" where
  "clone_fd child pf i s =
     (let e = pf i
      in if \<not> fd_used e then s
         else
           let (r, s1) = (if 0 < file_ref e then file_ref_get (file_ref e) s else (0, s))
           in if r < 0 then s1
              else add_object e (upd_fds child (\<lambda>t. t(i := e)) s1))"

definition fd_clone_after_fork :: "int \<Rightarrow> int \<Rightarrow> 'a kern_scheme \<Rightarrow> 'a kern_scheme" where
  "fd_clone_after_fork parent_pid child_pid s =
     (case fd_proc_find parent_pid s of
        None \<Rightarrow> s
      | Some par \<Rightarrow>
          if child_pid \<le> 0 then s
          else case fd_proc_for_pid child_pid True s of
                 (None, s1) \<Rightarrow> s1
               | (Some child, s1) \<Rightarrow>
                   let s2 = upd_fds child (\<lambda>_ _. zero_fd) s1
                   in fold (clone_fd child (fds (fd_procs s1 par))) [0..<EDGE_MAX_FD] s2)"

definition tty_reset_defaults :: "'a kern_scheme \<Rightarrow> 'a kern_scheme" where
  "tty_reset_defaults s =
     s\<lparr>tty_termios := termios_init_sane, tty_line_len := 0, tty_line_pos := 0, tty_foreground_pgid := 0\<rparr>"

section \<open>Reference counted pools\<close>

text \<open>
  The contract of a pool of counted objects: a new reference to an object in use counts, a dropped one counts back, and dropping the last
  clears the slot; no other slot changes. What a holder of references relies on is proved once.
\<close>

locale ref_pool =
  fixes slot :: "'s \<Rightarrow> nat \<Rightarrow> 'o"
    and used :: "'o \<Rightarrow> bool"
    and refs :: "'o \<Rightarrow> int"
    and set_refs :: "int \<Rightarrow> 'o \<Rightarrow> 'o"
    and free :: 'o
    and size :: nat
    and add_ref :: "int \<Rightarrow> 's \<Rightarrow> 's"
    and drop_ref :: "int \<Rightarrow> 's \<Rightarrow> 's"
  assumes slot_add: "k < size \<Longrightarrow> slot (add_ref (int k) s) j =
      (if j = k \<and> used (slot s k) then set_refs (refs (slot s k) + 1) (slot s k) else slot s j)"
    and slot_drop: "k < size \<Longrightarrow> slot (drop_ref (int k) s) j =
      (if j = k \<and> used (slot s k) then if refs (slot s k) \<le> 1 then free else set_refs (refs (slot s k) - 1) (slot s k) else slot s j)"
    and set_refs: "used (set_refs r x) = used x" "refs (set_refs r x) = r" "set_refs q (set_refs r x) = set_refs q x" "set_refs (refs x) x = x"
begin

lemma slot_adds:
  "k < size \<Longrightarrow> used (slot s k) \<Longrightarrow> slot ((add_ref (int k) ^^ n) s) j = (if j = k then set_refs (refs (slot s k) + int n) (slot s k) else slot s j)"
  by (induction n arbitrary: j) (simp_all add: slot_add set_refs algebra_simps)

lemma slot_drops:
  "k < size \<Longrightarrow> used (slot s k) \<Longrightarrow> int m < refs (slot s k) \<Longrightarrow>
    slot ((drop_ref (int k) ^^ m) s) j = (if j = k then set_refs (refs (slot s k) - int m) (slot s k) else slot s j)"
  by (induction m arbitrary: j) (simp_all add: slot_drop set_refs algebra_simps)

lemma lives_until_last_drop:
  assumes "k < size" "used (slot s k)" "refs (slot s k) = 1" "m \<le> n + 1"
  shows "slot ((drop_ref (int k) ^^ m) ((add_ref (int k) ^^ n) s)) j =
    (if j = k then if m \<le> n then set_refs (int (n + 1 - m)) (slot s k) else free else slot s j)"
proof -
  let ?s = "(add_ref (int k) ^^ n) s"
  have a: "slot ?s k = set_refs (1 + int n) (slot s k)" "used (slot ?s k)" "refs (slot ?s k) = 1 + int n"
    using slot_adds [OF assms(1,2), of n k] assms(2,3) by (simp_all add: set_refs)
  show ?thesis
  proof (cases "m \<le> n")
    case True
    then show ?thesis using slot_drops [OF assms(1) a(2), of m j] slot_adds [OF assms(1,2), of n j] a by (auto simp: set_refs of_nat_diff algebra_simps)
  next
    case False
    then have m: "m = Suc n" using assms(4) by simp
    have "slot ((drop_ref (int k) ^^ n) ?s) j = (if j = k then set_refs 1 (slot s k) else slot s j)" for j
      using slot_drops [OF assms(1) a(2), of n j] slot_adds [OF assms(1,2), of n j] a by (simp add: set_refs)
    then show ?thesis using m assms(1,2) by (simp add: slot_drop set_refs)
  qed
qed

end

interpretation eventfd: ref_pool eventfds ev_used ev_refs "\<lambda>r. ev_refs_update (\<lambda>_. r)" zero_eventfd EDGE_MAX_EVENTFDS eventfd_add_ref eventfd_drop_ref
  by unfold_locales (auto simp: eventfd_add_ref_def eventfd_drop_ref_def in_range_def Let_def zero_eventfd_def split: if_splits)

interpretation timerfd: ref_pool timerfds tm_used tm_refs "\<lambda>r. tm_refs_update (\<lambda>_. r)" zero_timerfd EDGE_MAX_TIMERFDS timerfd_add_ref timerfd_drop_ref
  by unfold_locales (auto simp: timerfd_add_ref_def timerfd_drop_ref_def in_range_def Let_def zero_timerfd_def split: if_splits)

interpretation signalfd: ref_pool signalfds sg_used sg_refs "\<lambda>r. sg_refs_update (\<lambda>_. r)" zero_signalfd EDGE_MAX_SIGNALFDS signalfd_add_ref signalfd_drop_ref
  by unfold_locales (auto simp: signalfd_add_ref_def signalfd_drop_ref_def in_range_def Let_def zero_signalfd_def split: if_splits)

interpretation epoll: ref_pool epolls ep_used ep_refs "\<lambda>r. ep_refs_update (\<lambda>_. r)" zero_epoll EDGE_MAX_EPOLLS epoll_add_ref epoll_drop_ref
  by unfold_locales (auto simp: epoll_add_ref_def epoll_drop_ref_def in_range_def Let_def zero_epoll_def split: if_splits)

lemma eventfd_alloc_spec:
  assumes "eventfd_alloc_obj v b s = (int k, s1)"
  shows "k < EDGE_MAX_EVENTFDS" "\<not> ev_used (eventfds s k)" "eventfds s1 = (eventfds s)(k := zero_eventfd\<lparr>ev_used := True, ev_refs := 1, ev_counter := v, ev_semaphore := b\<rparr>)"
  using assms by (auto simp: eventfd_alloc_obj_def dest: first_idx_SomeD split: option.splits)

lemma timerfd_alloc_spec:
  assumes "timerfd_alloc_obj ck s = (int k, s1)"
  shows "k < EDGE_MAX_TIMERFDS" "\<not> tm_used (timerfds s k)" "timerfds s1 = (timerfds s)(k := zero_timerfd\<lparr>tm_used := True, tm_refs := 1, tm_clockid := ck\<rparr>)"
  using assms by (auto simp: timerfd_alloc_obj_def dest: first_idx_SomeD split: option.splits)

lemma signalfd_alloc_spec:
  assumes "signalfd_alloc_obj msk s = (int k, s1)"
  shows "k < EDGE_MAX_SIGNALFDS" "\<not> sg_used (signalfds s k)" "signalfds s1 = (signalfds s)(k := zero_signalfd\<lparr>sg_used := True, sg_refs := 1, sg_mask := msk\<rparr>)"
  using assms by (auto simp: signalfd_alloc_obj_def dest: first_idx_SomeD split: option.splits)

lemma epoll_alloc_spec:
  assumes "epoll_alloc_obj  s = (int k, s1)"
  shows "k < EDGE_MAX_EPOLLS" "\<not> ep_used (epolls s k)" "epolls s1 = (epolls s)(k := zero_epoll\<lparr>ep_used := True, ep_refs := 1\<rparr>)"
  using assms by (auto simp: epoll_alloc_obj_def dest: first_idx_SomeD split: option.splits)

text \<open>
  C38: Object lifetime. An eventfd, timerfd, signalfd or epoll object that was just allocated took
  a free slot. After it was shared \<open>n\<close> more times and dropped \<open>m\<close> times, the slot holds the object as it was allocated, with the
  \<open>n + 1 - m\<close> references that are left, for \<open>m \<le> n\<close>, and after exactly \<open>n + 1\<close> drops the slot is cleared, so it
  is free again; every other slot of the pool is as it was before the allocation at any point.
\<close>
theorem object_lifetime:
  assumes "m \<le> n + 1"
    and "eventfd_alloc_obj v b s = (int k1, s1)" "timerfd_alloc_obj ck s = (int k2, s2)"
    and "signalfd_alloc_obj msk s = (int k3, s3)" "epoll_alloc_obj s = (int k4, s4)"
  shows "(\<not> ev_used (eventfds s k1) \<and> \<not> tm_used (timerfds s k2) \<and> \<not> sg_used (signalfds s k3) \<and> \<not> ep_used (epolls s k4)) \<and>
    eventfds ((eventfd_drop_ref (int k1) ^^ m) ((eventfd_add_ref (int k1) ^^ n) s1)) =
      (eventfds s)(k1 := if m \<le> n then zero_eventfd\<lparr>ev_used := True, ev_refs := int (n + 1 - m), ev_counter := v, ev_semaphore := b\<rparr> else zero_eventfd) \<and>
    timerfds ((timerfd_drop_ref (int k2) ^^ m) ((timerfd_add_ref (int k2) ^^ n) s2)) =
      (timerfds s)(k2 := if m \<le> n then zero_timerfd\<lparr>tm_used := True, tm_refs := int (n + 1 - m), tm_clockid := ck\<rparr> else zero_timerfd) \<and>
    signalfds ((signalfd_drop_ref (int k3) ^^ m) ((signalfd_add_ref (int k3) ^^ n) s3)) =
      (signalfds s)(k3 := if m \<le> n then zero_signalfd\<lparr>sg_used := True, sg_refs := int (n + 1 - m), sg_mask := msk\<rparr> else zero_signalfd) \<and>
    epolls ((epoll_drop_ref (int k4) ^^ m) ((epoll_add_ref (int k4) ^^ n) s4)) =
      (epolls s)(k4 := if m \<le> n then zero_epoll\<lparr>ep_used := True, ep_refs := int (n + 1 - m)\<rparr> else zero_epoll)"
  using assms(1) eventfd_alloc_spec [OF assms(2)] timerfd_alloc_spec [OF assms(3)]
    signalfd_alloc_spec [OF assms(4)] epoll_alloc_spec [OF assms(5)]
  by (intro conjI ext) (simp_all add: eventfd.lives_until_last_drop timerfd.lives_until_last_drop
      signalfd.lives_until_last_drop epoll.lives_until_last_drop)

definition demo_kern :: kern where
  "demo_kern = proc.extend demo_proc
     \<lparr>fd_procs = (\<lambda>_. zero_fd_proc), file_refs = (\<lambda>_. \<lparr>fr_used = False, fr_refs = 0\<rparr>), pipes = (\<lambda>_. zero_pipe),
      sockets = (\<lambda>_. zero_socket), ptys = (\<lambda>_. zero_pty), eventfds = (\<lambda>_. zero_eventfd), timerfds = (\<lambda>_. zero_timerfd),
      signalfds = (\<lambda>_. zero_signalfd), epolls = (\<lambda>_. zero_epoll), lwip_calls = [], next_ephemeral_port = 49152,
      tty_termios = termios_init_sane, tty_foreground_pgid = 0, tty_line_len = 0, tty_line_pos = 0, fb_hold_count = 0, fb_present = True\<rparr>"

theorem object_lifetime_witness:
  "eventfds ((eventfd_drop_ref 0 ^^ 3) ((eventfd_add_ref 0 ^^ 2) (snd (eventfd_alloc_obj 5 False demo_kern)))) 0 = zero_eventfd \<and>
   eventfds ((eventfd_drop_ref 0 ^^ 2) ((eventfd_add_ref 0 ^^ 2) (snd (eventfd_alloc_obj 5 False demo_kern)))) 0 =
     zero_eventfd\<lparr>ev_used := True, ev_refs := 1, ev_counter := 5, ev_semaphore := False\<rparr>"
proof -
  have "\<exists>s1. eventfd_alloc_obj 5 False demo_kern = (int 0, s1)" "\<exists>s1. timerfd_alloc_obj 1 demo_kern = (int 0, s1)"
    "\<exists>s1. signalfd_alloc_obj 0 demo_kern = (int 0, s1)" "\<exists>s1. epoll_alloc_obj demo_kern = (int 0, s1)"
    by (simp_all add: eventfd_alloc_obj_def timerfd_alloc_obj_def signalfd_alloc_obj_def epoll_alloc_obj_def
        demo_kern_def proc.defs first_idx_eval [of _ 0] model_simps zero_eventfd_def zero_timerfd_def zero_signalfd_def
        zero_epoll_def)
  then obtain s1 s2 s3 s4 where al: "eventfd_alloc_obj 5 False demo_kern = (int 0, s1)" "timerfd_alloc_obj 1 demo_kern = (int 0, s2)"
    "signalfd_alloc_obj 0 demo_kern = (int 0, s3)" "epoll_alloc_obj demo_kern = (int 0, s4)" by blast
  show ?thesis using object_lifetime [of 3 2, OF _ al] object_lifetime [of 2 2, OF _ al] by (simp add: al)
qed

section \<open>The file layer keeps the process layer's state\<close>

definition same_sched :: "'a kern_scheme \<Rightarrow> 'a kern_scheme \<Rightarrow> bool" where
  "same_sched s s' \<longleftrightarrow> tasks s' = tasks s \<and> sched_cpus s' = sched_cpus s \<and> scheduler_ready s' = scheduler_ready s \<and>
     local_cpu_id s' = local_cpu_id s"

lemma same_sched_refl [simp]: "same_sched s s"
  by (simp add: same_sched_def)

lemma same_sched_trans: "same_sched s s' \<Longrightarrow> same_sched s' s'' \<Longrightarrow> same_sched s s''"
  by (simp add: same_sched_def)

lemma same_sched_fold: "(\<And>x s. same_sched s (f x s)) \<Longrightarrow> same_sched s (fold f xs s)"
  by (induction xs arbitrary: s) (auto intro: same_sched_trans)

lemma same_sched_objects [simp]:
  "same_sched s (eventfd_drop_ref i s)" "same_sched s (timerfd_drop_ref i s)" "same_sched s (signalfd_drop_ref i s)"
  "same_sched s (epoll_drop_ref i s)" "same_sched s (pipe_drop_reader i s)" "same_sched s (pipe_drop_writer i s)"
  "same_sched s (pty_drop_ref i b s)" "same_sched s (snd (file_ref_put k s))" "same_sched s (snd (file_ref_get k s))"
  "same_sched s (snd (file_ref_alloc s))" "same_sched s (upd_fds p f s)" "same_sched s (upd_sock k g s)"
  "same_sched s (reset_terminals t fd s)" "same_sched s (socket_destroy k s)"
  by (simp_all add: same_sched_def eventfd_drop_ref_def timerfd_drop_ref_def signalfd_drop_ref_def epoll_drop_ref_def
      pipe_drop_reader_def pipe_drop_writer_def pty_drop_ref_def file_ref_put_def file_ref_get_def file_ref_alloc_def
      upd_fds_def upd_sock_def reset_terminals_def socket_destroy_def Let_def split: option.split)

lemma same_sched_dequeue [simp]: "same_sched s (snd (socket_pending_dequeue i s))"
  by (simp add: socket_pending_dequeue_def Let_def)

lemma socket_drop_same_sched: "same_sched s (socket_drop n i s)" "same_sched s (socket_drain n k s)"
proof (induction n i s and n k s rule: socket_drop_socket_drain.induct)
  case (1 n i s)
  then show ?case by (auto intro: same_sched_trans)
next
  case (3 n i s)
  have d: "same_sched s (snd (socket_pending_dequeue i s))" by simp
  show ?case
  proof (cases "pending_count (sockets s i) = 0")
    case False
    obtain ps s1 where q: "socket_pending_dequeue i s = (ps, s1)" by fastforce
    have a: "same_sched s1 (if 0 \<le> ps then socket_drop n ps s1 else s1)"
      using 3(1) [OF False q [symmetric] refl] by simp
    have b: "same_sched (if 0 \<le> ps then socket_drop n ps s1 else s1)
        (socket_drain n i (if 0 \<le> ps then socket_drop n ps s1 else s1))"
      using 3(2) [OF False q [symmetric] refl] .
    have "same_sched s s1" using d q by simp
    from same_sched_trans [OF this same_sched_trans [OF a b]] show ?thesis
      using False q by (simp del: socket_drop.simps)
  qed simp
qed simp

lemma drop_fd_same_sched: "same_sched s (drop_fd e s)"
proof -
  have "same_sched s' (drop_object e s')" for s' :: "'a kern_scheme"
    using socket_drop_same_sched(1) [of s' "pending_total s'" "pipe_id e"]
    by (simp add: drop_object_def socket_drop_ref_def del: socket_drop.simps split: edge_fd_kind.split)
  then have "same_sched s (drop_object e s)" "same_sched s (drop_object e (snd (file_ref_put (file_ref e) s)))"
    using same_sched_trans [OF same_sched_objects(8)] by blast+
  then show ?thesis by (simp add: drop_fd_def)
qed

lemma release_same_sched: "same_sched s (fd_proc_release q s)"
proof (cases "fd_proc_find q s")
  case (Some p)
  let ?s1 = "reset_terminals (map_option (tasks s) (task_by_pid_mutable_local q s)) (fds (fd_procs s p)) s"
  let ?s2 = "fold (\<lambda>i. drop_fd (fds (fd_procs s p) i)) [0..<EDGE_MAX_FD] ?s1"
  have a: "same_sched s ?s1" by simp
  have b: "same_sched ?s1 ?s2" by (rule same_sched_fold [OF drop_fd_same_sched])
  have c: "same_sched ?s2 (?s2\<lparr>fd_procs := (fd_procs ?s2)(p := zero_fd_proc)\<rparr>)" by (simp add: same_sched_def)
  from same_sched_trans [OF a same_sched_trans [OF b c]] show ?thesis using Some by (simp add: fd_proc_release_def Let_def)
qed (simp add: fd_proc_release_def)

text \<open>The file layer meets the contract the process layer relies on.\<close>

interpretation files: fd_release "syscall_release_process_fds :: int \<Rightarrow> 'a kern_scheme \<Rightarrow> 'a kern_scheme"
  by unfold_locales (simp_all add: syscall_release_process_fds_def release_same_sched [unfolded same_sched_def])

lemma demo_kern_base:
  "tasks demo_kern = tasks demo_tree" "sched_cpus demo_kern = sched_cpus demo_tree"
  "scheduler_ready demo_kern = scheduler_ready demo_tree" "local_cpu_id demo_kern = local_cpu_id demo_tree"
  by (simp_all add: demo_kern_def proc.defs demo_proc_base)

lemma demo_kern_inv:
  "sched_inv demo_kern ((\<lambda>_. [])(0 := [TaskP 1, TaskP 2]))" "tree_ok demo_kern demo_forest"
  "process_current_task demo_kern = TaskP 0"
proof -
  show "sched_inv demo_kern ((\<lambda>_. [])(0 := [TaskP 1, TaskP 2]))"
    using sched_inv_view [of demo_kern demo_tree] demo_tree_sched by (simp add: demo_kern_base)
  show "tree_ok demo_kern demo_forest"
    using tree_ok_view [of demo_kern demo_tree] demo_tree_ok by (simp add: demo_kern_base)
  have "scheduler_cpu_id demo_kern = scheduler_cpu_id demo_tree"
    by (simp only: scheduler_cpu_id_def demo_kern_base)
  then have "process_current_task demo_kern = process_current_task demo_tree"
    by (simp only: process_current_task_def scheduler_current_task_def scheduler_cpu_local_def demo_kern_base)
  then show "process_current_task demo_kern = TaskP 0" by (simp add: demo_tree_facts)
qed

section \<open>Enough fuel for dropping sockets\<close>

lemma sum_upd:
  fixes g :: "'b \<Rightarrow> nat"
  assumes "finite A" "k \<in> A"
  shows "(\<Sum>i\<in>A. g ((h(k := v)) i)) + g (h k) = (\<Sum>i\<in>A. g (h i)) + g v"
proof -
  have "(\<Sum>i\<in>A. g ((h(k := v)) i)) = g v + (\<Sum>i\<in>A - {k}. g (h i))"
    using sum.remove [OF assms, of "\<lambda>i. g ((h(k := v)) i)"] by simp
  moreover have "(\<Sum>i\<in>A. g (h i)) = g (h k) + (\<Sum>i\<in>A - {k}. g (h i))"
    using sum.remove [OF assms, of "\<lambda>i. g (h i)"] by simp
  ultimately show ?thesis by simp
qed

lemma pending_total_upd:
  "k < EDGE_MAX_SOCKETS \<Longrightarrow> pending_total (upd_sock k f s) + pending_count (sockets s k) =
    pending_total s + pending_count (f (sockets s k))"
  using sum_upd [of "{..<EDGE_MAX_SOCKETS}" k pending_count "sockets s" "f (sockets s k)"]
  by (simp add: pending_total_def upd_sock_def)

lemma pending_total_same:
  assumes "pending_count (f (sockets s k)) = pending_count (sockets s k)"
  shows "pending_total (upd_sock k f s) = pending_total s"
  unfolding pending_total_def using assms by (intro sum.cong) (simp_all add: upd_sock_def)

lemma pending_count_le_total: "k < EDGE_MAX_SOCKETS \<Longrightarrow> pending_count (sockets s k) \<le> pending_total s"
  unfolding pending_total_def by (intro member_le_sum) simp_all

lemma pending_total_destroy: "k < EDGE_MAX_SOCKETS \<Longrightarrow> pending_total (socket_destroy k s) \<le> pending_total s"
proof -
  assume k: "k < EDGE_MAX_SOCKETS"
  let ?x = "sockets s k"
  define s1 where "s1 = (if so_domain ?x = LINUX_AF_UNIX \<and> in_range (unix_peer_id ?x) EDGE_MAX_SOCKETS \<and>
                   so_used (sockets s (nat (unix_peer_id ?x)))
                then upd_sock (nat (unix_peer_id ?x)) (\<lambda>y. y\<lparr>so_closed := True, unix_peer_id := -1\<rparr>) s else s)"
  have 1: "pending_total s1 = pending_total s" by (simp add: s1_def pending_total_same)
  have "pending_total (s1\<lparr>lwip_calls := c\<rparr>) = pending_total s1" for c by (simp add: pending_total_def)
  then show ?thesis
    using pending_total_upd [OF k, of "\<lambda>_. zero_socket" "s1\<lparr>lwip_calls := lwip_calls s1 @ close_pcb (sockets s1 k)\<rparr>"] 1
    by (simp add: socket_destroy_def Let_def s1_def zero_socket_def)
qed

lemma pending_total_dequeue:
  assumes "k < EDGE_MAX_SOCKETS" "pending_count (sockets s k) \<noteq> 0" "socket_pending_dequeue k s = (ps, s1)"
  shows "Suc (pending_total s1) = pending_total s"
  using assms pending_total_upd [OF assms(1), of "\<lambda>x. x\<lparr>pending_head := (pending_head x + 1) mod EDGE_SOCK_ACCEPTQ,
      pending_count := pending_count x - 1\<rparr>" s]
  by (auto simp: socket_pending_dequeue_def Let_def)

lemma socket_drop_fuel:
  "pending_total s \<le> n \<Longrightarrow>
     socket_drop (Suc n) i s = socket_drop n i s \<and> pending_total (socket_drop n i s) \<le> pending_total s"
  "k < EDGE_MAX_SOCKETS \<Longrightarrow> pending_total s \<le> n \<Longrightarrow>
     socket_drain (Suc n) k s = socket_drain n k s \<and> pending_total (socket_drain n k s) \<le> pending_total s"
proof (induction n i s and n k s rule: socket_drop_socket_drain.induct)
  case (1 n i s)
  show ?case
  proof (cases "\<not> in_range i EDGE_MAX_SOCKETS \<or> \<not> so_used (sockets s (nat i)) \<or> 1 < so_refs (sockets s (nat i))")
    case True
    then show ?thesis by (auto simp: pending_total_same)
  next
    case False
    then have k: "nat i < EDGE_MAX_SOCKETS" by (auto simp: in_range_def)
    show ?thesis
    proof (cases "listening (sockets s (nat i))")
      case True
      have "socket_drain (Suc n) (nat i) s = socket_drain n (nat i) s \<and> pending_total (socket_drain n (nat i) s) \<le> pending_total s"
        using 1(1) [OF _ _ True] False k 1(2) by blast
      then show ?thesis using False True pending_total_destroy [OF k, of "socket_drain n (nat i) s"]
        by (auto simp del: socket_drain.simps)
    next
      case l: False
      then show ?thesis using False pending_total_destroy [OF k, of s] by auto
    qed
  qed
next
  case (2 k s)
  then show ?case using pending_count_le_total [of k s] by simp
next
  case (3 n k s)
  show ?case
  proof (cases "pending_count (sockets s k) = 0")
    case True
    then show ?thesis by simp
  next
    case False
    obtain ps s1 where q: "socket_pending_dequeue k s = (ps, s1)" by fastforce
    have t1: "Suc (pending_total s1) = pending_total s" by (rule pending_total_dequeue [OF 3(3) False q])
    then have le: "pending_total s1 \<le> n" using 3(4) by simp
    define s2 where "s2 = (if 0 \<le> ps then socket_drop n ps s1 else s1)"
    have d: "0 \<le> ps \<Longrightarrow> socket_drop (Suc n) ps s1 = socket_drop n ps s1 \<and> pending_total (socket_drop n ps s1) \<le> pending_total s1"
      using 3(1) [OF False q [symmetric] refl] le by blast
    then have s2: "(if 0 \<le> ps then socket_drop (Suc n) ps s1 else s1) = s2" and le2: "pending_total s2 \<le> pending_total s1"
      by (auto simp: s2_def simp del: socket_drop.simps)
    have "socket_drain (Suc n) k s2 = socket_drain n k s2 \<and> pending_total (socket_drain n k s2) \<le> pending_total s2"
      using 3(2) [OF False q [symmetric] refl, folded s2_def] 3(3) le le2 by simp
    moreover have "socket_drain (Suc (Suc n)) k s = socket_drain (Suc n) k s2" "socket_drain (Suc n) k s = socket_drain n k s2"
      using False q s2 by (simp_all add: s2_def del: socket_drop.simps)
    ultimately show ?thesis using le2 t1 by simp
  qed
qed

lemma socket_drop_more_fuel: "socket_drop (pending_total s + d) i s = socket_drop_ref i s"
proof (induction d)
  case (Suc d)
  then show ?case using socket_drop_fuel(1) [of s "pending_total s + d" i] by (simp del: socket_drop.simps)
qed (simp add: socket_drop_ref_def)

text \<open>
  Dropping a socket ends. Closing the last reference of a listening socket closes the
  connections waiting in its queue, which may themselves be sockets with queues; the fuel given to this
  recursion is the number of waiting connections, and any more gives the same result.
\<close>
theorem socket_drop_terminates: "socket_drop (pending_total s + d) i s = socket_drop_ref i s"
  by (rule socket_drop_more_fuel)

section \<open>Terminal input\<close>

definition ring_list :: "ring \<Rightarrow> u8 list" where
  "ring_list r = map (\<lambda>j. rbuf r ((rpos r + j) mod EDGE_PTY_BUF_SIZE)) [0..<rcount r]"

definition ring_ok :: "ring \<Rightarrow> bool" where
  "ring_ok r \<longleftrightarrow> rpos r < EDGE_PTY_BUF_SIZE \<and> rcount r \<le> EDGE_PTY_BUF_SIZE \<and> wpos r = (rpos r + rcount r) mod EDGE_PTY_BUF_SIZE"

lemma ring_push_list:
  assumes "ring_ok r" "pty_ring_push c r = Some r'"
  shows "ring_ok r'" "ring_list r' = ring_list r @ [c]"
proof -
  have c: "rcount r < EDGE_PTY_BUF_SIZE" and r': "r' = r\<lparr>rbuf := (rbuf r)(wpos r := c),
      wpos := (wpos r + 1) mod EDGE_PTY_BUF_SIZE, rcount := rcount r + 1\<rparr>"
    using assms(2) by (auto simp: pty_ring_push_def split: if_splits)
  show "ring_ok r'" using assms(1) c by (simp add: ring_ok_def r' mod_Suc_eq)
  have "(rpos r + j) mod EDGE_PTY_BUF_SIZE \<noteq> (rpos r + rcount r) mod EDGE_PTY_BUF_SIZE" if "j < rcount r" for j
  proof
    assume eq: "(rpos r + j) mod EDGE_PTY_BUF_SIZE = (rpos r + rcount r) mod EDGE_PTY_BUF_SIZE"
    have "EDGE_PTY_BUF_SIZE dvd (rpos r + rcount r) - (rpos r + j)"
      using mod_eq_dvd_iff_nat [of "rpos r + j" "rpos r + rcount r" EDGE_PTY_BUF_SIZE] eq that by simp
    then show False using that c by (auto dest: dvd_imp_le)
  qed
  then show "ring_list r' = ring_list r @ [c]"
    using assms(1) by (simp add: ring_list_def r' ring_ok_def)
qed

lemma find_map: "find p (map f xs) = map_option f (find (\<lambda>x. p (f x)) xs)"
  by (induction xs) simp_all

lemma ring_line_list:
  assumes "pos < EDGE_PTY_BUF_SIZE"
  shows "ring_line stop b pos cnt req =
    min req (case first_idx (\<lambda>j. stop (b ((pos + j) mod EDGE_PTY_BUF_SIZE))) 0 cnt of Some k \<Rightarrow> k + 1 | None \<Rightarrow> cnt)"
  using assms
proof (induction cnt arbitrary: pos req)
  case 0
  then show ?case by (simp add: first_idx_def)
next
  case (Suc cnt)
  let ?p = "\<lambda>j. stop (b ((pos + j) mod EDGE_PTY_BUF_SIZE))"
  have shift: "first_idx ?p 1 (Suc cnt) = map_option Suc (first_idx (\<lambda>j. stop (b (((pos + 1) mod EDGE_PTY_BUF_SIZE + j) mod EDGE_PTY_BUF_SIZE))) 0 cnt)"
  proof -
    have "[Suc 0..<Suc cnt] = map Suc [0..<cnt]" by (simp add: map_Suc_upt)
    then show ?thesis by (simp add: first_idx_def find_map mod_add_left_eq)
  qed
  have e: "first_idx ?p 0 (Suc cnt) = (if stop (b pos) then Some 0 else first_idx ?p 1 (Suc cnt))"
    using Suc.prems by (subst first_idx_eval) simp
  have "(pos + 1) mod EDGE_PTY_BUF_SIZE < EDGE_PTY_BUF_SIZE" by (simp add: EDGE_PTY_BUF_SIZE_def)
  note IH = Suc.IH [OF this, of "req - 1"]
  show ?case
  proof (cases "req = 0 \<or> stop (b pos)")
    case True
    then show ?thesis by (auto simp: e)
  next
    case False
    then show ?thesis unfolding e shift ring_line.simps IH by (auto split: option.split)
  qed
qed

text \<open>
  Terminal input is a queue of characters delivered line by line. Pushing a character on
  a ring that is not full appends it to the characters held, and a full ring refuses it. In canonical
  mode a read takes the first line with its terminator (newline or the end-of-file character), cut at
  what is asked for and available; in raw mode whatever is asked for and available.
\<close>
theorem pty_input_queue:
  assumes "ring_ok (m2s p)" "c_lflag (pty_termios p) AND LINUX_ICANON \<noteq> 0"
    and "xs = ring_list (m2s p)"
  shows "(case pty_ring_push c (m2s p) of
       Some r \<Rightarrow> length xs < EDGE_PTY_BUF_SIZE \<and> ring_ok r \<and> ring_list r = xs @ [c]
     | None \<Rightarrow> length xs = EDGE_PTY_BUF_SIZE) \<and>
    pty_slave_read_limit p req avail =
      min (min req avail) (case first_idx (\<lambda>j. line_end p (xs ! j)) 0 (length xs) of Some k \<Rightarrow> k + 1 | None \<Rightarrow> length xs)"
proof -
  have len: "length xs = rcount (m2s p)" by (simp add: assms(3) ring_list_def)
  have nth: "xs ! j = rbuf (m2s p) ((rpos (m2s p) + j) mod EDGE_PTY_BUF_SIZE)" if "j < rcount (m2s p)" for j
    using that by (simp add: assms(3) ring_list_def)
  have fi: "first_idx (\<lambda>j. line_end p (xs ! j)) 0 (length xs) =
      first_idx (\<lambda>j. line_end p (rbuf (m2s p) ((rpos (m2s p) + j) mod EDGE_PTY_BUF_SIZE))) 0 (rcount (m2s p))"
    unfolding first_idx_def len using nth by (intro find_cong) auto
  have "(case pty_ring_push c (m2s p) of
       Some r \<Rightarrow> length xs < EDGE_PTY_BUF_SIZE \<and> ring_ok r \<and> ring_list r = xs @ [c]
     | None \<Rightarrow> length xs = EDGE_PTY_BUF_SIZE)"
  proof (cases "pty_ring_push c (m2s p)")
    case None
    then show ?thesis using assms(1) len by (simp add: pty_ring_push_def ring_ok_def split: if_splits)
  next
    case (Some r)
    then have "rcount (m2s p) < EDGE_PTY_BUF_SIZE" by (simp add: pty_ring_push_def split: if_splits)
    with Some ring_push_list [OF assms(1) Some] len assms(3) show ?thesis by simp
  qed
  moreover have "rpos (m2s p) < EDGE_PTY_BUF_SIZE" using assms(1) by (simp add: ring_ok_def)
  ultimately show ?thesis
    unfolding fi using len
    using assms(2) ring_line_list [of "rpos (m2s p)" "line_end p" "rbuf (m2s p)" "rcount (m2s p)" "min req avail"]
    by (simp add: pty_slave_read_limit_def split: option.splits)
qed

definition demo_pty :: edge_pty where
  "demo_pty = zero_pty\<lparr>pty_used := True, pty_termios := termios_init_sane,
     m2s := \<lparr>rpos = 4094, wpos = 1, rcount = 3, rbuf = (\<lambda>i. if i = 4095 then 10 else 65)\<rparr>\<rparr>"

theorem pty_input_queue_witness:
  "ring_ok (m2s demo_pty) \<and> pty_slave_read_limit demo_pty 100 3 = 2"
proof -
  have ok: "ring_ok (m2s demo_pty)"
    by (simp add: demo_pty_def ring_ok_def EDGE_PTY_BUF_SIZE_def)
  have can: "c_lflag (pty_termios demo_pty) AND LINUX_ICANON \<noteq> 0"
    by (simp add: demo_pty_def termios_init_sane_def model_simps)
  have xs: "[65, 10, 65] = ring_list (m2s demo_pty)"
    by (simp add: demo_pty_def ring_list_def EDGE_PTY_BUF_SIZE_def upt_rec)
  have "first_idx (\<lambda>j. line_end demo_pty ([65, 10, 65] ! j)) 0 (length [65, 10, 65 :: u8]) = Some 1"
    by (simp add: first_idx_Some line_end_def demo_pty_def termios_init_sane_def LINUX_VEOF_def)
  with pty_input_queue [OF ok can xs, of 0 100 3] ok show ?thesis by (simp del: list.size)
qed

section \<open>Reference counts of open files\<close>

definition holds :: "edge_fd \<Rightarrow> nat \<Rightarrow> nat" where
  "holds e i = (if fd_used e \<and> file_ref e = i then 1 else 0)"

definition table_holds :: "(nat \<Rightarrow> edge_fd) \<Rightarrow> nat \<Rightarrow> nat" where
  "table_holds t i = (\<Sum>j < EDGE_MAX_FD. holds (t j) i)"

definition holders :: "'a kern_scheme \<Rightarrow> nat \<Rightarrow> nat" where
  "holders s i = (\<Sum>p < EDGE_MAX_FD_PROCS. table_holds (fds (fd_procs s p)) i)"

definition refs_cover :: "'a kern_scheme \<Rightarrow> bool" where
  "refs_cover s \<longleftrightarrow>
     (\<forall>i. 0 < i \<longrightarrow> holders s i \<le> fr_refs (file_refs s i)) \<and>
     (\<forall>i. fr_used (file_refs s i) \<longleftrightarrow> 0 < fr_refs (file_refs s i)) \<and>
     (\<forall>i. EDGE_MAX_FILE_REFS \<le> i \<longrightarrow> fr_refs (file_refs s i) = 0)"

definition excess :: "'a kern_scheme \<Rightarrow> nat \<Rightarrow> nat" where
  "excess s i = fr_refs (file_refs s i) - holders s i"

lemma table_holds_upd: "j < EDGE_MAX_FD \<Longrightarrow> table_holds (t(j := e)) i + holds (t j) i = table_holds t i + holds e i"
  using sum_upd [of "{..<EDGE_MAX_FD}" j "\<lambda>e. holds e i" t e] by (simp add: table_holds_def)

lemma holders_proc_upd:
  "p < EDGE_MAX_FD_PROCS \<Longrightarrow> holders (s\<lparr>fd_procs := (fd_procs s)(p := x)\<rparr>) i + table_holds (fds (fd_procs s p)) i =
    holders s i + table_holds (fds x) i"
  using sum_upd [of "{..<EDGE_MAX_FD_PROCS}" p "\<lambda>x. table_holds (fds x) i" "fd_procs s" x] by (simp add: holders_def)

lemma holders_fd_upd:
  assumes "p < EDGE_MAX_FD_PROCS" "j < EDGE_MAX_FD"
  shows "holders (upd_fds p (\<lambda>t. t(j := e)) s) i + holds (fds (fd_procs s p) j) i = holders s i + holds e i"
  using holders_proc_upd [OF assms(1), of s "(fd_procs s p)\<lparr>fds := (fds (fd_procs s p))(j := e)\<rparr>" i]
    table_holds_upd [OF assms(2), of "fds (fd_procs s p)" e i]
  by (simp add: upd_fds_def)

lemma holders_ge_table: "p < EDGE_MAX_FD_PROCS \<Longrightarrow> table_holds (fds (fd_procs s p)) i \<le> holders s i"
  unfolding holders_def by (rule member_le_sum) simp_all

lemma holds_zero [simp]: "holds zero_fd i = 0"
  by (simp add: holds_def zero_fd_def)

lemma table_holds_zero [simp]: "table_holds (\<lambda>_. zero_fd) i = 0"
  by (simp add: table_holds_def)

definition same_files :: "'a kern_scheme \<Rightarrow> 'a kern_scheme \<Rightarrow> bool" where
  "same_files s s' \<longleftrightarrow> file_refs s' = file_refs s \<and> fd_procs s' = fd_procs s"

lemma same_files_refl [simp]: "same_files s s"
  by (simp add: same_files_def)

lemma same_files_trans: "same_files s s' \<Longrightarrow> same_files s' s'' \<Longrightarrow> same_files s s''"
  by (simp add: same_files_def)

lemma same_files_objects [simp]:
  "same_files s (eventfd_drop_ref i s)" "same_files s (timerfd_drop_ref i s)" "same_files s (signalfd_drop_ref i s)"
  "same_files s (epoll_drop_ref i s)" "same_files s (pipe_drop_reader i s)" "same_files s (pipe_drop_writer i s)"
  "same_files s (pty_drop_ref i b s)" "same_files s (upd_sock k g s)" "same_files s (reset_terminals t fd s)"
  "same_files s (socket_destroy k s)" "same_files s (snd (socket_pending_dequeue k s))"
  "same_files s (eventfd_add_ref i s)" "same_files s (timerfd_add_ref i s)" "same_files s (signalfd_add_ref i s)"
  "same_files s (epoll_add_ref i s)" "same_files s (pty_add_ref i b s)" "same_files s (socket_add_ref i s)"
  by (simp_all add: same_files_def eventfd_drop_ref_def timerfd_drop_ref_def signalfd_drop_ref_def epoll_drop_ref_def
      pipe_drop_reader_def pipe_drop_writer_def pty_drop_ref_def upd_sock_def reset_terminals_def socket_destroy_def
      socket_pending_dequeue_def eventfd_add_ref_def timerfd_add_ref_def signalfd_add_ref_def epoll_add_ref_def
      pty_add_ref_def socket_add_ref_def Let_def)

lemma socket_drop_same_files: "same_files s (socket_drop n i s)" "same_files s (socket_drain n k s)"
proof (induction n i s and n k s rule: socket_drop_socket_drain.induct)
  case (1 n i s)
  then show ?case by (auto intro: same_files_trans)
next
  case (3 n i s)
  show ?case
  proof (cases "pending_count (sockets s i) = 0")
    case False
    obtain ps s1 where q: "socket_pending_dequeue i s = (ps, s1)" by fastforce
    have d: "same_files s s1" using same_files_objects(11) [of s i] q by simp
    have a: "same_files s1 (if 0 \<le> ps then socket_drop n ps s1 else s1)"
      using 3(1) [OF False q [symmetric] refl] by simp
    have b: "same_files (if 0 \<le> ps then socket_drop n ps s1 else s1)
        (socket_drain n i (if 0 \<le> ps then socket_drop n ps s1 else s1))"
      using 3(2) [OF False q [symmetric] refl] .
    from same_files_trans [OF d same_files_trans [OF a b]] show ?thesis
      using False q by (simp del: socket_drop.simps)
  qed simp
qed simp

lemma drop_object_files: "same_files s (drop_object e s)"
  using socket_drop_same_files(1) [of s "pending_total s" "pipe_id e"]
  by (simp add: drop_object_def socket_drop_ref_def del: socket_drop.simps split: edge_fd_kind.split)

lemma add_object_files: "same_files s (add_object e s)"
  by (simp add: add_object_def split: edge_fd_kind.split) (simp add: same_files_def)

lemma holders_same_files: "same_files s s' \<Longrightarrow> holders s' i = holders s i"
  by (simp add: same_files_def holders_def)

subsection \<open>Release\<close>

lemma drop_fd_refs:
  assumes used: "\<And>i. fr_used (file_refs s i) \<longleftrightarrow> 0 < fr_refs (file_refs s i)"
    and enough: "\<And>i. 0 < i \<Longrightarrow> holds e i \<le> fr_refs (file_refs s i)"
    and big: "\<And>i. EDGE_MAX_FILE_REFS \<le> i \<Longrightarrow> fr_refs (file_refs s i) = 0"
  shows "fd_procs (drop_fd e s) = fd_procs s"
    and "0 < i \<Longrightarrow> fr_refs (file_refs (drop_fd e s) i) = fr_refs (file_refs s i) - holds e i"
    and "fr_used (file_refs (drop_fd e s) i) \<longleftrightarrow> 0 < fr_refs (file_refs (drop_fd e s) i)"
proof -
  let ?s1 = "if 0 < file_ref e then snd (file_ref_put (file_ref e) s) else s"
  have f: "fd_used e \<Longrightarrow> file_refs (drop_fd e s) = file_refs ?s1 \<and> fd_procs (drop_fd e s) = fd_procs ?s1"
    using drop_object_files [of ?s1 e] by (simp add: drop_fd_def same_files_def)
  have ok: "file_ref_ok (file_ref e) s" if "fd_used e" "0 < file_ref e"
    using enough [OF that(2)] used big that by (fastforce simp: file_ref_ok_def holds_def not_less [symmetric])
  show "fd_procs (drop_fd e s) = fd_procs s"
    using f by (cases "fd_used e") (auto simp: drop_fd_def file_ref_put_def Let_def)
  show "fr_refs (file_refs (drop_fd e s) i) = fr_refs (file_refs s i) - holds e i" if "0 < i"
    using f ok that by (cases "fd_used e") (auto simp: drop_fd_def file_ref_put_def Let_def holds_def)
  show "fr_used (file_refs (drop_fd e s) i) \<longleftrightarrow> 0 < fr_refs (file_refs (drop_fd e s) i)"
    using f ok used by (cases "fd_used e") (auto simp: drop_fd_def file_ref_put_def Let_def)
qed

lemma drop_all_refs:
  assumes used: "\<And>i. fr_used (file_refs s i) \<longleftrightarrow> 0 < fr_refs (file_refs s i)"
    and enough: "\<And>i. 0 < i \<Longrightarrow> (\<Sum>j<n. holds (fd j) i) \<le> fr_refs (file_refs s i)"
    and big: "\<And>i. EDGE_MAX_FILE_REFS \<le> i \<Longrightarrow> fr_refs (file_refs s i) = 0"
  shows "let s' = fold (\<lambda>j. drop_fd (fd j)) [0..<n] s in
    fd_procs s' = fd_procs s \<and>
    (\<forall>i. 0 < i \<longrightarrow> fr_refs (file_refs s' i) = fr_refs (file_refs s i) - (\<Sum>j<n. holds (fd j) i)) \<and>
    (\<forall>i. fr_used (file_refs s' i) \<longleftrightarrow> 0 < fr_refs (file_refs s' i))"
  using enough
proof (induction n)
  case (Suc n)
  let ?s = "fold (\<lambda>j. drop_fd (fd j)) [0..<n] s"
  have le: "(\<Sum>j<n. holds (fd j) i) \<le> fr_refs (file_refs s i)" if "0 < i" for i using Suc.prems [OF that] by simp
  note IH = Suc.IH [OF le, unfolded Let_def]
  have big': "fr_refs (file_refs ?s i) = 0" if "EDGE_MAX_FILE_REFS \<le> i" for i
  proof -
    have "0 < i" using that by (simp add: EDGE_MAX_FILE_REFS_def)
    with IH big [OF that] show ?thesis by simp
  qed
  have en: "holds (fd n) i \<le> fr_refs (file_refs ?s i)" if "0 < i" for i
    using IH Suc.prems [OF that] that by simp
  note d = drop_fd_refs [of ?s "fd n", OF _ en big']
  show ?case using IH d Suc.prems by (auto simp: Let_def)
qed (use used in simp)

lemma release_refs:
  assumes cov: "refs_cover s" and p: "fd_proc_find q s = Some p"
  shows "fd_procs (fd_proc_release q s) = (fd_procs s)(p := zero_fd_proc)"
    and "0 < i \<Longrightarrow> fr_refs (file_refs (fd_proc_release q s) i) =
      fr_refs (file_refs s i) - table_holds (fds (fd_procs s p)) i"
    and "fr_used (file_refs (fd_proc_release q s) i) \<longleftrightarrow> 0 < fr_refs (file_refs (fd_proc_release q s) i)"
proof -
  let ?t = "map_option (tasks s) (task_by_pid_mutable_local q s)" and ?fd = "fds (fd_procs s p)"
  let ?s1 = "reset_terminals ?t ?fd s"
  let ?s2 = "fold (\<lambda>i. drop_fd (?fd i)) [0..<EDGE_MAX_FD] ?s1"
  have pb: "p < EDGE_MAX_FD_PROCS" using p by (auto simp: fd_proc_find_def dest: first_idx_SomeD)
  have f1: "file_refs ?s1 = file_refs s" "fd_procs ?s1 = fd_procs s"
    using same_files_objects(9) [of s ?t ?fd] by (simp_all add: same_files_def)
  have en: "(\<Sum>j<EDGE_MAX_FD. holds (?fd j) i) \<le> fr_refs (file_refs ?s1 i)" if "0 < i" for i
  proof -
    have "holders s i \<le> fr_refs (file_refs s i)" using cov that unfolding refs_cover_def by blast
    with holders_ge_table [OF pb, of s i] show ?thesis unfolding f1(1) table_holds_def by linarith
  qed
  have all: "fd_procs ?s2 = fd_procs s \<and>
    (\<forall>i. 0 < i \<longrightarrow> fr_refs (file_refs ?s2 i) = fr_refs (file_refs s i) - (\<Sum>j<EDGE_MAX_FD. holds (?fd j) i)) \<and>
    (\<forall>i. fr_used (file_refs ?s2 i) \<longleftrightarrow> 0 < fr_refs (file_refs ?s2 i))"
    using drop_all_refs [of ?s1 ?fd EDGE_MAX_FD, OF _ en] cov f1 by (simp add: refs_cover_def Let_def)
  have eq: "fd_proc_release q s = ?s2\<lparr>fd_procs := (fd_procs ?s2)(p := zero_fd_proc)\<rparr>"
    using p by (simp add: fd_proc_release_def Let_def)
  show "fd_procs (fd_proc_release q s) = (fd_procs s)(p := zero_fd_proc)"
    "0 < i \<Longrightarrow> fr_refs (file_refs (fd_proc_release q s) i) = fr_refs (file_refs s i) - table_holds ?fd i"
    "fr_used (file_refs (fd_proc_release q s) i) \<longleftrightarrow> 0 < fr_refs (file_refs (fd_proc_release q s) i)"
    using all by (simp_all add: eq table_holds_def)
qed

lemma release_effect:
  assumes cov: "refs_cover s" and p: "fd_proc_find q s = Some p" and "0 < i"
  shows "refs_cover (fd_proc_release q s) \<and> fd_procs (fd_proc_release q s) = (fd_procs s)(p := zero_fd_proc) \<and>
    fr_refs (file_refs (fd_proc_release q s) i) + table_holds (fds (fd_procs s p)) i = fr_refs (file_refs s i) \<and>
    excess (fd_proc_release q s) i = excess s i"
proof -
  have pb: "p < EDGE_MAX_FD_PROCS" using p by (auto simp: fd_proc_find_def dest: first_idx_SomeD)
  note r = release_refs [OF cov p]
  have ho: "holders (fd_proc_release q s) k + table_holds (fds (fd_procs s p)) k = holders s k" for k
    using holders_proc_upd [OF pb, of s zero_fd_proc k] r(1) by (simp add: holders_def zero_fd_proc_def)
  have le: "table_holds (fds (fd_procs s p)) k \<le> holders s k" "0 < k \<Longrightarrow> holders s k \<le> fr_refs (file_refs s k)" for k
    using holders_ge_table [OF pb] cov by (auto simp: refs_cover_def)
  have "refs_cover (fd_proc_release q s)"
    unfolding refs_cover_def
  proof (intro conjI allI impI)
    show "holders (fd_proc_release q s) k \<le> fr_refs (file_refs (fd_proc_release q s) k)" if "0 < k" for k
      using ho [of k] le [of k] r(2) [OF that] that by linarith
    show "fr_refs (file_refs (fd_proc_release q s) k) = 0" if "EDGE_MAX_FILE_REFS \<le> k" for k
      using r(2) [of k] cov that by (simp add: refs_cover_def EDGE_MAX_FILE_REFS_def)
  qed (rule r(3))
  moreover have "fr_refs (file_refs (fd_proc_release q s) i) + table_holds (fds (fd_procs s p)) i = fr_refs (file_refs s i)"
    using r(2) [OF assms(3)] le [of i] assms(3) by linarith
  ultimately show ?thesis using r(1) ho [of i] by (simp add: excess_def)
qed

text \<open>
  C12: Releasing the descriptors of a process. The process has no descriptor table afterwards, no
  other table changes, every open file loses exactly the references that table held, and
  no remaining descriptor refers to a freed file.
\<close>
theorem release_drops_exactly:
  assumes "refs_cover s" and "fd_proc_find q s = Some p" and "0 < i"
  shows "refs_cover (fd_proc_release q s) \<and> fd_procs (fd_proc_release q s) = (fd_procs s)(p := zero_fd_proc) \<and>
    fr_refs (file_refs (fd_proc_release q s) i) + table_holds (fds (fd_procs s p)) i = fr_refs (file_refs s i) \<and>
    excess (fd_proc_release q s) i = excess s i"
  by (rule release_effect [OF assms])

subsection \<open>Fork\<close>

lemma refs_cover_used: "refs_cover s \<Longrightarrow> fr_used (file_refs s i) \<longleftrightarrow> 0 < fr_refs (file_refs s i)"
  and refs_cover_big: "refs_cover s \<Longrightarrow> EDGE_MAX_FILE_REFS \<le> i \<Longrightarrow> fr_refs (file_refs s i) = 0"
  and refs_cover_le: "refs_cover s \<Longrightarrow> 0 < i \<Longrightarrow> holders s i \<le> fr_refs (file_refs s i)"
  by (simp_all add: refs_cover_def)

lemma ensure_one_cover:
  assumes "refs_cover (snd r)" "p < EDGE_MAX_FD_PROCS" "j < EDGE_MAX_FD"
  shows "refs_cover (snd (ensure_one p j fl r)) \<and>
    (\<forall>q. q \<noteq> p \<longrightarrow> fd_procs (snd (ensure_one p j fl r)) q = fd_procs (snd r) q)"
proof -
  obtain go s where r: "r = (go, s)" by fastforce
  have cov: "refs_cover s" using assms(1) r by simp
  show ?thesis
  proof (cases "go \<and> \<not> fd_used (fds (fd_procs s p) j)")
    case True
    show ?thesis
    proof (cases "first_idx (\<lambda>i. \<not> fr_used (file_refs s i)) 1 EDGE_MAX_FILE_REFS")
      case (Some k)
      then have k: "1 \<le> k" "k < EDGE_MAX_FILE_REFS" "\<not> fr_used (file_refs s k)" by (auto dest: first_idx_SomeD)
      let ?s1 = "s\<lparr>file_refs := (file_refs s)(k := \<lparr>fr_used = True, fr_refs = 1\<rparr>)\<rparr>"
      let ?e = "stdio_fd k fl (fds (fd_procs s p) j)"
      let ?s2 = "upd_fds p (\<lambda>t. t(j := ?e)) ?s1"
      have k0: "fr_refs (file_refs s k) = 0" using refs_cover_used [OF cov, of k] k(3) by simp
      have h: "holders ?s2 i = holders s i + holds ?e i" for i
        using holders_fd_upd [OF assms(2,3), of ?e ?s1 i] True by (simp add: holds_def holders_def)
      have he: "holds ?e i = (if i = k then 1 else 0)" for i by (simp add: holds_def stdio_fd_def)
      have "refs_cover ?s2"
        unfolding refs_cover_def
      proof (intro conjI allI impI)
        show "holders ?s2 i \<le> fr_refs (file_refs ?s2 i)" if "0 < i" for i
          using refs_cover_le [OF cov that] k0 unfolding h he by (auto simp: upd_fds_def)
      qed (use refs_cover_used [OF cov] refs_cover_big [OF cov] k(2) in \<open>auto simp: upd_fds_def\<close>)
      moreover have "ensure_one p j fl r = (True, ?s2)"
        using True Some k(1) by (simp add: ensure_one_def r file_ref_alloc_def upd_fds_def)
      ultimately show ?thesis by (simp add: r upd_fds_def)
    qed (use True cov in \<open>simp add: ensure_one_def r file_ref_alloc_def\<close>)
  qed (use cov in \<open>auto simp: ensure_one_def r\<close>)
qed

lemma ensure_stdio_cover:
  assumes "refs_cover s" "p < EDGE_MAX_FD_PROCS"
  shows "refs_cover (fd_ensure_stdio p s)" "q \<noteq> p \<Longrightarrow> fd_procs (fd_ensure_stdio p s) q = fd_procs s q"
proof -
  have fd: "0 < EDGE_MAX_FD" "1 < EDGE_MAX_FD" "2 < EDGE_MAX_FD" by (simp_all add: EDGE_MAX_FD_def)
  have c: "refs_cover (snd (True, s))" using assms(1) by simp
  note a = ensure_one_cover [OF c assms(2) fd(1), of 0]
  note b = ensure_one_cover [OF conjunct1 [OF a] assms(2) fd(2), of LINUX_O_WRONLY]
  note d = ensure_one_cover [OF conjunct1 [OF b] assms(2) fd(3), of LINUX_O_WRONLY]
  show "refs_cover (fd_ensure_stdio p s)" "q \<noteq> p \<Longrightarrow> fd_procs (fd_ensure_stdio p s) q = fd_procs s q"
    using a b d by (auto simp: fd_ensure_stdio_def)
qed

lemma proc_find_bound: "fd_proc_find q s = Some p \<Longrightarrow> p < EDGE_MAX_FD_PROCS \<and> fdp_pid (fd_procs s p) = q"
  by (auto simp: fd_proc_find_def dest: first_idx_SomeD)

lemma proc_for_pid_cover:
  assumes cov: "refs_cover s" and new: "fd_proc_for_pid q True s = (Some p, s')"
  shows "refs_cover s'" "p < EDGE_MAX_FD_PROCS" "k \<noteq> p \<Longrightarrow> fd_procs s' k = fd_procs s k"
    "fd_proc_find q s \<noteq> Some p \<Longrightarrow> fdp_pid (fd_procs s p) = 0"
proof -
  have "refs_cover s' \<and> p < EDGE_MAX_FD_PROCS \<and> (k \<noteq> p \<longrightarrow> fd_procs s' k = fd_procs s k) \<and>
    (fd_proc_find q s \<noteq> Some p \<longrightarrow> fdp_pid (fd_procs s p) = 0)"
  proof (cases "fd_proc_find q s")
    case None
    then obtain f where f: "fd_proc_find 0 s = Some f" using new by (auto simp: fd_proc_for_pid_def split: option.splits)
    let ?z = "s\<lparr>fd_procs := (fd_procs s)(f := zero_fd_proc\<lparr>fdp_pid := q\<rparr>)\<rparr>"
    have s': "p = f" "s' = fd_ensure_stdio f ?z" using new None f by (auto simp: fd_proc_for_pid_def)
    note fb = proc_find_bound [OF f]
    have le: "holders ?z i \<le> holders s i" for i
      using holders_proc_upd [of f s "zero_fd_proc\<lparr>fdp_pid := q\<rparr>" i] fb by (simp add: zero_fd_proc_def)
    have z: "refs_cover ?z"
      unfolding refs_cover_def
    proof (intro conjI allI impI)
      show "holders ?z i \<le> fr_refs (file_refs ?z i)" if "0 < i" for i
        using order_trans [OF le refs_cover_le [OF cov that]] by simp
    qed (use refs_cover_used [OF cov] refs_cover_big [OF cov] in auto)
    show ?thesis using ensure_stdio_cover [OF z] fb by (simp add: s')
  qed (use new cov proc_find_bound in \<open>auto simp: fd_proc_for_pid_def\<close>)
  then show "refs_cover s'" "p < EDGE_MAX_FD_PROCS" "k \<noteq> p \<Longrightarrow> fd_procs s' k = fd_procs s k"
    "fd_proc_find q s \<noteq> Some p \<Longrightarrow> fdp_pid (fd_procs s p) = 0" by blast+
qed

lemma clone_fd_step:
  assumes ok: "fd_used (pf j) \<Longrightarrow> 0 < file_ref (pf j) \<Longrightarrow> file_ref_ok (file_ref (pf j)) s"
  shows "fds (fd_procs (clone_fd c pf j s) c) = (if fd_used (pf j) then (fds (fd_procs s c))(j := pf j) else fds (fd_procs s c))"
    and "fdp_pid (fd_procs (clone_fd c pf j s) c) = fdp_pid (fd_procs s c)"
    and "k \<noteq> c \<Longrightarrow> fd_procs (clone_fd c pf j s) k = fd_procs s k"
    and "0 < i \<Longrightarrow> fr_refs (file_refs (clone_fd c pf j s) i) = fr_refs (file_refs s i) + holds (pf j) i"
    and "fr_used (file_refs (clone_fd c pf j s) i) = fr_used (file_refs s i)"
    and "file_refs (clone_fd c pf j s) 0 = file_refs s 0"
proof -
  let ?s1 = "upd_fds c (\<lambda>t. t(j := pf j)) (snd (if 0 < file_ref (pf j) then file_ref_get (file_ref (pf j)) s else (0, s)))"
  have eq: "clone_fd c pf j s = (if fd_used (pf j) then add_object (pf j) ?s1 else s)"
    using ok by (simp add: clone_fd_def file_ref_get_def Let_def)
  have f: "fd_procs (add_object (pf j) ?s1) = fd_procs ?s1" "file_refs (add_object (pf j) ?s1) = file_refs ?s1"
    using add_object_files [of ?s1 "pf j"] by (simp_all add: same_files_def)
  show "fds (fd_procs (clone_fd c pf j s) c) = (if fd_used (pf j) then (fds (fd_procs s c))(j := pf j) else fds (fd_procs s c))"
    "fdp_pid (fd_procs (clone_fd c pf j s) c) = fdp_pid (fd_procs s c)"
    "k \<noteq> c \<Longrightarrow> fd_procs (clone_fd c pf j s) k = fd_procs s k"
    "fr_used (file_refs (clone_fd c pf j s) i) = fr_used (file_refs s i)"
    "file_refs (clone_fd c pf j s) 0 = file_refs s 0"
    unfolding eq using f ok by (auto simp: upd_fds_def file_ref_get_def)
  show "0 < i \<Longrightarrow> fr_refs (file_refs (clone_fd c pf j s) i) = fr_refs (file_refs s i) + holds (pf j) i"
    unfolding eq using f ok by (auto simp: upd_fds_def file_ref_get_def holds_def)
qed

lemma clone_all:
  assumes ok: "\<And>j. j < n \<Longrightarrow> fd_used (pf j) \<Longrightarrow> 0 < file_ref (pf j) \<Longrightarrow> file_ref_ok (file_ref (pf j)) s"
  shows "let s' = fold (clone_fd c pf) [0..<n] s in
    fds (fd_procs s' c) = (\<lambda>j. if j < n \<and> fd_used (pf j) then pf j else fds (fd_procs s c) j) \<and>
    fdp_pid (fd_procs s' c) = fdp_pid (fd_procs s c) \<and>
    (\<forall>k. k \<noteq> c \<longrightarrow> fd_procs s' k = fd_procs s k) \<and>
    (\<forall>i. 0 < i \<longrightarrow> fr_refs (file_refs s' i) = fr_refs (file_refs s i) + (\<Sum>j<n. holds (pf j) i)) \<and>
    (\<forall>i. fr_used (file_refs s' i) = fr_used (file_refs s i)) \<and> file_refs s' 0 = file_refs s 0"
  using ok
proof (induction n)
  case (Suc n)
  let ?s = "fold (clone_fd c pf) [0..<n] s"
  have p: "\<And>j. j < n \<Longrightarrow> fd_used (pf j) \<Longrightarrow> 0 < file_ref (pf j) \<Longrightarrow> file_ref_ok (file_ref (pf j)) s"
    using Suc.prems by (meson less_SucI)
  note IH = Suc.IH [OF p, unfolded Let_def]
  have "fd_used (pf n) \<Longrightarrow> 0 < file_ref (pf n) \<Longrightarrow> file_ref_ok (file_ref (pf n)) ?s"
    using Suc.prems [of n] IH by (simp add: file_ref_ok_def)
  note st = clone_fd_step [of pf n, OF this, where c = c]
  show ?case using IH st by (auto simp: Let_def less_Suc_eq fun_eq_iff)
qed simp

text \<open>
  C10: Fork and the descriptor tables. The child gets the parent's open descriptors at the same
  numbers, the parent's table and every other table stay as they were, every open file gains one
  reference per copied descriptor, and no descriptor refers to a freed file. The references the
  child's initial console descriptors took (third line) stay counted with no descriptor left.
\<close>
theorem fork_shares_files:
  assumes cov: "refs_cover s" and par: "fd_proc_find q s = Some p" and "0 < r" "q \<noteq> r" "q \<noteq> 0"
    and new: "fd_proc_for_pid r True s = (Some c, s1)"
  shows "refs_cover (fd_clone_after_fork q r s) \<and>
    fds (fd_procs (fd_clone_after_fork q r s) c) =
      (\<lambda>j. if j < EDGE_MAX_FD \<and> fd_used (fds (fd_procs s p) j) then fds (fd_procs s p) j else zero_fd) \<and>
    (\<forall>k. k \<noteq> c \<longrightarrow> fd_procs (fd_clone_after_fork q r s) k = fd_procs s k) \<and>
    (\<forall>i. 0 < i \<longrightarrow> fr_refs (file_refs (fd_clone_after_fork q r s) i) =
       fr_refs (file_refs s1 i) + table_holds (fds (fd_procs s p)) i \<and>
       excess (fd_clone_after_fork q r s) i = excess s1 i + table_holds (fds (fd_procs s1 c)) i)"
proof -
  note nw = proc_for_pid_cover [OF cov new]
  have pc: "p \<noteq> c" using proc_find_bound [OF par] proc_find_bound [of r s c] nw(4) assms(4,5) by metis
  have pf: "fd_procs s1 p = fd_procs s p" using nw(3) [OF pc] .
  let ?pf = "fds (fd_procs s p)" and ?s2 = "upd_fds c (\<lambda>_ _. zero_fd) s1"
  let ?s' = "fold (clone_fd c ?pf) [0..<EDGE_MAX_FD] ?s2"
  have eq: "fd_clone_after_fork q r s = ?s'"
    using par assms(3) new pf by (simp add: fd_clone_after_fork_def)
  have pb: "p < EDGE_MAX_FD_PROCS" using proc_find_bound [OF par] by simp
  have le: "table_holds ?pf i \<le> fr_refs (file_refs s1 i)" if "0 < i" for i
    using order_trans [OF holders_ge_table [OF pb, of s1 i] refs_cover_le [OF nw(1) that]] pf by simp
  have one: "holds (?pf j) i \<le> table_holds ?pf i" if "j < EDGE_MAX_FD" for i j
    unfolding table_holds_def by (rule member_le_sum) (use that in simp_all)
  have ok: "file_ref_ok (file_ref (?pf j)) ?s2" if "j < EDGE_MAX_FD" "fd_used (?pf j)" "0 < file_ref (?pf j)" for j
  proof -
    have "0 < fr_refs (file_refs s1 (file_ref (?pf j)))"
      using order_trans [OF one [OF that(1), of "file_ref (?pf j)"] le [OF that(3)]] that by (simp add: holds_def)
    then show ?thesis
      using refs_cover_used [OF nw(1)] refs_cover_big [OF nw(1), of "file_ref (?pf j)"] that
      by (fastforce simp: file_ref_ok_def upd_fds_def not_less [symmetric])
  qed
  note all = clone_all [of EDGE_MAX_FD ?pf ?s2 c, OF ok, unfolded Let_def]
  have hold2: "holders ?s2 i + table_holds (fds (fd_procs s1 c)) i = holders s1 i" for i
    using holders_proc_upd [OF nw(2), of s1 "(fd_procs s1 c)\<lparr>fds := \<lambda>_. zero_fd\<rparr>" i] by (simp add: upd_fds_def)
  have fdc: "fd_procs ?s' = (fd_procs ?s2)(c := fd_procs ?s' c)" using all by (auto simp: fun_eq_iff)
  have th: "table_holds (fds (fd_procs ?s' c)) i = table_holds ?pf i" for i
    using all by (auto simp: table_holds_def holds_def upd_fds_def zero_fd_def intro!: sum.cong)
  have hold: "holders ?s' i = holders ?s2 i + table_holds ?pf i" for i
  proof -
    have "holders ?s' i = holders (?s2\<lparr>fd_procs := (fd_procs ?s2)(c := fd_procs ?s' c)\<rparr>) i"
      unfolding holders_def by (subst fdc) simp
    moreover have "table_holds (fds (fd_procs ?s2 c)) i = 0" by (simp add: upd_fds_def)
    ultimately show ?thesis using holders_proc_upd [OF nw(2), of ?s2 "fd_procs ?s' c" i] th by simp
  qed
  have refs: "fr_refs (file_refs ?s' i) = fr_refs (file_refs s1 i) + table_holds ?pf i" if "0 < i" for i
    using all that by (simp add: table_holds_def upd_fds_def)
  have cov': "refs_cover ?s'"
    unfolding refs_cover_def
  proof (intro conjI allI impI)
    show "holders ?s' i \<le> fr_refs (file_refs ?s' i)" if "0 < i" for i
      using refs_cover_le [OF nw(1) that] hold2 [of i] by (simp add: hold refs [OF that])
    show "fr_used (file_refs ?s' i) \<longleftrightarrow> 0 < fr_refs (file_refs ?s' i)" for i
      using all refs [of i] le [of i] refs_cover_used [OF nw(1), of i]
      by (cases "i = 0") (auto simp: upd_fds_def)
    show "fr_refs (file_refs ?s' i) = 0" if "EDGE_MAX_FILE_REFS \<le> i" for i
      using refs [of i] le [of i] refs_cover_big [OF nw(1) that] that by (simp add: EDGE_MAX_FILE_REFS_def)
  qed
  have tab: "fds (fd_procs ?s' c) = (\<lambda>j. if j < EDGE_MAX_FD \<and> fd_used (?pf j) then ?pf j else zero_fd)"
  proof -
    have "fds (fd_procs ?s2 c) = (\<lambda>_. zero_fd)" by (simp add: upd_fds_def)
    then show ?thesis using all by (simp cong: if_cong)
  qed
  have oth: "fd_procs ?s' k = fd_procs s k" if "k \<noteq> c" for k using all nw(3) [OF that] that by (simp add: upd_fds_def)
  have ex: "excess ?s' i = excess s1 i + table_holds (fds (fd_procs s1 c)) i" if "0 < i" for i
    using refs_cover_le [OF nw(1) that] hold2 [of i] hold [of i] refs [OF that] by (simp add: excess_def)
  show ?thesis unfolding eq using cov' tab oth refs ex by blast
qed

lemma table_holds_upd_free:
  "j < EDGE_MAX_FD \<Longrightarrow> \<not> fd_used (t j) \<Longrightarrow> table_holds (t(j := e)) i = table_holds t i + holds e i"
  using table_holds_upd [of j t e i] by (simp add: holds_def)

lemma zero_fd_unused [simp]: "\<not> fd_used zero_fd"
  by (simp add: zero_fd_def)

definition demo_open :: kern where
  "demo_open = demo_kern
     \<lparr>fd_procs := (\<lambda>_. zero_fd_proc)(0 := zero_fd_proc\<lparr>fdp_pid := 1, fds := (\<lambda>_. zero_fd)(3 := zero_fd\<lparr>fd_used := True, fd_kind := FD_VFS, file_ref := 1\<rparr>)\<rparr>),
      file_refs := (\<lambda>_. \<lparr>fr_used = False, fr_refs = 0\<rparr>)(1 := \<lparr>fr_used = True, fr_refs = 1\<rparr>)\<rparr>"

lemma demo_open_table: "table_holds (fds (fd_procs demo_open p)) i = (if p = 0 \<and> i = 1 then 1 else 0)"
  by (simp add: table_holds_upd_free demo_open_def zero_fd_proc_def EDGE_MAX_FD_def holds_def)

lemma demo_open_cover: "refs_cover demo_open"
proof -
  have "holders demo_open i = (if i = 1 then 1 else 0)" for i
    unfolding holders_def demo_open_table by (auto simp: EDGE_MAX_FD_PROCS_def sum.delta)
  then show ?thesis by (auto simp: refs_cover_def demo_open_def EDGE_MAX_FILE_REFS_def)
qed

lemma demo_open_find: "fd_proc_find 1 demo_open = Some 0" "fd_proc_find 2 demo_open = None" "fd_proc_find 0 demo_open = Some 1"
  by (simp_all add: fd_proc_find_def demo_open_def zero_fd_proc_def first_idx_eval [of _ 0] first_idx_eval [of _ "Suc 0"] first_idx_None EDGE_MAX_FD_PROCS_def)

definition demo_console :: "nat \<Rightarrow> edge_fd" where
  "demo_console = (\<lambda>_. zero_fd)(0 := stdio_fd 2 0 zero_fd, 1 := stdio_fd 3 LINUX_O_WRONLY zero_fd, 2 := stdio_fd 4 LINUX_O_WRONLY zero_fd)"

lemma ensure_one_next:
  assumes "\<And>i. fr_used (file_refs s i) \<longleftrightarrow> 0 < i \<and> i < k" "0 < k" "k < EDGE_MAX_FILE_REFS" "\<not> fd_used (fds (fd_procs s p) j)"
  shows "ensure_one p j fl (True, s) =
    (True, upd_fds p (\<lambda>t. t(j := stdio_fd k fl (t j))) (s\<lparr>file_refs := (file_refs s)(k := \<lparr>fr_used = True, fr_refs = 1\<rparr>)\<rparr>))"
proof -
  have "first_idx (\<lambda>i. \<not> fr_used (file_refs s i)) 1 EDGE_MAX_FILE_REFS = Some k"
    using assms by (auto simp: first_idx_Some)
  then show ?thesis using assms by (simp add: ensure_one_def file_ref_alloc_def)
qed

lemma demo_fork_new:
  obtains s1 where "fd_proc_for_pid 2 True demo_open = (Some 1, s1)" "fds (fd_procs s1 1) = demo_console"
    "fr_refs (file_refs s1 1) = 1"
proof -
  let ?s = "demo_open\<lparr>fd_procs := (fd_procs demo_open)(1 := zero_fd_proc\<lparr>fdp_pid := 2\<rparr>)\<rparr>"
  have used: "fr_used (file_refs ?s i) \<longleftrightarrow> 0 < i \<and> i < 2" for i by (auto simp: demo_open_def)
  let ?s1 = "upd_fds 1 (\<lambda>t. t(0 := stdio_fd 2 0 (t 0))) (?s\<lparr>file_refs := (file_refs ?s)(2 := \<lparr>fr_used = True, fr_refs = 1\<rparr>)\<rparr>)"
  let ?s2 = "upd_fds 1 (\<lambda>t. t(1 := stdio_fd 3 LINUX_O_WRONLY (t 1))) (?s1\<lparr>file_refs := (file_refs ?s1)(3 := \<lparr>fr_used = True, fr_refs = 1\<rparr>)\<rparr>)"
  have used1: "fr_used (file_refs ?s1 i) \<longleftrightarrow> 0 < i \<and> i < 3" for i using used [of i] by (auto simp: upd_fds_def)
  have used2: "fr_used (file_refs ?s2 i) \<longleftrightarrow> 0 < i \<and> i < 4" for i using used1 [of i] by (auto simp: upd_fds_def)
  have "fd_ensure_stdio 1 ?s = upd_fds 1 (\<lambda>t. t(2 := stdio_fd 4 LINUX_O_WRONLY (t 2)))
      (?s2\<lparr>file_refs := (file_refs ?s2)(4 := \<lparr>fr_used = True, fr_refs = 1\<rparr>)\<rparr>)"
    unfolding fd_ensure_stdio_def
    by (subst ensure_one_next [OF used], simp, simp add: EDGE_MAX_FILE_REFS_def, simp add: zero_fd_proc_def,
        subst ensure_one_next [OF used1], simp, simp add: EDGE_MAX_FILE_REFS_def, simp add: upd_fds_def zero_fd_proc_def,
        subst ensure_one_next [OF used2], simp, simp add: EDGE_MAX_FILE_REFS_def, simp add: upd_fds_def zero_fd_proc_def)
      simp
  moreover have "fd_proc_for_pid 2 True demo_open = (Some 1, fd_ensure_stdio 1 ?s)"
    by (simp add: fd_proc_for_pid_def demo_open_find)
  ultimately show thesis
    by (intro that) (auto simp: upd_fds_def demo_console_def zero_fd_proc_def demo_open_def)
qed

theorem release_drops_exactly_witness:
  "refs_cover (fd_proc_release 1 demo_open) \<and> fr_refs (file_refs (fd_proc_release 1 demo_open) 1) = 0"
  using release_drops_exactly [OF demo_open_cover demo_open_find(1), of 1]
  by (simp add: demo_open_table) (simp add: demo_open_def)

text \<open>Here the reference 2 stays counted after the fork although no descriptor holds it.\<close>

theorem fork_shares_files_witness:
  "refs_cover (fd_clone_after_fork 1 2 demo_open) \<and>
   fd_kind (fds (fd_procs (fd_clone_after_fork 1 2 demo_open) 1) 3) = FD_VFS \<and>
   fr_refs (file_refs (fd_clone_after_fork 1 2 demo_open) 1) = 2 \<and>
   0 < excess (fd_clone_after_fork 1 2 demo_open) 2"
proof -
  obtain s1 where new: "fd_proc_for_pid 2 True demo_open = (Some 1, s1)" "fds (fd_procs s1 1) = demo_console"
    "fr_refs (file_refs s1 1) = 1" by (rule demo_fork_new)
  have "table_holds demo_console 2 = 1"
    by (simp add: demo_console_def table_holds_upd_free EDGE_MAX_FD_def holds_def stdio_fd_def)
  then show ?thesis
    using fork_shares_files [OF demo_open_cover demo_open_find(1) _ _ _ new(1)] new(2,3)
    by (simp add: demo_open_table) (simp add: demo_open_def zero_fd_def EDGE_MAX_FD_def zero_fd_proc_def)
qed

section \<open>Waiting\<close>

lemma reap_more: "sched.more (reap rel t s) = sched.more (rel (pid (tasks s t)) s)"
  by (simp add: reap_def scheduler_task_set_unused_def leave_queue_def rq_remove_locked_def task_child_unlink_def Let_def split: option.split)

lemma more_files: "sched.more s = sched.more s' \<Longrightarrow> fd_procs s = fd_procs s' \<and> file_refs s = (file_refs s' :: nat \<Rightarrow> edge_file_ref)"
  for s s' :: "'a kern_scheme"
  by (cases s; cases s') simp

lemma refs_cover_more: "sched.more s = sched.more s' \<Longrightarrow> refs_cover s = refs_cover s'"
  for s s' :: "'a kern_scheme"
  using more_files [of s s'] by (simp add: refs_cover_def holders_def)

lemma release_none: "fd_proc_find q s = None \<Longrightarrow> fd_proc_release q s = s"
  by (simp add: fd_proc_release_def)

text \<open>
  C8: Waiting. With the real file layer, \<^verbatim>\<open>process_wait_pid\<close> looks at the children that match its
  argument. If one is a zombie, the first such child is reaped: its pid and \<open>code mod 256\<close> shifted
  left by eight are returned, it leaves the process tree and every queue, and its slot is zero. Its descriptors are released: the
  state of the files is that after the release; if the child has a descriptor table, the table is gone, no other table has changed, every open file has lost exactly the
  references that the table held and no remaining descriptor refers to a freed file.
  If no child matches, \<open>-1\<close> is returned; with \<open>WNOHANG\<close>, 0; otherwise the caller goes
  to sleep and some other task (or the idle task) runs.
\<close>
theorem wait_pid_reaps:
  fixes s :: "'a kern_scheme"
  assumes "sched_inv s qs" "tree_ok s cs" "cur = process_current_task s" "m = wait_match p (tasks s cur)"
    and "\<not> is_idle (tasks s cur)"
    and "\<And>t. t \<in> set (cs cur) \<Longrightarrow> state (tasks s t) = TASK_ZOMBIE \<Longrightarrow>
      not_current t s \<and> cs t = [] \<and> \<not> is_idle (tasks s t)"
    and "refs_cover s"
  shows "case find (\<lambda>t. m (tasks s t) \<and> state (tasks s t) = TASK_ZOMBIE) (cs cur) of
     Some t \<Rightarrow> \<exists>s'. process_wait_pid syscall_release_process_fds p options s =
         Some (Returned (pid (tasks s t)) (Some ((exit_code (tasks s t) mod 256) * 256)) s') \<and>
       tree_ok s' (f_unlink t cs) \<and> sched_inv s' (q_remove t qs) \<and> tasks s' t = zero_task \<and>
       sched.more s' = sched.more (fd_proc_release (pid (tasks s t)) s) \<and> refs_cover s' \<and>
       (case fd_proc_find (pid (tasks s t)) s of
          None \<Rightarrow> fd_procs s' = fd_procs s \<and> file_refs s' = file_refs s
        | Some d \<Rightarrow> fd_procs s' = (fd_procs s)(d := zero_fd_proc) \<and>
            (\<forall>i > 0. fr_refs (file_refs s' i) + table_holds (fds (fd_procs s d)) i = fr_refs (file_refs s i)))
   | None \<Rightarrow>
       if \<not> list_ex (\<lambda>t. m (tasks s t)) (cs cur)
       then process_wait_pid syscall_release_process_fds p options s = Some (Returned (-1) None s)
       else if options AND 1 \<noteq> 0
       then process_wait_pid syscall_release_process_fds p options s = Some (Returned 0 None s)
       else \<exists>s' qs'. process_wait_pid syscall_release_process_fds p options s = Some (Sleeping s') \<and> sched_inv s' qs' \<and>
         running_task s' (scheduler_cpu_id s) \<noteq> Some cur"
proof (cases "find (\<lambda>t. m (tasks s t) \<and> state (tasks s t) = TASK_ZOMBIE) (cs cur)")
  case None
  then show ?thesis using files.wait_pid_spec [where options = options, OF assms(1-6)] by simp
next
  case (Some t)
  let ?q = "pid (tasks s t)"
  let ?s = "reap syscall_release_process_fds t s" and ?f = "fd_proc_release ?q s"
  have m: "sched.more ?s = sched.more ?f" by (simp add: reap_more syscall_release_process_fds_def)
  note f = more_files [OF m] and c = refs_cover_more [OF m]
  have "refs_cover ?s \<and> (case fd_proc_find ?q s of
          None \<Rightarrow> fd_procs ?s = fd_procs s \<and> file_refs ?s = file_refs s
        | Some d \<Rightarrow> fd_procs ?s = (fd_procs s)(d := zero_fd_proc) \<and>
            (\<forall>i > 0. fr_refs (file_refs ?s i) + table_holds (fds (fd_procs s d)) i = fr_refs (file_refs s i)))"
  proof (cases "fd_proc_find ?q s")
    case None
    then show ?thesis using f c assms(7) by (simp add: release_none)
  next
    case (Some d)
    then show ?thesis using f c release_effect [OF assms(7) Some] by auto
  qed
  then show ?thesis using files.wait_pid_spec [where options = options, OF assms(1-6)] Some m by auto
qed

text \<open>The second child has exited and has left an open file.\<close>

definition demo_left :: kern where
  "demo_left = demo_open\<lparr>fd_procs := (\<lambda>_. zero_fd_proc)
     (0 := zero_fd_proc\<lparr>fdp_pid := 3, fds := (\<lambda>_. zero_fd)(3 := zero_fd\<lparr>fd_used := True, fd_kind := FD_VFS, file_ref := 1\<rparr>)\<rparr>)\<rparr>"

definition demo_zombie :: kern where
  "demo_zombie = scheduler_task_set_zombie (TaskP 2) demo_left"

lemma set_zombie_more: "sched.more (scheduler_task_set_zombie t s) = sched.more s"
  by (simp add: scheduler_task_set_zombie_def leave_queue_def rq_remove_locked_def Let_def split: option.split)

lemma demo_left_base:
  "tasks demo_left = tasks demo_kern" "sched_cpus demo_left = sched_cpus demo_kern"
  "scheduler_ready demo_left = scheduler_ready demo_kern" "local_cpu_id demo_left = local_cpu_id demo_kern"
  by (simp_all add: demo_left_def demo_open_def)

lemma demo_zombie_files: "refs_cover demo_zombie" "fd_proc_find 3 demo_zombie = Some 0" "file_refs demo_zombie 1 = \<lparr>fr_used = True, fr_refs = 1\<rparr>"
  "table_holds (fds (fd_procs demo_zombie 0)) 1 = 1"
proof -
  have m: "fd_procs demo_zombie = fd_procs demo_left" "file_refs demo_zombie = file_refs demo_left"
    using more_files [of demo_zombie demo_left] by (simp_all add: demo_zombie_def set_zombie_more)
  have t: "table_holds (fds (fd_procs demo_left p)) i = table_holds (fds (fd_procs demo_open p)) i" for p i
    by (simp add: demo_left_def demo_open_def)
  have "refs_cover demo_left = refs_cover demo_open" unfolding refs_cover_def holders_def t by (simp add: demo_left_def)
  then show "refs_cover demo_zombie" using demo_open_cover refs_cover_more [of demo_zombie demo_left] by (simp add: demo_zombie_def set_zombie_more)
  show "fd_proc_find 3 demo_zombie = Some 0"
    by (simp add: fd_proc_find_def m demo_left_def zero_fd_proc_def first_idx_eval [of _ 0] EDGE_MAX_FD_PROCS_def)
  show "file_refs demo_zombie 1 = \<lparr>fr_used = True, fr_refs = 1\<rparr>" by (simp add: m demo_left_def demo_open_def)
  show "table_holds (fds (fd_procs demo_zombie 0)) 1 = 1" by (simp add: m t demo_open_table)
qed

lemma demo_kern_current: "current (sched_cpus demo_kern 0) = Some (TaskP 0)"
proof -
  let ?a = "task_child_link (Some (TaskP 1)) (TaskP 0) demo_pids"
  note sb = same_but_treeD(8) [OF link_same_but_tree [of demo_pids "Some (TaskP 1)" "TaskP 0"]]
    and sb2 = same_but_treeD(8) [OF link_same_but_tree [of ?a "Some (TaskP 0)" "TaskP 2"], folded demo_tree_def]
  show ?thesis unfolding demo_kern_base sb2 sb by (simp add: demo_pids_def demo_sched_states)
qed

lemma demo_zombie_base:
  "sched_inv demo_zombie (q_remove (TaskP 2) ((\<lambda>_. [])(0 := [TaskP 1, TaskP 2])))" "tree_ok demo_zombie demo_forest"
  "process_current_task demo_zombie = TaskP 0" "state (tasks demo_zombie (TaskP 2)) = TASK_ZOMBIE" "pid (tasks demo_zombie (TaskP 2)) = 3"
  "\<not> is_idle (tasks demo_zombie (TaskP i))" "not_current (TaskP 2) demo_zombie"
proof -
  have i: "sched_inv demo_left ((\<lambda>_. [])(0 := [TaskP 1, TaskP 2]))"
    using sched_inv_view [of demo_left demo_kern] demo_kern_inv(1) by (simp add: demo_left_base)
  have ni: "\<not> is_idle (tasks demo_left (TaskP 2))" using i by (simp add: sched_inv_def run_inv_def)
  show z: "sched_inv demo_zombie (q_remove (TaskP 2) ((\<lambda>_. [])(0 := [TaskP 1, TaskP 2])))"
    unfolding demo_zombie_def by (rule set_zombie_inv [OF i ni])
  show "\<not> is_idle (tasks demo_zombie (TaskP i))" using z by (simp add: sched_inv_def run_inv_def)
  show "tree_ok demo_zombie demo_forest"
    using tree_ok_view [of demo_zombie demo_kern] demo_kern_inv(2) set_zombie_tree [of "TaskP 2" demo_left]
    by (simp add: demo_zombie_def demo_left_base)
  have links: "links_rel demo_left ((\<lambda>_. [])(0 := [TaskP 1, TaskP 2]))" using i by (simp add: sched_inv_def)
  note sb = same_but_linksD [OF leave_queue_rel(2) [OF links, of "TaskP 2"]]
  have c: "current (sched_cpus demo_zombie k) = current (sched_cpus demo_kern k)" for k
    using sb(5) ni by (simp add: demo_zombie_def scheduler_task_set_zombie_def demo_left_base)
  have idle: "idle (sched_cpus demo_zombie k) = idle (sched_cpus demo_kern k)" for k
    using sb(6) ni by (simp add: demo_zombie_def scheduler_task_set_zombie_def demo_left_base)
  show "state (tasks demo_zombie (TaskP 2)) = TASK_ZOMBIE" using ni by (simp add: demo_zombie_def scheduler_task_set_zombie_def)
  show "pid (tasks demo_zombie (TaskP 2)) = 3"
    using unschedD [OF sched_unsched(1) [of "TaskP 2" demo_left "TaskP 2"]] by (simp add: demo_zombie_def demo_left_base demo_kern_base demo_tree_facts)
  have "scheduler_cpu_id demo_zombie = scheduler_cpu_id demo_kern"
    using sb(9) ni by (simp add: demo_zombie_def scheduler_task_set_zombie_def) (simp add: scheduler_cpu_id_def demo_left_base)
  moreover have "scheduler_ready demo_zombie" "scheduler_ready demo_kern" using z demo_kern_inv(1) by (simp_all add: sched_inv_def run_inv_def)
  ultimately have "process_current_task demo_zombie = process_current_task demo_kern"
    by (simp add: process_current_task_def scheduler_current_task_def c idle cong: option.case_cong)
  then show "process_current_task demo_zombie = TaskP 0" by (simp add: demo_kern_inv)
  show "not_current (TaskP 2) demo_zombie"
    unfolding not_current_def list_all_iff c
  proof (intro ballI notI)
    fix k assume k: "k \<in> set [0..<SCHED_MAX_CPUS]" "current (sched_cpus demo_kern k) = Some (TaskP 2)"
    have "assigned_cpu (tasks demo_left (TaskP 2)) = int k"
      using i ni k by (simp add: sched_inv_def run_inv_def demo_left_base)
    moreover have "assigned_cpu (tasks demo_left (TaskP 2)) = int 0"
      using links unfolding links_rel_def by (simp add: SCHED_MAX_CPUS_def) (metis zero_less_numeral)
    ultimately show False using k(2) demo_kern_current by simp
  qed
qed

theorem wait_pid_reaps_witness:
  "\<exists>s'. process_wait_pid syscall_release_process_fds (-1) 0 demo_zombie = Some (Returned 3 (Some ((exit_code (tasks demo_zombie (TaskP 2)) mod 256) * 256)) s') \<and>
     tasks s' (TaskP 2) = zero_task \<and> fd_procs s' 0 = zero_fd_proc \<and> fr_refs (file_refs s' 1) = 0"
proof -
  have kids: "demo_forest (TaskP 0) = [TaskP 2]" "demo_forest (TaskP 2) = []" by (simp_all add: demo_forest_def)
  have no: "not_current t demo_zombie \<and> demo_forest t = [] \<and> \<not> is_idle (tasks demo_zombie t)"
    if "t \<in> set (demo_forest (TaskP 0))" "state (tasks demo_zombie t) = TASK_ZOMBIE" for t
    using that kids demo_zombie_base(6,7) by auto
  note w = wait_pid_reaps [OF demo_zombie_base(1,2) demo_zombie_base(3) [symmetric] refl demo_zombie_base(6) no demo_zombie_files(1), of "-1" 0]
  have "find (\<lambda>t. wait_match (-1) (tasks demo_zombie (TaskP 0)) (tasks demo_zombie t) \<and> state (tasks demo_zombie t) = TASK_ZOMBIE)
      (demo_forest (TaskP 0)) = Some (TaskP 2)"
    by (simp add: kids demo_zombie_base wait_match_def)
  with w show ?thesis
    by (auto simp: demo_zombie_base demo_zombie_files demo_zombie_files [simplified] dest!: spec [where x = "1 :: nat"])
qed

end
