(* ===== verification/Ext2Disk.thy ===== *)
theory Ext2Disk
  imports Ext2
begin

text \<open>
  The blocks of a mounted ext2 file system on a reliable device: what \<open>read_block\<close>, \<open>write_block\<close>,
  inode access and bitmap allocation do to the blocks. \<open>reliable\<close> is the contract of the driver:
  single-sector requests succeed, reads return the sectors and writes store them.
\<close>

section \<open>A reliable device\<close>

lemma block_write_loop_live:
  "(\<And>d l bs. snd (wr d l 1 bs) = 0) \<Longrightarrow> 0 < unat mb \<Longrightarrow> snd (block_write_loop wr ss lba count src d dn mb) = 0"
proof (induction wr ss lba count src d dn mb rule: block_write_loop.induct)
  case (1 wr ss lba count src d dn mb)
  show ?case
  proof (cases "dn < count")
    case False
    then show ?thesis by (simp add: block_write_loop.simps [of wr ss lba count src d dn])
  next
    case True
    let ?c = "next_chunk count dn mb"
    have c: "?c \<noteq> 0" using True "1.prems"(2) by (rule next_chunk_pos)
    obtain d1 rc where wr: "wr d (lba + dn) ?c (get_bytes src (unat (dn * ss)) (unat ?c * unat ss)) = (d1, rc)"
      by fastforce
    note eq = block_write_loop_unfold [of dn count mb wr d lba src ss d1 rc, OF True c wr]
    show ?thesis
    proof (cases "rc = 0")
      case zero: True
      then show ?thesis
        using "1.IH"(1) [OF _ refl c wr [symmetric] zero] True "1.prems" eq by simp
    next
      case False
      have "?c \<noteq> 1" using "1.prems"(1) [of d "lba + dn" "get_bytes src (unat (dn * ss)) (unat ss)"] wr False by auto
      with c have gt: "\<not> ?c \<le> 1" by (simp add: word_le_nat_alt word_unat_eq_iff)
      with False show ?thesis
        using "1.IH"(2) [OF _ refl c wr [symmetric] False gt] True "1.prems" eq smaller_batch_facts(2) [OF gt]
        by simp
    qed
  qed
qed

definition reliable :: "('d \<Rightarrow> u32 \<Rightarrow> u8 list) \<Rightarrow> 'd block_device \<Rightarrow> bool" where
  "reliable content dv \<longleftrightarrow> sector_size dv = 512 \<and>
     (\<exists>rd wr. read_sectors (ops dv) = Some rd \<and> write_sectors (ops dv) = Some wr \<and>
        driver_reads rd 512 content \<and> driver_writes wr 512 content \<and>
        (\<forall>d l. fst (snd (rd d l 1)) = 0) \<and> (\<forall>d l bs. snd (wr d l 1 bs) = 0))"

lemma reliable_read:
  assumes "reliable content dv" "unat n < 2 ^ 20"
  obtains d' out' where "block_read_sectors (Some dv) d lba n (Some out) = (d', 0, Some out')"
    "content d' = content d" "get_bytes out' 0 (unat n * 512) = sectors content d lba (unat n)"
proof -
  obtain rd where rd: "read_sectors (ops dv) = Some rd" "driver_reads rd 512 content" "\<And>d l. fst (snd (rd d l 1)) = 0"
    "sector_size dv = 512"
    using assms(1) by (auto simp: reliable_def)
  obtain d' rc out' where l: "block_read_loop rd 512 lba n d 0 BLOCK_BATCH_MAX_SECTORS out = (d', rc, out')"
    by (metis prod_cases3)
  have rc: "rc = 0"
    using block_read_loop_live [of rd BLOCK_BATCH_MAX_SECTORS 512 lba n d 0 out, OF rd(3)] l by (simp add: model_simps)
  have c: "content d' = content d \<and> get_bytes out' 0 (unat n * unat (512 :: u32)) = sectors content d lba (unat n)"
    by (rule block_read_loop_correct [OF rd(2) _ _ _ l [unfolded rc]])
      (use assms(2) in \<open>simp_all add: get_bytes_def sectors_def\<close>)
  show thesis
  proof (cases "n = 0")
    case True
    then show ?thesis using rd that [of d out] by (simp add: block_read_sectors_def get_bytes_def sectors_def)
  next
    case False
    then show ?thesis using rd l rc c that [of d' out'] by (simp add: block_read_sectors_def)
  qed
qed

lemma reliable_write:
  assumes "reliable content dv" "unat n < 2 ^ 20"
  obtains d' where "block_write_sectors (Some dv) d lba n (Some src) = (d', 0)"
    "sectors content d' lba (unat n) = get_bytes src 0 (unat n * 512)"
    "\<And>x. outside lba (unat n) x \<Longrightarrow> content d' x = content d x"
proof -
  obtain wr where wr: "write_sectors (ops dv) = Some wr" "driver_writes wr 512 content"
    "\<And>d l bs. snd (wr d l 1 bs) = 0" "sector_size dv = 512"
    using assms(1) by (auto simp: reliable_def)
  obtain d' rc where l: "block_write_loop wr 512 lba n src d 0 BLOCK_BATCH_MAX_SECTORS = (d', rc)" by fastforce
  have rc: "rc = 0"
    using block_write_loop_live [of wr BLOCK_BATCH_MAX_SECTORS 512 lba n src d 0, OF wr(3)] l by (simp add: model_simps)
  have c: "sectors content d' lba (unat n) = get_bytes src 0 (unat n * unat (512 :: u32)) \<and>
      (\<forall>x. outside lba (unat n) x \<longrightarrow> content d' x = content d x)"
    by (rule block_write_loop_correct [OF wr(2) _ _ _ l [unfolded rc]])
      (use assms(2) in \<open>simp_all add: get_bytes_def sectors_def\<close>)
  show thesis
  proof (cases "n = 0")
    case True
    then show ?thesis using wr that [of d] by (simp add: block_write_sectors_def get_bytes_def sectors_def)
  next
    case False
    then show ?thesis using wr l rc c that [of d'] by (simp add: block_write_sectors_def)
  qed
qed

section \<open>The blocks of a file system\<close>

definition fs_cnt_of :: "'d ext2_fs \<Rightarrow> u32" where
  "fs_cnt_of fs = block_size fs div 512"

definition fs_ok :: "('d \<Rightarrow> u32 \<Rightarrow> u8 list) \<Rightarrow> nat \<Rightarrow> 'd ext2_st \<Rightarrow> bool" where
  "fs_ok content f st \<longleftrightarrow>
     (\<exists>dv. bdev (ext2_mounts st f) = Some dv \<and> reliable content dv) \<and>
     block_size (ext2_mounts st f) \<in> {1024, 2048, 4096}"

definition blk :: "('d \<Rightarrow> u32 \<Rightarrow> u8 list) \<Rightarrow> nat \<Rightarrow> 'd ext2_st \<Rightarrow> u32 \<Rightarrow> nat \<Rightarrow> u8" where
  "blk content f st b i =
     sectors content (disk st) (b * fs_cnt_of (ext2_mounts st f)) (unat (fs_cnt_of (ext2_mounts st f))) ! i"

definition blk_ok :: "nat \<Rightarrow> 'd ext2_st \<Rightarrow> u32 \<Rightarrow> bool" where
  "blk_ok f st b \<longleftrightarrow> (unat b + 1) * unat (fs_cnt_of (ext2_mounts st f)) \<le> 2 ^ 32"

definition same_disk :: "('d \<Rightarrow> u32 \<Rightarrow> u8 list) \<Rightarrow> 'd ext2_st \<Rightarrow> 'd ext2_st \<Rightarrow> bool" where
  "same_disk content st s1 \<longleftrightarrow>
     ext2_mounts s1 = ext2_mounts st \<and> ext2_mount_count s1 = ext2_mount_count st \<and> content (disk s1) = content (disk st)"

lemma same_disk_refl [simp]: "same_disk content st st"
  by (simp add: same_disk_def)

lemma same_disk_trans: "same_disk content s1 s2 \<Longrightarrow> same_disk content s2 s3 \<Longrightarrow> same_disk content s1 s3"
  by (simp add: same_disk_def)

lemma same_disk_io [simp]: "same_disk content st (s1\<lparr>g_io := p\<rparr>) = same_disk content st s1"
  by (simp add: same_disk_def)

lemma same_disk_blk: "same_disk content st s1 \<Longrightarrow> blk content f s1 = blk content f st"
  by (intro ext) (auto simp: blk_def same_disk_def intro: arg_cong [OF sectors_cong] fun_cong simp: sectors_def)

lemma same_disk_ok: "same_disk content st s1 \<Longrightarrow> fs_ok content f s1 = fs_ok content f st"
  by (simp add: fs_ok_def same_disk_def)

lemma same_disk_blk_ok: "same_disk content st s1 \<Longrightarrow> blk_ok f s1 b = blk_ok f st b"
  by (simp add: blk_ok_def same_disk_def)

lemma fs_ok_cnt:
  assumes "fs_ok content f st"
  shows "fs_cnt (ext2_mounts st f) = Some (fs_cnt_of (ext2_mounts st f))"
    "unat (fs_cnt_of (ext2_mounts st f)) \<in> {2, 4, 8}"
    "unat (fs_cnt_of (ext2_mounts st f)) * 512 = bsize f st"
proof -
  obtain dv where dv: "bdev (ext2_mounts st f) = Some dv" "sector_size dv = 512"
    using assms by (auto simp: fs_ok_def reliable_def)
  consider "block_size (ext2_mounts st f) = 1024" | "block_size (ext2_mounts st f) = 2048" | "block_size (ext2_mounts st f) = 4096"
    using assms by (auto simp: fs_ok_def)
  then show "fs_cnt (ext2_mounts st f) = Some (fs_cnt_of (ext2_mounts st f))"
    "unat (fs_cnt_of (ext2_mounts st f)) \<in> {2, 4, 8}"
    "unat (fs_cnt_of (ext2_mounts st f)) * 512 = bsize f st"
    by (cases; simp add: fs_cnt_def fs_cnt_of_def dv)+
qed

lemma nth_get_bytes: "i < n \<Longrightarrow> get_bytes p off n ! i = p (off + i)"
  by (simp add: get_bytes_def)

lemma fs_ok_dev:
  assumes "fs_ok content f st"
  obtains dv where "bdev (ext2_mounts st f) = Some dv" "reliable content dv"
  using assms by (auto simp: fs_ok_def)

lemma read_block_ok:
  assumes "fs_ok content f st"
  obtains s1 where "read_block f b st = (True, s1)" "same_disk content st s1"
    "\<And>i. i < bsize f st \<Longrightarrow> g_io s1 i = blk content f st b i"
proof -
  let ?c = "fs_cnt_of (ext2_mounts st f)"
  obtain dv where dv: "bdev (ext2_mounts st f) = Some dv" "reliable content dv" by (rule fs_ok_dev [OF assms])
  note c = fs_ok_cnt [OF assms]
  have "unat ?c < 2 ^ 20" using c(2) by auto
  then obtain d' out' where r: "block_read_sectors (Some dv) (disk st) (b * ?c) ?c (Some (g_io st)) = (d', 0, Some out')"
    "content d' = content (disk st)" "get_bytes out' 0 (unat ?c * 512) = sectors content (disk st) (b * ?c) (unat ?c)"
    by (rule reliable_read [OF dv(2)])
  have "out' i = blk content f st b i" if "i < bsize f st" for i
  proof -
    have "blk content f st b i = get_bytes out' 0 (unat ?c * 512) ! i" by (simp only: blk_def r(3))
    then show ?thesis using that c(3) by (simp add: nth_get_bytes)
  qed
  then show thesis
    using r that [of "st\<lparr>disk := d', g_io := out'\<rparr>"] c(1) dv(1)
    by (simp add: read_block_def dev_read_def same_disk_def)
qed

lemma mult_add_inj: "a * c + i = b * c + j \<Longrightarrow> i < c \<Longrightarrow> j < c \<Longrightarrow> a = (b :: nat)"
  using div_mult_self3 [of c a i] div_mult_self3 [of c b j] by simp

lemma blk_outside:
  assumes "blk_ok f st b" "blk_ok f st b'" "b \<noteq> b'" "i < unat (fs_cnt_of (ext2_mounts st f))"
    and c: "unat (fs_cnt_of (ext2_mounts st f)) \<in> {2, 4, 8}"
  shows "outside (b * fs_cnt_of (ext2_mounts st f)) (unat (fs_cnt_of (ext2_mounts st f)))
    (b' * fs_cnt_of (ext2_mounts st f) + word_of_nat i)"
  unfolding outside_def
proof (intro allI impI notI)
  let ?c = "fs_cnt_of (ext2_mounts st f)"
  fix j assume j: "j < unat ?c" "b' * ?c + word_of_nat i = b * ?c + word_of_nat j"
  have u: "unat (x * ?c + word_of_nat k) = unat x * unat ?c + k"
    if "blk_ok f st x" "k < unat ?c" for x k
  proof -
    have "unat x * unat ?c + k < 2 ^ 32" using that by (simp add: blk_ok_def)
    moreover have "unat (word_of_nat k :: u32) = k" using that(2) c by (auto simp: unat_of_nat)
    moreover have "unat (x * ?c) = unat x * unat ?c" using calculation(1) by (simp add: unat_word_ariths)
    ultimately show ?thesis by (simp add: unat_plus_no_wrap)
  qed
  have "unat b' * unat ?c + i = unat b * unat ?c + j"
    using u [OF assms(2,4)] u [OF assms(1) j(1)] j(2) by simp
  then have "unat b' = unat b" by (rule mult_add_inj) (use j(1) assms(4) in simp_all)
  with assms(3) show False by (simp add: word_unat_eq_iff)
qed

definition wrote :: "('d \<Rightarrow> u32 \<Rightarrow> u8 list) \<Rightarrow> nat \<Rightarrow> u32 \<Rightarrow> 'd ext2_st \<Rightarrow> 'd ext2_st \<Rightarrow> bool" where
  "wrote content f b st s1 \<longleftrightarrow>
     ext2_mounts s1 = ext2_mounts st \<and> ext2_mount_count s1 = ext2_mount_count st \<and> g_io s1 = g_io st \<and>
     (\<forall>i < bsize f st. blk content f s1 b i = g_io st i) \<and>
     (\<forall>b'. blk_ok f st b' \<longrightarrow> b' \<noteq> b \<longrightarrow> blk content f s1 b' = blk content f st b')"

lemma write_block_ok:
  assumes "fs_ok content f st" "blk_ok f st b"
  obtains s1 where "write_block f b st = (True, s1)" "wrote content f b st s1" "fs_ok content f s1"
proof -
  let ?c = "fs_cnt_of (ext2_mounts st f)"
  obtain dv where dv: "bdev (ext2_mounts st f) = Some dv" "reliable content dv" by (rule fs_ok_dev [OF assms(1)])
  note c = fs_ok_cnt [OF assms(1)]
  have "unat ?c < 2 ^ 20" using c(2) by auto
  then obtain d' where w: "block_write_sectors (Some dv) (disk st) (b * ?c) ?c (Some (g_io st)) = (d', 0)"
    "sectors content d' (b * ?c) (unat ?c) = get_bytes (g_io st) 0 (unat ?c * 512)"
    "\<And>x. outside (b * ?c) (unat ?c) x \<Longrightarrow> content d' x = content (disk st) x"
    by (rule reliable_write [OF dv(2), where d = "disk st" and lba = "b * ?c" and src = "g_io st"]) blast
  let ?s = "st\<lparr>disk := d'\<rparr>"
  have "blk content f ?s b i = g_io st i" if "i < bsize f st" for i
    using that c(3) by (simp add: blk_def w(2) nth_get_bytes)
  moreover have "blk content f ?s b' = blk content f st b'" if "blk_ok f st b'" "b' \<noteq> b" for b'
  proof -
    have "sectors content d' (b' * ?c) (unat ?c) = sectors content (disk st) (b' * ?c) (unat ?c)"
      by (rule sectors_frame, rule w(3), rule blk_outside [OF assms(2) that(1) _ _ c(2)]) (use that in auto)
    then show ?thesis by (simp add: blk_def fun_eq_iff)
  qed
  ultimately show thesis
    using w that [of ?s] c(1) dv assms(1) by (simp add: write_block_def dev_write_def wrote_def fs_ok_def)
qed

section \<open>Encodings\<close>

lemma length_le [simp]: "length (le16 v) = 2" "length (le32 w) = 4"
  by (simp_all add: le16_def le32_def)

lemma le16_rd16le: "le16 (rd16le p k) = get_bytes p k 2"
proof -
  have "ucast (rd16le p k) = p k" "ucast (drop_bit 8 (rd16le p k)) = p (k + 1)"
    unfolding rd16le_def by (rule bit_word_eqI, auto simp: bit_simps dest: bit_imp_le_length)+
  then show ?thesis by (simp add: le16_def get_bytes_def upt_rec)
qed

lemma le32_rd32le: "le32 (rd32le p k) = get_bytes p k 4"
proof -
  have "ucast (rd32le p k) = p k" "ucast (drop_bit 8 (rd32le p k)) = p (k + 1)"
    "ucast (drop_bit 16 (rd32le p k)) = p (k + 2)" "ucast (drop_bit 24 (rd32le p k)) = p (k + 3)"
    unfolding rd32le_def by (rule bit_word_eqI, auto simp: bit_simps dest: bit_imp_le_length)+
  then show ?thesis by (simp add: le32_def get_bytes_def upt_rec numeral_eq_Suc)
qed

lemma rd16le_bytes:
  assumes "p k = ucast v" "p (k + 1) = ucast (drop_bit 8 v)"
  shows "rd16le p k = v"
  unfolding rd16le_def assms by (rule bit_word_eqI) (auto simp: bit_simps)

lemma rd32le_bytes:
  assumes "p k = ucast v" "p (k + 1) = ucast (drop_bit 8 v)" "p (k + 2) = ucast (drop_bit 16 v)" "p (k + 3) = ucast (drop_bit 24 v)"
  shows "rd32le p k = v"
proof (rule bit_word_eqI)
  fix n assume "n < LENGTH(32)"
  then have n: "n < 32" by simp
  consider "n < 8" | "8 \<le> n \<and> n < 16" | "16 \<le> n \<and> n < 24" | "24 \<le> n" by linarith
  then show "bit (rd32le p k) n \<longleftrightarrow> bit v n"
    unfolding rd32le_def assms using n by cases (auto simp: bit_simps)
qed

lemma put_bytes_nth: "i < length bs \<Longrightarrow> put_bytes p k bs (k + i) = bs ! i"
  by (simp add: put_bytes_def)

lemma put_bytes_outside: "i < k \<or> k + length bs \<le> i \<Longrightarrow> put_bytes p k bs i = p i"
  by (auto simp: put_bytes_def)

lemma get_put_bytes: "get_bytes (put_bytes p k (as @ bs @ cs)) (k + length as) (length bs) = bs"
  by (rule nth_equalityI) (auto simp: get_bytes_def put_bytes_def nth_append)

lemma rd16le_get: "get_bytes p k 2 = le16 v \<Longrightarrow> rd16le p k = v"
  by (rule rd16le_bytes) (auto simp: get_bytes_def le16_def upt_rec)

lemma rd32le_get: "get_bytes p k 4 = le32 v \<Longrightarrow> rd32le p k = v"
  by (rule rd32le_bytes) (auto simp: get_bytes_def le32_def upt_rec numeral_eq_Suc)

lemma get_bytes_put_off:
  "j + n \<le> length bs \<Longrightarrow> get_bytes (put_bytes p k bs) (k + j) n = take n (drop j bs)"
  by (rule nth_equalityI) (auto simp: get_bytes_def put_bytes_def)

lemma rd16le_put: "take 2 (drop j bs) = le16 v \<Longrightarrow> j + 2 \<le> length bs \<Longrightarrow> rd16le (put_bytes p k bs) (k + j) = v"
  by (rule rd16le_get) (simp add: get_bytes_put_off)

lemma rd32le_put: "take 4 (drop j bs) = le32 v \<Longrightarrow> j + 4 \<le> length bs \<Longrightarrow> rd32le (put_bytes p k bs) (k + j) = v"
  by (rule rd32le_get) (simp add: get_bytes_put_off)

lemma length_concat_le32: "length (concat (map le32 xs)) = 4 * length xs"
  by (induction xs) auto

lemma take_drop_concat_le32: "i < length xs \<Longrightarrow> take 4 (drop (4 * i) (concat (map le32 xs))) = le32 (xs ! i)"
proof (induction xs arbitrary: i)
  case (Cons x xs)
  show ?case
  proof (cases i)
    case (Suc j)
    then show ?thesis using Cons by simp
  qed simp
qed simp

lemma length_inode_bytes: "length (e_block x) = 15 \<Longrightarrow> length (e_osd2 x) = 12 \<Longrightarrow> length (inode_bytes x) = EXT2_INODE_BYTES"
  by (simp add: inode_bytes_def length_concat_le32 EXT2_INODE_BYTES_def)

lemma length_bgdesc_bytes: "length (bg_reserved x) = 12 \<Longrightarrow> length (bgdesc_bytes x) = EXT2_BGDESC_BYTES"
  by (simp add: bgdesc_bytes_def EXT2_BGDESC_BYTES_def)

lemma length_super_bytes: "length (super_bytes x) = EXT2_SUPER_BYTES"
  by (simp add: super_bytes_def EXT2_SUPER_BYTES_def)

text \<open>Decoding the encoding of an inode at any offset of a buffer gives the inode back.\<close>

lemma inode_of_bytes:
  assumes "length (e_block x) = 15" "length (e_osd2 x) = 12"
  shows "inode_of (put_bytes p k (inode_bytes x)) k = x"
proof -
  let ?b = "inode_bytes x" and ?q = "put_bytes p k (inode_bytes x)"
  have l: "length ?b = 128" using length_inode_bytes [OF assms] by (simp add: EXT2_INODE_BYTES_def)
  have w16: "rd16le ?q (k + 0) = e_mode x" "rd16le ?q (k + 2) = e_uid x" "rd16le ?q (k + 24) = e_gid x"
    "rd16le ?q (k + 26) = links_count x"
    by (rule rd16le_put, simp add: inode_bytes_def, simp add: l)+
  have w32: "rd32le ?q (k + 4) = e_size x" "rd32le ?q (k + 8) = e_atime x" "rd32le ?q (k + 12) = e_ctime x"
    "rd32le ?q (k + 16) = e_mtime x" "rd32le ?q (k + 20) = e_dtime x" "rd32le ?q (k + 28) = e_blocks x"
    "rd32le ?q (k + 32) = e_flags x" "rd32le ?q (k + 36) = e_osd1 x"
    "rd32le ?q (k + 100) = e_generation x" "rd32le ?q (k + 104) = e_file_acl x" "rd32le ?q (k + 108) = e_dir_acl x"
    "rd32le ?q (k + 112) = e_faddr x"
    by (rule rd32le_put, simp add: inode_bytes_def length_concat_le32 assms, simp add: l)+
  have "rd32le ?q (k + (40 + 4 * i)) = e_block x ! i" if "i < 15" for i
    by (rule rd32le_put)
      (use that take_drop_concat_le32 [of i "e_block x"] assms in \<open>auto simp: inode_bytes_def length_concat_le32\<close>)
  then have "map (\<lambda>i. rd32le ?q (k + 40 + 4 * i)) [0..<15] = e_block x"
    using assms(1) by (intro nth_equalityI) (auto simp: add.assoc)
  moreover have "get_bytes ?q (k + 116) 12 = e_osd2 x"
    using get_bytes_put_off [of 116 12 ?b p k] l by (simp add: inode_bytes_def length_concat_le32 assms)
  ultimately show ?thesis using w16 w32 by (simp add: inode_of_def)
qed

section \<open>Inodes\<close>

text \<open>The inode table: inodes of at least 128 bytes that do not straddle blocks, in blocks of the device.\<close>

definition inode_geom :: "nat \<Rightarrow> 'd ext2_st \<Rightarrow> bool" where
  "inode_geom f st \<longleftrightarrow>
     (let fs = ext2_mounts st f; isz = unat (inode_size (sb fs)); n = unat (inodes_count (sb fs))
      in 128 \<le> isz \<and> isz dvd bsize f st \<and> n * isz < 2 ^ 32 \<and>
         (unat (inode_table (bg fs)) + n * isz div bsize f st + 1) * unat (fs_cnt_of fs) \<le> 2 ^ 32)"

definition inode_at :: "('d \<Rightarrow> u32 \<Rightarrow> u8 list) \<Rightarrow> nat \<Rightarrow> 'd ext2_st \<Rightarrow> u32 \<Rightarrow> ext2_inode" where
  "inode_at content f st ino =
     inode_of (blk content f st (inode_blk (ext2_mounts st f) ino)) (inode_boff (ext2_mounts st f) ino)"

lemma fs_ok_bsize: "fs_ok content f st \<Longrightarrow> bsize f st \<in> {1024, 2048, 4096}"
  by (auto simp: fs_ok_def)

lemma unat_ucast_u16: "unat (ucast (w :: u16) :: u32) = unat w"
  using unat_u16_bound [of w] by (simp add: unsigned_ucast_eq take_bit_nat_eq_self)

lemma le_mult_pos: "0 < c \<Longrightarrow> a \<le> a * (c :: nat)"
  by (cases c) auto

lemma unat_inode_off:
  assumes "inode_geom f st" "inode_ok (ext2_mounts st f) ino"
  shows "unat ((ino - 1) * ucast (inode_size (sb (ext2_mounts st f)))) =
      (unat ino - 1) * unat (inode_size (sb (ext2_mounts st f)))"
    and "(unat ino - 1) * unat (inode_size (sb (ext2_mounts st f))) + unat (inode_size (sb (ext2_mounts st f))) \<le>
      unat (inodes_count (sb (ext2_mounts st f))) * unat (inode_size (sb (ext2_mounts st f)))"
proof -
  let ?z = "inode_size (sb (ext2_mounts st f))" and ?n = "inodes_count (sb (ext2_mounts st f))"
  have i: "0 < unat ino" "unat ino \<le> unat ?n" using assms(2) by (auto simp: inode_ok_def word_le_nat_alt unat_gt_0)
  have z: "unat (ucast ?z :: u32) = unat ?z" by (rule unat_ucast_u16)
  show le: "(unat ino - 1) * unat ?z + unat ?z \<le> unat ?n * unat ?z"
    using mult_le_mono1 [OF i(2), of "unat ?z"] i(1) by (cases "unat ino") (auto simp: algebra_simps)
  have "unat (ino - 1) = unat ino - 1" using i(1) by (simp add: unat_minus_no_wrap word_le_nat_alt)
  then show "unat ((ino - 1) * ucast ?z) = (unat ino - 1) * unat ?z"
    using le z assms(1) by (simp add: unat_word_ariths inode_geom_def Let_def)
qed

lemma inode_blk_unat:
  assumes "fs_ok content f st" "inode_geom f st" "inode_ok (ext2_mounts st f) ino"
  shows "unat (inode_blk (ext2_mounts st f) ino) =
      unat (inode_table (bg (ext2_mounts st f))) + (unat ino - 1) * unat (inode_size (sb (ext2_mounts st f))) div bsize f st"
    and "inode_boff (ext2_mounts st f) ino = (unat ino - 1) * unat (inode_size (sb (ext2_mounts st f))) mod bsize f st"
    and "blk_ok f st (inode_blk (ext2_mounts st f) ino)"
proof -
  let ?fs = "ext2_mounts st f"
  let ?o = "(unat ino - 1) * unat (inode_size (sb ?fs))" and ?N = "unat (inodes_count (sb ?fs)) * unat (inode_size (sb ?fs))"
  note u = unat_inode_off [OF assms(2,3)]
  have b: "0 < bsize f st" using fs_ok_bsize [OF assms(1)] by auto
  have c: "0 < unat (fs_cnt_of ?fs)" using fs_ok_cnt(2) [OF assms(1)] by auto
  have d: "?o div bsize f st \<le> ?N div bsize f st" by (rule div_le_mono, rule add_leD1 [OF u(2)])
  have g: "(unat (inode_table (bg ?fs)) + ?N div bsize f st + 1) * unat (fs_cnt_of ?fs) \<le> 2 ^ 32"
    using assms(2) by (simp add: inode_geom_def Let_def)
  have m: "(unat (inode_table (bg ?fs)) + ?o div bsize f st + 1) * unat (fs_cnt_of ?fs) \<le> 2 ^ 32"
    by (rule order_trans [OF _ g], rule mult_le_mono1) (use d in simp)
  have "unat (inode_table (bg ?fs)) + ?o div bsize f st + 1 \<le>
      (unat (inode_table (bg ?fs)) + ?o div bsize f st + 1) * unat (fs_cnt_of ?fs)"
    by (rule le_mult_pos [OF c])
  with m have lt: "unat (inode_table (bg ?fs)) + ?o div bsize f st < 2 ^ 32" by linarith
  show q: "unat (inode_blk ?fs ino) = unat (inode_table (bg ?fs)) + ?o div bsize f st"
    unfolding inode_blk_def by (subst unat_plus_no_wrap) (use lt in \<open>simp_all add: unat_div u(1)\<close>)
  show "inode_boff ?fs ino = ?o mod bsize f st" by (simp add: inode_boff_def unat_mod u(1))
  show "blk_ok f st (inode_blk ?fs ino)" using m by (simp only: blk_ok_def q)
qed

lemma inode_boff_fits:
  assumes "fs_ok content f st" "inode_geom f st" "inode_ok (ext2_mounts st f) ino"
  shows "inode_boff (ext2_mounts st f) ino + EXT2_INODE_BYTES \<le> bsize f st"
    "unat (inode_size (sb (ext2_mounts st f))) dvd inode_boff (ext2_mounts st f) ino"
proof -
  let ?z = "unat (inode_size (sb (ext2_mounts st f)))"
  have d: "?z dvd bsize f st" "128 \<le> ?z" using assms(2) by (auto simp: inode_geom_def Let_def)
  have b: "0 < bsize f st" using fs_ok_bsize [OF assms(1)] by auto
  show m: "?z dvd inode_boff (ext2_mounts st f) ino"
    unfolding inode_blk_unat(2) [OF assms] using d(1) by (simp add: dvd_mod)
  have lt: "inode_boff (ext2_mounts st f) ino < bsize f st" unfolding inode_blk_unat(2) [OF assms] using b by simp
  have "?z dvd bsize f st - inode_boff (ext2_mounts st f) ino" using m d(1) by (rule dvd_diff_nat [rotated])
  then have "?z \<le> bsize f st - inode_boff (ext2_mounts st f) ino" using lt by (simp add: dvd_imp_le)
  then show "inode_boff (ext2_mounts st f) ino + EXT2_INODE_BYTES \<le> bsize f st"
    using d(2) lt by (simp add: EXT2_INODE_BYTES_def)
qed

lemma inode_slots_disjoint:
  assumes "fs_ok content f st" "inode_geom f st" "inode_ok (ext2_mounts st f) i" "inode_ok (ext2_mounts st f) j" "i \<noteq> j"
    and same: "inode_blk (ext2_mounts st f) i = inode_blk (ext2_mounts st f) j"
  shows "inode_boff (ext2_mounts st f) i + EXT2_INODE_BYTES \<le> inode_boff (ext2_mounts st f) j \<or>
    inode_boff (ext2_mounts st f) j + EXT2_INODE_BYTES \<le> inode_boff (ext2_mounts st f) i"
proof -
  let ?fs = "ext2_mounts st f"
  let ?z = "unat (inode_size (sb ?fs))"
  have z: "128 \<le> ?z" using assms(2) by (simp add: inode_geom_def Let_def)
  have q: "(unat i - 1) * ?z div bsize f st = (unat j - 1) * ?z div bsize f st"
    using inode_blk_unat(1) [OF assms(1,2,3)] inode_blk_unat(1) [OF assms(1,2,4)] same by simp
  have o: "inode_boff ?fs i \<noteq> inode_boff ?fs j"
  proof
    assume "inode_boff ?fs i = inode_boff ?fs j"
    then have "(unat i - 1) * ?z mod bsize f st = (unat j - 1) * ?z mod bsize f st"
      using inode_blk_unat(2) [OF assms(1,2,3)] inode_blk_unat(2) [OF assms(1,2,4)] by simp
    then have "(unat i - 1) * ?z = (unat j - 1) * ?z" using q by (metis div_mult_mod_eq)
    then have "unat i - 1 = unat j - 1" using z by simp
    moreover have "0 < unat i" "0 < unat j" using assms(3,4) by (auto simp: inode_ok_def unat_gt_0)
    ultimately have "unat i = unat j" by linarith
    then show False using assms(5) by (simp add: word_unat_eq_iff)
  qed
  obtain a b where ab: "inode_boff ?fs i = ?z * a" "inode_boff ?fs j = ?z * b"
    using inode_boff_fits(2) [OF assms(1,2,3)] inode_boff_fits(2) [OF assms(1,2,4)] by (auto elim!: dvdE)
  have "?z * a + ?z \<le> ?z * b \<or> ?z * b + ?z \<le> ?z * a"
  proof (cases "a < b")
    case True
    then show ?thesis using mult_le_mono2 [of "Suc a" b ?z] by simp
  next
    case False
    with o ab have "b < a" by (metis linorder_neqE_nat)
    then show ?thesis using mult_le_mono2 [of "Suc b" a ?z] by simp
  qed
  then show ?thesis using z ab by (auto simp: EXT2_INODE_BYTES_def)
qed

lemma inode_of_cong:
  assumes "\<And>i. i < EXT2_INODE_BYTES \<Longrightarrow> p (k + i) = q (k + i)"
  shows "inode_of p k = inode_of q k"
proof -
  have r: "p (k + i) = q (k + i)" if "i < 128" for i using assms that by (simp add: EXT2_INODE_BYTES_def)
  have 0: "p k = q k" using r [of 0] by simp
  have w: "rd32le p (k + j) = rd32le q (k + j)" if "j + 3 < 128" for j
    using that r [of j] r [of "j + 1"] r [of "j + 2"] r [of "j + 3"] by (simp add: rd32le_def add.assoc)
  have h: "rd16le p (k + j) = rd16le q (k + j)" if "j + 1 < 128" for j
    using that r [of j] r [of "j + 1"] by (simp add: rd16le_def add.assoc)
  have b: "map (\<lambda>i. rd32le p (k + 40 + 4 * i)) [0..<15] = map (\<lambda>i. rd32le q (k + 40 + 4 * i)) [0..<15]"
    using w by (auto simp: add.assoc)
  have g: "get_bytes p (k + 116) 12 = get_bytes q (k + 116) 12" using r by (auto simp: get_bytes_def add.assoc)
  show ?thesis unfolding inode_of_def using w h h [of 0] h [of 2] b g by (simp del: upt_Suc)
qed

subsection \<open>What an operation leaves alone\<close>

definition same_geom :: "'d ext2_fs \<Rightarrow> 'd ext2_fs \<Rightarrow> bool" where
  "same_geom fs fs' \<longleftrightarrow> bdev fs' = bdev fs \<and> block_size fs' = block_size fs \<and>
     inodes_count (sb fs') = inodes_count (sb fs) \<and> inode_size (sb fs') = inode_size (sb fs) \<and>
     first_data_block (sb fs') = first_data_block (sb fs) \<and> blocks_per_group (sb fs') = blocks_per_group (sb fs) \<and>
     inodes_per_group (sb fs') = inodes_per_group (sb fs) \<and> blocks_count (sb fs') = blocks_count (sb fs) \<and>
     block_bitmap (bg fs') = block_bitmap (bg fs) \<and> inode_bitmap (bg fs') = inode_bitmap (bg fs) \<and>
     inode_table (bg fs') = inode_table (bg fs) \<and> length (bg_reserved (bg fs')) = length (bg_reserved (bg fs))"

text \<open>\<open>frame content f S st s1\<close>: from \<open>st\<close> to \<open>s1\<close> at most the blocks in \<open>S\<close> and the free counts of
  the file system \<open>f\<close> have changed.\<close>

definition frame :: "('d \<Rightarrow> u32 \<Rightarrow> u8 list) \<Rightarrow> nat \<Rightarrow> u32 set \<Rightarrow> 'd ext2_st \<Rightarrow> 'd ext2_st \<Rightarrow> bool" where
  "frame content f S st s1 \<longleftrightarrow>
     same_geom (ext2_mounts st f) (ext2_mounts s1 f) \<and> (\<forall>g. g \<noteq> f \<longrightarrow> ext2_mounts s1 g = ext2_mounts st g) \<and>
     (\<forall>b. blk_ok f st b \<longrightarrow> b \<notin> S \<longrightarrow> (\<forall>i < bsize f st. blk content f s1 b i = blk content f st b i))"

lemma same_geom_refl [simp]: "same_geom fs fs"
  by (simp add: same_geom_def)

lemma same_geom_trans: "same_geom a b \<Longrightarrow> same_geom b c \<Longrightarrow> same_geom a c"
  by (simp add: same_geom_def)

lemma same_geom_count_down [simp]: "same_geom fs (count_down b fs)"
  by (simp add: same_geom_def count_down_def)

lemma frame_geom:
  assumes "frame content f S st s1"
  shows "blk_ok f s1 b = blk_ok f st b" "bsize f s1 = bsize f st" "fs_ok content f s1 = fs_ok content f st"
    "inode_ok (ext2_mounts s1 f) i = inode_ok (ext2_mounts st f) i" "inode_blk (ext2_mounts s1 f) i = inode_blk (ext2_mounts st f) i"
    "inode_boff (ext2_mounts s1 f) i = inode_boff (ext2_mounts st f) i" "inode_geom f s1 = inode_geom f st"
  using assms
  by (simp_all add: frame_def same_geom_def blk_ok_def fs_cnt_of_def fs_ok_def inode_ok_def inode_blk_def inode_boff_def
      inode_geom_def Let_def)

lemma frame_refl [simp]: "frame content f S st st"
  by (simp add: frame_def)

lemma frame_mono: "frame content f S st s1 \<Longrightarrow> S \<subseteq> T \<Longrightarrow> frame content f T st s1"
  by (auto simp: frame_def)

lemma frame_trans:
  assumes "frame content f S st s1" "frame content f T s1 s2"
  shows "frame content f (S \<union> T) st s2"
  using assms frame_geom(1,2) [OF assms(1)] unfolding frame_def by (auto intro: same_geom_trans)

lemma frame_trans_same:
  assumes "frame content f S st s1" "frame content f S s1 s2"
  shows "frame content f S st s2"
  using frame_trans [OF assms] by simp

lemma frame_same_disk: "same_disk content st s1 \<Longrightarrow> frame content f S st s1"
  by (simp add: frame_def same_disk_blk) (simp add: same_disk_def)

lemma frame_io [simp]: "frame content f S st (s1\<lparr>g_io := p\<rparr>) = frame content f S st s1"
  by (simp add: frame_def blk_def)

lemma frame_io_left [simp]: "frame content f S (st\<lparr>g_io := p\<rparr>) s1 = frame content f S st s1"
  by (simp add: frame_def blk_def blk_ok_def)

lemma frame_wrote: "wrote content f b st s1 \<Longrightarrow> frame content f {b} st s1"
  by (simp add: frame_def wrote_def)

lemma frame_blk: "frame content f S st s1 \<Longrightarrow> blk_ok f st b \<Longrightarrow> b \<notin> S \<Longrightarrow> i < bsize f st \<Longrightarrow> blk content f s1 b i = blk content f st b i"
  by (simp add: frame_def)

lemma fs_ok_io [simp]: "fs_ok content f (st\<lparr>g_io := p\<rparr>) = fs_ok content f st"
  and blk_ok_io [simp]: "blk_ok f (st\<lparr>g_io := p\<rparr>) b = blk_ok f st b"
  and blk_io [simp]: "blk content f (st\<lparr>g_io := p\<rparr>) = blk content f st"
  by (simp_all add: fs_ok_def blk_ok_def blk_def [abs_def])

subsection \<open>Reading and writing inodes\<close>

lemma frame_inode_at:
  assumes "frame content f S st s1" "fs_ok content f st" "inode_geom f st" "inode_ok (ext2_mounts st f) ino"
    "inode_blk (ext2_mounts st f) ino \<notin> S"
  shows "inode_at content f s1 ino = inode_at content f st ino"
  unfolding inode_at_def frame_geom(5,6) [OF assms(1)]
  by (rule inode_of_cong, rule frame_blk [OF assms(1) inode_blk_unat(3) [OF assms(2-4)] assms(5)])
    (use inode_boff_fits(1) [OF assms(2-4)] in simp)

lemma read_inode_ok:
  assumes "fs_ok content f st" "inode_geom f st" "inode_ok (ext2_mounts st f) ino"
  obtains s1 where "read_inode f ino st = (Some (inode_at content f st ino), s1)" "same_disk content st s1"
proof -
  let ?fs = "ext2_mounts st f"
  obtain s1 where r: "read_block f (inode_blk ?fs ino) st = (True, s1)" "same_disk content st s1"
    "\<And>i. i < bsize f st \<Longrightarrow> g_io s1 i = blk content f st (inode_blk ?fs ino) i"
    by (rule read_block_ok [OF assms(1)]) blast
  have "inode_of (g_io s1) (inode_boff ?fs ino) = inode_at content f st ino"
    unfolding inode_at_def by (rule inode_of_cong, rule r(3)) (use inode_boff_fits(1) [OF assms] in simp)
  then show thesis
    using r that [of s1] inode_boff_fits(1) [OF assms] assms(3) by (simp add: read_inode_def Let_def)
qed

definition inode_valid :: "ext2_inode \<Rightarrow> bool" where
  "inode_valid x \<longleftrightarrow> length (e_block x) = 15 \<and> length (e_osd2 x) = 12"

lemma inode_of_valid [simp]: "inode_valid (inode_of p k)" "inode_valid (inode_at content f st i)" "inode_valid zero_inode_rec"
  by (simp_all add: inode_valid_def inode_of_def inode_at_def zero_inode_rec_def)

lemma write_inode_ok:
  assumes "fs_ok content f st" "inode_geom f st" "inode_ok (ext2_mounts st f) ino" "inode_valid x"
  obtains s1 where "write_inode f ino x st = (True, s1)" "frame content f {inode_blk (ext2_mounts st f) ino} st s1"
    "ext2_mounts s1 = ext2_mounts st" "inode_at content f s1 ino = x"
    "\<And>j. inode_ok (ext2_mounts st f) j \<Longrightarrow> j \<noteq> ino \<Longrightarrow> inode_at content f s1 j = inode_at content f st j"
proof -
  let ?fs = "ext2_mounts st f"
  let ?b = "inode_blk ?fs ino" and ?o = "inode_boff ?fs ino"
  note fit = inode_boff_fits(1) [OF assms(1-3)] and bok = inode_blk_unat(3) [OF assms(1-3)]
  obtain s1 where r: "read_block f ?b st = (True, s1)" "same_disk content st s1"
    "\<And>i. i < bsize f st \<Longrightarrow> g_io s1 i = blk content f st ?b i"
    by (rule read_block_ok [OF assms(1)]) blast
  let ?p = "put_bytes (g_io s1) ?o (inode_bytes x)"
  let ?s = "s1\<lparr>g_io := ?p\<rparr>"
  have m: "ext2_mounts s1 = ext2_mounts st" using r(2) by (simp add: same_disk_def)
  have ok: "fs_ok content f ?s" "blk_ok f ?s ?b" using assms(1) bok same_disk_ok [OF r(2)] same_disk_blk_ok [OF r(2)] by simp_all
  obtain s2 where w: "write_block f ?b ?s = (True, s2)" "wrote content f ?b ?s s2" by (rule write_block_ok [OF ok]) blast
  have len: "length (inode_bytes x) = EXT2_INODE_BYTES" using assms(4) by (simp add: inode_valid_def length_inode_bytes)
  have fr: "frame content f {?b} st s2"
    using frame_trans_same [OF frame_same_disk [OF r(2)] frame_wrote [OF w(2), simplified]] .
  have b2: "blk content f s2 ?b i = ?p i" if "i < bsize f st" for i using w(2) that m by (simp add: wrote_def)
  have at2: "inode_at content f s2 j = inode_of (blk content f s2 (inode_blk ?fs j)) (inode_boff ?fs j)" for j
    unfolding inode_at_def frame_geom(5,6) [OF fr] ..
  have "inode_at content f s2 ino = inode_of ?p ?o"
    unfolding at2 by (rule inode_of_cong, rule b2) (use fit in simp)
  also have "\<dots> = x" using assms(4) by (simp add: inode_valid_def inode_of_bytes)
  finally have same: "inode_at content f s2 ino = x" .
  have oth: "inode_at content f s2 j = inode_at content f st j" if j: "inode_ok ?fs j" "j \<noteq> ino" for j
  proof (cases "inode_blk ?fs j = ?b")
    case True
    note dj = inode_slots_disjoint [OF assms(1-3) j(1) j(2) [symmetric] True [symmetric]]
    note fj = inode_boff_fits(1) [OF assms(1,2) j(1)]
    show ?thesis
      unfolding at2 unfolding inode_at_def True
    proof (rule inode_of_cong)
      fix i assume i: "i < EXT2_INODE_BYTES"
      have "blk content f s2 ?b (inode_boff ?fs j + i) = ?p (inode_boff ?fs j + i)" by (rule b2) (use i fj in simp)
      also have "\<dots> = g_io s1 (inode_boff ?fs j + i)" by (rule put_bytes_outside) (use i dj len in auto)
      finally show "blk content f s2 ?b (inode_boff ?fs j + i) = blk content f st ?b (inode_boff ?fs j + i)"
        using r(3) [of "inode_boff ?fs j + i"] i fj by simp
    qed
  next
    case False
    then show ?thesis using frame_inode_at [OF fr assms(1,2) j(1)] by simp
  qed
  have m2: "ext2_mounts s2 = ext2_mounts st" using w(2) m by (simp add: wrote_def)
  show thesis
    by (rule that [OF _ fr m2 same oth]) (use r w(1) fit assms(3) in \<open>simp_all add: write_inode_def Let_def\<close>)
qed

section \<open>Bitmaps\<close>

text \<open>The super block, two sectors from sector 2, is in the first data block; the group descriptor
  in the next one.\<close>

definition super_geom :: "nat \<Rightarrow> 'd ext2_st \<Rightarrow> bool" where
  "super_geom f st \<longleftrightarrow> first_data_block (sb (ext2_mounts st f)) = (if bsize f st = 1024 then 1 else 0) \<and>
     length (bg_reserved (bg (ext2_mounts st f))) = 12"

definition super_blocks :: "nat \<Rightarrow> 'd ext2_st \<Rightarrow> u32 set" where
  "super_blocks f st = {first_data_block (sb (ext2_mounts st f)), first_data_block (sb (ext2_mounts st f)) + 1}"

lemma frame_super_geom:
  "frame content f S st s1 \<Longrightarrow> super_geom f s1 = super_geom f st" "frame content f S st s1 \<Longrightarrow> super_blocks f s1 = super_blocks f st"
  by (simp_all add: frame_def same_geom_def super_geom_def super_blocks_def)

lemma fs_ok_sizes:
  assumes "fs_ok content f st"
  obtains "block_size (ext2_mounts st f) = 1024" "fs_cnt_of (ext2_mounts st f) = 2"
  | "block_size (ext2_mounts st f) = 2048" "fs_cnt_of (ext2_mounts st f) = 4"
  | "block_size (ext2_mounts st f) = 4096" "fs_cnt_of (ext2_mounts st f) = 8"
  using assms by (auto simp: fs_ok_def fs_cnt_of_def)

lemma super_blk_ok:
  assumes "fs_ok content f st" "super_geom f st"
  shows "blk_ok f st (first_data_block (sb (ext2_mounts st f)))" "blk_ok f st (first_data_block (sb (ext2_mounts st f)) + 1)"
  by (rule fs_ok_sizes [OF assms(1)]; use assms(2) in \<open>simp add: blk_ok_def super_geom_def\<close>)+

lemma sector_outside_super:
  assumes ok: "fs_ok content f st" "super_geom f st" and b: "blk_ok f st b" "b \<noteq> first_data_block (sb (ext2_mounts st f))"
    and i: "i < unat (fs_cnt_of (ext2_mounts st f))"
  shows "outside 2 2 (b * fs_cnt_of (ext2_mounts st f) + word_of_nat i)"
proof -
  let ?fs = "ext2_mounts st f"
  let ?c = "fs_cnt_of ?fs" and ?d = "first_data_block (sb ?fs)"
  note c = fs_ok_cnt(2) [OF ok(1)]
  note o = blk_outside [OF super_blk_ok(1) [OF ok] b(1) b(2) [symmetric] i c]
  have e: "\<exists>j < unat ?c. 2 + word_of_nat k = ?d * ?c + word_of_nat j" if "k < 2" for k
    by (rule fs_ok_sizes [OF ok(1)]; rule exI [of _ "if bsize f st = 1024 then k else 2 + k"];
        use ok(2) that in \<open>simp add: super_geom_def\<close>)
  show ?thesis
    unfolding outside_def
  proof (intro allI impI notI)
    fix k assume k: "k < 2" "b * ?c + word_of_nat i = 2 + word_of_nat k"
    obtain j where "j < unat ?c" "2 + word_of_nat k = ?d * ?c + word_of_nat j" using e [OF k(1)] by blast
    with o k(2) show False by (auto simp: outside_def)
  qed
qed

lemma dev_read_ok:
  assumes "fs_ok content f st"
  obtains s1 where "dev_read f lba 2 st = (True, s1)" "same_disk content st s1"
proof -
  obtain dv where dv: "bdev (ext2_mounts st f) = Some dv" "reliable content dv" by (rule fs_ok_dev [OF assms])
  obtain d' out' where "block_read_sectors (Some dv) (disk st) lba 2 (Some (g_io st)) = (d', 0, Some out')"
    "content d' = content (disk st)"
    by (rule reliable_read [OF dv(2), where n = 2 and d = "disk st" and lba = lba and out = "g_io st"]) auto
  then show thesis using that [of "st\<lparr>disk := d', g_io := out'\<rparr>"] dv(1) by (simp add: dev_read_def same_disk_def)
qed

lemma dev_write_super_ok:
  assumes "fs_ok content f st" "super_geom f st"
  obtains s1 where "dev_write f 2 2 st = (True, s1)" "ext2_mounts s1 = ext2_mounts st" "g_io s1 = g_io st"
    "frame content f {first_data_block (sb (ext2_mounts st f))} st s1"
proof -
  let ?c = "fs_cnt_of (ext2_mounts st f)"
  obtain dv where dv: "bdev (ext2_mounts st f) = Some dv" "reliable content dv" by (rule fs_ok_dev [OF assms(1)])
  have two: "unat (2 :: u32) = 2" "unat (2 :: u32) < 2 ^ 20" by simp_all
  obtain d' where w: "block_write_sectors (Some dv) (disk st) 2 2 (Some (g_io st)) = (d', 0)"
    "\<And>x. outside 2 2 x \<Longrightarrow> content d' x = content (disk st) x"
    by (rule reliable_write [OF dv(2) two(2), where d = "disk st" and lba = 2 and src = "g_io st"]) (auto simp: two(1))
  have "blk content f (st\<lparr>disk := d'\<rparr>) b = blk content f st b"
    if "blk_ok f st b" "b \<noteq> first_data_block (sb (ext2_mounts st f))" for b
  proof -
    have "sectors content d' (b * ?c) (unat ?c) = sectors content (disk st) (b * ?c) (unat ?c)"
      by (rule sectors_frame, rule w(2), rule sector_outside_super [OF assms that])
    then show ?thesis by (simp add: blk_def fun_eq_iff)
  qed
  then have "frame content f {first_data_block (sb (ext2_mounts st f))} st (st\<lparr>disk := d'\<rparr>)" by (simp add: frame_def)
  then show thesis using w(1) dv(1) that [of "st\<lparr>disk := d'\<rparr>"] by (simp add: dev_write_def)
qed

lemma sync_super_bg_ok:
  assumes "fs_ok content f st" "super_geom f st"
  obtains s1 where "sync_super_bg f st = (True, s1)" "frame content f (super_blocks f st) st s1"
    "ext2_mounts s1 = ext2_mounts st"
proof -
  let ?d = "first_data_block (sb (ext2_mounts st f))"
  obtain s1 where r: "dev_read f 2 2 st = (True, s1)" "same_disk content st s1" by (rule dev_read_ok [OF assms(1)])
  have m1: "ext2_mounts s1 = ext2_mounts st" using r(2) by (simp add: same_disk_def)
  let ?s1 = "s1\<lparr>g_io := put_bytes (g_io s1) 0 (super_bytes (sb (ext2_mounts s1 f)))\<rparr>"
  have ok1: "fs_ok content f ?s1" "super_geom f ?s1" using assms same_disk_ok [OF r(2)] m1 by (simp_all add: super_geom_def)
  obtain s2 where w: "dev_write f 2 2 ?s1 = (True, s2)" "ext2_mounts s2 = ext2_mounts st" "frame content f {?d} ?s1 s2"
    by (rule dev_write_super_ok [OF ok1]) (simp add: m1)
  have f2: "frame content f {?d} st s2" by (rule frame_trans_same [OF frame_same_disk [OF r(2)] w(3) [simplified]])
  have ok2: "fs_ok content f s2" using frame_geom(3) [OF f2] assms(1) by simp
  obtain s3 where r3: "read_block f (?d + 1) s2 = (True, s3)" "same_disk content s2 s3" by (rule read_block_ok [OF ok2]) blast
  have m3: "ext2_mounts s3 = ext2_mounts st" using r3(2) w(2) by (simp add: same_disk_def)
  let ?s3 = "s3\<lparr>g_io := put_bytes (g_io s3) 0 (bgdesc_bytes (bg (ext2_mounts s3 f)))\<rparr>"
  have ok3: "fs_ok content f ?s3" "blk_ok f ?s3 (?d + 1)"
    using ok2 same_disk_ok [OF r3(2)] super_blk_ok(2) [OF assms] frame_geom(1) [OF f2] same_disk_blk_ok [OF r3(2)] by simp_all
  obtain s4 where w4: "write_block f (?d + 1) ?s3 = (True, s4)" "wrote content f (?d + 1) ?s3 s4"
    by (rule write_block_ok [OF ok3]) blast
  have f3: "frame content f {} s2 s3" by (rule frame_same_disk [OF r3(2)])
  have f4: "frame content f {?d + 1} s3 s4" using frame_wrote [OF w4(2)] by simp
  have "frame content f (super_blocks f st) st s4"
    by (rule frame_mono [OF frame_trans [OF f2 frame_trans [OF f3 f4]]]) (auto simp: super_blocks_def)
  moreover have "sync_super_bg f st = (True, s4)"
  proof -
    have n: "bdev (ext2_mounts st f) \<noteq> None" using assms(1) by (auto simp: fs_ok_def)
    show ?thesis using n r(1) w(1) r3(1) w4(1) by (simp add: sync_super_bg_def m1 m3 w(2))
  qed
  moreover have "ext2_mounts s4 = ext2_mounts st" using w4(2) m3 by (simp add: wrote_def)
  ultimately show thesis by (intro that)
qed

definition in_use :: "('d \<Rightarrow> u32 \<Rightarrow> u8 list) \<Rightarrow> nat \<Rightarrow> 'd ext2_st \<Rightarrow> u32 \<Rightarrow> nat \<Rightarrow> bool" where
  "in_use content f st bitmap i \<longleftrightarrow> bit (blk content f st bitmap (i div 8)) (i mod 8)"

lemma set_bitmap_bit: "bit (set_bitmap p i (j div 8)) (j mod 8) \<longleftrightarrow> j = i \<or> bit (p (j div 8)) (j mod 8)"
proof -
  have "j = i" if "j div 8 = i div 8" "i mod 8 = j mod 8" using that by (metis div_mult_mod_eq)
  then show ?thesis by (auto simp: set_bitmap_def bit_simps)
qed

lemma first_idx_cong: "(\<And>i. lo \<le> i \<Longrightarrow> i < hi \<Longrightarrow> p i = q i) \<Longrightarrow> first_idx p lo hi = first_idx q lo hi"
  unfolding first_idx_def by (rule find_cong) auto

definition alloc_done :: "bool \<Rightarrow> nat \<Rightarrow> 'd ext2_st \<Rightarrow> 'd ext2_st \<Rightarrow> bool" where
  "alloc_done is_inode f st s1 \<longleftrightarrow> ext2_mounts s1 = (ext2_mounts st)(f := count_down is_inode (ext2_mounts st f))"

lemma bitmap_scan:
  assumes "fs_ok content f st" and mx: "unat mx \<le> 8 * bsize f st"
  obtains s1 where "read_block f bmp st = (True, s1)" "same_disk content st s1"
    "\<And>j. j < 8 * bsize f st \<Longrightarrow> bit_free (g_io s1) j \<longleftrightarrow> \<not> in_use content f st bmp j"
    "first_idx (bit_free (g_io s1)) 0 (unat mx) = first_idx (\<lambda>i. \<not> in_use content f st bmp i) 0 (unat mx)"
proof -
  obtain s1 where r: "read_block f bmp st = (True, s1)" "same_disk content st s1"
    "\<And>i. i < bsize f st \<Longrightarrow> g_io s1 i = blk content f st bmp i"
    by (rule read_block_ok [OF assms(1)]) blast
  have io: "bit_free (g_io s1) j \<longleftrightarrow> \<not> in_use content f st bmp j" if "j < 8 * bsize f st" for j
    using r(3) [of "j div 8"] that by (simp add: bit_free_def in_use_def less_mult_imp_div_less mult.commute)
  have "first_idx (bit_free (g_io s1)) 0 (unat mx) = first_idx (\<lambda>i. \<not> in_use content f st bmp i) 0 (unat mx)"
    by (rule first_idx_cong, rule io) (use mx in simp)
  then show thesis using that r(1,2) io by blast
qed

lemma alloc_ok:
  assumes ok: "fs_ok content f st" "super_geom f st" and bm: "blk_ok f st bmp" "bmp \<notin> super_blocks f st"
    and mx: "unat mx \<le> 8 * bsize f st" and free: "first_idx (\<lambda>i. \<not> in_use content f st bmp i) 0 (unat mx) = Some i"
  obtains s1 where "ext2_alloc_from_bitmap f bmp mx ino st = (Some (word_of_nat i + (if ino then 1 else 0)), s1)"
    "frame content f (insert bmp (super_blocks f st)) st s1" "alloc_done ino f st s1"
    "\<And>j. j < 8 * bsize f st \<Longrightarrow> in_use content f s1 bmp j \<longleftrightarrow> j = i \<or> in_use content f st bmp j"
proof -
  obtain s1 where r: "read_block f bmp st = (True, s1)" "same_disk content st s1"
    and io: "\<And>j. j < 8 * bsize f st \<Longrightarrow> bit_free (g_io s1) j \<longleftrightarrow> \<not> in_use content f st bmp j"
    and fi: "first_idx (bit_free (g_io s1)) 0 (unat mx) = Some i"
    by (rule bitmap_scan [OF ok(1) mx, of bmp]) (auto simp: free)
  have m1: "ext2_mounts s1 = ext2_mounts st" using r(2) by (simp add: same_disk_def)
  have ib: "i < 8 * bsize f st" using first_idx_SomeD [OF free] mx by simp
  let ?s = "s1\<lparr>g_io := set_bitmap (g_io s1) i\<rparr>"
  have ok1: "fs_ok content f ?s" "blk_ok f ?s bmp" using ok(1) bm(1) same_disk_ok [OF r(2)] same_disk_blk_ok [OF r(2)] by simp_all
  obtain s2 where w: "write_block f bmp ?s = (True, s2)" "wrote content f bmp ?s s2" by (rule write_block_ok [OF ok1]) blast
  have f2: "frame content f {bmp} st s2"
    by (rule frame_trans_same [OF frame_same_disk [OF r(2)]]) (use frame_wrote [OF w(2)] in simp)
  let ?t = "upd_fs f (count_down ino) s2"
  have ft: "frame content f {} s2 ?t" by (simp add: frame_def upd_fs_def blk_def fs_cnt_of_def count_down_def same_geom_def)
  note f3 = frame_trans [OF f2 ft]
  have ok3: "fs_ok content f ?t" "super_geom f ?t" using ok frame_geom(3) [OF f3] frame_super_geom(1) [OF f3] by simp_all
  obtain s4 where y: "sync_super_bg f ?t = (True, s4)" "frame content f (super_blocks f ?t) ?t s4" "ext2_mounts s4 = ext2_mounts ?t"
    by (rule sync_super_bg_ok [OF ok3])
  have f4: "frame content f (insert bmp (super_blocks f st)) st s4"
    by (rule frame_mono [OF frame_trans [OF f3 y(2)]]) (use frame_super_geom(2) [OF f3] in auto)
  have m2: "ext2_mounts s2 = ext2_mounts st" using w(2) m1 by (simp add: wrote_def)
  have bits: "in_use content f s4 bmp j \<longleftrightarrow> j = i \<or> in_use content f st bmp j" if j: "j < 8 * bsize f st" for j
  proof -
    have jd: "j div 8 < bsize f st" using j by (simp add: less_mult_imp_div_less mult.commute)
    have "blk content f s4 bmp (j div 8) = blk content f ?t bmp (j div 8)"
      by (rule frame_blk [OF y(2)]) (use bm frame_geom(1,2) [OF f3] frame_super_geom(2) [OF f3] jd in auto)
    also have "\<dots> = blk content f s2 bmp (j div 8)" by (simp add: blk_def upd_fs_def count_down_def fs_cnt_of_def)
    also have "\<dots> = set_bitmap (g_io s1) i (j div 8)" using w(2) jd m1 by (simp add: wrote_def)
    finally have "in_use content f s4 bmp j \<longleftrightarrow> j = i \<or> \<not> bit_free (g_io s1) j"
      by (simp add: in_use_def set_bitmap_bit bit_free_def)
    then show ?thesis using io [OF j] by simp
  qed
  show thesis
    by (rule that [of s4, OF _ f4 _ bits])
      (use r(1) fi w(1) y(1,3) m2 in \<open>auto simp: ext2_alloc_from_bitmap_def alloc_done_def upd_fs_def\<close>)
qed

lemma alloc_full:
  assumes ok: "fs_ok content f st" and mx: "unat mx \<le> 8 * bsize f st"
    and full: "first_idx (\<lambda>i. \<not> in_use content f st bmp i) 0 (unat mx) = None"
  obtains s1 where "ext2_alloc_from_bitmap f bmp mx ino st = (None, s1)" "same_disk content st s1"
proof (rule bitmap_scan [OF ok mx, of bmp])
  fix s1 assume "read_block f bmp st = (True, s1)" "same_disk content st s1"
    "first_idx (bit_free (g_io s1)) 0 (unat mx) = first_idx (\<lambda>i. \<not> in_use content f st bmp i) 0 (unat mx)"
  then show thesis using that [of s1] full by (simp add: ext2_alloc_from_bitmap_def)
qed

section \<open>A RAM disk\<close>

type_synonym ram = "u32 \<Rightarrow> nat \<Rightarrow> u8"

definition ram_content :: "ram \<Rightarrow> u32 \<Rightarrow> u8 list" where
  "ram_content d l = map (d l) [0..<512]"

definition ram512_read :: "ram read_fn" where
  "ram512_read d lba n = (d, 0, sectors ram_content d lba (unat n))"

definition ram512_write :: "ram write_fn" where
  "ram512_write d lba n bs =
     (\<lambda>x i. if unat (x - lba) < unat n \<and> i < 512 then bs ! (unat (x - lba) * 512 + i) else d x i, 0)"

definition ram512 :: "ram block_device" where
  "ram512 = \<lparr>present = True, name = replicate 16 0, sector_size = 512, sector_count = 4096,
     start_lba = 0, ctx = 0, ops = \<lparr>read_sectors = Some ram512_read, write_sectors = Some ram512_write\<rparr>\<rparr>"

lemma sectors_nth:
  assumes "\<And>l. length (content d l) = 512" "i < n" "j < 512"
  shows "sectors content d lba n ! (i * 512 + j) = content d (lba + word_of_nat i) ! j"
  using assms(2)
proof (induction n)
  case (Suc n)
  have l: "length (sectors content d lba n) = n * 512" by (rule length_sectors) (rule assms(1))
  have s: "sectors content d lba (Suc n) = sectors content d lba n @ content d (lba + word_of_nat n)"
    by (simp add: sectors_def)
  show ?case
  proof (cases "i = n")
    case True
    then show ?thesis by (simp add: s nth_append l)
  next
    case False
    then have "i < n" using Suc.prems by simp
    moreover from this have "i * 512 + j < n * 512" using assms(3) by simp
    ultimately show ?thesis using Suc.IH by (simp add: s nth_append l)
  qed
qed simp

lemma ram512_reliable: "reliable ram_content ram512"
proof -
  have len: "length (ram_content d l) = 512" for d l by (simp add: ram_content_def)
  have r: "driver_reads ram512_read 512 ram_content"
    by (auto simp: driver_reads_def ram512_read_def len length_sectors)
  have w: "driver_writes ram512_write 512 ram_content"
    unfolding driver_writes_def
  proof (intro conjI allI impI)
    fix d lba and n :: u32 and bs d' rc
    assume a: "ram512_write d lba n bs = (d', rc)" "rc = 0" "length bs = unat n * unat (512 :: u32)"
    show "sectors ram_content d' lba (unat n) = bs"
    proof (rule nth_equalityI)
      show l: "length (sectors ram_content d' lba (unat n)) = length bs" using a(3) by (simp add: length_sectors len)
      fix k assume "k < length (sectors ram_content d' lba (unat n))"
      then have k: "k < unat n * 512" using l a(3) by simp
      define i j where "i = k div 512" and "j = k mod 512"
      have ij: "k = i * 512 + j" "i < unat n" "j < 512" using k by (auto simp: i_def j_def less_mult_imp_div_less)
      have "unat (lba + word_of_nat i - lba) = i" using ij(2) unat_u32_bound [of n] by (simp add: unat_of_nat)
      then show "sectors ram_content d' lba (unat n) ! k = bs ! k"
        using a(1) ij by (simp add: sectors_nth len ram_content_def) (auto simp: ram512_write_def)
    qed
  next
    fix d lba and n :: u32 and bs d' rc x
    assume a: "ram512_write d lba n bs = (d', rc)" "\<forall>i<unat n. x \<noteq> lba + word_of_nat i"
    have "\<not> unat (x - lba) < unat n" using a(2) [rule_format, of "unat (x - lba)"] by auto
    then show "ram_content d' x = ram_content d x" using a(1) by (auto simp: ram512_write_def ram_content_def)
    then show "ram_content d' x = ram_content d x" .
  qed
  show ?thesis using r w by (simp add: reliable_def ram512_def) (auto simp: ram512_read_def ram512_write_def)
qed

section \<open>Properties\<close>

lemma super_of_bytes: "super_of (put_bytes p k (super_bytes x)) k = x"
proof -
  let ?q = "put_bytes p k (super_bytes x)"
  have l: "length (super_bytes x) = 104" using length_super_bytes [of x] by (simp add: EXT2_SUPER_BYTES_def)
  have w16: "rd16le ?q (k + 52) = mnt_count x" "rd16le ?q (k + 54) = max_mnt_count x" "rd16le ?q (k + 56) = magic x"
    "rd16le ?q (k + 58) = sb_state x" "rd16le ?q (k + 60) = sb_errors x" "rd16le ?q (k + 62) = minor_rev_level x"
    "rd16le ?q (k + 80) = def_resuid x" "rd16le ?q (k + 82) = def_resgid x" "rd16le ?q (k + 88) = inode_size x"
    "rd16le ?q (k + 90) = block_group_nr x"
    by (rule rd16le_put, simp add: super_bytes_def, simp add: l)+
  have w32: "rd32le ?q (k + 0) = inodes_count x" "rd32le ?q (k + 4) = blocks_count x" "rd32le ?q (k + 8) = r_blocks_count x"
    "rd32le ?q (k + 12) = sb_free_blocks_count x" "rd32le ?q (k + 16) = sb_free_inodes_count x"
    "rd32le ?q (k + 20) = first_data_block x" "rd32le ?q (k + 24) = log_block_size x" "rd32le ?q (k + 28) = log_frag_size x"
    "rd32le ?q (k + 32) = blocks_per_group x" "rd32le ?q (k + 36) = frags_per_group x" "rd32le ?q (k + 40) = inodes_per_group x"
    "rd32le ?q (k + 44) = sb_mtime x" "rd32le ?q (k + 48) = sb_wtime x" "rd32le ?q (k + 64) = lastcheck x"
    "rd32le ?q (k + 68) = checkinterval x" "rd32le ?q (k + 72) = creator_os x" "rd32le ?q (k + 76) = rev_level x"
    "rd32le ?q (k + 84) = first_ino x" "rd32le ?q (k + 92) = feature_compat x" "rd32le ?q (k + 96) = feature_incompat x"
    "rd32le ?q (k + 100) = feature_ro_compat x"
    by (rule rd32le_put, simp add: super_bytes_def, simp add: l)+
  show ?thesis using w16 w32 by (simp add: super_of_def)
qed

lemma bgdesc_of_bytes:
  assumes "length (bg_reserved x) = 12"
  shows "bgdesc_of (put_bytes p k (bgdesc_bytes x)) k = x"
proof -
  let ?q = "put_bytes p k (bgdesc_bytes x)"
  have l: "length (bgdesc_bytes x) = 32" using length_bgdesc_bytes [OF assms] by (simp add: EXT2_BGDESC_BYTES_def)
  have "rd16le ?q (k + 12) = bg_free_blocks_count x" "rd16le ?q (k + 14) = bg_free_inodes_count x"
    "rd16le ?q (k + 16) = used_dirs_count x" "rd16le ?q (k + 18) = bg_pad x"
    by (rule rd16le_put, simp add: bgdesc_bytes_def, simp add: l)+
  moreover have "rd32le ?q (k + 0) = block_bitmap x" "rd32le ?q (k + 4) = inode_bitmap x" "rd32le ?q (k + 8) = inode_table x"
    by (rule rd32le_put, simp add: bgdesc_bytes_def, simp add: l)+
  moreover have "get_bytes ?q (k + 20) 12 = bg_reserved x"
    using get_bytes_put_off [of 20 12 "bgdesc_bytes x" p k] l assms by (simp add: bgdesc_bytes_def)
  ultimately show ?thesis by (simp add: bgdesc_of_def)
qed

text \<open>
  The on-disk structures. Decoding the encoding of a super block, a group descriptor or an inode,
  written at any offset of a buffer, gives the structure back, and the encodings have the sizes
  of the packed C structures.
\<close>
theorem ondisk_roundtrip:
  assumes "length (bg_reserved d) = 12" "inode_valid x"
  shows "super_of (put_bytes p k (super_bytes s)) k = s \<and> length (super_bytes s) = 104 \<and>
    bgdesc_of (put_bytes p k (bgdesc_bytes d)) k = d \<and> length (bgdesc_bytes d) = 32 \<and>
    inode_of (put_bytes p k (inode_bytes x)) k = x \<and> length (inode_bytes x) = 128"
  using assms super_of_bytes bgdesc_of_bytes [OF assms(1)] inode_of_bytes [of x] length_super_bytes [of s]
    length_bgdesc_bytes [OF assms(1)] length_inode_bytes [of x]
  by (simp add: inode_valid_def EXT2_SUPER_BYTES_def EXT2_BGDESC_BYTES_def EXT2_INODE_BYTES_def)

theorem ondisk_roundtrip_witness:
  "inode_of (put_bytes (\<lambda>_. 7) 3 (inode_bytes (zero_inode_rec\<lparr>e_size := 513\<rparr>))) 3 = zero_inode_rec\<lparr>e_size := 513\<rparr>"
proof -
  have v: "inode_valid (zero_inode_rec\<lparr>e_size := 513\<rparr>)"
    using inode_of_valid(3) by (simp add: inode_valid_def)
  show ?thesis
    using ondisk_roundtrip [of "bgdesc_of (\<lambda>_. 0) 0", OF _ v] by (simp add: bgdesc_of_def)
qed

text \<open>
  Inodes on disk. On a reliable device writing inode \<open>i\<close> succeeds; afterwards reading \<open>i\<close> returns
  what was written and reading any other inode, also one in the same block, returns what it
  returned before.
\<close>
theorem inode_read_after_write:
  assumes "fs_ok content f st" "inode_geom f st" "inode_ok (ext2_mounts st f) i" "inode_ok (ext2_mounts st f) j" "inode_valid x"
  shows "fst (write_inode f i x st) \<and>
    fst (read_inode f j (snd (write_inode f i x st))) = (if j = i then Some x else fst (read_inode f j st))"
proof -
  obtain s1 where w: "write_inode f i x st = (True, s1)" "frame content f {inode_blk (ext2_mounts st f) i} st s1"
    "ext2_mounts s1 = ext2_mounts st" "inode_at content f s1 i = x"
    "\<And>j. inode_ok (ext2_mounts st f) j \<Longrightarrow> j \<noteq> i \<Longrightarrow> inode_at content f s1 j = inode_at content f st j"
    by (rule write_inode_ok [OF assms(1-3,5)]) blast
  have ok1: "fs_ok content f s1" "inode_geom f s1" "inode_ok (ext2_mounts s1 f) j"
    using assms(1,2,4) frame_geom(3,7) [OF w(2)] w(3) by simp_all
  obtain s2 where r: "read_inode f j s1 = (Some (inode_at content f s1 j), s2)" by (rule read_inode_ok [OF ok1])
  obtain s3 where r0: "read_inode f j st = (Some (inode_at content f st j), s3)" by (rule read_inode_ok [OF assms(1,2,4)])
  show ?thesis using w(1,4,5) r r0 assms(4) by simp
qed

definition demo_fs :: "ram ext2_fs" where
  "demo_fs = \<lparr>bdev = Some ram512,
     sb = (super_of (\<lambda>_. 0) 0)\<lparr>inodes_count := 16, blocks_count := 64, first_data_block := 1, blocks_per_group := 64,
       inodes_per_group := 16, inode_size := 128\<rparr>,
     bg = (bgdesc_of (\<lambda>_. 0) 0)\<lparr>block_bitmap := 3, inode_bitmap := 4, inode_table := 5\<rparr>, block_size = 1024\<rparr>"

definition demo_ext2 :: "ram ext2_st" where
  "demo_ext2 = \<lparr>ext2_mounts = (\<lambda>_. demo_fs), ext2_mount_count = 1, g_io = (\<lambda>_. 0), g_io2 = (\<lambda>_. 0), disk = (\<lambda>_ _. 0)\<rparr>"

lemma demo_ext2_ok:
  "fs_ok ram_content 0 demo_ext2" "inode_geom 0 demo_ext2" "super_geom 0 demo_ext2" "bsize 0 demo_ext2 = 1024"
  "blk_ok 0 demo_ext2 3" "super_blocks 0 demo_ext2 = {1, 2}" "ext2_mounts demo_ext2 0 = demo_fs" "block_size demo_fs = 1024"
  using ram512_reliable
  by (auto simp: fs_ok_def inode_geom_def super_geom_def blk_ok_def super_blocks_def fs_cnt_of_def demo_ext2_def demo_fs_def
      bgdesc_of_def Let_def)

lemma demo_blk: "i < 1024 \<Longrightarrow> blk ram_content 0 demo_ext2 b i = 0"
proof -
  assume i: "i < 1024"
  have z: "set (sectors ram_content (\<lambda>_ _. 0) l n) \<subseteq> {0}" for l n by (auto simp: sectors_def ram_content_def)
  have l: "length (sectors ram_content (\<lambda>_ _. 0) (b * 2) 2) = 2 * 512" by (rule length_sectors) (simp add: ram_content_def)
  have "sectors ram_content (\<lambda>_ _. 0) (b * 2) 2 ! i \<in> set (sectors ram_content (\<lambda>_ _. 0) (b * 2) 2)"
    by (rule nth_mem) (use l i in simp)
  with z [of "b * 2" 2] show ?thesis by (auto simp: blk_def fs_cnt_of_def demo_ext2_def demo_fs_def)
qed

theorem inode_read_after_write_witness:
  "fst (read_inode 0 2 (snd (write_inode 0 2 (zero_inode_rec\<lparr>e_size := 5\<rparr>) demo_ext2))) = Some (zero_inode_rec\<lparr>e_size := 5\<rparr>)"
proof -
  have v: "inode_valid (zero_inode_rec\<lparr>e_size := 5\<rparr>)" using inode_of_valid(3) by (simp add: inode_valid_def)
  have o: "inode_ok (ext2_mounts demo_ext2 0) 2" by (simp add: demo_ext2_ok(7) inode_ok_def demo_fs_def)
  show ?thesis using inode_read_after_write [OF demo_ext2_ok(1,2) o o v] by simp
qed

text \<open>
  C23: Allocation. On a reliable device the allocator takes the first free bit of the bitmap, marks it
  and no other bit, and changes besides the bitmap only the super block and the group descriptor;
  if no bit below the limit is free it fails and changes nothing on the disk.
\<close>
theorem alloc_first_free:
  assumes "fs_ok content f st" "super_geom f st" "blk_ok f st bmp" "bmp \<notin> super_blocks f st" "unat mx \<le> 8 * bsize f st"
  shows "case first_idx (\<lambda>i. \<not> in_use content f st bmp i) 0 (unat mx) of
      None \<Rightarrow> fst (ext2_alloc_from_bitmap f bmp mx ino st) = None \<and> same_disk content st (snd (ext2_alloc_from_bitmap f bmp mx ino st))
    | Some i \<Rightarrow> fst (ext2_alloc_from_bitmap f bmp mx ino st) = Some (word_of_nat i + (if ino then 1 else 0)) \<and>
        \<not> in_use content f st bmp i \<and>
        (\<forall>j < 8 * bsize f st. in_use content f (snd (ext2_alloc_from_bitmap f bmp mx ino st)) bmp j \<longleftrightarrow> j = i \<or> in_use content f st bmp j) \<and>
        frame content f (insert bmp (super_blocks f st)) st (snd (ext2_alloc_from_bitmap f bmp mx ino st))"
proof (cases "first_idx (\<lambda>i. \<not> in_use content f st bmp i) 0 (unat mx)")
  case None
  obtain s1 where "ext2_alloc_from_bitmap f bmp mx ino st = (None, s1)" "same_disk content st s1"
    by (rule alloc_full [OF assms(1,5) None])
  with None show ?thesis by simp
next
  case (Some i)
  obtain s1 where "ext2_alloc_from_bitmap f bmp mx ino st = (Some (word_of_nat i + (if ino then 1 else 0)), s1)"
    "frame content f (insert bmp (super_blocks f st)) st s1"
    "\<And>j. j < 8 * bsize f st \<Longrightarrow> in_use content f s1 bmp j \<longleftrightarrow> j = i \<or> in_use content f st bmp j"
    by (rule alloc_ok [OF assms Some]) blast
  with Some first_idx_SomeD [OF Some] show ?thesis by simp
qed

theorem alloc_first_free_witness:
  "fst (ext2_alloc_from_bitmap 0 3 64 False demo_ext2) = Some 0 \<and>
   in_use ram_content 0 (snd (ext2_alloc_from_bitmap 0 3 64 False demo_ext2)) 3 0"
proof -
  have "\<not> in_use ram_content 0 demo_ext2 3 0" by (simp add: in_use_def demo_blk)
  then have "first_idx (\<lambda>i. \<not> in_use ram_content 0 demo_ext2 3 i) 0 (unat (64 :: u32)) = Some 0"
    by (simp add: first_idx_Some)
  with alloc_first_free [OF demo_ext2_ok(1,3,5), of 64 False] show ?thesis by (simp add: demo_ext2_ok)
qed

end
