(* ===== verification/Ext2Dir.thy ===== *)
theory Ext2Dir
  imports Ext2Disk
begin

text \<open>
  Directories of ext2 as finite maps from names to inode numbers: what one directory block lists,
  how writing one record changes it, and the directory operations as updates of the map.
\<close>

section \<open>The records of a block\<close>

lemma dirent_read_SomeD:
  "ext2_dirent_read p bs off = Some de \<Longrightarrow>
    off + 8 \<le> bs \<and> 8 \<le> de_rec_len de \<and> off + de_rec_len de \<le> bs \<and> de_inode de = rd32le p off \<and>
    de_rec_len de = unat (rd16le p (off + 4)) \<and> de_name_len de = unat (p (off + 6)) \<and> de_name_len de < 256"
  using unat_u8_bound [of "p (off + 6)"] by (auto simp: ext2_dirent_read_def Let_def split: if_splits)

lemma dirent_read_cong:
  assumes "\<And>i. off \<le> i \<Longrightarrow> i < off + 8 \<Longrightarrow> i < bs \<Longrightarrow> p i = q i"
  shows "ext2_dirent_read p bs off = ext2_dirent_read q bs off"
proof (cases "bs < off + 8")
  case False
  then have "p (off + k) = q (off + k)" if "k < 8" for k using assms [of "off + k"] that by simp
  from this [of 0] this [of 1] this [of 2] this [of 3] this [of 4] this [of 5] this [of 6] this [of 7]
  show ?thesis by (simp add: ext2_dirent_read_def rd32le_def rd16le_def eval_nat_numeral)
qed (simp add: ext2_dirent_read_def)

lemma block_dirents_Some:
  "ext2_dirent_read p bs k = Some d \<Longrightarrow> block_dirents p bs k = (k, d) # block_dirents p bs (k + de_rec_len d)"
  by (subst block_dirents.simps) simp

lemma block_dirents_None: "ext2_dirent_read p bs k = None \<Longrightarrow> block_dirents p bs k = []"
  by (subst block_dirents.simps) simp

lemma block_dirents_cong:
  assumes "\<And>i. k \<le> i \<Longrightarrow> i < bs \<Longrightarrow> p i = q i"
  shows "block_dirents p bs k = block_dirents q bs k"
  using assms
proof (induction p bs k rule: block_dirents.induct)
  case (1 p bs k)
  have e: "ext2_dirent_read p bs k = ext2_dirent_read q bs k" by (rule dirent_read_cong) (use "1.prems" in auto)
  show ?case
  proof (cases "ext2_dirent_read p bs k")
    case None
    then show ?thesis using e [symmetric] by (simp add: block_dirents_None)
  next
    case (Some de)
    have "block_dirents p bs (k + de_rec_len de) = block_dirents q bs (k + de_rec_len de)"
      by (rule "1.IH" [OF Some]) (use "1.prems" in auto)
    then show ?thesis using e [symmetric] Some by (simp add: block_dirents_Some)
  qed
qed

lemma block_dirents_bounds:
  "(off, de) \<in> set (block_dirents p bs k) \<Longrightarrow>
     k \<le> off \<and> ext2_dirent_read p bs off = Some de \<and> off + de_rec_len de \<le> bs \<and> 8 \<le> de_rec_len de"
proof (induction p bs k rule: block_dirents.induct)
  case (1 p bs k)
  show ?case
  proof (cases "ext2_dirent_read p bs k")
    case None
    then show ?thesis using "1.prems" by (simp add: block_dirents_None)
  next
    case (Some d)
    then show ?thesis
      using "1.prems" "1.IH" [OF Some] dirent_read_SomeD [OF Some] by (auto simp: block_dirents_Some)
  qed
qed

text \<open>Writing one record in place, with its length unchanged, changes this record only.\<close>

lemma block_dirents_update:
  assumes "(off, de) \<in> set (block_dirents p bs k)"
    and "\<And>i. i < off \<or> off + de_rec_len de \<le> i \<Longrightarrow> i < bs \<Longrightarrow> q i = p i"
    and "ext2_dirent_read q bs off = Some de'" "de_rec_len de' = de_rec_len de"
  shows "\<exists>xs ys. block_dirents p bs k = xs @ (off, de) # ys \<and> block_dirents q bs k = xs @ (off, de') # ys \<and>
    (\<forall>(o1, d) \<in> set xs. o1 + de_rec_len d \<le> off) \<and> (\<forall>(o1, d) \<in> set ys. off + de_rec_len de \<le> o1)"
  using assms(1,2,3)
proof (induction p bs k rule: block_dirents.induct)
  case (1 p bs k)
  from "1.prems"(1) obtain d where d: "ext2_dirent_read p bs k = Some d"
    by (cases "ext2_dirent_read p bs k") (auto simp: block_dirents_None)
  have eqp: "block_dirents p bs k = (k, d) # block_dirents p bs (k + de_rec_len d)" using d by (rule block_dirents_Some)
  show ?case
  proof (cases "off = k")
    case True
    have dd: "d = de" using "1.prems"(1) block_dirents_bounds [OF "1.prems"(1)] d True by simp
    have "block_dirents q bs (k + de_rec_len de) = block_dirents p bs (k + de_rec_len de)"
      by (rule block_dirents_cong) (use "1.prems"(2) True in auto)
    then have "block_dirents q bs k = (k, de') # block_dirents p bs (k + de_rec_len de)"
      using block_dirents_Some [OF "1.prems"(3)] assms(4) True by simp
    then show ?thesis
      using eqp dd True by (intro exI [of _ "[]"] exI [of _ "block_dirents p bs (k + de_rec_len de)"])
        (auto dest: block_dirents_bounds)
  next
    case False
    with "1.prems"(1) eqp have tl: "(off, de) \<in> set (block_dirents p bs (k + de_rec_len d))" by simp
    obtain xs ys where xy: "block_dirents p bs (k + de_rec_len d) = xs @ (off, de) # ys"
      "block_dirents q bs (k + de_rec_len d) = xs @ (off, de') # ys"
      "\<forall>(o1, d) \<in> set xs. o1 + de_rec_len d \<le> off" "\<forall>(o1, d) \<in> set ys. off + de_rec_len de \<le> o1"
      using "1.IH" [OF d tl "1.prems"(2,3)] by blast
    have le: "k + de_rec_len d \<le> off" "8 \<le> de_rec_len d" using block_dirents_bounds [OF tl] dirent_read_SomeD [OF d] by auto
    have "ext2_dirent_read q bs k = Some d"
      unfolding d [symmetric] by (rule dirent_read_cong) (use "1.prems"(2) le in auto)
    then have "block_dirents q bs k = (k, d) # xs @ (off, de') # ys" using xy(2) by (simp add: block_dirents_Some)
    then show ?thesis using eqp xy le(1) by (intro exI [of _ "(k, d) # xs"] exI [of _ ys]) auto
  qed
qed

section \<open>What a block lists\<close>

definition dirent_entry :: "(nat \<Rightarrow> u8) \<Rightarrow> nat \<times> ext2_dirent_hdr \<Rightarrow> cstr \<times> u32" where
  "dirent_entry p e = (cstr_of (dirent_name p (fst e) (snd e)), de_inode (snd e))"

definition block_list :: "(nat \<Rightarrow> u8) \<Rightarrow> nat \<Rightarrow> (cstr \<times> u32) list" where
  "block_list p bs = map (dirent_entry p) (filter (\<lambda>e. dirent_listed (snd e)) (block_dirents p bs 0))"

lemma rec_len_min_ge: "8 + n \<le> rec_len_min n"
  by (simp add: rec_len_min_def)

lemma dirent_entry_cong:
  assumes "dirent_listed d" "\<And>i. o1 \<le> i \<Longrightarrow> i < o1 + de_rec_len d \<Longrightarrow> p i = q i"
  shows "dirent_entry p (o1, d) = dirent_entry q (o1, d)"
proof -
  have "8 + de_name_len d \<le> de_rec_len d" using assms(1) rec_len_min_ge [of "de_name_len d"] by (simp add: dirent_listed_def)
  then have "dirent_name p o1 d = dirent_name q o1 d"
    using assms(2) by (auto simp: dirent_name_def get_bytes_def)
  then show ?thesis by (simp add: dirent_entry_def)
qed

lemma block_list_cong:
  assumes "\<And>i. i < bs \<Longrightarrow> p i = q i"
  shows "block_list p bs = block_list q bs"
proof -
  have e: "block_dirents p bs 0 = block_dirents q bs 0" by (rule block_dirents_cong) (use assms in auto)
  show ?thesis
    unfolding block_list_def e
  proof (rule map_cong [OF refl], clarsimp)
    fix o1 d assume a: "(o1, d) \<in> set (block_dirents q bs 0)" "dirent_listed d"
    show "dirent_entry p (o1, d) = dirent_entry q (o1, d)"
      by (rule dirent_entry_cong [OF a(2)]) (use assms block_dirents_bounds [OF a(1)] in auto)
  qed
qed

text \<open>The entries before and after a record that is rewritten in place.\<close>

lemma block_list_update:
  assumes "(off, de) \<in> set (block_dirents p bs 0)"
    and "\<And>i. i < off \<or> off + de_rec_len de \<le> i \<Longrightarrow> i < bs \<Longrightarrow> q i = p i"
    and "ext2_dirent_read q bs off = Some de'" "de_rec_len de' = de_rec_len de"
  obtains as bs' where "block_list p bs = as @ (if dirent_listed de then [dirent_entry p (off, de)] else []) @ bs'"
    "block_list q bs = as @ (if dirent_listed de' then [dirent_entry q (off, de')] else []) @ bs'"
proof -
  obtain xs ys where xy: "block_dirents p bs 0 = xs @ (off, de) # ys" "block_dirents q bs 0 = xs @ (off, de') # ys"
    "\<forall>(o1, d) \<in> set xs. o1 + de_rec_len d \<le> off" "\<forall>(o1, d) \<in> set ys. off + de_rec_len de \<le> o1"
    using block_dirents_update [OF assms] by blast
  let ?f = "\<lambda>p l. map (dirent_entry p) (filter (\<lambda>e. dirent_listed (snd e)) l)"
  have "dirent_entry q (o1, d) = dirent_entry p (o1, d)" if a: "(o1, d) \<in> set xs \<union> set ys" "dirent_listed d" for o1 d
  proof (rule dirent_entry_cong [OF a(2)])
    fix i assume i: "o1 \<le> i" "i < o1 + de_rec_len d"
    have "o1 + de_rec_len d \<le> bs" using a(1) block_dirents_bounds [of o1 d p bs 0] xy(1) by auto
    then show "q i = p i" using xy(3,4) a(1) i by (intro assms(2)) auto
  qed
  then have "?f q xs = ?f p xs" "?f q ys = ?f p ys" by (auto intro!: map_cong)
  then show thesis
    by (intro that [of "?f p xs" "?f p ys"]) (simp_all add: block_list_def xy)
qed

subsection \<open>Writing and clearing a record\<close>

lemma put_bytes_read: "put_bytes p k bs i = (if k \<le> i \<and> i < k + length bs then bs ! (i - k) else p i)"
  by (simp add: put_bytes_def)

lemma put_dirent_outside: "i < off \<or> off + 8 + length nm \<le> i \<Longrightarrow> put_dirent p off slot child isd nm i = p i"
  by (auto simp: put_dirent_def wr16le_def wr32le_def put_bytes_read)

lemma put_dirent_read:
  assumes "off + unat slot \<le> bs" "8 + length nm \<le> unat slot" "length nm < 256"
  shows "ext2_dirent_read (put_dirent p off slot child isd nm) bs off =
      Some \<lparr>de_inode = child, de_rec_len = unat slot, de_name_len = length nm, de_file_type = if isd then 2 else 1\<rparr>"
    and "get_bytes (put_dirent p off slot child isd nm) (off + 8) (length nm) = nm"
proof -
  let ?q = "put_dirent p off slot child isd nm"
  have "rd32le ?q off = child"
    by (rule rd32le_bytes) (simp_all add: put_dirent_def wr16le_def wr32le_def put_bytes_read le32_def)
  moreover have "rd16le ?q (off + 4) = slot"
    by (rule rd16le_bytes) (simp_all add: put_dirent_def wr16le_def wr32le_def put_bytes_read le16_def)
  moreover have "?q (off + 6) = word_of_nat (length nm)" "?q (off + 7) = (if isd then 2 else 1)"
    by (simp_all add: put_dirent_def put_bytes_read)
  moreover have "unat (word_of_nat (length nm) :: u8) = length nm" using assms(3) by (simp add: unat_of_nat)
  ultimately show "ext2_dirent_read ?q bs off =
      Some \<lparr>de_inode = child, de_rec_len = unat slot, de_name_len = length nm, de_file_type = if isd then 2 else 1\<rparr>"
    using assms(1,2) by (simp add: ext2_dirent_read_def Let_def)
  show "get_bytes ?q (off + 8) (length nm) = nm"
    by (rule nth_equalityI) (auto simp: put_dirent_def put_bytes_read get_bytes_def)
qed

lemma clear_dirent_read:
  assumes "ext2_dirent_read p bs off = Some de"
  shows "ext2_dirent_read (wr32le p off 0) bs off = Some (de\<lparr>de_inode := 0\<rparr>)"
proof -
  let ?q = "wr32le p off 0"
  have "rd32le ?q off = 0" by (rule rd32le_bytes) (simp_all add: wr32le_def put_bytes_read le32_def)
  moreover have "rd16le ?q (off + 4) = rd16le p (off + 4)" "?q (off + 6) = p (off + 6)" "?q (off + 7) = p (off + 7)"
    by (simp_all add: rd16le_def wr32le_def put_bytes_read)
  ultimately show ?thesis using assms by (auto simp: ext2_dirent_read_def Let_def split: if_splits)
qed

section \<open>Directories as maps\<close>

definition dir_blocks :: "ext2_inode \<Rightarrow> u32 list" where
  "dir_blocks x = filter (\<lambda>b. b \<noteq> 0) (take 12 (e_block x))"

definition dir_list :: "('d \<Rightarrow> u32 \<Rightarrow> u8 list) \<Rightarrow> nat \<Rightarrow> 'd ext2_st \<Rightarrow> u32 list \<Rightarrow> (cstr \<times> u32) list" where
  "dir_list content f st bl = concat (map (\<lambda>b. block_list (blk content f st b) (bsize f st)) bl)"

definition dir_map :: "('d \<Rightarrow> u32 \<Rightarrow> u8 list) \<Rightarrow> nat \<Rightarrow> 'd ext2_st \<Rightarrow> u32 \<Rightarrow> cstr \<Rightarrow> u32 option" where
  "dir_map content f st ino = map_of (dir_list content f st (dir_blocks (inode_at content f st ino)))"

fun scan_blocks ::
  "(u32 \<Rightarrow> nat \<Rightarrow> u8) \<Rightarrow> nat \<Rightarrow> ((nat \<Rightarrow> u8) \<Rightarrow> nat \<times> ext2_dirent_hdr \<Rightarrow> bool) \<Rightarrow> u32 list \<Rightarrow>
     (u32 \<times> nat \<times> ext2_dirent_hdr) option" where
  "scan_blocks B bs P [] = None"
| "scan_blocks B bs P (b # bl) =
     (case List.find (P (B b)) (block_dirents (B b) bs 0) of
        Some (off, de) \<Rightarrow> Some (b, off, de)
      | None \<Rightarrow> scan_blocks B bs P bl)"

text \<open>A test that only looks at bytes of the block.\<close>

definition block_local :: "nat \<Rightarrow> ((nat \<Rightarrow> u8) \<Rightarrow> nat \<times> ext2_dirent_hdr \<Rightarrow> bool) \<Rightarrow> (nat \<Rightarrow> u8) \<Rightarrow> bool" where
  "block_local bs P p \<longleftrightarrow>
     (\<forall>q. (\<forall>i < bs. q i = p i) \<longrightarrow> (\<forall>e \<in> set (block_dirents p bs 0). P q e = P p e))"

lemma find_dirent_ok:
  assumes "fs_ok content f st" "\<And>b. b \<in> set bl \<Longrightarrow> b \<noteq> 0 \<Longrightarrow> block_local (bsize f st) P (blk content f st b)"
  obtains s1 where "find_dirent f P bl st = (scan_blocks (blk content f st) (bsize f st) P (filter (\<lambda>b. b \<noteq> 0) bl), s1)"
    "same_disk content st s1"
    "\<And>b off de i. scan_blocks (blk content f st) (bsize f st) P (filter (\<lambda>b. b \<noteq> 0) bl) = Some (b, off, de) \<Longrightarrow>
       i < bsize f st \<Longrightarrow> g_io s1 i = blk content f st b i"
proof -
  have "\<exists>s1. find_dirent f P bl st = (scan_blocks (blk content f st) (bsize f st) P (filter (\<lambda>b. b \<noteq> 0) bl), s1) \<and>
    same_disk content st s1 \<and>
    (\<forall>b off de. scan_blocks (blk content f st) (bsize f st) P (filter (\<lambda>b. b \<noteq> 0) bl) = Some (b, off, de) \<longrightarrow>
       (\<forall>i < bsize f st. g_io s1 i = blk content f st b i))"
    using assms
  proof (induction bl arbitrary: st)
    case (Cons b bl)
    show ?case
    proof (cases "b = 0")
      case True
      then show ?thesis using Cons.IH [OF Cons.prems(1)] Cons.prems(2) by auto
    next
      case False
      obtain s1 where r: "read_block f b st = (True, s1)" "same_disk content st s1"
        "\<And>i. i < bsize f st \<Longrightarrow> g_io s1 i = blk content f st b i"
        by (rule read_block_ok [OF Cons.prems(1)]) blast
      have bs: "bsize f s1 = bsize f st" using r(2) by (simp add: same_disk_def)
      have de: "block_dirents (g_io s1) (bsize f st) 0 = block_dirents (blk content f st b) (bsize f st) 0"
        by (rule block_dirents_cong) (use r(3) in auto)
      have "block_local (bsize f st) P (blk content f st b)" using Cons.prems(2) [of b] False by simp
      then have loc: "P (g_io s1) e = P (blk content f st b) e"
        if "e \<in> set (block_dirents (blk content f st b) (bsize f st) 0)" for e
        using r(3) that unfolding block_local_def by blast
      have fd: "List.find (P (g_io s1)) (block_dirents (g_io s1) (bsize f st) 0) =
          List.find (P (blk content f st b)) (block_dirents (blk content f st b) (bsize f st) 0)"
        unfolding de by (rule find_cong [OF refl], rule loc)
      show ?thesis
      proof (cases "List.find (P (blk content f st b)) (block_dirents (blk content f st b) (bsize f st) 0)")
        case None
        have "fs_ok content f s1" using Cons.prems(1) same_disk_ok [OF r(2)] by simp
        then obtain s2 where "find_dirent f P bl s1 = (scan_blocks (blk content f s1) (bsize f s1) P (filter (\<lambda>b. b \<noteq> 0) bl), s2) \<and>
          same_disk content s1 s2 \<and>
          (\<forall>b off de. scan_blocks (blk content f s1) (bsize f s1) P (filter (\<lambda>b. b \<noteq> 0) bl) = Some (b, off, de) \<longrightarrow>
            (\<forall>i < bsize f s1. g_io s2 i = blk content f s1 b i))"
          using Cons.IH [of s1] Cons.prems(2) bs same_disk_blk [OF r(2)] by auto
        then show ?thesis
          using False r(1) fd None bs same_disk_trans [OF r(2)] by (simp add: same_disk_blk [OF r(2)])
      next
        case (Some e)
        then show ?thesis using False r fd bs by (cases e) auto
      qed
    qed
  qed simp
  then show thesis using that by blast
qed

lemma scan_blocks_SomeD:
  "scan_blocks B bs P bl = Some (b, off, de) \<Longrightarrow> b \<in> set bl \<and> (off, de) \<in> set (block_dirents (B b) bs 0) \<and> P (B b) (off, de)"
  by (induction bl) (auto split: option.splits simp: find_Some_iff in_set_conv_nth)

lemma scan_blocks_NoneD:
  "scan_blocks B bs P bl = None \<Longrightarrow> b \<in> set bl \<Longrightarrow> (off, de) \<in> set (block_dirents (B b) bs 0) \<Longrightarrow> \<not> P (B b) (off, de)"
  by (induction bl) (auto split: option.splits simp: find_None_iff)

lemma block_local_slot: "block_local bs (slot_test n) p"
  by (simp add: block_local_def slot_test_def)

lemma block_local_lookup: "valid_cstr nm \<Longrightarrow> block_local bs (lookup_test nm) p"
  unfolding block_local_def
proof (intro allI impI ballI)
  fix q e assume v: "valid_cstr nm" and a: "\<forall>i<bs. q i = p i" "e \<in> set (block_dirents p bs 0)"
  obtain o1 d where e: "e = (o1, d)" by fastforce
  have "dirent_listed d \<Longrightarrow> dirent_entry q e = dirent_entry p e"
    unfolding e by (rule dirent_entry_cong) (use a block_dirents_bounds [of o1 d p bs 0] in \<open>auto simp: e\<close>)
  then show "lookup_test nm q e = lookup_test nm p e"
    using v by (auto simp: lookup_test_def dirent_entry_def e strcmp_cbuf_zero_iff)
qed

text \<open>The first record with a name is the one the map knows.\<close>

lemma scan_lookup:
  assumes "valid_cstr nm"
  shows "map_option (\<lambda>(b, off, de). de_inode de) (scan_blocks (blk content f st) (bsize f st) (lookup_test nm) bl) =
    map_of (dir_list content f st bl) nm"
proof (induction bl)
  case (Cons b bl)
  have one: "map_option (\<lambda>(off, de). de_inode de) (List.find (lookup_test nm p) es) =
      map_of (map (dirent_entry p) (filter (\<lambda>e. dirent_listed (snd e)) es)) nm" for p es
    by (induction es) (use assms in \<open>auto simp: lookup_test_def dirent_entry_def strcmp_cbuf_zero_iff\<close>)
  from one [of "blk content f st b" "block_dirents (blk content f st b) (bsize f st) 0"] Cons show ?case
    by (auto simp: dir_list_def block_list_def map_add_def split: option.splits)
qed (simp add: dir_list_def)

end
