(* ===== verification/Ext2Wf.thy ===== *)
theory Ext2Wf
  imports Ext2Disk
begin

text \<open>
  The well-formedness invariant of an ext2 volume: metadata blocks are apart from each other and
  marked in use, and the blocks of the live inodes are marked in use, not metadata, and shared by
  no two inodes. Block writes, allocation and inode writes are shown to keep it.
\<close>

definition tables :: "nat \<Rightarrow> 'd ext2_st \<Rightarrow> u32 set" where
  "tables f st = inode_blk (ext2_mounts st f) ` {i. inode_ok (ext2_mounts st f) i}"

definition bbm :: "nat \<Rightarrow> 'd ext2_st \<Rightarrow> u32" where "bbm f st = block_bitmap (bg (ext2_mounts st f))"
definition ibm :: "nat \<Rightarrow> 'd ext2_st \<Rightarrow> u32" where "ibm f st = inode_bitmap (bg (ext2_mounts st f))"
definition bpg :: "nat \<Rightarrow> 'd ext2_st \<Rightarrow> nat" where "bpg f st = unat (blocks_per_group (sb (ext2_mounts st f)))"
definition ipg :: "nat \<Rightarrow> 'd ext2_st \<Rightarrow> nat" where "ipg f st = unat (inodes_per_group (sb (ext2_mounts st f)))"

definition meta :: "nat \<Rightarrow> 'd ext2_st \<Rightarrow> u32 set" where
  "meta f st = super_blocks f st \<union> {bbm f st, ibm f st} \<union> tables f st"

definition geom_wf :: "nat \<Rightarrow> 'd ext2_st \<Rightarrow> bool" where
  "geom_wf f st \<longleftrightarrow> inode_geom f st \<and> super_geom f st \<and> blk_ok f st (bbm f st) \<and> blk_ok f st (ibm f st) \<and>
     bbm f st \<notin> super_blocks f st \<union> tables f st \<union> {ibm f st} \<and> ibm f st \<notin> super_blocks f st \<union> tables f st \<and>
     tables f st \<inter> super_blocks f st = {} \<and>
     bpg f st \<le> 8 * bsize f st \<and> ipg f st \<le> 8 * bsize f st \<and> ipg f st \<le> unat (inodes_count (sb (ext2_mounts st f))) \<and>
     (\<forall>b. unat b < bpg f st \<longrightarrow> blk_ok f st b)"

definition owned :: "ext2_inode \<Rightarrow> u32 set" where
  "owned x = set (filter (\<lambda>b. b \<noteq> 0) (e_block x))"

definition block_good :: "('d \<Rightarrow> u32 \<Rightarrow> u8 list) \<Rightarrow> nat \<Rightarrow> 'd ext2_st \<Rightarrow> u32 \<Rightarrow> bool" where
  "block_good content f st b \<longleftrightarrow> b \<noteq> 0 \<and> unat b < bpg f st \<and> b \<notin> meta f st \<and> in_use content f st (bbm f st) (unat b)"

definition inode_good :: "('d \<Rightarrow> u32 \<Rightarrow> u8 list) \<Rightarrow> nat \<Rightarrow> 'd ext2_st \<Rightarrow> ext2_inode \<Rightarrow> bool" where
  "inode_good content f st x \<longleftrightarrow> distinct (filter (\<lambda>b. b \<noteq> 0) (e_block x)) \<and> (\<forall>b \<in> owned x. block_good content f st b)"

definition ino_live :: "('d \<Rightarrow> u32 \<Rightarrow> u8 list) \<Rightarrow> nat \<Rightarrow> 'd ext2_st \<Rightarrow> u32 \<Rightarrow> bool" where
  "ino_live content f st i \<longleftrightarrow>
     inode_ok (ext2_mounts st f) i \<and> unat i \<le> ipg f st \<and> in_use content f st (ibm f st) (unat i - 1)"

definition fs_wf :: "('d \<Rightarrow> u32 \<Rightarrow> u8 list) \<Rightarrow> nat \<Rightarrow> u32 set \<Rightarrow> 'd ext2_st \<Rightarrow> bool" where
  "fs_wf content f L st \<longleftrightarrow> fs_ok content f st \<and> geom_wf f st \<and>
     (\<forall>b \<in> insert 0 (meta f st). unat b < bpg f st \<longrightarrow> in_use content f st (bbm f st) (unat b)) \<and>
     (\<forall>i \<in> L. ino_live content f st i \<and> inode_good content f st (inode_at content f st i)) \<and>
     (\<forall>i \<in> L. \<forall>j \<in> L. i \<noteq> j \<longrightarrow> owned (inode_at content f st i) \<inter> owned (inode_at content f st j) = {})"

lemma fs_wfD:
  assumes "fs_wf content f L st"
  shows "fs_ok content f st" "geom_wf f st" "inode_geom f st" "super_geom f st"
    and "\<And>b. b \<in> insert 0 (meta f st) \<Longrightarrow> unat b < bpg f st \<Longrightarrow> in_use content f st (bbm f st) (unat b)"
    and "\<And>i. i \<in> L \<Longrightarrow> inode_ok (ext2_mounts st f) i" "\<And>i. i \<in> L \<Longrightarrow> ino_live content f st i"
    and "\<And>i. i \<in> L \<Longrightarrow> inode_good content f st (inode_at content f st i)"
    and "\<And>i j. i \<in> L \<Longrightarrow> j \<in> L \<Longrightarrow> i \<noteq> j \<Longrightarrow> owned (inode_at content f st i) \<inter> owned (inode_at content f st j) = {}"
  using assms by (auto simp: fs_wf_def geom_wf_def ino_live_def)

lemma frame_meta:
  assumes "frame content f S st s1"
  shows "tables f s1 = tables f st" "bbm f s1 = bbm f st" "ibm f s1 = ibm f st" "bpg f s1 = bpg f st" "ipg f s1 = ipg f st"
    "meta f s1 = meta f st" "geom_wf f s1 = geom_wf f st"
proof -
  show a: "tables f s1 = tables f st" "bbm f s1 = bbm f st" "ibm f s1 = ibm f st" "bpg f s1 = bpg f st" "ipg f s1 = ipg f st"
    using frame_geom(4,5) [OF assms] assms
    by (auto simp: tables_def bbm_def ibm_def bpg_def ipg_def frame_def same_geom_def)
  then show "meta f s1 = meta f st" using frame_super_geom(2) [OF assms] by (simp add: meta_def)
  have "unat (inodes_count (sb (ext2_mounts s1 f))) = unat (inodes_count (sb (ext2_mounts st f)))"
    using assms by (simp add: frame_def same_geom_def)
  then show "geom_wf f s1 = geom_wf f st"
    using a frame_super_geom [OF assms] frame_geom [OF assms] by (simp add: geom_wf_def)
qed

lemma geom_wf_facts:
  assumes "geom_wf f st"
  shows "blk_ok f st (bbm f st)" "blk_ok f st (ibm f st)" "bbm f st \<notin> super_blocks f st" "ibm f st \<notin> super_blocks f st"
    "bbm f st \<noteq> ibm f st" "bpg f st \<le> 8 * bsize f st" "ipg f st \<le> 8 * bsize f st"
    "\<And>b. unat b < bpg f st \<Longrightarrow> blk_ok f st b"
    "\<And>i. inode_ok (ext2_mounts st f) i \<Longrightarrow> inode_blk (ext2_mounts st f) i \<notin> insert (bbm f st) (insert (ibm f st) (super_blocks f st))"
    "\<And>i. inode_ok (ext2_mounts st f) i \<Longrightarrow> inode_blk (ext2_mounts st f) i \<in> meta f st"
proof -
  fix i assume "inode_ok (ext2_mounts st f) i"
  then have "inode_blk (ext2_mounts st f) i \<in> tables f st" by (simp add: tables_def)
  then show "inode_blk (ext2_mounts st f) i \<notin> insert (bbm f st) (insert (ibm f st) (super_blocks f st))"
    "inode_blk (ext2_mounts st f) i \<in> meta f st"
    using assms by (auto simp: geom_wf_def meta_def)
qed (use assms in \<open>auto simp: geom_wf_def\<close>)

lemma frame_in_use:
  assumes "frame content f S st s1" "bm \<notin> S" "blk_ok f st bm" "j < 8 * bsize f st"
  shows "in_use content f s1 bm j = in_use content f st bm j"
  using frame_blk [OF assms(1,3,2), of "j div 8"] assms(4)
  by (simp add: in_use_def less_mult_imp_div_less mult.commute)

text \<open>Inodes and marks survive an operation that writes neither bitmap nor inode table.\<close>

lemma fs_wf_frame:
  assumes wf: "fs_wf content f L st" and fr: "frame content f S st s1" and S: "S \<inter> (tables f st \<union> {bbm f st, ibm f st}) = {}"
  shows "fs_wf content f L s1"
proof -
  note m = frame_meta [OF fr] and g = frame_geom [OF fr] and W = fs_wfD [OF wf] and G = geom_wf_facts [OF fs_wfD(2) [OF wf]]
  have at: "inode_at content f s1 i = inode_at content f st i" if "i \<in> L" for i
    by (rule frame_inode_at [OF fr W(1,3) W(6) [OF that]]) (use S W(6) [OF that] in \<open>auto simp: tables_def\<close>)
  have b: "in_use content f s1 (bbm f st) j = in_use content f st (bbm f st) j" if "j < bpg f st" for j
    by (rule frame_in_use [OF fr]) (use S G that in auto)
  have i: "in_use content f s1 (ibm f st) j = in_use content f st (ibm f st) j" if "j < ipg f st" for j
    by (rule frame_in_use [OF fr]) (use S G that in auto)
  have good: "block_good content f s1 x = block_good content f st x" for x using b by (auto simp: block_good_def m)
  have live: "ino_live content f s1 k" if "k \<in> L" for k
  proof -
    have "0 < unat k" "unat k \<le> ipg f st" using W(7) [OF that] by (auto simp: ino_live_def inode_ok_def unat_gt_0)
    then show ?thesis using W(7) [OF that] i [of "unat k - 1"] by (simp add: ino_live_def m g)
  qed
  show ?thesis
    unfolding fs_wf_def using W at b good live by (simp add: g m inode_good_def)
qed

text \<open>Marking more blocks or inodes keeps the invariant.\<close>

lemma fs_wf_mark:
  assumes wf: "fs_wf content f L st" and fr: "frame content f (insert bm (super_blocks f st)) st s1"
    and bm: "bm \<in> {bbm f st, ibm f st}"
    and mono: "\<And>j. j < 8 * bsize f st \<Longrightarrow> in_use content f st bm j \<Longrightarrow> in_use content f s1 bm j"
  shows "fs_wf content f L s1"
proof -
  note W = fs_wfD [OF wf] and G = geom_wf_facts [OF fs_wfD(2) [OF wf]]
  note m = frame_meta [OF fr] and g = frame_geom [OF fr]
  have at: "inode_at content f s1 i = inode_at content f st i" if "i \<in> L" for i
    by (rule frame_inode_at [OF fr W(1,3) W(6) [OF that]]) (use G(9) [OF W(6) [OF that]] bm in auto)
  have keep: "in_use content f s1 c j" if "c \<in> {bbm f st, ibm f st}" "in_use content f st c j" "j < 8 * bsize f st" for c j
  proof (cases "c = bm")
    case False
    then have "in_use content f s1 c j = in_use content f st c j"
      by (intro frame_in_use [OF fr]) (use that G(1-4) bm in auto)
    then show ?thesis using that by simp
  qed (use that mono in auto)
  have bmono: "in_use content f s1 (bbm f st) j" if "in_use content f st (bbm f st) j" "j < bpg f st" for j
    by (rule keep) (use that G(6) in auto)
  have good: "block_good content f s1 b" if "block_good content f st b" for b
    using that bmono by (auto simp: block_good_def m)
  have live: "ino_live content f s1 i" if "i \<in> L" for i
  proof -
    have l: "inode_ok (ext2_mounts st f) i" "unat i \<le> ipg f st" "in_use content f st (ibm f st) (unat i - 1)"
      using W(7) [OF that] by (auto simp: ino_live_def)
    have "0 < unat i" using l(1) by (simp add: inode_ok_def unat_gt_0)
    then have "in_use content f s1 (ibm f st) (unat i - 1)" by (intro keep) (use l G(7) in auto)
    then show ?thesis using l by (simp add: ino_live_def m g)
  qed
  show ?thesis
    unfolding fs_wf_def using W at good live bmono by (simp add: g m inode_good_def)
qed

lemma alloc_block_ok:
  assumes wf: "fs_wf content f L st"
  obtains (full) s1 where "alloc_block f st = (None, s1)" "same_disk content st s1"
    "\<And>j. j < bpg f st \<Longrightarrow> in_use content f st (bbm f st) j"
  | (got) nb s1 where "alloc_block f st = (Some nb, s1)" "frame content f (insert (bbm f st) (super_blocks f st)) st s1"
    "fs_wf content f L s1" "block_good content f s1 nb" "\<not> in_use content f st (bbm f st) (unat nb)"
    "\<And>i. i \<in> L \<Longrightarrow> nb \<notin> owned (inode_at content f st i)"
    "\<And>b. block_good content f st b \<Longrightarrow> block_good content f s1 b"
proof -
  note W = fs_wfD [OF wf] and G = geom_wf_facts [OF fs_wfD(2) [OF wf]]
  let ?mx = "blocks_per_group (sb (ext2_mounts st f))" and ?P = "\<lambda>i. \<not> in_use content f st (bbm f st) i"
  have mx: "unat ?mx \<le> 8 * bsize f st" using G(6) by (simp add: bpg_def)
  have eq: "alloc_block f st = ext2_alloc_from_bitmap f (bbm f st) ?mx False st" by (simp add: alloc_block_def bbm_def)
  show thesis
  proof (cases "first_idx ?P 0 (unat ?mx)")
    case None
    have used: "in_use content f st (bbm f st) j" if "j < bpg f st" for j using None that by (simp add: first_idx_None bpg_def)
    show ?thesis by (rule alloc_full [OF W(1) mx None, of False]) (rule full, use used eq in simp_all)
  next
    case (Some k)
    obtain s1 where a: "ext2_alloc_from_bitmap f (bbm f st) ?mx False st = (Some (word_of_nat k), s1)"
      "frame content f (insert (bbm f st) (super_blocks f st)) st s1" "alloc_done False f st s1"
      "\<And>j. j < 8 * bsize f st \<Longrightarrow> in_use content f s1 (bbm f st) j \<longleftrightarrow> j = k \<or> in_use content f st (bbm f st) j"
      by (rule alloc_ok [OF W(1,4) G(1,3) mx Some, of False]) auto
    let ?nb = "word_of_nat k :: u32"
    have k: "k < bpg f st" "?P k" using first_idx_SomeD [OF Some] by (auto simp: bpg_def)
    have u: "unat ?nb = k" using k(1) unat_u32_bound [of ?mx] by (simp add: unat_of_nat bpg_def)
    have nm: "?nb \<noteq> 0" "?nb \<notin> meta f st" using W(5) [of ?nb] k u by auto
    have fresh: "?nb \<notin> owned (inode_at content f st i)" if "i \<in> L" for i
      using W(8) [OF that] k(2) u by (auto simp: inode_good_def block_good_def)
    have "fs_wf content f L s1" by (rule fs_wf_mark [OF wf a(2)]) (use a(4) in auto)
    moreover have "block_good content f s1 ?nb" using nm k u a(4) [of k] G(6) by (auto simp: block_good_def frame_meta [OF a(2)])
    moreover have "block_good content f s1 b" if "block_good content f st b" for b
      using that a(4) [of "unat b"] G(6) by (auto simp: block_good_def frame_meta [OF a(2)])
    ultimately show ?thesis using got [of ?nb s1] a(1,2) eq k(2) u fresh by simp
  qed
qed

definition alloc_inode :: "nat \<Rightarrow> 'd ext2_st \<Rightarrow> u32 option \<times> 'd ext2_st" where
  "alloc_inode f st = ext2_alloc_from_bitmap f (ibm f st) (inodes_per_group (sb (ext2_mounts st f))) True st"

lemma alloc_inode_ok:
  assumes wf: "fs_wf content f L st"
  obtains (full) s1 where "alloc_inode f st = (None, s1)" "same_disk content st s1"
    "\<And>j. j < ipg f st \<Longrightarrow> in_use content f st (ibm f st) j"
  | (got) i s1 where "alloc_inode f st = (Some i, s1)" "frame content f (insert (ibm f st) (super_blocks f st)) st s1"
    "fs_wf content f L s1" "ino_live content f s1 i" "i \<notin> L"
proof -
  note W = fs_wfD [OF wf] and G = geom_wf_facts [OF fs_wfD(2) [OF wf]]
  let ?mx = "inodes_per_group (sb (ext2_mounts st f))" and ?P = "\<lambda>i. \<not> in_use content f st (ibm f st) i"
  have mx: "unat ?mx \<le> 8 * bsize f st" using G(7) by (simp add: ipg_def)
  show thesis
  proof (cases "first_idx ?P 0 (unat ?mx)")
    case None
    have used: "in_use content f st (ibm f st) j" if "j < ipg f st" for j using None that by (simp add: first_idx_None ipg_def)
    show ?thesis by (rule alloc_full [OF W(1) mx None, of True]) (rule full, use used in \<open>simp_all add: alloc_inode_def\<close>)
  next
    case (Some k)
    obtain s1 where a: "ext2_alloc_from_bitmap f (ibm f st) ?mx True st = (Some (word_of_nat k + 1), s1)"
      "frame content f (insert (ibm f st) (super_blocks f st)) st s1"
      "\<And>j. j < 8 * bsize f st \<Longrightarrow> in_use content f s1 (ibm f st) j \<longleftrightarrow> j = k \<or> in_use content f st (ibm f st) j"
      by (rule alloc_ok [OF W(1,4) G(2,4) mx Some, of True]) auto
    let ?i = "word_of_nat k + 1 :: u32"
    have k: "k < ipg f st" "?P k" using first_idx_SomeD [OF Some] by (auto simp: ipg_def)
    have le: "ipg f st \<le> unat (inodes_count (sb (ext2_mounts st f)))" using W(2) by (simp add: geom_wf_def)
    have kb: "k + 1 < 2 ^ 32" using k(1) le unat_u32_bound [of "inodes_count (sb (ext2_mounts st f))"] by simp
    have "unat (word_of_nat k :: u32) = k" using kb by (simp add: unat_of_nat)
    then have u: "unat ?i = k + 1" using kb by (subst unat_plus_no_wrap) simp_all
    have iok: "inode_ok (ext2_mounts st f) ?i"
      using u k(1) le by (auto simp: inode_ok_def word_le_nat_alt word_unat_eq_iff)
    have "fs_wf content f L s1" by (rule fs_wf_mark [OF wf a(2)]) (use a(3) in auto)
    moreover have "ino_live content f s1 ?i"
      using iok u k(1) a(3) [of k] G(7) by (simp add: ino_live_def frame_meta [OF a(2)] frame_geom [OF a(2)])
    moreover have "?i \<notin> L"
    proof
      assume "?i \<in> L"
      then have "in_use content f st (ibm f st) (unat ?i - 1)" using W(7) by (auto simp: ino_live_def)
      with k(2) u show False by simp
    qed
    ultimately show ?thesis using got [of ?i s1] a(1,2) by (simp add: alloc_inode_def)
  qed
qed

text \<open>An inode write keeps the invariant if the blocks of the inode are its own.\<close>

lemma write_inode_wf:
  assumes wf: "fs_wf content f L st" and live: "ino_live content f st i" and v: "inode_valid x"
    and good: "inode_good content f st x" and own: "\<And>j. j \<in> L \<Longrightarrow> j \<noteq> i \<Longrightarrow> owned x \<inter> owned (inode_at content f st j) = {}"
  obtains s1 where "write_inode f i x st = (True, s1)" "frame content f (tables f st) st s1" "fs_wf content f (insert i L) s1"
    "inode_at content f s1 i = x" "ext2_mounts s1 = ext2_mounts st"
    "\<And>j. inode_ok (ext2_mounts st f) j \<Longrightarrow> j \<noteq> i \<Longrightarrow> inode_at content f s1 j = inode_at content f st j"
proof -
  note W = fs_wfD [OF wf] and G = geom_wf_facts [OF fs_wfD(2) [OF wf]]
  have iok: "inode_ok (ext2_mounts st f) i" using live by (simp add: ino_live_def)
  obtain s1 where w: "write_inode f i x st = (True, s1)" "frame content f {inode_blk (ext2_mounts st f) i} st s1"
    "ext2_mounts s1 = ext2_mounts st" "inode_at content f s1 i = x"
    "\<And>j. inode_ok (ext2_mounts st f) j \<Longrightarrow> j \<noteq> i \<Longrightarrow> inode_at content f s1 j = inode_at content f st j"
    by (rule write_inode_ok [OF W(1,3) iok v]) blast
  have fr: "frame content f (tables f st) st s1" by (rule frame_mono [OF w(2)]) (use iok in \<open>auto simp: tables_def\<close>)
  note m = frame_meta [OF w(2)] and g = frame_geom [OF w(2)]
  have bits: "in_use content f s1 c j = in_use content f st c j" if "c \<in> {bbm f st, ibm f st}" "j < 8 * bsize f st" for c j
    by (rule frame_in_use [OF w(2)]) (use that G(1,2) G(9) [OF iok] in auto)
  have good': "block_good content f s1 b = block_good content f st b" for b
    using bits [of "bbm f st" "unat b"] G(6) by (auto simp: block_good_def m)
  have live': "ino_live content f s1 j" if "ino_live content f st j" for j
  proof -
    have "0 < unat j" using that by (simp add: ino_live_def inode_ok_def unat_gt_0)
    then show ?thesis using that bits [of "ibm f st" "unat j - 1"] G(7) by (auto simp: ino_live_def m g)
  qed
  have at: "inode_at content f s1 j = (if j = i then x else inode_at content f st j)" if "j \<in> insert i L" for j
    using that w(4,5) W(6) by auto
  have "fs_wf content f (insert i L) s1"
    unfolding fs_wf_def
  proof (intro conjI ballI impI)
    fix j k assume "j \<in> insert i L" "k \<in> insert i L" "j \<noteq> k"
    then show "owned (inode_at content f s1 j) \<inter> owned (inode_at content f s1 k) = {}"
      using at [of j] at [of k] own [of j] own [of k] W(9) [of j k] by auto
  next
    fix b assume "b \<in> insert 0 (meta f s1)" "unat b < bpg f s1"
    then show "in_use content f s1 (bbm f s1) (unat b)" using bits [of "bbm f st" "unat b"] W(5) [of b] G(6) by (simp add: m)
  qed (use W g m at good good' live live' in \<open>auto simp: inode_good_def\<close>)
  then show thesis by (rule that [OF w(1) fr _ w(4,3,5)])
qed

end
