(* ===== verification/Ext2Ops.thy ===== *)
theory Ext2Ops
  imports Ext2Dir Ext2Wf
begin

text \<open>
  The directory operations of ext2 on a well-formed volume: lookup reads the map of a directory,
  creating an entry extends it, unlinking removes one entry, and each keeps the invariant and all
  blocks in use that belong to nothing the operation names.
\<close>

section \<open>Lookup\<close>

lemma inode_result_ok:
  assumes "fs_ok content f st" "inode_geom f st" "inode_ok (ext2_mounts st f) i"
  obtains s1 where "inode_result f i out st =
    (if vfs_mode_from_ext2 (e_mode (inode_at content f st i)) = 0 then None else Some (fill_inode i (inode_at content f st i) out), s1)"
    "same_disk content st s1"
proof -
  obtain s1 where "read_inode f i st = (Some (inode_at content f st i), s1)" "same_disk content st s1" by (rule read_inode_ok [OF assms])
  then show thesis using that [of s1] by (simp add: inode_result_def)
qed

lemma inode_result_bad:
  "\<not> inode_ok (ext2_mounts st f) i \<Longrightarrow> inode_result f i out st = (None, st)"
  by (simp add: inode_result_def read_inode_def Let_def)

lemma inode_result_same:
  assumes "fs_ok content f st" "inode_geom f st"
  shows "same_disk content st (snd (inode_result f i out st))"
proof (cases "inode_ok (ext2_mounts st f) i")
  case True
  show ?thesis by (rule inode_result_ok [OF assms True, of out]) simp
qed (simp add: inode_result_bad)

definition live_inode :: "('d \<Rightarrow> u32 \<Rightarrow> u8 list) \<Rightarrow> nat \<Rightarrow> 'd ext2_st \<Rightarrow> vfs_inode \<Rightarrow> u32 \<Rightarrow> vfs_inode option" where
  "live_inode content f st out i =
     (if \<not> inode_ok (ext2_mounts st f) i \<or> vfs_mode_from_ext2 (e_mode (inode_at content f st i)) = 0 then None
      else Some (fill_inode i (inode_at content f st i) out))"

lemma inode_at_same: "same_disk content st s1 \<Longrightarrow> inode_at content f s1 i = inode_at content f st i"
  by (simp add: inode_at_def same_disk_blk) (simp add: same_disk_def)

lemma lookup_ok:
  assumes ok: "fs_ok content f st" "inode_geom f st" and dir: "inode_ok (ext2_mounts st f) (i_ino dir)" and nm: "valid_cstr nm"
  obtains s1 where "ext2_lookup f dir nm out st =
    (Option.bind (dir_map content f st (i_ino dir) nm) (live_inode content f st out), s1)" "same_disk content st s1"
proof -
  let ?x = "inode_at content f st (i_ino dir)"
  obtain s1 where r: "read_inode f (i_ino dir) st = (Some ?x, s1)" "same_disk content st s1" by (rule read_inode_ok [OF ok dir])
  note e = same_disk_ok [OF r(2), of f] same_disk_blk [OF r(2), of f]
  have bs: "bsize f s1 = bsize f st" using r(2) by (simp add: same_disk_def)
  let ?sc = "scan_blocks (blk content f st) (bsize f st) (lookup_test nm) (dir_blocks ?x)"
  have ok1: "fs_ok content f s1" using ok(1) e(1) by simp
  obtain s2 where s2: "find_dirent f (lookup_test nm) (take 12 (e_block ?x)) s1 = (?sc, s2)" "same_disk content s1 s2"
    by (rule find_dirent_ok [OF ok1, where bl = "take 12 (e_block ?x)" and P = "lookup_test nm"])
      (simp_all add: block_local_lookup [OF nm] e(2) bs dir_blocks_def)
  note d2 = same_disk_trans [OF r(2) s2(2)]
  have m2: "ext2_mounts s2 = ext2_mounts st" using d2 by (simp add: same_disk_def)
  have ok2: "fs_ok content f s2" "inode_geom f s2"
    using ok same_disk_ok [OF d2, of f] by (simp_all add: inode_geom_def m2)
  note mp = scan_lookup [OF nm, of content f st "dir_blocks ?x", folded dir_map_def]
  show thesis
  proof (cases ?sc)
    case None
    then show ?thesis using that [of s2] r(1) s2 mp d2 by (simp add: ext2_lookup_def)
  next
    case (Some e)
    obtain b off de where e3: "e = (b, off, de)" by (metis prod_cases3)
    have mi: "dir_map content f st (i_ino dir) nm = Some (de_inode de)" using mp Some e3 by simp
    obtain s3 where s3: "inode_result f (de_inode de) out s2 = (live_inode content f st out (de_inode de), s3)" "same_disk content s2 s3"
    proof (cases "inode_ok (ext2_mounts st f) (de_inode de)")
      case True
      then have "inode_ok (ext2_mounts s2 f) (de_inode de)" by (simp add: m2)
      show ?thesis
        by (rule inode_result_ok [OF ok2 \<open>inode_ok (ext2_mounts s2 f) (de_inode de)\<close>, of out], rule that)
          (auto simp: live_inode_def True inode_at_same [OF d2])
    next
      case False
      then show ?thesis using that [of s2] by (simp add: inode_result_bad m2 live_inode_def)
    qed
    show ?thesis
      using that [of s3] r(1) s2(1) Some e3 s3 mi same_disk_trans [OF d2 s3(2)] by (simp add: ext2_lookup_def)
  qed
qed

section \<open>Adding an entry\<close>

lemma map_of_insert_mid:
  assumes "nm \<notin> fst ` set (xs @ ys)"
  shows "map_of (xs @ (nm, v) # ys) = (map_of (xs @ ys))(nm \<mapsto> v)" "map_of (xs @ ys) nm = None"
proof -
  have "map_of xs nm = None" "map_of ys nm = None" using assms by (auto simp: map_of_eq_None_iff)
  then show "map_of (xs @ (nm, v) # ys) = (map_of (xs @ ys))(nm \<mapsto> v)" "map_of (xs @ ys) nm = None"
    by (auto simp: fun_eq_iff map_add_def split: option.split)
qed

lemma write_data_ok:
  assumes wf: "fs_wf content f L st" and b: "blk_ok f st b" "b \<notin> meta f st"
  obtains s1 where "write_block f b st = (True, s1)" "wrote content f b st s1" "frame content f {b} st s1" "fs_wf content f L s1"
proof -
  obtain s1 where w: "write_block f b st = (True, s1)" "wrote content f b st s1" by (rule write_block_ok [OF fs_wfD(1) [OF wf] b(1)])
  have "fs_wf content f L s1" by (rule fs_wf_frame [OF wf frame_wrote [OF w(2)]]) (use b(2) in \<open>auto simp: meta_def\<close>)
  with w frame_wrote [OF w(2)] show thesis by (rule that)
qed

lemma fs_wf_io [simp]: "fs_wf content f L (st\<lparr>g_io := p\<rparr>) = fs_wf content f L st"
proof
  assume "fs_wf content f L st"
  then show "fs_wf content f L (st\<lparr>g_io := p\<rparr>)" by (rule fs_wf_frame [where S = "{}"]) simp_all
next
  assume "fs_wf content f L (st\<lparr>g_io := p\<rparr>)"
  then show "fs_wf content f L st" by (rule fs_wf_frame [where S = "{}"]) simp_all
qed

lemma fs_wf_same: "fs_wf content f L st \<Longrightarrow> same_disk content st s1 \<Longrightarrow> fs_wf content f L s1"
  by (rule fs_wf_frame [where S = "{}"]) (auto intro: frame_same_disk)

lemma dir_list_frame:
  assumes "frame content f S st s1" "\<And>b. b \<in> set bl \<Longrightarrow> blk_ok f st b \<and> b \<notin> S"
  shows "dir_list content f s1 bl = dir_list content f st bl"
proof -
  have "block_list (blk content f s1 b) (bsize f s1) = block_list (blk content f st b) (bsize f st)" if "b \<in> set bl" for b
    unfolding frame_geom(2) [OF assms(1)] by (rule block_list_cong, rule frame_blk [OF assms(1)]) (use assms(2) that in auto)
  then show ?thesis by (auto simp: dir_list_def intro!: arg_cong [where f = concat])
qed

lemma dir_blocks_owned: "set (dir_blocks x) \<subseteq> owned x"
  by (auto simp: dir_blocks_def owned_def dest: in_set_takeD)

lemma dir_blocks_distinct: "distinct (filter (\<lambda>b. b \<noteq> 0) (e_block x)) \<Longrightarrow> distinct (dir_blocks x)"
  unfolding dir_blocks_def
  by (metis append_take_drop_id distinct_append filter_append)

lemma wf_dir_blocks:
  assumes wf: "fs_wf content f L st" and d: "d \<in> L" and b: "b \<in> owned (inode_at content f st d)"
  shows "blk_ok f st b" "b \<notin> meta f st" "b \<noteq> 0" "block_good content f st b" "in_use content f st (bbm f st) (unat b)"
proof -
  have g: "block_good content f st b" using fs_wfD(8) [OF wf d] b by (simp add: inode_good_def)
  then show "block_good content f st b" "b \<notin> meta f st" "b \<noteq> 0" "in_use content f st (bbm f st) (unat b)"
    by (simp_all add: block_good_def)
  show "blk_ok f st b" using g geom_wf_facts(8) [OF fs_wfD(2) [OF wf], of b] by (simp add: block_good_def)
qed

text \<open>The record written for a new entry.\<close>

definition new_hdr :: "u32 \<Rightarrow> nat \<Rightarrow> bool \<Rightarrow> cstr \<Rightarrow> ext2_dirent_hdr" where
  "new_hdr child n isd nm = \<lparr>de_inode = child, de_rec_len = n, de_name_len = length nm, de_file_type = if isd then 2 else 1\<rparr>"

lemma new_hdr_listed:
  "child \<noteq> 0 \<Longrightarrow> nm \<noteq> [] \<Longrightarrow> length nm < VFS_NAME_MAX \<Longrightarrow> rec_len_min (length nm) \<le> n \<Longrightarrow> dirent_listed (new_hdr child n isd nm)"
  by (simp add: dirent_listed_def dirent_live_def new_hdr_def)

lemma cstr_of_valid: "valid_cstr nm \<Longrightarrow> cstr_of nm = nm"
  by (auto simp: cstr_of_def valid_cstr_def takeWhile_eq_all_conv)

lemma slot_filled:
  assumes e: "(off, de) \<in> set (block_dirents p bs 0)" "slot_test (rec_len_min (length nm)) p (off, de)"
    and nm: "valid_cstr nm" "nm \<noteq> []" "length nm < VFS_NAME_MAX" and ch: "child \<noteq> 0"
    and q: "\<And>i. i < bs \<Longrightarrow> q i = put_dirent (put_bytes p off (replicate (de_rec_len de) 0)) off (word_of_nat (de_rec_len de)) child isd nm i"
  obtains as bs' where "block_list p bs = as @ bs'" "block_list q bs = as @ (nm, child) # bs'"
proof -
  note b = block_dirents_bounds [OF e(1)]
  note d = dirent_read_SomeD [OF conjunct1 [OF conjunct2 [OF b]]]
  have sl: "de_inode de = 0" "rec_len_min (length nm) \<le> de_rec_len de" using e(2) by (simp_all add: slot_test_def)
  have u: "unat (word_of_nat (de_rec_len de) :: u16) = de_rec_len de" using d unat_u16_bound [of "rd16le p (off + 4)"] by (simp add: unat_of_nat)
  let ?r = "put_dirent (put_bytes p off (replicate (de_rec_len de) 0)) off (word_of_nat (de_rec_len de)) child isd nm"
  have len: "8 + length nm \<le> de_rec_len de" using sl(2) rec_len_min_ge [of "length nm"] by simp
  have rr: "ext2_dirent_read ?r bs off = Some (new_hdr child (de_rec_len de) isd nm)" "get_bytes ?r (off + 8) (length nm) = nm"
    using put_dirent_read [of off "word_of_nat (de_rec_len de)" bs nm "put_bytes p off (replicate (de_rec_len de) 0)" child isd] u b len nm(3)
    by (simp_all add: new_hdr_def VFS_NAME_MAX_def)
  have rq: "ext2_dirent_read q bs off = Some (new_hdr child (de_rec_len de) isd nm)"
    unfolding rr(1) [symmetric] by (rule dirent_read_cong) (use q in auto)
  have name: "dirent_name q off (new_hdr child (de_rec_len de) isd nm) = nm"
  proof -
    have "dirent_name q off (new_hdr child (de_rec_len de) isd nm) = get_bytes ?r (off + 8) (length nm)"
      unfolding dirent_name_def get_bytes_def by (rule map_cong) (use q len b in \<open>auto simp: new_hdr_def\<close>)
    with rr(2) show ?thesis by simp
  qed
  have out: "q i = p i" if "i < off \<or> off + de_rec_len de \<le> i" "i < bs" for i
  proof -
    have "put_dirent (put_bytes p off (replicate (de_rec_len de) 0)) off (word_of_nat (de_rec_len de)) child isd nm i =
        put_bytes p off (replicate (de_rec_len de) 0) i"
      by (rule put_dirent_outside) (use that len in auto)
    then show ?thesis using q [OF that(2)] that(1) by (auto simp: put_bytes_read)
  qed
  obtain as bs' where "block_list p bs = as @ (if dirent_listed de then [dirent_entry p (off, de)] else []) @ bs'"
    "block_list q bs = as @ (if dirent_listed (new_hdr child (de_rec_len de) isd nm) then [dirent_entry q (off, new_hdr child (de_rec_len de) isd nm)] else []) @ bs'"
    by (rule block_list_update [OF e(1) out rq]) (simp_all add: new_hdr_def)
  then show thesis
    using that [of as bs'] new_hdr_listed [OF ch nm(2,3) sl(2), of isd] sl(1) name cstr_of_valid [OF nm(1)]
    by (simp add: dirent_entry_def dirent_listed_def dirent_live_def) (simp add: new_hdr_def)
qed

lemma fresh_block_list:
  assumes "bs \<in> {1024, 2048, 4096}" and nm: "valid_cstr nm" "nm \<noteq> []" "length nm < VFS_NAME_MAX" and ch: "child \<noteq> 0"
    and q: "\<And>i. i < bs \<Longrightarrow> q i = put_dirent p 0 (word_of_nat bs) child isd nm i"
  shows "block_list q bs = [(nm, child)]"
proof -
  have u: "unat (word_of_nat bs :: u16) = bs" using assms(1) by (auto simp: unat_of_nat)
  let ?h = "new_hdr child bs isd nm"
  have len: "rec_len_min (length nm) \<le> bs" "8 + length nm \<le> bs"
    using nm(3) assms(1) by (auto simp: rec_len_min_def VFS_NAME_MAX_def)
  have r: "ext2_dirent_read (put_dirent p 0 (word_of_nat bs) child isd nm) bs 0 = Some ?h"
    "get_bytes (put_dirent p 0 (word_of_nat bs) child isd nm) 8 (length nm) = nm"
    using put_dirent_read [of 0 "word_of_nat bs" bs nm p child isd] u len nm(3) by (simp_all add: new_hdr_def VFS_NAME_MAX_def)
  have rq: "ext2_dirent_read q bs 0 = Some ?h" unfolding r(1) [symmetric] by (rule dirent_read_cong) (use q in auto)
  have "block_dirents q bs 0 = [(0, ?h)]"
    using block_dirents_Some [OF rq] block_dirents_None [of q bs bs] by (simp add: new_hdr_def ext2_dirent_read_def)
  moreover have "dirent_name q 0 ?h = nm"
  proof -
    have "dirent_name q 0 ?h = get_bytes (put_dirent p 0 (word_of_nat bs) child isd nm) 8 (length nm)"
      unfolding dirent_name_def get_bytes_def by (rule map_cong) (use q len in \<open>auto simp: new_hdr_def\<close>)
    with r(2) show ?thesis by simp
  qed
  ultimately show ?thesis
    using new_hdr_listed [OF ch nm(2,3) len(1), of isd] cstr_of_valid [OF nm(1)]
    by (simp add: block_list_def dirent_entry_def) (simp add: new_hdr_def)
qed

definition touched :: "('d \<Rightarrow> u32 \<Rightarrow> u8 list) \<Rightarrow> nat \<Rightarrow> 'd ext2_st \<Rightarrow> u32 set \<Rightarrow> u32 set" where
  "touched content f st B = meta f st \<union> B \<union> {b. unat b < bpg f st \<and> \<not> in_use content f st (bbm f st) (unat b)}"

lemma dir_list_append: "dir_list content f st (xs @ ys) = dir_list content f st xs @ dir_list content f st ys"
  by (simp add: dir_list_def)

lemma inode_good_cong:
  "e_block x = e_block y \<Longrightarrow> inode_good content f st x = inode_good content f st y"
  by (simp add: inode_good_def owned_def)

lemma owned_cong: "e_block x = e_block y \<Longrightarrow> owned x = owned y"
  by (simp add: owned_def)

lemma dir_blocks_cong: "e_block x = e_block y \<Longrightarrow> dir_blocks x = dir_blocks y"
  by (simp add: dir_blocks_def)

lemma dir_map_None: "dir_map content f st d nm = None \<longleftrightarrow> nm \<notin> fst ` set (dir_list content f st (dir_blocks (inode_at content f st d)))"
  by (simp add: dir_map_def map_of_eq_None_iff)

lemma frame_inodes:
  assumes "fs_wf content f L st" "frame content f S st s1" "S \<inter> tables f st = {}" "inode_ok (ext2_mounts st f) j"
  shows "inode_at content f s1 j = inode_at content f st j"
  by (rule frame_inode_at [OF assms(2) fs_wfD(1,3) [OF assms(1)] assms(4)]) (use assms(3,4) in \<open>auto simp: tables_def\<close>)

text \<open>Writing a block of a directory and then its inode.\<close>

lemma write_dirent_ok:
  assumes wf: "fs_wf content f L st" and d: "ino_live content f st d" and b: "block_good content f st b"
    and v: "inode_valid x" and good: "inode_good content f st x"
    and own: "\<And>j. j \<in> L \<Longrightarrow> j \<noteq> d \<Longrightarrow> owned x \<inter> owned (inode_at content f st j) = {}"
    and nb: "\<And>j. j \<in> L \<Longrightarrow> j \<noteq> d \<Longrightarrow> b \<notin> owned (inode_at content f st j)"
  obtains s1 where "write_dirent f b d x st = (True, s1)" "frame content f (insert b (tables f st)) st s1"
    "fs_wf content f (insert d L) s1" "inode_at content f s1 d = x" "ext2_mounts s1 = ext2_mounts st"
    "\<And>j. inode_ok (ext2_mounts st f) j \<Longrightarrow> j \<noteq> d \<Longrightarrow> inode_at content f s1 j = inode_at content f st j"
    "\<And>i. i < bsize f st \<Longrightarrow> blk content f s1 b i = g_io st i"
proof -
  have bk: "blk_ok f st b" "b \<notin> meta f st"
    using b geom_wf_facts(8) [OF fs_wfD(2) [OF wf], of b] by (simp_all add: block_good_def)
  obtain s1 where w: "write_block f b st = (True, s1)" "wrote content f b st s1" "frame content f {b} st s1" "fs_wf content f L s1"
    by (rule write_data_ok [OF wf bk])
  have bt: "b \<notin> tables f st" "b \<notin> {bbm f st, ibm f st}" using bk(2) by (auto simp: meta_def)
  have at: "inode_at content f s1 j = inode_at content f st j" if "inode_ok (ext2_mounts st f) j" for j
    by (rule frame_inodes [OF wf w(3) _ that]) (use bt in auto)
  note m = frame_meta [OF w(3)] and g = frame_geom [OF w(3)] and G = geom_wf_facts [OF fs_wfD(2) [OF wf]]
  have bits: "in_use content f s1 c j = in_use content f st c j" if "c \<in> {bbm f st, ibm f st}" "j < 8 * bsize f st" for c j
    by (rule frame_in_use [OF w(3)]) (use that bt(2) G(1,2) in auto)
  have good1: "inode_good content f s1 x"
    using good bits [of "bbm f st"] G(6) by (fastforce simp: inode_good_def block_good_def m)
  have live1: "ino_live content f s1 d"
  proof -
    have "0 < unat d" using d by (simp add: ino_live_def inode_ok_def unat_gt_0)
    then show ?thesis using d bits [of "ibm f st" "unat d - 1"] G(7) by (auto simp: ino_live_def m g)
  qed
  have own1: "owned x \<inter> owned (inode_at content f s1 j) = {}" if "j \<in> L" "j \<noteq> d" for j
    using own [OF that] at [OF fs_wfD(6) [OF wf that(1)]] by simp
  obtain s2 where i: "write_inode f d x s1 = (True, s2)" "frame content f (tables f s1) s1 s2" "fs_wf content f (insert d L) s2"
    "inode_at content f s2 d = x" "ext2_mounts s2 = ext2_mounts s1"
    "\<And>j. inode_ok (ext2_mounts s1 f) j \<Longrightarrow> j \<noteq> d \<Longrightarrow> inode_at content f s2 j = inode_at content f s1 j"
    by (rule write_inode_wf [OF w(4) live1 v good1 own1]) blast+
  have m1: "ext2_mounts s1 = ext2_mounts st" using w(2) by (simp add: wrote_def)
  have fr: "frame content f (insert b (tables f st)) st s2"
    by (rule frame_mono [OF frame_trans [OF w(3) i(2)]]) (simp add: m)
  have bytes: "blk content f s2 b k = g_io st k" if "k < bsize f st" for k
  proof -
    have "blk content f s2 b k = blk content f s1 b k" by (rule frame_blk [OF i(2)]) (use bk bt that g m in auto)
    also have "\<dots> = g_io st k" using w(2) that by (simp add: wrote_def)
    finally show ?thesis .
  qed
  show thesis
    by (rule that [of s2, OF _ fr i(3,4)]) (use w(1) i(1,5,6) m1 at bytes in \<open>simp_all add: write_dirent_def\<close>)
qed

text \<open>Changing the listing of one block changes the listing of the directory at one place.\<close>

lemma dir_list_block_update:
  assumes wf: "fs_wf content f L st" and d: "d \<in> L" and b: "b \<in> set (dir_blocks (inode_at content f st d))"
    and fr: "frame content f (insert b (tables f st)) st s1"
    and ac: "block_list (blk content f st b) (bsize f st) = as @ m1 @ cs" "block_list (blk content f s1 b) (bsize f st) = as @ m2 @ cs"
  obtains X Y where "dir_list content f st (dir_blocks (inode_at content f st d)) = X @ m1 @ Y"
    "dir_list content f s1 (dir_blocks (inode_at content f st d)) = X @ m2 @ Y"
proof -
  let ?x = "inode_at content f st d"
  obtain xs ys where xy: "dir_blocks ?x = xs @ b # ys" using b by (auto simp: in_set_conv_decomp)
  have dis: "distinct (dir_blocks ?x)" using fs_wfD(8) [OF wf d] by (intro dir_blocks_distinct) (simp add: inode_good_def)
  have oth: "dir_list content f s1 bl = dir_list content f st bl" if "bl \<in> {xs, ys}" for bl
  proof (rule dir_list_frame [OF fr])
    fix c assume c: "c \<in> set bl"
    then have "c \<in> owned ?x" using that xy dir_blocks_owned [of ?x] by auto
    then show "blk_ok f st c \<and> c \<notin> insert b (tables f st)"
      using wf_dir_blocks [OF wf d, of c] c that dis xy by (auto simp: meta_def)
  qed
  have "bsize f s1 = bsize f st" by (rule frame_geom(2) [OF fr])
  then show thesis
    using ac oth [of xs] oth [of ys]
    by (intro that [of "dir_list content f st xs @ as" "cs @ dir_list content f st ys"]) (simp_all add: xy dir_list_def)
qed

lemma insert_slot_ok:
  assumes wf: "fs_wf content f L st" and d: "d \<in> L" and x: "e_block x = e_block (inode_at content f st d)" "inode_valid x"
    and nm: "valid_cstr nm" "nm \<noteq> []" "length nm < VFS_NAME_MAX" "dir_map content f st d nm = None" and ch: "child \<noteq> 0"
    and sc: "scan_blocks (blk content f st) (bsize f st) (slot_test (rec_len_min (length nm))) (dir_blocks x) = Some (b, off, de)"
    and sd: "same_disk content st s1" and io: "\<And>i. i < bsize f st \<Longrightarrow> g_io s1 i = blk content f st b i"
    and s2: "s2 = s1\<lparr>g_io := put_dirent (put_bytes (g_io s1) off (replicate (de_rec_len de) 0)) off (word_of_nat (de_rec_len de)) child isd nm\<rparr>"
  obtains s3 where "write_dirent f b d x s2 = (True, s3)" "fs_wf content f L s3"
    "frame content f (touched content f st (owned x)) st s3" "inode_at content f s3 d = x"
    "\<And>j. inode_ok (ext2_mounts st f) j \<Longrightarrow> j \<noteq> d \<Longrightarrow> inode_at content f s3 j = inode_at content f st j"
    "dir_map content f s3 d = (dir_map content f st d)(nm \<mapsto> child)"
proof -
  note W = fs_wfD [OF wf]
  have sb: "b \<in> set (dir_blocks x)" "(off, de) \<in> set (block_dirents (blk content f st b) (bsize f st) 0)"
    "slot_test (rec_len_min (length nm)) (blk content f st b) (off, de)"
    using scan_blocks_SomeD [OF sc] by auto
  have bo: "b \<in> owned (inode_at content f st d)" using sb(1) dir_blocks_owned [of x] owned_cong [OF x(1)] by auto
  note bg = wf_dir_blocks [OF wf d bo]
  have at: "inode_at content f s1 j = inode_at content f st j" for j by (rule inode_at_same [OF sd])
  have fr2: "frame content f {} st s2" using frame_same_disk [OF sd] by (simp add: s2)
  have wf2: "fs_wf content f L s2" using fs_wf_same [OF wf sd] by (simp add: s2)
  have at2: "inode_at content f s2 j = inode_at content f st j" for j using at by (simp add: s2 inode_at_def)
  have b2: "block_good content f s2 b" using wf_dir_blocks(4) [OF wf2 d, of b] bo at2 by simp
  have gx: "inode_good content f s2 x" using fs_wfD(8) [OF wf2 d] at2 inode_good_cong [OF x(1), of content f s2] by simp
  have own: "owned x \<inter> owned (inode_at content f s2 j) = {}" if "j \<in> L" "j \<noteq> d" for j
    using W(9) [OF d that(1)] that(2) at2 owned_cong [OF x(1)] by auto
  have nb: "b \<notin> owned (inode_at content f s2 j)" if "j \<in> L" "j \<noteq> d" for j
    using own [OF that] bo owned_cong [OF x(1)] by auto
  obtain s3 where w: "write_dirent f b d x s2 = (True, s3)" "frame content f (insert b (tables f s2)) s2 s3"
    "fs_wf content f (insert d L) s3" "inode_at content f s3 d = x"
    "\<And>j. inode_ok (ext2_mounts s2 f) j \<Longrightarrow> j \<noteq> d \<Longrightarrow> inode_at content f s3 j = inode_at content f s2 j"
    "\<And>i. i < bsize f s2 \<Longrightarrow> blk content f s3 b i = g_io s2 i"
    by (rule write_dirent_ok [OF wf2 fs_wfD(7) [OF wf2 d] b2 x(2) gx own nb]) blast+
  have fr: "frame content f (insert b (tables f st)) st s3"
    using frame_trans [OF fr2 w(2)] frame_meta(1) [OF fr2] by simp
  have tf: "frame content f (touched content f st (owned x)) st s3"
    by (rule frame_mono [OF fr]) (use bo owned_cong [OF x(1)] in \<open>auto simp: touched_def meta_def\<close>)
  have bs2: "bsize f s2 = bsize f st" by (rule frame_geom(2) [OF fr2])
  have q: "blk content f s3 b i = put_dirent (put_bytes (blk content f st b) off (replicate (de_rec_len de) 0)) off
      (word_of_nat (de_rec_len de)) child isd nm i" if "i < bsize f st" for i
    using w(6) [of i] io [OF that] that bs2 by (auto simp: s2 put_dirent_def wr16le_def wr32le_def put_bytes_read)
  obtain as cs where ac: "block_list (blk content f st b) (bsize f st) = as @ cs"
    "block_list (blk content f s3 b) (bsize f st) = as @ (nm, child) # cs"
    by (rule slot_filled [OF sb(2,3) nm(1-3) ch q])
  have dx: "dir_blocks (inode_at content f st d) = dir_blocks x" by (rule dir_blocks_cong [OF x(1) [symmetric]])
  obtain X Y where old: "dir_list content f st (dir_blocks x) = X @ [] @ Y"
    and new: "dir_list content f s3 (dir_blocks x) = X @ [(nm, child)] @ Y"
    by (rule dir_list_block_update [OF wf d sb(1) [folded dx] fr, unfolded dx, of as "[]" cs "[(nm, child)]"]) (use ac in auto)
  have "dir_map content f s3 d = (dir_map content f st d)(nm \<mapsto> child)"
    unfolding dir_map_def w(4) dx old new
    using map_of_insert_mid(1) [of nm X Y child] nm(4) [unfolded dir_map_None dx old] by simp
  moreover have "fs_wf content f L s3" using w(3) d by (simp add: insert_absorb)
  moreover have "inode_at content f s3 j = inode_at content f st j" if "inode_ok (ext2_mounts st f) j" "j \<noteq> d" for j
    using w(5) [of j] that at2 frame_geom(4) [OF fr2] by simp
  ultimately show thesis using that [OF w(1) _ tf w(4)] by blast
qed

lemma filter_list_update:
  assumes "k < length xs" "xs ! k = 0" "v \<noteq> (0 :: u32)"
  obtains as bs where "filter (\<lambda>b. b \<noteq> 0) xs = as @ bs" "filter (\<lambda>b. b \<noteq> 0) (xs[k := v]) = as @ v # bs"
proof (rule that)
  have xs: "xs = take k xs @ 0 # drop (Suc k) xs" using assms(1,2) id_take_nth_drop by metis
  show "filter (\<lambda>b. b \<noteq> 0) xs = filter (\<lambda>b. b \<noteq> 0) (take k xs) @ filter (\<lambda>b. b \<noteq> 0) (drop (Suc k) xs)"
    by (subst xs) simp
  show "filter (\<lambda>b. b \<noteq> 0) (xs[k := v]) = filter (\<lambda>b. b \<noteq> 0) (take k xs) @ v # filter (\<lambda>b. b \<noteq> 0) (drop (Suc k) xs)"
    using assms(1,3) by (simp add: upd_conv_take_nth_drop)
qed

lemma insert_block_facts:
  assumes "k < 12" "length (e_block x) = 15" "e_block x ! k = 0" "v \<noteq> 0" "e_block y = (e_block x)[k := v]"
  shows "owned y = insert v (owned x)"
    and "distinct (filter (\<lambda>b. b \<noteq> 0) (e_block x)) \<Longrightarrow> v \<notin> owned x \<Longrightarrow> distinct (filter (\<lambda>b. b \<noteq> 0) (e_block y))"
    and "\<exists>xs ys. dir_blocks x = xs @ ys \<and> dir_blocks y = xs @ v # ys"
proof -
  obtain as bs where a: "filter (\<lambda>b. b \<noteq> 0) (e_block x) = as @ bs" "filter (\<lambda>b. b \<noteq> 0) ((e_block x)[k := v]) = as @ v # bs"
    by (rule filter_list_update [of k "e_block x" v]) (use assms in auto)
  show "owned y = insert v (owned x)" by (simp add: owned_def assms(5) a)
  show "distinct (filter (\<lambda>b. b \<noteq> 0) (e_block x)) \<Longrightarrow> v \<notin> owned x \<Longrightarrow> distinct (filter (\<lambda>b. b \<noteq> 0) (e_block y))"
    by (auto simp: owned_def assms(5) a)
  show "\<exists>xs ys. dir_blocks x = xs @ ys \<and> dir_blocks y = xs @ v # ys"
    by (rule filter_list_update [of k "take 12 (e_block x)" v])
      (use assms in \<open>auto simp: dir_blocks_def take_update_swap\<close>)
qed

lemma zero_io_simps [simp]:
  "ext2_mounts (zero_io f st) = ext2_mounts st" "fs_wf content f L (zero_io f st) = fs_wf content f L st"
  "frame content f S st' (zero_io f st) = frame content f S st' st" "frame content f S (zero_io f st) st' = frame content f S st st'"
  "inode_at content f (zero_io f st) = inode_at content f st" "blk content f (zero_io f st) = blk content f st"
  by (simp_all add: zero_io_def inode_at_def [abs_def])

lemma ino_live_io [simp]: "ino_live content f (st\<lparr>g_io := p\<rparr>) i = ino_live content f st i"
  and block_good_io [simp]: "block_good content f (st\<lparr>g_io := p\<rparr>) b = block_good content f st b"
  and inode_good_io [simp]: "inode_good content f (st\<lparr>g_io := p\<rparr>) x = inode_good content f st x"
  and inode_at_io [simp]: "inode_at content f (st\<lparr>g_io := p\<rparr>) i = inode_at content f st i"
  and tables_io [simp]: "tables f (st\<lparr>g_io := p\<rparr>) = tables f st"
  by (simp_all add: ino_live_def block_good_def inode_good_def inode_at_def in_use_def bbm_def ibm_def bpg_def ipg_def meta_def tables_def
      super_blocks_def)

lemma block_size_word: "fs_ok content f st \<Longrightarrow> (ucast (block_size (ext2_mounts st f)) :: u16) = word_of_nat (bsize f st)"
  by (auto simp: fs_ok_def)

lemma insert_block_ok:
  assumes wf: "fs_wf content f L st" and d: "d \<in> L" and x: "e_block x = e_block (inode_at content f st d)" "inode_valid x"
    and nm: "valid_cstr nm" "nm \<noteq> []" "length nm < VFS_NAME_MAX" "dir_map content f st d nm = None" and ch: "child \<noteq> 0"
    and k: "k < 12" "e_block x ! k = 0"
    and al: "frame content f (insert (bbm f st) (super_blocks f st)) st s2" "fs_wf content f L s2" "block_good content f s2 nb"
      "\<not> in_use content f st (bbm f st) (unat nb)" "\<And>i. i \<in> L \<Longrightarrow> nb \<notin> owned (inode_at content f st i)"
    and y: "y = x\<lparr>e_block := (e_block x)[k := nb], e_size := z, e_blocks := n\<rparr>"
    and s4: "s4 = (zero_io f s2)\<lparr>g_io := put_dirent (g_io (zero_io f s2)) 0 (ucast (block_size (ext2_mounts (zero_io f s2) f))) child isd nm\<rparr>"
  obtains s5 where "write_dirent f nb d y s4 = (True, s5)" "fs_wf content f L s5"
    "frame content f (touched content f st (owned x)) st s5" "inode_at content f s5 d = y"
    "\<And>j. inode_ok (ext2_mounts st f) j \<Longrightarrow> j \<noteq> d \<Longrightarrow> inode_at content f s5 j = inode_at content f st j"
    "dir_map content f s5 d = (dir_map content f st d)(nm \<mapsto> child)"
proof -
  note W = fs_wfD [OF wf] and g2 = frame_geom [OF al(1)] and m2 = frame_meta [OF al(1)] and G = geom_wf_facts [OF fs_wfD(2) [OF wf]]
  have len: "length (e_block x) = 15" using x(2) by (simp add: inode_valid_def)
  have nb0: "nb \<noteq> 0" "nb \<notin> meta f st" "unat nb < bpg f st" using al(3) by (simp_all add: block_good_def m2)
  have ey: "e_block y = (e_block x)[k := nb]" by (simp add: y)
  note yf = insert_block_facts [OF k(1) len k(2) nb0(1) ey]
  have ox: "owned x = owned (inode_at content f st d)" by (rule owned_cong [OF x(1)])
  have at2: "inode_at content f s2 j = inode_at content f st j" if "inode_ok (ext2_mounts st f) j" for j
    by (rule frame_inodes [OF wf al(1) _ that]) (use W(2) in \<open>auto simp: geom_wf_def\<close>)
  have at2L: "inode_at content f s2 j = inode_at content f st j" if "j \<in> L" for j by (rule at2 [OF W(6) [OF that]])
  have gd: "inode_good content f s2 (inode_at content f st d)" using fs_wfD(8) [OF al(2) d] at2L [OF d] by simp
  have gy: "inode_good content f s4 y"
    using gd al(3) al(5) [OF d] yf(1,2) ox x(1) by (simp add: s4 zero_io_def) (simp add: inode_good_def)
  have vy: "inode_valid y" using x(2) by (simp add: y inode_valid_def)
  have wf4: "fs_wf content f L s4" using al(2) by (simp add: s4)
  have live4: "ino_live content f s4 d" using fs_wfD(7) [OF al(2) d] by (simp add: s4 zero_io_def)
  have nb4: "block_good content f s4 nb" using al(3) by (simp add: s4 zero_io_def)
  have at4: "inode_at content f s4 j = inode_at content f s2 j" for j by (simp add: s4)
  have fresh: "nb \<notin> owned (inode_at content f s4 j)" if "j \<in> L" for j using al(5) [OF that] at2L [OF that] at4 by simp
  have own: "owned y \<inter> owned (inode_at content f s4 j) = {}" if "j \<in> L" "j \<noteq> d" for j
    using fresh [OF that(1)] W(9) [OF d that(1)] that(2) yf(1) ox at4 at2L [OF that(1)] by auto
  obtain s5 where w: "write_dirent f nb d y s4 = (True, s5)" "frame content f (insert nb (tables f s4)) s4 s5"
    "fs_wf content f (insert d L) s5" "inode_at content f s5 d = y"
    "\<And>j. inode_ok (ext2_mounts s4 f) j \<Longrightarrow> j \<noteq> d \<Longrightarrow> inode_at content f s5 j = inode_at content f s4 j"
    "\<And>i. i < bsize f s4 \<Longrightarrow> blk content f s5 nb i = g_io s4 i"
    by (rule write_dirent_ok [OF wf4 live4 nb4 vy gy own fresh]) blast+
  have fr4: "frame content f (insert (bbm f st) (super_blocks f st)) st s4" using al(1) by (simp add: s4)
  have fr: "frame content f (insert (bbm f st) (super_blocks f st) \<union> insert nb (tables f st)) st s5"
    using frame_trans [OF fr4 w(2)] frame_meta(1) [OF fr4] by simp
  have tf: "frame content f (touched content f st (owned x)) st s5"
    by (rule frame_mono [OF fr]) (use al(4) nb0(3) in \<open>auto simp: touched_def meta_def\<close>)
  obtain xs ys where xy: "dir_blocks x = xs @ ys" "dir_blocks y = xs @ nb # ys" using yf(3) by blast
  have oth: "dir_list content f s5 bl = dir_list content f st bl" if "bl \<in> {xs, ys}" for bl
  proof (rule dir_list_frame [OF fr])
    fix c assume "c \<in> set bl"
    then have c: "c \<in> owned (inode_at content f st d)" using that xy dir_blocks_owned [of x] ox by auto
    then show "blk_ok f st c \<and> c \<notin> insert (bbm f st) (super_blocks f st) \<union> insert nb (tables f st)"
      using wf_dir_blocks [OF wf d c] al(5) [OF d] by (auto simp: meta_def)
  qed
  have bs5: "bsize f s5 = bsize f st" and bs4: "bsize f s4 = bsize f st" by (rule frame_geom(2) [OF fr], rule frame_geom(2) [OF fr4])
  have bl: "block_list (blk content f s5 nb) (bsize f st) = [(nm, child)]"
  proof (rule fresh_block_list [OF fs_ok_bsize [OF W(1)] nm(1-3) ch])
    show "blk content f s5 nb i = put_dirent (g_io (zero_io f s2)) 0 (word_of_nat (bsize f st)) child isd nm i" if "i < bsize f st" for i
      using w(6) [of i] that bs4 block_size_word [OF fs_wfD(1) [OF al(2)]] g2(2) by (simp add: s4)
  qed
  have dx: "dir_blocks (inode_at content f st d) = dir_blocks x" by (rule dir_blocks_cong [OF x(1) [symmetric]])
  have "dir_map content f s5 d = (dir_map content f st d)(nm \<mapsto> child)"
    unfolding dir_map_def w(4) dx xy
    using map_of_insert_mid(1) [of nm "dir_list content f st xs" "dir_list content f st ys" child] nm(4) [unfolded dir_map_None dx xy(1)]
      oth [of xs] oth [of ys] bl bs5
    by (simp add: dir_list_append) (simp add: dir_list_def)
  moreover have "fs_wf content f L s5" using w(3) d by (simp add: insert_absorb)
  moreover have "inode_at content f s5 j = inode_at content f st j" if "inode_ok (ext2_mounts st f) j" "j \<noteq> d" for j
    using w(5) [of j] that at4 at2 [OF that(1)] frame_geom(4) [OF fr4] by simp
  ultimately show thesis using that [OF w(1) _ tf w(4)] by blast
qed

lemma dir_map_same: "same_disk content st s1 \<Longrightarrow> dir_map content f s1 d = dir_map content f st d"
  by (simp add: dir_map_def inode_at_same dir_list_def same_disk_blk) (simp add: same_disk_def)

lemma first_zero_block: "first_idx (\<lambda>i. e_block x ! i = 0) 0 12 = Some k \<Longrightarrow> k < 12 \<and> e_block x ! k = 0"
  by (auto dest: first_idx_SomeD)

lemma insert_ok:
  assumes wf: "fs_wf content f L st" and d: "d \<in> L" and x: "e_block x = e_block (inode_at content f st d)" "inode_valid x"
    and nm: "valid_cstr nm" "nm \<noteq> []" "length nm < VFS_NAME_MAX" "dir_map content f st d nm = None" and ch: "child \<noteq> 0"
  obtains (failed) y s1 where "ext2_insert_dirent f x d child nm isd st = (False, y, s1)" "same_disk content st s1"
    "(\<forall>k < 12. e_block x ! k \<noteq> 0) \<or> (\<forall>j < bpg f st. in_use content f st (bbm f st) j)"
  | (added) y s1 where "ext2_insert_dirent f x d child nm isd st = (True, y, s1)" "fs_wf content f L s1"
    "frame content f (touched content f st (owned x)) st s1" "inode_at content f s1 d = y"
    "\<And>j. inode_ok (ext2_mounts st f) j \<Longrightarrow> j \<noteq> d \<Longrightarrow> inode_at content f s1 j = inode_at content f st j"
    "dir_map content f s1 d = (dir_map content f st d)(nm \<mapsto> child)"
proof -
  let ?P = "slot_test (rec_len_min (length nm))"
  let ?sc = "scan_blocks (blk content f st) (bsize f st) ?P (dir_blocks x)"
  obtain s1 where s1: "find_dirent f ?P (take 12 (e_block x)) st = (?sc, s1)" "same_disk content st s1"
    "\<And>b off de i. ?sc = Some (b, off, de) \<Longrightarrow> i < bsize f st \<Longrightarrow> g_io s1 i = blk content f st b i"
    by (rule find_dirent_ok [OF fs_wfD(1) [OF wf], where bl = "take 12 (e_block x)" and P = ?P])
      (auto simp: block_local_slot dir_blocks_def)
  have guard: "\<not> (nm = [] \<or> VFS_NAME_MAX \<le> length nm)" using nm by simp
  show thesis
  proof (cases ?sc)
    case (Some e)
    obtain b off de where e: "e = (b, off, de)" by (metis prod_cases3)
    note sc = Some [unfolded e]
    obtain s3 where "write_dirent f b d x (s1\<lparr>g_io := put_dirent (put_bytes (g_io s1) off (replicate (de_rec_len de) 0)) off
        (word_of_nat (de_rec_len de)) child isd nm\<rparr>) = (True, s3)" "fs_wf content f L s3"
      "frame content f (touched content f st (owned x)) st s3" "inode_at content f s3 d = x"
      "\<And>j. inode_ok (ext2_mounts st f) j \<Longrightarrow> j \<noteq> d \<Longrightarrow> inode_at content f s3 j = inode_at content f st j"
      "dir_map content f s3 d = (dir_map content f st d)(nm \<mapsto> child)"
      by (rule insert_slot_ok [OF wf d x nm ch sc s1(2) s1(3) [OF sc] refl]) blast+
    then show ?thesis using guard s1(1) sc by (intro added [of x s3]) (simp_all add: ext2_insert_dirent_def)
  next
    case None
    note eq = s1(1) [unfolded None]
    show ?thesis
    proof (cases "first_idx (\<lambda>i. e_block x ! i = 0) 0 12")
      case None
      then have "\<forall>k < 12. e_block x ! k \<noteq> 0" by (simp add: first_idx_None)
      with None show ?thesis using guard eq s1(2) by (intro failed [of x s1]) (simp_all add: ext2_insert_dirent_def)
    next
      case (Some k)
      note kz = first_zero_block [OF Some]
      have wf1: "fs_wf content f L s1" by (rule fs_wf_same [OF wf s1(2)])
      have mnt: "ext2_mounts s1 = ext2_mounts st" using s1(2) by (simp add: same_disk_def)
      have "bbm f s1 = bbm f st" "super_blocks f s1 = super_blocks f st" by (simp_all add: bbm_def super_blocks_def mnt)
      note e1 = inode_at_same [OF s1(2)] same_disk_blk [OF s1(2)] this
      show ?thesis
      proof (rule alloc_block_ok [OF wf1])
        fix s2 assume a: "alloc_block f s1 = (None, s2)" "same_disk content s1 s2"
          "\<And>j. j < bpg f s1 \<Longrightarrow> in_use content f s1 (bbm f s1) j"
        have "\<forall>j < bpg f st. in_use content f st (bbm f st) j" using a(3) e1 by (simp add: in_use_def bpg_def mnt)
        with a(1,2) show ?thesis
          using guard eq Some same_disk_trans [OF s1(2)] by (intro failed [of x s2]) (simp_all add: ext2_insert_dirent_def)
      next
        fix nb s2 assume a: "alloc_block f s1 = (Some nb, s2)" "frame content f (insert (bbm f s1) (super_blocks f s1)) s1 s2"
          "fs_wf content f L s2" "block_good content f s2 nb" "\<not> in_use content f s1 (bbm f s1) (unat nb)"
          "\<And>i. i \<in> L \<Longrightarrow> nb \<notin> owned (inode_at content f s1 i)"
        have fr: "frame content f (insert (bbm f st) (super_blocks f st)) st s2"
          using frame_trans [OF frame_same_disk [OF s1(2), of f "{}"] a(2)] e1 by simp
        have nu: "\<not> in_use content f st (bbm f st) (unat nb)" using a(5) e1 by (simp add: in_use_def)
        let ?sz = "e_size x + block_size (ext2_mounts s2 f)"
        let ?y = "x\<lparr>e_block := (e_block x)[k := nb], e_size := ?sz, e_blocks := (?sz + 511) div 512\<rparr>"
        obtain s5 where "write_dirent f nb d ?y ((zero_io f s2)\<lparr>g_io := put_dirent (g_io (zero_io f s2)) 0
            (ucast (block_size (ext2_mounts (zero_io f s2) f))) child isd nm\<rparr>) = (True, s5)" "fs_wf content f L s5"
          "frame content f (touched content f st (owned x)) st s5" "inode_at content f s5 d = ?y"
          "\<And>j. inode_ok (ext2_mounts st f) j \<Longrightarrow> j \<noteq> d \<Longrightarrow> inode_at content f s5 j = inode_at content f st j"
          "dir_map content f s5 d = (dir_map content f st d)(nm \<mapsto> child)"
          by (rule insert_block_ok [OF wf d x nm ch conjunct1 [OF kz] conjunct2 [OF kz] fr a(3,4) nu _ refl refl])
            (use a(6) e1 in auto)
        then show ?thesis using guard eq Some a(1) by (intro added [of ?y s5]) (simp_all add: ext2_insert_dirent_def Let_def)
      qed
    qed
  qed
qed

section \<open>Removing an entry\<close>

definition names_ok :: "('d \<Rightarrow> u32 \<Rightarrow> u8 list) \<Rightarrow> nat \<Rightarrow> 'd ext2_st \<Rightarrow> u32 \<Rightarrow> bool" where
  "names_ok content f st d \<longleftrightarrow>
     distinct (map fst (dir_list content f st (dir_blocks (inode_at content f st d)))) \<and>
     (\<forall>b \<in> set (dir_blocks (inode_at content f st d)). \<forall>e \<in> set (block_dirents (blk content f st b) (bsize f st) 0).
        dirent_live (snd e) \<longrightarrow> dirent_listed (snd e))"

lemma unlink_eq_lookup: "dirent_live (snd e) \<longrightarrow> dirent_listed (snd e) \<Longrightarrow> unlink_test nm p e = lookup_test nm p e"
  by (auto simp: unlink_test_def lookup_test_def dirent_listed_def)

lemma unlink_test_lookup:
  assumes nok: "names_ok content f st d"
  shows "b \<in> set (dir_blocks (inode_at content f st d)) \<Longrightarrow> e \<in> set (block_dirents (blk content f st b) (bsize f st) 0) \<Longrightarrow>
      unlink_test nm p e = lookup_test nm p e"
    and "b \<in> set (dir_blocks (inode_at content f st d)) \<Longrightarrow> valid_cstr nm \<Longrightarrow>
      block_local (bsize f st) (unlink_test nm) (blk content f st b)"
    and "valid_cstr nm \<Longrightarrow> map_option (\<lambda>(b, off, de). de_inode de)
      (scan_blocks (blk content f st) (bsize f st) (unlink_test nm) (dir_blocks (inode_at content f st d))) = dir_map content f st d nm"
proof -
  let ?x = "inode_at content f st d"
  have lk: "unlink_test nm p e = lookup_test nm p e"
    if "b \<in> set (dir_blocks ?x)" "e \<in> set (block_dirents (blk content f st b) (bsize f st) 0)" for b e p
    by (rule unlink_eq_lookup) (use nok that in \<open>auto simp: names_ok_def\<close>)
  then show "b \<in> set (dir_blocks ?x) \<Longrightarrow> e \<in> set (block_dirents (blk content f st b) (bsize f st) 0) \<Longrightarrow>
      unlink_test nm p e = lookup_test nm p e" .
  show "block_local (bsize f st) (unlink_test nm) (blk content f st b)" if b: "b \<in> set (dir_blocks ?x)" and nm: "valid_cstr nm"
    unfolding block_local_def
  proof (intro allI impI ballI)
    fix q e assume q: "\<forall>i<bsize f st. q i = blk content f st b i" "e \<in> set (block_dirents (blk content f st b) (bsize f st) 0)"
    have "lookup_test nm q e = lookup_test nm (blk content f st b) e"
      using block_local_lookup [OF nm, of "bsize f st" "blk content f st b", unfolded block_local_def] q by blast
    then show "unlink_test nm q e = unlink_test nm (blk content f st b) e" using lk [OF b q(2)] by simp
  qed
  have "scan_blocks (blk content f st) (bsize f st) (unlink_test nm) bl = scan_blocks (blk content f st) (bsize f st) (lookup_test nm) bl"
    if "set bl \<subseteq> set (dir_blocks ?x)" for bl
    using that
  proof (induction bl)
    case (Cons b bl)
    have "List.find (unlink_test nm (blk content f st b)) (block_dirents (blk content f st b) (bsize f st) 0) =
        List.find (lookup_test nm (blk content f st b)) (block_dirents (blk content f st b) (bsize f st) 0)"
      by (rule find_cong [OF refl], rule lk) (use Cons.prems in auto)
    with Cons show ?case by (simp split: option.split)
  qed simp
  then show "valid_cstr nm \<Longrightarrow> map_option (\<lambda>(b, off, de). de_inode de)
      (scan_blocks (blk content f st) (bsize f st) (unlink_test nm) (dir_blocks ?x)) = dir_map content f st d nm"
    by (simp add: scan_lookup dir_map_def)
qed

lemma unlink_ok:
  assumes wf: "fs_wf content f L st" and d: "i_ino dir \<in> L" and nm: "valid_cstr nm" and nok: "names_ok content f st (i_ino dir)"
  obtains (absent) s1 where "dir_map content f st (i_ino dir) nm = None" "ext2_unlink f dir nm st = (False, s1)" "same_disk content st s1"
  | (removed) s1 where "dir_map content f st (i_ino dir) nm \<noteq> None" "ext2_unlink f dir nm st = (True, s1)" "fs_wf content f L s1"
    "frame content f (owned (inode_at content f st (i_ino dir))) st s1"
    "dir_map content f s1 (i_ino dir) = (dir_map content f st (i_ino dir))(nm := None)"
proof -
  let ?d = "i_ino dir" and ?P = "unlink_test nm"
  let ?x = "inode_at content f st ?d"
  note W = fs_wfD [OF wf]
  obtain s1 where r: "read_inode f ?d st = (Some ?x, s1)" "same_disk content st s1" by (rule read_inode_ok [OF W(1,3) W(6) [OF d]])
  have wf1: "fs_wf content f L s1" by (rule fs_wf_same [OF wf r(2)])
  have bs: "bsize f s1 = bsize f st" using r(2) by (simp add: same_disk_def)
  note e1 = same_disk_blk [OF r(2), of f] bs
  let ?sc = "scan_blocks (blk content f st) (bsize f st) ?P (dir_blocks ?x)"
  note lk = unlink_test_lookup(1) [OF nok] and loc = unlink_test_lookup(2) [OF nok _ nm]
    and mp = unlink_test_lookup(3) [OF nok nm]
  obtain s2 where s2: "find_dirent f ?P (take 12 (e_block ?x)) s1 = (?sc, s2)" "same_disk content s1 s2"
    "\<And>b off de i. ?sc = Some (b, off, de) \<Longrightarrow> i < bsize f st \<Longrightarrow> g_io s2 i = blk content f st b i"
    by (rule find_dirent_ok [OF fs_wfD(1) [OF wf1], where bl = "take 12 (e_block ?x)" and P = ?P])
      (use loc in \<open>auto simp: e1 dir_blocks_def\<close>)
  note d2 = same_disk_trans [OF r(2) s2(2)]
  show thesis
  proof (cases ?sc)
    case None
    then show ?thesis using mp r(1) s2(1) d2 by (intro absent [of s2]) (simp_all add: ext2_unlink_def)
  next
    case (Some e)
    obtain b off de where e: "e = (b, off, de)" by (metis prod_cases3)
    note sc = Some [unfolded e]
    have sb: "b \<in> set (dir_blocks ?x)" "(off, de) \<in> set (block_dirents (blk content f st b) (bsize f st) 0)" "?P (blk content f st b) (off, de)"
      using scan_blocks_SomeD [OF sc] by auto
    have bo: "b \<in> owned ?x" using sb(1) dir_blocks_owned [of ?x] by auto
    let ?s = "s2\<lparr>g_io := wr32le (g_io s2) off 0\<rparr>"
    have wf2: "fs_wf content f L ?s" using fs_wf_same [OF wf d2] by simp
    have fr2: "frame content f {} st ?s" using frame_same_disk [OF d2] by simp
    have bk: "blk_ok f ?s b" "b \<notin> meta f ?s" using wf_dir_blocks(1,2) [OF wf d bo] frame_geom(1) [OF fr2] frame_meta(6) [OF fr2] by simp_all
    obtain s3 where w: "write_block f b ?s = (True, s3)" "wrote content f b ?s s3" "frame content f {b} ?s s3" "fs_wf content f L s3"
      by (rule write_data_ok [OF wf2 bk])
    have fr: "frame content f {b} st s3" using frame_trans [OF fr2 w(3)] by simp
    have own: "frame content f (owned ?x) st s3" by (rule frame_mono [OF fr]) (use bo in auto)
    have at: "inode_at content f s3 ?d = ?x"
      by (rule frame_inodes [OF wf fr _ W(6) [OF d]]) (use wf_dir_blocks(2) [OF wf d bo] in \<open>auto simp: meta_def\<close>)
    have q: "blk content f s3 b i = wr32le (blk content f st b) off 0 i" if "i < bsize f st" for i
      using w(2) s2(3) [OF sc that] that frame_geom(2) [OF fr2] by (simp add: wrote_def wr32le_def put_bytes_read)
    have dr: "ext2_dirent_read (blk content f s3 b) (bsize f st) off = Some (de\<lparr>de_inode := 0\<rparr>)"
    proof -
      have "ext2_dirent_read (blk content f s3 b) (bsize f st) off = ext2_dirent_read (wr32le (blk content f st b) off 0) (bsize f st) off"
        by (rule dirent_read_cong) (use q in auto)
      with clear_dirent_read block_dirents_bounds [OF sb(2)] show ?thesis by simp
    qed
    have out: "blk content f s3 b i = blk content f st b i" if "i < off \<or> off + de_rec_len de \<le> i" "i < bsize f st" for i
      using q [OF that(2)] that(1) block_dirents_bounds [OF sb(2)] by (auto simp: wr32le_def put_bytes_read le32_def)
    have listed: "dirent_listed de" "dirent_entry (blk content f st b) (off, de) = (nm, de_inode de)"
      using sb(3) lk [OF sb(1,2)] nm by (auto simp: lookup_test_def dirent_entry_def strcmp_cbuf_zero_iff)
    obtain as cs where ac: "block_list (blk content f st b) (bsize f st) = as @ [(nm, de_inode de)] @ cs"
      "block_list (blk content f s3 b) (bsize f st) = as @ [] @ cs"
      by (rule block_list_update [OF sb(2) out dr]) (use listed in \<open>auto simp: dirent_listed_def dirent_live_def\<close>)
    obtain X Y where XY: "dir_list content f st (dir_blocks ?x) = X @ [(nm, de_inode de)] @ Y" "dir_list content f s3 (dir_blocks ?x) = X @ [] @ Y"
      by (rule dir_list_block_update [OF wf d sb(1) frame_mono [OF fr] ac]) auto
    have fresh: "nm \<notin> fst ` set (X @ Y)" using nok XY(1) by (auto simp: names_ok_def)
    note mi = map_of_insert_mid(1) [OF fresh, of "de_inode de"] map_of_insert_mid(2) [OF fresh]
    have "dir_map content f s3 ?d = (dir_map content f st ?d)(nm := None)"
      unfolding dir_map_def at XY using mi by (auto simp: fun_eq_iff)
    then show ?thesis
      using mp [symmetric] sc r(1) s2(1) w(1,4) own by (intro removed [of s3]) (auto simp: ext2_unlink_def)
  qed
qed

section \<open>Creating a file\<close>

lemma new_inode_facts [simp]:
  "e_block (new_inode m isd u g) = replicate 15 0" "inode_valid (new_inode m isd u g)" "owned (new_inode m isd u g) = {}"
proof -
  show b: "e_block (new_inode m isd u g) = replicate 15 0"
    by (simp add: new_inode_def zero_inode_rec_def inode_of_def rd32le_def map_replicate_const)
  then show "owned (new_inode m isd u g) = {}" by (simp add: owned_def)
  show "inode_valid (new_inode m isd u g)" using inode_of_valid(3) by (simp add: new_inode_def inode_valid_def)
qed

lemma dir_map_frame:
  assumes wf: "fs_wf content f L st" and d: "d \<in> L" and fr: "frame content f (meta f st) st s1"
    and at: "inode_at content f s1 d = inode_at content f st d"
  shows "dir_map content f s1 d = dir_map content f st d"
  unfolding dir_map_def at
  by (subst dir_list_frame [OF fr])
    (use wf_dir_blocks [OF wf d] dir_blocks_owned [of "inode_at content f st d"] in auto)

text \<open>A successful call adds one entry; a failing one leaves every directory as it was.\<close>

lemma insert_keeps_mode: "ext2_insert_dirent f x d child nm isd st = (r, y, s1) \<Longrightarrow> e_mode y = e_mode x"
  by (auto simp: ext2_insert_dirent_def Let_def split: if_splits prod.splits option.splits bool.splits)

text \<open>What can make a create fail: no inode is free, all direct blocks of the directory are allocated, or no block
  is free.\<close>

definition no_room :: "('d \<Rightarrow> u32 \<Rightarrow> u8 list) \<Rightarrow> nat \<Rightarrow> 'd ext2_st \<Rightarrow> u32 \<Rightarrow> bool" where
  "no_room content f st d \<longleftrightarrow>
     (\<forall>j < ipg f st. in_use content f st (ibm f st) j) \<or>
     (\<forall>k < 12. e_block (inode_at content f st d) ! k \<noteq> 0) \<or>
     (\<forall>j < bpg f st. in_use content f st (bbm f st) j)"

lemma create_file_ok:
  assumes wf: "fs_wf content f L st" and d: "i_ino dir \<in> L"
    and nm: "valid_cstr nm" "nm \<noteq> []" "length nm < VFS_NAME_MAX" "dir_map content f st (i_ino dir) nm = None"
  obtains (failed) s1 where "ext2_create f dir nm mode u g out st = (None, s1)" "fs_wf content f L s1"
    "frame content f (meta f st) st s1"
    "\<And>j. j \<in> L \<Longrightarrow> inode_at content f s1 j = inode_at content f st j" "no_room content f st (i_ino dir)"
  | (created) i s1 where "ext2_create f dir nm mode u g out st =
      (Some (out\<lparr>i_ino := i, i_mode := mode, i_size := 0, i_uid := ucast u, i_gid := ucast g\<rparr>), s1)" "i \<notin> L"
    "fs_wf content f (insert i L) s1" "inode_at content f s1 i = new_inode mode False u g"
    "\<And>j. j \<in> L \<Longrightarrow> j \<noteq> i_ino dir \<Longrightarrow> inode_at content f s1 j = inode_at content f st j"
    "dir_map content f s1 (i_ino dir) = (dir_map content f st (i_ino dir))(nm \<mapsto> i)"
    "frame content f (touched content f st (owned (inode_at content f st (i_ino dir)))) st s1"
    "e_mode (inode_at content f s1 (i_ino dir)) = e_mode (inode_at content f st (i_ino dir))"
proof -
  let ?d = "i_ino dir"
  let ?x = "inode_at content f st ?d"
  note W = fs_wfD [OF wf]
  obtain s1 where r: "read_inode f ?d st = (Some ?x, s1)" "same_disk content st s1" by (rule read_inode_ok [OF W(1,3) W(6) [OF d]])
  note W1 = fs_wfD [OF fs_wf_same [OF wf r(2)]]
  obtain s2 where lk: "ext2_lookup f dir nm out s1 = (None, s2)" "same_disk content s1 s2"
    by (rule lookup_ok [OF W1(1,3) W1(6) [OF d] nm(1), of out]) (use nm(4) dir_map_same [OF r(2)] in simp)
  note d2 = same_disk_trans [OF r(2) lk(2)]
  have wf2: "fs_wf content f L s2" by (rule fs_wf_same [OF wf d2])
  have mnt: "ext2_mounts s2 = ext2_mounts st" using d2 by (simp add: same_disk_def)
  have at2: "inode_at content f s2 j = inode_at content f st j" for j by (rule inode_at_same [OF d2])
  have meta2: "meta f s2 = meta f st" by (rule frame_meta(6) [OF frame_same_disk [OF d2]])
  have guard: "\<not> (nm = [] \<or> VFS_NAME_MAX \<le> length nm)" using nm by simp
  have start: "ext2_create f dir nm mode u g out st =
    (case alloc_inode f s2 of (None, s3) \<Rightarrow> (None, s3) | (Some i, s3) \<Rightarrow>
       (case write_inode f i (new_inode mode False u g) s3 of (False, s5) \<Rightarrow> (None, s5) | (True, s5) \<Rightarrow>
         (case ext2_insert_dirent f ?x ?d i nm False s5 of (False, d2, s6) \<Rightarrow> (None, s6) | (True, d2, s6) \<Rightarrow>
           (case write_inode f ?d d2 s6 of (False, s7) \<Rightarrow> (None, s7) | (True, s7) \<Rightarrow>
             (Some (out\<lparr>i_ino := i, i_mode := mode, i_size := e_size (new_inode mode False u g),
               i_uid := e_uid (new_inode mode False u g), i_gid := e_gid (new_inode mode False u g)\<rparr>), s7)))))"
    using guard r(1) lk(1) by (simp add: ext2_create_def ext2_create_like_def alloc_inode_def ibm_def Let_def cong: option.case_cong bool.case_cong)
  show thesis
  proof (rule alloc_inode_ok [OF wf2])
    fix s3 assume a: "alloc_inode f s2 = (None, s3)" "same_disk content s2 s3"
      "\<And>j. j < ipg f s2 \<Longrightarrow> in_use content f s2 (ibm f s2) j"
    have "no_room content f st ?d"
      using a(3) same_disk_blk [OF d2] by (simp add: no_room_def in_use_def ipg_def ibm_def mnt)
    then show thesis
      by (intro failed [of s3]) (use start a same_disk_trans [OF d2 a(2)] fs_wf_same [OF wf] frame_same_disk inode_at_same in auto)
  next
    fix i s3 assume a: "alloc_inode f s2 = (Some i, s3)" "frame content f (insert (ibm f s2) (super_blocks f s2)) s2 s3"
      "fs_wf content f L s3" "ino_live content f s3 i" "i \<notin> L"
    have iok: "inode_ok (ext2_mounts s3 f) i" "i \<noteq> 0" using a(4) by (auto simp: ino_live_def inode_ok_def)
    obtain s5 where w: "write_inode f i (new_inode mode False u g) s3 = (True, s5)" "frame content f (tables f s3) s3 s5"
      "fs_wf content f (insert i L) s5" "inode_at content f s5 i = new_inode mode False u g"
      "\<And>j. inode_ok (ext2_mounts s3 f) j \<Longrightarrow> j \<noteq> i \<Longrightarrow> inode_at content f s5 j = inode_at content f s3 j"
      by (rule write_inode_wf [OF a(3,4), of "new_inode mode False u g"]) (auto simp: inode_good_def)
    let ?F = "insert (ibm f st) (super_blocks f st) \<union> tables f st"
    have fr3: "frame content f (insert (ibm f st) (super_blocks f st)) st s3"
      using frame_trans [OF frame_same_disk [OF d2, of f "{}"] a(2)] mnt by (simp add: ibm_def super_blocks_def)
    have frF: "frame content f ?F st s5" using frame_trans [OF fr3 w(2)] frame_meta(1) [OF fr3] by simp
    have fr5: "frame content f (meta f st) st s5" by (rule frame_mono [OF frF]) (auto simp: meta_def)
    have bits: "in_use content f s5 (bbm f st) j = in_use content f st (bbm f st) j" if "j < bpg f st" for j
      by (rule frame_in_use [OF frF]) (use that geom_wf_facts [OF W(2)] W(2) in \<open>auto simp: geom_wf_def\<close>)
    have at3: "inode_at content f s3 j = inode_at content f st j" if "j \<in> L" for j
      using frame_inodes [OF wf2 a(2) _ fs_wfD(6) [OF wf2 that]] fs_wfD(2) [OF wf2] at2 by (auto simp: geom_wf_def)
    have at5: "inode_at content f s5 j = inode_at content f st j" if "j \<in> L" for j
      using w(5) [of j] at3 [OF that] fs_wfD(6) [OF a(3) that] a(5) that by auto
    have dm5: "dir_map content f s5 ?d = dir_map content f st ?d" by (rule dir_map_frame [OF wf d fr5 at5 [OF d]])
    have d5: "?d \<in> insert i L" "e_block ?x = e_block (inode_at content f s5 ?d)" "inode_valid ?x" using d at5 [OF d] by simp_all
    have nm5: "dir_map content f s5 ?d nm = None" using dm5 nm(4) by simp
    show thesis
    proof (rule insert_ok [OF w(3) d5 nm(1-3) nm5 iok(2), of False])
      fix y s6 assume b: "ext2_insert_dirent f ?x ?d i nm False s5 = (False, y, s6)" "same_disk content s5 s6"
        "(\<forall>k < 12. e_block ?x ! k \<noteq> 0) \<or> (\<forall>j < bpg f s5. in_use content f s5 (bbm f s5) j)"
      have "no_room content f st ?d"
        using b(3) bits frame_meta [OF fr5] frame_super_geom(2) [OF fr5] by (auto simp: no_room_def)
      moreover
      have "fs_wf content f L s6"
        using fs_wf_same [OF w(3) b(2)] by (auto simp: fs_wf_def)
      ultimately show thesis
        by (intro failed [of s6])
          (use start a(1) w(1) b frame_trans_same [OF fr5 frame_same_disk [OF b(2)]] at5 inode_at_same [OF b(2)] in simp_all)
    next
      fix y s6 assume b: "ext2_insert_dirent f ?x ?d i nm False s5 = (True, y, s6)" "fs_wf content f (insert i L) s6"
        "frame content f (touched content f s5 (owned ?x)) s5 s6" "inode_at content f s6 ?d = y"
        "\<And>j. inode_ok (ext2_mounts s5 f) j \<Longrightarrow> j \<noteq> ?d \<Longrightarrow> inode_at content f s6 j = inode_at content f s5 j"
        "dir_map content f s6 ?d = (dir_map content f s5 ?d)(nm \<mapsto> i)"
      have y: "inode_valid y" "inode_good content f s6 y"
        "\<And>j. j \<in> insert i L \<Longrightarrow> j \<noteq> ?d \<Longrightarrow> owned y \<inter> owned (inode_at content f s6 j) = {}"
        using b(4) fs_wfD(8,9) [OF b(2)] d5(1) by (auto simp: b(4) [symmetric])
      obtain s7 where e: "write_inode f ?d y s6 = (True, s7)" "frame content f (tables f s6) s6 s7"
        "fs_wf content f (insert ?d (insert i L)) s7" "inode_at content f s7 ?d = y"
        "\<And>j. inode_ok (ext2_mounts s6 f) j \<Longrightarrow> j \<noteq> ?d \<Longrightarrow> inode_at content f s7 j = inode_at content f s6 j"
        by (rule write_inode_wf [OF b(2) fs_wfD(7) [OF b(2) d5(1)] y]) blast+
      have wf7: "fs_wf content f (insert i L) s7" using e(3) d by (simp add: insert_absorb insert_commute)
      have at7: "inode_at content f s7 j = inode_at content f s5 j" if "j \<in> insert i L" "j \<noteq> ?d" for j
        using e(5) [OF fs_wfD(6) [OF b(2) that(1)] that(2)] b(5) [OF fs_wfD(6) [OF w(3) that(1)] that(2)] by simp
      have id: "i \<noteq> ?d" using a(5) d by auto
      have dm7: "dir_map content f s7 ?d = (dir_map content f st ?d)(nm \<mapsto> i)"
        using dir_map_frame [OF b(2) d5(1) frame_mono [OF e(2)]] e(4) b(4,6) dm5 by (auto simp: meta_def)
      have "frame content f (meta f st \<union> (touched content f s5 (owned ?x) \<union> tables f s6)) st s7"
        by (rule frame_trans [OF fr5 frame_trans [OF b(3) e(2)]])
      then have fr7: "frame content f (touched content f st (owned ?x)) st s7"
        by (rule frame_mono)
          (use bits in \<open>auto simp: touched_def frame_meta [OF fr5] frame_meta(1) [OF b(3)] frame_super_geom(2) [OF fr5] meta_def\<close>)
      have "e_size (new_inode mode False u g) = 0" "e_uid (new_inode mode False u g) = ucast u" "e_gid (new_inode mode False u g) = ucast g"
        by (simp_all add: new_inode_def zero_inode_rec_def inode_of_def rd32le_def)
      then show thesis
        by (intro created [of i s7])
          (use start a(1,5) w(1,4) b(1) e(1,4) insert_keeps_mode [OF b(1)] wf7 at7 at5 id dm7 fr7 in auto)
    qed
  qed
qed

section \<open>A well-formed volume with a root directory\<close>

text \<open>The RAM disk of 1 KiB blocks with the root directory, inode 2, in use and empty.\<close>

definition demo_marks :: "nat \<Rightarrow> u8" where
  "demo_marks i = (if i = 0 then 0xFF else 0)"

definition demo_disk :: ram where
  "demo_disk l i = (if l = 6 \<or> l = 8 then demo_marks i else 0)"

definition demo_vol :: "ram ext2_st" where
  "demo_vol = demo_ext2\<lparr>disk := demo_disk\<rparr>"

lemma demo_vol_geom: "ext2_mounts demo_vol = (\<lambda>_. demo_fs)" "bsize 0 demo_vol = 1024" "bbm 0 demo_vol = 3" "ibm 0 demo_vol = 4"
  "bpg 0 demo_vol = 64" "ipg 0 demo_vol = 16" "super_blocks 0 demo_vol = {1, 2}"
  by (simp_all add: demo_vol_def demo_ext2_def demo_fs_def bbm_def ibm_def bpg_def ipg_def super_blocks_def)

lemma demo_sectors:
  assumes "i < 1024"
  shows "blk ram_content 0 demo_vol b i = demo_disk (b * 2 + word_of_nat (i div 512)) (i mod 512)"
proof -
  have l: "\<And>l. length (ram_content demo_disk l) = 512" by (simp add: ram_content_def)
  have i: "i div 512 < 2" "i mod 512 < 512" using assms by auto
  have "sectors ram_content demo_disk (b * 2) 2 ! (i div 512 * 512 + i mod 512) = ram_content demo_disk (b * 2 + word_of_nat (i div 512)) ! (i mod 512)"
    by (rule sectors_nth [where content = ram_content and d = demo_disk, OF l i])
  then show ?thesis
    using i(2) by (simp add: blk_def fs_cnt_of_def demo_vol_def demo_ext2_def demo_fs_def ram_content_def)
qed

lemma demo_vol_same: "same_geom (ext2_mounts demo_ext2 0) (ext2_mounts demo_vol 0)"
  by (simp add: demo_vol_def)

lemma demo_vol_ok: "fs_ok ram_content 0 demo_vol" "inode_geom 0 demo_vol" "super_geom 0 demo_vol"
  using demo_ext2_ok(1-3) by (simp_all add: demo_vol_def fs_ok_def inode_geom_def super_geom_def)

lemma demo_tables: "tables 0 demo_vol \<subseteq> {5, 6}"
proof
  fix b assume "b \<in> tables 0 demo_vol"
  then obtain i where i: "inode_ok demo_fs i" "b = inode_blk demo_fs i" by (auto simp: tables_def demo_vol_geom)
  have n: "unat i \<le> 16" "0 < unat i" using i(1) by (auto simp: inode_ok_def demo_fs_def word_le_nat_alt unat_gt_0)
  have "unat b = 5 + (unat i - 1) * 128 div 1024"
    using inode_blk_unat(1) [OF demo_vol_ok(1,2), of i] i by (simp add: demo_vol_geom(1)) (simp add: demo_fs_def)
  moreover have "(unat i - 1) * 128 div 1024 \<le> 15 * 128 div 1024" by (rule div_le_mono) (use n in simp)
  ultimately have "unat b = 5 \<or> unat b = 6" by auto
  then show "b \<in> {5, 6}" by (auto simp: word_unat_eq_iff)
qed

lemma demo_in_use: "j < 8 \<Longrightarrow> in_use ram_content 0 demo_vol 3 j" "j < 8 \<Longrightarrow> in_use ram_content 0 demo_vol 4 j"
proof -
  have "bit (0xFF :: u8) k" if "k < 8" for k
  proof -
    have "k \<in> {0, 1, 2, 3, 4, 5, 6, 7}" using that by auto
    then show ?thesis by auto
  qed
  then show "j < 8 \<Longrightarrow> in_use ram_content 0 demo_vol 3 j" "j < 8 \<Longrightarrow> in_use ram_content 0 demo_vol 4 j"
    by (simp_all add: in_use_def demo_sectors demo_disk_def demo_marks_def)
qed

lemma demo_root: "inode_ok (ext2_mounts demo_vol 0) 2" "e_block (inode_at ram_content 0 demo_vol 2) = replicate 15 0"
proof -
  show ok: "inode_ok (ext2_mounts demo_vol 0) 2" by (simp add: demo_vol_geom inode_ok_def demo_fs_def)
  have b: "inode_blk (ext2_mounts demo_vol 0) 2 = 5" "inode_boff (ext2_mounts demo_vol 0) 2 = 128"
    by (simp_all add: demo_vol_geom inode_blk_def inode_boff_def demo_fs_def)
  have "inode_at ram_content 0 demo_vol 2 = inode_of (\<lambda>_. 0) 128"
    unfolding inode_at_def b by (rule inode_of_cong) (simp add: EXT2_INODE_BYTES_def demo_sectors demo_disk_def)
  then show "e_block (inode_at ram_content 0 demo_vol 2) = replicate 15 0"
    by (simp add: inode_of_def rd32le_def map_replicate_const)
qed

lemma demo_vol_wf: "fs_wf ram_content 0 {2} demo_vol"
proof -
  have blk: "blk_ok 0 demo_vol b" if "unat b < 64" for b
    using that by (simp add: blk_ok_def fs_cnt_of_def demo_vol_geom(1)) (simp add: demo_fs_def)
  have g: "geom_wf 0 demo_vol"
    using demo_tables demo_vol_ok(2,3) blk by (auto simp: geom_wf_def demo_vol_geom) (simp_all add: demo_fs_def)
  have m: "unat b < 8" if "b \<in> insert 0 (meta 0 demo_vol)" for b
    using that demo_tables by (auto simp: meta_def demo_vol_geom)
  have "owned (inode_at ram_content 0 demo_vol 2) = {}" by (simp add: owned_def demo_root)
  then show ?thesis
    using demo_vol_ok(1) g m demo_in_use demo_root
    by (auto simp: fs_wf_def inode_good_def ino_live_def demo_vol_geom)
qed

lemma demo_dir_map: "dir_map ram_content 0 demo_vol 2 nm = None"
  by (simp add: dir_map_def dir_blocks_def demo_root dir_list_def)

section \<open>Properties\<close>

lemma create_existing:
  assumes wf: "fs_wf content f L st" and d: "i_ino dir \<in> L" and nm: "valid_cstr nm" "nm \<noteq> []" "length nm < VFS_NAME_MAX"
    and j: "dir_map content f st (i_ino dir) nm = Some j" "live_inode content f st out j \<noteq> None"
  obtains s1 where "ext2_create f dir nm mode u g out st = (None, s1)" "same_disk content st s1"
proof -
  let ?x = "inode_at content f st (i_ino dir)"
  note W = fs_wfD [OF wf]
  obtain s1 where r: "read_inode f (i_ino dir) st = (Some ?x, s1)" "same_disk content st s1" by (rule read_inode_ok [OF W(1,3) W(6) [OF d]])
  note W1 = fs_wfD [OF fs_wf_same [OF wf r(2)]]
  have mnt: "ext2_mounts s1 = ext2_mounts st" using r(2) by (simp add: same_disk_def)
  then have "live_inode content f s1 out j = live_inode content f st out j" by (simp add: live_inode_def inode_at_same [OF r(2)])
  then obtain y s2 where lk: "ext2_lookup f dir nm out s1 = (Some y, s2)" "same_disk content s1 s2"
    using j dir_map_same [OF r(2), of f] by (auto intro: lookup_ok [OF W1(1,3) W1(6) [OF d] nm(1), of out])
  have "ext2_create f dir nm mode u g out st = (None, s2)"
    using nm r(1) lk(1) by (simp add: ext2_create_def ext2_create_like_def)
  then show thesis using same_disk_trans [OF r(2) lk(2)] that by blast
qed

text \<open>
  C3: Creating a file. On a well-formed volume, a name that the directory has, for a file or directory, is refused and the disk is unchanged.
  For a name that the directory does not have, the create returns a fresh inode number, adds exactly
  one entry to the directory, and changes no block that was in use except metadata and the
  blocks of that directory; or it fails, and then no inode is free, all twelve direct blocks of the directory are allocated, or no block is free. A failing create
  leaves the volume well-formed and every inode and directory entry in place and changes only metadata blocks: the new
  inode may stay allocated, since it is not given back when the entry does not fit. (An entry for an inode of no known type is not covered.)
\<close>
theorem ext2_create_spec:
  assumes "fs_wf content f L st" "i_ino dir \<in> L" "valid_cstr nm" "nm \<noteq> []" "length nm < VFS_NAME_MAX"
    and r: "ext2_create f dir nm mode u g out st = (r, s1)"
  shows "case dir_map content f st (i_ino dir) nm of
      Some j \<Rightarrow> live_inode content f st out j \<noteq> None \<longrightarrow> r = None \<and> same_disk content st s1
    | None \<Rightarrow> (case r of
        None \<Rightarrow> no_room content f st (i_ino dir) \<and> fs_wf content f L s1 \<and> frame content f (meta f st) st s1 \<and>
          (\<forall>j \<in> L. inode_at content f s1 j = inode_at content f st j) \<and>
          (\<forall>j \<in> L. dir_map content f s1 j = dir_map content f st j)
      | Some i \<Rightarrow> i_ino i \<notin> L \<and> fs_wf content f (insert (i_ino i) L) s1 \<and> i_mode i = mode \<and>
          inode_at content f s1 (i_ino i) = new_inode mode False u g \<and>
          (\<forall>j \<in> L - {i_ino dir}. inode_at content f s1 j = inode_at content f st j) \<and>
          dir_map content f s1 (i_ino dir) = (dir_map content f st (i_ino dir))(nm \<mapsto> i_ino i) \<and>
          frame content f (touched content f st (owned (inode_at content f st (i_ino dir)))) st s1)"
proof (cases "dir_map content f st (i_ino dir) nm")
  case (Some j)
  show ?thesis
  proof (cases "live_inode content f st out j = None")
    case False
    show ?thesis by (rule create_existing [OF assms(1-5) Some False, of mode u g]) (use r Some in simp)
  qed (simp add: Some)
next
  case None
  show ?thesis
  proof (rule create_file_ok [OF assms(1-5) None, of mode u g out])
    fix s2 assume c: "ext2_create f dir nm mode u g out st = (None, s2)" "fs_wf content f L s2" "frame content f (meta f st) st s2"
      "\<And>j. j \<in> L \<Longrightarrow> inode_at content f s2 j = inode_at content f st j" "no_room content f st (i_ino dir)"
    then have "dir_map content f s2 j = dir_map content f st j" if "j \<in> L" for j
      using dir_map_frame [OF assms(1) that c(3)] that by simp
    with c r None show ?thesis by simp
  next
    fix i s2
    assume "ext2_create f dir nm mode u g out st = (Some (out\<lparr>i_ino := i, i_mode := mode, i_size := 0, i_uid := ucast u, i_gid := ucast g\<rparr>), s2)"
      "i \<notin> L" "fs_wf content f (insert i L) s2" "inode_at content f s2 i = new_inode mode False u g"
      "\<And>j. j \<in> L \<Longrightarrow> j \<noteq> i_ino dir \<Longrightarrow> inode_at content f s2 j = inode_at content f st j"
      "dir_map content f s2 (i_ino dir) = (dir_map content f st (i_ino dir))(nm \<mapsto> i)"
      "frame content f (touched content f st (owned (inode_at content f st (i_ino dir)))) st s2"
    with r None show ?thesis by auto
  qed
qed

lemma demo_room: "\<not> no_room ram_content 0 demo_vol 2"
proof -
  have "\<not> in_use ram_content 0 demo_vol 3 63" "\<not> in_use ram_content 0 demo_vol 4 15"
    by (simp_all add: in_use_def demo_sectors demo_disk_def demo_marks_def)
  moreover have "e_block (inode_at ram_content 0 demo_vol 2) ! 0 = 0" by (simp add: demo_root)
  ultimately show ?thesis
    unfolding no_room_def demo_vol_geom
    by (auto intro: exI [where x = "63 :: nat"] exI [where x = "15 :: nat"] exI [where x = "0 :: nat"])
qed

text \<open>The first file of the volume is created, and a second file of its name is refused.\<close>

theorem ext2_create_spec_witness:
  "\<exists>i s1 s2. ext2_create 0 (zero_inode\<lparr>i_ino := 2\<rparr>) [97] 0x81A4 0 0 zero_inode demo_vol = (Some i, s1) \<and> i_ino i \<noteq> 2 \<and>
     dir_map ram_content 0 s1 2 [97] = Some (i_ino i) \<and>
     ext2_create 0 (zero_inode\<lparr>i_ino := 2\<rparr>) [97] 0x81A4 0 0 zero_inode s1 = (None, s2) \<and> same_disk ram_content s1 s2"
proof -
  let ?d = "zero_inode\<lparr>i_ino := 2\<rparr>"
  have nm: "valid_cstr [97]" "[97] \<noteq> ([] :: cstr)" "length [97 :: u8] < VFS_NAME_MAX" by (simp_all add: VFS_NAME_MAX_def)
  obtain r s1 where r: "ext2_create 0 ?d [97] 0x81A4 0 0 zero_inode demo_vol = (r, s1)" by fastforce
  note c = ext2_create_spec [OF demo_vol_wf _ nm r]
  obtain i where i: "r = Some i" using c demo_room by (auto simp: demo_dir_map split: option.splits)
  have c1: "i_ino i \<noteq> 2" "fs_wf ram_content 0 {i_ino i, 2} s1" "dir_map ram_content 0 s1 2 [97] = Some (i_ino i)"
    "inode_at ram_content 0 s1 (i_ino i) = new_inode 0x81A4 False 0 0"
    using c by (auto simp: demo_dir_map i)
  obtain r2 s2 where r2: "ext2_create 0 ?d [97] 0x81A4 0 0 zero_inode s1 = (r2, s2)" by fastforce
  have "inode_ok (ext2_mounts s1 0) (i_ino i)" by (rule fs_wfD(6) [OF c1(2)]) simp
  moreover have "vfs_mode_from_ext2 (e_mode (new_inode 0x81A4 False 0 0)) \<noteq> 0"
    by (simp add: new_inode_def zero_inode_rec_def inode_of_def vfs_mode_from_ext2_def model_simps)
  ultimately have "live_inode ram_content 0 s1 zero_inode (i_ino i) \<noteq> None" by (simp add: live_inode_def c1(4))
  then have "r2 = None \<and> same_disk ram_content s1 s2"
    using ext2_create_spec [OF c1(2) _ nm r2] c1(3) by simp
  then show ?thesis using r r2 i c1 by blast
qed

text \<open>
  Lookup. On a well-formed volume a lookup fails if the directory has no entry with the name or
  the entry names no file or directory, and otherwise returns the inode the entry names; it
  changes nothing on the disk.
\<close>
theorem ext2_lookup_spec:
  assumes "fs_wf content f L st" "i_ino dir \<in> L" "valid_cstr nm"
  shows "fst (ext2_lookup f dir nm out st) = Option.bind (dir_map content f st (i_ino dir) nm) (live_inode content f st out) \<and>
    same_disk content st (snd (ext2_lookup f dir nm out st))"
  by (rule lookup_ok [OF fs_wfD(1,3) [OF assms(1)] fs_wfD(6) [OF assms(1,2)] assms(3), of out]) simp

theorem ext2_lookup_spec_witness:
  "fst (ext2_lookup 0 (zero_inode\<lparr>i_ino := 2\<rparr>) [97] zero_inode demo_vol) = None"
  using ext2_lookup_spec [OF demo_vol_wf, of "zero_inode\<lparr>i_ino := 2\<rparr>" "[97]" zero_inode] by (simp add: demo_dir_map)

text \<open>
  C24: Unlink. On a well-formed volume whose directory has no two entries of one name, unlink succeeds
  if and only if the directory has the name; then exactly this entry is gone, the volume stays
  well-formed and only blocks of the directory have changed.
\<close>
theorem ext2_unlink_spec:
  assumes "fs_wf content f L st" "i_ino dir \<in> L" "valid_cstr nm" "names_ok content f st (i_ino dir)"
    and r: "ext2_unlink f dir nm st = (ok, s1)"
  shows "(ok \<longleftrightarrow> dir_map content f st (i_ino dir) nm \<noteq> None) \<and> fs_wf content f L s1 \<and>
    dir_map content f s1 (i_ino dir) = (dir_map content f st (i_ino dir))(nm := None) \<and>
    frame content f (owned (inode_at content f st (i_ino dir))) st s1"
proof (rule unlink_ok [OF assms(1-4)])
  fix s2 assume a: "dir_map content f st (i_ino dir) nm = None" "ext2_unlink f dir nm st = (False, s2)" "same_disk content st s2"
  then show ?thesis
    using r fs_wf_same [OF assms(1) a(3)] dir_map_same [OF a(3)] frame_same_disk [OF a(3)] by (auto simp: fun_eq_iff)
next
  fix s2 assume "dir_map content f st (i_ino dir) nm \<noteq> None" "ext2_unlink f dir nm st = (True, s2)" "fs_wf content f L s2"
    "frame content f (owned (inode_at content f st (i_ino dir))) st s2"
    "dir_map content f s2 (i_ino dir) = (dir_map content f st (i_ino dir))(nm := None)"
  then show ?thesis using r by auto
qed

theorem ext2_unlink_spec_witness:
  "\<not> fst (ext2_unlink 0 (zero_inode\<lparr>i_ino := 2\<rparr>) [97] demo_vol) \<and> fs_wf ram_content 0 {2} (snd (ext2_unlink 0 (zero_inode\<lparr>i_ino := 2\<rparr>) [97] demo_vol))"
proof -
  obtain ok s1 where r: "ext2_unlink 0 (zero_inode\<lparr>i_ino := 2\<rparr>) [97] demo_vol = (ok, s1)" by fastforce
  have "names_ok ram_content 0 demo_vol 2" by (simp add: names_ok_def dir_blocks_def demo_root dir_list_def)
  then show ?thesis using ext2_unlink_spec [OF demo_vol_wf _ _ _ r] demo_dir_map [of "[97]"] by (simp add: r)
qed

end
