(* ===== verification/Ext2File.thy ===== *)
theory Ext2File
  imports Ext2Ops
begin

text \<open>
  File data of ext2 on a well-formed volume: a file as a function from positions to bytes, the
  write loop as an update of this function, and reading back what was written.
\<close>

section \<open>The bytes of a file\<close>

text \<open>The byte at a position of the direct blocks; a hole reads as zero.\<close>

definition fbyte :: "('d \<Rightarrow> u32 \<Rightarrow> u8 list) \<Rightarrow> nat \<Rightarrow> 'd ext2_st \<Rightarrow> ext2_inode \<Rightarrow> nat \<Rightarrow> u8" where
  "fbyte content f st x n =
     (let b = e_block x ! (n div bsize f st) in if b = 0 then 0 else blk content f st b (n mod bsize f st))"

text \<open>The state of a write to inode \<open>i\<close>: the inode in memory owns its blocks, the disk is well-formed.\<close>

definition wjob :: "('d \<Rightarrow> u32 \<Rightarrow> u8 list) \<Rightarrow> nat \<Rightarrow> u32 set \<Rightarrow> u32 \<Rightarrow> ext2_inode \<Rightarrow> 'd ext2_st \<Rightarrow> bool" where
  "wjob content f L i x st \<longleftrightarrow> fs_wf content f L st \<and> i \<in> L \<and> inode_valid x \<and> inode_good content f st x \<and>
     (\<forall>j \<in> L. j \<noteq> i \<longrightarrow> owned x \<inter> owned (inode_at content f st j) = {})"

definition wset :: "nat \<Rightarrow> 'd ext2_st \<Rightarrow> ext2_inode \<Rightarrow> u32 set" where
  "wset f st x = insert (bbm f st) (super_blocks f st) \<union> owned x"

lemma wjobD:
  assumes "wjob content f L i x st"
  shows "fs_wf content f L st" "i \<in> L" "inode_valid x" "inode_good content f st x" "length (e_block x) = 15"
    "\<And>j. j \<in> L \<Longrightarrow> j \<noteq> i \<Longrightarrow> owned x \<inter> owned (inode_at content f st j) = {}"
    "\<And>b. b \<in> owned x \<Longrightarrow> block_good content f st b" "\<And>b. b \<in> owned x \<Longrightarrow> blk_ok f st b" "\<And>b. b \<in> owned x \<Longrightarrow> b \<notin> meta f st"
proof -
  have wf: "fs_wf content f L st" and g: "inode_good content f st x" using assms by (simp_all add: wjob_def)
  show bg: "block_good content f st b" if "b \<in> owned x" for b using g that by (simp add: inode_good_def)
  show "blk_ok f st b" if "b \<in> owned x" for b
    using bg [OF that] geom_wf_facts(8) [OF fs_wfD(2) [OF wf], of b] by (simp add: block_good_def)
  show "b \<notin> meta f st" if "b \<in> owned x" for b using bg [OF that] by (simp add: block_good_def)
qed (use assms in \<open>auto simp: wjob_def inode_valid_def\<close>)

lemma block_good_frame:
  assumes wf: "fs_wf content f L st" and fr: "frame content f S st s1" and S: "bbm f st \<notin> S"
  shows "block_good content f s1 b = block_good content f st b"
proof (cases "unat b < bpg f st")
  case True
  have "in_use content f s1 (bbm f st) (unat b) = in_use content f st (bbm f st) (unat b)"
    by (rule frame_in_use [OF fr S]) (use geom_wf_facts(1,6) [OF fs_wfD(2) [OF wf]] True in auto)
  then show ?thesis by (simp add: block_good_def frame_meta [OF fr])
qed (simp add: block_good_def frame_meta [OF fr])

text \<open>Writing blocks the inode owns keeps the job.\<close>

lemma wjob_frame:
  assumes j: "wjob content f L i x st" and fr: "frame content f S st s1" and S: "S \<subseteq> owned x"
  shows "wjob content f L i x s1"
proof -
  note J = wjobD [OF j]
  have nm: "S \<inter> (tables f st \<union> {bbm f st, ibm f st}) = {}" using S J(9) by (auto simp: meta_def)
  have wf: "fs_wf content f L s1" by (rule fs_wf_frame [OF J(1) fr nm])
  have at: "inode_at content f s1 k = inode_at content f st k" if "k \<in> L" for k
    by (rule frame_inodes [OF J(1) fr _ fs_wfD(6) [OF J(1) that]]) (use nm in auto)
  have "inode_good content f s1 x"
    using J(4) block_good_frame [OF J(1) fr] nm by (simp add: inode_good_def)
  then show ?thesis using wf J(2,3,6) at by (simp add: wjob_def)
qed

lemma wjob_same: "wjob content f L i x st \<Longrightarrow> same_disk content st s1 \<Longrightarrow> wjob content f L i x s1"
  by (rule wjob_frame [where S = "{}"]) (auto intro: frame_same_disk)

lemma fbyte_frame:
  assumes j: "wjob content f L i x st" and fr: "frame content f S st s1" and "S \<inter> owned x = {}" and n: "n < 12 * bsize f st"
  shows "fbyte content f s1 x n = fbyte content f st x n"
proof -
  have k: "n div bsize f st < 12" using n by (simp add: less_mult_imp_div_less mult.commute)
  have "0 < bsize f st" using fs_ok_bsize [OF fs_wfD(1) [OF wjobD(1) [OF j]]] by auto
  then have m: "n mod bsize f st < bsize f st" by simp
  show ?thesis
  proof (cases "e_block x ! (n div bsize f st) = 0")
    case False
    then have o: "e_block x ! (n div bsize f st) \<in> owned x" using k wjobD(5) [OF j] by (auto simp: owned_def)
    then have "blk content f s1 (e_block x ! (n div bsize f st)) (n mod bsize f st) = blk content f st (e_block x ! (n div bsize f st)) (n mod bsize f st)"
      using assms(3) wjobD(8) [OF j o] by (intro frame_blk [OF fr _ _ m]) auto
    then show ?thesis by (simp add: fbyte_def Let_def frame_geom(2) [OF fr])
  qed (simp add: fbyte_def Let_def frame_geom(2) [OF fr])
qed

definition all_used :: "('d \<Rightarrow> u32 \<Rightarrow> u8 list) \<Rightarrow> nat \<Rightarrow> 'd ext2_st \<Rightarrow> bool" where
  "all_used content f st \<longleftrightarrow> (\<forall>j < bpg f st. in_use content f st (bbm f st) j)"

lemma all_used_same: "same_disk content st s1 \<Longrightarrow> all_used content f s1 = all_used content f st"
  by (simp add: all_used_def in_use_def same_disk_blk) (simp add: same_disk_def bpg_def bbm_def)

lemma ensure_ok:
  assumes j: "wjob content f L i x st" and k: "k < 12"
  obtains (full) s1 where "ensure_block f k x st = (False, x, s1)" "same_disk content st s1" "all_used content f st"
  | (got) y s1 where "ensure_block f k x st = (True, y, s1)" "wjob content f L i y s1" "e_block y ! k \<noteq> 0"
    "frame content f (wset f st y) st s1" "\<And>n. n < 12 * bsize f st \<Longrightarrow> fbyte content f s1 y n = fbyte content f st x n"
    "owned x \<subseteq> owned y" "y = x\<lparr>e_block := e_block y\<rparr>"
    "\<And>m. e_block x ! m \<noteq> 0 \<Longrightarrow> e_block y ! m = e_block x ! m"
proof (cases "e_block x ! k = 0")
  case False
  then show ?thesis using j by (intro got [of x st]) (simp_all add: ensure_block_def)
next
  case True
  note J = wjobD [OF j]
  show ?thesis
  proof (rule alloc_block_ok [OF J(1)])
    fix s1 assume "alloc_block f st = (None, s1)" "same_disk content st s1" "\<And>j. j < bpg f st \<Longrightarrow> in_use content f st (bbm f st) j"
    then show thesis using True by (intro full [of s1]) (simp_all add: ensure_block_def all_used_def)
  next
    fix nb s1 assume a: "alloc_block f st = (Some nb, s1)" "frame content f (insert (bbm f st) (super_blocks f st)) st s1"
      "fs_wf content f L s1" "block_good content f s1 nb" "\<not> in_use content f st (bbm f st) (unat nb)"
      "\<And>i. i \<in> L \<Longrightarrow> nb \<notin> owned (inode_at content f st i)" "\<And>b. block_good content f st b \<Longrightarrow> block_good content f s1 b"
    let ?y = "x\<lparr>e_block := (e_block x)[k := nb]\<rparr>"
    have nb: "nb \<noteq> 0" "nb \<notin> owned x" using a(4,5) J(7) [of nb] by (auto simp: block_good_def)
    note yf = insert_block_facts [OF k J(5) True nb(1), of ?y, simplified]
    have yo: "owned ?y = insert nb (owned x)" and yd: "distinct (filter (\<lambda>b. b \<noteq> 0) (e_block ?y))"
      using yf(1,2) nb(2) J(4) by (simp_all add: inode_good_def)
    have at1: "inode_at content f s1 l = inode_at content f st l" if "l \<in> L" for l
      by (rule frame_inodes [OF J(1) a(2) _ fs_wfD(6) [OF J(1) that]]) (use fs_wfD(2) [OF J(1)] in \<open>auto simp: geom_wf_def\<close>)
    have j1: "wjob content f L i ?y s1"
      using J(2,3,6) a(3,4,6,7) J(7) yo yd at1 by (auto simp: wjob_def inode_good_def inode_valid_def)
    let ?z = "zero_io f s1"
    have jz: "wjob content f L i ?y ?z" by (rule wjob_frame [OF j1, where S = "{}"]) simp_all
    have nbz: "blk_ok f ?z nb" "nb \<notin> meta f ?z" using wjobD(8,9) [OF jz, of nb] yo by simp_all
    obtain s2 where w: "write_block f nb ?z = (True, s2)" "wrote content f nb ?z s2" "frame content f {nb} ?z s2"
      by (rule write_data_ok [OF wjobD(1) [OF jz] nbz])
    have j2: "wjob content f L i ?y s2" by (rule wjob_frame [OF jz w(3)]) (simp add: yo)
    have fr: "frame content f (wset f st ?y) st s2"
      by (rule frame_mono [OF frame_trans [OF a(2) w(3) [simplified]]]) (auto simp: wset_def yo)
    have bs: "bsize f s2 = bsize f st" by (rule frame_geom(2) [OF fr])
    have fb: "fbyte content f s2 ?y n = fbyte content f st x n" if n: "n < 12 * bsize f st" for n
    proof (cases "n div bsize f st = k")
      case True
      have "0 < bsize f st" using fs_ok_bsize [OF fs_wfD(1) [OF J(1)]] by auto
      then have "n mod bsize f st < bsize f st" by simp
      then have "blk content f s2 nb (n mod bsize f st) = 0"
        using w(2) frame_geom(2) [OF a(2)] by (simp add: wrote_def zero_io_def put_bytes_read)
      then show ?thesis using True \<open>e_block x ! k = 0\<close> k J(5) by (simp add: fbyte_def bs)
    next
      case False
      have frx: "frame content f (insert nb (insert (bbm f st) (super_blocks f st))) st s2"
        by (rule frame_mono [OF frame_trans [OF a(2) w(3) [simplified]]]) auto
      have "fbyte content f s2 x n = fbyte content f st x n"
        by (rule fbyte_frame [OF j frx _ n]) (use nb(2) J(9) in \<open>auto simp: meta_def\<close>)
      then show ?thesis using False by (simp add: fbyte_def bs)
    qed
    show thesis
      by (rule got [of ?y s2]) (use True a(1) w(1) j2 nb(1) fr fb yo k J(5) in \<open>auto simp: ensure_block_def nth_list_update\<close>)
  qed
qed

lemma distinct_filter_nth:
  assumes "distinct (filter P xs)" "i < length xs" "j < length xs" "i \<noteq> j" "P (xs ! i)"
  shows "xs ! i \<noteq> xs ! j"
  using assms
proof (induction xs arbitrary: i j)
  case (Cons a xs)
  then show ?case by (cases i; cases j) (auto split: if_splits)
qed simp

lemma div_mod_pos: "p div (b :: nat) = k \<Longrightarrow> p = k * b + p mod b"
  using div_mult_mod_eq [of p b] by simp

text \<open>Writing bytes into one block of a file changes exactly these positions.\<close>

lemma fbyte_write:
  assumes j: "wjob content f L i x st" and b: "b = e_block x ! (pos div bsize f st)" "b \<noteq> 0" and pos: "pos < 12 * bsize f st"
    and n: "pos mod bsize f st + length bs \<le> bsize f st"
    and w: "\<And>k. k < bsize f st \<Longrightarrow> blk content f s1 b k = put_bytes (blk content f st b) (pos mod bsize f st) bs k"
    and fr: "frame content f {b} st s1" and p: "p < 12 * bsize f st"
  shows "fbyte content f s1 x p = (if pos \<le> p \<and> p < pos + length bs then bs ! (p - pos) else fbyte content f st x p)"
proof -
  let ?B = "bsize f st"
  have B: "0 < ?B" using fs_ok_bsize [OF fs_wfD(1) [OF wjobD(1) [OF j]]] by auto
  have bs1: "bsize f s1 = ?B" by (rule frame_geom(2) [OF fr])
  have pos2: "pos = pos div ?B * ?B + pos mod ?B" by simp
  show ?thesis
  proof (cases "p div ?B = pos div ?B")
    case True
    have p2: "p = pos div ?B * ?B + p mod ?B" using True div_mult_mod_eq [of p ?B] by simp
    have m: "p mod ?B < ?B" using B by simp
    have c: "pos \<le> p \<longleftrightarrow> pos mod ?B \<le> p mod ?B" "p < pos + length bs \<longleftrightarrow> p mod ?B < pos mod ?B + length bs" "p - pos = p mod ?B - pos mod ?B"
      using p2 pos2 by linarith+
    show ?thesis using w [OF m] True b c by (auto simp: fbyte_def Let_def bs1 put_bytes_read)
  next
    case False
    have no: "\<not> (pos \<le> p \<and> p < pos + length bs)"
    proof
      assume a: "pos \<le> p \<and> p < pos + length bs"
      have "p < pos div ?B * ?B + ?B" using a n pos2 by linarith
      then have up: "p < (pos div ?B + 1) * ?B" by (simp add: algebra_simps)
      have lo: "pos div ?B * ?B \<le> p" using a pos2 by linarith
      have "p div ?B = pos div ?B" using lo up B by (metis Suc_eq_plus1 div_nat_eqI mult.commute)
      with False show False by simp
    qed
    have k: "p div ?B < 12" "pos div ?B < 12" using p pos by (simp_all add: less_mult_imp_div_less mult.commute)
    have m: "p mod ?B < ?B" using B by simp
    have d: "e_block x ! (p div ?B) \<noteq> b"
      using distinct_filter_nth [of "\<lambda>b. b \<noteq> 0" "e_block x" "pos div ?B" "p div ?B"] wjobD(4,5) [OF j] k False b
      by (auto simp: inode_good_def)
    show ?thesis
    proof (cases "e_block x ! (p div ?B) = 0")
      case nz: False
      then have "e_block x ! (p div ?B) \<in> owned x" using k wjobD(5) [OF j] by (auto simp: owned_def)
      then have "blk content f s1 (e_block x ! (p div ?B)) (p mod ?B) = blk content f st (e_block x ! (p div ?B)) (p mod ?B)"
        by (intro frame_blk [OF fr wjobD(8) [OF j] _ m]) (use d in auto)
      then show ?thesis using no by (auto simp: fbyte_def Let_def bs1)
    qed (use no in \<open>auto simp: fbyte_def Let_def bs1\<close>)
  qed
qed

lemma io_len_block:
  assumes "dn < len" "bs \<noteq> 0"
  shows "unat (pos mod bs) + unat (io_len bs pos len dn) \<le> unat bs"
proof -
  have m: "pos mod bs < bs" using assms(2) by (simp add: word_less_nat_alt unat_mod unat_gt_0)
  then have "unat (bs - pos mod bs) = unat bs - unat (pos mod bs)" by (simp add: unat_minus_no_wrap)
  with m show ?thesis by (auto simp: io_len_def word_less_nat_alt)
qed

definition write_post :: "('d \<Rightarrow> u32 \<Rightarrow> u8 list) \<Rightarrow> nat \<Rightarrow> u32 set \<Rightarrow> u32 \<Rightarrow> nat \<Rightarrow> u8 list \<Rightarrow> nat \<Rightarrow> ext2_inode \<Rightarrow> 'd ext2_st \<Rightarrow>
    ext2_inode \<times> u32 \<times> 'd ext2_st \<Rightarrow> bool" where
  "write_post content f L i off src dn x st r \<longleftrightarrow>
     (case r of (y, dn', s1) \<Rightarrow>
        wjob content f L i y s1 \<and> frame content f (wset f st y) st s1 \<and> owned x \<subseteq> owned y \<and> y = x\<lparr>e_block := e_block y\<rparr> \<and>
        dn \<le> unat dn' \<and> unat dn' \<le> length src \<and> (dn < unat dn' \<longrightarrow> off + unat dn' \<le> 12 * bsize f st) \<and>
        (\<forall>p < 12 * bsize f st. fbyte content f s1 y p =
           (if off + dn \<le> p \<and> p < off + unat dn' then src ! (p - off) else fbyte content f st x p)) \<and>
        (\<forall>p. off + dn \<le> p \<and> p < off + unat dn' \<longrightarrow> e_block y ! (p div bsize f st) \<noteq> 0) \<and>
        (\<forall>k < 12. e_block x ! k \<noteq> 0 \<longrightarrow> e_block y ! k = e_block x ! k) \<and>
        (unat dn' < length src \<longrightarrow> 12 * bsize f st \<le> off + unat dn' \<or> all_used content f s1))"

lemma write_post_stop:
  assumes "wjob content f L i x st" "same_disk content st s1" "unat dn \<le> length src"
    "unat dn < length src \<Longrightarrow> 12 * bsize f st \<le> off + unat dn \<or> all_used content f st"
  shows "write_post content f L i off src (unat dn) x st (x, dn, s1)"
proof -
  have fr: "frame content f {} st s1" by (rule frame_same_disk [OF assms(2)])
  have fb: "fbyte content f s1 x p = fbyte content f st x p" if "p < 12 * bsize f st" for p
    by (rule fbyte_frame [OF assms(1) fr _ that]) simp
  show ?thesis
    using wjob_same [OF assms(1,2)] frame_mono [OF fr] fb assms(3,4) by (auto simp: write_post_def all_used_same [OF assms(2)])
qed

lemma write_post_step:
  assumes j: "wjob content f L i x st" and e: "wjob content f L i y s1" "frame content f (wset f st y) st s1"
      "\<And>p. p < 12 * bsize f st \<Longrightarrow> fbyte content f s1 y p = fbyte content f st x p" "owned x \<subseteq> owned y"
      "y = x\<lparr>e_block := e_block y\<rparr>" "\<And>k. k < 12 \<Longrightarrow> e_block x ! k \<noteq> 0 \<Longrightarrow> e_block y ! k = e_block x ! k"
    and w: "wjob content f L i y s4" "frame content f {e_block y ! ((off + dn) div bsize f st)} s1 s4"
      "e_block y ! ((off + dn) div bsize f st) \<noteq> 0" "(off + dn) div bsize f st < 12"
    and b: "\<And>p. p < 12 * bsize f st \<Longrightarrow> fbyte content f s4 y p =
      (if off + dn \<le> p \<and> p < off + dn + n then src ! (p - off) else fbyte content f s1 y p)"
    and n: "(off + dn) mod bsize f st + n \<le> bsize f st"
    and r: "write_post content f L i off src (dn + n) y s4 r" and c: "r = (z, dn', s')"
  shows "write_post content f L i off src dn x st r"
proof -
  note fr14 = frame_trans [OF e(2) w(2)]
  have bs: "bsize f s4 = bsize f st" by (rule frame_geom(2) [OF fr14])
  have ws: "wset f s4 z = wset f st z" by (simp add: wset_def frame_meta(2) [OF fr14] frame_super_geom(2) [OF fr14])
  have yo: "e_block y ! ((off + dn) div bsize f st) \<in> owned y" using w(3,4) wjobD(5) [OF e(1)] by (auto simp: owned_def)
  have R: "wjob content f L i z s'" "frame content f (wset f st z) s4 s'" "owned y \<subseteq> owned z" "z = y\<lparr>e_block := e_block z\<rparr>"
    "dn + n \<le> unat dn'" "unat dn' \<le> length src" "dn + n < unat dn' \<Longrightarrow> off + unat dn' \<le> 12 * bsize f st"
    "\<And>p. p < 12 * bsize f st \<Longrightarrow> fbyte content f s' z p =
       (if off + (dn + n) \<le> p \<and> p < off + unat dn' then src ! (p - off) else fbyte content f s4 y p)"
    "\<And>p. off + (dn + n) \<le> p \<Longrightarrow> p < off + unat dn' \<Longrightarrow> e_block z ! (p div bsize f st) \<noteq> 0"
    "\<And>k. k < 12 \<Longrightarrow> e_block y ! k \<noteq> 0 \<Longrightarrow> e_block z ! k = e_block y ! k"
    "unat dn' < length src \<Longrightarrow> 12 * bsize f st \<le> off + unat dn' \<or> all_used content f s'"
    using r unfolding write_post_def c by (auto simp: bs ws)
  have fr: "frame content f (wset f st z) st s'"
    by (rule frame_mono [OF frame_trans [OF fr14 R(2)]]) (use yo R(3) in \<open>auto simp: wset_def\<close>)
  have pd: "off + dn = (off + dn) div bsize f st * bsize f st + (off + dn) mod bsize f st" by simp
  have blk: "p div bsize f st = (off + dn) div bsize f st" if "off + dn \<le> p" "p < off + dn + n" for p
  proof -
    have "p < (off + dn) div bsize f st * bsize f st + bsize f st" "(off + dn) div bsize f st * bsize f st \<le> p"
      using that n pd by linarith+
    then show ?thesis by (metis add.commute div_nat_eqI mult.commute mult_Suc)
  qed
  have end12: "off + (dn + n) \<le> 12 * bsize f st"
  proof -
    have "(off + dn) div bsize f st * bsize f st + bsize f st \<le> 12 * bsize f st"
      using mult_le_mono1 [of "Suc ((off + dn) div bsize f st)" 12 "bsize f st"] w(4) by simp
    then show ?thesis using n pd by linarith
  qed
  have all: "fbyte content f s' z p = (if off + dn \<le> p \<and> p < off + unat dn' then src ! (p - off) else fbyte content f st x p)"
    if "p < 12 * bsize f st" for p
    using R(5,8) b e(3) that by auto
  have nz: "e_block z ! (p div bsize f st) \<noteq> 0" if "off + dn \<le> p" "p < off + unat dn'" for p
  proof (cases "off + (dn + n) \<le> p")
    case False
    then have "p div bsize f st = (off + dn) div bsize f st" using that(1) by (intro blk) simp_all
    then show ?thesis using R(10) [OF w(4) w(3)] w(3) by simp
  qed (use R(9) that in blast)
  have old: "e_block z ! k = e_block x ! k" if "k < 12" "e_block x ! k \<noteq> 0" for k using R(10) [of k] e(6) [OF that] that by simp
  have "y\<lparr>e_block := e_block z\<rparr> = x\<lparr>e_block := e_block z\<rparr>" by (subst e(5)) simp
  note upd = trans [OF R(4) this]
  show ?thesis
    unfolding write_post_def c prod.case
  proof (intro conjI allI impI)
    show "off + unat dn' \<le> 12 * bsize f st" if "dn < unat dn'"
      using R(5,7) end12 by (cases "dn + n < unat dn'") auto
    show "e_block z ! (p div bsize f st) \<noteq> 0" if "off + dn \<le> p \<and> p < off + unat dn'" for p using nz that by blast
    show "12 * bsize f st \<le> off + unat dn' \<or> all_used content f s'" if "unat dn' < length src" using R(11) that by blast
  qed (rule R(1) fr upd R(6) all old subset_trans [OF e(4) R(3)] add_leD1 [OF R(5)], assumption?)+
qed

section \<open>The write loop\<close>

lemma write_loop_ok:
  assumes "wjob content f L i x st" "unat dn \<le> length src" "unat len = length src" "bs = block_size (ext2_mounts st f)"
    "unat off + length src < 2 ^ 32"
  shows "write_post content f L i (unat off) src (unat dn) x st (ext2_write_loop f bs off src len dn x st)"
  using assms
proof (induction f bs off src len dn x st rule: ext2_write_loop.induct)
  case (1 f bs off src len dn x st)
  note J = "1.prems"(1) and D = "1.prems"(2,3) and B = "1.prems"(4)
  note stop = write_post_stop [OF J]
  have bs0: "bs \<noteq> 0" "unat bs = bsize f st" using fs_ok_bsize [OF fs_wfD(1) [OF wjobD(1) [OF J]]] B by auto
  have B0: "0 < bsize f st" using fs_ok_bsize [OF fs_wfD(1) [OF wjobD(1) [OF J]]] by auto
  show ?case
  proof (cases "dn < len")
    case False
    then have "\<not> unat dn < length src" using D by (simp add: word_less_nat_alt)
    then show ?thesis using False stop [of st dn src "unat off"] D by (simp add: ext2_write_loop.simps [of f bs off src len dn])
  next
    case True
    let ?pos = "off + dn" and ?bi = "(off + dn) div bs"
    have dl: "unat dn < length src" using True D by (simp add: word_less_nat_alt)
    have up: "unat ?pos = unat off + unat dn" using dl "1.prems"(5) by (intro unat_plus_no_wrap) simp
    have ub: "unat ?bi = (unat off + unat dn) div bsize f st" "unat (?pos mod bs) = (unat off + unat dn) mod bsize f st"
      by (simp_all add: unat_div unat_mod up bs0)
    show ?thesis
    proof (cases "12 \<le> ?bi")
      case big: True
      have "12 * bsize f st \<le> unat off + unat dn"
        using big ub(1) B0 less_eq_div_iff_mult_less_eq [OF B0] by (simp add: word_le_nat_alt)
      then show ?thesis using big True bs0 stop [of st dn src "unat off"] D
        by (simp add: ext2_write_loop.simps [of f bs off src len dn] Let_def)
    next
      case False
      have bi: "unat ?bi < 12" using False by (simp add: word_le_nat_alt)
      show ?thesis
      proof (rule ensure_ok [OF J bi])
        fix s1 assume "ensure_block f (unat ?bi) x st = (False, x, s1)" "same_disk content st s1" "all_used content f st"
        then show ?thesis using True bs0 False stop [of s1 dn src "unat off"] D
          by (simp add: ext2_write_loop.simps [of f bs off src len dn] Let_def)
      next
        fix y s1 assume e: "ensure_block f (unat ?bi) x st = (True, y, s1)" "wjob content f L i y s1" "e_block y ! unat ?bi \<noteq> 0"
          "frame content f (wset f st y) st s1" "\<And>n. n < 12 * bsize f st \<Longrightarrow> fbyte content f s1 y n = fbyte content f st x n"
          "owned x \<subseteq> owned y" "y = x\<lparr>e_block := e_block y\<rparr>" "\<And>m. e_block x ! m \<noteq> 0 \<Longrightarrow> e_block y ! m = e_block x ! m"
        let ?b = "e_block y ! unat ?bi" and ?n = "io_len bs ?pos len dn"
        obtain s2 where r: "read_block f ?b s1 = (True, s2)" "same_disk content s1 s2"
          "\<And>k. k < bsize f s1 \<Longrightarrow> g_io s2 k = blk content f s1 ?b k"
          by (rule read_block_ok [OF fs_wfD(1) [OF wjobD(1) [OF e(2)]]]) blast
        have b1: "bsize f s1 = bsize f st" by (rule frame_geom(2) [OF e(4)])
        have j2: "wjob content f L i y s2" by (rule wjob_same [OF e(2) r(2)])
        let ?src = "take (unat ?n) (drop (unat dn) src)"
        let ?s3 = "s2\<lparr>g_io := put_bytes (g_io s2) (unat (?pos mod bs)) ?src\<rparr>"
        have j3: "wjob content f L i y ?s3" by (rule wjob_frame [OF j2, where S = "{}"]) simp_all
        have bo: "?b \<in> owned y" using e(3) bi wjobD(5) [OF e(2)] by (auto simp: owned_def)
        obtain s4 where w: "write_block f ?b ?s3 = (True, s4)" "wrote content f ?b ?s3 s4" "frame content f {?b} ?s3 s4"
          by (rule write_data_ok [OF wjobD(1) [OF j3] wjobD(8) [OF j3 bo] wjobD(9) [OF j3 bo]])
        have j4: "wjob content f L i y s4" by (rule wjob_frame [OF j3 w(3)]) (use bo in simp)
        have fr24: "frame content f {?b} s1 s4"
          using frame_trans [OF frame_same_disk [OF r(2), of f "{}"] w(3) [simplified]] by simp
        have n: "unat ?n \<le> length src - unat dn" "0 < unat ?n" "unat (dn + ?n) = unat dn + unat ?n"
          using io_len_pos [OF True bs0(1), of ?pos] D by simp_all
        have len: "length ?src = unat ?n" using n(1) by simp
        have fit: "(unat off + unat dn) mod bsize f st + unat ?n \<le> bsize f st"
          using io_len_block [OF True bs0(1), of ?pos] ub(2) bs0(2) by simp
        have nxt: "fbyte content f s4 y p = (if unat off + unat dn \<le> p \<and> p < unat off + unat dn + unat ?n then src ! (p - unat off)
            else fbyte content f s1 y p)" if "p < 12 * bsize f st" for p
        proof -
          have "fbyte content f s4 y p = (if unat off + unat dn \<le> p \<and> p < unat off + unat dn + length ?src then ?src ! (p - (unat off + unat dn))
            else fbyte content f s1 y p)"
          proof (rule fbyte_write [OF e(2) _ _ _ _ _ fr24])
            show "?b = e_block y ! ((unat off + unat dn) div bsize f s1)" by (simp add: ub b1)
            show "unat off + unat dn < 12 * bsize f s1" using bi ub(1) b1 div_less_iff_less_mult [OF B0] by simp
            show "blk content f s4 ?b k = put_bytes (blk content f s1 ?b) ((unat off + unat dn) mod bsize f s1) ?src k" if "k < bsize f s1" for k
              using w(2) r(2,3) that ub(2) b1 by (simp add: wrote_def put_bytes_read same_disk_def)
          qed (use e(3) fit len b1 that in simp_all)
          then show ?thesis using len n(1) by (auto simp: algebra_simps)
        qed
        have mb: "block_size (ext2_mounts s4 f) = bs" using B frame_trans [OF e(4) fr24] by (simp add: frame_def same_geom_def)
        have IH: "write_post content f L i (unat off) src (unat dn + unat ?n) y s4 (ext2_write_loop f bs off src len (dn + ?n) y s4)"
          using "1.IH" [OF _ refl refl False e(1) [symmetric] refl refl r(1) [symmetric] refl refl refl w(1) [symmetric] refl j4 _ D(2) mb [symmetric] "1.prems"(5)]
            True bs0(1) n D(1) dl by simp
        obtain z dn' s' where c: "ext2_write_loop f bs off src len (dn + ?n) y s4 = (z, dn', s')" by (metis prod_cases3)
        have "write_post content f L i (unat off) src (unat dn) x st (ext2_write_loop f bs off src len (dn + ?n) y s4)"
          by (rule write_post_step [OF J e(2,4,5,6,7) _ j4 _ _ _ nxt fit IH c]) (use e(8) fr24 e(3) bi ub(1) in simp_all)
        then show ?thesis using True bs0 False e(1) r(1) w(1) by (simp add: ext2_write_loop.simps [of f bs off src len dn] Let_def)
      qed
    qed
  qed
qed

section \<open>The read loop\<close>

lemma fbyte_same:
  assumes "same_disk content st s1"
  shows "fbyte content f s1 x = fbyte content f st x"
proof -
  have "bsize f s1 = bsize f st" using assms by (simp add: same_disk_def)
  then show ?thesis by (simp add: fbyte_def same_disk_blk [OF assms] fun_eq_iff Let_def)
qed

lemma div_mod_offset:
  assumes "q mod b + k < (b::nat)"
  shows "(q + k) div b = q div b" "(q + k) mod b = q mod b + k"
proof -
  have e: "q + k = q div b * b + (q mod b + k)" by (simp add: add.assoc [symmetric])
  show "(q + k) div b = q div b" using assms by (subst e, subst div_mult_self3) simp_all
  show "(q + k) mod b = q mod b + k" using assms by (subst e, subst mod_mult_self3) simp
qed

lemma read_loop_ok:
  assumes "fs_ok content f st" "unat dn \<le> unat len" "bs = block_size (ext2_mounts st f)" "unat off + unat len < 2 ^ 32"
    "\<And>p. unat off \<le> p \<Longrightarrow> p < unat off + unat len \<Longrightarrow> p div bsize f st < 12 \<and> e_block x ! (p div bsize f st) \<noteq> 0"
  shows "\<exists>s1. ext2_read_loop f bs x off len dn out st =
    (out @ map (fbyte content f st x) [unat off + unat dn..<unat off + unat len], s1) \<and> same_disk content st s1"
  using assms
proof (induction f bs x off len dn out st rule: ext2_read_loop.induct)
  case (1 f bs x off len dn out st)
  note ok = "1.prems"(1) and D = "1.prems"(2) and B = "1.prems"(3) and N = "1.prems"(4) and full = "1.prems"(5)
  have bs0: "bs \<noteq> 0" "unat bs = bsize f st" using fs_ok_bsize [OF ok] B by auto
  have B0: "0 < bsize f st" using fs_ok_bsize [OF ok] by auto
  show ?case
  proof (cases "dn < len")
    case False
    then have "unat dn = unat len" using D by (simp add: word_less_nat_alt)
    then show ?thesis using False by (simp add: ext2_read_loop.simps [of f bs x off len dn])
  next
    case True
    let ?pos = "off + dn" and ?n = "io_len bs (off + dn) len dn"
    have dl: "unat dn < unat len" using True by (simp add: word_less_nat_alt)
    have up: "unat ?pos = unat off + unat dn" using dl N by (intro unat_plus_no_wrap) simp
    have ub: "unat (?pos div bs) = (unat off + unat dn) div bsize f st" "unat (?pos mod bs) = (unat off + unat dn) mod bsize f st"
      by (simp_all add: unat_div unat_mod up bs0)
    let ?b = "e_block x ! unat (?pos div bs)"
    have b: "unat (?pos div bs) < 12" "?b \<noteq> 0" using full [of "unat off + unat dn"] dl ub(1) by simp_all
    have fb: "file_block f bs x (?pos div bs) st = (Some ?b, st)" using b(1) by (simp add: file_block_def word_less_nat_alt)
    obtain s1 where r: "read_block f ?b st = (True, s1)" "same_disk content st s1"
      "\<And>k. k < bsize f st \<Longrightarrow> g_io s1 k = blk content f st ?b k"
      by (rule read_block_ok [OF ok]) blast
    have n: "unat ?n \<le> unat len - unat dn" "0 < unat ?n" "unat (dn + ?n) = unat dn + unat ?n"
      using io_len_pos [OF True bs0(1), of ?pos] by simp_all
    have fit: "(unat off + unat dn) mod bsize f st + unat ?n \<le> bsize f st"
      using io_len_block [OF True bs0(1), of ?pos] ub(2) bs0(2) by simp
    have chunk: "get_bytes (g_io s1) (unat (?pos mod bs)) (unat ?n) = map (fbyte content f st x) [unat off + unat dn..<unat off + unat dn + unat ?n]"
    proof (rule nth_equalityI)
      fix k assume "k < length (get_bytes (g_io s1) (unat (?pos mod bs)) (unat ?n))"
      then have k: "k < unat ?n" by simp
      let ?q = "unat off + unat dn"
      have lt: "?q mod bsize f st + k < bsize f st" using k fit by simp
      have "(?q + k) div bsize f st = ?q div bsize f st" "(?q + k) mod bsize f st = ?q mod bsize f st + k"
        using div_mod_offset [OF lt] by simp_all
      then show "get_bytes (g_io s1) (unat (?pos mod bs)) (unat ?n) ! k = map (fbyte content f st x) [?q..<?q + unat ?n] ! k"
        using k r(3) [OF lt] b(2) ub by (simp add: nth_get_bytes fbyte_def Let_def)
    qed simp
    have ok1: "fs_ok content f s1" and m1: "bsize f s1 = bsize f st" "bs = block_size (ext2_mounts s1 f)"
      using ok same_disk_ok [OF r(2), of f] B r(2) by (simp_all add: same_disk_def)
    have fb1: "fbyte content f s1 x = fbyte content f st x" by (rule fbyte_same [OF r(2)])
    have le: "unat (dn + ?n) \<le> unat len" using n(1,3) dl by simp
    obtain s2 where s2: "ext2_read_loop f bs x off len (dn + ?n) (out @ get_bytes (g_io s1) (unat (?pos mod bs)) (unat ?n)) s1 =
        (out @ get_bytes (g_io s1) (unat (?pos mod bs)) (unat ?n) @ map (fbyte content f st x) [unat off + unat (dn + ?n)..<unat off + unat len], s2)"
      "same_disk content s1 s2"
      using "1.IH" [OF _ refl fb [symmetric] refl b(2) r(1) [symmetric] refl refl ok1 le m1(2) N] True bs0(1) full
      by (auto simp: m1(1) fb1)
    have "[unat off + unat dn..<unat off + unat len] = [unat off + unat dn..<unat off + unat dn + unat ?n] @ [unat off + unat (dn + ?n)..<unat off + unat len]"
      using upt_add_eq_append [of "unat off + unat dn" "unat off + unat dn + unat ?n" "unat len - unat dn - unat ?n"] n dl
      by (simp add: add.assoc)
    then show ?thesis
      using True bs0 fb b(2) r(1) s2 chunk same_disk_trans [OF r(2) s2(2)]
      by (simp add: ext2_read_loop.simps [of f bs x off len dn] Let_def)
  qed
qed

section \<open>Writing and reading back\<close>

lemma wjob_start:
  assumes "fs_wf content f L st" "i \<in> L"
  shows "wjob content f L i (inode_at content f st i) st"
  using assms fs_wfD(8,9) [OF assms(1)] by (auto simp: wjob_def)

lemma all_used_tables:
  assumes wf: "fs_wf content f L st" and fr: "frame content f (tables f st) st s1"
  shows "all_used content f s1 = all_used content f st"
proof -
  have "bbm f st \<notin> tables f st" using geom_wf_facts(9) [OF fs_wfD(2) [OF wf]] by (fastforce simp: tables_def)
  then have "in_use content f s1 (bbm f st) j = in_use content f st (bbm f st) j" if "j < bpg f st" for j
    using geom_wf_facts(1,6) [OF fs_wfD(2) [OF wf]] that by (intro frame_in_use [OF fr]) auto
  then show ?thesis by (simp add: all_used_def frame_meta [OF fr])
qed

lemma read_back:
  assumes wf: "fs_wf content f L st" and i: "i_ino inode \<in> L" and x: "x = inode_at content f st (i_ino inode)"
    and sz: "0 < unat n \<Longrightarrow> unat off + unat n \<le> unat (e_size x)" and lt: "unat off + unat n < 2 ^ 32"
    and nz: "\<And>p. unat off \<le> p \<Longrightarrow> p < unat off + unat n \<Longrightarrow> p div bsize f st < 12 \<and> e_block x ! (p div bsize f st) \<noteq> 0"
  shows "\<exists>s1. ext2_read f inode off n st = (Some (map (fbyte content f st x) [unat off..<unat off + unat n]), s1) \<and> same_disk content st s1"
proof -
  note W = fs_wfD [OF wf]
  obtain s1 where r: "read_inode f (i_ino inode) st = (Some x, s1)" "same_disk content st s1"
    using read_inode_ok [OF W(1,3) W(6) [OF i]] x by metis
  have ok1: "fs_ok content f s1" using W(1) same_disk_ok [OF r(2)] by simp
  have bs: "bsize f s1 = bsize f st" using r(2) by (simp add: same_disk_def)
  have fb: "fbyte content f s1 x = fbyte content f st x" by (rule fbyte_same [OF r(2)])
  have up: "unat (off + n) = unat off + unat n" by (rule unat_plus_no_wrap) (use lt in simp)
  show ?thesis
  proof (cases "e_size x \<le> off")
    case True
    then have "\<not> 0 < unat n" using sz by (auto simp: word_le_nat_alt)
    then have "n = 0" by (simp add: unat_gt_0)
    then show ?thesis using True r by (simp add: ext2_read_def)
  next
    case False
    let ?n = "if off + n > e_size x then e_size x - off else n"
    have n: "?n = n" using sz False up by (cases "n = 0") (auto simp: word_less_nat_alt word_le_nat_alt unat_gt_0)
    obtain s2 where "ext2_read_loop f (block_size (ext2_mounts s1 f)) x off n 0 [] s1 =
        ([] @ map (fbyte content f s1 x) [unat off + unat 0..<unat off + unat n], s2)" "same_disk content s1 s2"
      using read_loop_ok [OF ok1 _ refl lt, of 0 x "[]"] nz by (auto simp: bs)
    then show ?thesis using False r same_disk_trans [OF r(2)] by (auto simp: ext2_read_def Let_def n fb)
  qed
qed

lemma write_read_ok:
  assumes wf: "fs_wf content f L st" and i: "i_ino inode \<in> L" and lt: "unat off + length src < 2 ^ 32"
    and x: "x = inode_at content f st (i_ino inode)" and r: "ext2_write f inode off src st = (r, s1)"
  shows "\<exists>n y. r = Some (n, inode\<lparr>i_size := e_size y\<rparr>) \<and> y = inode_at content f s1 (i_ino inode) \<and>
    unat n \<le> length src \<and> (unat n < length src \<longrightarrow> 12 * bsize f st \<le> unat off + unat n \<or> all_used content f s1) \<and>
    unat (e_size y) = max (unat (e_size x)) (unat off + unat n) \<and> e_mode y = e_mode x \<and> e_uid y = e_uid x \<and> e_gid y = e_gid x \<and>
    fs_wf content f L s1 \<and> (\<forall>j \<in> L - {i_ino inode}. inode_at content f s1 j = inode_at content f st j) \<and>
    frame content f (wset f st y \<union> tables f st) st s1 \<and>
    (\<forall>t ino. same_disk content s1 t \<and> i_ino ino = i_ino inode \<longrightarrow>
       (\<exists>s2. ext2_read f ino off n t = (Some (take (unat n) src), s2) \<and> same_disk content t s2)) \<and>
    (\<forall>p < 12 * bsize f st. p < unat off \<or> unat off + unat n \<le> p \<longrightarrow> fbyte content f s1 y p = fbyte content f st x p)"
proof -
  note W = fs_wfD [OF wf]
  obtain t where t: "read_inode f (i_ino inode) st = (Some x, t)" "same_disk content st t"
    using read_inode_ok [OF W(1,3) W(6) [OF i]] x by metis
  have j: "wjob content f L (i_ino inode) x t" using wjob_same [OF wjob_start [OF wf i] t(2)] x by simp
  have len: "unat (word_of_nat (length src) :: u32) = length src" using lt by (simp add: unat_of_nat)
  obtain z n s2 where c: "ext2_write_loop f (block_size (ext2_mounts t f)) off src (word_of_nat (length src)) 0 x t = (z, n, s2)"
    by (metis prod_cases3)
  have g: "bsize f t = bsize f st" "wset f t = wset f st"
    using t(2) by (simp_all add: same_disk_def wset_def bbm_def super_blocks_def fun_eq_iff)
  have "write_post content f L (i_ino inode) (unat off) src (unat 0) x t (z, n, s2)"
    using write_loop_ok [OF j _ len refl lt, of 0] by (simp add: c)
  then have P: "wjob content f L (i_ino inode) z s2" "frame content f (wset f st z) t s2" "z = x\<lparr>e_block := e_block z\<rparr>"
    "unat n \<le> length src" "0 < unat n \<Longrightarrow> unat off + unat n \<le> 12 * bsize f st"
    "\<And>p. p < 12 * bsize f st \<Longrightarrow> fbyte content f s2 z p =
       (if unat off \<le> p \<and> p < unat off + unat n then src ! (p - unat off) else fbyte content f t x p)"
    "\<And>p. unat off \<le> p \<Longrightarrow> p < unat off + unat n \<Longrightarrow> e_block z ! (p div bsize f st) \<noteq> 0"
    "unat n < length src \<Longrightarrow> 12 * bsize f st \<le> unat off + unat n \<or> all_used content f s2"
    unfolding write_post_def by (auto simp: g)
  let ?sz = "if off + n > e_size z then off + n else e_size z"
  let ?y = "z\<lparr>e_size := ?sz, e_blocks := (?sz + 511) div 512\<rparr>"
  note J = wjobD [OF P(1)]
  have own: "owned ?y = owned z" by (simp add: owned_def)
  have fr2: "frame content f (wset f st z) st s2" using frame_trans_same [OF frame_same_disk [OF t(2)] P(2)] .
  have bs2: "bsize f s2 = bsize f st" and tb: "tables f s2 = tables f st" by (rule frame_geom(2) [OF fr2] frame_meta(1) [OF fr2])+
  have v: "inode_valid ?y" "inode_good content f s2 ?y" using J(3,4) own by (simp_all add: inode_valid_def inode_good_def)
  obtain s3 where w: "write_inode f (i_ino inode) ?y s2 = (True, s3)" "frame content f (tables f st) s2 s3"
      "fs_wf content f (insert (i_ino inode) L) s3" "inode_at content f s3 (i_ino inode) = ?y"
      "\<And>j. inode_ok (ext2_mounts s2 f) j \<Longrightarrow> j \<noteq> i_ino inode \<Longrightarrow> inode_at content f s3 j = inode_at content f s2 j"
    by (rule write_inode_wf [OF J(1) fs_wfD(7) [OF J(1) J(2)] v]) (use J(6) own tb in auto)
  have L: "insert (i_ino inode) L = L" using i by blast
  have wt: "wset f st z \<inter> tables f st = {}"
  proof -
    have "meta f s2 = meta f st" by (rule frame_meta(6) [OF fr2])
    then have "owned z \<inter> tables f st = {}" using J(9) by (auto simp: meta_def)
    then show ?thesis using geom_wf_facts(9) [OF W(2)] by (fastforce simp: tables_def wset_def)
  qed
  have at: "inode_at content f s3 k = inode_at content f st k" if "k \<in> L - {i_ino inode}" for k
    using w(5) fs_wfD(6) [OF J(1)] frame_inodes [OF wf fr2 wt] W(6) that by simp
  have ws: "wset f st ?y = wset f st z" by (simp add: wset_def own)
  have fr3: "frame content f (wset f st ?y \<union> tables f st) st s3" unfolding ws by (rule frame_trans [OF fr2 w(2)])
  have bs3: "bsize f s3 = bsize f st" by (rule frame_geom(2) [OF fr3])
  have dis: "tables f st \<inter> owned z = {}" using wt by (auto simp: wset_def)
  have fb: "fbyte content f s3 ?y p = fbyte content f s2 z p" if "p < 12 * bsize f st" for p
    using fbyte_frame [OF P(1) w(2) dis] that bs2 by (simp add: fbyte_def)
  have fbt: "fbyte content f t x p = fbyte content f st x p" for p
    by (simp add: fbyte_same [OF t(2)])
  have zs: "e_size z = e_size x" "e_mode z = e_mode x" "e_uid z = e_uid x" "e_gid z = e_gid x" by (subst P(3), simp)+
  have up: "unat (off + n) = unat off + unat n" by (rule unat_plus_no_wrap) (use lt P(4) in simp)
  have size: "unat (e_size ?y) = max (unat (e_size x)) (unat off + unat n)" using up zs by (auto simp: word_less_nat_alt)
  have again: "\<exists>s4. ext2_read f ino off n t = (Some (map (fbyte content f s3 ?y) [unat off..<unat off + unat n]), s4) \<and> same_disk content t s4"
    if sd: "same_disk content s3 t" and ii: "i_ino ino = i_ino inode" for t ino
  proof -
    have wt: "fs_wf content f L t" using fs_wf_same [OF w(3) sd] L by simp
    have yt: "?y = inode_at content f t (i_ino ino)" using w(4) ii inode_at_same [OF sd] by simp
    have bt: "bsize f t = bsize f st" using sd bs3 by (simp add: same_disk_def)
    show ?thesis
      unfolding fbyte_same [OF sd, symmetric]
    proof (rule read_back [OF wt _ yt])
      show "p div bsize f t < 12 \<and> e_block ?y ! (p div bsize f t) \<noteq> 0" if "unat off \<le> p" "p < unat off + unat n" for p
        using P(5,7) that bt by (auto intro: less_mult_imp_div_less simp: mult.commute)
    qed (use size lt P(4) i ii in simp_all)
  qed
  have bytes: "map (fbyte content f s3 ?y) [unat off..<unat off + unat n] = take (unat n) src"
    by (rule nth_equalityI) (use P(4,5,6) fb in \<open>auto simp: min_def\<close>)
  have rr: "r = Some (n, inode\<lparr>i_size := ?sz\<rparr>)" "s1 = s3" using r t(1) c w(1) by (simp_all add: ext2_write_def Let_def)
  have au: "all_used content f s3 = all_used content f s2" by (rule all_used_tables [OF J(1)]) (simp add: tb w(2))
  show ?thesis
    unfolding rr
  proof (intro exI [of _ n] exI [of _ ?y] conjI ballI allI impI)
    show "\<exists>s4. ext2_read f ino off n t = (Some (take (unat n) src), s4) \<and> same_disk content t s4"
      if "same_disk content s3 t \<and> i_ino ino = i_ino inode" for t ino using again [of t ino] that by (simp only: bytes)
    show "12 * bsize f st \<le> unat off + unat n \<or> all_used content f s3" if "unat n < length src" using P(8) that au by simp
    show "fbyte content f s3 ?y p = fbyte content f st x p" if "p < 12 * bsize f st" "p < unat off \<or> unat off + unat n \<le> p" for p
      using fb [OF that(1)] P(6) [OF that(1)] that(2) fbt by auto
  qed (use P(4) size zs w(3,4) L at fr3 in simp_all)
qed

text \<open>C2: \<^const>\<open>ext2_write\<close> on an inode of a well-formed volume always returns a count, keeps the volume
  well-formed and every other inode and every block outside the file, the bitmap, the superblock and the inode tables.
  The count is short only when the direct blocks are full or no block of the volume is free; the size is the
  maximum of the old size and the end of the write; reading the count back at the same offset gives the
  bytes written, and the other bytes of the file are unchanged.\<close>

theorem ext2_write_read:
  assumes wf: "fs_wf content f L st" and i: "i_ino inode \<in> L" and lt: "unat off + length src < 2 ^ 32"
    and x: "x = inode_at content f st (i_ino inode)" and r: "ext2_write f inode off src st = (r, s1)"
  shows "\<exists>n y. r = Some (n, inode\<lparr>i_size := e_size y\<rparr>) \<and> y = inode_at content f s1 (i_ino inode) \<and>
    unat n \<le> length src \<and> (unat n < length src \<longrightarrow> 12 * bsize f st \<le> unat off + unat n \<or> all_used content f s1) \<and>
    unat (e_size y) = max (unat (e_size x)) (unat off + unat n) \<and> e_mode y = e_mode x \<and> e_uid y = e_uid x \<and> e_gid y = e_gid x \<and>
    fs_wf content f L s1 \<and> (\<forall>j \<in> L - {i_ino inode}. inode_at content f s1 j = inode_at content f st j) \<and>
    frame content f (wset f st y \<union> tables f st) st s1 \<and>
    (\<forall>t ino. same_disk content s1 t \<and> i_ino ino = i_ino inode \<longrightarrow>
       (\<exists>s2. ext2_read f ino off n t = (Some (take (unat n) src), s2) \<and> same_disk content t s2)) \<and>
    (\<forall>p < 12 * bsize f st. p < unat off \<or> unat off + unat n \<le> p \<longrightarrow> fbyte content f s1 y p = fbyte content f st x p)"
  by (rule write_read_ok [OF assms])

theorem ext2_write_read_witness:
  "\<exists>n s1. fst (ext2_write 0 (zero_inode\<lparr>i_ino := 2\<rparr>) 5 [1, 2, 3] demo_vol) = Some n \<and>
     s1 = snd (ext2_write 0 (zero_inode\<lparr>i_ino := 2\<rparr>) 5 [1, 2, 3] demo_vol) \<and> fs_wf ram_content 0 {2} s1 \<and>
     fst (ext2_read 0 (zero_inode\<lparr>i_ino := 2\<rparr>) 5 (fst n) s1) = Some (take (unat (fst n)) [1, 2, 3])"
proof -
  obtain r s1 where r: "ext2_write 0 (zero_inode\<lparr>i_ino := 2\<rparr>) 5 [1, 2, 3] demo_vol = (r, s1)" by fastforce
  have "same_disk ram_content s1 s1" by (simp add: same_disk_def)
  then show ?thesis using ext2_write_read [OF demo_vol_wf _ _ refl r] by (fastforce simp: r)
qed

end
