(* ===== verification/Vfs.thy ===== *)
theory Vfs
  imports VfsPath FdTable Ext2File
begin

text \<open>
  The virtual file system of \<^verbatim>\<open>src/vfs/vfs.c\<close>: mounts, device nodes, path resolution and the
  whole-file operations, over the file systems' operation tables.

  The state \<open>'d vfs\<close> extends the kernel state by the variables of \<^verbatim>\<open>vfs.c\<close>, the registered block
  devices and the state of the ext2 driver, whose component \<open>disk\<close> is the machine below: \<open>'d\<close> holds
  the disks, the keyboard, the console and the frame buffer. Their drivers are the fields of
  \<open>vfs_io\<close>. A superblock is an index into the mount table, a block device pointer its address.

  A result is \<open>Inr\<close> of what the routine computes, or \<open>Inl\<close> of: the negative value it returns
  (\<open>Fail\<close>), a copy beyond a buffer (\<open>Overflow\<close>), or the use of a null superblock (\<open>NullDeref\<close>). A
  count that the source returns as \<^verbatim>\<open>int\<close> is the length of the returned list or the \<open>u32\<close> itself.
\<close>

section \<open>Types\<close>

datatype vfs_err = Fail int | Overflow | NullDeref

type_synonym 'a vres = "vfs_err + 'a"

abbreviation failed :: "'a vres" where "failed \<equiv> Inl (Fail (-1))"

definition VFS_MAX_MOUNTS :: nat where [model_simps]: "VFS_MAX_MOUNTS = 8"
definition MAX_DEVNODES :: nat where [model_simps]: "MAX_DEVNODES = BLOCK_MAX_DEVICES + 16"

record 's filesystem_ops =
  op_lookup :: "nat \<Rightarrow> vfs_inode \<Rightarrow> cstr \<Rightarrow> vfs_inode \<Rightarrow> 's \<Rightarrow> vfs_inode option \<times> 's"
  op_read :: "(nat \<Rightarrow> vfs_inode \<Rightarrow> u32 \<Rightarrow> u32 \<Rightarrow> 's \<Rightarrow> (int + u8 list) \<times> 's) option"
  op_write :: "(nat \<Rightarrow> vfs_inode \<Rightarrow> u32 \<Rightarrow> u8 list \<Rightarrow> 's \<Rightarrow> (int + u32) \<times> 's) option"
  op_create :: "(nat \<Rightarrow> vfs_inode \<Rightarrow> cstr \<Rightarrow> u16 \<Rightarrow> task \<Rightarrow> vfs_inode \<Rightarrow> 's \<Rightarrow> (int + vfs_inode) \<times> 's) option"
  op_mkdir :: "(nat \<Rightarrow> vfs_inode \<Rightarrow> cstr \<Rightarrow> u16 \<Rightarrow> task \<Rightarrow> vfs_inode \<Rightarrow> 's \<Rightarrow> (int + vfs_inode) \<times> 's) option"
  op_unlink :: "(nat \<Rightarrow> vfs_inode \<Rightarrow> cstr \<Rightarrow> 's \<Rightarrow> (int + unit) \<times> 's) option"
  op_readdir :: "(nat \<Rightarrow> vfs_inode \<Rightarrow> u32 \<Rightarrow> vfs_inode \<Rightarrow> 's \<Rightarrow> (cstr \<times> vfs_inode) option \<times> 's) option"
  op_statfs :: "(nat \<Rightarrow> 's \<Rightarrow> int + u32 \<times> u32) option"

record 's vfs_superblock =
  fs_name :: cstr
  dev_name :: cstr
  mountpoint :: cstr
  sb_root :: vfs_inode
  sb_ops :: "'s filesystem_ops"
  fs_private :: nat

datatype dev_kind =
  DEV_KIND_NONE | DEV_KIND_BLOCK | DEV_KIND_TTY0 | DEV_KIND_NULL | DEV_KIND_ZERO | DEV_KIND_FB0
| DEV_KIND_RANDOM | DEV_KIND_URANDOM | DEV_KIND_PTMX

record devnode =
  dn_name :: cstr
  dn_mode :: u16
  dn_kind :: dev_kind
  dn_ptr :: u64

datatype fs_driver = FS_EXT2 | FS_EXT4 | FS_FAT32 | FS_PROC

record fb =
  fb_addr :: u64
  fb_width :: u32
  fb_height :: u32
  fb_pitch :: u32
  fb_bpp :: u32
  fb_r_pos :: u32
  fb_g_pos :: u32
  fb_b_pos :: u32

record 'd vfs_io =
  io_tsc :: "'d \<Rightarrow> u64 \<times> 'd"
  io_ticks :: "'d \<Rightarrow> u32"
  io_kbd_irqs :: "'d \<Rightarrow> u64"
  io_kbd_last_tsc :: "'d \<Rightarrow> u64"
  io_hlt :: "'d \<Rightarrow> 'd"
  io_getchar :: "'d \<Rightarrow> int \<times> 'd"
  io_mouse_read :: "u32 \<Rightarrow> 'd \<Rightarrow> (int + u8 list) \<times> 'd"
  io_event_read :: "u32 \<Rightarrow> 'd \<Rightarrow> (int + u8 list) \<times> 'd"
  io_putchar :: "u8 \<Rightarrow> 'd \<Rightarrow> 'd"
  io_fb :: "'d \<Rightarrow> fb"
  io_fb_write :: "u32 \<Rightarrow> u8 list \<Rightarrow> 'd \<Rightarrow> 'd"
  io_fb_window :: "'d \<Rightarrow> (u32 \<times> u64) option"
  io_bdev_addr :: "nat \<Rightarrow> u64"

record 'd vfs = kern +
  g_mounts :: "'d ext2_st vfs_superblock list"
  g_fsreg :: "(cstr \<times> fs_driver) list"
  g_cwd :: cstr
  g_devnodes :: "devnode list"
  g_rng_state :: u64
  g_rng_entropy_bits :: u32
  g_rng_last_timer_ticks :: u32
  g_rng_last_kbd_irqs :: u64
  rd_secbuf :: "nat \<Rightarrow> u8"
  wr_secbuf :: "nat \<Rightarrow> u8"
  blkdevs :: "'d block_state"
  e2 :: "'d ext2_st"

definition mach :: "'d vfs \<Rightarrow> 'd" where "mach st = disk (e2 st)"

definition set_mach :: "'d \<Rightarrow> 'd vfs \<Rightarrow> 'd vfs" where "set_mach d st = st\<lparr>e2 := (e2 st)\<lparr>disk := d\<rparr>\<rparr>"

definition cur_task :: "'d vfs \<Rightarrow> task" where "cur_task st = tasks st (process_current_task st)"

section \<open>Working directory\<close>

definition vfs_current_cwd :: "'d vfs \<Rightarrow> cstr \<times> 'd vfs" where
  "vfs_current_cwd st =
     (let t = process_current_task st
      in if state (tasks st t) \<noteq> TASK_UNUSED
         then (if cwd (tasks st t) = [] then (lit ''/'', upd_task t (\<lambda>x. x\<lparr>cwd := lit ''/''\<rparr>) st) else (cwd (tasks st t), st))
         else (g_cwd st, st))"

definition normalize_path :: "cstr option \<Rightarrow> 'd vfs \<Rightarrow> cstr option \<times> 'd vfs" where
  "normalize_path inp st = (case vfs_current_cwd st of (c, s1) \<Rightarrow> (norm_path c inp, s1))"

definition vfs_getcwd :: "'d vfs \<Rightarrow> cstr \<times> 'd vfs" where
  "vfs_getcwd st = vfs_current_cwd st"

definition set_cwd :: "cstr \<Rightarrow> 'd vfs \<Rightarrow> 'd vfs" where
  "set_cwd p st =
     (let t = process_current_task st
      in if state (tasks st t) \<noteq> TASK_UNUSED then upd_task t (\<lambda>x. x\<lparr>cwd := p\<rparr>) st else st\<lparr>g_cwd := p\<rparr>)"

definition vfs_current_umask :: "'d vfs \<Rightarrow> u16" where
  "vfs_current_umask st = ucast (umask (cur_task st) AND 0x1FF)"

section \<open>The random pool\<close>

definition rng_mix_u64 :: "u64 \<Rightarrow> u32 \<Rightarrow> 'd vfs \<Rightarrow> 'd vfs" where
  "rng_mix_u64 v bits st =
     (let g = g_rng_state st;
          b = g_rng_entropy_bits st + (if bits > 64 then 64 else bits)
      in st\<lparr>g_rng_state := g XOR mix64 (v + 0x9E3779B97F4A7C15 + push_bit 7 g + drop_bit 3 g),
            g_rng_entropy_bits := (if b > 256 then 256 else b)\<rparr>)"

definition rng_collect_entropy :: "'d vfs_io \<Rightarrow> 'd vfs \<Rightarrow> 'd vfs" where
  "rng_collect_entropy io st =
     (let ticks = io_ticks io (mach st); irqs = io_kbd_irqs io (mach st); (tsc, d) = io_tsc io (mach st);
          s1 = rng_mix_u64 tsc 1 (set_mach d st);
          s2 = (if ticks \<noteq> g_rng_last_timer_ticks s1
                then (rng_mix_u64 (push_bit 32 (ucast ticks) XOR tsc) 2 s1)\<lparr>g_rng_last_timer_ticks := ticks\<rparr> else s1)
      in if irqs \<noteq> g_rng_last_kbd_irqs s2
         then (rng_mix_u64 (io_kbd_last_tsc io (mach s2) XOR push_bit 1 irqs) 4 s2)\<lparr>g_rng_last_kbd_irqs := irqs\<rparr> else s2)"

definition rng_next_u64 :: "'d vfs \<Rightarrow> u64 \<times> 'd vfs" where
  "rng_next_u64 st = (let x = xorshift (g_rng_state st) in (x * 0x2545F4914F6CDD1D, st\<lparr>g_rng_state := x\<rparr>))"

lemma rng_mix_bits:
  "g_rng_entropy_bits (rng_mix_u64 v b st) \<le> 256"
  "g_rng_entropy_bits st \<le> 256 \<Longrightarrow> g_rng_entropy_bits st \<le> g_rng_entropy_bits (rng_mix_u64 v b st)"
  "g_rng_entropy_bits st < 8 \<Longrightarrow> g_rng_entropy_bits (rng_mix_u64 v 1 st) = g_rng_entropy_bits st + 1"
proof -
  let ?e = "g_rng_entropy_bits st"
  let ?b = "if b > 64 then 64 else b"
  show "g_rng_entropy_bits (rng_mix_u64 v b st) \<le> 256" by (auto simp: rng_mix_u64_def Let_def not_less)
  show "?e \<le> g_rng_entropy_bits (rng_mix_u64 v b st)" if "?e \<le> 256"
  proof -
    have "unat (?e + ?b) = unat ?e + unat ?b"
      using that by (intro unat_plus_no_wrap) (auto simp: word_le_nat_alt word_less_nat_alt)
    then have "?e \<le> ?e + ?b" by (simp add: word_le_nat_alt)
    then show ?thesis using that by (simp add: rng_mix_u64_def Let_def)
  qed
  show "g_rng_entropy_bits (rng_mix_u64 v 1 st) = ?e + 1" if "?e < 8"
  proof -
    have "unat (?e + 1) = unat ?e + 1" using that by (subst unat_plus_no_wrap) (auto simp: word_less_nat_alt)
    then have "\<not> ?e + 1 > 256" using that by (simp add: word_less_nat_alt)
    then show ?thesis by (simp add: rng_mix_u64_def Let_def)
  qed
qed

lemma rng_collect_bits:
  "g_rng_entropy_bits st < 8 \<Longrightarrow> unat (g_rng_entropy_bits st) < unat (g_rng_entropy_bits (rng_collect_entropy io st))"
proof -
  assume e: "g_rng_entropy_bits st < 8"
  obtain tsc d where t: "io_tsc io (mach st) = (tsc, d)" by fastforce
  let ?s1 = "rng_mix_u64 tsc 1 (set_mach d st)"
  have s1: "g_rng_entropy_bits ?s1 = g_rng_entropy_bits st + 1" using rng_mix_bits(3) [of "set_mach d st"] e by (simp add: set_mach_def)
  have le: "g_rng_entropy_bits ?s1 \<le> 256" by (rule rng_mix_bits(1))
  have up: "g_rng_entropy_bits x \<le> 256 \<Longrightarrow> y \<le> g_rng_entropy_bits x \<Longrightarrow> y \<le> g_rng_entropy_bits (rng_mix_u64 v b x)" for x y v b
    using rng_mix_bits(2) order_trans by blast
  have "g_rng_entropy_bits ?s1 \<le> g_rng_entropy_bits (rng_collect_entropy io st)"
    by (auto simp: rng_collect_entropy_def t Let_def intro!: up le rng_mix_bits(1))
  moreover have "unat (g_rng_entropy_bits st + 1) = unat (g_rng_entropy_bits st) + 1"
    using e by (subst unat_plus_no_wrap) (auto simp: word_less_nat_alt)
  ultimately show ?thesis using s1 by (simp add: word_le_nat_alt)
qed

text \<open>The wait for entropy: every pass gains at least one bit, so it ends.\<close>

function rng_wait :: "'d vfs_io \<Rightarrow> bool \<Rightarrow> 'd vfs \<Rightarrow> 'd vfs" where
  "rng_wait io blocking st =
     (let s1 = rng_collect_entropy io st
      in if \<not> blocking \<or> 8 \<le> g_rng_entropy_bits s1 then s1
         else rng_wait io blocking (set_mach (io_hlt io (mach s1)) s1))"
  by pat_completeness auto
termination
proof (relation "measure (\<lambda>(io, blocking, st). if g_rng_entropy_bits st < 8 then 8 - unat (g_rng_entropy_bits st) else 9)")
  fix io blocking and st :: "'d vfs" and s1 :: "'d vfs"
  assume s1: "s1 = rng_collect_entropy io st" and c: "\<not> (\<not> blocking \<or> 8 \<le> g_rng_entropy_bits s1)"
  have "g_rng_entropy_bits st < 8 \<Longrightarrow> unat (g_rng_entropy_bits st) < unat (g_rng_entropy_bits s1)"
    using rng_collect_bits [of st io] s1 by simp
  then show "((io, blocking, set_mach (io_hlt io (mach s1)) s1), (io, blocking, st)) \<in>
      measure (\<lambda>(io, blocking, st). if g_rng_entropy_bits st < 8 then 8 - unat (g_rng_entropy_bits st) else 9)"
    using c by (auto simp: set_mach_def not_le word_less_nat_alt)
qed simp

declare rng_wait.simps [simp del]

fun rng_fill_loop :: "'d vfs_io \<Rightarrow> bool \<Rightarrow> nat \<Rightarrow> u64 \<Rightarrow> nat \<Rightarrow> 'd vfs \<Rightarrow> u8 list \<times> 'd vfs" where
  "rng_fill_loop io blocking 0 pool pn st = ([], st)"
| "rng_fill_loop io blocking (Suc n) pool pn st =
     (let s1 = rng_wait io blocking st;
          (pool1, pn1, s2) = (if pn = 0 then (case rng_next_u64 s1 of (x, s) \<Rightarrow> (x, 8, s)) else (pool, pn, s1));
          s3 = (if blocking \<and> g_rng_entropy_bits s2 \<noteq> 0 then s2\<lparr>g_rng_entropy_bits := g_rng_entropy_bits s2 - 1\<rparr> else s2);
          (out, s4) = rng_fill_loop io blocking n (drop_bit 8 pool1) (pn1 - 1) s3
      in (ucast pool1 # out, s4))"

definition rng_fill_bytes :: "'d vfs_io \<Rightarrow> u32 \<Rightarrow> bool \<Rightarrow> 'd vfs \<Rightarrow> u8 list \<times> 'd vfs" where
  "rng_fill_bytes io len blocking st = rng_fill_loop io blocking (unat len) 0 0 st"

section \<open>Device nodes\<close>

definition vfs_add_devnode :: "cstr \<Rightarrow> u16 \<Rightarrow> dev_kind \<Rightarrow> u64 \<Rightarrow> 'd vfs \<Rightarrow> bool \<times> 'd vfs" where
  "vfs_add_devnode nm mode kind ptr st =
     (if MAX_DEVNODES \<le> length (g_devnodes st) then (False, st)
      else (True, st\<lparr>g_devnodes := g_devnodes st @ [\<lparr>dn_name = nm, dn_mode = mode, dn_kind = kind, dn_ptr = ptr\<rparr>]\<rparr>))"

definition vfs_inode_set_ptr :: "vfs_inode \<Rightarrow> u64 \<Rightarrow> vfs_inode" where
  "vfs_inode_set_ptr ino v =
     ino\<lparr>i_private := (i_private ino)[0 := ucast (v AND 0xFFFFFFFF), 1 := ucast (drop_bit 32 v AND 0xFFFFFFFF)]\<rparr>"

definition vfs_inode_get_ptr :: "vfs_inode \<Rightarrow> u64" where
  "vfs_inode_get_ptr ino = ucast (i_private ino ! 0) OR push_bit 32 (ucast (i_private ino ! 1))"

fun add_block_nodes :: "'d vfs_io \<Rightarrow> nat list \<Rightarrow> 'd vfs \<Rightarrow> 'd vfs" where
  "add_block_nodes io [] st = st"
| "add_block_nodes io (i # is) st =
     (let b = block_devices (blkdevs st) ! i
      in if \<not> present b then add_block_nodes io is st
         else case vfs_add_devnode (cstr_of (name b)) (VFS_INODE_BLK OR 0x1B0) DEV_KIND_BLOCK (io_bdev_addr io i) st of
                (False, s1) \<Rightarrow> s1
              | (True, s1) \<Rightarrow> add_block_nodes io is s1)"

definition fixed_devnodes :: "(cstr \<times> u16 \<times> dev_kind) list" where
  "fixed_devnodes =
     [(lit ''console'', VFS_INODE_CHR OR 0x1B6, DEV_KIND_TTY0), (lit ''tty0'', VFS_INODE_CHR OR 0x1B6, DEV_KIND_TTY0),
      (lit ''tty1'', VFS_INODE_CHR OR 0x1B6, DEV_KIND_TTY0), (lit ''tty2'', VFS_INODE_CHR OR 0x1B6, DEV_KIND_TTY0),
      (lit ''tty3'', VFS_INODE_CHR OR 0x1B6, DEV_KIND_TTY0), (lit ''tty4'', VFS_INODE_CHR OR 0x1B6, DEV_KIND_TTY0),
      (lit ''tty'', VFS_INODE_CHR OR 0x1B6, DEV_KIND_TTY0), (lit ''null'', VFS_INODE_CHR OR 0x1B6, DEV_KIND_NULL),
      (lit ''zero'', VFS_INODE_CHR OR 0x1B6, DEV_KIND_ZERO), (lit ''fb0'', VFS_INODE_CHR OR 0x1B0, DEV_KIND_FB0),
      (lit ''random'', VFS_INODE_CHR OR 0x1B6, DEV_KIND_RANDOM), (lit ''urandom'', VFS_INODE_CHR OR 0x1B6, DEV_KIND_URANDOM),
      (lit ''ptmx'', VFS_INODE_CHR OR 0x1B6, DEV_KIND_PTMX)]"

definition vfs_build_devnodes :: "'d vfs_io \<Rightarrow> 'd vfs \<Rightarrow> 'd vfs" where
  "vfs_build_devnodes io st =
     (let s1 = add_block_nodes io [0..<block_count (blkdevs st)] (st\<lparr>g_devnodes := []\<rparr>);
          s2 = foldl (\<lambda>s (nm, mode, kind). snd (vfs_add_devnode nm mode kind 0 s)) s1 fixed_devnodes
      in rng_collect_entropy io s2)"

definition vfs_devnode_find :: "cstr \<Rightarrow> 'd vfs \<Rightarrow> nat option" where
  "vfs_devnode_find nm st = first_idx (\<lambda>i. strcmp (dn_name (g_devnodes st ! i)) nm = 0) 0 (length (g_devnodes st))"

definition vfs_devnode_from_inode :: "vfs_inode \<Rightarrow> 'd vfs \<Rightarrow> nat option" where
  "vfs_devnode_from_inode ino st =
     (if i_ino ino < 0xD0000000 then None
      else let idx = unat (i_ino ino - 0xD0000000) in if length (g_devnodes st) \<le> idx then None else Some idx)"

section \<open>Character devices\<close>

fun read_tty_loop :: "'d vfs_io \<Rightarrow> nat \<Rightarrow> 'd \<Rightarrow> u8 list \<times> 'd" where
  "read_tty_loop io 0 d = ([], d)"
| "read_tty_loop io (Suc n) d =
     (case io_getchar io d of
        (ch, d1) \<Rightarrow>
          if ch < 0 then ([], d1)
          else let c = word_of_int ch
               in if c = 10 then ([c], d1) else (case read_tty_loop io n d1 of (out, d2) \<Rightarrow> (c # out, d2)))"

definition vfs_read_tty :: "'d vfs_io \<Rightarrow> u32 \<Rightarrow> 'd vfs \<Rightarrow> u8 list \<times> 'd vfs" where
  "vfs_read_tty io n st = (case read_tty_loop io (unat n) (mach st) of (out, d) \<Rightarrow> (out, set_mach d st))"

definition vfs_dev_read_chr :: "'d vfs_io \<Rightarrow> devnode \<Rightarrow> u32 \<Rightarrow> 'd vfs \<Rightarrow> u8 list vres \<times> 'd vfs" where
  "vfs_dev_read_chr io dn n st =
     (case dn_kind dn of
        DEV_KIND_TTY0 \<Rightarrow> map_prod Inr id (vfs_read_tty io n st)
      | DEV_KIND_NULL \<Rightarrow> (Inr [], st)
      | DEV_KIND_ZERO \<Rightarrow> (Inr (replicate (unat n) 0), st)
      | DEV_KIND_FB0 \<Rightarrow> (Inl (Fail (- ENOSYS)), st)
      | DEV_KIND_RANDOM \<Rightarrow> map_prod Inr id (rng_fill_bytes io n True st)
      | DEV_KIND_URANDOM \<Rightarrow> map_prod Inr id (rng_fill_bytes io n False st)
      | DEV_KIND_PTMX \<Rightarrow> (Inl (Fail (- ENOSYS)), st)
      | _ \<Rightarrow> (failed, st))"

definition put_console :: "'d vfs_io \<Rightarrow> u8 list \<Rightarrow> 'd vfs \<Rightarrow> 'd vfs" where
  "put_console io buf st = set_mach (foldl (\<lambda>d c. io_putchar io c d) (mach st) buf) st"

definition no_fb :: "fb \<Rightarrow> bool" where
  "no_fb f \<longleftrightarrow> fb_addr f = 0 \<or> fb_pitch f = 0 \<or> fb_height f = 0"

definition stir :: "u8 list \<Rightarrow> 'd vfs \<Rightarrow> 'd vfs" where
  "stir buf st = foldl (\<lambda>s (i, c). rng_mix_u64 (ucast c + push_bit 8 (word_of_nat i)) 1 s) st (enumerate 0 buf)"

definition vfs_dev_write_chr :: "'d vfs_io \<Rightarrow> devnode \<Rightarrow> u8 list \<Rightarrow> 'd vfs \<Rightarrow> u32 vres \<times> 'd vfs" where
  "vfs_dev_write_chr io dn buf st =
     (let len = word_of_nat (length buf)
      in case dn_kind dn of
        DEV_KIND_TTY0 \<Rightarrow> (Inr len, put_console io buf st)
      | DEV_KIND_NULL \<Rightarrow> (Inr len, st)
      | DEV_KIND_ZERO \<Rightarrow> (Inr len, st)
      | DEV_KIND_FB0 \<Rightarrow>
          (let f = io_fb io (mach st)
           in if no_fb f then (failed, st)
              else let bytes = fb_pitch f * fb_height f; n = (if len < bytes then len else bytes)
                   in (Inr n, set_mach (io_fb_write io 0 (take (unat n) buf) (mach st)) st))
      | DEV_KIND_RANDOM \<Rightarrow> (Inr len, stir buf st)
      | DEV_KIND_URANDOM \<Rightarrow> (Inr len, stir buf st)
      | DEV_KIND_PTMX \<Rightarrow> (Inl (Fail (- ENOSYS)), st)
      | _ \<Rightarrow> (failed, st))"

section \<open>Device paths\<close>

definition dev_input_is_mouse_stream :: "cstr \<Rightarrow> bool" where
  "dev_input_is_mouse_stream nm \<longleftrightarrow> strcmp nm (lit ''input/mice'') = 0 \<or> strcmp nm (lit ''input/mouse0'') = 0"

definition dev_input_is_event_stream :: "cstr \<Rightarrow> bool" where
  "dev_input_is_event_stream nm \<longleftrightarrow> strcmp nm (lit ''input/event0'') = 0"

definition dev_inode :: "u32 \<Rightarrow> u16 \<Rightarrow> u64 \<Rightarrow> vfs_inode" where
  "dev_inode ino mode ptr = vfs_inode_set_ptr (zero_inode\<lparr>i_ino := ino, i_mode := mode, i_uid := 0, i_gid := 0, i_size := 0\<rparr>) ptr"

definition vfs_try_resolve_devpath :: "cstr \<Rightarrow> 'd vfs \<Rightarrow> vfs_inode option" where
  "vfs_try_resolve_devpath apath st =
     (if strcmp apath (lit ''/dev'') = 0 then None
      else if strncmp apath (lit ''/dev/'') 5 \<noteq> 0 then None
      else let nm = drop 5 apath
        in if strcmp nm (lit ''pts'') = 0 then Some (dev_inode 0xD0FFF000 (VFS_INODE_DIR OR 0x1ED) 0)
        else if strcmp nm (lit ''input'') = 0 then Some (dev_inode 0xD0FFE000 (VFS_INODE_DIR OR 0x1ED) 0)
        else if dev_input_is_mouse_stream nm \<or> dev_input_is_event_stream nm then
          Some (dev_inode (if dev_input_is_event_stream nm then 0xD0FFE101 else 0xD0FFE100) (VFS_INODE_CHR OR 0x1B6) 0)
        else if strncmp nm (lit ''pts/'') 4 = 0 then
          (case parse_decimal_str (drop 4 nm) of
             None \<Rightarrow> None
           | Some idx \<Rightarrow> Some (dev_inode (0xD0FFF100 + word_of_int idx) (VFS_INODE_CHR OR 0x190) 0))
        else if nm = [] \<or> slash \<in> set nm then None
        else case vfs_devnode_find nm st of
               None \<Rightarrow> None
             | Some idx \<Rightarrow>
                 Some (dev_inode (0xD0000000 + word_of_nat idx) (dn_mode (g_devnodes st ! idx)) (dn_ptr (g_devnodes st ! idx))))"

section \<open>Mounts\<close>

definition vfs_register :: "cstr \<Rightarrow> fs_driver \<Rightarrow> 'd vfs \<Rightarrow> bool \<times> 'd vfs" where
  "vfs_register nm fn st =
     (if 4 \<le> length (g_fsreg st) then (False, st) else (True, st\<lparr>g_fsreg := g_fsreg st @ [(nm, fn)]\<rparr>))"

definition vfs_init :: "'d vfs_io \<Rightarrow> 'd vfs \<Rightarrow> 'd vfs" where
  "vfs_init io st =
     (let s0 = st\<lparr>g_mounts := [], g_fsreg := [], g_devnodes := [], g_cwd := lit ''/''\<rparr>;
          s1 = snd (vfs_register (lit ''ext2'') FS_EXT2 s0);
          s2 = snd (vfs_register (lit ''ext4'') FS_EXT4 s1);
          s3 = snd (vfs_register (lit ''fat32'') FS_FAT32 s2);
          s4 = snd (vfs_register (lit ''proc'') FS_PROC s3)
      in vfs_build_devnodes io s4)"

definition mount_covers :: "cstr \<Rightarrow> cstr \<Rightarrow> bool" where
  "mount_covers path mp \<longleftrightarrow>
     strncmp path mp (int (strlen mp)) = 0 \<and>
     (chr_at path (strlen mp) = 0 \<or> chr_at path (strlen mp) = slash \<or> strlen mp = 1)"

fun find_mount_loop :: "cstr \<Rightarrow> 's vfs_superblock list \<Rightarrow> nat \<Rightarrow> nat option \<Rightarrow> int \<Rightarrow> nat option" where
  "find_mount_loop path [] i best best_len = best"
| "find_mount_loop path (m # ms) i best best_len =
     (let ml = int (strlen (mountpoint m))
      in if best_len < ml \<and> mount_covers path (mountpoint m)
         then find_mount_loop path ms (Suc i) (Some i) ml
         else find_mount_loop path ms (Suc i) best best_len)"

definition vfs_find_mount :: "cstr \<Rightarrow> 'd vfs \<Rightarrow> nat option" where
  "vfs_find_mount path st = find_mount_loop path (g_mounts st) 0 None (-1)"

definition vfs_mount :: "(fs_driver \<Rightarrow> cstr \<Rightarrow> cstr \<Rightarrow> 'd vfs \<Rightarrow> unit vres \<times> 'd vfs) \<Rightarrow> cstr \<Rightarrow> cstr \<Rightarrow> cstr \<Rightarrow> 'd vfs \<Rightarrow> unit vres \<times> 'd vfs" where
  "vfs_mount mount_fn dev target fsname st =
     (case find (\<lambda>(nm, fn). strcmp nm fsname = 0) (g_fsreg st) of
        None \<Rightarrow> (failed, st)
      | Some (nm, fn) \<Rightarrow> mount_fn fn dev target st)"

definition vfs_add_superblock :: "'d ext2_st vfs_superblock \<Rightarrow> 'd vfs \<Rightarrow> bool \<times> 'd vfs" where
  "vfs_add_superblock m st =
     (if VFS_MAX_MOUNTS \<le> length (g_mounts st) then (False, st) else (True, st\<lparr>g_mounts := g_mounts st @ [m]\<rparr>))"

definition vfs_has_mounts :: "'d vfs \<Rightarrow> bool" where
  "vfs_has_mounts st \<longleftrightarrow> 0 < length (g_mounts st)"

section \<open>Resolving a path\<close>

function walk_path :: "'s vfs_superblock \<Rightarrow> cstr \<Rightarrow> vfs_inode \<Rightarrow> 's \<Rightarrow> vfs_inode option \<times> 's" where
  "walk_path m p cur st =
     (if p = [] then (Some cur, st)
      else let part = take (VFS_NAME_MAX - 1) (takeWhile (\<lambda>c. c \<noteq> slash) p);
               rest = drop 1 (dropWhile (\<lambda>c. c \<noteq> slash) p)
           in if part = [] \<or> strcmp part (lit ''.'') = 0 \<or> strcmp part (lit ''..'') = 0 then walk_path m rest cur st
              else case op_lookup (sb_ops m) (fs_private m) cur part cur st of
                     (None, s1) \<Rightarrow> (None, s1)
                   | (Some nxt, s1) \<Rightarrow> walk_path m rest nxt s1)"
  by pat_completeness auto
termination
proof (relation "measure (\<lambda>(m, p, cur, st). length p)", goal_cases)
  case 1
  then show ?case by simp
next
  case (2 m p cur st part rest)
  then show ?case using length_dropWhile_le [of "\<lambda>c. c \<noteq> slash" p] by (cases p) (auto simp: diff_less_Suc less_Suc_eq_le)
next
  case (3 m p cur st part rest x y nxt)
  then show ?case using length_dropWhile_le [of "\<lambda>c. c \<noteq> slash" p] by (cases p) (auto simp: diff_less_Suc less_Suc_eq_le)
qed

declare walk_path.simps [simp del]

definition rel_path :: "cstr \<Rightarrow> cstr \<Rightarrow> cstr" where
  "rel_path mp apath =
     (let ml = strlen mp in if ml = 1 then drop 1 apath else drop (ml + (if chr_at apath ml = slash then 1 else 0)) apath)"

definition resolve_abs :: "cstr \<Rightarrow> 'd vfs \<Rightarrow> (vfs_inode \<times> nat option) vres \<times> 'd vfs" where
  "resolve_abs apath st =
     (case vfs_try_resolve_devpath apath st of
        Some ino \<Rightarrow> (Inr (ino, None), st)
      | None \<Rightarrow>
          (case vfs_find_mount apath st of
             None \<Rightarrow> (failed, st)
           | Some k \<Rightarrow>
               let m = g_mounts st ! k
               in case walk_path m (rel_path (mountpoint m) apath) (sb_root m) (e2 st) of
                    (None, e) \<Rightarrow> (failed, st\<lparr>e2 := e\<rparr>)
                  | (Some ino, e) \<Rightarrow> (Inr (ino, Some k), st\<lparr>e2 := e\<rparr>)))"

definition vfs_resolve :: "cstr option \<Rightarrow> 'd vfs \<Rightarrow> (vfs_inode \<times> nat option) vres \<times> 'd vfs" where
  "vfs_resolve path st =
     (case normalize_path path st of
        (None, s1) \<Rightarrow> (Inl Overflow, s1)
      | (Some apath, s1) \<Rightarrow> resolve_abs apath s1)"

section \<open>Whole-file operations\<close>

definition with_sb :: "nat option \<Rightarrow> 'd vfs \<Rightarrow> ('d ext2_st vfs_superblock \<Rightarrow> 'a vres \<times> 'd vfs) \<Rightarrow> 'a vres \<times> 'd vfs" where
  "with_sb sbp st k = (case sbp of None \<Rightarrow> (Inl NullDeref, st) | Some i \<Rightarrow> k (g_mounts st ! i))"

definition op_result :: "'d vfs \<Rightarrow> (int + 'a) \<times> 'd ext2_st \<Rightarrow> 'a vres \<times> 'd vfs" where
  "op_result st r = (case r of (v, e) \<Rightarrow> (map_sum Fail id v, st\<lparr>e2 := e\<rparr>))"

definition bdev_at :: "'d vfs_io \<Rightarrow> u64 \<Rightarrow> 'd vfs \<Rightarrow> 'd block_device option" where
  "bdev_at io ptr st =
     (if ptr = 0 then None
      else map_option (\<lambda>i. block_devices (blkdevs st) ! i) (first_idx (\<lambda>i. io_bdev_addr io i = ptr) 0 BLOCK_MAX_DEVICES))"

definition secbuf_sectors :: "u32 \<Rightarrow> u32 \<Rightarrow> u32" where
  "secbuf_sectors ss n =
     (let s0 = (n + ss - 1) div ss; s1 = (if s0 * ss > 65536 then 65536 div ss else s0)
      in if s1 = 0 then 1 else s1)"

definition bdev_read_file :: "'d vfs_io \<Rightarrow> vfs_inode \<Rightarrow> u32 \<Rightarrow> 'd vfs \<Rightarrow> u8 list vres \<times> 'd vfs" where
  "bdev_read_file io ino n st =
     (case bdev_at io (vfs_inode_get_ptr ino) st of
        None \<Rightarrow> (failed, st)
      | Some b \<Rightarrow>
          if read_sectors (ops b) = None \<or> sector_size b = 0 then (failed, st)
          else if n = 0 then (Inr [], st)
          else let sct = secbuf_sectors (sector_size b) n
               in case block_read_sectors (Some b) (mach st) 0 sct (Some (rd_secbuf st)) of
                    (d, rc, out) \<Rightarrow>
                      let s1 = set_mach d (st\<lparr>rd_secbuf := the out\<rparr>); m = sct * sector_size b
                      in if rc < 0 then (failed, s1)
                         else (Inr (get_bytes (the out) 0 (unat (if m > n then n else m))), s1))"

definition read_resolved :: "'d vfs_io \<Rightarrow> vfs_inode \<Rightarrow> nat option \<Rightarrow> u32 \<Rightarrow> 'd vfs \<Rightarrow> u8 list vres \<times> 'd vfs" where
  "read_resolved io ino sbp n st =
     (if i_mode ino AND 0xF000 = VFS_INODE_CHR then
        (case vfs_devnode_from_inode ino st of
           Some idx \<Rightarrow> vfs_dev_read_chr io (g_devnodes st ! idx) n st
         | None \<Rightarrow> map_prod Inr id (vfs_read_tty io n st))
      else if i_mode ino AND 0xF000 = VFS_INODE_BLK then bdev_read_file io ino n st
      else case sbp of
             None \<Rightarrow> (failed, st)
           | Some k \<Rightarrow>
               let m = g_mounts st ! k
               in case op_read (sb_ops m) of
                    None \<Rightarrow> (failed, st)
                  | Some rd \<Rightarrow> op_result st (rd (fs_private m) ino 0 n (e2 st)))"

definition vfs_read_file :: "'d vfs_io \<Rightarrow> cstr option \<Rightarrow> u32 \<Rightarrow> 'd vfs \<Rightarrow> u8 list vres \<times> 'd vfs" where
  "vfs_read_file io path n st =
     (case vfs_resolve path st of
        (Inl Overflow, s1) \<Rightarrow> (Inl Overflow, s1)
      | (Inl e, s1) \<Rightarrow> (failed, s1)
      | (Inr (ino, sbp), s1) \<Rightarrow>
          if vfs_permission_check ino 4 (cur_task s1) < 0 then (failed, s1)
          else case path of
            Some p \<Rightarrow>
              if strcmp p (lit ''/dev/input/mice'') = 0 \<or> strcmp p (lit ''/dev/input/mouse0'') = 0 then
                (case io_mouse_read io n (mach s1) of (r, d) \<Rightarrow> (map_sum Fail id r, set_mach d s1))
              else if strcmp p (lit ''/dev/input/event0'') = 0 then
                (case io_event_read io n (mach s1) of (r, d) \<Rightarrow> (map_sum Fail id r, set_mach d s1))
              else read_resolved io ino sbp n s1
          | None \<Rightarrow> read_resolved io ino sbp n s1)"

definition bdev_write_file :: "'d vfs_io \<Rightarrow> vfs_inode \<Rightarrow> u8 list \<Rightarrow> 'd vfs \<Rightarrow> u32 vres \<times> 'd vfs" where
  "bdev_write_file io ino buf st =
     (case bdev_at io (vfs_inode_get_ptr ino) st of
        None \<Rightarrow> (failed, st)
      | Some b \<Rightarrow>
          let len = word_of_nat (length buf)
          in if write_sectors (ops b) = None \<or> sector_size b = 0 then (failed, st)
             else if len = 0 then (Inr 0, st)
             else let sct = secbuf_sectors (sector_size b) len; m = sct * sector_size b;
                      buf1 = put_bytes (wr_secbuf st) 0 (replicate (unat m) 0);
                      buf2 = put_bytes buf1 0 (take (unat (if len < m then len else m)) buf)
                  in case block_write_sectors (Some b) (mach st) 0 sct (Some buf2) of
                       (d, rc) \<Rightarrow> (if rc < 0 then failed else Inr len, set_mach d (st\<lparr>wr_secbuf := buf2\<rparr>)))"

definition write_resolved :: "'d vfs_io \<Rightarrow> vfs_inode \<Rightarrow> nat option \<Rightarrow> u8 list \<Rightarrow> 'd vfs \<Rightarrow> u32 vres \<times> 'd vfs" where
  "write_resolved io ino sbp buf st =
     (if vfs_permission_check ino 2 (cur_task st) < 0 then (failed, st)
      else if i_mode ino AND 0xF000 = VFS_INODE_CHR then
        (case vfs_devnode_from_inode ino st of
           Some idx \<Rightarrow> vfs_dev_write_chr io (g_devnodes st ! idx) buf st
         | None \<Rightarrow> (Inr (word_of_nat (length buf)), put_console io buf st))
      else if i_mode ino AND 0xF000 = VFS_INODE_BLK then bdev_write_file io ino buf st
      else with_sb sbp st (\<lambda>m.
             case op_write (sb_ops m) of
               None \<Rightarrow> (failed, st)
             | Some wr \<Rightarrow> op_result st (wr (fs_private m) ino 0 buf (e2 st))))"

text \<open>The parent directory of a path and the last name, with permission to change the directory.\<close>

definition resolve_parent ::
  "cstr \<Rightarrow> ('d ext2_st filesystem_ops \<Rightarrow> bool) \<Rightarrow> 'd vfs \<Rightarrow> (vfs_inode \<times> 'd ext2_st vfs_superblock \<times> cstr) vres \<times> 'd vfs" where
  "resolve_parent apath has_op st =
     (case path_split_last apath of
        None \<Rightarrow> (failed, st)
      | Some (parent_path, leaf) \<Rightarrow>
          (case vfs_resolve (Some parent_path) st of
             (Inl Overflow, s1) \<Rightarrow> (Inl Overflow, s1)
           | (Inl e, s1) \<Rightarrow> (failed, s1)
           | (Inr (dir, sbp), s1) \<Rightarrow>
               with_sb sbp s1 (\<lambda>m.
                 if \<not> has_op (sb_ops m) then (failed, s1)
                 else if vfs_permission_check dir 3 (cur_task s1) < 0 then (failed, s1)
                 else (Inr (dir, m, leaf), s1))))"

definition vfs_write_file :: "'d vfs_io \<Rightarrow> vfs_inode \<Rightarrow> cstr option \<Rightarrow> u8 list \<Rightarrow> 'd vfs \<Rightarrow> u32 vres \<times> 'd vfs" where
  "vfs_write_file io garbage path buf st =
     (case normalize_path path st of
        (None, s0) \<Rightarrow> (Inl Overflow, s0)
      | (Some apath, s0) \<Rightarrow>
          (case vfs_resolve (Some apath) s0 of
             (Inl Overflow, s1) \<Rightarrow> (Inl Overflow, s1)
           | (Inr (ino, sbp), s1) \<Rightarrow> write_resolved io ino sbp buf s1
           | (Inl e, s1) \<Rightarrow>
               (case resolve_parent apath (\<lambda>o1. op_create o1 \<noteq> None) s1 of
                  (Inl e, s2) \<Rightarrow> (Inl e, s2)
                | (Inr (dir, m, leaf), s2) \<Rightarrow>
                    (case the (op_create (sb_ops m)) (fs_private m) dir leaf
                            (VFS_INODE_FILE OR (0x1A4 AND NOT (vfs_current_umask s2))) (cur_task s2) garbage (e2 s2) of
                       (Inl e, x) \<Rightarrow> (failed, s2\<lparr>e2 := x\<rparr>)
                     | (Inr ino, x) \<Rightarrow>
                         (case op_write (sb_ops m) of
                            None \<Rightarrow> (failed, s2\<lparr>e2 := x\<rparr>)
                          | Some wr \<Rightarrow> op_result s2 (wr (fs_private m) ino 0 buf x))))))"

definition vfs_touch :: "'d vfs_io \<Rightarrow> vfs_inode \<Rightarrow> cstr option \<Rightarrow> 'd vfs \<Rightarrow> unit vres \<times> 'd vfs" where
  "vfs_touch io garbage path st = map_prod (map_sum (\<lambda>e. case e of Fail _ \<Rightarrow> Fail (-1) | _ \<Rightarrow> e) (\<lambda>_. ())) id (vfs_write_file io garbage path [] st)"

definition vfs_mkdir :: "vfs_inode \<Rightarrow> cstr option \<Rightarrow> 'd vfs \<Rightarrow> unit vres \<times> 'd vfs" where
  "vfs_mkdir garbage path st =
     (case normalize_path path st of
        (None, s0) \<Rightarrow> (Inl Overflow, s0)
      | (Some apath, s0) \<Rightarrow>
          (case resolve_parent apath (\<lambda>o1. op_mkdir o1 \<noteq> None) s0 of
             (Inl e, s1) \<Rightarrow> (Inl e, s1)
           | (Inr (dir, m, leaf), s1) \<Rightarrow>
               map_prod (map_sum id (\<lambda>_. ())) id (op_result s1 (the (op_mkdir (sb_ops m)) (fs_private m) dir leaf
                 (VFS_INODE_DIR OR (0x1ED AND NOT (vfs_current_umask s1))) (cur_task s1) garbage (e2 s1)))))"

definition vfs_unlink :: "vfs_inode \<Rightarrow> cstr option \<Rightarrow> 'd vfs \<Rightarrow> unit vres \<times> 'd vfs" where
  "vfs_unlink garbage path st =
     (case normalize_path path st of
        (None, s0) \<Rightarrow> (Inl Overflow, s0)
      | (Some apath, s0) \<Rightarrow>
          (case resolve_parent apath (\<lambda>o1. op_unlink o1 \<noteq> None) s0 of
             (Inl e, s1) \<Rightarrow> (Inl e, s1)
           | (Inr (dir, m, leaf), s1) \<Rightarrow>
               (case op_lookup (sb_ops m) (fs_private m) dir leaf garbage (e2 s1) of
                  (victim, x) \<Rightarrow>
                    if (case victim of None \<Rightarrow> False
                        | Some v \<Rightarrow> i_mode dir AND 0x200 \<noteq> 0 \<and> euid (cur_task s1) \<noteq> 0 \<and>
                            euid (cur_task s1) \<noteq> ucast (i_uid dir) \<and> euid (cur_task s1) \<noteq> ucast (i_uid v))
                    then (failed, s1\<lparr>e2 := x\<rparr>)
                    else op_result s1 (the (op_unlink (sb_ops m)) (fs_private m) dir leaf x))))"

section \<open>Directories and attributes\<close>

definition enter_dir :: "cstr \<Rightarrow> 'd vfs \<Rightarrow> unit vres \<times> 'd vfs" where
  "enter_dir apath st =
     (case vfs_resolve (Some apath) st of
        (Inl Overflow, s1) \<Rightarrow> (Inl Overflow, s1)
      | (Inl e, s1) \<Rightarrow> (failed, s1)
      | (Inr (ino, sbp), s1) \<Rightarrow>
          if i_mode ino AND VFS_INODE_DIR = 0 then (failed, s1)
          else if vfs_permission_check ino 1 (cur_task s1) < 0 then (failed, s1)
          else (Inr (), s1))"

definition vfs_chdir :: "cstr option \<Rightarrow> 'd vfs \<Rightarrow> unit vres \<times> 'd vfs" where
  "vfs_chdir path st =
     (case normalize_path path st of
        (None, s0) \<Rightarrow> (Inl Overflow, s0)
      | (Some apath, s0) \<Rightarrow>
          (case enter_dir apath s0 of
             (Inl e, s1) \<Rightarrow> (Inl e, s1)
           | (Inr _, s1) \<Rightarrow> (Inr (), set_cwd apath s1)))"

definition vfs_chroot :: "cstr option \<Rightarrow> 'd vfs \<Rightarrow> unit vres \<times> 'd vfs" where
  "vfs_chroot path st =
     (if path = None then (failed, st)
      else case normalize_path path st of
        (None, s0) \<Rightarrow> (Inl Overflow, s0)
      | (Some apath, s0) \<Rightarrow>
          (case enter_dir apath s0 of
             (Inl e, s1) \<Rightarrow> (Inl e, s1)
           | (Inr _, s1) \<Rightarrow>
               (Inr (), upd_task (process_current_task s1)
                  (\<lambda>t. t\<lparr>root := apath, cwd := (if cwd t = [] then lit ''/'' else cwd t)\<rparr>) s1)))"

definition vfs_statfs_path :: "cstr option \<Rightarrow> 'd vfs \<Rightarrow> (u32 \<times> u32) vres \<times> 'd vfs" where
  "vfs_statfs_path path st =
     (let (p, s1) = (case path of Some (c # r) \<Rightarrow> (c # r, st) | _ \<Rightarrow> vfs_current_cwd st)
      in case vfs_find_mount p s1 of
           None \<Rightarrow> (failed, s1)
         | Some k \<Rightarrow>
             (case op_statfs (sb_ops (g_mounts s1 ! k)) of
                None \<Rightarrow> (failed, s1)
              | Some f \<Rightarrow> (map_sum Fail id (f (fs_private (g_mounts s1 ! k)) (e2 s1)), s1)))"

definition vfs_inode_get_block_device :: "'d vfs_io \<Rightarrow> vfs_inode \<Rightarrow> 'd vfs \<Rightarrow> 'd block_device option" where
  "vfs_inode_get_block_device io ino st =
     (if i_mode ino AND 0xF000 \<noteq> VFS_INODE_BLK then None else bdev_at io (vfs_inode_get_ptr ino) st)"

type_synonym 'd setattr_fn = "nat \<Rightarrow> vfs_inode \<Rightarrow> u16 \<Rightarrow> u16 \<Rightarrow> u16 \<Rightarrow> u32 \<Rightarrow> 'd ext2_st \<Rightarrow> bool \<times> 'd ext2_st"

definition vfs_setattr :: "'d setattr_fn \<Rightarrow> cstr option \<Rightarrow> u16 \<Rightarrow> u16 \<Rightarrow> u16 \<Rightarrow> u32 \<Rightarrow> 'd vfs \<Rightarrow> unit vres \<times> 'd vfs" where
  "vfs_setattr ext4_setattr path mode u g msk st =
     (if path = None then (Inl (Fail (- EINVAL)), st)
      else case vfs_resolve path st of
        (Inl Overflow, s1) \<Rightarrow> (Inl Overflow, s1)
      | (Inl e, s1) \<Rightarrow> (failed, s1)
      | (Inr (ino, None), s1) \<Rightarrow> (Inr (), s1)
      | (Inr (ino, Some k), s1) \<Rightarrow>
          let m = g_mounts s1 ! k
          in if strcmp (fs_name m) (lit ''ext2'') = 0 then
               (case ext2_setattr (fs_private m) ino mode u g msk (e2 s1) of (ok, x) \<Rightarrow> (if ok then Inr () else failed, s1\<lparr>e2 := x\<rparr>))
             else if strcmp (fs_name m) (lit ''ext4'') = 0 then
               (case ext4_setattr (fs_private m) ino mode u g msk (e2 s1) of (ok, x) \<Rightarrow> (if ok then Inr () else failed, s1\<lparr>e2 := x\<rparr>))
             else (Inr (), s1))"

definition vfs_chmod :: "'d setattr_fn \<Rightarrow> cstr option \<Rightarrow> u16 \<Rightarrow> 'd vfs \<Rightarrow> unit vres \<times> 'd vfs" where
  "vfs_chmod ext4_setattr path mode st = vfs_setattr ext4_setattr path mode 0 0 1 st"

definition vfs_chown :: "'d setattr_fn \<Rightarrow> cstr option \<Rightarrow> u16 \<Rightarrow> u16 \<Rightarrow> 'd vfs \<Rightarrow> unit vres \<times> 'd vfs" where
  "vfs_chown ext4_setattr path u g st = vfs_setattr ext4_setattr path 0 u g 6 st"

section \<open>The mount list as text\<close>

definition append_str :: "nat \<Rightarrow> cstr \<Rightarrow> cstr \<Rightarrow> cstr" where
  "append_str n out s = out @ take (n - 1 - length out) s"

definition or_default :: "cstr \<Rightarrow> string \<Rightarrow> cstr" where
  "or_default s d = (if s = [] then lit d else s)"

definition mount_fields :: "'s vfs_superblock \<Rightarrow> cstr list" where
  "mount_fields m =
     [or_default (dev_name m) ''none'', lit '' '', or_default (mountpoint m) ''/'', lit '' '',
      or_default (fs_name m) ''unknown'', lit '' rw 0 0'' @ [10]]"

fun snapshot_loop :: "nat \<Rightarrow> 's vfs_superblock list \<Rightarrow> cstr \<Rightarrow> cstr" where
  "snapshot_loop n [] out = out"
| "snapshot_loop n (m # ms) out =
     (let out1 = foldl (append_str n) out (mount_fields m)
      in if n \<le> length out1 + 1 then out1 else snapshot_loop n ms out1)"

definition vfs_mounts_snapshot :: "u32 \<Rightarrow> 'd vfs \<Rightarrow> cstr vres" where
  "vfs_mounts_snapshot n st =
     (if n = 0 then failed
      else let out = snapshot_loop (unat n) (g_mounts st) []
           in Inr (if unat n \<le> length out then take (unat n - 1) out else out))"

section \<open>The frame buffer device\<close>

definition EDGE_FBDEV_USER_BASE :: u64 where [model_simps]: "EDGE_FBDEV_USER_BASE = 0x38000000"
definition EDGE_FBDEV_USER_MAX_PAGES :: u32 where [model_simps]: "EDGE_FBDEV_USER_MAX_PAGES = 32"

text \<open>The common start of the device operations: the node a path names.\<close>

definition resolve_chr :: "cstr option \<Rightarrow> 'd vfs \<Rightarrow> devnode vres \<times> 'd vfs" where
  "resolve_chr path st =
     (if path = None then (Inl (Fail (- EINVAL)), st)
      else case vfs_resolve path st of
        (Inl Overflow, s1) \<Rightarrow> (Inl Overflow, s1)
      | (Inl e, s1) \<Rightarrow> (Inl (Fail (- EINVAL)), s1)
      | (Inr (ino, sbp), s1) \<Rightarrow>
          if i_mode ino AND 0xF000 \<noteq> VFS_INODE_CHR then (Inl (Fail (- EINVAL)), s1)
          else case vfs_devnode_from_inode ino s1 of
                 None \<Rightarrow> (Inl (Fail (- EINVAL)), s1)
               | Some idx \<Rightarrow> (Inr (g_devnodes s1 ! idx), s1))"

record edge_fb_bitfield =
  bf_offset :: u32
  bf_length :: u32

record fb_info =
  fi_width :: u32
  fi_height :: u32
  fi_pitch :: u32
  fi_bpp :: u32

record edge_fb_fix_screeninfo =
  fix_id :: cstr
  smem_start :: u64
  smem_len :: u32
  fix_type :: u32
  fix_visual :: u32
  line_length :: u32

record edge_fb_var_screeninfo =
  xres :: u32
  yres :: u32
  xres_virtual :: u32
  yres_virtual :: u32
  bits_per_pixel :: u32
  var_red :: edge_fb_bitfield
  var_green :: edge_fb_bitfield
  var_blue :: edge_fb_bitfield
  var_transp :: edge_fb_bitfield
  var_width :: u32
  var_height :: u32

datatype fb_reply = FbInfo fb_info | FbFix edge_fb_fix_screeninfo | FbVar edge_fb_var_screeninfo

definition vfs_dev_ioctl :: "'d vfs_io \<Rightarrow> cstr option \<Rightarrow> u32 \<Rightarrow> bool \<Rightarrow> 'd vfs \<Rightarrow> fb_reply vres \<times> 'd vfs" where
  "vfs_dev_ioctl io path cmd has_arg st =
     (case resolve_chr path st of
        (Inl e, s1) \<Rightarrow> (Inl e, s1)
      | (Inr dn, s1) \<Rightarrow>
          let f = io_fb io (mach s1)
          in if dn_kind dn \<noteq> DEV_KIND_FB0 then (Inl (Fail (- ENOSYS)), s1)
             else if \<not> has_arg then (Inl (Fail (- EINVAL)), s1)
             else if cmd = 0x46FF then
               (Inr (FbInfo \<lparr>fi_width = fb_width f, fi_height = fb_height f, fi_pitch = fb_pitch f, fi_bpp = fb_bpp f\<rparr>), s1)
             else if cmd = 0x4602 then
               (Inr (FbFix \<lparr>fix_id = lit ''EdgeOS fb0'', smem_start = fb_addr f, smem_len = fb_pitch f * fb_height f,
                  fix_type = 0, fix_visual = 2, line_length = fb_pitch f\<rparr>), s1)
             else if cmd = 0x4600 then
               (Inr (FbVar \<lparr>xres = fb_width f, yres = fb_height f, xres_virtual = fb_width f, yres_virtual = fb_height f,
                  bits_per_pixel = fb_bpp f, var_red = \<lparr>bf_offset = fb_r_pos f, bf_length = 8\<rparr>,
                  var_green = \<lparr>bf_offset = fb_g_pos f, bf_length = 8\<rparr>, var_blue = \<lparr>bf_offset = fb_b_pos f, bf_length = 8\<rparr>,
                  var_transp = \<lparr>bf_offset = 24, bf_length = (if fb_bpp f = 32 then 8 else 0)\<rparr>,
                  var_width = 0xFFFFFFFF, var_height = 0xFFFFFFFF\<rparr>), s1)
             else (Inl (Fail (- ENOSYS)), s1))"

definition vfs_dev_mmap :: "'d vfs_io \<Rightarrow> cstr option \<Rightarrow> 'd vfs \<Rightarrow> (u64 \<times> u32) vres \<times> 'd vfs" where
  "vfs_dev_mmap io path st =
     (case resolve_chr path st of
        (Inl e, s1) \<Rightarrow> (Inl e, s1)
      | (Inr dn, s1) \<Rightarrow>
          let f = io_fb io (mach s1); n = fb_pitch f * fb_height f
          in if dn_kind dn \<noteq> DEV_KIND_FB0 then (Inl (Fail (- ENOSYS)), s1)
             else if no_fb f then (failed, s1)
             else case io_fb_window io (mach s1) of
                    Some (pages, off) \<Rightarrow>
                      if 0 < pages \<and> pages \<le> EDGE_FBDEV_USER_MAX_PAGES then (Inr (EDGE_FBDEV_USER_BASE + off, n), s1)
                      else (Inr (fb_addr f, n), s1)
                  | None \<Rightarrow> (Inr (fb_addr f, n), s1))"

definition vfs_dev_pwrite :: "'d vfs_io \<Rightarrow> vfs_inode \<Rightarrow> cstr option \<Rightarrow> u8 list \<Rightarrow> u64 \<Rightarrow> 'd vfs \<Rightarrow> u32 vres \<times> 'd vfs" where
  "vfs_dev_pwrite io garbage path buf off st =
     (case resolve_chr path st of
        (Inl e, s1) \<Rightarrow> (Inl e, s1)
      | (Inr dn, s1) \<Rightarrow>
          if dn_kind dn = DEV_KIND_FB0 then
            (let f = io_fb io (mach s1); bytes = fb_pitch f * fb_height f; len = word_of_nat (length buf) :: u32;
                 e = off + ucast len;
                 n = (if e < off \<or> e > ucast bytes then ucast (ucast bytes - off) else len)
             in if no_fb f then (failed, s1)
                else if ucast bytes \<le> off then (Inr 0, s1)
                else (Inr n, set_mach (io_fb_write io (ucast off) (take (unat n) buf) (mach s1)) s1))
          else vfs_write_file io garbage path buf s1)"

end
