(* ===== verification/Ext2Mount.thy ===== *)
theory Ext2Mount
  imports Vfs
begin

text \<open>
  The operation table of \<^verbatim>\<open>src/fs/ext2/ext2.c\<close> and its mount routines, which read the superblock, the
  group descriptor and the root inode into a fresh slot of \<open>g_ext2_mounts\<close> and add a superblock to
  the mount table. The shift that gives the block size takes its count modulo 32, as the processor's
  instruction does.
\<close>

section \<open>The ext2 operation table\<close>

definition fail_or :: "'a option \<times> 's \<Rightarrow> (int + 'a) \<times> 's" where
  "fail_or r = (case r of (None, s) \<Rightarrow> (Inl (-1), s) | (Some x, s) \<Rightarrow> (Inr x, s))"

definition ext2_ops :: "'d ext2_st filesystem_ops" where
  "ext2_ops =
     \<lparr>op_lookup = ext2_lookup,
      op_read = Some (\<lambda>f ino off n st. fail_or (ext2_read f ino off n st)),
      op_write = Some (\<lambda>f ino off buf st. fail_or (map_prod (map_option fst) id (ext2_write f ino off buf st))),
      op_create = Some (\<lambda>f dir nm mode t out st. fail_or (ext2_create f dir nm mode (euid t) (egid t) out st)),
      op_mkdir = Some (\<lambda>f dir nm mode t out st. fail_or (ext2_mkdir f dir nm mode (euid t) (egid t) out st)),
      op_unlink = Some (\<lambda>f dir nm st. case ext2_unlink f dir nm st of (ok, s) \<Rightarrow> (if ok then Inr () else Inl (-1), s)),
      op_readdir = Some ext2_readdir,
      op_statfs = Some (\<lambda>f st. Inr (ext2_statfs f st))\<rparr>"

section \<open>Mounting\<close>

definition block_dev_name :: "cstr \<Rightarrow> cstr" where
  "block_dev_name dev = (if chr_at dev 0 = slash then dev else lit ''/dev/'' @ dev)"

text \<open>The root file system must contain the first program.\<close>

definition has_init :: "nat \<Rightarrow> vfs_inode \<Rightarrow> vfs_inode \<Rightarrow> 'd ext2_st \<Rightarrow> bool \<times> 'd ext2_st" where
  "has_init f rt garbage st =
     (case ext2_lookup f rt (lit ''sbin'') garbage st of
        (None, s1) \<Rightarrow> (False, s1)
      | (Some sbin, s1) \<Rightarrow>
          if i_mode sbin AND 0xF000 \<noteq> VFS_INODE_DIR then (False, s1)
          else case ext2_lookup f sbin (lit ''init'') garbage s1 of
                 (None, s2) \<Rightarrow> (False, s2)
               | (Some init, s2) \<Rightarrow> (i_mode init AND 0xF000 = VFS_INODE_FILE, s2))"

definition zero_fs :: "'d block_device \<Rightarrow> 'd ext2_fs" where
  "zero_fs b = \<lparr>bdev = Some b, sb = super_of (\<lambda>_. 0) 0, bg = bgdesc_of (\<lambda>_. 0) 0, block_size = 0\<rparr>"


definition load_volume :: "nat \<Rightarrow> bool \<Rightarrow> 'd ext2_st \<Rightarrow> ext2_inode option \<times> 'd ext2_st" where
  "load_volume f ext4_mode x =
     (case dev_read f 2 2 x of
        (False, x1) \<Rightarrow> (None, x1)
      | (True, x1) \<Rightarrow>
          let s = super_of (g_io x1) 0; x2 = upd_fs f (\<lambda>fs. fs\<lparr>sb := s\<rparr>) x1;
              bs = push_bit (unat (log_block_size s AND 31)) 1024; x3 = upd_fs f (\<lambda>fs. fs\<lparr>block_size := bs\<rparr>) x2
          in if magic s \<noteq> 0xEF53 then (None, x2)
             else if ext4_mode \<and> \<not> ext4_feature_set_supported s then (None, x2)
             else if bs = 0 \<or> 4096 < bs then (None, x3)
             else case read_block f (first_data_block s + 1) x3 of
                    (False, x4) \<Rightarrow> (None, x4)
                  | (True, x4) \<Rightarrow> read_inode f 2 (upd_fs f (\<lambda>fs. fs\<lparr>bg := bgdesc_of (g_io x4) 0\<rparr>) x4))"

definition ext2_superblock :: "cstr \<Rightarrow> cstr \<Rightarrow> cstr \<Rightarrow> nat \<Rightarrow> ext2_inode \<Rightarrow> 'd ext2_st vfs_superblock" where
  "ext2_superblock dev target fsname f rt =
     \<lparr>fs_name = (if fsname = [] then lit ''ext2'' else fsname), dev_name = block_dev_name dev, mountpoint = target,
      sb_root = zero_inode\<lparr>i_ino := 2, i_mode := vfs_mode_from_ext2 (e_mode rt), i_size := e_size rt,
                          i_uid := e_uid rt, i_gid := e_gid rt\<rparr>,
      sb_ops = ext2_ops, fs_private = f\<rparr>"

definition ext2_mount_common ::
  "vfs_inode \<Rightarrow> 'd block_device \<Rightarrow> cstr \<Rightarrow> cstr \<Rightarrow> cstr \<Rightarrow> bool \<Rightarrow> 'd vfs \<Rightarrow> unit vres \<times> 'd vfs" where
  "ext2_mount_common garbage b dev target fsname ext4_mode st =
     (let f = ext2_mount_count (e2 st)
      in if 8 \<le> f then (failed, st)
         else let x0 = upd_fs f (\<lambda>_. zero_fs b) ((e2 st)\<lparr>ext2_mount_count := Suc f\<rparr>)
              in case load_volume f ext4_mode x0 of
                   (None, x1) \<Rightarrow> (failed, st\<lparr>e2 := x1\<rparr>)
                 | (Some rt, x1) \<Rightarrow>
                     let s1 = st\<lparr>e2 := x1\<rparr>; mode = vfs_mode_from_ext2 (e_mode rt); m = ext2_superblock dev target fsname f rt
                     in if mode = 0 \<or> mode AND 0xF000 \<noteq> VFS_INODE_DIR then (failed, s1)
                        else if 16 \<le> length (fs_name m) \<or> 16 \<le> length (dev_name m) \<or> VFS_PATH_MAX \<le> length target
                        then (Inl Overflow, s1)
                        else case (if strcmp target (lit ''/'') = 0 then has_init f (sb_root m) garbage x1 else (True, x1)) of
                               (False, x2) \<Rightarrow> (failed, st\<lparr>e2 := x2\<rparr>)
                             | (True, x2) \<Rightarrow>
                                 (case vfs_add_superblock m (st\<lparr>e2 := x2\<rparr>) of
                                    (False, s3) \<Rightarrow> (failed, s3)
                                  | (True, s3) \<Rightarrow> (Inr (), s3)))"

definition ext2_mount_as :: "vfs_inode \<Rightarrow> cstr \<Rightarrow> cstr \<Rightarrow> cstr \<Rightarrow> bool \<Rightarrow> 'd vfs \<Rightarrow> unit vres \<times> 'd vfs" where
  "ext2_mount_as garbage dev target fsname ext4_mode st =
     (case block_find (blkdevs st) (if chr_at dev 0 = slash then drop 5 dev else dev) of
        None \<Rightarrow> (failed, st)
      | Some i \<Rightarrow> ext2_mount_common garbage (block_devices (blkdevs st) ! i) dev target fsname ext4_mode st)"

definition ext2_mount :: "vfs_inode \<Rightarrow> cstr \<Rightarrow> cstr \<Rightarrow> 'd vfs \<Rightarrow> unit vres \<times> 'd vfs" where
  "ext2_mount garbage dev target st = ext2_mount_as garbage dev target (lit ''ext2'') False st"

definition ext2_mount_block_as :: "vfs_inode \<Rightarrow> nat \<Rightarrow> cstr \<Rightarrow> cstr \<Rightarrow> bool \<Rightarrow> 'd vfs \<Rightarrow> unit vres \<times> 'd vfs" where
  "ext2_mount_block_as garbage i target fsname ext4_mode st =
     ext2_mount_common garbage (block_devices (blkdevs st) ! i) (cstr_of (name (block_devices (blkdevs st) ! i))) target fsname ext4_mode st"

definition ext2_mount_block :: "vfs_inode \<Rightarrow> nat \<Rightarrow> cstr \<Rightarrow> 'd vfs \<Rightarrow> unit vres \<times> 'd vfs" where
  "ext2_mount_block garbage i target st = ext2_mount_block_as garbage i target (lit ''ext2'') False st"

definition vfs_mount_blockdev ::
  "(nat \<Rightarrow> cstr \<Rightarrow> 'd vfs \<Rightarrow> unit vres \<times> 'd vfs) \<Rightarrow> vfs_inode \<Rightarrow> nat \<Rightarrow> cstr \<Rightarrow> cstr \<Rightarrow> 'd vfs \<Rightarrow> unit vres \<times> 'd vfs" where
  "vfs_mount_blockdev ext4_mount_block garbage i target fsname st =
     (if strcmp fsname (lit ''ext4'') = 0 then ext4_mount_block i target st
      else if strcmp fsname (lit ''ext2'') = 0 then ext2_mount_block garbage i target st
      else (failed, st))"

end
