(* ===== verification/VfsSpec.thy ===== *)
theory VfsSpec
  imports Ext2Mount
begin

text \<open>
  Properties of the virtual file system: which mount a path belongs to, the text of the mount list,
  the device table, the random device, and what happens on paths that have no superblock.
\<close>

section \<open>The mount table\<close>

abbreviation mlen :: "'s vfs_superblock \<Rightarrow> nat" where "mlen m \<equiv> strlen (mountpoint m)"

lemma find_mount_loop_spec:
  "(find_mount_loop path ms i best bl = best \<and> (\<forall>m \<in> set ms. mount_covers path (mountpoint m) \<longrightarrow> int (mlen m) \<le> bl)) \<or>
   (\<exists>k < length ms. find_mount_loop path ms i best bl = Some (i + k) \<and> mount_covers path (mountpoint (ms ! k)) \<and> bl < int (mlen (ms ! k)) \<and>
      (\<forall>m \<in> set ms. mount_covers path (mountpoint m) \<longrightarrow> mlen m \<le> mlen (ms ! k)) \<and>
      (\<forall>j < k. mount_covers path (mountpoint (ms ! j)) \<longrightarrow> mlen (ms ! j) < mlen (ms ! k)))"
proof (induction ms arbitrary: i best bl)
  case (Cons m ms)
  define t where "t \<longleftrightarrow> bl < int (mlen m) \<and> mount_covers path (mountpoint m)"
  let ?best = "if t then Some i else best" and ?bl = "if t then int (mlen m) else bl"
  have s: "find_mount_loop path (m # ms) i best bl = find_mount_loop path ms (Suc i) ?best ?bl"
    by (simp add: t_def Let_def)
  from Cons.IH [of "Suc i" ?best ?bl] show ?case
  proof (elim disjE conjE exE)
    assume a: "find_mount_loop path ms (Suc i) ?best ?bl = ?best" "\<forall>x \<in> set ms. mount_covers path (mountpoint x) \<longrightarrow> int (mlen x) \<le> ?bl"
    show ?case
    proof (cases t)
      case True
      then show ?thesis using a s by (intro disjI2 exI [of _ 0]) (auto simp: t_def)
    next
      case False
      then show ?thesis using a s by (intro disjI1) (auto simp: t_def)
    qed
  next
    fix k assume a: "k < length ms" "find_mount_loop path ms (Suc i) ?best ?bl = Some (Suc i + k)" "mount_covers path (mountpoint (ms ! k))"
      "?bl < int (mlen (ms ! k))" "\<forall>x \<in> set ms. mount_covers path (mountpoint x) \<longrightarrow> mlen x \<le> mlen (ms ! k)"
      "\<forall>j < k. mount_covers path (mountpoint (ms ! j)) \<longrightarrow> mlen (ms ! j) < mlen (ms ! k)"
    have m: "mount_covers path (mountpoint m) \<Longrightarrow> mlen m < mlen (ms ! k)" "bl < int (mlen (ms ! k))" using a(4) by (auto simp: t_def split: if_splits)
    show ?case
    proof (intro disjI2 exI [of _ "Suc k"] conjI ballI allI impI)
      fix j assume "j < Suc k" "mount_covers path (mountpoint ((m # ms) ! j))"
      then show "mlen ((m # ms) ! j) < mlen ((m # ms) ! Suc k)" using a(6) m by (cases j) auto
    next
      fix x assume "x \<in> set (m # ms)" "mount_covers path (mountpoint x)"
      then show "mlen x \<le> mlen ((m # ms) ! Suc k)" using a(5) m(1) by auto
    qed (use a(1-3) s m(2) in simp_all)
  qed
qed simp

lemma mount_covers_iff:
  assumes "valid_cstr path" "valid_cstr mp"
  shows "mount_covers path mp \<longleftrightarrow> take (length mp) path = mp \<and> (length mp = length path \<or> chr_at path (length mp) = slash \<or> length mp = 1)"
proof -
  have z: "chr_at path (length mp) = 0 \<longleftrightarrow> length path \<le> length mp" by (rule chr_at_zero_iff [OF assms(1)])
  have "length path \<le> length mp \<Longrightarrow> take (length mp) path = mp \<Longrightarrow> length mp = length path" by (metis length_take min.absorb1)
  then show ?thesis
    unfolding mount_covers_def strlen_length [OF assms(2)] strncmp_prefix [OF assms] z by auto
qed

text \<open>Where a path lies, without reference to the tests of the code: it is the mount point itself, or the mount
  point continued by a slash, or the mount point is the root, a single character that ends in a slash already.\<close>

definition lies_below :: "cstr \<Rightarrow> cstr \<Rightarrow> bool" where
  "lies_below path mp \<longleftrightarrow> (\<exists>rest. path = mp @ rest \<and> (rest = [] \<or> hd rest = slash \<or> length mp = 1))"

lemma covers_lies_below:
  assumes "valid_cstr path" "valid_cstr mp"
  shows "mount_covers path mp \<longleftrightarrow> lies_below path mp"
proof
  assume c: "mount_covers path mp"
  then have t: "path = mp @ drop (length mp) path"
    using mount_covers_iff [OF assms] by (metis append_take_drop_id)
  have "drop (length mp) path = [] \<or> hd (drop (length mp) path) = slash \<or> length mp = 1"
    using c unfolding mount_covers_iff [OF assms] by (auto simp: chr_at_def hd_drop_conv_nth split: if_splits)
  then show "lies_below path mp" unfolding lies_below_def using t by blast
next
  assume "lies_below path mp"
  then obtain rest where r: "path = mp @ rest" "rest = [] \<or> hd rest = slash \<or> length mp = 1" unfolding lies_below_def by blast
  then show "mount_covers path mp" unfolding mount_covers_iff [OF assms] by (cases rest) (auto simp: chr_at_def nth_append)
qed

text \<open>C28: The mount of a path is the deepest one it lies below. A path lies below a mount point if it is the mount point, or the
  mount point followed by a slash and more, or the mount point is the root of one character: \<open>/mntx\<close> does not lie
  below \<open>/mnt\<close>. There is no mount exactly if the path lies below none, and otherwise it lies below the chosen mount, no
  mount point it lies below is longer, and of equally long ones the choice is the first.\<close>

theorem find_mount_longest:
  assumes "valid_cstr path" "\<And>m. m \<in> set (g_mounts st) \<Longrightarrow> valid_cstr (mountpoint m)"
  shows "case vfs_find_mount path st of
      None \<Rightarrow> \<forall>m \<in> set (g_mounts st). \<not> lies_below path (mountpoint m)
    | Some k \<Rightarrow> k < length (g_mounts st) \<and> lies_below path (mountpoint (g_mounts st ! k)) \<and>
        (\<forall>j < length (g_mounts st). lies_below path (mountpoint (g_mounts st ! j)) \<longrightarrow>
           length (mountpoint (g_mounts st ! j)) \<le> length (mountpoint (g_mounts st ! k)) \<and>
           (j < k \<longrightarrow> length (mountpoint (g_mounts st ! j)) < length (mountpoint (g_mounts st ! k))))"
proof -
  have l: "mlen m = length (mountpoint m)" "mount_covers path (mountpoint m) \<longleftrightarrow> lies_below path (mountpoint m)"
    if "m \<in> set (g_mounts st)" for m
    using assms(2) [OF that] assms(1) by (simp_all add: strlen_length covers_lies_below)
  then have n: "mlen (g_mounts st ! j) = length (mountpoint (g_mounts st ! j))"
    "mount_covers path (mountpoint (g_mounts st ! j)) \<longleftrightarrow> lies_below path (mountpoint (g_mounts st ! j))"
    if "j < length (g_mounts st)" for j using that by simp_all
  from find_mount_loop_spec [of path "g_mounts st" 0 None "-1"] show ?thesis
  proof (elim disjE conjE exE)
    fix k assume k: "k < length (g_mounts st)" "find_mount_loop path (g_mounts st) 0 None (-1) = Some (0 + k)"
      "mount_covers path (mountpoint (g_mounts st ! k))"
      "\<forall>m \<in> set (g_mounts st). mount_covers path (mountpoint m) \<longrightarrow> mlen m \<le> mlen (g_mounts st ! k)"
      "\<forall>j < k. mount_covers path (mountpoint (g_mounts st ! j)) \<longrightarrow> mlen (g_mounts st ! j) < mlen (g_mounts st ! k)"
    then show ?thesis using n by (fastforce simp: vfs_find_mount_def)
  qed (use l order_trans in \<open>force simp: vfs_find_mount_def\<close>)
qed


text \<open>A state with two mounts, for the concrete instances.\<close>

definition demo_sb :: "cstr \<Rightarrow> ram ext2_st vfs_superblock" where
  "demo_sb mp = \<lparr>fs_name = lit ''ext2'', dev_name = lit ''/dev/ram0'', mountpoint = mp,
     sb_root = zero_inode\<lparr>i_ino := 2, i_mode := 0x41FF\<rparr>, sb_ops = ext2_ops, fs_private = 0\<rparr>"

definition demo_vfs :: "ram vfs" where
  "demo_vfs = upd_task (TaskP 0) (\<lambda>_. zero_task\<lparr>pid := 1, state := TASK_RUNNING, cwd := lit ''/''\<rparr>) (kern.extend demo_kern
     \<lparr>g_mounts = [demo_sb (lit ''/''), demo_sb (lit ''/mnt'')], g_fsreg = [], g_cwd = lit ''/'', g_devnodes = [], g_rng_state = 1,
      g_rng_entropy_bits = 0, g_rng_last_timer_ticks = 0, g_rng_last_kbd_irqs = 0, rd_secbuf = \<lambda>_. 0, wr_secbuf = \<lambda>_. 0,
      blkdevs = block_init, e2 = demo_vol\<rparr>)"

definition demo_io :: "ram vfs_io" where
  "demo_io = \<lparr>io_tsc = \<lambda>d. (1, d), io_ticks = \<lambda>_. 0, io_kbd_irqs = \<lambda>_. 0, io_kbd_last_tsc = \<lambda>_. 0, io_hlt = \<lambda>d. d,
     io_getchar = \<lambda>d. (-1, d), io_mouse_read = \<lambda>_ d. (Inr [], d), io_event_read = \<lambda>_ d. (Inr [], d), io_putchar = \<lambda>_ d. d,
     io_fb = \<lambda>_. \<lparr>fb_addr = 0, fb_width = 0, fb_height = 0, fb_pitch = 0, fb_bpp = 0, fb_r_pos = 0, fb_g_pos = 0, fb_b_pos = 0\<rparr>,
     io_fb_write = \<lambda>_ _ d. d, io_fb_window = \<lambda>_. None, io_bdev_addr = \<lambda>i. 0x8000000 + 64 * word_of_nat i\<rparr>"

lemma demo_vfs_base:
  "sched_cpus demo_vfs = sched_cpus demo_kern" "scheduler_ready demo_vfs = scheduler_ready demo_kern" "local_cpu_id demo_vfs = local_cpu_id demo_kern"
  by (simp_all add: demo_vfs_def kern.defs upd_task_def)

lemma demo_vfs_fields:
  "g_mounts demo_vfs = [demo_sb (lit ''/''), demo_sb (lit ''/mnt'')]" "g_devnodes demo_vfs = []" "e2 demo_vfs = demo_vol"
  "process_current_task demo_vfs = TaskP 0" "tasks demo_vfs (TaskP 0) = zero_task\<lparr>pid := 1, state := TASK_RUNNING, cwd := lit ''/''\<rparr>"
proof -
  have "scheduler_cpu_id demo_vfs = scheduler_cpu_id demo_kern" by (simp only: scheduler_cpu_id_def demo_vfs_base)
  then have "process_current_task demo_vfs = process_current_task demo_kern"
    by (simp only: process_current_task_def scheduler_current_task_def scheduler_cpu_local_def demo_vfs_base)
  then show "process_current_task demo_vfs = TaskP 0" by (simp add: demo_kern_inv)
qed (simp_all add: demo_vfs_def kern.defs upd_task_def)

theorem find_mount_longest_witness:
  "vfs_find_mount (lit ''/mnt/x'') demo_vfs = Some 1 \<and> lies_below (lit ''/mnt/x'') (lit ''/mnt'') \<and>
   vfs_find_mount (lit ''/mntx'') demo_vfs = Some 0 \<and> \<not> lies_below (lit ''/mntx'') (lit ''/mnt'')"
proof -
  have v: "vfs_find_mount (lit ''/mnt/x'') demo_vfs = Some 1" "vfs_find_mount (lit ''/mntx'') demo_vfs = Some 0"
    unfolding vfs_find_mount_def demo_vfs_fields by code_simp+
  have ms: "valid_cstr (mountpoint m)" if "m \<in> set (g_mounts demo_vfs)" for m using that by (auto simp: demo_vfs_fields demo_sb_def lit_def)
  have p: "valid_cstr (lit ''/mnt/x'')" "valid_cstr (lit ''/mntx'')" by (simp_all add: lit_def)
  have n: "length (g_mounts demo_vfs) = 2" "mountpoint (g_mounts demo_vfs ! 1) = lit ''/mnt''" "length (lit ''/mnt'') = 4"
    "mountpoint (g_mounts demo_vfs ! 0) = lit ''/''" "length (lit ''/'') = 1"
    by (simp_all add: demo_vfs_fields demo_sb_def lit_def)
  have "\<not> lies_below (lit ''/mntx'') (lit ''/mnt'')"
    using find_mount_longest [of "lit ''/mntx''" demo_vfs, OF p(2) ms]
    by (auto simp: v n n [simplified] dest: spec [where x = "1 :: nat"])
  moreover have "lies_below (lit ''/mnt/x'') (lit ''/mnt'')"
    using find_mount_longest [of "lit ''/mnt/x''" demo_vfs, OF p(1) ms] by (simp add: v n n [simplified])
  ultimately show ?thesis using v by blast
qed

section \<open>The mount list as text\<close>

lemma append_str_take: "append_str n (take (n - 1) t) s = take (n - 1) (t @ s)"
  by (cases "length t \<le> n - 1") (auto simp: append_str_def)

lemma append_strs: "foldl (append_str n) (take (n - 1) t) ss = take (n - 1) (t @ concat ss)"
proof (induction ss arbitrary: t)
  case (Cons s ss)
  then show ?case by (simp only: foldl_Cons append_str_take concat.simps append_assoc)
qed simp

lemma snapshot_loop_take: "snapshot_loop n ms (take (n - 1) t) = take (n - 1) (t @ concat (map (concat \<circ> mount_fields) ms))"
proof (induction ms arbitrary: t)
  case (Cons m ms)
  let ?o = "take (n - 1) (t @ concat (mount_fields m))"
  have s: "snapshot_loop n (m # ms) (take (n - 1) t) = (if n \<le> length ?o + 1 then ?o else snapshot_loop n ms ?o)"
    by (simp only: snapshot_loop.simps Let_def append_strs)
  show ?case
  proof (cases "n \<le> length ?o + 1")
    case True
    then have "n - 1 \<le> length (t @ concat (mount_fields m))" by simp
    then have "take (n - 1) (t @ concat (map (concat \<circ> mount_fields) (m # ms))) = ?o"
      by (simp only: list.map concat.simps comp_apply append_assoc [symmetric] take_append) simp
    then show ?thesis using True s by (simp only: if_True)
  next
    case False
    then show ?thesis using s Cons.IH [of "t @ concat (mount_fields m)"]
      by (simp only: if_False list.map concat.simps comp_apply append_assoc)
  qed
qed simp

text \<open>The mount list is the reference text, cut to the buffer: the bounded appends of the source
  produce exactly the first \<open>max - 1\<close> bytes of the lines of all mounts, in mount order, for every buffer
  size, so the copy never passes the end of the buffer and nothing but its end is lost.\<close>

theorem mounts_snapshot_text:
  "vfs_mounts_snapshot n st =
     (if n = 0 then failed else Inr (take (unat n - 1) (concat (map (concat \<circ> mount_fields) (g_mounts st)))))"
proof -
  have "snapshot_loop (unat n) (g_mounts st) [] = take (unat n - 1) (concat (map (concat \<circ> mount_fields) (g_mounts st)))"
    using snapshot_loop_take [of "unat n" "g_mounts st" "[]"] by simp
  then show ?thesis by (simp add: vfs_mounts_snapshot_def Let_def)
qed

section \<open>Device nodes\<close>

text \<open>A device inode identifies its node and its pointer: the inode number made for an index of the node
  table leads back to it, numbers beyond the table and those of ordinary files lead to none, and the
  device pointer stored in two halves is recovered.\<close>

theorem device_inode_roundtrip:
  assumes "length (g_devnodes st) \<le> MAX_DEVNODES"
  shows "(idx < length (g_devnodes st) \<longrightarrow> vfs_devnode_from_inode (dev_inode (0xD0000000 + word_of_nat idx) mode p) st = Some idx) \<and>
    (i < 0xD0000000 \<longrightarrow> vfs_devnode_from_inode (dev_inode i mode p) st = None) \<and>
    vfs_devnode_from_inode (dev_inode 0xD0FFE000 mode p) st = None \<and>
    vfs_inode_get_ptr (dev_inode i mode p) = p \<and> i_mode (dev_inode i mode p) = mode"
proof -
  have ptr: "vfs_inode_get_ptr (dev_inode i mode p) = p" for i
  proof -
    have "(0xFFFFFFFF :: u64) = mask 32" by (simp add: mask_eq_exp_minus_1)
    then show ?thesis
      by (auto simp: vfs_inode_get_ptr_def dev_inode_def vfs_inode_set_ptr_def zero_inode_def bit_eq_iff bit_simps)
  qed
  have ino: "i_ino (dev_inode i mode p) = i" "i_mode (dev_inode i mode p) = mode" for i
    by (simp_all add: dev_inode_def vfs_inode_set_ptr_def)
  have n: "length (g_devnodes st) \<le> 24" using assms by (simp add: MAX_DEVNODES_def BLOCK_MAX_DEVICES_def)
  have "vfs_devnode_from_inode (dev_inode (0xD0000000 + word_of_nat idx) mode p) st = Some idx" if "idx < length (g_devnodes st)"
  proof -
    have u: "unat (word_of_nat idx :: u32) = idx" using that n by (simp add: unat_of_nat)
    then have "unat (0xD0000000 + word_of_nat idx :: u32) = 0xD0000000 + idx" using that n by (subst unat_plus_no_wrap) auto
    then have "\<not> (0xD0000000 + word_of_nat idx :: u32) < 0xD0000000" by (simp add: word_less_nat_alt)
    then show ?thesis using that u by (simp add: vfs_devnode_from_inode_def ino Let_def)
  qed
  then show ?thesis using ptr n by (simp add: vfs_devnode_from_inode_def ino Let_def)
qed

theorem device_inode_roundtrip_witness:
  "vfs_devnode_from_inode (dev_inode 0xD0000001 0x21B6 7) (demo_vfs\<lparr>g_devnodes := replicate 3 undefined\<rparr>) = Some 1"
  using device_inode_roundtrip [of "demo_vfs\<lparr>g_devnodes := replicate 3 undefined\<rparr>" 1] by (simp add: MAX_DEVNODES_def BLOCK_MAX_DEVICES_def)

definition block_node :: "'d vfs_io \<Rightarrow> 'd vfs \<Rightarrow> nat \<Rightarrow> devnode" where
  "block_node io st i =
     \<lparr>dn_name = cstr_of (name (block_devices (blkdevs st) ! i)), dn_mode = VFS_INODE_BLK OR 0x1B0, dn_kind = DEV_KIND_BLOCK,
      dn_ptr = io_bdev_addr io i\<rparr>"

lemma add_block_nodes_spec:
  "length (g_devnodes st) + length is \<le> MAX_DEVNODES \<Longrightarrow>
   add_block_nodes io is st = st\<lparr>g_devnodes := g_devnodes st @ map (block_node io st) (filter (\<lambda>i. present (block_devices (blkdevs st) ! i)) is)\<rparr>"
  by (induction "is" arbitrary: st) (simp_all add: vfs_add_devnode_def block_node_def Let_def)

lemma add_fixed_spec:
  "length (g_devnodes st) + length ns \<le> MAX_DEVNODES \<Longrightarrow>
   foldl (\<lambda>s (nm, mode, kind). snd (vfs_add_devnode nm mode kind 0 s)) st ns =
   st\<lparr>g_devnodes := g_devnodes st @ map (\<lambda>(nm, mode, kind). \<lparr>dn_name = nm, dn_mode = mode, dn_kind = kind, dn_ptr = 0\<rparr>) ns\<rparr>"
  by (induction ns arbitrary: st) (auto simp: vfs_add_devnode_def)

lemma rng_fields [simp]:
  "g_devnodes (rng_mix_u64 v b st) = g_devnodes st" "g_mounts (rng_mix_u64 v b st) = g_mounts st" "blkdevs (rng_mix_u64 v b st) = blkdevs st"
  "tasks (rng_mix_u64 v b st) = tasks st" "g_devnodes (set_mach d st) = g_devnodes st" "g_mounts (set_mach d st) = g_mounts st"
  "tasks (set_mach d st) = tasks st"
  by (simp_all add: rng_mix_u64_def set_mach_def Let_def)

lemma collect_fields [simp]:
  "g_devnodes (rng_collect_entropy io st) = g_devnodes st" "g_mounts (rng_collect_entropy io st) = g_mounts st"
  "tasks (rng_collect_entropy io st) = tasks st"
  by (simp_all add: rng_collect_entropy_def Let_def split: prod.split)

text \<open>The device table after initialisation has a node for every present block device, in registration
  order, followed by all thirteen fixed devices: the table never overflows and no device is dropped.\<close>

theorem devnodes_complete:
  assumes "g_block_count (blkdevs st) \<le> BLOCK_MAX_DEVICES"
  shows "g_devnodes (vfs_init io st) =
    map (block_node io st) (filter (\<lambda>i. present (block_devices (blkdevs st) ! i)) [0..<g_block_count (blkdevs st)]) @
    map (\<lambda>(nm, mode, kind). \<lparr>dn_name = nm, dn_mode = mode, dn_kind = kind, dn_ptr = 0\<rparr>) fixed_devnodes \<and>
    length (g_devnodes (vfs_init io st)) \<le> MAX_DEVNODES \<and> g_mounts (vfs_init io st) = []"
proof -
  let ?s0 = "st\<lparr>g_mounts := [], g_devnodes := [], g_cwd := lit ''/'',
    g_fsreg := [(lit ''ext2'', FS_EXT2), (lit ''ext4'', FS_EXT4), (lit ''fat32'', FS_FAT32), (lit ''proc'', FS_PROC)]\<rparr>"
  have r: "vfs_init io st = vfs_build_devnodes io ?s0" by (simp add: vfs_init_def vfs_register_def Let_def)
  let ?is = "[0..<g_block_count (blkdevs st)]" and ?P = "\<lambda>i. present (block_devices (blkdevs st) ! i)"
  have le: "length (filter ?P ?is) \<le> 8" using length_filter_le [of ?P ?is] assms by (simp add: BLOCK_MAX_DEVICES_def)
  have nodes: "block_node io ?s0 = block_node io st" by (simp add: block_node_def fun_eq_iff)
  have f13: "length fixed_devnodes = 13" by (simp add: fixed_devnodes_def)
  show ?thesis
    unfolding r vfs_build_devnodes_def Let_def block_count_def
    using le f13 assms
    by (simp add: add_block_nodes_spec add_fixed_spec MAX_DEVNODES_def BLOCK_MAX_DEVICES_def nodes [simplified] block_node_def)
qed

theorem devnodes_complete_witness:
  "length (g_devnodes (vfs_init demo_io (demo_vfs\<lparr>blkdevs := block_init\<rparr>))) = 13"
  using devnodes_complete [of "demo_vfs\<lparr>blkdevs := block_init\<rparr>" demo_io] by (simp add: block_init_def fixed_devnodes_def)

section \<open>The random device\<close>

lemma rng_wait_bits: "blocking \<Longrightarrow> 8 \<le> g_rng_entropy_bits (rng_wait io blocking st)"
proof (induction io blocking st rule: rng_wait.induct)
  case (1 io blocking st)
  then show ?case by (subst rng_wait.simps) (auto simp: Let_def)
qed

lemma rng_wait_fields [simp]:
  "g_devnodes (rng_wait io blocking st) = g_devnodes st" "g_mounts (rng_wait io blocking st) = g_mounts st" "tasks (rng_wait io blocking st) = tasks st"
proof -
  have "g_devnodes (rng_wait io blocking st) = g_devnodes st \<and> g_mounts (rng_wait io blocking st) = g_mounts st \<and> tasks (rng_wait io blocking st) = tasks st"
  proof (induction io blocking st rule: rng_wait.induct)
    case (1 io blocking st)
    show ?case
      by (subst rng_wait.simps, subst rng_wait.simps, subst rng_wait.simps) (use 1 [OF refl] in \<open>auto simp: Let_def\<close>)
  qed
  then show "g_devnodes (rng_wait io blocking st) = g_devnodes st" "g_mounts (rng_wait io blocking st) = g_mounts st"
    "tasks (rng_wait io blocking st) = tasks st" by auto
qed

lemma rng_next_fields [simp]:
  "g_mounts (snd (rng_next_u64 st)) = g_mounts st" "tasks (snd (rng_next_u64 st)) = tasks st"
  by (simp_all add: rng_next_u64_def Let_def)

lemma rng_fill_loop_length:
  "length (fst (rng_fill_loop io blocking n pool pn st)) = n \<and> g_mounts (snd (rng_fill_loop io blocking n pool pn st)) = g_mounts st \<and>
   tasks (snd (rng_fill_loop io blocking n pool pn st)) = tasks st"
proof (induction n arbitrary: pool pn st)
  case (Suc n)
  show ?case using Suc.IH by (simp add: Let_def case_prod_unfold)
qed simp

text \<open>Reading the random devices always returns, with exactly the requested number of bytes and no effect on
  mounts or tasks: the wait for entropy in the blocking device ends because every pass through it adds at
  least one bit, and it ends with at least eight bits in the pool.\<close>

theorem random_read_returns:
  assumes "dn_kind dn = DEV_KIND_RANDOM \<or> dn_kind dn = DEV_KIND_URANDOM"
  shows "(\<exists>out s1. vfs_dev_read_chr io dn n st = (Inr out, s1) \<and> length out = unat n \<and> g_mounts s1 = g_mounts st \<and> tasks s1 = tasks st) \<and>
    8 \<le> g_rng_entropy_bits (rng_wait io True st)"
proof -
  have "\<exists>out s1. vfs_dev_read_chr io dn n st = (Inr out, s1) \<and> (out, s1) = rng_fill_loop io b (unat n) 0 0 st" if "b = (dn_kind dn = DEV_KIND_RANDOM)" for b
    using assms that by (auto simp: vfs_dev_read_chr_def rng_fill_bytes_def map_prod_def split: prod.split)
  then obtain out s1 where r: "vfs_dev_read_chr io dn n st = (Inr out, s1)" "rng_fill_loop io (dn_kind dn = DEV_KIND_RANDOM) (unat n) 0 0 st = (out, s1)"
    by metis
  show ?thesis
    using r(1) rng_fill_loop_length [of io "dn_kind dn = DEV_KIND_RANDOM" "unat n" 0 0 st] rng_wait_bits [of True io st] by (simp add: r(2))
qed

theorem random_read_returns_witness:
  "\<exists>out s1. vfs_dev_read_chr demo_io \<lparr>dn_name = lit ''random'', dn_mode = 0x21B6, dn_kind = DEV_KIND_RANDOM, dn_ptr = 0\<rparr> 16 demo_vfs = (Inr out, s1) \<and> length out = 16"
  using random_read_returns [of "\<lparr>dn_name = lit ''random'', dn_mode = 0x21B6, dn_kind = DEV_KIND_RANDOM, dn_ptr = 0\<rparr>" demo_io 16 demo_vfs] by auto

section \<open>The null superblock\<close>

text \<open>The working directory of the running task is set and absolute; paths then normalise without effect.\<close>

definition cwd_ok :: "'d vfs \<Rightarrow> bool" where
  "cwd_ok st \<longleftrightarrow> snd (vfs_current_cwd st) = st \<and> fst (vfs_current_cwd st) \<noteq> [] \<and> hd (fst (vfs_current_cwd st)) = slash"

lemma process_current_e2 [simp]: "process_current_task (st\<lparr>e2 := x\<rparr>) = process_current_task st"
  by (simp add: process_current_task_def scheduler_current_task_def scheduler_cpu_local_def scheduler_cpu_id_def cong: option.case_cong)

lemma cur_task_e2 [simp]: "cur_task (st\<lparr>e2 := x\<rparr>) = cur_task st"
  by (simp add: cur_task_def)

lemma e2_update_id: "e2 st = x \<Longrightarrow> st\<lparr>e2 := x\<rparr> = st" by auto

lemma cwd_e2 [simp]: "vfs_current_cwd (st\<lparr>e2 := x\<rparr>) = map_prod id (\<lambda>s. s\<lparr>e2 := x\<rparr>) (vfs_current_cwd st)"
  by (simp add: vfs_current_cwd_def Let_def upd_task_def)

lemma cwd_ok_e2 [simp]: "cwd_ok st \<Longrightarrow> cwd_ok (st\<lparr>e2 := x\<rparr>)"
  by (simp add: cwd_ok_def)

lemma normalize_ok:
  assumes "cwd_ok st" "\<And>c. c \<noteq> [] \<Longrightarrow> hd c = slash \<Longrightarrow> norm_path c inp = r"
  shows "normalize_path inp st = (r, st)"
  using assms by (auto simp: normalize_path_def cwd_ok_def split: prod.split)

lemma norm_path_absolute:
  assumes "p \<noteq> []" "hd p = slash" "length p < VFS_PATH_MAX" "norm_loop p (lit ''/'') = r" "r \<noteq> []"
  shows "norm_path c (Some p) = Some r"
  using assms by (simp add: norm_path_def path_src_def Let_def)

text \<open>The pseudo directories of the device tree have no superblock, and only the read path checks for that:
  for the superuser, writing to one of them or creating, making or removing a name in it dereferences
  a null pointer, while reading fails cleanly.\<close>

theorem null_superblock:
  assumes "cwd_ok st" "euid (cur_task st) = 0"
  shows "fst (vfs_write_file io gb (Some (lit ''/dev/pts'')) buf st) = Inl NullDeref \<and>
    fst (vfs_mkdir gb (Some (lit ''/dev/pts/x'')) st) = Inl NullDeref \<and>
    fst (vfs_unlink gb (Some (lit ''/dev/input/x'')) st) = Inl NullDeref \<and>
    fst (vfs_read_file io (Some (lit ''/dev/pts'')) n st) = failed"
proof -
  have np: "normalize_path (Some p) st = (Some p, st)" if "p \<in> {lit ''/dev/pts'', lit ''/dev/pts/x'', lit ''/dev/input/x'', lit ''/dev/input''}" for p
  proof (rule normalize_ok [OF assms(1) norm_path_absolute])
    have "norm_loop (lit ''/dev/pts'') (lit ''/'') = lit ''/dev/pts''" "norm_loop (lit ''/dev/pts/x'') (lit ''/'') = lit ''/dev/pts/x''"
      "norm_loop (lit ''/dev/input'') (lit ''/'') = lit ''/dev/input''" "norm_loop (lit ''/dev/input/x'') (lit ''/'') = lit ''/dev/input/x''"
      by code_simp+
    then show "norm_loop p (lit ''/'') = p" using that by auto
  qed (use that in \<open>auto simp: lit_def VFS_PATH_MAX_def\<close>)
  have dev: "vfs_try_resolve_devpath (lit ''/dev/pts'') st = Some (dev_inode 0xD0FFF000 (VFS_INODE_DIR OR 0x1ED) 0)"
    "vfs_try_resolve_devpath (lit ''/dev/input'') st = Some (dev_inode 0xD0FFE000 (VFS_INODE_DIR OR 0x1ED) 0)"
    by (simp_all add: vfs_try_resolve_devpath_def lit_def Let_def strncmp.simps strcmp.simps)
  have spl: "path_split_last (lit ''/dev/pts/x'') = Some (lit ''/dev/pts'', lit ''x'')"
    "path_split_last (lit ''/dev/input/x'') = Some (lit ''/dev/input'', lit ''x'')" by code_simp+
  have res: "vfs_resolve (Some (lit ''/dev/pts'')) st = (Inr (dev_inode 0xD0FFF000 (VFS_INODE_DIR OR 0x1ED) 0, None), st)"
    "vfs_resolve (Some (lit ''/dev/input'')) st = (Inr (dev_inode 0xD0FFE000 (VFS_INODE_DIR OR 0x1ED) 0, None), st)"
    by (simp_all add: vfs_resolve_def np resolve_abs_def dev)
  have mode: "i_mode (dev_inode i mode p) = mode" for i mode p by (simp add: dev_inode_def vfs_inode_set_ptr_def)
  have perm: "\<not> vfs_permission_check (dev_inode i (VFS_INODE_DIR OR 0x1ED) p) m (cur_task st) < 0" for i p m
    using assms(2) by (simp add: vfs_permission_check_def mode VFS_INODE_DIR_def)
  have rd: "strcmp (lit ''/dev/pts'') (lit ''/dev/input/mice'') \<noteq> 0" "strcmp (lit ''/dev/pts'') (lit ''/dev/input/mouse0'') \<noteq> 0"
    "strcmp (lit ''/dev/pts'') (lit ''/dev/input/event0'') \<noteq> 0" by code_simp+
  have kind: "(VFS_INODE_DIR OR 0x1ED) AND 0xF000 \<noteq> VFS_INODE_CHR" "(VFS_INODE_DIR OR 0x1ED) AND 0xF000 \<noteq> VFS_INODE_BLK"
    by (simp_all add: VFS_INODE_DIR_def VFS_INODE_CHR_def VFS_INODE_BLK_def)
  show ?thesis
    by (simp add: vfs_write_file_def np res write_resolved_def perm mode kind with_sb_def vfs_mkdir_def vfs_unlink_def resolve_parent_def spl
        vfs_read_file_def rd read_resolved_def)
qed

lemma demo_cwd_ok: "cwd_ok demo_vfs" "euid (cur_task demo_vfs) = 0" "vfs_current_cwd demo_vfs = (lit ''/'', demo_vfs)"
proof -
  show c: "vfs_current_cwd demo_vfs = (lit ''/'', demo_vfs)" by (simp add: vfs_current_cwd_def demo_vfs_fields Let_def lit_def)
  show "cwd_ok demo_vfs" by (simp add: cwd_ok_def c lit_def)
  show "euid (cur_task demo_vfs) = 0" by (simp add: cur_task_def demo_vfs_fields zero_task_def)
qed

theorem null_superblock_witness:
  "fst (vfs_write_file demo_io zero_inode (Some (lit ''/dev/pts'')) [1] demo_vfs) = Inl NullDeref"
  using null_superblock [OF demo_cwd_ok(1,2), of demo_io zero_inode "[1]" 8] by simp

section \<open>Mounting ext2\<close>

definition same_slots :: "nat set \<Rightarrow> 'd ext2_st \<Rightarrow> 'd ext2_st \<Rightarrow> bool" where
  "same_slots S x y \<longleftrightarrow> ext2_mount_count y = ext2_mount_count x \<and> (\<forall>k. k \<notin> S \<longrightarrow> ext2_mounts y k = ext2_mounts x k)"

lemma same_slots_refl [simp]: "same_slots S x x"
  by (simp add: same_slots_def)

lemma same_slots_trans: "same_slots S x y \<Longrightarrow> same_slots S y z \<Longrightarrow> same_slots S x z"
  by (simp add: same_slots_def)

lemma same_slots_upd:
  "f \<in> S \<Longrightarrow> same_slots S x (upd_fs f g y) = same_slots S x y" "f \<in> S \<Longrightarrow> same_slots S (upd_fs f g x) y = same_slots S x y"
  by (auto simp: same_slots_def upd_fs_def)

lemma dev_read_slots: "dev_read f lba n x = (r, y) \<Longrightarrow> same_slots S x y"
  by (auto simp: dev_read_def same_slots_def split: prod.splits)

lemma read_block_slots: "read_block f b x = (r, y) \<Longrightarrow> same_slots S x y"
  by (auto simp: read_block_def dest: dev_read_slots split: option.splits)

lemma read_inode_slots: "read_inode f i x = (r, y) \<Longrightarrow> same_slots S x y"
  by (auto simp: read_inode_def Let_def dest: read_block_slots split: if_splits prod.splits bool.splits)

lemma find_dirent_slots: "find_dirent f P bs x = (r, y) \<Longrightarrow> same_slots S x y"
  by (induction f P bs x rule: find_dirent.induct)
    (auto dest!: read_block_slots intro: same_slots_trans split: if_splits prod.splits bool.splits option.splits)

lemma lookup_slots: "ext2_lookup f d nm out x = (r, y) \<Longrightarrow> same_slots S x y"
  by (auto simp: ext2_lookup_def inode_result_def dest!: read_inode_slots find_dirent_slots intro: same_slots_trans
      split: prod.splits option.splits)

lemma has_init_slots: "has_init f rt gb x = (r, y) \<Longrightarrow> same_slots S x y"
  by (auto simp: has_init_def dest!: lookup_slots intro: same_slots_trans split: prod.splits option.splits if_splits)

lemma load_volume_slots: "load_volume f e4 x = (r, y) \<Longrightarrow> f \<in> S \<Longrightarrow> same_slots S x y"
  by (auto simp: load_volume_def Let_def same_slots_upd dest!: dev_read_slots [where S = S] read_block_slots [where S = S] read_inode_slots [where S = S]
      intro: same_slots_trans same_slots_trans [OF same_slots_trans] split: prod.splits bool.splits if_splits)

lemma same_slots_none: "same_slots {} x y \<Longrightarrow> ext2_mounts y = ext2_mounts x"
  by (simp add: same_slots_def fun_eq_iff)

text \<open>A volume that loads has the magic number and a block size of at most 4 KiB, and its root is inode 2, read with the
  superblock and the group descriptor that the slot then holds.\<close>

lemma load_volume_some:
  assumes "load_volume f e4 x = (Some rt, y)"
  shows "magic (sb (ext2_mounts y f)) = 0xEF53 \<and> 0 < block_size (ext2_mounts y f) \<and> block_size (ext2_mounts y f) \<le> 4096 \<and>
    (\<exists>z. read_inode f 2 z = (Some rt, y) \<and> ext2_mounts z = ext2_mounts y)"
proof -
  obtain x1 where d: "dev_read f 2 2 x = (True, x1)" using assms by (auto simp: load_volume_def split: prod.splits bool.splits)
  define s where "s = super_of (g_io x1) 0"
  define bs :: u32 where "bs = push_bit (unat (log_block_size s AND 31)) 1024"
  define x3 where "x3 = upd_fs f (\<lambda>fs. fs\<lparr>block_size := bs\<rparr>) (upd_fs f (\<lambda>fs. fs\<lparr>sb := s\<rparr>) x1)"
  have g: "magic s = 0xEF53" "bs \<noteq> 0" "\<not> 4096 < bs"
    using assms d by (auto simp: load_volume_def Let_def s_def [symmetric] bs_def [symmetric] split: if_splits)
  obtain x4 where b: "read_block f (first_data_block s + 1) x3 = (True, x4)"
    "read_inode f 2 (upd_fs f (\<lambda>fs. fs\<lparr>bg := bgdesc_of (g_io x4) 0\<rparr>) x4) = (Some rt, y)"
    using assms d
    by (auto simp: load_volume_def Let_def s_def [symmetric] bs_def [symmetric] x3_def [symmetric] split: if_splits prod.splits bool.splits)
  let ?z = "upd_fs f (\<lambda>fs. fs\<lparr>bg := bgdesc_of (g_io x4) 0\<rparr>) x4"
  have m: "ext2_mounts x4 = ext2_mounts x3" "ext2_mounts y = ext2_mounts ?z"
    using read_block_slots [OF b(1), of "{}"] read_inode_slots [OF b(2), of "{}"] by (auto dest: same_slots_none)
  have "sb (ext2_mounts ?z f) = s" "block_size (ext2_mounts ?z f) = bs"
    using m(1) by (simp_all add: upd_fs_def x3_def)
  then show ?thesis using g b(2) m(2) by (auto simp: word_gt_0 not_less)
qed



end
