(* ===== verification/VfsExt2.thy ===== *)
theory VfsExt2
  imports VfsSpec
begin

text \<open>
  The virtual file system over ext2. The locale \<open>filesystem\<close> states what the path walk relies on: a
  lookup agrees with the directory contents, changes nothing that can be seen, and returns only
  inodes on which a further lookup works. The walk is computed once for every such file system,
  and ext2 on a reliable device is an instance. With it, creating a file by path, writing it and
  reading it back by path are composed from the layers.
\<close>

section \<open>The interface of a mounted file system\<close>

text \<open>The walk along directories, on inode numbers.\<close>

fun ino_walk :: "(u32 \<Rightarrow> cstr \<Rightarrow> u32 option) \<Rightarrow> (u32 \<Rightarrow> bool) \<Rightarrow> cstr list \<Rightarrow> u32 \<Rightarrow> u32 option" where
  "ino_walk ent alive [] i = Some i"
| "ino_walk ent alive (c # cs) i = (case ent i c of None \<Rightarrow> None | Some j \<Rightarrow> if alive j then ino_walk ent alive cs j else None)"

fun ino_trail :: "(u32 \<Rightarrow> cstr \<Rightarrow> u32 option) \<Rightarrow> cstr list \<Rightarrow> u32 \<Rightarrow> u32 set" where
  "ino_trail ent [] i = {i}"
| "ino_trail ent (c # cs) i = insert i (case ent i c of None \<Rightarrow> {} | Some j \<Rightarrow> ino_trail ent cs j)"

definition name_ok :: "cstr \<Rightarrow> bool" where
  "name_ok c \<longleftrightarrow> name_part c \<and> c \<noteq> [dot] \<and> c \<noteq> [dot, dot] \<and> length c < VFS_NAME_MAX \<and> valid_cstr c"

lemma ino_walk_append: "ino_walk ent alive (cs @ ds) i = Option.bind (ino_walk ent alive cs i) (ino_walk ent alive ds)"
  by (induction cs arbitrary: i) (auto split: option.split)

lemma ino_walk_trail: "ino_walk ent alive cs i = Some j \<Longrightarrow> j \<in> ino_trail ent cs i"
  by (induction cs arbitrary: i) (auto split: option.splits if_splits)

lemma ino_trail_start: "i \<in> ino_trail ent cs i"
  by (cases cs) auto

text \<open>A successful walk is not changed by what happens off its trail, or by new entries on it.\<close>

lemma ino_walk_keep:
  assumes "ino_walk ent alive cs i = Some j"
    and "\<And>k c l. k \<in> ino_trail ent cs i \<Longrightarrow> ent k c = Some l \<Longrightarrow> ent' k c = Some l"
    and "\<And>k. k \<in> ino_trail ent cs i \<Longrightarrow> alive k \<Longrightarrow> alive' k"
  shows "ino_walk ent' alive' cs i = Some j"
  using assms
proof (induction cs arbitrary: i)
  case (Cons c cs)
  obtain l where l: "ent i c = Some l" "alive l" "ino_walk ent alive cs l = Some j"
    using Cons.prems(1) by (auto split: option.splits if_splits)
  have sub: "ino_trail ent cs l \<subseteq> ino_trail ent (c # cs) i" using l(1) by auto
  have "ent' i c = Some l" using Cons.prems(2) [of i c l] l(1) by simp
  moreover have "alive' l" using Cons.prems(3) [of l] l(2) sub ino_trail_start by blast
  moreover have "ino_walk ent' alive' cs l = Some j" by (rule Cons.IH [OF l(3)]) (use Cons.prems(2,3) sub in blast)+
  ultimately show ?case by simp
qed simp

locale filesystem =
  fixes lk :: "nat \<Rightarrow> vfs_inode \<Rightarrow> cstr \<Rightarrow> vfs_inode \<Rightarrow> 's \<Rightarrow> vfs_inode option \<times> 's"
    and p :: nat
    and good :: "'s \<Rightarrow> bool"
    and same :: "'s \<Rightarrow> 's \<Rightarrow> bool"
    and live :: "'s \<Rightarrow> u32 \<Rightarrow> bool"
    and entry :: "'s \<Rightarrow> u32 \<Rightarrow> cstr \<Rightarrow> u32 option"
    and node :: "'s \<Rightarrow> vfs_inode \<Rightarrow> u32 \<Rightarrow> vfs_inode option"
  assumes lookup: "good st \<Longrightarrow> live st (i_ino d) \<Longrightarrow> valid_cstr nm \<Longrightarrow>
      \<exists>s1. lk p d nm out st = (Option.bind (entry st (i_ino d) nm) (node st out), s1) \<and> same st s1"
    and same_refl: "same st st"
    and same_trans: "same st s1 \<Longrightarrow> same s1 s2 \<Longrightarrow> same st s2"
    and same_view: "same st s1 \<Longrightarrow> good s1 = good st \<and> live s1 = live st \<and> entry s1 = entry st \<and> node s1 = node st"
    and node_ino: "node st out i = Some x \<Longrightarrow> i_ino x = i \<and> live st i"
    and node_out: "node st out i = None \<Longrightarrow> node st out' i = None"
begin

definition alive :: "'s \<Rightarrow> u32 \<Rightarrow> bool" where
  "alive st i \<longleftrightarrow> node st zero_inode i \<noteq> None"

lemma alive_node: "alive st i \<longleftrightarrow> node st out i \<noteq> None"
  unfolding alive_def by (metis node_out)

text \<open>The walk of the virtual file system over the operation table is the walk over the directory contents.\<close>

lemma walk:
  assumes "op_lookup (sb_ops m) = lk" "fs_private m = p" "good st" "live st (i_ino cur)" "\<And>c. c \<in> set (components q) \<Longrightarrow> name_ok c"
  shows "\<exists>s1. same st s1 \<and>
    (case ino_walk (entry st) (alive st) (components q) (i_ino cur) of
       None \<Rightarrow> walk_path m q cur st = (None, s1)
     | Some i \<Rightarrow> \<exists>x. walk_path m q cur st = (Some x, s1) \<and> i_ino x = i \<and> (components q = [] \<and> x = cur \<or> components q \<noteq> [] \<and> (\<exists>out. node st out i = Some x)))"
  using assms
proof (induction q arbitrary: cur st rule: measure_induct_rule [where f = length])
  case (less q)
  show ?case
  proof (cases "q = []")
    case True
    then show ?thesis using same_refl by (auto simp: walk_path.simps [of m "[]"])
  next
    case False
    let ?P = "\<lambda>c. c \<noteq> slash"
    let ?part = "takeWhile ?P q" and ?dw = "dropWhile ?P q"
    let ?rest = "drop 1 ?dw"
    have dw: "?dw = [] \<or> hd ?dw = slash" using hd_dropWhile [of ?P q] by blast
    have "components d = components (drop 1 d)" if "d = [] \<or> hd d = slash" for d using that by (cases d) auto
    then have cr: "components ?dw = components ?rest" using dw by blast
    have sl: "slash \<notin> set ?part" by (auto dest: set_takeWhileD)
    have len: "length ?rest < length q"
      using False length_dropWhile_le [of ?P q] by (cases q) (auto simp: diff_less_Suc less_Suc_eq_le)
    show ?thesis
    proof (cases "?part = []")
      case True
      then have "?dw = q" by (metis append_Nil takeWhile_dropWhile_id)
      then have cq: "components q = components ?rest" using cr by simp
      have w: "walk_path m q cur st = walk_path m ?rest cur st" using False True by (subst walk_path.simps) (simp add: Let_def)
      show ?thesis unfolding w cq by (rule less.IH [OF len less.prems(1-4)]) (use less.prems(5) cq in simp)
    next
      case pn: False
      have cq: "components q = ?part # components ?rest"
        using components_word [OF sl pn dw] cr by (simp only: takeWhile_dropWhile_id)
      have nm: "name_ok ?part" using less.prems(5) cq by simp
      then have part: "take (VFS_NAME_MAX - 1) ?part = ?part" "valid_cstr ?part" "strcmp ?part (lit ''.'') \<noteq> 0" "strcmp ?part (lit ''..'') \<noteq> 0"
        by (auto simp add: name_ok_def strcmp_zero_iff lit_def)
      obtain s1 where l: "lk p cur ?part cur st = (Option.bind (entry st (i_ino cur) ?part) (node st cur), s1)" "same st s1"
        using lookup [OF less.prems(3,4) part(2)] by blast
      note v = same_view [OF l(2)]
      have step: "walk_path m q cur st =
          (case lk p cur ?part cur st of (None, s1) \<Rightarrow> (None, s1) | (Some nxt, s1) \<Rightarrow> walk_path m ?rest nxt s1)"
        using False pn part(1,3,4) less.prems(1,2) by (subst walk_path.simps) (simp add: Let_def split: prod.split option.split)
      show ?thesis
      proof (cases "Option.bind (entry st (i_ino cur) ?part) (node st cur)")
        case None
        then have "ino_walk (entry st) (alive st) (components q) (i_ino cur) = None"
          by (auto simp: cq alive_node [of st _ cur] split: option.split)
        then show ?thesis using step l None by auto
      next
        case (Some x)
        then obtain j where j: "entry st (i_ino cur) ?part = Some j" "node st cur j = Some x" by (auto simp: bind_eq_Some_conv)
        note x = node_ino [OF j(2)]
        have w: "walk_path m q cur st = walk_path m ?rest x s1" using step l(1) j by simp
        have iw: "ino_walk (entry st) (alive st) (components q) (i_ino cur) = ino_walk (entry st) (alive st) (components ?rest) (i_ino x)"
          using j x by (simp add: cq alive_node [of st _ cur])
        have a: "alive s1 = alive st" using v by (simp add: alive_def fun_eq_iff)
        have "\<exists>s2. same s1 s2 \<and> (case ino_walk (entry s1) (alive s1) (components ?rest) (i_ino x) of
            None \<Rightarrow> walk_path m ?rest x s1 = (None, s2)
          | Some i \<Rightarrow> \<exists>y. walk_path m ?rest x s1 = (Some y, s2) \<and> i_ino y = i \<and> (components ?rest = [] \<and> y = x \<or> components ?rest \<noteq> [] \<and> (\<exists>out. node s1 out i = Some y)))"
          by (rule less.IH [OF len less.prems(1,2)]) (use less.prems(3,5) v x cq in simp_all)
        then show ?thesis
          unfolding w iw using v a same_trans [OF l(2)] j(2) x cq by (fastforce split: option.splits)
      qed
    qed
  qed
qed

end

text \<open>ext2 on a reliable device provides the interface.\<close>

interpretation e2fs: filesystem ext2_lookup f "\<lambda>st. fs_ok content f st \<and> inode_geom f st" "same_disk content"
  "\<lambda>st. inode_ok (ext2_mounts st f)" "dir_map content f" "live_inode content f" for content f
proof unfold_locales
  fix st :: "'a ext2_st" and d :: vfs_inode and nm out
  assume a: "fs_ok content f st \<and> inode_geom f st" "inode_ok (ext2_mounts st f) (i_ino d)" "valid_cstr nm"
  show "\<exists>s1. ext2_lookup f d nm out st = (Option.bind (dir_map content f st (i_ino d) nm) (live_inode content f st out), s1) \<and> same_disk content st s1"
    by (rule lookup_ok [OF _ _ a(2,3), of content out]) (use a(1) in blast)+
next
  fix st s1 :: "'a ext2_st" assume s: "same_disk content st s1"
  have m: "ext2_mounts s1 = ext2_mounts st" using s by (simp add: same_disk_def)
  show "(fs_ok content f s1 \<and> inode_geom f s1) = (fs_ok content f st \<and> inode_geom f st) \<and>
    inode_ok (ext2_mounts s1 f) = inode_ok (ext2_mounts st f) \<and> dir_map content f s1 = dir_map content f st \<and> live_inode content f s1 = live_inode content f st"
    using same_disk_ok [OF s, of f] dir_map_same [OF s, of f] inode_at_same [OF s, of f]
    by (simp add: inode_geom_def m live_inode_def fun_eq_iff)
next
  show "same_disk content st st" for st :: "'a ext2_st" by (simp add: same_disk_def)
  show "same_disk content st s2" if "same_disk content st s1" "same_disk content s1 s2" for st s1 s2 :: "'a ext2_st"
    by (rule same_disk_trans [OF that])
qed (auto simp: live_inode_def fill_inode_def split: if_splits)

section \<open>Resolving on the root mount\<close>

text \<open>The only mount is an ext2 volume at the root.\<close>

definition ext2_root :: "nat \<Rightarrow> 'd ext2_st vfs_superblock \<Rightarrow> 'd vfs \<Rightarrow> bool" where
  "ext2_root f m st \<longleftrightarrow> g_mounts st = [m] \<and> mountpoint m = lit ''/'' \<and> sb_ops m = ext2_ops \<and> fs_private m = f"

definition path_ok :: "cstr list \<Rightarrow> bool" where
  "path_ok ps \<longleftrightarrow> (\<forall>c \<in> set ps. name_ok c) \<and> length (path_of ps) < VFS_PATH_MAX \<and> (ps \<noteq> [] \<longrightarrow> hd ps \<noteq> lit ''dev'')"

lemma path_of_shape: "path_of ps \<noteq> []" "hd (path_of ps) = slash" "\<forall>c \<in> set ps. name_ok c \<Longrightarrow> valid_cstr (path_of ps)"
proof -
  show "path_of ps \<noteq> []" "hd (path_of ps) = slash" by (cases ps; simp add: path_of_def)+
  have "\<forall>c \<in> set ps. name_ok c \<Longrightarrow> valid_cstr (concat (map (Cons slash) ps))" by (induction ps) (auto simp: name_ok_def)
  then show "\<forall>c \<in> set ps. name_ok c \<Longrightarrow> valid_cstr (path_of ps)" by (auto simp: path_of_def)
qed

lemma path_of_len: "\<forall>c \<in> set ps. name_ok c \<Longrightarrow> components (path_of ps) = ps" "path_len ps \<le> length (path_of ps)"
proof -
  show "\<forall>c \<in> set ps. name_ok c \<Longrightarrow> components (path_of ps) = ps" by (rule components_joined) (auto simp: name_ok_def)
  have "path_len ps = length (concat (map (Cons slash) ps))" by (induction ps) auto
  then show "path_len ps \<le> length (path_of ps)" by (auto simp: path_of_def)
qed

lemma normalize_path_of:
  assumes "cwd_ok st" "path_ok ps"
  shows "normalize_path (Some (path_of ps)) st = (Some (path_of ps), st)"
proof (rule normalize_ok [OF assms(1) norm_path_absolute])
  have ok: "\<forall>c \<in> set ps. name_ok c" "length (path_of ps) < VFS_PATH_MAX" using assms(2) by (auto simp: path_ok_def)
  have "fits (path_of []) ps" using path_of_len(2) [of ps] ok(2) by (simp add: fits_def path_of_def VFS_PATH_MAX_def)
  then have "foldl norm_step (path_of []) ps = path_of (foldl canon_step [] ps)"
    by (rule norm_names) (use ok(1) in \<open>auto simp: name_ok_def\<close>)
  moreover have "foldl canon_step us ps = us @ ps" for us
    using ok(1) by (induction ps arbitrary: us) (auto simp: canon_step_def name_ok_def)
  ultimately show "norm_loop (path_of ps) (lit ''/'') = path_of ps"
    by (simp add: norm_loop_components path_of_len(1) [OF ok(1)]) (simp add: path_of_def lit_def)
qed (use assms(2) path_of_shape in \<open>auto simp: path_ok_def\<close>)

lemma not_device:
  assumes "path_ok ps"
  shows "vfs_try_resolve_devpath (path_of ps) st = None"
proof -
  have ok: "\<forall>c \<in> set ps. name_ok c" and nd: "ps \<noteq> [] \<longrightarrow> hd ps \<noteq> lit ''dev''" using assms by (auto simp: path_ok_def)
  have "take 5 (path_of ps) \<noteq> lit ''/dev/''"
  proof
    assume t: "take 5 (path_of ps) = lit ''/dev/''"
    have "lit ''/dev/'' = lit ''/dev'' @ [slash]" by (simp add: lit_def)
    then have r: "path_of ps = lit ''/dev'' @ slash # drop 5 (path_of ps)"
      using append_take_drop_id [of 5 "path_of ps"] t by simp
    have "components (lit ''/dev'') = [lit ''dev'']" by code_simp
    then have "ps = lit ''dev'' # components (drop 5 (path_of ps))" using path_of_len(1) [OF ok] r by (metis components_append append_Cons append_Nil)
    then show False using nd by (metis list.distinct(1) list.sel(1))
  qed
  moreover have l: "length (lit ''/dev/'') = 5" by (simp_all add: lit_def)
  have "strncmp (path_of ps) (lit ''/dev/'') (int (length (lit ''/dev/''))) = 0 \<longleftrightarrow> take (length (lit ''/dev/'')) (path_of ps) = lit ''/dev/''"
    by (rule strncmp_prefix [OF path_of_shape(3) [OF ok]]) (simp add: lit_def)
  ultimately have "strncmp (path_of ps) (lit ''/dev/'') 5 \<noteq> 0" unfolding l by simp
  then show ?thesis by (simp only: vfs_try_resolve_devpath_def simp_thms if_True if_cancel)
qed

lemma root_mount:
  assumes "ext2_root f m st" "path_ok ps"
  shows "vfs_find_mount (path_of ps) st = Some 0" "components (rel_path (mountpoint m) (path_of ps)) = ps"
proof -
  have ok: "\<forall>c \<in> set ps. name_ok c" using assms(2) by (simp add: path_ok_def)
  have v: "valid_cstr (lit ''/'')" "length (lit ''/'') = 1" by (simp_all add: lit_def)
  have t: "take 1 (path_of ps) = lit ''/''" using path_of_shape(1,2) [of ps] by (cases "path_of ps") (simp_all add: lit_def)
  have "mount_covers (path_of ps) (lit ''/'')" using mount_covers_iff [OF path_of_shape(3) [OF ok] v(1)] t v(2) by simp
  moreover have "strlen (lit ''/'') = 1" using strlen_length [OF v(1)] v(2) by simp
  ultimately show "vfs_find_mount (path_of ps) st = Some 0"
    using assms(1) by (simp add: vfs_find_mount_def ext2_root_def)
  have "path_of ps = slash # drop 1 (path_of ps)" using path_of_shape(1,2) [of ps] by (cases "path_of ps") simp_all
  then have "components (drop 1 (path_of ps)) = ps" using path_of_len(1) [OF ok] by (metis components_simps(2))
  then show "components (rel_path (mountpoint m) (path_of ps)) = ps"
    using assms(1) \<open>strlen (lit ''/'') = 1\<close> by (simp add: rel_path_def ext2_root_def)
qed

lemma resolve_ext2:
  assumes "cwd_ok st" "ext2_root f m st" "path_ok ps" "fs_ok content f (e2 st)" "inode_geom f (e2 st)"
    "inode_ok (ext2_mounts (e2 st) f) (i_ino (sb_root m))"
  shows "\<exists>x. same_disk content (e2 st) x \<and>
    (case ino_walk (dir_map content f (e2 st)) (e2fs.alive content f (e2 st)) ps (i_ino (sb_root m)) of
       None \<Rightarrow> vfs_resolve (Some (path_of ps)) st = (failed, st\<lparr>e2 := x\<rparr>)
     | Some i \<Rightarrow> \<exists>ino. vfs_resolve (Some (path_of ps)) st = (Inr (ino, Some 0), st\<lparr>e2 := x\<rparr>) \<and> i_ino ino = i \<and>
         (ps = [] \<and> ino = sb_root m \<or> ps \<noteq> [] \<and> (\<exists>out. live_inode content f (e2 st) out i = Some ino)))"
proof -
  have ops: "op_lookup (sb_ops m) = ext2_lookup" "fs_private m = f" "g_mounts st = [m]"
    using assms(2) by (simp_all add: ext2_root_def ext2_ops_def)
  note r = root_mount [OF assms(2,3)]
  let ?q = "rel_path (mountpoint m) (path_of ps)"
  obtain x where x: "same_disk content (e2 st) x"
    "case ino_walk (dir_map content f (e2 st)) (e2fs.alive content f (e2 st)) (components ?q) (i_ino (sb_root m)) of
       None \<Rightarrow> walk_path m ?q (sb_root m) (e2 st) = (None, x)
     | Some i \<Rightarrow> \<exists>y. walk_path m ?q (sb_root m) (e2 st) = (Some y, x) \<and> i_ino y = i \<and>
         (components ?q = [] \<and> y = sb_root m \<or> components ?q \<noteq> [] \<and> (\<exists>out. live_inode content f (e2 st) out i = Some y))"
    using e2fs.walk [OF ops(1,2), of content "e2 st" "sb_root m" ?q] assms(3-6) r(2) by (auto simp: path_ok_def)
  have res: "vfs_resolve (Some (path_of ps)) st =
      (case walk_path m ?q (sb_root m) (e2 st) of (None, e) \<Rightarrow> (failed, st\<lparr>e2 := e\<rparr>) | (Some ino, e) \<Rightarrow> (Inr (ino, Some 0), st\<lparr>e2 := e\<rparr>))"
    by (simp add: vfs_resolve_def normalize_path_of [OF assms(1,3)] resolve_abs_def not_device [OF assms(3)] r(1) ops(3))
  show ?thesis
    by (rule exI [of _ x]) (use x in \<open>auto simp: res r(2) split: option.splits\<close>)
qed

section \<open>Creating, writing and reading by path\<close>

lemma frame_dir_map:
  assumes "fs_wf content f L st" "d \<in> L" "frame content f S st s1" "inode_at content f s1 d = inode_at content f st d"
    "S \<inter> owned (inode_at content f st d) = {}"
  shows "dir_map content f s1 d = dir_map content f st d"
  unfolding dir_map_def assms(4)
  by (subst dir_list_frame [OF assms(3)])
    (use wf_dir_blocks [OF assms(1,2)] dir_blocks_owned [of "inode_at content f st d"] assms(5) in auto)

abbreviation walk_to :: "('d \<Rightarrow> u32 \<Rightarrow> u8 list) \<Rightarrow> nat \<Rightarrow> 'd ext2_st \<Rightarrow> cstr list \<Rightarrow> u32 \<Rightarrow> u32 option" where
  "walk_to content f x \<equiv> ino_walk (dir_map content f x) (e2fs.alive content f x)"

abbreviation trail_to :: "('d \<Rightarrow> u32 \<Rightarrow> u8 list) \<Rightarrow> nat \<Rightarrow> 'd ext2_st \<Rightarrow> cstr list \<Rightarrow> u32 \<Rightarrow> u32 set" where
  "trail_to content f x \<equiv> ino_trail (dir_map content f x)"

lemma alive_iff: "e2fs.alive content f x i \<longleftrightarrow> inode_ok (ext2_mounts x f) i \<and> vfs_mode_from_ext2 (e_mode (inode_at content f x i)) \<noteq> 0"
  by (auto simp: e2fs.alive_def live_inode_def)

text \<open>Blocks taken by a create or a write belong to no other inode.\<close>

lemma touched_disjoint:
  assumes "fs_wf content f L x" "j \<in> L" "B \<inter> owned (inode_at content f x j) = {}"
  shows "touched content f x B \<inter> owned (inode_at content f x j) = {}"
  using wf_dir_blocks [OF assms(1,2)] assms(3) by (auto simp: touched_def)

lemma create_keeps_dirs:
  assumes wf: "fs_wf content f L x" and d: "d \<in> L" and fr: "frame content f (touched content f x (owned (inode_at content f x d))) x x1"
    and at: "\<And>j. j \<in> L \<Longrightarrow> j \<noteq> d \<Longrightarrow> inode_at content f x1 j = inode_at content f x j" and j: "j \<in> L" "j \<noteq> d"
  shows "dir_map content f x1 j = dir_map content f x j"
  by (rule frame_dir_map [OF wf j(1) fr at [OF j]], rule touched_disjoint [OF wf j(1)]) (use fs_wfD(9) [OF wf d j(1)] j(2) in blast)

lemma write_keeps_dirs:
  assumes wf: "fs_wf content f L x" "fs_wf content f L x1" and i: "i \<in> L" and y: "y = inode_at content f x1 i"
    and fr: "frame content f (wset f x y \<union> tables f x) x x1"
    and at: "\<And>j. j \<in> L - {i} \<Longrightarrow> inode_at content f x1 j = inode_at content f x j" and j: "j \<in> L" "j \<noteq> i"
  shows "dir_map content f x1 j = dir_map content f x j"
proof (rule frame_dir_map [OF wf(1) j(1) fr])
  show same: "inode_at content f x1 j = inode_at content f x j" using at j by simp
  have "owned y \<inter> owned (inode_at content f x j) = {}" using fs_wfD(9) [OF wf(2) i j(1)] j(2) same y by auto
  moreover have "meta f x \<inter> owned (inode_at content f x j) = {}" using wf_dir_blocks(2) [OF wf(1) j(1)] by blast
  ultimately show "(wset f x y \<union> tables f x) \<inter> owned (inode_at content f x j) = {}" by (auto simp: wset_def meta_def)
qed

text \<open>The permission check looks only at mode and owner.\<close>

lemma permission_attrs:
  "i_mode a = i_mode b \<Longrightarrow> i_uid a = i_uid b \<Longrightarrow> i_gid a = i_gid b \<Longrightarrow> vfs_permission_check a m t = vfs_permission_check b m t"
  by (simp add: vfs_permission_check_def perm_bits_def cong: if_cong)

definition node_at :: "('d \<Rightarrow> u32 \<Rightarrow> u8 list) \<Rightarrow> nat \<Rightarrow> 'd ext2_st vfs_superblock \<Rightarrow> 'd ext2_st \<Rightarrow> cstr list \<Rightarrow> u32 \<Rightarrow> vfs_inode" where
  "node_at content f m x ps i = (if ps = [] then sb_root m else fill_inode i (inode_at content f x i) zero_inode)"

lemma node_at_perm:
  assumes "ps = [] \<and> ino = sb_root m \<or> ps \<noteq> [] \<and> (\<exists>out. live_inode content f x out i = Some ino)"
  shows "vfs_permission_check ino k t = vfs_permission_check (node_at content f m x ps i) k t"
  by (rule permission_attrs) (use assms in \<open>auto simp: node_at_def live_inode_def fill_inode_def split: if_splits\<close>)

lemma path_ok_prefix: "path_ok (ps @ [leaf]) \<Longrightarrow> path_ok ps"
  by (cases ps) (auto simp: path_ok_def path_of_def VFS_PATH_MAX_def)

lemma split_path_of:
  assumes "path_ok (ps @ [leaf])"
  shows "path_split_last (path_of (ps @ [leaf])) = Some (path_of ps, leaf)"
proof -
  have l: "name_ok leaf" using assms by (simp add: path_ok_def)
  have "path_of (ps @ [leaf]) = concat (map (Cons slash) ps) @ slash # leaf" by (simp add: path_of_def)
  then show ?thesis
    using path_split_last_spec [of leaf "concat (map (Cons slash) ps)"] l
    by (simp add: name_ok_def name_part_def) (auto simp: path_of_def lit_def)
qed

lemma ext2_root_e2 [simp]: "ext2_root f m (st\<lparr>e2 := x\<rparr>) = ext2_root f m st"
  by (simp add: ext2_root_def)

lemma same_walk:
  assumes "same_disk content x y"
  shows "walk_to content f y = walk_to content f x" "node_at content f m y = node_at content f m x" "dir_map content f y = dir_map content f x"
proof -
  have m: "ext2_mounts y = ext2_mounts x" using assms by (simp add: same_disk_def)
  have "dir_map content f y = dir_map content f x" using dir_map_same [OF assms, of f] by (simp add: fun_eq_iff)
  moreover have "e2fs.alive content f y = e2fs.alive content f x" using inode_at_same [OF assms, of f] m by (simp add: fun_eq_iff alive_iff)
  ultimately show "walk_to content f y = walk_to content f x" "dir_map content f y = dir_map content f x" by simp_all
  show "node_at content f m y = node_at content f m x" using inode_at_same [OF assms, of f] by (simp add: fun_eq_iff node_at_def)
qed

text \<open>An ext2 root volume on which the directories of a path are known.\<close>

definition dir_ready :: "('d \<Rightarrow> u32 \<Rightarrow> u8 list) \<Rightarrow> nat \<Rightarrow> u32 set \<Rightarrow> 'd ext2_st vfs_superblock \<Rightarrow> cstr list \<Rightarrow> u32 \<Rightarrow> 'd vfs \<Rightarrow> bool" where
  "dir_ready content f L m ps d st \<longleftrightarrow> cwd_ok st \<and> ext2_root f m st \<and> fs_wf content f L (e2 st) \<and>
     walk_to content f (e2 st) ps (i_ino (sb_root m)) = Some d \<and> trail_to content f (e2 st) ps (i_ino (sb_root m)) \<subseteq> L"

lemma dir_readyD:
  assumes "dir_ready content f L m ps d st"
  shows "cwd_ok st" "ext2_root f m st" "fs_wf content f L (e2 st)" "walk_to content f (e2 st) ps (i_ino (sb_root m)) = Some d"
    "trail_to content f (e2 st) ps (i_ino (sb_root m)) \<subseteq> L" "d \<in> L" "i_ino (sb_root m) \<in> L" "g_mounts st = [m]" "sb_ops m = ext2_ops" "fs_private m = f"
    "fs_ok content f (e2 st)" "inode_geom f (e2 st)" "inode_ok (ext2_mounts (e2 st) f) (i_ino (sb_root m))"
proof -
  show r: "cwd_ok st" "ext2_root f m st" "fs_wf content f L (e2 st)" "walk_to content f (e2 st) ps (i_ino (sb_root m)) = Some d"
    "trail_to content f (e2 st) ps (i_ino (sb_root m)) \<subseteq> L" using assms by (auto simp: dir_ready_def)
  show d: "d \<in> L" "i_ino (sb_root m) \<in> L" using ino_walk_trail [OF r(4)] ino_trail_start r(5) by blast+
  show "g_mounts st = [m]" "sb_ops m = ext2_ops" "fs_private m = f" using r(2) by (auto simp: ext2_root_def)
  show "fs_ok content f (e2 st)" "inode_geom f (e2 st)" "inode_ok (ext2_mounts (e2 st) f) (i_ino (sb_root m))"
    using fs_wfD(1,3,6) [OF r(3)] d(2) by auto
qed

lemma dir_ready_same:
  assumes "dir_ready content f L m ps d st" "same_disk content (e2 st) x"
  shows "dir_ready content f L m ps d (st\<lparr>e2 := x\<rparr>)"
  using assms fs_wf_same [OF _ assms(2)] same_walk [OF assms(2), of f] by (simp add: dir_ready_def)

lemma resolve_parent_ok:
  assumes r: "dir_ready content f L m ps d st" and p: "path_ok (ps @ [leaf])" and h: "has_op ext2_ops"
    and perm: "vfs_permission_check (node_at content f m (e2 st) ps d) 3 (cur_task st) = 0"
  shows "\<exists>dir x. same_disk content (e2 st) x \<and> i_ino dir = d \<and>
    resolve_parent (path_of (ps @ [leaf])) has_op st = (Inr (dir, m, leaf), st\<lparr>e2 := x\<rparr>)"
proof -
  note R = dir_readyD [OF r]
  obtain x ino where x: "same_disk content (e2 st) x" "vfs_resolve (Some (path_of ps)) st = (Inr (ino, Some 0), st\<lparr>e2 := x\<rparr>)" "i_ino ino = d"
    "ps = [] \<and> ino = sb_root m \<or> ps \<noteq> [] \<and> (\<exists>out. live_inode content f (e2 st) out d = Some ino)"
    using resolve_ext2 [OF R(1,2) path_ok_prefix [OF p] R(11-13)] R(4) by auto
  have "vfs_permission_check ino 3 (cur_task st) = 0" using node_at_perm [OF x(4)] perm by simp
  then show ?thesis
    using x(1-3) R(8,9) h by (auto simp: resolve_parent_def split_path_of [OF p] with_sb_def)
qed

lemma resolve_leaf:
  assumes r: "dir_ready content f L m ps d st" and p: "path_ok (ps @ [leaf])"
  shows "\<exists>x. same_disk content (e2 st) x \<and>
    (case dir_map content f (e2 st) d leaf of
       None \<Rightarrow> vfs_resolve (Some (path_of (ps @ [leaf]))) st = (failed, st\<lparr>e2 := x\<rparr>)
     | Some i \<Rightarrow> e2fs.alive content f (e2 st) i \<longrightarrow>
         (\<exists>ino out. vfs_resolve (Some (path_of (ps @ [leaf]))) st = (Inr (ino, Some 0), st\<lparr>e2 := x\<rparr>) \<and>
            ino = fill_inode i (inode_at content f (e2 st) i) out))"
proof -
  note R = dir_readyD [OF r]
  have w: "walk_to content f (e2 st) (ps @ [leaf]) (i_ino (sb_root m)) =
      (case dir_map content f (e2 st) d leaf of None \<Rightarrow> None | Some i \<Rightarrow> if e2fs.alive content f (e2 st) i then Some i else None)"
    using R(4) by (simp add: ino_walk_append split: option.split)
  obtain x where x: "same_disk content (e2 st) x" "case walk_to content f (e2 st) (ps @ [leaf]) (i_ino (sb_root m)) of
       None \<Rightarrow> vfs_resolve (Some (path_of (ps @ [leaf]))) st = (failed, st\<lparr>e2 := x\<rparr>)
     | Some i \<Rightarrow> \<exists>ino. vfs_resolve (Some (path_of (ps @ [leaf]))) st = (Inr (ino, Some 0), st\<lparr>e2 := x\<rparr>) \<and> i_ino ino = i \<and>
         (ps @ [leaf] = [] \<and> ino = sb_root m \<or> ps @ [leaf] \<noteq> [] \<and> (\<exists>out. live_inode content f (e2 st) out i = Some ino))"
    using resolve_ext2 [OF R(1,2) p R(11-13)] by blast
  show ?thesis
    by (rule exI [of _ x]) (use x in \<open>auto simp: w live_inode_def intro: sym split: option.splits if_splits\<close>)
qed

definition new_mode :: "'d vfs \<Rightarrow> u16" where
  "new_mode st = VFS_INODE_FILE OR (0x1A4 AND NOT (vfs_current_umask st))"

lemma new_mode_e2 [simp]: "new_mode (st\<lparr>e2 := x\<rparr>) = new_mode st"
  by (simp add: new_mode_def vfs_current_umask_def)

lemma new_mode_kind: "new_mode st AND 0xF000 = VFS_INODE_FILE" "vfs_mode_from_ext2 (new_mode st) = new_mode st" "new_mode st \<noteq> 0"
  "0x8000 OR (new_mode st AND 0x1FF) = new_mode st"
proof -
  have hi: "(0x1A4 AND NOT u) AND 0xF000 = (0 :: u16)" for u
  proof -
    have "(0x1A4 AND NOT u) AND 0xF000 = (0x1A4 AND 0xF000) AND NOT u" by (simp only: ac_simps)
    then show ?thesis by simp
  qed
  show k: "new_mode st AND 0xF000 = VFS_INODE_FILE"
    by (simp add: new_mode_def bit.conj_disj_distrib2 hi VFS_INODE_FILE_def)
  have lo: "(0x1A4 AND NOT u) AND 0xFFF = 0x1A4 AND NOT (u :: u16)" for u
  proof -
    have "(0x1A4 AND NOT u) AND 0xFFF = (0x1A4 AND 0xFFF) AND NOT u" by (simp only: ac_simps)
    then show ?thesis by simp
  qed
  show "vfs_mode_from_ext2 (new_mode st) = new_mode st"
    using k by (simp add: vfs_mode_from_ext2_def Let_def VFS_INODE_FILE_def) (simp add: new_mode_def bit.conj_disj_distrib2 lo VFS_INODE_FILE_def)
  have p: "(0x1A4 AND NOT u) AND 0x1FF = 0x1A4 AND NOT (u :: u16)" for u
  proof -
    have "(0x1A4 AND NOT u) AND 0x1FF = (0x1A4 AND 0x1FF) AND NOT u" by (simp only: ac_simps)
    then show ?thesis by simp
  qed
  show "0x8000 OR (new_mode st AND 0x1FF) = new_mode st"
    by (simp add: new_mode_def bit.conj_disj_distrib2 p VFS_INODE_FILE_def)
  show "new_mode st \<noteq> 0" using k by (auto simp: VFS_INODE_FILE_def)
qed

lemma not_input_path:
  assumes "path_ok ps" "components q = lit ''dev'' # r" "valid_cstr q"
  shows "strcmp (path_of ps) q \<noteq> 0"
proof
  assume "strcmp (path_of ps) q = 0"
  moreover have "valid_cstr (path_of ps)" using assms(1) by (intro path_of_shape(3)) (auto simp: path_ok_def)
  ultimately have "components (path_of ps) = lit ''dev'' # r" using strcmp_zero_iff assms(2,3) by metis
  moreover have "components (path_of ps) = ps" using assms(1) by (intro path_of_len(1)) (auto simp: path_ok_def)
  ultimately show False using assms(1) by (simp add: path_ok_def)
qed

text \<open>Reading a regular file of the volume by path.\<close>

lemma read_file_ok:
  assumes r: "dir_ready content f L m ps d st" and p: "path_ok (ps @ [leaf])" and i: "dir_map content f (e2 st) d leaf = Some i" "i \<in> L"
    and y: "y = inode_at content f (e2 st) i" and mode: "e_mode y = new_mode st"
    and perm: "vfs_permission_check (zero_inode\<lparr>i_mode := e_mode y, i_uid := e_uid y, i_gid := e_gid y\<rparr>) 4 (cur_task st) = 0"
    and rd: "\<And>t ino. same_disk content (e2 st) t \<Longrightarrow> i_ino ino = i \<Longrightarrow> \<exists>s2. ext2_read f ino 0 n t = (Some out, s2) \<and> same_disk content t s2"
  shows "fst (vfs_read_file io (Some (path_of (ps @ [leaf]))) n st) = Inr out"
proof -
  note R = dir_readyD [OF r]
  have "e2fs.alive content f (e2 st) i"
    using fs_wfD(6) [OF R(3) i(2)] mode new_mode_kind(2,3) [of st] y by (simp add: alive_iff)
  then obtain x ino o1 where x: "same_disk content (e2 st) x" "ino = fill_inode i y o1"
    "vfs_resolve (Some (path_of (ps @ [leaf]))) st = (Inr (ino, Some 0), st\<lparr>e2 := x\<rparr>)"
    using resolve_leaf [OF r p] i(1) y by auto
  have a: "i_ino ino = i" "i_mode ino = new_mode st" "i_uid ino = e_uid y" "i_gid ino = e_gid y"
    using x(2) mode new_mode_kind(2) [of st] by (simp_all add: fill_inode_def)
  have pm: "\<not> vfs_permission_check ino 4 (cur_task st) < 0"
    using perm permission_attrs [of ino "zero_inode\<lparr>i_mode := e_mode y, i_uid := e_uid y, i_gid := e_gid y\<rparr>" 4 "cur_task st"] a mode by simp
  have nin: "strcmp (path_of (ps @ [leaf])) (lit ''/dev/input/mice'') \<noteq> 0" "strcmp (path_of (ps @ [leaf])) (lit ''/dev/input/mouse0'') \<noteq> 0"
    "strcmp (path_of (ps @ [leaf])) (lit ''/dev/input/event0'') \<noteq> 0"
  proof -
    have "components (lit ''/dev/input/mice'') = lit ''dev'' # [lit ''input'', lit ''mice'']"
      "components (lit ''/dev/input/mouse0'') = lit ''dev'' # [lit ''input'', lit ''mouse0'']"
      "components (lit ''/dev/input/event0'') = lit ''dev'' # [lit ''input'', lit ''event0'']" by (simp_all add: components_def lit_def)
    note c = this [THEN not_input_path [OF p]]
    show "strcmp (path_of (ps @ [leaf])) (lit ''/dev/input/mice'') \<noteq> 0" "strcmp (path_of (ps @ [leaf])) (lit ''/dev/input/mouse0'') \<noteq> 0"
      "strcmp (path_of (ps @ [leaf])) (lit ''/dev/input/event0'') \<noteq> 0" by (rule c, simp add: lit_def)+
  qed
  obtain s2 where s2: "ext2_read f ino 0 n x = (Some out, s2)" using rd [OF x(1) a(1)] by blast
  have kind: "new_mode st AND 0xF000 \<noteq> VFS_INODE_CHR" "new_mode st AND 0xF000 \<noteq> VFS_INODE_BLK"
    by (simp_all add: new_mode_kind(1) VFS_INODE_FILE_def VFS_INODE_CHR_def VFS_INODE_BLK_def)
  have "read_resolved io ino (Some 0) n (st\<lparr>e2 := x\<rparr>) = (Inr out, st\<lparr>e2 := s2\<rparr>)"
    using kind a(2) R(8-10) s2 by (simp add: read_resolved_def ext2_ops_def op_result_def fail_or_def)
  then show ?thesis using x(3) pm nin by (simp add: vfs_read_file_def)
qed

text \<open>The steps of creating a file by path: nothing is found, the parent is resolved, an inode is created.\<close>

lemma write_new_file:
  assumes r: "dir_ready content f L m ps d st" and p: "path_ok (ps @ [leaf])" and new: "dir_map content f (e2 st) d leaf = None"
    and perm: "vfs_permission_check (node_at content f m (e2 st) ps d) 3 (cur_task st) = 0"
  obtains dir x where "same_disk content (e2 st) x" "i_ino dir = d"
    "vfs_write_file io gb (Some (path_of (ps @ [leaf]))) buf st =
       (case ext2_create f dir leaf (new_mode st) (euid (cur_task st)) (egid (cur_task st)) gb x of
          (None, y) \<Rightarrow> (failed, st\<lparr>e2 := y\<rparr>)
        | (Some ino, y) \<Rightarrow> op_result (st\<lparr>e2 := x\<rparr>) (fail_or (map_prod (map_option fst) id (ext2_write f ino 0 buf y))))"
proof -
  note R = dir_readyD [OF r]
  have n: "normalize_path (Some (path_of (ps @ [leaf]))) st = (Some (path_of (ps @ [leaf])), st)" by (rule normalize_path_of [OF R(1) p])
  obtain x1 where x1: "same_disk content (e2 st) x1" "vfs_resolve (Some (path_of (ps @ [leaf]))) st = (failed, st\<lparr>e2 := x1\<rparr>)"
    using resolve_leaf [OF r p] new by auto
  let ?s1 = "st\<lparr>e2 := x1\<rparr>"
  have r1: "dir_ready content f L m ps d ?s1" by (rule dir_ready_same [OF r x1(1)])
  have perm1: "vfs_permission_check (node_at content f m (e2 ?s1) ps d) 3 (cur_task ?s1) = 0" using perm same_walk(2) [OF x1(1), of f m] by simp
  obtain dir x where x: "same_disk content (e2 ?s1) x" "i_ino dir = d"
    "resolve_parent (path_of (ps @ [leaf])) (\<lambda>o1. op_create o1 \<noteq> None) ?s1 = (Inr (dir, m, leaf), ?s1\<lparr>e2 := x\<rparr>)"
    using resolve_parent_ok [OF r1 p _ perm1, of "\<lambda>o1. op_create o1 \<noteq> None"] by (auto simp: ext2_ops_def)
  have "vfs_write_file io gb (Some (path_of (ps @ [leaf]))) buf st =
       (case ext2_create f dir leaf (new_mode st) (euid (cur_task st)) (egid (cur_task st)) gb x of
          (None, y) \<Rightarrow> (failed, st\<lparr>e2 := y\<rparr>)
        | (Some ino, y) \<Rightarrow> op_result (st\<lparr>e2 := x\<rparr>) (fail_or (map_prod (map_option fst) id (ext2_write f ino 0 buf y))))"
    using x1(2) x(3) R(9,10)
    by (simp add: vfs_write_file_def n ext2_ops_def fail_or_def new_mode_def vfs_current_umask_def split: option.split prod.split)
  then show thesis using that [of x dir] same_disk_trans [OF x1(1)] x(1,2) by simp
qed

lemma dir_ready_later:
  assumes r: "dir_ready content f L m ps d st" and sub: "L \<subseteq> L'" and wf: "fs_wf content f L' x"
    and maps: "\<And>j c l. j \<in> L \<Longrightarrow> dir_map content f (e2 st) j c = Some l \<Longrightarrow> dir_map content f x j c = Some l"
    and modes: "\<And>j. j \<in> L \<Longrightarrow> e_mode (inode_at content f x j) = e_mode (inode_at content f (e2 st) j)"
  shows "dir_ready content f L' m ps d (st\<lparr>e2 := x\<rparr>)"
proof -
  note R = dir_readyD [OF r]
  have alive: "e2fs.alive content f x j" if "j \<in> L" "e2fs.alive content f (e2 st) j" for j
    using that modes fs_wfD(6) [OF wf, of j] sub by (auto simp: alive_iff)
  have "walk_to content f x ps (i_ino (sb_root m)) = Some d"
    by (rule ino_walk_keep [OF R(4)]) (use R(5) maps alive in blast)+
  moreover have "trail_to content f x ps (i_ino (sb_root m)) = trail_to content f (e2 st) ps (i_ino (sb_root m))"
  proof -
    have "ino_walk e a cs i = Some j \<Longrightarrow> (\<And>k c l. k \<in> ino_trail e cs i \<Longrightarrow> e k c = Some l \<Longrightarrow> e' k c = Some l) \<Longrightarrow> ino_trail e' cs i = ino_trail e cs i"
      for e e' a cs i j
    proof (induction cs arbitrary: i)
      case (Cons c cs)
      obtain l where l: "e i c = Some l" "ino_walk e a cs l = Some j" using Cons.prems(1) by (auto split: option.splits if_splits)
      then have "e' i c = Some l" using Cons.prems(2) [of i c l] by simp
      then show ?case using l Cons.IH [OF l(2)] Cons.prems(2) by simp
    qed simp
    from this [OF R(4), of "dir_map content f x"] show ?thesis using maps R(5) by blast
  qed
  ultimately show ?thesis using R(1,2,5) sub wf by (auto simp: dir_ready_def)
qed

lemma no_room_same: "same_disk content x y \<Longrightarrow> no_room content f y d = no_room content f x d"
  using inode_at_same [of content x y f d] same_disk_blk [of content x y f]
  by (simp add: no_room_def in_use_def ipg_def ibm_def bpg_def bbm_def same_disk_def)


text \<open>A kernel whose only mount is the RAM disk volume, for the concrete instance.\<close>

definition demo_root_vfs :: "ram vfs" where
  "demo_root_vfs = demo_vfs\<lparr>g_mounts := [demo_sb (lit ''/'')]\<rparr>"

lemma demo_root_fields:
  "g_mounts demo_root_vfs = [demo_sb (lit ''/'')]" "e2 demo_root_vfs = demo_vol" "cur_task demo_root_vfs = cur_task demo_vfs" "cwd_ok demo_root_vfs"
proof -
  have "process_current_task demo_root_vfs = process_current_task demo_vfs"
    by (simp add: demo_root_vfs_def process_current_task_def scheduler_current_task_def scheduler_cpu_local_def scheduler_cpu_id_def cong: option.case_cong)
  then have t: "process_current_task demo_root_vfs = TaskP 0" "tasks demo_root_vfs = tasks demo_vfs"
    by (simp_all add: demo_vfs_fields demo_root_vfs_def)
  then show "cur_task demo_root_vfs = cur_task demo_vfs" by (simp add: cur_task_def demo_vfs_fields)
  have "vfs_current_cwd demo_root_vfs = (lit ''/'', demo_root_vfs)" by (simp add: vfs_current_cwd_def t demo_vfs_fields Let_def lit_def)
  then show "cwd_ok demo_root_vfs" by (simp add: cwd_ok_def lit_def)
qed (simp_all add: demo_root_vfs_def demo_vfs_fields)

lemma demo_dir_ready: "dir_ready ram_content 0 {2} (demo_sb (lit ''/'')) [] 2 demo_root_vfs"
  using demo_vol_wf by (simp add: dir_ready_def demo_root_fields ext2_root_def demo_sb_def)


end
