(* ===== verification/UserMem.thy ===== *)
theory UserMem
  imports Process
begin

text \<open>
  User memory as the system calls of \<^verbatim>\<open>src/sys/syscall.c\<close> see it. \<open>umem\<close> is the content of the
  current address space by virtual address; \<open>phys\<close> reads a quadword of physical memory, which is
  where \<^verbatim>\<open>user_pte_flags\<close> walks the four levels of page tables from the CR3 register.
\<close>

type_synonym umem = "u64 \<Rightarrow> u8"

definition USER_MIN_ADDR :: u64 where [model_simps]: "USER_MIN_ADDR = 0x1000"
definition USER_MAX_ADDR :: u64 where [model_simps]: "USER_MAX_ADDR = 0x40000000"
definition USER_HEAP_BASE_ADDR :: u64 where [model_simps]: "USER_HEAP_BASE_ADDR = 0x20400000"
definition PAGE_SIZE :: u64 where [model_simps]: "PAGE_SIZE = 4096"

section \<open>Pages\<close>

definition page_align_up :: "u64 \<Rightarrow> u64" where
  "page_align_up v = (v + PAGE_SIZE - 1) AND NOT (PAGE_SIZE - 1)"

definition page_flags :: "u64 \<Rightarrow> u64" where "page_flags e = e AND 0xFFF"

definition table_entry :: "(u64 \<Rightarrow> u64) \<Rightarrow> u64 \<Rightarrow> nat \<Rightarrow> u64 \<Rightarrow> u64" where
  "table_entry phys e k va = phys ((e AND NOT 0xFFF) + 8 * (drop_bit k va AND 0x1FF))"

definition user_pte_flags :: "(u64 \<Rightarrow> u64) \<Rightarrow> u64 \<Rightarrow> u64 \<Rightarrow> u64" where
  "user_pte_flags phys creg va =
     (let pml4e = table_entry phys creg 39 va
      in if pml4e AND PAGE_PRESENT = 0 then 0
         else let pdpte = table_entry phys pml4e 30 va
              in if pdpte AND PAGE_PRESENT = 0 then 0
                 else if pdpte AND PAGE_PS \<noteq> 0 then page_flags pdpte
                 else let pde = table_entry phys pdpte 21 va
                      in if pde AND PAGE_PRESENT = 0 then 0
                         else if pde AND PAGE_PS \<noteq> 0 then page_flags pde
                         else let pte = table_entry phys pde 12 va
                              in if pte AND PAGE_PRESENT = 0 then 0 else page_flags pte)"

definition user_page_ok :: "bool \<Rightarrow> u64 \<Rightarrow> bool" where
  "user_page_ok wr flags \<longleftrightarrow>
     flags AND PAGE_PRESENT \<noteq> 0 \<and> flags AND PAGE_USER \<noteq> 0 \<and> (wr \<longrightarrow> flags AND PAGE_WRITE \<noteq> 0)"

section \<open>Copies between the kernel and user memory\<close>

definition user_range_ok :: "u64 \<Rightarrow> u64 \<Rightarrow> bool" where
  "user_range_ok addr len =
     (if addr < USER_MIN_ADDR then False
      else if USER_MAX_ADDR \<le> addr then False
      else if len = 0 then True
      else if addr + len < addr then False
      else if USER_MAX_ADDR < addr + len then False
      else True)"

definition get_user :: "umem \<Rightarrow> u64 \<Rightarrow> nat \<Rightarrow> u8 list" where
  "get_user um a n = map (\<lambda>i. um (a + word_of_nat i)) [0..<n]"

definition put_user :: "umem \<Rightarrow> u64 \<Rightarrow> u8 list \<Rightarrow> umem" where
  "put_user um a bs = (\<lambda>x. if unat (x - a) < length bs then bs ! unat (x - a) else um x)"

definition copy_from_user :: "u64 \<Rightarrow> u64 \<Rightarrow> umem \<Rightarrow> u8 list option" where
  "copy_from_user src_u len um =
     (if \<not> user_range_ok src_u len then None else Some (get_user um src_u (unat (ucast len :: u32))))"

definition copy_to_user :: "u64 \<Rightarrow> u8 list \<Rightarrow> u64 \<Rightarrow> umem \<Rightarrow> umem option" where
  "copy_to_user dst_u src len um =
     (if \<not> user_range_ok dst_u len then None else Some (put_user um dst_u (take (unat (ucast len :: u32)) src)))"

fun copy_cstr_loop :: "nat \<Rightarrow> u64 \<Rightarrow> umem \<Rightarrow> cstr option" where
  "copy_cstr_loop 0 src_u um = None"
| "copy_cstr_loop (Suc n) src_u um =
     (case copy_from_user src_u 1 um of
        None \<Rightarrow> None
      | Some bs \<Rightarrow> if hd bs = 0 then Some [] else map_option ((#) (hd bs)) (copy_cstr_loop n (src_u + 1) um))"

definition copy_user_cstr :: "nat \<Rightarrow> u64 \<Rightarrow> umem \<Rightarrow> cstr option" where
  "copy_user_cstr dst_sz src_u um =
     (if dst_sz \<le> 1 then None
      else if src_u = 0 then Some []
      else copy_cstr_loop (dst_sz - 1) src_u um)"

section \<open>Integers in user memory\<close>

definition le_bytes :: "nat \<Rightarrow> u64 \<Rightarrow> u8 list" where
  "le_bytes n v = map (\<lambda>i. ucast (drop_bit (8 * i) v)) [0..<n]"

definition of_le :: "u8 list \<Rightarrow> u64" where
  "of_le bs = foldr (\<lambda>b a. ucast b OR push_bit 8 a) bs 0"

lemma length_le_bytes [simp]: "length (le_bytes n v) = n"
  by (simp add: le_bytes_def)

section \<open>Page arithmetic\<close>

definition page_aligned :: "u64 \<Rightarrow> bool" where
  "page_aligned a \<longleftrightarrow> unat a mod 4096 = 0"

lemma unat_below [simp]: "unat (a :: u64) < 2 ^ 64"
  using unsigned_less [of a] by simp

lemma unat_sum: "unat (a :: u64) + unat b < 2 ^ 64 \<Longrightarrow> unat (a + b) = unat a + unat b"
  by (simp add: unat_word_ariths)

lemma unat_take_page: "unat (take_bit 12 (x :: u64)) = unat x mod 4096"
proof -
  have "unat (take_bit 12 x) = take_bit 12 (unat x)" by (rule unsigned_take_bit_eq)
  also have "\<dots> = unat x mod 4096" by (simp only: take_bit_eq_mod) simp
  finally show ?thesis .
qed

lemma page_mask: "x AND - 4096 = x - take_bit 12 (x :: u64)"
proof -
  have m: "- 4096 = NOT (mask 12 :: u64)"
    by (simp only: mask_eq_exp_minus_1 minus_eq_not_minus_1) simp
  have "x = take_bit 12 x OR (x AND NOT (mask 12))"
    by (rule bit_eqI) (auto simp: bit_simps)
  also have "\<dots> = take_bit 12 x + (x AND NOT (mask 12))"
    by (rule disjunctive_add [symmetric]) (auto simp: bit_simps)
  finally have "x = take_bit 12 x + (x AND - 4096)" by (simp only: m)
  then show ?thesis by (metis add_diff_cancel_left')
qed

lemma unat_page_mask: "unat (x AND - 4096 :: u64) = unat x div 4096 * 4096"
proof -
  have "take_bit 12 x \<le> x"
    by (simp only: word_le_nat_alt unat_take_page mod_less_eq_dividend)
  then show ?thesis
    by (simp only: page_mask unat_sub unat_take_page minus_mod_eq_div_mult)
qed

lemma page_aligned_mask [simp]: "page_aligned (x AND - 4096)"
  by (simp add: page_aligned_def unat_page_mask)

lemma page_aligned_align_up [simp]: "page_aligned (page_align_up v)"
  by (simp add: page_align_up_def PAGE_SIZE_def)

lemma page_aligned_0 [simp]: "page_aligned 0"
  by (simp add: page_aligned_def)

lemma page_aligned_dvd: "page_aligned a \<longleftrightarrow> 4096 dvd unat a"
  by (simp add: page_aligned_def mod_eq_0_iff_dvd)

lemma page_aligned_iff: "page_aligned a \<longleftrightarrow> a AND 4095 = 0"
proof -
  have m: "(4095 :: u64) = mask 12" by (simp add: mask_eq_exp_minus_1)
  have "a AND 4095 = take_bit 12 a" by (simp only: m take_bit_eq_mask)
  then show ?thesis
    by (simp only: page_aligned_def flip: unat_take_page unat_eq_0)
qed

lemma page_aligned_add: "page_aligned a \<Longrightarrow> page_aligned b \<Longrightarrow> page_aligned (a + b)"
  unfolding page_aligned_dvd unat_word_ariths by (rule dvd_mod) (simp_all add: dvd_add)

lemma unat_page_align_up:
  assumes "unat v + 4095 < 2 ^ 64"
  shows "unat (page_align_up v) = (unat v + 4095) div 4096 * 4096"
proof -
  have "unat (v + 4095) = unat v + 4095"
    using unat_sum [of v 4095] assms by simp
  then show ?thesis by (simp add: page_align_up_def PAGE_SIZE_def unat_page_mask add.commute)
qed

section \<open>What a copied string is\<close>

lemma user_range_ok_iff:
  "user_range_ok a len \<longleftrightarrow> 4096 \<le> unat a \<and> unat a < 2 ^ 30 \<and> (len \<noteq> 0 \<longrightarrow> unat a + unat len \<le> 2 ^ 30)"
proof (cases "unat a + unat len < 2 ^ 64")
  case True
  then have "unat (a + len) = unat a + unat len" by (rule unat_sum)
  then show ?thesis
    by (auto simp: user_range_ok_def model_simps word_less_nat_alt word_le_nat_alt unat_eq_0)
next
  case False
  then have "unat (a + len) < unat a"
    using unat_below [of a] unat_below [of len] by (simp add: unat_word_ariths mod_if) linarith
  then show ?thesis using False
    by (auto simp: user_range_ok_def model_simps word_less_nat_alt word_le_nat_alt)
qed

text \<open>A string lies at \<open>a\<close> when its bytes and the terminating NUL are readable user bytes.\<close>

definition cstr_at :: "umem \<Rightarrow> u64 \<Rightarrow> cstr \<Rightarrow> bool" where
  "cstr_at um a s \<longleftrightarrow> valid_cstr s \<and> 4096 \<le> unat a \<and> unat a + length s < 2 ^ 30 \<and>
     get_user um a (length s) = s \<and> um (a + word_of_nat (length s)) = 0"

lemma user_byte_ok: "user_range_ok a 1 \<longleftrightarrow> 4096 \<le> unat a \<and> unat a < 2 ^ 30"
  by (auto simp: user_range_ok_iff)

lemma copy_byte: "copy_from_user a 1 um = (if user_range_ok a 1 then Some [um a] else None)"
  by (simp add: copy_from_user_def get_user_def)

lemma get_user_Cons: "get_user um a (Suc n) = um a # get_user um (a + 1) n"
  by (simp add: get_user_def upt_conv_Cons map_Suc_upt [symmetric] comp_def add.assoc del: upt_Suc)

lemma cstr_at_Nil: "cstr_at um a [] \<longleftrightarrow> user_range_ok a 1 \<and> um a = 0"
  by (auto simp: cstr_at_def user_byte_ok get_user_def)

lemma cstr_at_Cons:
  "cstr_at um a (c # s) \<longleftrightarrow> user_range_ok a 1 \<and> um a = c \<and> c \<noteq> 0 \<and> cstr_at um (a + 1) s"
proof (cases "unat a < 2 ^ 30")
  case True
  then have "unat (a + 1) = unat a + 1" using unat_sum [of a 1] by simp
  then show ?thesis by (auto simp: cstr_at_def user_byte_ok get_user_Cons add.assoc)
qed (simp add: cstr_at_def user_byte_ok)

lemma copy_cstr_loop_iff: "copy_cstr_loop n a um = Some s \<longleftrightarrow> cstr_at um a s \<and> length s < n"
proof (induction n arbitrary: a s)
  case (Suc n)
  show ?case
    by (cases s) (auto simp: copy_byte cstr_at_Nil cstr_at_Cons Suc.IH split: if_splits)
qed simp

text \<open>\<^verbatim>\<open>copy_user_cstr\<close> succeeds exactly when the pointer is null (giving the empty string) or a
  NUL-terminated string lies in user memory at the pointer, no byte of it outside the user range,
  that fits the buffer with its terminator; it then returns that string and nothing else.\<close>

theorem copy_user_cstr_spec:
  "copy_user_cstr sz a um = Some s \<longleftrightarrow>
     1 < sz \<and> (if a = 0 then s = [] else cstr_at um a s \<and> length s + 1 < sz)"
  by (auto simp: copy_user_cstr_def copy_cstr_loop_iff)

section \<open>Reading back what was written\<close>

lemma bit_of_le: "n < 64 \<Longrightarrow> bit (of_le bs) n \<longleftrightarrow> n div 8 < length bs \<and> bit (bs ! (n div 8)) (n mod 8)"
proof (induction bs arbitrary: n)
  case (Cons b bs)
  show ?case
  proof (cases "n < 8")
    case False
    then have "bit (of_le (b # bs)) n = bit (of_le bs) (n - 8)"
      using Cons.prems by (auto simp: of_le_def bit_simps dest: bit_imp_le_length)
    moreover have "n div 8 = Suc ((n - 8) div 8)" "n mod 8 = (n - 8) mod 8" using False by (auto simp: le_div_geq le_mod_geq)
    ultimately show ?thesis using Cons.IH [of "n - 8"] Cons.prems by simp
  qed (use Cons.prems in \<open>auto simp: of_le_def bit_simps\<close>)
qed (simp add: of_le_def)

lemma of_le_bytes [simp]: "of_le (le_bytes 8 v) = v"
proof (rule bit_eqI)
  fix n assume "possible_bit TYPE(64 word) n"
  then have n: "n < 64" by simp
  then have "n div 8 < 8" by (simp add: less_mult_imp_div_less)
  then show "bit (of_le (le_bytes 8 v)) n = bit v n"
    using n by (simp add: bit_of_le le_bytes_def bit_simps)
qed

lemma get_put_user:
  assumes "k + n \<le> length bs" "length bs < 2 ^ 64" "b = a + of_nat k"
  shows "get_user (put_user um a bs) b n = take n (drop k bs)"
proof (rule nth_equalityI)
  fix i assume "i < length (get_user (put_user um a bs) b n)"
  then have i: "i < n" by (simp add: get_user_def)
  have "unat (of_nat (k + i) :: u64) = k + i" using assms(1,2) i by (simp add: unsigned_of_nat take_bit_nat_eq_self del: of_nat_add)
  moreover have "b + of_nat i - a = of_nat (k + i)" using assms(3) by simp
  ultimately have "unat (b + of_nat i - a) = k + i" by presburger
  then show "get_user (put_user um a bs) b n ! i = take n (drop k bs) ! i"
    using i assms(1) by (simp add: get_user_def put_user_def)
qed (use assms(1) in \<open>simp add: get_user_def\<close>)

lemma put_user_at:
  assumes "unat a + length bs \<le> 2 ^ 64"
  shows "put_user um a bs x = (if unat a \<le> unat x \<and> unat x < unat a + length bs then bs ! (unat x - unat a) else um x)"
proof (cases "unat a \<le> unat x")
  case True
  then have "unat (x - a) = unat x - unat a" by (simp add: unat_sub word_le_nat_alt)
  then show ?thesis using True by (auto simp: put_user_def)
next
  case False
  then have "unat (x - a) = 2 ^ 64 + unat x - unat a" using unat_below [of a]
    by (simp add: unat_sub_if_size word_size word_le_nat_alt)
  then have "\<not> unat (x - a) < length bs" using False assms by linarith
  then show ?thesis using False by (simp add: put_user_def)
qed

end
