(* ===== verification/Vma.thy ===== *)
theory Vma
  imports UserMem
begin

text \<open>
  The table of mapped user ranges in a task (\<^verbatim>\<open>user_vmas\<close>) and the system calls on it, from
  \<^verbatim>\<open>src/sys/syscall.c\<close>: \<^verbatim>\<open>brk\<close>, \<^verbatim>\<open>munmap\<close>, \<^verbatim>\<open>mprotect\<close> and the search, insertion and removal
  routines behind \<^verbatim>\<open>mmap\<close>. A slot with \<^verbatim>\<open>end <= start\<close> is free.
\<close>

section \<open>Operations\<close>

definition vma_live :: "edge_user_vma \<Rightarrow> bool" where
  "vma_live v \<longleftrightarrow> vma_start v < vma_end v"

definition brk_blocked :: "task \<Rightarrow> u64 \<Rightarrow> bool" where
  "brk_blocked t req =
     list_ex (\<lambda>v. vma_live v \<and> \<not> (vma_end v \<le> user_brk t \<or> req \<le> vma_start v)) (user_vmas t)"

definition do_sys_brk :: "(u64 \<Rightarrow> u64) \<Rightarrow> u64 \<Rightarrow> 'a sched_scheme \<Rightarrow> u64 \<times> 'a sched_scheme" where
  "do_sys_brk phys addr s =
     (let cur = process_current_task s; t = tasks s cur; req = page_align_up addr
      in if addr = 0 then (user_brk t, s)
         else if req < user_heap_base t \<or> user_heap_limit t < req then (user_brk t, s)
         else if user_brk t < req \<and> brk_blocked t req then (user_brk t, s)
         else if user_heap_base t < req \<and> \<not> user_page_ok True (user_pte_flags phys (reg_cr3 s) (req - 1))
         then (user_brk t, s)
         else (req, upd_task cur (user_brk_update (\<lambda>_. req)) s))"

definition user_vma_find_free_slot :: "task \<Rightarrow> nat option" where
  "user_vma_find_free_slot t = first_idx (\<lambda>i. \<not> vma_live (user_vmas t ! i)) 0 PROCESS_USER_VMA_MAX"

definition user_vma_recount :: "task \<Rightarrow> task" where
  "user_vma_recount t = t\<lparr>user_vma_count := word_of_nat (length (filter vma_live (user_vmas t)))\<rparr>"

definition lower_hint :: "task \<Rightarrow> edge_user_vma \<Rightarrow> u64 \<Rightarrow> u64" where
  "lower_hint t v hint =
     (if \<not> vma_live v then hint
      else if vma_start v < USER_HEAP_BASE_ADDR \<or> user_heap_limit t \<le> vma_start v then hint
      else if vma_start v < hint then vma_start v else hint)"

definition user_vma_refresh_mmap_hint :: "task \<Rightarrow> task" where
  "user_vma_refresh_mmap_hint t = t\<lparr>user_mmap_next := fold (lower_hint t) (user_vmas t) (user_heap_limit t)\<rparr>"

definition set_vma :: "nat \<Rightarrow> edge_user_vma \<Rightarrow> task \<Rightarrow> task" where
  "set_vma i v t = t\<lparr>user_vmas := (user_vmas t)[i := v]\<rparr>"

definition user_vma_record :: "u64 \<Rightarrow> u64 \<Rightarrow> u32 \<Rightarrow> u32 \<Rightarrow> task \<Rightarrow> bool \<times> task" where
  "user_vma_record start en prot flags t =
     (if en \<le> start then (False, t)
      else case user_vma_find_free_slot t of
             None \<Rightarrow> (False, t)
           | Some slot \<Rightarrow>
               (True, user_vma_refresh_mmap_hint (user_vma_recount
                  (set_vma slot \<lparr>vma_start = start, vma_end = en, vma_prot = prot, vma_flags = flags\<rparr> t))))"

definition gap_overlaps :: "u64 \<Rightarrow> u64 \<Rightarrow> u64 \<Rightarrow> u64 \<Rightarrow> edge_user_vma \<Rightarrow> bool" where
  "gap_overlaps flr top1 base en v \<longleftrightarrow>
     vma_live v \<and> \<not> (vma_end v \<le> flr \<or> top1 \<le> vma_start v) \<and> \<not> (en \<le> vma_start v \<or> vma_end v \<le> base)"

fun gap_loop :: "nat \<Rightarrow> edge_user_vma list \<Rightarrow> u64 \<Rightarrow> u64 \<Rightarrow> u64 \<Rightarrow> u64 \<Rightarrow> u64" where
  "gap_loop 0 vs flr top1 need cursor = 0"
| "gap_loop (Suc n) vs flr top1 need cursor =
     (if cursor \<le> flr \<or> cursor - flr < need then 0
      else let b0 = (cursor - need) AND NOT (PAGE_SIZE - 1);
               base = (if b0 < flr then flr else b0);
               en = base + need
           in if top1 < en \<or> en < base then 0
              else let hits = filter (gap_overlaps flr top1 base en) vs;
                       next_cursor = fold (\<lambda>v c. if vma_start v < c then vma_start v else c) hits cursor
                   in if hits = [] then base
                      else if cursor \<le> next_cursor then 0
                      else gap_loop n vs flr top1 need next_cursor)"

definition user_vma_find_topdown_gap :: "task \<Rightarrow> u64 \<Rightarrow> u64 \<Rightarrow> u64 \<Rightarrow> u64" where
  "user_vma_find_topdown_gap t flr top1 need =
     (if need = 0 then 0
      else if top1 \<le> flr \<or> top1 - flr < need then 0
      else gap_loop (PROCESS_USER_VMA_MAX + 4) (user_vmas t) flr top1 need top1)"

definition remove_step :: "u64 \<Rightarrow> u64 \<Rightarrow> nat \<Rightarrow> bool \<times> task \<Rightarrow> bool \<times> task" where
  "remove_step start en i = (\<lambda>(changed, t).
     let v = user_vmas t ! i
     in if \<not> vma_live v then (changed, t)
        else if en \<le> vma_start v \<or> vma_end v \<le> start then (changed, t)
        else if start \<le> vma_start v \<and> vma_end v \<le> en then (True, set_vma i zero_vma t)
        else if start \<le> vma_start v then (True, set_vma i (v\<lparr>vma_start := en\<rparr>) t)
        else if vma_end v \<le> en then (True, set_vma i (v\<lparr>vma_end := start\<rparr>) t)
        else let t1 = (case user_vma_find_free_slot t of
                         Some slot \<Rightarrow> set_vma slot (v\<lparr>vma_start := en\<rparr>) t
                       | None \<Rightarrow> t)
             in (True, set_vma i (v\<lparr>vma_end := start\<rparr>) t1))"

definition user_vma_remove_range :: "u64 \<Rightarrow> u64 \<Rightarrow> task \<Rightarrow> bool \<times> task" where
  "user_vma_remove_range start en t =
     (if en \<le> start then (False, t)
      else case fold (remove_step start en) [0..<PROCESS_USER_VMA_MAX] (False, t) of
             (changed, t1) \<Rightarrow>
               (changed, if changed then user_vma_refresh_mmap_hint (user_vma_recount t1) else t1))"

definition do_sys_munmap :: "u64 \<Rightarrow> u64 \<Rightarrow> 'a sched_scheme \<Rightarrow> u64 \<times> 'a sched_scheme" where
  "do_sys_munmap addr len s =
     (let cur = process_current_task s; need = page_align_up len
      in if len = 0 then (0, s)
         else if addr AND (PAGE_SIZE - 1) \<noteq> 0 then (uerr EINVAL, s)
         else if need = 0 then (uerr EINVAL, s)
         else if USER_HEAP_BASE_ADDR \<le> addr \<and> addr < user_heap_limit (tasks s cur)
         then (0, upd_task cur (\<lambda>t. snd (user_vma_remove_range addr (addr + need) t)) s)
         else (0, s))"

definition pages_from :: "u64 \<Rightarrow> u64 \<Rightarrow> u64 list" where
  "pages_from base en = map (\<lambda>i. base + word_of_nat (i * 4096)) [0..<(if en \<le> base then 0 else unat (en - base) div 4096)]"

definition pages_usable :: "(u64 \<Rightarrow> u64) \<Rightarrow> u64 \<Rightarrow> u64 \<Rightarrow> u64 \<Rightarrow> u64 \<Rightarrow> bool" where
  "pages_usable phys creg prot base en =
     list_all (\<lambda>v. user_page_ok (prot AND 2 \<noteq> 0) (user_pte_flags phys creg v)) (pages_from base en)"

definition do_sys_mprotect :: "(u64 \<Rightarrow> u64) \<Rightarrow> u64 \<Rightarrow> u64 \<Rightarrow> u64 \<Rightarrow> 'a sched_scheme \<Rightarrow> u64" where
  "do_sys_mprotect phys addr len prot s =
     (if addr AND (PAGE_SIZE - 1) \<noteq> 0 then uerr EINVAL
      else if len = 0 then 0
      else let en = page_align_up (addr + len)
           in if en < addr then uerr EINVAL
              else if \<not> pages_usable phys (reg_cr3 s) prot addr en then uerr ENOMEM
              else 0)"

section \<open>The search for a gap\<close>

text \<open>\<open>free_window vs lo n\<close>: none of the \<open>n\<close> bytes from \<open>lo\<close> is in a mapped range.\<close>

definition free_window :: "edge_user_vma list \<Rightarrow> nat \<Rightarrow> nat \<Rightarrow> bool" where
  "free_window vs lo n \<longleftrightarrow> (\<forall>v\<in>set vs. vma_live v \<longrightarrow> lo + n \<le> unat (vma_start v) \<or> unat (vma_end v) \<le> lo)"

definition vmas_aligned :: "edge_user_vma list \<Rightarrow> bool" where
  "vmas_aligned vs \<longleftrightarrow> (\<forall>v\<in>set vs. vma_live v \<longrightarrow> page_aligned (vma_start v) \<and> page_aligned (vma_end v))"

lemma fold_min_start:
  "fold (\<lambda>v c. if vma_start v < c then vma_start v else c) vs c = Min (insert c (vma_start ` set vs))"
proof (induction vs arbitrary: c)
  case (Cons v vs)
  have f: "(if vma_start v < c then vma_start v else c) = min (vma_start v) c"
    by (auto simp: min_def)
  have "Min (insert (min (vma_start v) c) (vma_start ` set vs)) = Min (insert c (vma_start ` set (v # vs)))"
    by (cases "vs = []") (simp_all add: ac_simps)
  then show ?case by (simp only: fold_Cons comp_apply f Cons.IH)
qed simp

text \<open>The starts below the cursor: what the remaining iterations can still move it to.\<close>

definition starts_below :: "edge_user_vma list \<Rightarrow> u64 \<Rightarrow> u64 set" where
  "starts_below vs c = {a \<in> vma_start ` set vs. a < c}"

lemma starts_below_shrinks:
  assumes "v \<in> set vs" "vma_start v < c"
  shows "card (starts_below vs (vma_start v)) < card (starts_below vs c)"
proof (rule psubset_card_mono)
  show "finite (starts_below vs c)" by (simp add: starts_below_def)
  have "vma_start v \<in> starts_below vs c" "vma_start v \<notin> starts_below vs (vma_start v)"
    using assms by (auto simp: starts_below_def)
  moreover have "starts_below vs (vma_start v) \<subseteq> starts_below vs c"
    using assms by (auto simp: starts_below_def)
  ultimately show "starts_below vs (vma_start v) \<subset> starts_below vs c" by blast
qed

lemma starts_below_le: "card (starts_below vs c) \<le> length vs"
proof -
  have "card (starts_below vs c) \<le> card (vma_start ` set vs)"
    by (rule card_mono) (auto simp: starts_below_def)
  also have "\<dots> \<le> length vs" by (metis card_image_le card_length finite_set le_trans)
  finally show ?thesis .
qed

lemma gap_base:
  assumes "page_aligned c" "page_aligned need" "\<not> c \<le> flr" "\<not> c - flr < need"
  shows "unat ((c - need) AND - 4096) = unat c - unat need" "unat flr + unat need \<le> unat c"
    "page_aligned ((c - need) AND - 4096)"
proof -
  have "flr \<le> c" using assms(3) by simp
  then have "unat (c - flr) = unat c - unat flr" by (rule unat_sub)
  then show le: "unat flr + unat need \<le> unat c"
    using assms(3,4) by (auto simp: word_less_nat_alt word_le_nat_alt)
  have "unat (c - need) = unat c - unat need"
    by (rule unat_sub) (use le in \<open>simp add: word_le_nat_alt\<close>)
  moreover have "4096 dvd unat c - unat need"
    using assms(1,2) by (simp add: page_aligned_dvd)
  ultimately show "unat ((c - need) AND - 4096) = unat c - unat need"
    by (simp add: unat_page_mask dvd_div_mult_self)
qed simp


definition gap_window :: "edge_user_vma list \<Rightarrow> u64 \<Rightarrow> u64 \<Rightarrow> u64 \<Rightarrow> nat \<Rightarrow> bool" where
  "gap_window vs flr top1 need lo \<longleftrightarrow>
     unat flr \<le> lo \<and> lo + unat need \<le> unat top1 \<and> free_window vs lo (unat need)"

lemma gap_overlaps_iff:
  assumes "unat flr \<le> unat b" "unat b + unat need \<le> unat top1" "need \<noteq> 0"
  shows "gap_overlaps flr top1 b (b + need) v \<longleftrightarrow>
    vma_live v \<and> unat (vma_start v) < unat b + unat need \<and> unat b < unat (vma_end v)"
proof -
  have "unat (b + need) = unat b + unat need"
    using assms(2) unat_below [of top1] by (intro unat_sum) simp
  then show ?thesis
    using assms by (auto simp: gap_overlaps_def vma_live_def word_less_nat_alt word_le_nat_alt not_le)
qed

lemma no_overlap_free:
  assumes "unat flr \<le> unat b" "unat b + unat need \<le> unat top1" "need \<noteq> 0"
  shows "filter (gap_overlaps flr top1 b (b + need)) vs = [] \<longleftrightarrow> gap_window vs flr top1 need (unat b)"
  using assms by (auto simp: filter_empty_conv gap_overlaps_iff gap_window_def free_window_def not_less)

lemma too_small:
  assumes "c \<le> flr \<or> c - flr < need" "need \<noteq> 0" "unat flr \<le> lo"
  shows "\<not> lo + unat need \<le> unat c"
proof
  assume le: "lo + unat need \<le> unat c"
  have "0 < unat need" using assms(2) by (simp add: unat_gt_0)
  then have "\<not> c \<le> flr" "unat (c - flr) = unat c - unat flr"
    using le assms(3) by (simp_all add: word_le_nat_alt unat_sub)
  then show False using assms(1,3) le by (simp add: word_less_nat_alt)
qed

text \<open>The lowest mapped range that meets the candidate is below the cursor, and every free window is
  below it.\<close>

lemma lowest_hit:
  assumes bt: "unat flr \<le> unat b" "unat b + unat need \<le> unat top1" "need \<noteq> 0"
    and c: "unat c = unat b + unat need"
    and hits: "hits = filter (gap_overlaps flr top1 b (b + need)) vs" "hits \<noteq> []"
  obtains w where "w \<in> set vs" "vma_live w" "vma_start w = Min (insert c (vma_start ` set hits))" "vma_start w < c"
    "\<And>lo. gap_window vs flr top1 need lo \<Longrightarrow> lo \<le> unat b \<Longrightarrow> lo + unat need \<le> unat (vma_start w)"
proof -
  let ?c = "Min (insert c (vma_start ` set hits))"
  have hit: "v \<in> set vs \<and> vma_live v \<and> vma_start v < c \<and> unat b < unat (vma_end v)" if "v \<in> set hits" for v
    using that c by (simp add: hits(1) gap_overlaps_iff [OF bt] word_less_nat_alt)
  obtain u where "u \<in> set hits" using hits(2) by (cases hits) auto
  then have "?c \<noteq> c"
    using hit [of u] Min_le [of "insert c (vma_start ` set hits)" "vma_start u"] by fastforce
  moreover have "?c \<in> insert c (vma_start ` set hits)" by (rule Min_in) auto
  ultimately obtain w where w: "w \<in> set hits" "vma_start w = ?c" by auto
  have "lo + unat need \<le> unat (vma_start w)" if "gap_window vs flr top1 need lo" "lo \<le> unat b" for lo
    using that hit [OF w(1)] by (force simp: gap_window_def free_window_def)
  then show ?thesis using that [of w] hit [OF w(1)] w(2) by simp
qed

definition topmost_gap :: "edge_user_vma list \<Rightarrow> u64 \<Rightarrow> u64 \<Rightarrow> u64 \<Rightarrow> u64 \<Rightarrow> bool" where
  "topmost_gap vs flr top1 need b \<longleftrightarrow>
     (if b = 0 then \<forall>lo. \<not> gap_window vs flr top1 need lo
      else gap_window vs flr top1 need (unat b) \<and> page_aligned b \<and>
           (\<forall>lo. gap_window vs flr top1 need lo \<longrightarrow> lo \<le> unat b))"

lemma gap_loop_correct:
  assumes "vmas_aligned vs" "page_aligned need" "need \<noteq> 0" "flr \<noteq> 0"
    and "page_aligned c" "c \<le> top1" "card (starts_below vs c) < n"
    and "\<And>lo. gap_window vs flr top1 need lo \<Longrightarrow> lo + unat need \<le> unat c"
  shows "topmost_gap vs flr top1 need (gap_loop n vs flr top1 need c)"
  using assms(5-)
proof (induction n arbitrary: c)
  case (Suc n)
  show ?case
  proof (cases "c \<le> flr \<or> c - flr < need")
    case True
    then show ?thesis
      using Suc.prems(4) too_small [OF True assms(3)] by (auto simp: topmost_gap_def gap_window_def)
  next
    case False
    define b where "b = (c - need) AND - 4096"
    have b: "unat b = unat c - unat need" "unat flr + unat need \<le> unat c" "page_aligned b"
      using gap_base [OF Suc.prems(1) assms(2), of flr, folded b_def] False by auto
    have bt: "unat flr \<le> unat b" "unat b + unat need \<le> unat top1"
      using b(1,2) Suc.prems(2) by (simp_all add: word_le_nat_alt)
    have s: "unat (b + need) = unat c"
      using b(1,2) bt(2) unat_below [of top1] by (subst unat_sum) simp_all
    have noclip: "\<not> b < flr" "\<not> (top1 < b + need \<or> b + need < b)"
      using bt b s by (simp_all add: word_less_nat_alt)
    define hits where "hits = filter (gap_overlaps flr top1 b (b + need)) vs"
    define c' where "c' = Min (insert c (vma_start ` set hits))"
    have step: "gap_loop (Suc n) vs flr top1 need c =
        (if hits = [] then b else if c \<le> c' then 0 else gap_loop n vs flr top1 need c')"
      using False noclip
      by (simp add: PAGE_SIZE_def Let_def fold_min_start flip: b_def hits_def c'_def)
    have below: "lo \<le> unat b" if "gap_window vs flr top1 need lo" for lo
      using Suc.prems(4) [OF that] b(1) by simp
    show ?thesis
    proof (cases "hits = []")
      case True
      moreover have "b \<noteq> 0" using bt(1) assms(4) by (auto simp: unat_eq_0)
      ultimately show ?thesis using no_overlap_free [OF bt assms(3)] below b(3)
        by (simp add: step topmost_gap_def hits_def del: gap_loop.simps)
    next
      case nonempty: False
      obtain w where w: "w \<in> set vs" "vma_live w" "vma_start w = c'" "c' < c"
        "\<And>lo. gap_window vs flr top1 need lo \<Longrightarrow> lo \<le> unat b \<Longrightarrow> lo + unat need \<le> unat c'"
        using lowest_hit [OF bt assms(3) _ hits_def nonempty, of c, folded c'_def] b(1,2) by auto
      have "topmost_gap vs flr top1 need (gap_loop n vs flr top1 need c')"
      proof (rule Suc.IH)
        show "page_aligned c'" using assms(1) w by (auto simp: vmas_aligned_def)
        show "card (starts_below vs c') < n"
          using starts_below_shrinks [OF w(1), of c] w(3,4) Suc.prems(3) by simp
      qed (use w(4,5) below Suc.prems(2) in \<open>auto\<close>)
      moreover have "\<not> c \<le> c'" using w(4) by (simp add: not_le)
      ultimately show ?thesis using nonempty by (simp add: step del: gap_loop.simps)
    qed
  qed
qed simp

lemma topdown_gap:
  assumes "vmas_aligned (user_vmas t)" "length (user_vmas t) \<le> PROCESS_USER_VMA_MAX"
    and "page_aligned need" "need \<noteq> 0" "page_aligned top1" "flr \<noteq> 0"
  shows "topmost_gap (user_vmas t) flr top1 need (user_vma_find_topdown_gap t flr top1 need)"
proof (cases "top1 \<le> flr \<or> top1 - flr < need")
  case True
  then show ?thesis
    using too_small [OF True assms(4)] assms(4)
    by (auto simp: user_vma_find_topdown_gap_def topmost_gap_def gap_window_def)
next
  case False
  have "card (starts_below (user_vmas t) top1) < PROCESS_USER_VMA_MAX + 4"
    using starts_below_le [of "user_vmas t" top1] assms(2) by simp
  then have "topmost_gap (user_vmas t) flr top1 need (gap_loop (PROCESS_USER_VMA_MAX + 4) (user_vmas t) flr top1 need top1)"
    by (intro gap_loop_correct) (use assms in \<open>auto simp: gap_window_def\<close>)
  then show ?thesis using False assms(4) by (simp add: user_vma_find_topdown_gap_def)
qed


text \<open>C22: The top-down search of \<^verbatim>\<open>mmap\<close> is exact: with page-aligned ranges and bounds it returns the
  highest page-aligned address from which the requested number of bytes is free between the floor and
  the top, and it returns 0 only when no free window of that size exists at all. The bound of 260
  iterations never cuts the search short, because every iteration moves the cursor to the start of a
  lower mapped range and there are at most 256 of them.\<close>

theorem find_topdown_gap_exact:
  assumes "vmas_aligned (user_vmas t)" "length (user_vmas t) \<le> PROCESS_USER_VMA_MAX"
    and "page_aligned need" "need \<noteq> 0" "page_aligned top1" "flr \<noteq> 0"
  shows "topmost_gap (user_vmas t) flr top1 need (user_vma_find_topdown_gap t flr top1 need)"
  using assms by (rule topdown_gap)

definition demo_vma :: "u64 \<Rightarrow> u64 \<Rightarrow> edge_user_vma" where
  "demo_vma s e = \<lparr>vma_start = s, vma_end = e, vma_prot = 3, vma_flags = 0x22\<rparr>"

definition demo_mapped :: task where
  "demo_mapped = zero_task\<lparr>user_heap_base := 0x20400000, user_brk := 0x20401000, user_heap_limit := 0x22400000,
     user_vma_count := 2,
     user_vmas := demo_vma 0x223F0000 0x22400000 # demo_vma 0x223C0000 0x223E8000 # replicate 254 zero_vma\<rparr>"

lemma demo_mapped_vmas: "user_vmas demo_mapped = demo_vma 0x223F0000 0x22400000 # demo_vma 0x223C0000 0x223E8000 # replicate 254 zero_vma"
  by (simp add: demo_mapped_def)

lemma zero_vma_dead [simp]: "\<not> vma_live zero_vma"
  by (simp add: vma_live_def zero_vma_def)

lemmas gap_loop_numeral = gap_loop.simps(2) [of "pred_numeral k" for k, folded numeral_eq_Suc]

lemma demo_gap: "user_vma_find_topdown_gap demo_mapped 0x20401000 0x22400000 0x8000 = 0x223E8000"
  by (simp add: user_vma_find_topdown_gap_def PROCESS_USER_VMA_MAX_def demo_mapped_vmas gap_loop_numeral
      gap_overlaps_def demo_vma_def vma_live_def PAGE_SIZE_def Let_def filter_replicate zero_vma_def)

theorem find_topdown_gap_exact_witness:
  "user_vma_find_topdown_gap demo_mapped 0x20401000 0x22400000 0x8000 = 0x223E8000 \<and>
   topmost_gap (user_vmas demo_mapped) 0x20401000 0x22400000 0x8000 0x223E8000"
proof -
  have "vmas_aligned (user_vmas demo_mapped)"
    by (simp add: vmas_aligned_def demo_mapped_vmas demo_vma_def page_aligned_def)
  then show ?thesis
    using find_topdown_gap_exact [of demo_mapped "0x8000" "0x22400000" "0x20401000"] demo_gap
    by (simp add: demo_mapped_vmas PROCESS_USER_VMA_MAX_def page_aligned_def)
qed

section \<open>The table as a map from addresses to protections\<close>

definition vma_has :: "edge_user_vma \<Rightarrow> u64 \<Rightarrow> bool" where
  "vma_has v a \<longleftrightarrow> vma_start v \<le> a \<and> a < vma_end v"

definition vma_attr :: "edge_user_vma \<Rightarrow> u32 \<times> u32" where
  "vma_attr v = (vma_prot v, vma_flags v)"

definition vma_lookup :: "edge_user_vma list \<Rightarrow> u64 \<Rightarrow> (u32 \<times> u32) option" where
  "vma_lookup vs a = map_option vma_attr (find (\<lambda>v. vma_has v a) vs)"

definition vmas_disjoint :: "edge_user_vma list \<Rightarrow> bool" where
  "vmas_disjoint vs \<longleftrightarrow>
     (\<forall>i<length vs. \<forall>j<length vs. i \<noteq> j \<longrightarrow> (\<forall>a. \<not> (vma_has (vs ! i) a \<and> vma_has (vs ! j) a)))"

lemma vmas_disjointD:
  "vmas_disjoint vs \<Longrightarrow> i < length vs \<Longrightarrow> j < length vs \<Longrightarrow> vma_has (vs ! i) a \<Longrightarrow> vma_has (vs ! j) a \<Longrightarrow> i = j"
  by (auto simp: vmas_disjoint_def)

lemma vma_has_live: "vma_has v a \<Longrightarrow> vma_live v"
  by (auto simp: vma_has_def vma_live_def)

lemma vma_lookup_Some:
  assumes "vmas_disjoint vs"
  shows "vma_lookup vs a = Some x \<longleftrightarrow> (\<exists>i<length vs. vma_has (vs ! i) a \<and> vma_attr (vs ! i) = x)"
proof
  assume "vma_lookup vs a = Some x"
  then show "\<exists>i<length vs. vma_has (vs ! i) a \<and> vma_attr (vs ! i) = x"
    by (auto simp: vma_lookup_def find_Some_iff)
next
  assume "\<exists>i<length vs. vma_has (vs ! i) a \<and> vma_attr (vs ! i) = x"
  then obtain i where i: "i < length vs" "vma_has (vs ! i) a" "vma_attr (vs ! i) = x" by auto
  have "\<not> vma_has (vs ! j) a" if "j < i" for j
    using vmas_disjointD [OF assms _ i(1) _ i(2), of j] that i(1) by auto
  then have "find (\<lambda>v. vma_has v a) vs = Some (vs ! i)"
    unfolding find_Some_iff using i by blast
  then show "vma_lookup vs a = Some x" using i(3) by (simp add: vma_lookup_def)
qed

lemma vma_lookup_None:
  assumes "vmas_disjoint vs"
  shows "vma_lookup vs a = None \<longleftrightarrow> (\<forall>i<length vs. \<not> vma_has (vs ! i) a)"
  using vma_lookup_Some [OF assms, of a] by (metis not_None_eq)

text \<open>Equality of two lookups from the owners of an address.\<close>

lemma vma_lookup_eqI:
  assumes "vmas_disjoint vs" "vmas_disjoint ws"
    and "\<And>i. i < length vs \<Longrightarrow> vma_has (vs ! i) a \<Longrightarrow> \<exists>j<length ws. vma_has (ws ! j) a \<and> vma_attr (ws ! j) = vma_attr (vs ! i)"
    and "\<And>j. j < length ws \<Longrightarrow> vma_has (ws ! j) a \<Longrightarrow> \<exists>i<length vs. vma_has (vs ! i) a"
  shows "vma_lookup ws a = vma_lookup vs a"
proof (cases "vma_lookup vs a")
  case None
  then show ?thesis using assms(4) by (metis assms(1,2) vma_lookup_None)
next
  case (Some x)
  then show ?thesis using assms(3) by (metis assms(1,2) vma_lookup_Some)
qed

text \<open>A removal has room when a slot is free or no range has to be split.\<close>

definition split_room :: "u64 \<Rightarrow> u64 \<Rightarrow> edge_user_vma list \<Rightarrow> bool" where
  "split_room s e vs \<longleftrightarrow> (\<exists>i<length vs. \<not> vma_live (vs ! i)) \<or>
     (\<forall>i<length vs. \<not> (vma_start (vs ! i) < s \<and> e < vma_end (vs ! i)))"

definition clear_of :: "u64 \<Rightarrow> u64 \<Rightarrow> edge_user_vma \<Rightarrow> bool" where
  "clear_of s e v \<longleftrightarrow> (\<forall>a. s \<le> a \<longrightarrow> a < e \<longrightarrow> \<not> vma_has v a)"

lemma clear_of_iff: "s < e \<Longrightarrow> clear_of s e v \<longleftrightarrow> \<not> vma_live v \<or> e \<le> vma_start v \<or> vma_end v \<le> s"
  unfolding clear_of_def vma_has_def vma_live_def
  by (smt (verit) leD leI le_less_trans less_le_trans order_refl not_less_iff_gr_or_eq)

text \<open>One step of the removal replaces slot \<open>i\<close>, and at most one free slot, by parts of the range in
  slot \<open>i\<close>.\<close>

lemma remove_step_shape:
  assumes "i < length (user_vmas t)" "length (user_vmas t) = PROCESS_USER_VMA_MAX" "s < e"
  obtains v1 where "user_vmas (snd (remove_step s e i (ch, t))) = (user_vmas t)[i := v1]"
      "\<And>a. vma_has v1 a \<longleftrightarrow> vma_has (user_vmas t ! i) a \<and> \<not> (s \<le> a \<and> a < e)"
      "vma_live v1 \<longrightarrow> vma_attr v1 = vma_attr (user_vmas t ! i)"
  | v1 where "user_vmas (snd (remove_step s e i (ch, t))) = (user_vmas t)[i := v1]"
      "\<And>a. vma_has v1 a \<longleftrightarrow> vma_has (user_vmas t ! i) a \<and> a < s"
      "vma_attr v1 = vma_attr (user_vmas t ! i)" "\<not> split_room s e (user_vmas t)"
  | v1 v2 slot where "user_vmas (snd (remove_step s e i (ch, t))) = (user_vmas t)[slot := v2, i := v1]"
      "slot < length (user_vmas t)" "slot \<noteq> i" "\<not> vma_live (user_vmas t ! slot)"
      "\<And>a. vma_has v1 a \<longleftrightarrow> vma_has (user_vmas t ! i) a \<and> a < s"
      "\<And>a. vma_has v2 a \<longleftrightarrow> vma_has (user_vmas t ! i) a \<and> e \<le> a"
      "vma_attr v1 = vma_attr (user_vmas t ! i)" "vma_attr v2 = vma_attr (user_vmas t ! i)"
      "vma_start (user_vmas t ! i) < s" "e < vma_end (user_vmas t ! i)"
proof -
  let ?vs = "user_vmas t" and ?v = "user_vmas t ! i" and ?ws = "user_vmas (snd (remove_step s e i (ch, t)))"
  consider "\<not> vma_live ?v \<or> e \<le> vma_start ?v \<or> vma_end ?v \<le> s"
    | "vma_live ?v" "vma_start ?v < e" "s < vma_end ?v" "s \<le> vma_start ?v" "vma_end ?v \<le> e"
    | "vma_live ?v" "vma_start ?v < e" "s < vma_end ?v" "s \<le> vma_start ?v" "e < vma_end ?v"
    | "vma_live ?v" "vma_start ?v < e" "s < vma_end ?v" "vma_start ?v < s" "vma_end ?v \<le> e"
    | "vma_live ?v" "vma_start ?v < s" "e < vma_end ?v"
    using assms(3) by fastforce
  then show ?thesis
  proof cases
    case 1
    then have "?ws = ?vs[i := ?v]" by (auto simp: remove_step_def Let_def)
    moreover have "vma_has ?v a \<longleftrightarrow> vma_has ?v a \<and> \<not> (s \<le> a \<and> a < e)" for a
      using 1 by (auto simp: vma_has_def vma_live_def)
    ultimately show ?thesis using that(1) by blast
  next
    case 2
    then have "?ws = ?vs[i := zero_vma]" by (auto simp: remove_step_def Let_def set_vma_def)
    moreover have "vma_has zero_vma a \<longleftrightarrow> vma_has ?v a \<and> \<not> (s \<le> a \<and> a < e)" for a
      using 2 by (auto simp: vma_has_def zero_vma_def)
    ultimately show ?thesis using that(1) zero_vma_dead by blast
  next
    case 3
    then have "?ws = ?vs[i := ?v\<lparr>vma_start := e\<rparr>]" by (auto simp: remove_step_def Let_def set_vma_def)
    moreover have "vma_has (?v\<lparr>vma_start := e\<rparr>) a \<longleftrightarrow> vma_has ?v a \<and> \<not> (s \<le> a \<and> a < e)" for a
      using 3 by (auto simp: vma_has_def)
    ultimately show ?thesis using that(1) by (simp add: vma_attr_def)
  next
    case 4
    then have "?ws = ?vs[i := ?v\<lparr>vma_end := s\<rparr>]" by (auto simp: remove_step_def Let_def set_vma_def)
    moreover have "vma_has (?v\<lparr>vma_end := s\<rparr>) a \<longleftrightarrow> vma_has ?v a \<and> \<not> (s \<le> a \<and> a < e)" for a
      using 4 by (auto simp: vma_has_def)
    ultimately show ?thesis using that(1) by (simp add: vma_attr_def)
  next
    case 5
    have lo: "vma_has (?v\<lparr>vma_end := s\<rparr>) a \<longleftrightarrow> vma_has ?v a \<and> a < s" for a
      using 5 assms(3) by (auto simp: vma_has_def)
    have hi: "vma_has (?v\<lparr>vma_start := e\<rparr>) a \<longleftrightarrow> vma_has ?v a \<and> e \<le> a" for a
      using 5 assms(3) by (auto simp: vma_has_def)
    note br = 5 assms(3)
    show ?thesis
    proof (cases "user_vma_find_free_slot t")
      case None
      then have "?ws = ?vs[i := ?v\<lparr>vma_end := s\<rparr>]"
        using br by (auto simp: remove_step_def Let_def set_vma_def)
      moreover have "\<not> split_room s e ?vs"
        using None 5 assms(1,2) by (auto simp: user_vma_find_free_slot_def first_idx_None split_room_def)
      ultimately show ?thesis using that(2) lo by (simp add: vma_attr_def)
    next
      case (Some slot)
      then have sl: "slot < length ?vs" "\<not> vma_live (?vs ! slot)"
        using assms(2) by (auto simp: user_vma_find_free_slot_def dest: first_idx_SomeD)
      have "?ws = ?vs[slot := ?v\<lparr>vma_start := e\<rparr>, i := ?v\<lparr>vma_end := s\<rparr>]"
        using br Some by (auto simp: remove_step_def Let_def set_vma_def)
      then show ?thesis
        by (rule that(3) [OF _ sl(1) _ sl(2) lo hi]) (use 5 sl(2) in \<open>auto simp: vma_attr_def\<close>)
    qed
  qed
qed


text \<open>The same, in the form the proofs use: \<open>slot\<close> is the slot that took the upper part (\<open>slot = i\<close>
  when there is none).\<close>

definition cut_at :: "u64 \<Rightarrow> u64 \<Rightarrow> nat \<Rightarrow> nat \<Rightarrow> edge_user_vma list \<Rightarrow> edge_user_vma list \<Rightarrow> bool" where
  "cut_at s e i slot vs ws \<longleftrightarrow>
     length ws = length vs \<and> (\<forall>j. j \<noteq> i \<longrightarrow> j \<noteq> slot \<longrightarrow> ws ! j = vs ! j) \<and>
     (\<forall>a. vma_has (ws ! i) a \<longrightarrow> vma_has (vs ! i) a \<and> \<not> (s \<le> a \<and> a < e) \<and> vma_attr (ws ! i) = vma_attr (vs ! i)) \<and>
     (slot \<noteq> i \<longrightarrow> slot < length vs \<and> \<not> vma_live (vs ! slot) \<and> vma_has (vs ! i) s \<and>
        (\<forall>a. vma_has (ws ! i) a \<longrightarrow> a < s) \<and>
        (\<forall>a. vma_has (ws ! slot) a \<longrightarrow> vma_has (vs ! i) a \<and> e \<le> a \<and> vma_attr (ws ! slot) = vma_attr (vs ! i))) \<and>
     (split_room s e vs \<longrightarrow> (\<forall>a. vma_has (vs ! i) a \<longrightarrow> \<not> (s \<le> a \<and> a < e) \<longrightarrow>
        vma_has (ws ! i) a \<or> slot \<noteq> i \<and> vma_has (ws ! slot) a))"

lemma remove_step_parts:
  assumes "i < length (user_vmas t)" "length (user_vmas t) = PROCESS_USER_VMA_MAX" "s < e"
    and "vs = user_vmas t" "ws = user_vmas (snd (remove_step s e i (ch, t)))"
  shows "\<exists>slot. cut_at s e i slot vs ws"
proof (rule remove_step_shape [OF assms(1-3), of ch, folded assms(4,5)])
  fix v1
  assume *: "ws = vs[i := v1]" "\<And>a. vma_has v1 a \<longleftrightarrow> vma_has (vs ! i) a \<and> \<not> (s \<le> a \<and> a < e)"
    "vma_live v1 \<longrightarrow> vma_attr v1 = vma_attr (vs ! i)"
  moreover have "ws ! i = v1" using * assms(1,4) by simp
  ultimately have "cut_at s e i i vs ws" by (auto simp: cut_at_def dest: vma_has_live)
  then show ?thesis ..
next
  fix v1
  assume *: "ws = vs[i := v1]" "\<And>a. vma_has v1 a \<longleftrightarrow> vma_has (vs ! i) a \<and> a < s"
    "vma_attr v1 = vma_attr (vs ! i)" "\<not> split_room s e vs"
  have "ws ! i = v1" "length ws = length vs" using *(1) assms(1,4) by simp_all
  moreover have "ws ! j = vs ! j" if "j \<noteq> i" for j using that *(1) by simp
  ultimately have "cut_at s e i i vs ws"
    using *(2-4) unfolding cut_at_def by (simp add: not_less not_le)
  then show ?thesis ..
next
  fix v1 v2 slot
  assume *: "ws = vs[slot := v2, i := v1]" "slot < length vs" "slot \<noteq> i" "\<not> vma_live (vs ! slot)"
    "\<And>a. vma_has v1 a \<longleftrightarrow> vma_has (vs ! i) a \<and> a < s" "\<And>a. vma_has v2 a \<longleftrightarrow> vma_has (vs ! i) a \<and> e \<le> a"
    "vma_attr v1 = vma_attr (vs ! i)" "vma_attr v2 = vma_attr (vs ! i)"
    "vma_start (vs ! i) < s" "e < vma_end (vs ! i)"
  have "vma_has (vs ! i) s" using *(9,10) assms(3) by (auto simp: vma_has_def)
  moreover have "ws ! i = v1" "ws ! slot = v2" "length ws = length vs" using *(1-3) assms(1,4) by simp_all
  moreover have "ws ! j = vs ! j" if "j \<noteq> i" "j \<noteq> slot" for j using that *(1) by simp
  ultimately have "cut_at s e i slot vs ws"
    using *(2-8) assms(3) unfolding cut_at_def by (simp add: not_less not_le)
  then show ?thesis ..
qed

lemma remove_step_correct:
  assumes "i < length (user_vmas t)" "length (user_vmas t) = PROCESS_USER_VMA_MAX" "s < e"
    and dj: "vmas_disjoint vs"
    and vs: "vs = user_vmas t" and ws: "ws = user_vmas (snd (remove_step s e i (ch, t)))"
  shows "length ws = length vs" "vmas_disjoint ws" "clear_of s e (ws ! i)"
    "\<And>j. clear_of s e (vs ! j) \<Longrightarrow> clear_of s e (ws ! j)"
    "\<And>a x. vma_lookup ws a = Some x \<Longrightarrow> vma_lookup vs a = Some x"
    "split_room s e vs \<Longrightarrow> split_room s e ws"
    "\<And>a. split_room s e vs \<Longrightarrow> \<not> (s \<le> a \<and> a < e) \<Longrightarrow> vma_lookup ws a = vma_lookup vs a"
proof -
  obtain slot where cut: "cut_at s e i slot vs ws" using remove_step_parts [OF assms(1-3) vs ws] by blast
  then have len: "length ws = length vs" and other: "\<And>j. j \<noteq> i \<Longrightarrow> j \<noteq> slot \<Longrightarrow> ws ! j = vs ! j"
    and lo: "\<And>a. vma_has (ws ! i) a \<Longrightarrow> vma_has (vs ! i) a \<and> \<not> (s \<le> a \<and> a < e) \<and> vma_attr (ws ! i) = vma_attr (vs ! i)"
    and hi: "\<And>a. slot \<noteq> i \<Longrightarrow> vma_has (ws ! slot) a \<Longrightarrow> vma_has (vs ! i) a \<and> e \<le> a \<and> vma_attr (ws ! slot) = vma_attr (vs ! i)"
    and below: "\<And>a. slot \<noteq> i \<Longrightarrow> vma_has (ws ! i) a \<Longrightarrow> a < s"
    and slot: "slot \<noteq> i \<Longrightarrow> slot < length vs \<and> \<not> vma_live (vs ! slot) \<and> vma_has (vs ! i) s"
    and kept: "\<And>a. split_room s e vs \<Longrightarrow> vma_has (vs ! i) a \<Longrightarrow> \<not> (s \<le> a \<and> a < e) \<Longrightarrow> vma_has (ws ! i) a \<or> slot \<noteq> i \<and> vma_has (ws ! slot) a"
    unfolding cut_at_def by blast+
  have i: "i < length vs" using assms(1) vs by simp
  define src where "src j = (if j = slot then i else j)" for j
  have owner: "vma_has (vs ! src j) a \<and> vma_attr (ws ! j) = vma_attr (vs ! src j) \<and> (src j = i \<longrightarrow> \<not> (s \<le> a \<and> a < e))"
    if "vma_has (ws ! j) a" for j a
  proof -
    consider "j = i" | "j = slot" "slot \<noteq> i" | "j \<noteq> i" "j \<noteq> slot" by blast
    then show ?thesis
      using that lo [of a] hi [of a] other [of j] by cases (simp_all add: src_def not_less)
  qed
  have srcl: "src j < length vs" if "j < length ws" for j
    using that len i by (simp add: src_def)
  show "length ws = length vs" by (rule len)
  show dj': "vmas_disjoint ws"
    unfolding vmas_disjoint_def
  proof (intro allI impI notI)
    fix j k a assume jk: "j < length ws" "k < length ws" "j \<noteq> k" "vma_has (ws ! j) a \<and> vma_has (ws ! k) a"
    then have "src j = src k" using vmas_disjointD [OF dj] owner srcl by blast
    then have "slot \<noteq> i" "{j, k} = {i, slot}" using jk(3) by (auto simp: src_def split: if_splits)
    then have "a < s" "e \<le> a" using jk(4) below hi by (auto simp: doubleton_eq_iff)
    then show False using assms(3) by simp
  qed
  show ci: "clear_of s e (ws ! i)" using lo by (auto simp: clear_of_def)
  show clear: "clear_of s e (ws ! j)" if "clear_of s e (vs ! j)" for j
    using that lo hi other unfolding clear_of_def by (metis leD)
  show "vma_lookup vs a = Some x" if "vma_lookup ws a = Some x" for a x
    using that owner srcl unfolding vma_lookup_Some [OF dj] vma_lookup_Some [OF dj'] by metis
  show "vma_lookup ws a = vma_lookup vs a" if "split_room s e vs" "\<not> (s \<le> a \<and> a < e)" for a
  proof (rule vma_lookup_eqI [OF dj dj'])
    fix j assume j: "j < length vs" "vma_has (vs ! j) a"
    show "\<exists>k<length ws. vma_has (ws ! k) a \<and> vma_attr (ws ! k) = vma_attr (vs ! j)"
    proof (cases "j = i")
      case True
      then show ?thesis using kept [OF that(1) _ that(2)] j lo hi i slot len by metis
    next
      case False
      then have "j \<noteq> slot" using slot j(2) vma_has_live by blast
      then show ?thesis using False other j len by metis
    qed
  qed (use owner srcl in blast)
  show "split_room s e ws" if room: "split_room s e vs"
  proof (cases "slot = i")
    case True
    have dead: "\<not> vma_live (ws ! i)" if "\<not> vma_live (vs ! i)"
      using that lo [of "vma_start (ws ! i)"] vma_has_live by (auto simp: vma_has_def vma_live_def)
    have "\<not> (vma_start (ws ! i) < s \<and> e < vma_end (ws ! i))"
      using ci assms(3) by (auto simp: clear_of_def vma_has_def dest: less_trans)
    then show ?thesis using room dead other len True unfolding split_room_def by metis
  next
    case False
    have "\<not> (vma_start (ws ! j) < s \<and> e < vma_end (ws ! j))" if "j < length ws" for j
    proof
      assume "vma_start (ws ! j) < s \<and> e < vma_end (ws ! j)"
      then have "vma_has (ws ! j) s" using assms(3) by (auto simp: vma_has_def)
      then show False using owner [of j s] vmas_disjointD [OF dj srcl [OF that] i] slot [OF False] assms(3) by auto
    qed
    then show ?thesis by (auto simp: split_room_def)
  qed
qed

section \<open>The invariant of the table\<close>

definition vma_wf :: "task \<Rightarrow> bool" where
  "vma_wf t \<longleftrightarrow> length (user_vmas t) = PROCESS_USER_VMA_MAX \<and> vmas_disjoint (user_vmas t) \<and>
     vmas_aligned (user_vmas t) \<and> unat (user_vma_count t) = length (filter vma_live (user_vmas t))"

lemma vmas_aligned_update:
  "vmas_aligned vs \<Longrightarrow> (vma_live v \<Longrightarrow> page_aligned (vma_start v) \<and> page_aligned (vma_end v)) \<Longrightarrow> vmas_aligned (vs[i := v])"
  by (auto simp: vmas_aligned_def dest!: set_update_subset_insert [THEN subsetD])

lemma remove_step_aligned:
  assumes "vmas_aligned (user_vmas t)" "page_aligned s" "page_aligned e" "i < length (user_vmas t)"
  shows "vmas_aligned (user_vmas (snd (remove_step s e i (ch, t))))"
proof -
  have "page_aligned (vma_start (user_vmas t ! i)) \<and> page_aligned (vma_end (user_vmas t ! i))"
    if "vma_live (user_vmas t ! i)" using assms(1,4) that by (auto simp: vmas_aligned_def)
  then show ?thesis
    using assms(1-3) by (auto simp: remove_step_def Let_def set_vma_def intro!: vmas_aligned_update split: option.splits)
qed

lemma remove_step_changed:
  "fst (remove_step s e i (ch, t)) = ch \<and> snd (remove_step s e i (ch, t)) = t \<or> fst (remove_step s e i (ch, t))"
  by (auto simp: remove_step_def Let_def)

lemma remove_fold:
  assumes "length (user_vmas t) = PROCESS_USER_VMA_MAX" "vmas_disjoint (user_vmas t)" "s < e" "k \<le> PROCESS_USER_VMA_MAX"
    and ws: "ws = user_vmas (snd (fold (remove_step s e) [0..<k] (ch, t)))"
  shows "length ws = PROCESS_USER_VMA_MAX \<and> vmas_disjoint ws \<and> (\<forall>j<k. clear_of s e (ws ! j)) \<and>
    (\<forall>a x. vma_lookup ws a = Some x \<longrightarrow> vma_lookup (user_vmas t) a = Some x) \<and>
    (split_room s e (user_vmas t) \<longrightarrow> split_room s e ws \<and>
       (\<forall>a. \<not> (s \<le> a \<and> a < e) \<longrightarrow> vma_lookup ws a = vma_lookup (user_vmas t) a)) \<and>
    (page_aligned s \<and> page_aligned e \<and> vmas_aligned (user_vmas t) \<longrightarrow> vmas_aligned ws)"
  using assms(4) ws
proof (induction k arbitrary: ws)
  case (Suc k)
  define r where "r = fold (remove_step s e) [0..<k] (ch, t)"
  define vs where "vs = user_vmas (snd r)"
  have kk: "k \<le> PROCESS_USER_VMA_MAX" using Suc.prems(1) by simp
  note ih = Suc.IH [OF kk vs_def [unfolded r_def]]
  have len: "length vs = PROCESS_USER_VMA_MAX" and dj: "vmas_disjoint vs" using ih by blast+
  have k: "k < length (user_vmas (snd r))" "length (user_vmas (snd r)) = PROCESS_USER_VMA_MAX"
    using len Suc.prems(1) by (simp_all add: vs_def)
  have w: "ws = user_vmas (snd (remove_step s e k (fst r, snd r)))"
    using Suc.prems(2) by (simp add: r_def)
  note c = remove_step_correct [OF k assms(3) dj vs_def w]
  have al: "vmas_aligned ws" if "page_aligned s" "page_aligned e" "vmas_aligned (user_vmas t)"
    unfolding w by (rule remove_step_aligned) (use ih that k in \<open>simp_all add: vs_def\<close>)
  have sub: "vma_lookup (user_vmas t) a = Some x" if "vma_lookup ws a = Some x" for a x
    using c(5) [OF that] ih by blast
  have out: "split_room s e ws \<and> (\<not> (s \<le> a \<and> a < e) \<longrightarrow> vma_lookup ws a = vma_lookup (user_vmas t) a)"
    if "split_room s e (user_vmas t)" for a
  proof -
    have "split_room s e vs" using ih that by blast
    then show ?thesis using c(6) c(7) [of a] ih that by metis
  qed
  have "\<forall>j<Suc k. clear_of s e (ws ! j)" using ih c(3,4) by (simp add: less_Suc_eq)
  then show ?case using c(1,2) len al sub out by metis
qed (use assms(1,2) in auto)

lemma clear_lookup:
  assumes "vmas_disjoint ws" "\<forall>j<length ws. clear_of s e (ws ! j)" "s \<le> a" "a < e"
  shows "vma_lookup ws a = None"
  using assms by (auto simp: vma_lookup_None clear_of_def)

lemma fold_unchanged:
  "\<not> fst (fold (remove_step s e) is (ch, t)) \<Longrightarrow> snd (fold (remove_step s e) is (ch, t)) = t \<and> \<not> ch"
proof (induction "is" arbitrary: ch t)
  case (Cons i "is")
  then show ?case using remove_step_changed [of s e i ch t]
    by (cases "remove_step s e i (ch, t)") auto
qed simp

lemma live_count_fits:
  "length vs = PROCESS_USER_VMA_MAX \<Longrightarrow> unat (word_of_nat (length (filter vma_live vs)) :: u16) = length (filter vma_live vs)"
  using length_filter_le [of vma_live vs] by (simp add: PROCESS_USER_VMA_MAX_def unat_of_nat)

lemma recount_wf:
  "length (user_vmas t) = PROCESS_USER_VMA_MAX \<Longrightarrow> vmas_disjoint (user_vmas t) \<Longrightarrow> vmas_aligned (user_vmas t) \<Longrightarrow>
   vma_wf (user_vma_refresh_mmap_hint (user_vma_recount t))"
  by (simp add: vma_wf_def user_vma_refresh_mmap_hint_def user_vma_recount_def live_count_fits)

lemma recount_vmas [simp]:
  "user_vmas (user_vma_refresh_mmap_hint (user_vma_recount t)) = user_vmas t"
  by (simp add: user_vma_refresh_mmap_hint_def user_vma_recount_def)


section \<open>The interface of an address map\<close>

text \<open>What the memory system calls rely on: a table of ranges with a lookup, an operation that unmaps a
  range and one that maps a free range. \<open>room\<close> says that an unmapping does not run out of slots.\<close>

locale address_map =
  fixes wf :: "'t \<Rightarrow> bool"
    and room :: "u64 \<Rightarrow> u64 \<Rightarrow> 't \<Rightarrow> bool"
    and lookup :: "'t \<Rightarrow> u64 \<Rightarrow> (u32 \<times> u32) option"
    and unmap :: "u64 \<Rightarrow> u64 \<Rightarrow> 't \<Rightarrow> bool \<times> 't"
    and map_range :: "u64 \<Rightarrow> u64 \<Rightarrow> u32 \<Rightarrow> u32 \<Rightarrow> 't \<Rightarrow> bool \<times> 't"
  assumes unmap_wf: "wf t \<Longrightarrow> page_aligned s \<Longrightarrow> page_aligned e \<Longrightarrow> wf (snd (unmap s e t))"
    and unmap_inside: "wf t \<Longrightarrow> s \<le> a \<Longrightarrow> a < e \<Longrightarrow> lookup (snd (unmap s e t)) a = None"
    and unmap_only: "wf t \<Longrightarrow> lookup (snd (unmap s e t)) a = Some x \<Longrightarrow> lookup t a = Some x"
    and unmap_outside: "wf t \<Longrightarrow> room s e t \<Longrightarrow> \<not> (s \<le> a \<and> a < e) \<Longrightarrow> lookup (snd (unmap s e t)) a = lookup t a"
    and map_wf: "wf t \<Longrightarrow> page_aligned s \<Longrightarrow> page_aligned e \<Longrightarrow> (\<And>a. s \<le> a \<Longrightarrow> a < e \<Longrightarrow> lookup t a = None) \<Longrightarrow>
      wf (snd (map_range s e p f t))"
    and map_lookup: "wf t \<Longrightarrow> (\<And>a. s \<le> a \<Longrightarrow> a < e \<Longrightarrow> lookup t a = None) \<Longrightarrow> fst (map_range s e p f t) \<Longrightarrow>
      lookup (snd (map_range s e p f t)) a = (if s \<le> a \<and> a < e then Some (p, f) else lookup t a)"
    and map_fails: "wf t \<Longrightarrow> \<not> fst (map_range s e p f t) \<Longrightarrow> snd (map_range s e p f t) = t"
begin

text \<open>Mapping over a range replaces what was there: the effect of \<^verbatim>\<open>mmap\<close> with \<^verbatim>\<open>MAP_FIXED\<close>.\<close>

definition replace :: "u64 \<Rightarrow> u64 \<Rightarrow> u32 \<Rightarrow> u32 \<Rightarrow> 't \<Rightarrow> bool \<times> 't" where
  "replace s e p f t = map_range s e p f (snd (unmap s e t))"

lemma replace_wf:
  assumes "wf t" "page_aligned s" "page_aligned e"
  shows "wf (snd (replace s e p f t))"
  unfolding replace_def by (intro map_wf unmap_wf) (use assms unmap_inside in auto)

lemma replace_lookup:
  assumes "wf t" "page_aligned s" "page_aligned e" "room s e t" "fst (replace s e p f t)"
  shows "lookup (snd (replace s e p f t)) a = (if s \<le> a \<and> a < e then Some (p, f) else lookup t a)"
  using map_lookup [of "snd (unmap s e t)" s e p f a] unmap_wf unmap_inside unmap_outside assms
  by (simp add: replace_def)

end

section \<open>The table implements the interface\<close>

lemma remove_range_vmas:
  assumes "vma_wf t" "s < e"
  shows "user_vmas (snd (user_vma_remove_range s e t)) =
    user_vmas (snd (fold (remove_step s e) [0..<PROCESS_USER_VMA_MAX] (False, t)))"
  using assms by (auto simp: user_vma_remove_range_def not_le [symmetric] split: prod.split)

lemma remove_range_facts:
  assumes "vma_wf t" "s < e"
  defines "ws \<equiv> user_vmas (snd (user_vma_remove_range s e t))"
  shows "length ws = PROCESS_USER_VMA_MAX" "vmas_disjoint ws" "\<forall>j<length ws. clear_of s e (ws ! j)"
    "\<And>a x. vma_lookup ws a = Some x \<Longrightarrow> vma_lookup (user_vmas t) a = Some x"
    "\<And>a. split_room s e (user_vmas t) \<Longrightarrow> \<not> (s \<le> a \<and> a < e) \<Longrightarrow> vma_lookup ws a = vma_lookup (user_vmas t) a"
    "page_aligned s \<Longrightarrow> page_aligned e \<Longrightarrow> vmas_aligned ws"
proof -
  have *: "length (user_vmas t) = PROCESS_USER_VMA_MAX" "vmas_disjoint (user_vmas t)" "vmas_aligned (user_vmas t)"
    using assms(1) by (simp_all add: vma_wf_def)
  note f = remove_fold [OF *(1,2) assms(2) order_refl remove_range_vmas [OF assms(1,2)], folded ws_def]
  show l: "length ws = PROCESS_USER_VMA_MAX" using f by blast
  show "vmas_disjoint ws" using f by blast
  show "\<forall>j<length ws. clear_of s e (ws ! j)" using f l by simp
  show "vma_lookup (user_vmas t) a = Some x" if "vma_lookup ws a = Some x" for a x using f that by blast
  show "vma_lookup ws a = vma_lookup (user_vmas t) a" if "split_room s e (user_vmas t)" "\<not> (s \<le> a \<and> a < e)" for a
    using f that by blast
  show "vmas_aligned ws" if "page_aligned s" "page_aligned e" using f that *(3) by blast
qed

lemma remove_range_empty: "e \<le> s \<Longrightarrow> user_vma_remove_range s e t = (False, t)"
  by (simp add: user_vma_remove_range_def)

lemma remove_range_wf:
  assumes "vma_wf t" "page_aligned s" "page_aligned e"
  shows "vma_wf (snd (user_vma_remove_range s e t))"
proof (cases "e \<le> s")
  case False
  define r where "r = fold (remove_step s e) [0..<PROCESS_USER_VMA_MAX] (False, t)"
  have eq: "user_vma_remove_range s e t =
      (fst r, if fst r then user_vma_refresh_mmap_hint (user_vma_recount (snd r)) else snd r)"
    using False by (simp add: user_vma_remove_range_def r_def split: prod.split)
  show ?thesis
  proof (cases "fst r")
    case True
    then show ?thesis
      using remove_range_facts [OF assms(1), of s e] False assms(2,3) unfolding eq
      by (auto intro!: recount_wf simp: not_le)
  next
    case nr: False
    then show ?thesis using fold_unchanged [of s e _ False t] assms(1) unfolding eq by (auto simp: r_def)
  qed
qed (simp add: remove_range_empty assms)

lemma record_shape:
  assumes "fst (user_vma_record s e p f t)" "length (user_vmas t) = PROCESS_USER_VMA_MAX"
  obtains slot where "slot < length (user_vmas t)" "\<not> vma_live (user_vmas t ! slot)" "s < e"
    "snd (user_vma_record s e p f t) = user_vma_refresh_mmap_hint (user_vma_recount
       (set_vma slot \<lparr>vma_start = s, vma_end = e, vma_prot = p, vma_flags = f\<rparr> t))"
  using assms
  by (auto simp: user_vma_record_def user_vma_find_free_slot_def not_le split: option.splits if_splits dest: first_idx_SomeD)

lemma record_fails: "\<not> fst (user_vma_record s e p f t) \<Longrightarrow> snd (user_vma_record s e p f t) = t"
  by (auto simp: user_vma_record_def split: option.splits if_splits)

lemma insert_disjoint:
  assumes "vmas_disjoint vs" "\<not> vma_live (vs ! slot)" "\<And>a. vma_has v a \<Longrightarrow> vma_lookup vs a = None"
  shows "vmas_disjoint (vs[slot := v])"
  unfolding vmas_disjoint_def
proof (intro allI impI)
  fix i j a assume "i < length (vs[slot := v])" "j < length (vs[slot := v])" "i \<noteq> j"
  then show "\<not> (vma_has (vs[slot := v] ! i) a \<and> vma_has (vs[slot := v] ! j) a)"
    using assms(3) [of a] vmas_disjointD [OF assms(1), of i j a]
    by (cases "i = slot"; cases "j = slot") (auto simp: vma_lookup_None [OF assms(1)])
qed

lemma insert_lookup:
  assumes "vmas_disjoint vs" "slot < length vs" "\<not> vma_live (vs ! slot)" "\<And>a. vma_has v a \<Longrightarrow> vma_lookup vs a = None"
  shows "vma_lookup (vs[slot := v]) a = (if vma_has v a then Some (vma_attr v) else vma_lookup vs a)"
proof -
  note dj = insert_disjoint [OF assms(1,3,4)]
  show ?thesis
  proof (cases "vma_has v a")
    case True
    then show ?thesis using assms(2) by (auto simp: vma_lookup_Some [OF dj] intro!: exI [of _ slot])
  next
    case False
    then have "vma_lookup (vs[slot := v]) a = vma_lookup vs a"
      by (intro vma_lookup_eqI [OF assms(1) dj])
        (use assms(2,3) False in \<open>auto simp: nth_list_update dest: vma_has_live split: if_splits\<close>)
    then show ?thesis using False by simp
  qed
qed

interpretation vmap: address_map vma_wf "\<lambda>s e t. split_room s e (user_vmas t)" "\<lambda>t. vma_lookup (user_vmas t)"
    user_vma_remove_range user_vma_record
proof
  fix t s e assume "vma_wf t" "page_aligned s" "page_aligned e"
  then show "vma_wf (snd (user_vma_remove_range s e t))" by (rule remove_range_wf)
next
  fix t and s a e :: u64 assume "vma_wf t" "s \<le> a" "a < e"
  then show "vma_lookup (user_vmas (snd (user_vma_remove_range s e t))) a = None"
    using remove_range_facts [of t s e] by (intro clear_lookup) auto
next
  fix t s e a x assume "vma_wf t" "vma_lookup (user_vmas (snd (user_vma_remove_range s e t))) a = Some x"
  then show "vma_lookup (user_vmas t) a = Some x"
    using remove_range_facts(4) [of t s e a x] remove_range_empty [of e s t] by (cases "s < e") auto
next
  fix t s e a assume "vma_wf t" "split_room s e (user_vmas t)" "\<not> (s \<le> a \<and> a < e)"
  then show "vma_lookup (user_vmas (snd (user_vma_remove_range s e t))) a = vma_lookup (user_vmas t) a"
    using remove_range_facts(5) [of t s e a] remove_range_empty [of e s t] by (cases "s < e") auto
next
  fix t s e p f
  assume *: "vma_wf t" "page_aligned s" "page_aligned e" "\<And>a. s \<le> a \<Longrightarrow> a < e \<Longrightarrow> vma_lookup (user_vmas t) a = None"
  show "vma_wf (snd (user_vma_record s e p f t))"
  proof (cases "fst (user_vma_record s e p f t)")
    case True
    then obtain slot where "\<not> vma_live (user_vmas t ! slot)"
      "snd (user_vma_record s e p f t) = user_vma_refresh_mmap_hint (user_vma_recount
         (set_vma slot \<lparr>vma_start = s, vma_end = e, vma_prot = p, vma_flags = f\<rparr> t))"
      using record_shape *(1) unfolding vma_wf_def by metis
    then show ?thesis using *
      by (simp only:) (rule recount_wf, auto simp: vma_wf_def set_vma_def vma_has_def intro!: insert_disjoint vmas_aligned_update)
  qed (simp add: record_fails *)
next
  fix t s e p f a
  assume *: "vma_wf t" "\<And>a. s \<le> a \<Longrightarrow> a < e \<Longrightarrow> vma_lookup (user_vmas t) a = None" "fst (user_vma_record s e p f t)"
  then obtain slot where "slot < length (user_vmas t)" "\<not> vma_live (user_vmas t ! slot)"
      "snd (user_vma_record s e p f t) = user_vma_refresh_mmap_hint (user_vma_recount
         (set_vma slot \<lparr>vma_start = s, vma_end = e, vma_prot = p, vma_flags = f\<rparr> t))"
    using record_shape unfolding vma_wf_def by metis
  then show "vma_lookup (user_vmas (snd (user_vma_record s e p f t))) a =
      (if s \<le> a \<and> a < e then Some (p, f) else vma_lookup (user_vmas t) a)"
    using insert_lookup [of "user_vmas t" slot "\<lparr>vma_start = s, vma_end = e, vma_prot = p, vma_flags = f\<rparr>" a] *(1,2)
    by (simp add: set_vma_def vma_wf_def vma_has_def vma_attr_def)
qed (rule record_fails)


text \<open>C21: The table of mapped ranges implements a map from addresses to protections. On a well-formed
  table (256 slots, page-aligned pairwise disjoint ranges, correct count) removing a range unmaps exactly
  its addresses: none of them stays mapped, nothing becomes mapped, the protection of every other mapped
  address is kept, unless a range has to be split and no slot is free. Recording the range afterwards maps
  exactly its addresses. Both keep the table well-formed, and a failed recording changes nothing.\<close>

theorem vma_table_refines:
  assumes "vma_wf t" "page_aligned s" "page_aligned e"
    and "u = snd (user_vma_remove_range s e t)" "user_vma_record s e p f u = (ok, w)"
  shows "vma_wf u \<and> vma_wf w \<and>
    (\<forall>a. vma_lookup (user_vmas u) a =
       (if s \<le> a \<and> a < e then None
        else if split_room s e (user_vmas t) then vma_lookup (user_vmas t) a
        else vma_lookup (user_vmas u) a)) \<and>
    (\<forall>a. vma_lookup (user_vmas u) a \<in> {None, vma_lookup (user_vmas t) a}) \<and>
    (if ok then \<forall>a. vma_lookup (user_vmas w) a = (if s \<le> a \<and> a < e then Some (p, f) else vma_lookup (user_vmas u) a)
     else w = u)"
proof -
  have u: "vma_wf u" using vmap.unmap_wf assms(1-4) by simp
  have in_none: "vma_lookup (user_vmas u) a = None" if "s \<le> a" "a < e" for a
    using vmap.unmap_inside [OF assms(1) that] assms(4) by simp
  have "vma_wf w" using vmap.map_wf [OF u assms(2,3), of p f] in_none assms(5) by simp
  moreover have "vma_lookup (user_vmas u) a \<in> {None, vma_lookup (user_vmas t) a}" for a
    using vmap.unmap_only [OF assms(1), of s e a] assms(4) by (cases "vma_lookup (user_vmas u) a") auto
  moreover have "vma_lookup (user_vmas u) a = vma_lookup (user_vmas t) a"
    if "split_room s e (user_vmas t)" "\<not> (s \<le> a \<and> a < e)" for a
    using vmap.unmap_outside [OF assms(1) that] assms(4) by simp
  moreover have "if ok then \<forall>a. vma_lookup (user_vmas w) a = (if s \<le> a \<and> a < e then Some (p, f) else vma_lookup (user_vmas u) a)
     else w = u"
    using vmap.map_lookup [OF u, of s e p f] in_none vmap.map_fails [OF u, of s e p f] assms(5) by auto
  ultimately show ?thesis using u in_none by auto
qed

lemma demo_mapped_wf: "vma_wf demo_mapped"
proof -
  have "vmas_disjoint (user_vmas demo_mapped)"
    unfolding vmas_disjoint_def
    by (auto simp: demo_mapped_vmas nth_Cons nth_replicate vma_has_def demo_vma_def zero_vma_def split: nat.splits)
       (auto simp: word_le_nat_alt word_less_nat_alt)
  then show ?thesis
    by (simp add: vma_wf_def demo_mapped_vmas vmas_aligned_def PROCESS_USER_VMA_MAX_def demo_vma_def page_aligned_def
        vma_live_def filter_replicate zero_vma_def demo_mapped_def)
qed

theorem vma_table_refines_witness:
  "vma_wf (snd (user_vma_remove_range 0x223C4000 0x223C8000 demo_mapped)) \<and>
   vma_lookup (user_vmas (snd (user_vma_remove_range 0x223C4000 0x223C8000 demo_mapped))) 0x223C4000 = None"
proof -
  have al: "page_aligned 0x223C4000" "page_aligned 0x223C8000" by (simp_all add: page_aligned_def)
  note c = vma_table_refines [OF demo_mapped_wf al refl prod.collapse [symmetric], of 1 0]
  show ?thesis
    using c [THEN conjunct1] c [THEN conjunct2, THEN conjunct2, THEN conjunct1, rule_format, of "0x223C4000"] by simp
qed

section \<open>The heap\<close>

definition heap_clear :: "task \<Rightarrow> bool" where
  "heap_clear t \<longleftrightarrow> (\<forall>a. user_heap_base t \<le> a \<longrightarrow> a < user_brk t \<longrightarrow> vma_lookup (user_vmas t) a = None)"

text \<open>The memory of a task is in order when its table is well-formed, the limit of the heap is a page
  boundary, the break is below it and no heap address is mapped.\<close>

definition mem_ok :: "task \<Rightarrow> bool" where
  "mem_ok t \<longleftrightarrow> vma_wf t \<and> heap_clear t \<and> page_aligned (user_heap_limit t) \<and> user_brk t \<le> user_heap_limit t"

text \<open>\<^verbatim>\<open>brk\<close> either leaves everything as it is and returns the old break, or sets the break to the
  requested address rounded up to a page, which lies between the heap's base and limit, and changes
  nothing else. The memory stays in order; in particular the heap never grows over a mapped range: no
  heap address is mapped after the call.\<close>

theorem brk_spec:
  assumes "mem_ok (tasks s (process_current_task s))"
    and "do_sys_brk phys addr s = (r, s')"
  shows "(r = user_brk (tasks s (process_current_task s)) \<and> s' = s \<or>
     r = page_align_up addr \<and> user_heap_base (tasks s (process_current_task s)) \<le> r \<and>
     r \<le> user_heap_limit (tasks s (process_current_task s)) \<and>
     s' = upd_task (process_current_task s) (user_brk_update (\<lambda>_. r)) s) \<and>
    mem_ok (tasks s' (process_current_task s))"
proof -
  let ?t = "tasks s (process_current_task s)" and ?q = "page_align_up addr"
  consider "r = user_brk ?t" "s' = s"
    | "r = ?q" "s' = upd_task (process_current_task s) (user_brk_update (\<lambda>_. ?q)) s"
      "user_heap_base ?t \<le> ?q" "?q \<le> user_heap_limit ?t" "\<not> (user_brk ?t < ?q \<and> brk_blocked ?t ?q)"
  proof (cases "addr = 0 \<or> ?q < user_heap_base ?t \<or> user_heap_limit ?t < ?q \<or> user_brk ?t < ?q \<and> brk_blocked ?t ?q \<or>
      user_heap_base ?t < ?q \<and> \<not> user_page_ok True (user_pte_flags phys (reg_cr3 s) (?q - 1))")
    case True
    then have "do_sys_brk phys addr s = (user_brk ?t, s)" unfolding do_sys_brk_def Let_def by auto
    then show ?thesis using that(1) assms(2) by simp
  next
    case False
    then have "do_sys_brk phys addr s = (?q, upd_task (process_current_task s) (user_brk_update (\<lambda>_. ?q)) s)"
      unfolding do_sys_brk_def Let_def by auto
    then show ?thesis using that(2) assms(2) False by (simp add: not_less)
  qed
  then show ?thesis
  proof cases
    case 2
    have "vma_lookup (user_vmas ?t) a = None" if "user_heap_base ?t \<le> a" "a < ?q" for a
    proof (cases "a < user_brk ?t")
      case False
      then have nb: "\<not> brk_blocked ?t ?q" using 2(5) that(2) by (auto simp: not_less)
      show ?thesis
      proof (rule ccontr)
        assume "vma_lookup (user_vmas ?t) a \<noteq> None"
        then obtain v where "v \<in> set (user_vmas ?t)" "vma_has v a"
          by (auto simp: vma_lookup_def find_None_iff)
        then have "brk_blocked ?t ?q"
          using False that(2) by (auto simp: brk_blocked_def list_ex_iff vma_has_def vma_live_def intro!: bexI [of _ v])
        then show False using nb by simp
      qed
    qed (use assms(1) that in \<open>auto simp: mem_ok_def heap_clear_def\<close>)
    then show ?thesis using 2 assms(1) by (auto simp: mem_ok_def vma_wf_def heap_clear_def)
  qed (use assms in auto)
qed


definition demo_mem :: "'a sched_scheme \<Rightarrow> 'a sched_scheme" where
  "demo_mem s = upd_task (process_current_task s) (\<lambda>_. demo_mapped) s"

lemma demo_mem_cur [simp]:
  "process_current_task (demo_mem s) = process_current_task s"
  "tasks (demo_mem s) (process_current_task s) = demo_mapped"
  by (simp_all add: demo_mem_def process_current_task_def scheduler_current_task_def scheduler_cpu_local_def
      scheduler_cpu_id_def split: option.split)

lemma demo_lookup:
  "vma_lookup (user_vmas demo_mapped) a =
     (if 0x223F0000 \<le> a \<and> a < 0x22400000 \<or> 0x223C0000 \<le> a \<and> a < 0x223E8000 then Some (3, 0x22) else None)"
proof -
  have "find (\<lambda>v. vma_has v a) (replicate 254 zero_vma) = None"
    by (simp add: find_None_iff vma_has_def zero_vma_def)
  then show ?thesis
    by (auto simp: vma_lookup_def demo_mapped_vmas vma_has_def demo_vma_def vma_attr_def)
qed

lemma demo_heap_clear: "heap_clear demo_mapped"
proof -
  have "vma_lookup (user_vmas demo_mapped) a = None" if "a < 0x20401000" for a
    using that by (auto simp: demo_lookup word_less_nat_alt word_le_nat_alt)
  then show ?thesis by (simp add: heap_clear_def demo_mapped_def)
qed

lemma demo_mem_ok: "mem_ok demo_mapped"
  using demo_mapped_wf demo_heap_clear by (simp add: mem_ok_def demo_mapped_def page_aligned_def)

lemma demo_phys_ok: "user_page_ok w (user_pte_flags (\<lambda>_. 0x87) creg va)"
  by (simp add: user_pte_flags_def table_entry_def page_flags_def user_page_ok_def model_simps)

theorem brk_spec_witness:
  "fst (do_sys_brk (\<lambda>_. 0x87) 0x20403001 (demo_mem demo_sched)) = 0x20404000 \<and>
   mem_ok (tasks (snd (do_sys_brk (\<lambda>_. 0x87) 0x20403001 (demo_mem demo_sched))) (process_current_task demo_sched))"
proof -
  have al: "page_align_up 0x20403001 = 0x20404000" by (simp add: page_align_up_def PAGE_SIZE_def)
  have "\<not> brk_blocked demo_mapped 0x20404000"
    by (simp add: brk_blocked_def demo_mapped_vmas demo_vma_def list_ex_iff)
  then have "fst (do_sys_brk (\<lambda>_. 0x87) 0x20403001 (demo_mem demo_sched)) = 0x20404000"
    by (simp add: do_sys_brk_def al demo_phys_ok, simp add: demo_mapped_def)
  then show ?thesis
    using brk_spec [of "demo_mem demo_sched" "\<lambda>_. 0x87" "0x20403001", OF _ prod.collapse [symmetric]]
      demo_mem_ok by simp
qed

end
