(* ===== verification/SysMem.thy ===== *)
theory SysMem
  imports Vma VfsSpec
begin

text \<open>
  The \<^verbatim>\<open>mmap\<close> system call of \<^verbatim>\<open>src/sys/syscall.c\<close> over the table of mapped ranges, the user memory
  and the files of the VFS, and what the memory system calls keep together. Its result is a value of
  \<open>vres\<close> because the path of a mapped device is resolved again. \<open>phys\<close> is the physical memory that
  holds the page tables, \<open>um\<close> the user memory of the calling process.
\<close>

section \<open>Mapping\<close>

definition LINUX_MAP_ANON :: u64 where [model_simps]: "LINUX_MAP_ANON = 0x20"
definition LINUX_MAP_FIXED :: u64 where [model_simps]: "LINUX_MAP_FIXED = 0x10"

fun zero_fill :: "u64 list \<Rightarrow> umem \<Rightarrow> bool \<times> umem" where
  "zero_fill [] um = (True, um)"
| "zero_fill (a # as) um =
     (case copy_to_user a (replicate 4096 0) 4096 um of None \<Rightarrow> (False, um) | Some um1 \<Rightarrow> zero_fill as um1)"

function map_file ::
  "nat option \<Rightarrow> vfs_inode \<Rightarrow> u64 \<Rightarrow> nat \<Rightarrow> u64 \<Rightarrow> nat \<Rightarrow> umem \<Rightarrow> 'd vfs \<Rightarrow> u64 option \<times> umem \<times> 'd vfs" where
  "map_file sbi ino base len off dn um st =
     (if \<not> dn < len then (None, um, st)
      else let n = min (len - dn) 4096
           in case Option.bind sbi (\<lambda>k. map_option (\<lambda>rd. rd (fs_private (g_mounts st ! k))) (op_read (sb_ops (g_mounts st ! k)))) of
                None \<Rightarrow> (None, um, st)
              | Some rd \<Rightarrow>
                  (case rd ino (ucast (off + word_of_nat dn)) (word_of_nat n) (e2 st) of
                     (Inl _, x) \<Rightarrow> (Some (uerr EIO), um, st\<lparr>e2 := x\<rparr>)
                   | (Inr bs, x) \<Rightarrow>
                       if bs = [] then (None, um, st\<lparr>e2 := x\<rparr>)
                       else case copy_to_user (base + word_of_nat dn) bs (word_of_nat (length bs)) um of
                              None \<Rightarrow> (Some (uerr EFAULT), um, st\<lparr>e2 := x\<rparr>)
                            | Some um1 \<Rightarrow>
                                if length bs < n then (None, um1, st\<lparr>e2 := x\<rparr>)
                                else map_file sbi ino base len off (dn + length bs) um1 (st\<lparr>e2 := x\<rparr>)))"
  by pat_completeness auto
termination
  by (relation "measure (\<lambda>(sbi, ino, base, len, off, dn, um, st). len - dn)") (auto simp: min_def not_less simp flip: length_greater_0_conv)

declare map_file.simps [simp del]

definition choose_base :: "u64 \<Rightarrow> u64 \<Rightarrow> u64 \<Rightarrow> task \<Rightarrow> u64 + u64" where
  "choose_base addr need flags t =
     (if flags AND LINUX_MAP_FIXED \<noteq> 0 then
        (if addr AND (PAGE_SIZE - 1) \<noteq> 0 then Inl (uerr EINVAL) else Inr addr)
      else
        let f0 = page_align_up (user_brk t);
            f1 = (if f0 < user_heap_base t then user_heap_base t else f0);
            flr = (if f1 < USER_HEAP_BASE_ADDR then USER_HEAP_BASE_ADDR else f1);
            base = user_vma_find_topdown_gap t flr (user_heap_limit t) need
        in if base = 0 then Inl (uerr ENOMEM) else Inr base)"

text \<open>The content of the new mapping. The first component is the value the system call returns at once
  (an error or the address of a device window), or \<^term>\<open>None\<close>.\<close>

definition fill_mapping ::
  "'d vfs_io \<Rightarrow> u64 \<Rightarrow> u64 \<Rightarrow> u64 \<Rightarrow> u64 \<Rightarrow> u64 \<Rightarrow> u64 \<Rightarrow> umem \<Rightarrow> 'd vfs \<Rightarrow> u64 vres option \<times> umem \<times> 'd vfs" where
  "fill_mapping io base need len flags fd off um st =
     (let (zok, um1) = zero_fill (pages_from base (base + need)) um
      in if flags AND LINUX_MAP_ANON \<noteq> 0 then ((if zok then None else Some (Inr (uerr EFAULT))), um1, st)
         else case fd_proc_for_pid (process_getpid st) False st of
           (p, s1) \<Rightarrow>
             (case Option.bind p (\<lambda>q. fd_get q (sint (ucast fd :: u32)) s1) of
                None \<Rightarrow> (Some (Inr (uerr EBADF)), um, s1)
              | Some e \<Rightarrow>
                  if fd_kind e \<noteq> FD_VFS then (Some (Inr (uerr EBADF)), um, s1)
                  else if i_mode (fd_inode e) AND 0xF000 = VFS_INODE_CHR \<or> i_mode (fd_inode e) AND 0xF000 = VFS_INODE_BLK
                  then (case vfs_dev_mmap io (Some (fd_path e)) s1 of
                          (Inr (maddr, _), s2) \<Rightarrow> (Some (Inr maddr), um, s2)
                        | (Inl (Fail _), s2) \<Rightarrow> (Some (Inr (uerr ENOSYS)), um, s2)
                        | (Inl x, s2) \<Rightarrow> (Some (Inl x), um, s2))
                  else if \<not> zok then (Some (Inr (uerr EFAULT)), um1, s1)
                  else case map_file (fd_sb e) (fd_inode e) base (unat len) off 0 um1 s1 of
                         (err, um2, s2) \<Rightarrow> (map_option Inr err, um2, s2)))"

definition record_mapping :: "u64 \<Rightarrow> u64 \<Rightarrow> u64 \<Rightarrow> u64 \<Rightarrow> tptr \<Rightarrow> 'd vfs \<Rightarrow> u64 \<times> 'd vfs" where
  "record_mapping base need prot flags cur st =
     (if USER_HEAP_BASE_ADDR \<le> base \<and> base < user_heap_limit (tasks st cur)
      then case user_vma_record base (base + need) (ucast prot) (ucast flags) (tasks st cur) of
             (ok, t) \<Rightarrow> ((if ok then base else uerr ENOMEM), upd_task cur (\<lambda>_. t) st)
      else (base, st))"

definition do_sys_mmap ::
  "'d vfs_io \<Rightarrow> (u64 \<Rightarrow> u64) \<Rightarrow> u64 \<Rightarrow> u64 \<Rightarrow> u64 \<Rightarrow> u64 \<Rightarrow> u64 \<Rightarrow> u64 \<Rightarrow> umem \<Rightarrow> 'd vfs \<Rightarrow> u64 vres \<times> umem \<times> 'd vfs" where
  "do_sys_mmap io phys addr len prot flags fd off um st =
     (let cur = process_current_task st; need = page_align_up len
      in if len = 0 then (Inr (uerr EINVAL), um, st)
         else if sint fd < 0 \<and> flags AND LINUX_MAP_ANON = 0 then (Inr (uerr EINVAL), um, st)
         else if flags AND LINUX_MAP_ANON = 0 \<and> off AND (PAGE_SIZE - 1) \<noteq> 0 then (Inr (uerr EINVAL), um, st)
         else if need = 0 then (Inr (uerr EINVAL), um, st)
         else case choose_base addr need flags (tasks st cur) of
           Inl err \<Rightarrow> (Inr err, um, st)
         | Inr base \<Rightarrow>
             if base < USER_MIN_ADDR \<or> base + need < base \<or> USER_MAX_ADDR < base + need then (Inr (uerr ENOMEM), um, st)
             else
               let s1 = upd_task cur (\<lambda>t. snd (user_vma_remove_range base (base + need) t)) st
               in if \<not> pages_usable phys (reg_cr3 s1) prot base (base + need) then (Inr (uerr ENOMEM), um, s1)
                  else case fill_mapping io base need len flags fd off um s1 of
                         (Some r, um1, s2) \<Rightarrow> (r, um1, s2)
                       | (None, um1, s2) \<Rightarrow>
                           (case record_mapping base need prot flags cur s2 of (r, s3) \<Rightarrow> (Inr r, um1, s3)))"

section \<open>Properties of mmap\<close>

lemma window_iff:
  assumes "unat (a :: u64) + n \<le> 2 ^ 64"
  shows "unat (x - a) < n \<longleftrightarrow> unat a \<le> unat x \<and> unat x < unat a + n"
proof (cases "a \<le> x")
  case True
  then show ?thesis by (auto simp: unat_sub word_le_nat_alt)
next
  case False
  have "unat (x - a) = unat x + 2 ^ 64 - unat a"
    using False by (subst unat_sub_if') (simp add: word_le_nat_alt)
  then show ?thesis using False assms by (auto simp: word_le_nat_alt)
qed

lemma zero_fill_append: "zero_fill (xs @ ys) um = (case zero_fill xs um of (True, um1) \<Rightarrow> zero_fill ys um1 | r \<Rightarrow> r)"
  by (induction xs um rule: zero_fill.induct) (auto split: option.split bool.split)

lemma zero_page:
  assumes "4096 \<le> unat a" "unat a + 4096 \<le> 2 ^ 30"
  shows "copy_to_user a (replicate 4096 0) 4096 um =
    Some (\<lambda>x. if unat a \<le> unat x \<and> unat x < unat a + 4096 then 0 else um x)"
proof -
  have "user_range_ok a 4096" using assms by (simp add: user_range_ok_iff)
  moreover have "unat a + 4096 \<le> 2 ^ 64" using assms by simp
  ultimately show ?thesis
    by (auto simp: copy_to_user_def put_user_def window_iff fun_eq_iff)
qed

lemma zero_pages:
  assumes "4096 \<le> unat base" "unat base + n * 4096 \<le> 2 ^ 30"
  shows "zero_fill (map (\<lambda>i. base + word_of_nat (i * 4096)) [0..<n]) um =
    (True, \<lambda>x. if unat base \<le> unat x \<and> unat x < unat base + n * 4096 then 0 else um x)"
  using assms(2)
proof (induction n)
  case (Suc n)
  have k: "unat (word_of_nat (n * 4096) :: u64) = n * 4096"
    using Suc.prems by (intro of_nat_inverse [OF refl]) simp
  have a: "unat (base + word_of_nat (n * 4096)) = unat base + n * 4096"
    using unat_sum [of base "word_of_nat (n * 4096)"] Suc.prems by (simp add: k del: of_nat_mult)
  show ?case
    using Suc zero_page [of "base + word_of_nat (n * 4096)"] assms(1)
    by (simp add: zero_fill_append a fun_eq_iff del: of_nat_mult)
qed (auto simp: fun_eq_iff)

lemma zero_range:
  assumes "4096 \<le> unat base" "unat base + unat need \<le> 2 ^ 30" "page_aligned need" "need \<noteq> 0"
  shows "zero_fill (pages_from base (base + need)) um =
    (True, \<lambda>x. if unat base \<le> unat x \<and> unat x < unat base + unat need then 0 else um x)"
proof -
  have b: "unat (base + need) = unat base + unat need" using assms(2) by (intro unat_sum) simp
  then have "base < base + need" using assms(4) by (simp add: word_less_nat_alt unat_gt_0)
  then have "pages_from base (base + need) = map (\<lambda>i. base + word_of_nat (i * 4096)) [0..<unat need div 4096]"
    by (simp add: pages_from_def)
  moreover have "unat need div 4096 * 4096 = unat need" using assms(3) by (simp add: page_aligned_dvd)
  ultimately show ?thesis using zero_pages [OF assms(1), of "unat need div 4096" um] assms(2) by simp
qed

lemma free_window_lookup:
  assumes "free_window vs lo n" "lo \<le> unat a" "unat a < lo + n"
  shows "vma_lookup vs a = None"
proof -
  have "\<not> vma_has v a" if "v \<in> set vs" for v
    using assms that vma_has_live [of v a]
    by (auto simp: free_window_def vma_has_def word_le_nat_alt word_less_nat_alt)
  then show ?thesis by (simp add: vma_lookup_def find_None_iff)
qed

lemma remove_range_noop:
  assumes "vmas_disjoint (user_vmas t)" "length (user_vmas t) = PROCESS_USER_VMA_MAX"
    and "\<And>a. s \<le> a \<Longrightarrow> a < e \<Longrightarrow> vma_lookup (user_vmas t) a = None"
  shows "user_vma_remove_range s e t = (False, t)"
proof (cases "s < e")
  case True
  have id: "remove_step s e i (False, t) = (False, t)" if "i < PROCESS_USER_VMA_MAX" for i
  proof -
    have "clear_of s e (user_vmas t ! i)"
      using assms that by (auto simp: clear_of_def vma_lookup_None)
    then show ?thesis by (auto simp: clear_of_iff [OF True] remove_step_def Let_def)
  qed
  have "fold (remove_step s e) is (False, t) = (False, t)" if "set is \<subseteq> {..<PROCESS_USER_VMA_MAX}" for "is"
    using that by (induction "is") (simp_all add: id)
  then have "fold (remove_step s e) [0..<PROCESS_USER_VMA_MAX] (False, t) = (False, t)"
    by (rule meta_spec) auto
  then show ?thesis using True by (simp add: user_vma_remove_range_def)
qed (simp add: user_vma_remove_range_def not_less)


lemma align_up_above:
  assumes "b \<le> l" "page_aligned l"
  shows "b \<le> page_align_up b"
proof -
  obtain k where k: "unat l = 4096 * k" using assms(2) by (auto simp: page_aligned_dvd elim: dvdE)
  then have "unat l \<le> 2 ^ 64 - 4096" using unat_below [of l] by simp
  then have "unat b + 4095 < 2 ^ 64" using assms(1) by (simp add: word_le_nat_alt)
  then have "unat (page_align_up b) = (unat b + 4095) div 4096 * 4096" by (rule unat_page_align_up)
  then show ?thesis by (simp add: word_le_nat_alt)
qed

lemma choose_base_gap:
  assumes "mem_ok t" "page_aligned need" "need \<noteq> 0" "flags AND LINUX_MAP_FIXED = 0"
    and "choose_base addr need flags t = Inr b"
  shows "USER_HEAP_BASE_ADDR \<le> b" "user_brk t \<le> b" "unat b + unat need \<le> unat (user_heap_limit t)" "page_aligned b"
    "free_window (user_vmas t) (unat b) (unat need)"
proof -
  have ok: "vmas_aligned (user_vmas t)" "length (user_vmas t) \<le> PROCESS_USER_VMA_MAX" "page_aligned (user_heap_limit t)"
    using assms(1) by (simp_all add: mem_ok_def vma_wf_def)
  define f0 where "f0 = page_align_up (user_brk t)"
  define f1 where "f1 = (if f0 < user_heap_base t then user_heap_base t else f0)"
  define flr where "flr = (if f1 < USER_HEAP_BASE_ADDR then USER_HEAP_BASE_ADDR else f1)"
  have "user_brk t \<le> f0"
    unfolding f0_def by (rule align_up_above) (use assms(1) in \<open>auto simp: mem_ok_def\<close>)
  then have f: "user_brk t \<le> flr" "USER_HEAP_BASE_ADDR \<le> flr"
    by (auto simp: flr_def f1_def)
  then have "flr \<noteq> 0" by (auto simp: USER_HEAP_BASE_ADDR_def)
  have "choose_base addr need flags t =
      (let base = user_vma_find_topdown_gap t flr (user_heap_limit t) need in if base = 0 then Inl (uerr ENOMEM) else Inr base)"
    using assms(4) by (simp add: choose_base_def Let_def flr_def f1_def f0_def)
  then have g: "topmost_gap (user_vmas t) flr (user_heap_limit t) need b" "b \<noteq> 0"
    using topdown_gap [OF ok(1,2) assms(2,3) ok(3) \<open>flr \<noteq> 0\<close>] assms(5)
    by (auto simp: Let_def split: if_splits)
  then have w: "gap_window (user_vmas t) flr (user_heap_limit t) need (unat b)" "page_aligned b"
    by (auto simp: topmost_gap_def)
  then show "unat b + unat need \<le> unat (user_heap_limit t)" "page_aligned b"
    "free_window (user_vmas t) (unat b) (unat need)" by (auto simp: gap_window_def)
  have "flr \<le> b" using w(1) by (simp add: gap_window_def word_le_nat_alt)
  then show "USER_HEAP_BASE_ADDR \<le> b" "user_brk t \<le> b" using f by auto
qed

definition in_window :: "u64 \<Rightarrow> u64 \<Rightarrow> u64 \<Rightarrow> bool" where
  "in_window b need a \<longleftrightarrow> unat b \<le> unat a \<and> unat a < unat b + unat need"

lemma in_window_iff:
  "unat b + unat need < 2 ^ 64 \<Longrightarrow> in_window b need a \<longleftrightarrow> b \<le> a \<and> a < b + need"
  by (simp add: in_window_def word_le_nat_alt word_less_nat_alt unat_sum)

lemma window_fits: "unat (b :: u64) + unat need \<le> unat (l :: u64) \<Longrightarrow> unat (b + need) = unat b + unat need"
  by (rule unat_sum) (rule le_less_trans [OF _ unat_below])

lemma record_heap_clear:
  assumes "heap_clear t" "user_brk t \<le> b" "user_heap_base u = user_heap_base t" "user_brk u = user_brk t"
    and "\<And>a. vma_lookup (user_vmas u) a = (if b \<le> a \<and> a < e then x else vma_lookup (user_vmas t) a)"
  shows "heap_clear u"
  using assms by (auto simp: heap_clear_def)

lemma record_fields [simp]:
  "user_heap_base (snd (user_vma_record s e p f t)) = user_heap_base t"
  "user_brk (snd (user_vma_record s e p f t)) = user_brk t"
  "user_heap_limit (snd (user_vma_record s e p f t)) = user_heap_limit t"
  by (auto simp: user_vma_record_def user_vma_refresh_mmap_hint_def user_vma_recount_def set_vma_def split: option.split)

lemma record_window:
  assumes "mem_ok t" "user_brk t \<le> b" "unat b + unat need \<le> unat (user_heap_limit t)" "page_aligned b" "page_aligned need"
    and "free_window (user_vmas t) (unat b) (unat need)" "user_vma_record b (b + need) p f t = (ok, u)"
  shows "mem_ok u \<and> (if ok then \<forall>a. vma_lookup (user_vmas u) a = (if in_window b need a then Some (p, f) else vma_lookup (user_vmas t) a) else u = t)"
proof -
  have wf: "vma_wf t" using assms(1) by (simp add: mem_ok_def)
  have iw: "in_window b need a \<longleftrightarrow> b \<le> a \<and> a < b + need" for a
    using in_window_iff assms(3) unat_below [of "user_heap_limit t"] by (meson order.strict_trans1)
  have none: "vma_lookup (user_vmas t) a = None" if "b \<le> a" "a < b + need" for a
    using free_window_lookup [OF assms(6), of a] iw [of a] that by (simp add: in_window_def)
  have u: "u = snd (user_vma_record b (b + need) p f t)" "ok = fst (user_vma_record b (b + need) p f t)"
    using assms(7) by simp_all
  have "vma_wf u" using vmap.map_wf [OF wf assms(4) page_aligned_add [OF assms(4,5)]] none u by simp
  moreover have l: "vma_lookup (user_vmas u) a = (if b \<le> a \<and> a < b + need then Some (p, f) else vma_lookup (user_vmas t) a)" if ok for a
    using vmap.map_lookup [OF wf, of b "b + need" p f a] none that u by simp
  moreover have "u = t" if "\<not> ok" using vmap.map_fails [OF wf, of b "b + need" p f] that u by simp
  moreover have "heap_clear u"
  proof (cases ok)
    case True
    then show ?thesis using record_heap_clear [OF _ assms(2), of u] l assms(1) u by (auto simp: mem_ok_def)
  qed (use calculation(3) assms(1) in \<open>simp add: mem_ok_def\<close>)
  ultimately show ?thesis using assms(1) u by (auto simp: mem_ok_def iw)
qed


definition free_anonymous :: "u64 \<Rightarrow> bool" where
  "free_anonymous flags \<longleftrightarrow> flags AND LINUX_MAP_ANON \<noteq> 0 \<and> flags AND LINUX_MAP_FIXED = 0"

text \<open>What an anonymous mapping with a free choice of the address does once the base is chosen.\<close>

lemma mmap_at_base:
  assumes ok: "mem_ok (tasks st (process_current_task st))" and "free_anonymous flags" "len \<noteq> 0" "page_align_up len \<noteq> 0"
    and cb: "choose_base addr (page_align_up len) flags (tasks st (process_current_task st)) = Inr b"
  shows "do_sys_mmap io phys addr len prot flags fd off um st =
    (if b < USER_MIN_ADDR \<or> b + page_align_up len < b \<or> USER_MAX_ADDR < b + page_align_up len \<or>
        \<not> pages_usable phys (reg_cr3 st) prot b (b + page_align_up len) then (Inr (uerr ENOMEM), um, st)
     else case record_mapping b (page_align_up len) prot flags (process_current_task st) st of
       (r, s3) \<Rightarrow> (Inr r, \<lambda>x. if in_window b (page_align_up len) x then 0 else um x, s3))"
proof -
  let ?t = "tasks st (process_current_task st)" and ?need = "page_align_up len"
  have fl: "flags AND LINUX_MAP_ANON \<noteq> 0" "flags AND LINUX_MAP_FIXED = 0" using assms(2) by (auto simp: free_anonymous_def)
  note g = choose_base_gap [OF ok page_aligned_align_up assms(4) fl(2) cb]
  have fit: "unat (b + ?need) = unat b + unat ?need" by (rule window_fits [OF g(3)])
  have "vma_lookup (user_vmas ?t) a = None" if "b \<le> a" "a < b + ?need" for a
    using free_window_lookup [OF g(5)] that fit by (simp add: word_le_nat_alt word_less_nat_alt)
  then have "user_vma_remove_range b (b + ?need) ?t = (False, ?t)"
    using ok by (intro remove_range_noop) (auto simp: mem_ok_def vma_wf_def)
  then have rm: "upd_task (process_current_task st) (\<lambda>t. snd (user_vma_remove_range b (b + ?need) t)) st = st"
    by (simp add: upd_task_def)
  have z: "zero_fill (pages_from b (b + ?need)) um = (True, \<lambda>x. if in_window b ?need x then 0 else um x)"
    if "\<not> b < USER_MIN_ADDR" "\<not> USER_MAX_ADDR < b + ?need"
    using that zero_range [of b ?need um] assms(4) fit
    by (simp add: in_window_def model_simps word_less_nat_alt)
  show ?thesis
    using assms(3,4) fl cb rm z
    by (simp add: do_sys_mmap_def Let_def fill_mapping_def split: prod.split)
qed


lemma record_mapping_window:
  assumes "mem_ok (tasks st cur)" "USER_HEAP_BASE_ADDR \<le> b" "user_brk (tasks st cur) \<le> b"
    "unat b + unat need \<le> unat (user_heap_limit (tasks st cur))" "page_aligned b" "page_aligned need" "need \<noteq> 0"
    "free_window (user_vmas (tasks st cur)) (unat b) (unat need)"
  obtains ok u where
    "record_mapping b need prot flags cur st = (if ok then b else uerr ENOMEM, upd_task cur (\<lambda>_. u) st)" "mem_ok u"
    "if ok then \<forall>a. vma_lookup (user_vmas u) a =
       (if in_window b need a then Some (ucast prot, ucast flags) else vma_lookup (user_vmas (tasks st cur)) a)
     else u = tasks st cur"
proof -
  obtain ok u where rec: "user_vma_record b (b + need) (ucast prot) (ucast flags) (tasks st cur) = (ok, u)" by fastforce
  have "0 < unat need" using assms(7) by (simp add: unat_gt_0)
  then have "b < user_heap_limit (tasks st cur)" using assms(4) by (simp add: word_less_nat_alt)
  then have "record_mapping b need prot flags cur st = (if ok then b else uerr ENOMEM, upd_task cur (\<lambda>_. u) st)"
    using assms(2) rec by (simp add: record_mapping_def)
  then show ?thesis using that record_window [OF assms(1,3-6,8) rec] by blast
qed

text \<open>C20: An anonymous \<^verbatim>\<open>mmap\<close> without a fixed address, in a task whose memory is in order, either
  succeeds or returns \<^verbatim>\<open>ENOMEM\<close>, changes only the table of the calling task and leaves its memory in
  order. On success it returns a page-aligned address above the break and below the heap limit, the
  window was free, is mapped with the requested protection and reads zero, and every other address keeps
  its mapping and its content. On failure the table is unchanged and no mapped or heap byte changes.\<close>

theorem mmap_anon_spec:
  assumes "mem_ok (tasks st (process_current_task st))" "free_anonymous flags" "len \<noteq> 0" "page_align_up len \<noteq> 0"
    and "do_sys_mmap io phys addr len prot flags fd off um st = (r, um', st')"
    and "t = tasks st (process_current_task st)" "t' = tasks st' (process_current_task st)" "need = page_align_up len"
  shows "mem_ok t' \<and> st' = upd_task (process_current_task st) (\<lambda>_. t') st \<and>
    (r = Inr (uerr ENOMEM) \<and> t' = t \<and> (\<forall>a. vma_lookup (user_vmas t) a = None \<and> user_brk t \<le> a \<or> um' a = um a) \<or>
     (\<exists>b. r = Inr b \<and> USER_HEAP_BASE_ADDR \<le> b \<and> user_brk t \<le> b \<and> unat b + unat need \<le> unat (user_heap_limit t) \<and>
        page_aligned b \<and> pages_usable phys (reg_cr3 st) prot b (b + need) \<and>
        (\<forall>a. if in_window b need a
             then vma_lookup (user_vmas t) a = None \<and> um' a = 0 \<and>
                  vma_lookup (user_vmas t') a = Some (ucast prot, ucast flags)
             else vma_lookup (user_vmas t') a = vma_lookup (user_vmas t) a \<and> um' a = um a)))"
proof -
  have fl: "flags AND LINUX_MAP_ANON \<noteq> 0" "flags AND LINUX_MAP_FIXED = 0" using assms(2) by (auto simp: free_anonymous_def)
  have same: ?thesis if "(r, um', st') = (Inr (uerr ENOMEM), um, st)"
    using that assms(1,6,7) by (simp add: upd_task_def)
  show ?thesis
  proof (cases "choose_base addr need flags t")
    case (Inl e)
    then have "e = uerr ENOMEM" using fl by (auto simp: choose_base_def Let_def split: if_splits)
    then show ?thesis
      using Inl assms(3-5) fl by (intro same) (simp add: do_sys_mmap_def Let_def flip: assms(6,8))
  next
    case (Inr b)
    note m = mmap_at_base [OF assms(1-4) Inr [unfolded assms(6,8)], of io phys prot fd off um, folded assms(6,8), unfolded assms(5)]
    note g = choose_base_gap [OF assms(1)[folded assms(6)] _ _ fl(2) Inr]
    have g: "USER_HEAP_BASE_ADDR \<le> b" "user_brk t \<le> b" "unat b + unat need \<le> unat (user_heap_limit t)" "page_aligned b"
      "free_window (user_vmas t) (unat b) (unat need)"
      using g assms(4,8) by simp_all
    obtain ok u where rm: "record_mapping b need prot flags (process_current_task st) st =
        (if ok then b else uerr ENOMEM, upd_task (process_current_task st) (\<lambda>_. u) st)" and w: "mem_ok u"
      "if ok then \<forall>a. vma_lookup (user_vmas u) a =
         (if in_window b need a then Some (ucast prot, ucast flags) else vma_lookup (user_vmas t) a) else u = t"
      using record_mapping_window [OF assms(1), of b need prot flags] g assms(4,6,8) by auto
    have free: "vma_lookup (user_vmas t) a = None \<and> user_brk t \<le> a" if "in_window b need a" for a
      using free_window_lookup [OF g(5)] that g(2) by (auto simp: in_window_def word_le_nat_alt)
    show ?thesis
    proof (cases "b < USER_MIN_ADDR \<or> b + need < b \<or> USER_MAX_ADDR < b + need \<or> \<not> pages_usable phys (reg_cr3 st) prot b (b + need)")
      case True
      then show ?thesis using m by (intro same) (simp only: if_True)
    next
      case False
      then have res: "r = Inr (if ok then b else uerr ENOMEM)" "um' = (\<lambda>x. if in_window b need x then 0 else um x)"
        "st' = upd_task (process_current_task st) (\<lambda>_. u) st" "t' = u"
        using m assms(7) by (simp_all add: rm)
      show ?thesis
        by (cases ok) (use res w free g(1-4) False in \<open>simp, auto\<close>)
    qed
  qed
qed

lemma demo_free_slot: "user_vma_find_free_slot demo_mapped = Some 2"
proof -
  have "vma_live (user_vmas demo_mapped ! 0)" "vma_live (user_vmas demo_mapped ! 1)" "\<not> vma_live (user_vmas demo_mapped ! 2)"
    by (simp_all add: demo_mapped_vmas demo_vma_def vma_live_def zero_vma_def)
  moreover have "j = 0 \<or> j = 1" if "j < 2" for j :: nat using that by auto
  ultimately show ?thesis
    unfolding user_vma_find_free_slot_def first_idx_Some PROCESS_USER_VMA_MAX_def by auto
qed

theorem mmap_anon_spec_witness:
  "fst (do_sys_mmap demo_io (\<lambda>_. 0x87) 0 0x7001 3 0x22 (-1) 0 (\<lambda>_. 7) (demo_mem demo_vfs)) = Inr 0x223E8000 \<and>
   fst (snd (do_sys_mmap demo_io (\<lambda>_. 0x87) 0 0x7001 3 0x22 (-1) 0 (\<lambda>_. 7) (demo_mem demo_vfs))) 0x223E8000 = 0"
proof -
  let ?m = "do_sys_mmap demo_io (\<lambda>_. 0x87) 0 0x7001 3 0x22 (-1) 0 (\<lambda>_. 7) (demo_mem demo_vfs)"
  have al: "page_align_up 0x7001 = 0x8000" "page_align_up 0x20401000 = 0x20401000"
    by (simp_all add: page_align_up_def PAGE_SIZE_def)
  have fl: "free_anonymous 0x22" by (simp add: free_anonymous_def model_simps)
  have f: "user_brk demo_mapped = 0x20401000" "user_heap_base demo_mapped = 0x20400000" "user_heap_limit demo_mapped = 0x22400000"
    by (simp_all add: demo_mapped_def)
  have "choose_base 0 0x8000 0x22 demo_mapped = Inr 0x223E8000"
    by (simp add: choose_base_def Let_def f al model_simps demo_gap)
  then have r: "fst ?m = Inr 0x223E8000"
    using mmap_at_base [of "demo_mem demo_vfs" "0x22" "0x7001" 0 "0x223E8000" demo_io "\<lambda>_. 0x87" 3 "-1" 0 "\<lambda>_. 7"]
      demo_mem_ok fl
    by (simp add: al f model_simps pages_usable_def demo_phys_ok list_all_iff record_mapping_def user_vma_record_def demo_free_slot)
  obtain v um' st' where m: "?m = (v, um', st')" by (cases ?m) auto
  note s = mmap_anon_spec [of "demo_mem demo_vfs" "0x22" "0x7001", OF _ fl _ _ m refl refl refl]
  have "Inr 0x223E8000 \<noteq> (Inr (uerr ENOMEM) :: u64 vres)" by (simp add: uerr_def ENOMEM_def)
  then show ?thesis using s demo_mem_ok r m by (auto simp: al in_window_def)
qed

section \<open>Every memory system call keeps the tables\<close>

definition table_ok :: "task \<Rightarrow> bool" where
  "table_ok t \<longleftrightarrow> vma_wf t \<and> page_aligned (user_heap_base t)"

definition same_tables :: "'a sched_scheme \<Rightarrow> 'a sched_scheme \<Rightarrow> bool" where
  "same_tables s s' \<longleftrightarrow> (\<forall>p. user_vmas (tasks s' p) = user_vmas (tasks s p) \<and>
     user_vma_count (tasks s' p) = user_vma_count (tasks s p) \<and> user_heap_base (tasks s' p) = user_heap_base (tasks s p))"

lemma same_tables_refl [simp]: "same_tables s s"
  by (simp add: same_tables_def)

lemma same_tables_trans: "same_tables s s1 \<Longrightarrow> same_tables s1 s2 \<Longrightarrow> same_tables s s2"
  by (simp add: same_tables_def)

lemma same_tables_e2 [simp]: "same_tables s (s1\<lparr>e2 := x\<rparr>) = same_tables s s1"
  by (simp add: same_tables_def)

lemma same_tables_ok: "same_tables s s' \<Longrightarrow> (\<And>p. table_ok (tasks s p)) \<Longrightarrow> table_ok (tasks s' p)"
  by (simp add: same_tables_def table_ok_def vma_wf_def)

lemma normalize_tables: "same_tables s (snd (normalize_path p s))"
  by (simp add: normalize_path_def vfs_current_cwd_def same_tables_def Let_def)

lemma resolve_tables: "same_tables s (snd (vfs_resolve p s))"
proof -
  have abs: "same_tables u (snd (resolve_abs a u))" for a u
    by (simp add: resolve_abs_def Let_def split: option.split prod.split)
  obtain r s1 where n: "normalize_path p s = (r, s1)" by fastforce
  then have "same_tables s s1" using normalize_tables [of s p] by simp
  then show ?thesis using same_tables_trans [OF _ abs] by (auto simp: vfs_resolve_def n split: option.split)
qed

lemma dev_mmap_tables: "same_tables s (snd (vfs_dev_mmap io p s))"
proof -
  have "same_tables s (snd (resolve_chr p s))"
    using resolve_tables [of s p]
    by (auto simp: resolve_chr_def split: prod.splits sum.splits vfs_err.splits option.splits)
  then show ?thesis
    by (auto simp: vfs_dev_mmap_def Let_def split: prod.splits sum.splits option.splits)
qed

lemma map_file_tasks: "tasks (snd (snd (map_file sbi ino base len off dn um s))) = tasks s"
proof (induction sbi ino base len off dn um s rule: map_file.induct)
  case (1 sbi ino base len off dn um st)
  show ?case
  proof (cases "dn < len")
    case True
    then show ?thesis
      using 1 by (subst map_file.simps) (simp add: Let_def split: option.split prod.split sum.split)
  qed (simp add: map_file.simps)
qed


lemma map_file_tables: "same_tables s (snd (snd (map_file sbi ino base len off dn um s)))"
  by (simp add: same_tables_def map_file_tasks)

lemma find_table_keeps: "fd_proc_for_pid q False s = (r, s1) \<Longrightarrow> s1 = s"
  by (auto simp: fd_proc_for_pid_def split: option.splits)

lemma fill_tables: "same_tables s (snd (snd (fill_mapping io base need len flags fd off um s)))"
proof -
  obtain p s1 where p: "fd_proc_for_pid (process_getpid s) False s = (p, s1)" by fastforce
  have s1: "s1 = s" by (rule find_table_keeps [OF p])
  show ?thesis
    using map_file_tables [of s] dev_mmap_tables [of s io]
    unfolding fill_mapping_def p s1
    by (auto simp: Let_def split: prod.splits option.splits sum.splits vfs_err.splits bool.splits)
       (metis snd_conv)+
qed

lemma gap_loop_aligned: "page_aligned flr \<Longrightarrow> page_aligned (gap_loop n vs flr top1 need c)"
  by (induction n arbitrary: c) (auto simp: Let_def PAGE_SIZE_def)

lemma choose_base_aligned:
  assumes "page_aligned (user_heap_base t)" "choose_base addr need flags t = Inr b"
  shows "page_aligned b"
proof -
  have "page_aligned USER_HEAP_BASE_ADDR" by (simp add: page_aligned_def USER_HEAP_BASE_ADDR_def)
  then show ?thesis
    using assms by (auto simp: choose_base_def Let_def page_aligned_iff PAGE_SIZE_def user_vma_find_topdown_gap_def
        simp flip: page_aligned_iff intro!: gap_loop_aligned split: if_splits)
qed

lemma remove_range_fields [simp]:
  "user_heap_base (snd (user_vma_remove_range s e t)) = user_heap_base t"
proof -
  have "user_heap_base (snd (fold (remove_step s e) is (ch, t))) = user_heap_base t" for "is" ch
  proof (induction "is" arbitrary: ch t)
    case (Cons i "is")
    have "user_heap_base (snd (remove_step s e i (ch, t))) = user_heap_base t"
      by (auto simp: remove_step_def Let_def set_vma_def split: option.split)
    then show ?case using Cons [of "fst (remove_step s e i (ch, t))" "snd (remove_step s e i (ch, t))"] by simp
  qed simp
  from this [of "[0..<PROCESS_USER_VMA_MAX]" False] show ?thesis
    by (auto simp: user_vma_remove_range_def user_vma_refresh_mmap_hint_def user_vma_recount_def split: prod.split)
qed

lemma remove_table_ok:
  "table_ok t \<Longrightarrow> page_aligned s \<Longrightarrow> page_aligned e \<Longrightarrow> table_ok (snd (user_vma_remove_range s e t))"
  by (simp add: table_ok_def remove_range_wf)

inductive mem_call :: "'d vfs_io \<Rightarrow> (u64 \<Rightarrow> u64) \<Rightarrow> umem \<times> 'd vfs \<Rightarrow> umem \<times> 'd vfs \<Rightarrow> bool" for io phys where
  brk: "do_sys_brk phys addr s = (r, s') \<Longrightarrow> mem_call io phys (um, s) (um, s')"
| munmap: "do_sys_munmap addr len s = (r, s') \<Longrightarrow> mem_call io phys (um, s) (um, s')"
| mprotect: "do_sys_mprotect phys addr len prot s = r \<Longrightarrow> mem_call io phys (um, s) (um, s)"
| mmap: "do_sys_mmap io phys addr len prot flags fd off um s = (r, um', s') \<Longrightarrow> mem_call io phys (um, s) (um', s')"


lemma upd_table_ok:
  "(\<And>q. table_ok (tasks s q)) \<Longrightarrow> (table_ok (tasks s p) \<Longrightarrow> table_ok (f (tasks s p))) \<Longrightarrow> table_ok (tasks (upd_task p f s) q)"
  by simp

lemma brk_table_ok: "table_ok t \<Longrightarrow> table_ok (t\<lparr>user_brk := b\<rparr>)"
  by (simp add: table_ok_def vma_wf_def)

lemma record_mapping_ok:
  assumes "\<And>q. table_ok (tasks s q)" "page_aligned b" "page_aligned need"
    and "\<And>a. b \<le> a \<Longrightarrow> a < b + need \<Longrightarrow> vma_lookup (user_vmas (tasks s cur)) a = None"
  shows "table_ok (tasks (snd (record_mapping b need prot flags cur s)) p)"
proof -
  have "table_ok (snd (user_vma_record b (b + need) (ucast prot) (ucast flags) (tasks s cur)))"
    using vmap.map_wf [OF _ assms(2) page_aligned_add [OF assms(2,3)] assms(4)] assms(1) by (simp add: table_ok_def)
  then show ?thesis using assms(1) by (auto simp: record_mapping_def split: prod.split)
qed

lemma mmap_keeps:
  assumes ok: "\<And>q. table_ok (tasks s q)" and "do_sys_mmap io phys addr len prot flags fd off um s = (r, um', s')"
  shows "table_ok (tasks s' p)"
proof -
  let ?cur = "process_current_task s" and ?need = "page_align_up len"
  let ?rm = "\<lambda>b. upd_task ?cur (\<lambda>t. snd (user_vma_remove_range b (b + ?need) t)) s"
  have al: "page_aligned b" if "choose_base addr ?need flags (tasks s ?cur) = Inr b" for b
    using choose_base_aligned [OF _ that] ok by (simp add: table_ok_def)
  have rm: "table_ok (tasks (?rm b) q)" if "page_aligned b" for b q
    using ok that by (auto intro!: remove_table_ok page_aligned_add)
  show ?thesis
  proof (cases "choose_base addr ?need flags (tasks s ?cur)")
    case (Inl e)
    then have "s' = s" using assms(2) by (simp add: do_sys_mmap_def Let_def split: if_split_asm)
    then show ?thesis using ok by simp
  next
    case (Inr b)
    obtain x y s2 where fm: "fill_mapping io b ?need len flags fd off um (?rm b) = (x, y, s2)" by (metis prod_cases3)
    have st: "same_tables (?rm b) s2" using fill_tables fm by (metis snd_conv)
    have ok2: "table_ok (tasks s2 q)" for q using same_tables_ok [OF st] rm al [OF Inr] by blast
    have "vma_lookup (user_vmas (tasks s2 ?cur)) a = None" if "b \<le> a" "a < b + ?need" for a
      using st vmap.unmap_inside [OF _ that] ok by (simp add: same_tables_def table_ok_def)
    then have ok3: "table_ok (tasks (snd (record_mapping b ?need prot flags ?cur s2)) p)"
      using record_mapping_ok ok2 al [OF Inr] page_aligned_align_up by blast
    have "s' \<in> {s, ?rm b, s2, snd (record_mapping b ?need prot flags ?cur s2)}"
      using assms(2) unfolding do_sys_mmap_def Let_def Inr fm sum.case prod.case
      by (cases x; cases "record_mapping b ?need prot flags ?cur s2") (simp_all split: if_split_asm)
    then show ?thesis using ok ok2 ok3 rm [OF al [OF Inr], of p] by auto
  qed
qed

lemma mem_call_keeps:
  assumes "mem_call io phys x y" "\<And>p. table_ok (tasks (snd x) p)"
  shows "table_ok (tasks (snd y) p)"
  using assms
proof cases
  case (brk addr s r s' um)
  then show ?thesis
    using assms(2) by (auto simp: do_sys_brk_def Let_def brk_table_ok split: if_splits)
next
  case (munmap addr len s r s' um)
  then show ?thesis
    using assms(2)
    by (auto simp: do_sys_munmap_def Let_def PAGE_SIZE_def page_aligned_iff [symmetric]
        intro!: remove_table_ok page_aligned_add split: if_splits)
next
  case (mmap addr len prot flags fd off um s r um' s')
  then show ?thesis using mmap_keeps [of s] assms(2) by simp
qed (use assms in auto)

text \<open>C19: The tables of mapped ranges stay well-formed: after any sequence of \<^verbatim>\<open>brk\<close>, \<^verbatim>\<open>mmap\<close> (fixed or
  not, anonymous, of a file or of a device, successful or failed), \<^verbatim>\<open>munmap\<close> and \<^verbatim>\<open>mprotect\<close> calls with any
  arguments and any page tables, every task's table has its 256 slots, its ranges are page-aligned and
  pairwise disjoint, and its counter is the number of ranges in use.\<close>

theorem memory_calls_keep_tables:
  assumes "(mem_call io phys)\<^sup>*\<^sup>* (um, s) (um', s')" "\<And>p. table_ok (tasks s p)"
  shows "table_ok (tasks s' p)"
proof -
  have "table_ok (tasks (snd y) p)" if "(mem_call io phys)\<^sup>*\<^sup>* x y" "\<And>p. table_ok (tasks (snd x) p)" for x y p
    using that by (induction arbitrary: p) (auto intro: mem_call_keeps)
  from this [OF assms(1)] show ?thesis using assms(2) by simp
qed

theorem memory_calls_keep_tables_witness:
  "table_ok (tasks (snd (do_sys_munmap 0x223C4000 0x3001 (snd (do_sys_brk (\<lambda>_. 0x87) 0x20403001
     (demo_vfs\<lparr>tasks := \<lambda>_. demo_mapped\<rparr>))))) (TaskP 0))"
proof -
  let ?s = "demo_vfs\<lparr>tasks := \<lambda>_. demo_mapped\<rparr>" and ?phys = "\<lambda>_. 0x87 :: u64"
  have "table_ok demo_mapped" using demo_mapped_wf by (simp add: table_ok_def demo_mapped_def page_aligned_def)
  then have ok: "table_ok (tasks ?s p)" for p by simp
  have "mem_call demo_io ?phys (um, s) (um, snd (do_sys_brk ?phys a s))"
    "mem_call demo_io ?phys (um, s) (um, snd (do_sys_munmap a l s))" for um a l s
    by (rule mem_call.brk mem_call.munmap, rule prod.collapse [symmetric])+
  then have calls: "(mem_call demo_io ?phys)\<^sup>*\<^sup>* (\<lambda>_. 0, ?s)
      (\<lambda>_. 0, snd (do_sys_munmap 0x223C4000 0x3001 (snd (do_sys_brk ?phys 0x20403001 ?s))))"
    by (meson converse_rtranclp_into_rtranclp r_into_rtranclp)
  show ?thesis by (rule memory_calls_keep_tables [OF calls ok])
qed

end
