(* ===== verification/FdCalls.thy ===== *)
theory FdCalls
  imports FdTable UserMem
begin

text \<open>
  The system calls of \<^verbatim>\<open>src/sys/syscall.c\<close> that open, duplicate and close descriptors: \<^verbatim>\<open>close\<close>,
  \<^verbatim>\<open>lseek\<close>, \<^verbatim>\<open>fcntl\<close>, \<^verbatim>\<open>dup\<close>, \<^verbatim>\<open>dup2\<close>, \<^verbatim>\<open>dup3\<close>, \<^verbatim>\<open>pipe2\<close>, \<^verbatim>\<open>eventfd2\<close>, \<^verbatim>\<open>timerfd_create\<close>, \<^verbatim>\<open>signalfd4\<close> and the
  \<^verbatim>\<open>epoll\<close> calls. A call returns the value of \<^verbatim>\<open>rax\<close>; the signed sum of \<^verbatim>\<open>lseek\<close> wraps as the machine
  addition does. The tracing output is compiled out and left out. The lemmas show that no call leaks or
  loses a reference to an open file.
\<close>

section \<open>Flags\<close>

definition LINUX_O_ACCMODE :: int where [model_simps]: "LINUX_O_ACCMODE = 3"
definition LINUX_O_RDWR :: int where [model_simps]: "LINUX_O_RDWR = 2"
definition LINUX_O_NONBLOCK :: int where [model_simps]: "LINUX_O_NONBLOCK = 0x800"
definition LINUX_O_CLOEXEC :: int where [model_simps]: "LINUX_O_CLOEXEC = 0x80000"
definition LINUX_FD_CLOEXEC :: int where [model_simps]: "LINUX_FD_CLOEXEC = 1"

definition c_int_of :: "u64 \<Rightarrow> int" where "c_int_of u = sint (ucast u :: c_int)"

definition uret :: "int \<Rightarrow> u64" where "uret i = word_of_int i"

section \<open>Descriptors of the calling process\<close>

definition fd_here :: "int \<Rightarrow> 'a kern_scheme \<Rightarrow> (nat \<times> edge_fd) option \<times> 'a kern_scheme" where
  "fd_here fd s =
     (case fd_proc_with_stdio s of
        (None, s1) \<Rightarrow> (None, s1)
      | (Some p, s1) \<Rightarrow> (map_option (Pair p) (fd_get p fd s1), s1))"

definition set_fd :: "nat \<Rightarrow> nat \<Rightarrow> edge_fd \<Rightarrow> 'a kern_scheme \<Rightarrow> 'a kern_scheme" where
  "set_fd p i e s = upd_fds p (\<lambda>t. t(i := e)) s"

definition fb_release :: "edge_fd \<Rightarrow> 'a kern_scheme \<Rightarrow> 'a kern_scheme" where
  "fb_release e s =
     (if fd_kind e = FD_VFS \<and> strcmp (fd_path e) (lit ''/dev/fb0'') = 0 \<and> 0 < fb_hold_count s
      then s\<lparr>fb_hold_count := fb_hold_count s - 1, fb_present := (fb_hold_count s = 1 \<or> fb_present s)\<rparr> else s)"

definition do_sys_close :: "u64 \<Rightarrow> 'a kern_scheme \<Rightarrow> u64 \<times> 'a kern_scheme" where
  "do_sys_close fd_u s =
     (case fd_proc_for_pid (process_getpid s) False s of
        (None, s1) \<Rightarrow> (uerr EBADF, s1)
      | (Some p, s1) \<Rightarrow>
          (case fd_get p (c_int_of fd_u) s1 of
             None \<Rightarrow> (uerr EBADF, s1)
           | Some e \<Rightarrow> (0, set_fd p (nat (c_int_of fd_u)) zero_fd (fb_release e (drop_fd e s1)))))"

definition do_sys_fsync :: "u64 \<Rightarrow> 'a kern_scheme \<Rightarrow> u64 \<times> 'a kern_scheme" where
  "do_sys_fsync fd_u s =
     (case fd_here (c_int_of fd_u) s of (None, s1) \<Rightarrow> (uerr EBADF, s1) | (Some _, s1) \<Rightarrow> (0, s1))"

definition do_sys_lseek :: "u64 \<Rightarrow> u64 \<Rightarrow> u64 \<Rightarrow> 'a kern_scheme \<Rightarrow> u64 \<times> 'a kern_scheme" where
  "do_sys_lseek fd_u off_u whence_u s =
     (case fd_here (c_int_of fd_u) s of
        (None, s1) \<Rightarrow> (uerr EBADF, s1)
      | (Some (p, e), s1) \<Rightarrow>
          let w = c_int_of whence_u;
              base = (if w = 0 then Some 0 else if w = 1 then Some (fd_pos e)
                      else if w = 2 then Some (ucast (i_size (fd_inode e))) else None)
          in case base of
               None \<Rightarrow> (uerr EINVAL, s1)
             | Some b \<Rightarrow>
                 let np = b + off_u
                 in if sint np < 0 then (uerr EINVAL, s1)
                    else (np, set_fd p (nat (c_int_of fd_u)) (e\<lparr>fd_pos := np\<rparr>) s1))"

section \<open>Duplication\<close>

text \<open>What \<^verbatim>\<open>F_DUPFD\<close> and \<^verbatim>\<open>dup2\<close> share: slot \<open>i\<close> becomes a copy of \<open>e\<close> that counts its references.\<close>

definition copy_fd :: "nat \<Rightarrow> nat \<Rightarrow> edge_fd \<Rightarrow> int \<Rightarrow> 'a kern_scheme \<Rightarrow> u64 \<times> 'a kern_scheme" where
  "copy_fd p i e fl s =
     (let s1 = set_fd p i e s
      in case (if file_ref e = 0 then (-1, s1) else file_ref_get (file_ref e) s1) of
           (r, s2) \<Rightarrow>
             if r < 0 then (uerr ENOMEM, set_fd p i zero_fd s2)
             else (uret (int i), add_object e (set_fd p i (e\<lparr>fd_flags := fl\<rparr>) s2)))"

definition dup_fd :: "nat \<Rightarrow> edge_fd \<Rightarrow> int \<Rightarrow> bool \<Rightarrow> 'a kern_scheme \<Rightarrow> u64 \<times> 'a kern_scheme" where
  "dup_fd p e minfd cloexec s =
     (case fd_alloc p minfd s of
        (nfd, s1) \<Rightarrow>
          if nfd < 0 then (uerr ENOMEM, s1)
          else copy_fd p (nat nfd) e
                 (if cloexec then fd_flags e OR LINUX_FD_CLOEXEC else fd_flags e AND NOT LINUX_FD_CLOEXEC) s1)"

definition set_nonblock :: "edge_fd \<Rightarrow> int \<Rightarrow> 'a kern_scheme \<Rightarrow> 'a kern_scheme" where
  "set_nonblock e fl s =
     (if fd_kind e = FD_SOCKET \<and> in_range (pipe_id e) EDGE_MAX_SOCKETS \<and> so_used (sockets s (nat (pipe_id e)))
      then upd_sock (nat (pipe_id e)) (\<lambda>k. k\<lparr>so_nonblock := fl AND LINUX_O_NONBLOCK \<noteq> 0\<rparr>) s else s)"

definition unlocked :: "u8 list \<Rightarrow> u8 list" where
  "unlocked fl = [2, 0] @ take 22 (drop 2 fl) @ [0, 0, 0, 0] @ drop 28 fl"

definition do_sys_fcntl :: "u64 \<Rightarrow> u64 \<Rightarrow> u64 \<Rightarrow> umem \<Rightarrow> 'a kern_scheme \<Rightarrow> u64 \<times> umem \<times> 'a kern_scheme" where
  "do_sys_fcntl fd_u cmd_u arg_u um s =
     (let fd = c_int_of fd_u; cmd = c_int_of cmd_u
      in case fd_here fd s of
           (None, s1) \<Rightarrow> (uerr EBADF, um, s1)
         | (Some (p, e), s1) \<Rightarrow>
             if cmd = 0 \<or> cmd = 1030 then
               (case dup_fd p e (c_int_of arg_u) (cmd = 1030) s1 of (r, s2) \<Rightarrow> (r, um, s2))
             else if cmd = 1 then (uret (fd_flags e AND LINUX_FD_CLOEXEC), um, s1)
             else if cmd = 2 then (0, um, set_fd p (nat fd) (e\<lparr>fd_flags := uint (arg_u AND 1)\<rparr>) s1)
             else if cmd = 3 then (uret (fd_oflags e), um, s1)
             else if cmd = 4 then
               let fl = (fd_oflags e AND LINUX_O_ACCMODE) OR (c_int_of arg_u AND NOT LINUX_O_ACCMODE)
               in (0, um, set_nonblock e fl (set_fd p (nat fd) (e\<lparr>fd_oflags := fl\<rparr>) s1))
             else if cmd = 6 \<or> cmd = 7 then (0, um, s1)
             else if cmd = 5 then
               (if arg_u = 0 then (uerr EINVAL, um, s1)
                else case copy_from_user arg_u 32 um of
                       None \<Rightarrow> (uerr EFAULT, um, s1)
                     | Some bs \<Rightarrow>
                         (case copy_to_user arg_u (unlocked bs) 32 um of
                            None \<Rightarrow> (uerr EFAULT, um, s1)
                          | Some um1 \<Rightarrow> (0, um1, s1)))
             else (uerr ENOSYS, um, s1))"

definition do_sys_dup :: "u64 \<Rightarrow> umem \<Rightarrow> 'a kern_scheme \<Rightarrow> u64 \<times> umem \<times> 'a kern_scheme" where
  "do_sys_dup fd_u um s = do_sys_fcntl fd_u 0 0 um s"

definition do_sys_dup2 :: "u64 \<Rightarrow> u64 \<Rightarrow> 'a kern_scheme \<Rightarrow> u64 \<times> 'a kern_scheme" where
  "do_sys_dup2 oldfd_u newfd_u s =
     (let oldfd = c_int_of oldfd_u; newfd = c_int_of newfd_u
      in case fd_here oldfd s of
           (None, s1) \<Rightarrow> (uerr EBADF, s1)
         | (Some (p, oldf), s1) \<Rightarrow>
             if \<not> in_range newfd EDGE_MAX_FD then (uerr EBADF, s1)
             else if oldfd = newfd then (uret newfd, s1)
             else let s2 = (if fd_used (fds (fd_procs s1 p) (nat newfd)) then snd (do_sys_close (uret newfd) s1) else s1)
                  in copy_fd p (nat newfd) oldf (fd_flags oldf AND NOT LINUX_FD_CLOEXEC) s2)"

definition do_sys_dup3 :: "u64 \<Rightarrow> u64 \<Rightarrow> u64 \<Rightarrow> 'a kern_scheme \<Rightarrow> u64 \<times> 'a kern_scheme" where
  "do_sys_dup3 oldfd_u newfd_u flags_u s =
     (let flags = c_int_of flags_u
      in if flags AND NOT LINUX_O_CLOEXEC \<noteq> 0 then (uerr EINVAL, s)
         else if c_int_of oldfd_u = c_int_of newfd_u then (uerr EINVAL, s)
         else case do_sys_dup2 oldfd_u newfd_u s of
                (r, s1) \<Rightarrow>
                  if sint r < 0 then (r, s1)
                  else if flags AND LINUX_O_CLOEXEC \<noteq> 0 then
                    (case fd_here (c_int_of r) s1 of
                       (None, s2) \<Rightarrow> (r, s2)
                     | (Some (p, e), s2) \<Rightarrow> (r, set_fd p (nat (c_int_of r)) (e\<lparr>fd_flags := fd_flags e OR LINUX_FD_CLOEXEC\<rparr>) s2))
                  else (r, s1))"


section \<open>Pipes\<close>

definition end_fd :: "edge_fd_kind \<Rightarrow> nat \<Rightarrow> int \<Rightarrow> int \<Rightarrow> int \<Rightarrow> edge_fd" where
  "end_fd k r obj ofl fl = zero_fd\<lparr>fd_used := True, fd_kind := k, file_ref := r, fd_oflags := ofl, fd_flags := fl, pipe_id := obj\<rparr>"

definition cloexec_of :: "int \<Rightarrow> int" where
  "cloexec_of flags = (if flags AND LINUX_O_CLOEXEC \<noteq> 0 then LINUX_FD_CLOEXEC else 0)"

definition nonblock_of :: "int \<Rightarrow> int" where
  "nonblock_of flags = (if flags AND LINUX_O_NONBLOCK \<noteq> 0 then LINUX_O_NONBLOCK else 0)"

definition wipe_pipe :: "int \<Rightarrow> 'a kern_scheme \<Rightarrow> 'a kern_scheme" where
  "wipe_pipe i s = s\<lparr>pipes := (pipes s)(nat i := zero_pipe)\<rparr>"

definition open_ends :: "int \<Rightarrow> 'a kern_scheme \<Rightarrow> 'a kern_scheme" where
  "open_ends i s = s\<lparr>pipes := (pipes s)(nat i := (pipes s (nat i))\<lparr>readers := readers (pipes s (nat i)) + 1,
     writers := writers (pipes s (nat i)) + 1\<rparr>)\<rparr>"

text \<open>The two descriptors and the two file references of a new pipe, or nothing.\<close>

definition pipe_fds :: "nat \<Rightarrow> int \<Rightarrow> int \<Rightarrow> 'a kern_scheme \<Rightarrow> (int \<times> int) option \<times> 'a kern_scheme" where
  "pipe_fds p pid1 flags s =
     (case fd_alloc p 0 s of
        (rfd, s1) \<Rightarrow>
          if rfd < 0 then (None, wipe_pipe pid1 s1)
          else case fd_alloc p 0 s1 of
            (wfd, s2) \<Rightarrow>
              if wfd < 0 then (None, wipe_pipe pid1 (set_fd p (nat rfd) zero_fd s2))
              else
                let undo = \<lambda>u. wipe_pipe pid1 (set_fd p (nat wfd) zero_fd (set_fd p (nat rfd) zero_fd u))
                in case file_ref_alloc s2 of
                     (r, s3) \<Rightarrow>
                       if r = 0 then (None, undo s3)
                       else
                         let s4 = set_fd p (nat rfd) (end_fd FD_PIPE_R r pid1 (nonblock_of flags) (cloexec_of flags)) s3
                         in case file_ref_alloc s4 of
                              (w, s5) \<Rightarrow>
                                if w = 0 then (None, undo (snd (file_ref_put r s5)))
                                else (Some (rfd, wfd), open_ends pid1
                                  (set_fd p (nat wfd) (end_fd FD_PIPE_W w pid1 (LINUX_O_WRONLY OR nonblock_of flags) (cloexec_of flags)) s5)))"

definition do_sys_pipe :: "u64 \<Rightarrow> u64 \<Rightarrow> umem \<Rightarrow> 'a kern_scheme \<Rightarrow> u64 \<times> umem \<times> 'a kern_scheme" where
  "do_sys_pipe pipefd_u flags_u um s =
     (let flags = c_int_of flags_u
      in if flags AND NOT (LINUX_O_CLOEXEC OR LINUX_O_NONBLOCK) \<noteq> 0 then (uerr EINVAL, um, s)
         else case fd_proc_with_stdio s of
           (None, s1) \<Rightarrow> (uerr ENOMEM, um, s1)
         | (Some p, s1) \<Rightarrow>
             (case pipe_alloc s1 of
                (pid1, s2) \<Rightarrow>
                  if pid1 < 0 then (uerr ENOMEM, um, s2)
                  else case pipe_fds p pid1 flags s2 of
                    (None, s3) \<Rightarrow> (uerr ENOMEM, um, s3)
                  | (Some (rfd, wfd), s3) \<Rightarrow>
                      (case copy_to_user pipefd_u (le_bytes 4 (uret rfd) @ le_bytes 4 (uret wfd)) 8 um of
                         None \<Rightarrow> (uerr EFAULT, um, snd (do_sys_close (uret wfd) (snd (do_sys_close (uret rfd) s3))))
                       | Some um1 \<Rightarrow> (0, um1, s3))))"

section \<open>Event, timer, signal and epoll descriptors\<close>

definition alloc_special_fd :: "edge_fd_kind \<Rightarrow> int \<Rightarrow> int \<Rightarrow> 'a kern_scheme \<Rightarrow> int \<times> 'a kern_scheme" where
  "alloc_special_fd kind obj_id flags s =
     (case fd_proc_with_stdio s of
        (None, s1) \<Rightarrow> (- ENOMEM, s1)
      | (Some p, s1) \<Rightarrow>
          (case fd_alloc p 0 s1 of
             (fd, s2) \<Rightarrow>
               if fd < 0 then (- ENOMEM, s2)
               else case file_ref_alloc s2 of
                      (r, s3) \<Rightarrow>
                        if r = 0 then (- ENOMEM, set_fd p (nat fd) zero_fd s3)
                        else (fd, set_fd p (nat fd)
                          (end_fd kind r obj_id (flags AND (LINUX_O_NONBLOCK OR LINUX_O_RDWR OR LINUX_O_WRONLY)) (cloexec_of flags)) s3)))"

text \<open>The common tail of the calls that create such a descriptor: drop the new object again when there is
  no descriptor for it.\<close>

definition special_or_drop ::
  "edge_fd_kind \<Rightarrow> int \<Rightarrow> int \<Rightarrow> (int \<Rightarrow> 'a kern_scheme \<Rightarrow> 'a kern_scheme) \<Rightarrow> 'a kern_scheme \<Rightarrow> u64 \<times> 'a kern_scheme" where
  "special_or_drop kind i flags drop1 s =
     (if i < 0 then (uerr ENOMEM, s)
      else case alloc_special_fd kind i flags s of
             (fd, s1) \<Rightarrow> if fd < 0 then (uret fd, drop1 i s1) else (uret fd, s1))"

definition do_sys_eventfd2 :: "u64 \<Rightarrow> u64 \<Rightarrow> 'a kern_scheme \<Rightarrow> u64 \<times> 'a kern_scheme" where
  "do_sys_eventfd2 initval_u flags_u s =
     (let flags = c_int_of flags_u
      in if flags AND NOT (1 OR LINUX_O_NONBLOCK OR LINUX_O_CLOEXEC) \<noteq> 0 then (uerr EINVAL, s)
         else case eventfd_alloc_obj (ucast (ucast initval_u :: u32)) (flags AND 1 \<noteq> 0) s of
                (i, s1) \<Rightarrow> special_or_drop FD_EVENTFD i (flags AND (LINUX_O_NONBLOCK OR LINUX_O_CLOEXEC)) eventfd_drop_ref s1)"

definition do_sys_eventfd :: "u64 \<Rightarrow> 'a kern_scheme \<Rightarrow> u64 \<times> 'a kern_scheme" where
  "do_sys_eventfd initval_u s = do_sys_eventfd2 initval_u 0 s"

definition do_sys_timerfd_create :: "u64 \<Rightarrow> u64 \<Rightarrow> 'a kern_scheme \<Rightarrow> u64 \<times> 'a kern_scheme" where
  "do_sys_timerfd_create clockid_u flags_u s =
     (let clockid = c_int_of clockid_u; flags = c_int_of flags_u
      in if \<not> (clockid = 0 \<or> clockid = 1) then (uerr EINVAL, s)
         else if flags AND NOT (LINUX_O_NONBLOCK OR LINUX_O_CLOEXEC) \<noteq> 0 then (uerr EINVAL, s)
         else case timerfd_alloc_obj clockid s of
                (i, s1) \<Rightarrow> special_or_drop FD_TIMERFD i (flags AND (LINUX_O_NONBLOCK OR LINUX_O_CLOEXEC)) timerfd_drop_ref s1)"

definition do_sys_signalfd4 :: "u64 \<Rightarrow> u64 \<Rightarrow> u64 \<Rightarrow> u64 \<Rightarrow> umem \<Rightarrow> 'a kern_scheme \<Rightarrow> u64 \<times> 'a kern_scheme" where
  "do_sys_signalfd4 fd_u mask_u siz_u flags_u um s =
     (let flags = c_int_of flags_u; fd = c_int_of fd_u; s1 = snd (fd_proc_with_stdio s)
      in if mask_u = 0 \<or> siz_u < 8 then (uerr EINVAL, s1)
         else case copy_from_user mask_u 8 um of
           None \<Rightarrow> (uerr EFAULT, s1)
         | Some bs \<Rightarrow>
             if flags AND NOT (LINUX_O_NONBLOCK OR LINUX_O_CLOEXEC) \<noteq> 0 then (uerr EINVAL, s1)
             else if fd = -1 then
               (case signalfd_alloc_obj (of_le bs) s1 of
                  (i, s2) \<Rightarrow> special_or_drop FD_SIGNALFD i (flags AND (LINUX_O_NONBLOCK OR LINUX_O_CLOEXEC)) signalfd_drop_ref s2)
             else case Option.bind (fst (fd_proc_with_stdio s)) (\<lambda>p. map_option (Pair p) (fd_get p fd s1)) of
                    None \<Rightarrow> (uerr EBADF, s1)
                  | Some (p, e) \<Rightarrow>
                      if fd_kind e \<noteq> FD_SIGNALFD then (uerr EBADF, s1)
                      else if \<not> in_range (pipe_id e) EDGE_MAX_SIGNALFDS \<or> \<not> sg_used (signalfds s1 (nat (pipe_id e)))
                      then (uerr EBADF, s1)
                      else (fd_u, set_fd p (nat fd)
                        (e\<lparr>fd_oflags := (fd_oflags e AND NOT LINUX_O_NONBLOCK) OR (flags AND LINUX_O_NONBLOCK),
                           fd_flags := (if flags AND LINUX_O_CLOEXEC \<noteq> 0 then fd_flags e OR LINUX_FD_CLOEXEC else fd_flags e)\<rparr>)
                        (s1\<lparr>signalfds := (signalfds s1)(nat (pipe_id e) := (signalfds s1 (nat (pipe_id e)))\<lparr>sg_mask := of_le bs\<rparr>)\<rparr>)))"

definition do_sys_signalfd :: "u64 \<Rightarrow> u64 \<Rightarrow> u64 \<Rightarrow> umem \<Rightarrow> 'a kern_scheme \<Rightarrow> u64 \<times> 'a kern_scheme" where
  "do_sys_signalfd fd_u mask_u siz_u um s = do_sys_signalfd4 fd_u mask_u siz_u 0 um s"

definition do_sys_epoll_create1 :: "u64 \<Rightarrow> 'a kern_scheme \<Rightarrow> u64 \<times> 'a kern_scheme" where
  "do_sys_epoll_create1 flags_u s =
     (let flags = c_int_of flags_u
      in if flags AND NOT LINUX_O_CLOEXEC \<noteq> 0 then (uerr EINVAL, s)
         else case epoll_alloc_obj s of
                (i, s1) \<Rightarrow> special_or_drop FD_EPOLL i (flags AND LINUX_O_CLOEXEC) epoll_drop_ref s1)"

definition do_sys_epoll_create :: "u64 \<Rightarrow> 'a kern_scheme \<Rightarrow> u64 \<times> 'a kern_scheme" where
  "do_sys_epoll_create size_u s = (if c_int_of size_u \<le> 0 then (uerr EINVAL, s) else do_sys_epoll_create1 0 s)"

definition watch_index :: "edge_epoll_watch list \<Rightarrow> int \<Rightarrow> nat option" where
  "watch_index ws fd = first_idx (\<lambda>i. w_fd (ws ! i) = fd) 0 (length ws)"

definition epoll_update :: "int \<Rightarrow> int \<Rightarrow> u32 \<Rightarrow> u64 \<Rightarrow> edge_epoll_watch list \<Rightarrow> u64 \<times> edge_epoll_watch list" where
  "epoll_update op fd evs dat ws =
     (if op = 1 then
        (if watch_index ws fd \<noteq> None then (uerr EEXIST, ws)
         else if EDGE_EPOLL_MAX_WATCH \<le> length ws then (uerr ENOMEM, ws)
         else (0, ws @ [\<lparr>w_fd = fd, w_events = evs, w_data = dat\<rparr>]))
      else if op = 3 then
        (case watch_index ws fd of
           None \<Rightarrow> (uerr ENOENT, ws)
         | Some i \<Rightarrow> (0, ws[i := (ws ! i)\<lparr>w_events := evs, w_data := dat\<rparr>]))
      else if op = 2 then
        (case watch_index ws fd of
           None \<Rightarrow> (uerr ENOENT, ws)
         | Some i \<Rightarrow> (0, butlast (ws[i := ws ! (length ws - 1)])))
      else (uerr EINVAL, ws))"

definition do_sys_epoll_ctl :: "u64 \<Rightarrow> u64 \<Rightarrow> u64 \<Rightarrow> u64 \<Rightarrow> umem \<Rightarrow> 'a kern_scheme \<Rightarrow> u64 \<times> 'a kern_scheme" where
  "do_sys_epoll_ctl epfd_u op_u fd_u ev_u um s =
     (let op = c_int_of op_u; fd = c_int_of fd_u
      in case fd_here (c_int_of epfd_u) s of
           (None, s1) \<Rightarrow> (uerr EBADF, s1)
         | (Some (p, e), s1) \<Rightarrow>
             let k = nat (pipe_id e); ep = epolls s1 k
             in if fd_kind e \<noteq> FD_EPOLL \<or> \<not> in_range (pipe_id e) EDGE_MAX_EPOLLS \<or> \<not> ep_used ep then (uerr EBADF, s1)
                else if fd < 0 \<or> fd = c_int_of epfd_u then (uerr EINVAL, s1)
                else if op \<noteq> 2 \<and> ev_u = 0 then (uerr EINVAL, s1)
                else case (if op \<noteq> 2 then copy_from_user ev_u 16 um else Some (replicate 16 0)) of
                       None \<Rightarrow> (uerr EFAULT, s1)
                     | Some bs \<Rightarrow>
                         (case epoll_update op fd (ucast (of_le (take 4 bs))) (of_le (drop 8 bs)) (ep_watch ep) of
                            (r, ws) \<Rightarrow> (r, s1\<lparr>epolls := (epolls s1)(k := ep\<lparr>ep_watch := ws\<rparr>)\<rparr>)))"

section \<open>Accounting of file references\<close>

text \<open>\<open>surplus s i\<close> is the number of counted references to open file \<open>i\<close> that no descriptor holds. The
  routines below are accounted for by how they change it: \<open>acct s d\<close> says that the bookkeeping of state
  \<open>s\<close> is consistent and its surplus is \<open>d\<close>.\<close>

definition surplus :: "'a kern_scheme \<Rightarrow> nat \<Rightarrow> int" where
  "surplus s i = int (fr_refs (file_refs s i)) - int (holders s i)"

definition files_ok :: "'a kern_scheme \<Rightarrow> bool" where
  "files_ok s \<longleftrightarrow> (\<forall>i. fr_used (file_refs s i) \<longleftrightarrow> 0 < fr_refs (file_refs s i)) \<and>
     (\<forall>i. EDGE_MAX_FILE_REFS \<le> i \<longrightarrow> fr_refs (file_refs s i) = 0) \<and>
     (\<forall>p i. fdp_pid (fd_procs s p) = 0 \<longrightarrow> 0 < i \<longrightarrow> table_holds (fds (fd_procs s p)) i = 0)"

definition acct :: "'a kern_scheme \<Rightarrow> (nat \<Rightarrow> int) \<Rightarrow> bool" where
  "acct s d \<longleftrightarrow> files_ok s \<and> (\<forall>i>0. surplus s i = d i)"

lemma acct_cong: "acct s d \<Longrightarrow> (\<And>i. 0 < i \<Longrightarrow> d i = d' i) \<Longrightarrow> acct s d'"
  by (simp add: acct_def)

lemma acct_same_files: "same_files s s' \<Longrightarrow> acct s' d = acct s d"
  by (simp add: acct_def files_ok_def surplus_def same_files_def holders_def)

lemma set_fd_other [simp]: "file_refs (set_fd p j e s) = file_refs s"
  "fd_procs (set_fd p j e s) = (fd_procs s)(p := (fd_procs s p)\<lparr>fds := (fds (fd_procs s p))(j := e)\<rparr>)"
  by (simp_all add: set_fd_def upd_fds_def)

lemma surplus_files:
  "surplus (s\<lparr>file_refs := f\<rparr>) i = surplus s i + int (fr_refs (f i)) - int (fr_refs (file_refs s i))"
  by (simp add: surplus_def holders_def)

definition own :: "nat \<Rightarrow> 'a kern_scheme \<Rightarrow> bool" where
  "own p s \<longleftrightarrow> p < EDGE_MAX_FD_PROCS \<and> fdp_pid (fd_procs s p) \<noteq> 0"

lemma acct_set_fd:
  assumes "acct s d" "own p s" "j < EDGE_MAX_FD"
  shows "acct (set_fd p j e s) (\<lambda>i. d i + int (holds (fds (fd_procs s p) j) i) - int (holds e i))"
proof -
  have p: "p < EDGE_MAX_FD_PROCS" using assms(2) by (simp add: own_def)
  have "surplus (set_fd p j e s) i = surplus s i + int (holds (fds (fd_procs s p) j) i) - int (holds e i)" for i
    using holders_fd_upd [OF p assms(3), of e s i] by (simp add: surplus_def) (simp add: set_fd_def)
  then show ?thesis using assms(1,2) by (auto simp: acct_def files_ok_def own_def)
qed

lemma acct_alloc:
  assumes "acct s d" "file_ref_alloc s = (r, s')"
  shows "fd_procs s' = fd_procs s" "acct s' (\<lambda>i. d i + (if r = i then 1 else 0))"
proof -
  have "fd_procs s' = fd_procs s \<and> acct s' (\<lambda>i. d i + (if r = i then 1 else 0))"
  proof (cases "r = 0")
    case True
    then have "s' = s" using assms(2) by (auto simp: file_ref_alloc_def split: option.splits dest: first_idx_SomeD)
    then show ?thesis using assms(1) True by (auto elim: acct_cong)
  next
    case False
    then have r: "r < EDGE_MAX_FILE_REFS" "\<not> fr_used (file_refs s r)" "s' = s\<lparr>file_refs := (file_refs s)(r := \<lparr>fr_used = True, fr_refs = 1\<rparr>)\<rparr>"
      using assms(2) by (auto simp: file_ref_alloc_def split: option.splits dest: first_idx_SomeD)
    have "fr_refs (file_refs s r) = 0" using assms(1) r(2) by (auto simp: acct_def files_ok_def)
    then show ?thesis
      using assms(1) r(1) by (auto simp: acct_def files_ok_def surplus_files r(3))
  qed
  then show "fd_procs s' = fd_procs s" "acct s' (\<lambda>i. d i + (if r = i then 1 else 0))" by auto
qed

lemma acct_get:
  assumes "acct s d" "file_ref_get r s = (v, s')"
  shows "fd_procs s' = fd_procs s" "acct s' (\<lambda>i. d i + (if r = i \<and> 0 \<le> v then 1 else 0))"
  using assms by (auto simp: file_ref_get_def file_ref_ok_def acct_def files_ok_def surplus_files split: if_splits)

lemma acct_put:
  assumes "acct s d" "file_ref_put r s = (v, s')"
  shows "fd_procs s' = fd_procs s" "acct s' (\<lambda>i. d i - (if r = i \<and> file_ref_ok r s then 1 else 0))"
  using assms
  by (auto simp: file_ref_put_def file_ref_ok_def acct_def files_ok_def surplus_files Let_def split: if_splits)


subsection \<open>Descriptor tables\<close>

lemma own_procs: "fd_procs s' = fd_procs s \<Longrightarrow> own p s' = own p s"
  by (simp add: own_def)

lemma own_set_fd [simp]: "own p (set_fd q j e s) = own p s"
  by (auto simp: own_def)

lemma own_same_files: "same_files s s' \<Longrightarrow> own p s' = own p s"
  by (simp add: own_def same_files_def)

lemma holds_free: "\<not> fd_used e \<or> file_ref e = 0 \<Longrightarrow> 0 < i \<Longrightarrow> holds e i = 0"
  by (auto simp: holds_def)

lemma ensure_one_acct:
  assumes "acct (snd r) d" "own p (snd r)" "j < EDGE_MAX_FD"
  shows "acct (snd (ensure_one p j fl r)) d \<and> own p (snd (ensure_one p j fl r)) \<and>
    fdp_pid (fd_procs (snd (ensure_one p j fl r)) p) = fdp_pid (fd_procs (snd r) p)"
proof -
  obtain go s where r: "r = (go, s)" by fastforce
  obtain k s1 where al: "file_ref_alloc s = (k, s1)" by fastforce
  have "acct s d" "own p s" using assms(1,2) r by simp_all
  note a = acct_alloc [OF this(1) al]
  have o: "own p s1" using own_procs [OF a(1)] \<open>own p s\<close> by simp
  show ?thesis
  proof (cases "go \<and> \<not> fd_used (fds (fd_procs s p) j)")
    case True
    let ?e = "stdio_fd k fl (fds (fd_procs s p) j)"
    have eq: "ensure_one p j fl r = (if k = 0 then (False, s1) else (True, set_fd p j ?e s1))"
      using True al a(1) by (simp add: ensure_one_def r set_fd_def upd_fds_def)
    show ?thesis
    proof (cases "k = 0")
      case True
      then show ?thesis using a o eq r by (auto elim: acct_cong)
    next
      case False
      have "acct (set_fd p j ?e s1) d"
        by (rule acct_cong [OF acct_set_fd [OF a(2) o assms(3)]])
          (use True a(1) in \<open>auto simp: holds_def stdio_fd_def\<close>)
      then show ?thesis using False eq o a(1) r by simp
    qed
  qed (use assms r in \<open>auto simp: ensure_one_def\<close>)
qed

lemma ensure_stdio_acct:
  assumes "acct s d" "own p s"
  shows "acct (fd_ensure_stdio p s) d \<and> own p (fd_ensure_stdio p s) \<and>
    fdp_pid (fd_procs (fd_ensure_stdio p s) p) = fdp_pid (fd_procs s p)"
proof -
  have fd: "0 < EDGE_MAX_FD" "1 < EDGE_MAX_FD" "2 < EDGE_MAX_FD" by (simp_all add: EDGE_MAX_FD_def)
  have a: "acct (snd (ensure_one p 0 0 (True, s))) d \<and> own p (snd (ensure_one p 0 0 (True, s))) \<and>
      fdp_pid (fd_procs (snd (ensure_one p 0 0 (True, s))) p) = fdp_pid (fd_procs s p)"
    using ensure_one_acct [of "(True, s)" d p 0 0] assms fd by simp
  show ?thesis
    using ensure_one_acct [OF conjunct1 conjunct1 [OF conjunct2] fd(2), OF a a, of LINUX_O_WRONLY] a
      ensure_one_acct [of "ensure_one p 1 LINUX_O_WRONLY (ensure_one p 0 0 (True, s))" d p 2 LINUX_O_WRONLY] fd(3)
    by (simp add: fd_ensure_stdio_def)
qed

lemma with_stdio_acct:
  assumes "acct s d" "process_getpid s \<noteq> 0" "fd_proc_with_stdio s = (r, s')"
  shows "acct s' d" "r = Some p \<Longrightarrow> own p s' \<and> fdp_pid (fd_procs s' p) = process_getpid s"
proof -
  have new: "acct s1 d \<and> (\<forall>p. r1 = Some p \<longrightarrow> own p s1 \<and> fdp_pid (fd_procs s1 p) = process_getpid s)"
    if f: "fd_proc_for_pid (process_getpid s) True s = (r1, s1)" for r1 s1
  proof (cases "fd_proc_find (process_getpid s) s")
    case (Some q)
    then show ?thesis using f assms(1,2) proc_find_bound [OF Some] by (auto simp: fd_proc_for_pid_def own_def)
  next
    case None
    show ?thesis
    proof (cases "fd_proc_find 0 s")
      case (Some f')
      let ?z = "s\<lparr>fd_procs := (fd_procs s)(f' := zero_fd_proc\<lparr>fdp_pid := process_getpid s\<rparr>)\<rparr>"
      note fb = proc_find_bound [OF Some]
      have "surplus ?z i = surplus s i" if "0 < i" for i
        using holders_proc_upd [of f' s "zero_fd_proc\<lparr>fdp_pid := process_getpid s\<rparr>" i] fb assms(1) that
        by (simp add: surplus_def acct_def files_ok_def zero_fd_proc_def)
      then have "acct ?z d" using assms(1,2) by (auto simp: acct_def files_ok_def)
      moreover have "own f' ?z" using fb assms(2) by (simp add: own_def)
      ultimately show ?thesis
        using ensure_stdio_acct [of ?z d f'] f None Some by (auto simp: fd_proc_for_pid_def)
    qed (use None f assms(1) in \<open>simp add: fd_proc_for_pid_def\<close>)
  qed
  obtain r1 s1 where f: "fd_proc_for_pid (process_getpid s) True s = (r1, s1)" by fastforce
  have "acct s' d \<and> (r = Some p \<longrightarrow> own p s' \<and> fdp_pid (fd_procs s' p) = process_getpid s)"
    using new [OF f] assms(3) f ensure_stdio_acct [of s1 d]
    by (auto simp: fd_proc_with_stdio_def split: option.splits)
  then show "acct s' d" "r = Some p \<Longrightarrow> own p s' \<and> fdp_pid (fd_procs s' p) = process_getpid s" by auto
qed

subsection \<open>Frames\<close>

lemma getpid_same_sched: "same_sched s s' \<Longrightarrow> process_getpid s' = process_getpid s"
  by (auto simp: process_getpid_def process_current_task_def scheduler_current_task_def scheduler_cpu_local_def
      scheduler_cpu_id_def same_sched_def split: option.split)

lemma ensure_one_frame:
  "same_sched (snd r) (snd (ensure_one p j fl r)) \<and>
   (\<forall>q. fdp_pid (fd_procs (snd (ensure_one p j fl r)) q) = fdp_pid (fd_procs (snd r) q))"
proof -
  obtain go s where r: "r = (go, s)" by fastforce
  obtain k s1 where al: "file_ref_alloc s = (k, s1)" by fastforce
  have "same_sched s s1" using same_sched_objects(10) [of s] al by simp
  moreover have "fd_procs s1 = fd_procs s" using al by (auto simp: file_ref_alloc_def split: option.splits)
  ultimately show ?thesis
    by (auto simp: ensure_one_def r al upd_fds_def same_sched_def Let_def)
qed

lemma ensure_stdio_frame:
  "same_sched s (fd_ensure_stdio p s) \<and> (\<forall>q. fdp_pid (fd_procs (fd_ensure_stdio p s) q) = fdp_pid (fd_procs s q))"
  using ensure_one_frame [of "(True, s)" p 0 0]
    ensure_one_frame [of "ensure_one p 0 0 (True, s)" p 1 LINUX_O_WRONLY]
    ensure_one_frame [of "ensure_one p 1 LINUX_O_WRONLY (ensure_one p 0 0 (True, s))" p 2 LINUX_O_WRONLY]
  unfolding fd_ensure_stdio_def by (auto intro: same_sched_trans)

lemma find_by_pids: "(\<And>q. fdp_pid (fd_procs s' q) = fdp_pid (fd_procs s q)) \<Longrightarrow> fd_proc_find k s' = fd_proc_find k s"
  by (simp add: fd_proc_find_def)

lemma with_stdio_frame:
  assumes "fd_proc_with_stdio s = (r, s')" "process_getpid s \<noteq> 0"
  shows "process_getpid s' = process_getpid s" "r = Some p \<Longrightarrow> fd_proc_find (process_getpid s) s' = Some p"
proof -
  let ?q = "process_getpid s"
  have new: "same_sched s s1 \<and> (\<forall>p. r1 = Some p \<longrightarrow> fd_proc_find ?q s1 = Some p)"
    if f: "fd_proc_for_pid ?q True s = (r1, s1)" for r1 s1
  proof (cases "fd_proc_find ?q s")
    case None
    show ?thesis
    proof (cases "fd_proc_find 0 s")
      case (Some k)
      let ?z = "s\<lparr>fd_procs := (fd_procs s)(k := zero_fd_proc\<lparr>fdp_pid := ?q\<rparr>)\<rparr>"
      have s1: "r1 = Some k" "s1 = fd_ensure_stdio k ?z" using f None Some by (auto simp: fd_proc_for_pid_def)
      have "fd_proc_find ?q ?z = Some k"
        using None proc_find_bound [OF Some] unfolding fd_proc_find_def first_idx_Some first_idx_None by auto
      then show ?thesis
        using ensure_stdio_frame [of ?z k] find_by_pids [of s1 ?z ?q] s1 by (simp add: same_sched_def)
    qed (use None f in \<open>simp add: fd_proc_for_pid_def\<close>)
  qed (use f in \<open>auto simp: fd_proc_for_pid_def\<close>)
  obtain r1 s1 where f: "fd_proc_for_pid ?q True s = (r1, s1)" by fastforce
  have "same_sched s s' \<and> (r = Some p \<longrightarrow> fd_proc_find ?q s' = Some p)"
    using new [OF f] assms(1) f ensure_stdio_frame [of s1] find_by_pids [of s' s1 ?q]
    by (auto simp: fd_proc_with_stdio_def split: option.splits intro: same_sched_trans)
  then show "process_getpid s' = ?q" "r = Some p \<Longrightarrow> fd_proc_find ?q s' = Some p"
    using getpid_same_sched by auto
qed

subsection \<open>The calls\<close>

lemma fd_get_Some: "fd_get p fd s = Some e \<longleftrightarrow>
    0 \<le> fd \<and> nat fd < EDGE_MAX_FD \<and> fd_used (fds (fd_procs s p) (nat fd)) \<and> e = fds (fd_procs s p) (nat fd)"
  by (auto simp: fd_get_def in_range_def)

lemma fd_alloc_acct:
  assumes "acct s d" "own p s" "fd_alloc p m s = (fd, s')"
  shows "acct s' d" "own p s'" "0 \<le> fd \<Longrightarrow> nat fd < EDGE_MAX_FD \<and> fds (fd_procs s' p) (nat fd) = zero_fd\<lparr>fd_used := True\<rparr>"
    "\<And>j. 0 \<le> fd \<Longrightarrow> fd_used (fds (fd_procs s p) j) \<Longrightarrow> j \<noteq> nat fd \<and> fds (fd_procs s' p) j = fds (fd_procs s p) j"
    "fd < 0 \<Longrightarrow> s' = s"
proof -
  consider "fd = -1" "s' = s"
    | i where "fd = int i" "i < EDGE_MAX_FD" "\<not> fd_used (fds (fd_procs s p) i)" "s' = set_fd p i (zero_fd\<lparr>fd_used := True\<rparr>) s"
  proof (cases "first_idx (\<lambda>i. \<not> fd_used (fds (fd_procs s p) i)) (nat m) EDGE_MAX_FD")
    case None
    then show ?thesis using that(1) assms(3) by (simp add: fd_alloc_def)
  next
    case (Some i)
    then show ?thesis using that(2) [of i] assms(3) first_idx_SomeD [OF Some] by (simp add: fd_alloc_def set_fd_def)
  qed
  note c = this
  show "acct s' d"
    using c
  proof cases
    case 2
    show ?thesis unfolding 2(4)
      by (rule acct_cong [OF acct_set_fd [OF assms(1,2) 2(2)]]) (use 2(3) in \<open>auto simp: holds_def zero_fd_def\<close>)
  qed (use assms in simp)
  show "own p s'" using c assms(2) by cases auto
  show "0 \<le> fd \<Longrightarrow> nat fd < EDGE_MAX_FD \<and> fds (fd_procs s' p) (nat fd) = zero_fd\<lparr>fd_used := True\<rparr>" using c by cases auto
  show "0 \<le> fd \<Longrightarrow> fd_used (fds (fd_procs s p) j) \<Longrightarrow> j \<noteq> nat fd \<and> fds (fd_procs s' p) j = fds (fd_procs s p) j" for j
    using c by cases auto
  show "fd < 0 \<Longrightarrow> s' = s" using c by cases auto
qed

text \<open>Writing a slot that holds no reference, with a reference that has been taken for it.\<close>

lemma acct_fill_slot:
  assumes "acct s d" "own p s" "j < EDGE_MAX_FD" "\<And>i. 0 < i \<Longrightarrow> holds (fds (fd_procs s p) j) i = 0"
  shows "acct (set_fd p j e s) (\<lambda>i. d i - int (holds e i))"
  by (rule acct_cong [OF acct_set_fd [OF assms(1-3)]]) (use assms(4) in simp)

lemma copy_fd_acct:
  assumes "acct s d" "own p s" "j < EDGE_MAX_FD" "\<And>i. 0 < i \<Longrightarrow> holds (fds (fd_procs s p) j) i = 0" "fd_used e"
    and "copy_fd p j e fl s = (r, s')"
  shows "acct s' d"
proof -
  let ?s1 = "set_fd p j e s"
  have a: "acct ?s1 (\<lambda>i. d i - int (holds e i))" by (rule acct_fill_slot [OF assms(1-4)])
  obtain v s2 where g: "(if file_ref e = 0 then (-1, ?s1) else file_ref_get (file_ref e) ?s1) = (v, s2)" by fastforce
  have b: "fd_procs s2 = fd_procs ?s1" "acct s2 (\<lambda>i. d i - int (holds e i) + (if file_ref e = i \<and> 0 \<le> v then 1 else 0))"
    using acct_get [OF a, of "file_ref e" v s2] g a by (auto split: if_splits elim: acct_cong)
  have o: "own p s2" using own_procs [OF b(1)] assms(2) by simp
  have z: "acct (set_fd p j x s2) (\<lambda>i. d i + (if file_ref e = i \<and> 0 \<le> v then 1 else 0) - int (holds x i))" for x
    by (rule acct_cong [OF acct_set_fd [OF b(2) o assms(3)]]) (simp add: b(1))
  show ?thesis
  proof (cases "v < 0")
    case True
    then have "s' = set_fd p j zero_fd s2" using assms(6) g by (simp add: copy_fd_def Let_def)
    then show ?thesis using z [of zero_fd] True by (auto elim: acct_cong)
  next
    case False
    then have s': "s' = add_object e (set_fd p j (e\<lparr>fd_flags := fl\<rparr>) s2)" using assms(6) g by (simp add: copy_fd_def Let_def)
    have "acct (set_fd p j (e\<lparr>fd_flags := fl\<rparr>) s2) d"
      by (rule acct_cong [OF z]) (use False assms(5) in \<open>auto simp: holds_def\<close>)
    then show ?thesis using acct_same_files [OF add_object_files] s' by blast
  qed
qed

lemma fb_release_files [simp]: "same_files s (fb_release e s)"
  by (simp add: fb_release_def same_files_def)

lemma held_ref_ok:
  assumes "acct s d" "\<And>i. 0 < i \<Longrightarrow> 0 \<le> d i" "own p s" "j < EDGE_MAX_FD" "fds (fd_procs s p) j = e" "fd_used e" "0 < file_ref e"
  shows "file_ref_ok (file_ref e) s"
proof -
  have "holds e (file_ref e) \<le> table_holds (fds (fd_procs s p)) (file_ref e)"
    unfolding table_holds_def assms(5) [symmetric] by (rule member_le_sum) (use assms(4) in simp_all)
  also have "\<dots> \<le> holders s (file_ref e)" using holders_ge_table [of p s "file_ref e"] assms(3) by (simp add: own_def)
  finally have "1 \<le> holders s (file_ref e)" using assms(6) by (simp add: holds_def)
  moreover have "0 \<le> surplus s (file_ref e)" using assms(1,2,7) by (simp add: acct_def)
  ultimately have "0 < fr_refs (file_refs s (file_ref e))" by (simp add: surplus_def)
  then show ?thesis
    using assms(1,7) unfolding file_ref_ok_def acct_def files_ok_def by (metis gr_implies_not0 not_less)
qed

lemma drop_slot_acct:
  assumes "acct s d" "\<And>i. 0 < i \<Longrightarrow> 0 \<le> d i" "own p s" "j < EDGE_MAX_FD" "fds (fd_procs s p) j = e" "fd_used e"
  shows "acct (set_fd p j zero_fd (fb_release e (drop_fd e s))) d"
    "fd_procs (fb_release e (drop_fd e s)) = fd_procs s"
proof -
  let ?s1 = "if 0 < file_ref e then snd (file_ref_put (file_ref e) s) else s"
  have a: "fd_procs ?s1 = fd_procs s" "acct ?s1 (\<lambda>i. d i - int (holds e i))" if "0 < file_ref e"
    using acct_put [OF assms(1) prod.collapse [symmetric], of "file_ref e"] held_ref_ok [OF assms that] that assms(6)
    by (auto simp: holds_def elim!: acct_cong)
  have b: "fd_procs ?s1 = fd_procs s" "acct ?s1 (\<lambda>i. d i - int (holds e i))"
    using a assms(1) by (cases "0 < file_ref e"; auto simp: holds_def elim!: acct_cong)+
  have sf: "same_files ?s1 (fb_release e (drop_fd e s))"
    using same_files_trans [OF drop_object_files [of ?s1 e] fb_release_files [of "drop_object e ?s1" e]] assms(6)
    by (simp add: drop_fd_def)
  then show pr: "fd_procs (fb_release e (drop_fd e s)) = fd_procs s" using b(1) by (simp add: same_files_def)
  have "acct (fb_release e (drop_fd e s)) (\<lambda>i. d i - int (holds e i))" using acct_same_files [OF sf] b(2) by simp
  then show "acct (set_fd p j zero_fd (fb_release e (drop_fd e s))) d"
    by (rule acct_cong [OF acct_set_fd]) (use assms(3-5) own_procs [OF pr] pr in auto)
qed


lemma close_acct:
  assumes "acct s d" "\<And>i. 0 < i \<Longrightarrow> 0 \<le> d i" "process_getpid s \<noteq> 0"
  shows "acct (snd (do_sys_close fd_u s)) d"
proof (cases "fd_proc_find (process_getpid s) s")
  case (Some p)
  have o: "own p s" using proc_find_bound [OF Some] assms(3) by (simp add: own_def)
  show ?thesis
  proof (cases "fd_get p (c_int_of fd_u) s")
    case (Some e)
    then have "acct (set_fd p (nat (c_int_of fd_u)) zero_fd (fb_release e (drop_fd e s))) d"
      by (intro drop_slot_acct(1) [OF assms(1,2) o]) (auto simp: fd_get_Some)
    then show ?thesis
      using \<open>fd_proc_find _ s = Some p\<close> Some by (simp add: do_sys_close_def fd_proc_for_pid_def)
  qed (use Some assms(1) in \<open>simp add: do_sys_close_def fd_proc_for_pid_def\<close>)
qed (use assms(1) in \<open>simp add: do_sys_close_def fd_proc_for_pid_def\<close>)

lemma close_clears:
  assumes "fd_proc_find (process_getpid s) s = Some p" "own p s" "acct s d" "\<And>i. 0 < i \<Longrightarrow> 0 \<le> d i"
    and "0 \<le> c_int_of fd_u" "nat (c_int_of fd_u) < EDGE_MAX_FD" "fd_used (fds (fd_procs s p) (nat (c_int_of fd_u)))"
  shows "fd_procs (snd (do_sys_close fd_u s)) =
    (fd_procs s)(p := (fd_procs s p)\<lparr>fds := (fds (fd_procs s p))(nat (c_int_of fd_u) := zero_fd)\<rparr>)"
proof -
  have "fd_get p (c_int_of fd_u) s = Some (fds (fd_procs s p) (nat (c_int_of fd_u)))"
    using assms(5-7) by (simp add: fd_get_Some)
  then show ?thesis
    using assms(1) drop_slot_acct(2) [OF assms(3,4,2,6) refl assms(7)] by (simp add: do_sys_close_def fd_proc_for_pid_def)
qed

lemma fd_here_acct:
  assumes "acct s d" "process_getpid s \<noteq> 0" "fd_here fd s = (r, s1)"
  shows "acct s1 d" "process_getpid s1 = process_getpid s"
    "r = Some (p, e) \<Longrightarrow> own p s1 \<and> 0 \<le> fd \<and> nat fd < EDGE_MAX_FD \<and> fd_used e \<and> fds (fd_procs s1 p) (nat fd) = e \<and>
       fd_proc_find (process_getpid s) s1 = Some p"
proof -
  obtain q s2 where w: "fd_proc_with_stdio s = (q, s2)" by fastforce
  have s1: "s1 = s2" using assms(3) w by (auto simp: fd_here_def split: option.splits)
  show "acct s1 d" "process_getpid s1 = process_getpid s"
    using with_stdio_acct(1) [OF assms(1,2) w] with_stdio_frame(1) [OF w assms(2)] s1 by auto
  assume "r = Some (p, e)"
  then have "q = Some p" "fd_get p fd s1 = Some e" using assms(3) w by (auto simp: fd_here_def s1 split: option.splits)
  then show "own p s1 \<and> 0 \<le> fd \<and> nat fd < EDGE_MAX_FD \<and> fd_used e \<and> fds (fd_procs s1 p) (nat fd) = e \<and>
       fd_proc_find (process_getpid s) s1 = Some p"
    using with_stdio_acct(2) [OF assms(1,2) w] with_stdio_frame(2) [OF w assms(2)] s1 by (auto simp: fd_get_Some)
qed

text \<open>Changing the position or the flags of an open descriptor.\<close>

lemma acct_retouch:
  assumes "acct s d" "own p s" "j < EDGE_MAX_FD" "fds (fd_procs s p) j = e" "fd_used e' = fd_used e" "file_ref e' = file_ref e"
  shows "acct (set_fd p j e' s) d"
  by (rule acct_cong [OF acct_set_fd [OF assms(1-3)]]) (use assms(4-6) in \<open>simp add: holds_def\<close>)

lemma lseek_acct:
  assumes "acct s d" "process_getpid s \<noteq> 0"
  shows "acct (snd (do_sys_lseek fd_u off_u whence_u s)) d"
proof -
  obtain r s1 where h: "fd_here (c_int_of fd_u) s = (r, s1)" by fastforce
  note a = fd_here_acct [OF assms h]
  show ?thesis
  proof (cases r)
    case (Some pe)
    then obtain p e where r: "r = Some (p, e)" by (cases pe) auto
    note b = a(3) [OF r]
    have "acct (set_fd p (nat (c_int_of fd_u)) (e\<lparr>fd_pos := x\<rparr>) s1) d" for x
      by (rule acct_retouch [OF a(1)]) (use b in auto)
    then show ?thesis using a(1) by (auto simp: do_sys_lseek_def h r Let_def split: option.split)
  qed (use a(1) h in \<open>simp add: do_sys_lseek_def\<close>)
qed

lemma dup_fd_acct:
  assumes "acct s d" "own p s" "fd_used e"
  shows "acct (snd (dup_fd p e m c s)) d"
proof -
  obtain n s1 where f: "fd_alloc p m s = (n, s1)" by fastforce
  note a = fd_alloc_acct [OF assms(1,2) f]
  show ?thesis
  proof (cases "n < 0")
    case False
    have "acct (snd (copy_fd p (nat n) e fl s1)) d" for fl
      by (rule copy_fd_acct [OF a(1,2) _ _ assms(3) prod.collapse [symmetric]])
        (use a(3) False in \<open>auto simp: holds_def zero_fd_def\<close>)
    then show ?thesis using False by (simp add: dup_fd_def f)
  qed (use a(1) in \<open>simp add: dup_fd_def f\<close>)
qed

lemma fcntl_acct:
  assumes "acct s d" "process_getpid s \<noteq> 0"
  shows "acct (snd (snd (do_sys_fcntl fd_u cmd_u arg_u um s))) d"
proof -
  obtain r s1 where h: "fd_here (c_int_of fd_u) s = (r, s1)" by fastforce
  note a = fd_here_acct [OF assms h]
  show ?thesis
  proof (cases r)
    case (Some pe)
    then obtain p e where r: "r = Some (p, e)" by (cases pe) auto
    note b = a(3) [OF r]
    have dup: "acct (snd (dup_fd p e m c s1)) d" for m c using dup_fd_acct [OF a(1)] b by blast
    have touch: "acct (set_fd p (nat (c_int_of fd_u)) (e\<lparr>fd_flags := x\<rparr>) s1) d"
      "acct (set_fd p (nat (c_int_of fd_u)) (e\<lparr>fd_oflags := x\<rparr>) s1) d" for x
      by (rule acct_retouch [OF a(1)]; use b in auto)+
    have nb: "same_files u (set_nonblock e fl u)" for fl and u :: "'a kern_scheme"
      by (simp add: set_nonblock_def)
    have "acct (set_nonblock e fl u) d = acct u d" for fl and u :: "'a kern_scheme" by (rule acct_same_files [OF nb])
    then show ?thesis
      using a(1) dup touch by (auto simp: do_sys_fcntl_def h r Let_def split: option.split prod.split)
        (metis dup snd_conv)+
  qed (use a(1) h in \<open>simp add: do_sys_fcntl_def\<close>)
qed


lemma c_int_uret: "- (2 ^ 31) \<le> k \<Longrightarrow> k < 2 ^ 31 \<Longrightarrow> c_int_of (uret k) = k"
  unfolding c_int_of_def uret_def
  by transfer (simp add: signed_take_bit_take_bit signed_take_bit_int_eq_self)

lemma dup2_acct:
  assumes "acct s d" "\<And>i. 0 < i \<Longrightarrow> 0 \<le> d i" "process_getpid s \<noteq> 0"
  shows "acct (snd (do_sys_dup2 old_u new_u s)) d"
proof -
  obtain r s1 where h: "fd_here (c_int_of old_u) s = (r, s1)" by fastforce
  note a = fd_here_acct [OF assms(1,3) h]
  let ?n = "c_int_of new_u"
  show ?thesis
  proof (cases "r = None \<or> \<not> in_range ?n EDGE_MAX_FD \<or> c_int_of old_u = ?n")
    case False
    then obtain p e where r: "r = Some (p, e)" by auto
    note b = a(3) [OF r]
    have n: "0 \<le> ?n" "nat ?n < EDGE_MAX_FD" "c_int_of (uret ?n) = ?n"
      using False c_int_uret [of ?n] by (auto simp: in_range_def EDGE_MAX_FD_def)
    define s2 where "s2 = (if fd_used (fds (fd_procs s1 p) (nat ?n)) then snd (do_sys_close (uret ?n) s1) else s1)"
    have pid: "process_getpid s1 \<noteq> 0" using a(2) assms(3) by simp
    have s2: "acct s2 d" using close_acct [OF a(1) assms(2) pid] a(1) by (simp add: s2_def)
    have "own p s2 \<and> \<not> fd_used (fds (fd_procs s2 p) (nat ?n))"
      using close_clears [of s1 p d "uret ?n"] a(1,2) b assms(2) n
      by (auto simp: s2_def own_def)
    then have "acct (snd (copy_fd p (nat ?n) e fl s2)) d" for fl
      using copy_fd_acct [OF s2 _ n(2) _ _ prod.collapse [symmetric]] b by (auto simp: holds_def)
    then show ?thesis using False by (simp add: do_sys_dup2_def h r Let_def flip: s2_def)
  qed (use a(1) h in \<open>auto simp: do_sys_dup2_def Let_def split: option.split\<close>)
qed


lemma dup3_acct:
  assumes "acct s d" "\<And>i. 0 < i \<Longrightarrow> 0 \<le> d i" "process_getpid s \<noteq> 0" "process_getpid (snd (do_sys_dup2 old_u new_u s)) \<noteq> 0"
  shows "acct (snd (do_sys_dup3 old_u new_u flags_u s)) d"
proof -
  obtain v s1 where v: "do_sys_dup2 old_u new_u s = (v, s1)" by fastforce
  have s1: "acct s1 d" "process_getpid s1 \<noteq> 0" using dup2_acct [OF assms(1-3), of old_u new_u] assms(4) v by auto
  obtain r s2 where h: "fd_here (c_int_of v) s1 = (r, s2)" by fastforce
  note a = fd_here_acct [OF s1 h]
  have "acct (set_fd p (nat (c_int_of v)) (e\<lparr>fd_flags := x\<rparr>) s2) d" if "r = Some (p, e)" for p e x
    by (rule acct_retouch [OF a(1)]) (use a(3) [OF that] in auto)
  then show ?thesis
    using assms(1) s1 a(1) by (auto simp: do_sys_dup3_def v h Let_def split: option.split)
qed

text \<open>A new descriptor with a freshly counted reference.\<close>

lemma acct_new_end:
  assumes "acct s (\<lambda>i. d i + (if r = i then 1 else 0))" "own p s" "j < EDGE_MAX_FD"
    "fds (fd_procs s p) j = zero_fd\<lparr>fd_used := True\<rparr>"
  shows "acct (set_fd p j (end_fd k r obj ofl fl) s) d"
  by (rule acct_cong [OF acct_fill_slot [OF assms(1-3)]])
    (use assms(4) in \<open>auto simp: holds_def end_fd_def zero_fd_def\<close>)

lemma acct_free_blank:
  assumes "acct s d" "own p s" "j < EDGE_MAX_FD" "\<And>i. 0 < i \<Longrightarrow> holds (fds (fd_procs s p) j) i = 0"
  shows "acct (set_fd p j zero_fd s) d"
  by (rule acct_cong [OF acct_fill_slot [OF assms]]) simp_all

lemma special_fd_acct:
  assumes "acct s d" "process_getpid s \<noteq> 0"
  shows "acct (snd (alloc_special_fd k obj flags s)) d"
proof -
  obtain q s1 where w: "fd_proc_with_stdio s = (q, s1)" by fastforce
  note a = with_stdio_acct [OF assms w]
  show ?thesis
  proof (cases q)
    case (Some p)
    then have o: "own p s1" using a(2) by blast
    obtain fd s2 where f: "fd_alloc p 0 s1 = (fd, s2)" by fastforce
    note b = fd_alloc_acct [OF a(1) o f]
    obtain r s3 where g: "file_ref_alloc s2 = (r, s3)" by fastforce
    note c = acct_alloc [OF b(1) g]
    have o3: "own p s3" using own_procs [OF c(1)] b(2) by simp
    have "acct (set_fd p (nat fd) (end_fd k r obj x y) s3) d" if "0 \<le> fd" for x y
      by (rule acct_new_end [OF c(2) o3]) (use b(3) [OF that] c(1) in auto)
    moreover have "acct (set_fd p (nat fd) zero_fd s3) d" if "0 \<le> fd" "r = 0"
      by (rule acct_free_blank [OF acct_cong [OF c(2)] o3])
        (use b(3) [OF that(1)] c(1) that(2) in \<open>auto simp: holds_def zero_fd_def\<close>)
    ultimately show ?thesis using b(1) Some by (simp add: alloc_special_fd_def w f g)
  qed (use a(1) w in \<open>simp add: alloc_special_fd_def\<close>)
qed

lemma special_or_drop_acct:
  assumes "acct s d" "process_getpid s \<noteq> 0" "\<And>i u. same_files u (drop1 i u)"
  shows "acct (snd (special_or_drop k i flags drop1 s)) d"
  using special_fd_acct [OF assms(1,2), of k i flags] acct_same_files [OF assms(3)] assms(1)
  by (auto simp: special_or_drop_def split: prod.split)

lemma alloc_obj_files:
  "same_files s (snd (eventfd_alloc_obj v b s))" "same_files s (snd (timerfd_alloc_obj c s))"
  "same_files s (snd (signalfd_alloc_obj m s))" "same_files s (snd (epoll_alloc_obj s))" "same_files s (snd (pipe_alloc s))"
  by (simp_all add: same_files_def eventfd_alloc_obj_def timerfd_alloc_obj_def signalfd_alloc_obj_def epoll_alloc_obj_def
      pipe_alloc_def split: option.split)

lemma alloc_obj_sched:
  "same_sched s (snd (eventfd_alloc_obj v b s))" "same_sched s (snd (timerfd_alloc_obj c s))"
  "same_sched s (snd (signalfd_alloc_obj m s))" "same_sched s (snd (epoll_alloc_obj s))" "same_sched s (snd (pipe_alloc s))"
  by (simp_all add: same_sched_def eventfd_alloc_obj_def timerfd_alloc_obj_def signalfd_alloc_obj_def epoll_alloc_obj_def
      pipe_alloc_def split: option.split)

text \<open>Allocating an object and then a descriptor for it.\<close>

lemma create_acct:
  assumes "acct s d" "process_getpid s \<noteq> 0" "same_files s s1" "same_sched s s1" "\<And>i u. same_files u (drop1 i u)"
  shows "acct (snd (special_or_drop k i flags drop1 s1)) d"
  by (rule special_or_drop_acct) (use assms acct_same_files [OF assms(3)] getpid_same_sched [OF assms(4)] in auto)

lemma eventfd2_acct:
  "acct s d \<Longrightarrow> process_getpid s \<noteq> 0 \<Longrightarrow> acct (snd (do_sys_eventfd2 v f s)) d"
  by (auto simp: do_sys_eventfd2_def Let_def case_prod_beta intro!: create_acct alloc_obj_files alloc_obj_sched)

lemma timerfd_create_acct:
  "acct s d \<Longrightarrow> process_getpid s \<noteq> 0 \<Longrightarrow> acct (snd (do_sys_timerfd_create c f s)) d"
  by (auto simp: do_sys_timerfd_create_def Let_def case_prod_beta intro!: create_acct alloc_obj_files alloc_obj_sched)

lemma epoll_create1_acct:
  "acct s d \<Longrightarrow> process_getpid s \<noteq> 0 \<Longrightarrow> acct (snd (do_sys_epoll_create1 f s)) d"
  by (auto simp: do_sys_epoll_create1_def Let_def case_prod_beta intro!: create_acct alloc_obj_files alloc_obj_sched)


lemma signalfd4_acct:
  assumes "acct s d" "process_getpid s \<noteq> 0"
  shows "acct (snd (do_sys_signalfd4 fd_u mask_u siz_u flags_u um s)) d"
proof -
  obtain q s1 where w: "fd_proc_with_stdio s = (q, s1)" by fastforce
  note a = with_stdio_acct [OF assms w]
  have pid: "process_getpid s1 \<noteq> 0" using with_stdio_frame(1) [OF w assms(2)] assms(2) by simp
  have new: "acct (snd (special_or_drop FD_SIGNALFD (fst (signalfd_alloc_obj m s1)) fl signalfd_drop_ref (snd (signalfd_alloc_obj m s1)))) d" for m fl
    by (intro create_acct [OF a(1) pid]) (simp_all add: alloc_obj_files alloc_obj_sched)
  have upd: "acct (set_fd p (nat (c_int_of fd_u)) e' (s1\<lparr>signalfds := g\<rparr>)) d"
    if "q = Some p" "fd_get p (c_int_of fd_u) s1 = Some e" "fd_used e' = fd_used e" "file_ref e' = file_ref e" for p e e' g
  proof (rule acct_retouch)
    have sf: "same_files s1 (s1\<lparr>signalfds := g\<rparr>)" by (simp add: same_files_def)
    show "acct (s1\<lparr>signalfds := g\<rparr>) d" using acct_same_files [OF sf] a(1) by simp
    show "own p (s1\<lparr>signalfds := g\<rparr>)" using a(2) [OF that(1)] by (simp add: own_def)
  qed (use that in \<open>auto simp: fd_get_Some\<close>)
  show ?thesis
    using a(1) new upd
    by (auto simp: do_sys_signalfd4_def w Let_def case_prod_beta split: option.split Option.bind_split)
qed

lemma epoll_ctl_acct:
  assumes "acct s d" "process_getpid s \<noteq> 0"
  shows "acct (snd (do_sys_epoll_ctl ep_u op_u fd_u ev_u um s)) d"
proof -
  obtain r s1 where h: "fd_here (c_int_of ep_u) s = (r, s1)" by fastforce
  have "same_files s1 (s1\<lparr>epolls := g\<rparr>)" for g by (simp add: same_files_def)
  then have "acct (s1\<lparr>epolls := g\<rparr>) d" for g using acct_same_files fd_here_acct(1) [OF assms h] by blast
  then show ?thesis
    using fd_here_acct(1) [OF assms h] by (auto simp: do_sys_epoll_ctl_def h Let_def case_prod_beta split: option.split)
qed

lemma wipe_open_files: "same_files s (wipe_pipe i s)" "same_files s (open_ends i s)"
  by (simp_all add: wipe_pipe_def open_ends_def same_files_def)

lemma pipe_fds_acct:
  assumes "acct s d" "own p s"
  shows "acct (snd (pipe_fds p i flags s)) d"
proof -
  obtain rfd s1 where f: "fd_alloc p 0 s = (rfd, s1)" by fastforce
  note a = fd_alloc_acct [OF assms f]
  obtain wfd s2 where g: "fd_alloc p 0 s1 = (wfd, s2)" by fastforce
  note b = fd_alloc_acct [OF a(1,2) g]
  obtain r s3 where h: "file_ref_alloc s2 = (r, s3)" by fastforce
  note c = acct_alloc [OF b(1) h]
  define s4 where "s4 = set_fd p (nat rfd) (end_fd FD_PIPE_R r i (nonblock_of flags) (cloexec_of flags)) s3"
  obtain w s5 where k: "file_ref_alloc s4 = (w, s5)" by fastforce
  have wipe: "acct (wipe_pipe i u) d = acct u d" "acct (open_ends i u) d = acct u d" for u :: "'a kern_scheme"
    by (rule acct_same_files [OF wipe_open_files(1)], rule acct_same_files [OF wipe_open_files(2)])
  show ?thesis
  proof (cases "rfd < 0 \<or> wfd < 0")
    case True
    have blank: "nat rfd < EDGE_MAX_FD \<and> fds (fd_procs s2 p) (nat rfd) = zero_fd\<lparr>fd_used := True\<rparr>" if "0 \<le> rfd"
      using a(3) [OF that] b(4) [of "nat rfd"] b(5) by (cases "wfd < 0") auto
    have "acct (set_fd p (nat rfd) zero_fd s2) d" if "0 \<le> rfd"
      by (rule acct_free_blank [OF b(1,2)]) (use blank [OF that] in \<open>auto simp: holds_def zero_fd_def\<close>)
    then show ?thesis using True a(1) by (auto simp: pipe_fds_def f g wipe)
  next
    case False
    then have fd: "nat rfd < EDGE_MAX_FD" "nat wfd < EDGE_MAX_FD" "nat wfd \<noteq> nat rfd"
      "fds (fd_procs s2 p) (nat rfd) = zero_fd\<lparr>fd_used := True\<rparr>" "fds (fd_procs s2 p) (nat wfd) = zero_fd\<lparr>fd_used := True\<rparr>"
      using a(3) b(3) b(4) [of "nat rfd"] by auto
    have o3: "own p s3" using own_procs [OF c(1)] b(2) by simp
    have s4: "acct s4 d" unfolding s4_def by (rule acct_new_end [OF c(2) o3]) (use fd c(1) in auto)
    note e = acct_alloc [OF s4 k]
    have o5: "own p s5" "fds (fd_procs s5 p) (nat wfd) = zero_fd\<lparr>fd_used := True\<rparr>"
      "fds (fd_procs s5 p) (nat rfd) = end_fd FD_PIPE_R r i (nonblock_of flags) (cloexec_of flags)"
      using own_procs [OF e(1)] o3 fd c(1) by (simp_all add: s4_def e(1))
    have ok: "acct (set_fd p (nat wfd) (end_fd FD_PIPE_W w i x y) s5) d" for x y
      by (rule acct_new_end [OF e(2) o5(1)]) (use fd o5 in auto)
    have undo: "acct (set_fd p (nat wfd) zero_fd (set_fd p (nat rfd) zero_fd u)) d"
      if "acct u (\<lambda>j. d j - int (holds (fds (fd_procs u p) (nat rfd)) j))" "own p u"
        "fds (fd_procs u p) (nat wfd) = zero_fd\<lparr>fd_used := True\<rparr>" for u :: "'a kern_scheme"
    proof (rule acct_free_blank)
      show "acct (set_fd p (nat rfd) zero_fd u) d"
        by (rule acct_cong [OF acct_set_fd [OF that(1,2) fd(1)]]) simp
    qed (use that fd in \<open>auto simp: holds_def zero_fd_def\<close>)
    have u1: "acct (set_fd p (nat wfd) zero_fd (set_fd p (nat rfd) zero_fd s3)) d" if "r = 0"
      by (rule undo) (use c fd o3 that in \<open>auto simp: holds_def zero_fd_def elim!: acct_cong\<close>)
    show ?thesis
    proof (cases "r = 0 \<or> w \<noteq> 0")
      case True
      then show ?thesis
        using False u1 ok k by (auto simp: pipe_fds_def f g h Let_def wipe s4_def [symmetric])
    next
      case rw: False
      obtain v s6 where pt: "file_ref_put r s5 = (v, s6)" by fastforce
      have s5: "acct s5 d" using e(2) rw by (auto elim: acct_cong)
      have rok: "file_ref_ok r s5"
        using h k rw by (auto simp: file_ref_alloc_def file_ref_ok_def s4_def split: option.splits dest: first_idx_SomeD)
      note q = acct_put [OF s5 pt]
      have "acct (set_fd p (nat wfd) zero_fd (set_fd p (nat rfd) zero_fd s6)) d"
        by (rule undo) (use q o5 own_procs [OF q(1)] rok in \<open>auto simp: holds_def end_fd_def elim!: acct_cong\<close>)
      then show ?thesis
        using False rw k pt by (simp add: pipe_fds_def f g h Let_def wipe s4_def [symmetric])
    qed
  qed
qed

lemma set_fd_sched [simp]: "same_sched s (set_fd p j e s)"
  by (simp add: set_fd_def)

lemma fb_release_sched [simp]: "same_sched s (fb_release e s)"
  by (simp add: fb_release_def same_sched_def)

lemma add_object_sched [simp]: "same_sched s (add_object e s)"
  by (simp add: add_object_def same_sched_def eventfd_add_ref_def timerfd_add_ref_def signalfd_add_ref_def epoll_add_ref_def
      pty_add_ref_def socket_add_ref_def upd_sock_def Let_def split: edge_fd_kind.split)

lemma close_getpid [simp]: "process_getpid (snd (do_sys_close fd_u s)) = process_getpid s"
proof -
  have "same_sched s (set_fd p j z (fb_release e (drop_fd e s)))" for p j z e
    by (rule same_sched_trans [OF same_sched_trans [OF drop_fd_same_sched fb_release_sched] set_fd_sched])
  then show ?thesis
    by (intro getpid_same_sched) (auto simp: do_sys_close_def fd_proc_for_pid_def split: option.split)
qed

lemma copy_fd_getpid [simp]: "process_getpid (snd (copy_fd p j e fl s)) = process_getpid s"
proof (rule getpid_same_sched)
  let ?s1 = "set_fd p j e s"
  obtain v s2 where g: "(if file_ref e = 0 then (-1, ?s1) else file_ref_get (file_ref e) ?s1) = (v, s2)" by fastforce
  have "same_sched ?s1 s2" using g same_sched_objects(9) [of ?s1 "file_ref e"] by (metis prod.inject prod.collapse same_sched_refl)
  then have "same_sched s s2" by (rule same_sched_trans [OF set_fd_sched])
  then have "same_sched s (set_fd p j x s2)" for x by (rule same_sched_trans) simp
  then show "same_sched s (snd (copy_fd p j e fl s))"
    using g same_sched_trans [OF _ add_object_sched] by (auto simp: copy_fd_def Let_def)
qed

lemma dup2_getpid:
  assumes "acct s d" "process_getpid s \<noteq> 0"
  shows "process_getpid (snd (do_sys_dup2 old_u new_u s)) = process_getpid s"
proof -
  obtain r s1 where h: "fd_here (c_int_of old_u) s = (r, s1)" by fastforce
  show ?thesis using fd_here_acct(2) [OF assms h] by (auto simp: do_sys_dup2_def h Let_def split: option.split)
qed

lemma fsync_acct: "acct s d \<Longrightarrow> process_getpid s \<noteq> 0 \<Longrightarrow> acct (snd (do_sys_fsync fd_u s)) d"
  using fd_here_acct(1) by (fastforce simp: do_sys_fsync_def split: option.split prod.split)

lemma fd_alloc_sched: "same_sched s (snd (fd_alloc p m s))"
  by (simp add: fd_alloc_def same_sched_def upd_fds_def split: option.split)

lemma wipe_open_sched [simp]: "same_sched u (wipe_pipe i s) = same_sched u s" "same_sched u (open_ends i s) = same_sched u s"
  "same_sched u (set_fd p j e s) = same_sched u s"
  by (simp_all add: wipe_pipe_def open_ends_def set_fd_def upd_fds_def same_sched_def)

lemma pipe_fds_getpid: "process_getpid (snd (pipe_fds p i flags s)) = process_getpid s"
proof (rule getpid_same_sched)
  obtain rfd s1 where f: "fd_alloc p 0 s = (rfd, s1)" by fastforce
  obtain wfd s2 where g: "fd_alloc p 0 s1 = (wfd, s2)" by fastforce
  obtain r s3 where h: "file_ref_alloc s2 = (r, s3)" by fastforce
  define s4 where "s4 = set_fd p (nat rfd) (end_fd FD_PIPE_R r i (nonblock_of flags) (cloexec_of flags)) s3"
  obtain w s5 where k: "file_ref_alloc s4 = (w, s5)" by fastforce
  have a: "same_sched s s1" "same_sched s1 s2" "same_sched s2 s3" "same_sched s4 s5"
    using fd_alloc_sched [of s p 0] fd_alloc_sched [of s1 p 0] same_sched_objects(10) [of s2] same_sched_objects(10) [of s4]
    by (simp_all only: f g h k snd_conv)
  have s2: "same_sched s s2" "same_sched s s3" using a same_sched_trans by blast+
  then have "same_sched s s4" by (simp add: s4_def)
  then have s5: "same_sched s s5" by (rule same_sched_trans [OF _ a(4)])
  then have "same_sched s (snd (file_ref_put r s5))" by (rule same_sched_trans) simp
  then show "same_sched s (snd (pipe_fds p i flags s))"
    using a(1) s2 s5 k by (simp add: pipe_fds_def f g h Let_def flip: s4_def)
qed

lemma pipe_acct:
  assumes "acct s d" "\<And>i. 0 < i \<Longrightarrow> 0 \<le> d i" "process_getpid s \<noteq> 0"
  shows "acct (snd (snd (do_sys_pipe a_u flags_u um s))) d"
proof -
  obtain q s1 where w: "fd_proc_with_stdio s = (q, s1)" by fastforce
  note a = with_stdio_acct [OF assms(1,3) w]
  obtain i s2 where al: "pipe_alloc s1 = (i, s2)" by fastforce
  have fr: "same_files s1 s2" "same_sched s1 s2" using alloc_obj_files(5) [of s1] alloc_obj_sched(5) [of s1] al by simp_all
  have s2: "acct s2 d" "process_getpid s2 \<noteq> 0"
    using acct_same_files [OF fr(1)] getpid_same_sched [OF fr(2)] a(1) with_stdio_frame(1) [OF w assms(3)] assms(3) by simp_all
  show ?thesis
  proof (cases q)
    case (Some p)
    obtain ends s3 where pf: "pipe_fds p i (c_int_of flags_u) s2 = (ends, s3)" by fastforce
    have s3: "acct s3 d" "process_getpid s3 \<noteq> 0"
      using pipe_fds_acct [OF s2(1), of p i "c_int_of flags_u"] own_same_files [OF fr(1)] a(2) [OF Some]
        pipe_fds_getpid [of p i "c_int_of flags_u" s2] s2(2) pf by auto
    have "acct (snd (do_sys_close x (snd (do_sys_close y s3)))) d" for x y
      by (intro close_acct s3 assms(2)) (use s3(2) in simp_all)
    then show ?thesis
      using s2(1) s3(1) assms(1) by (auto simp: do_sys_pipe_def w al Some pf Let_def split: option.split)
  qed (use a(1) assms(1) w in \<open>simp add: do_sys_pipe_def Let_def\<close>)
qed

lemma release_acct:
  assumes "acct s d" "\<And>i. 0 < i \<Longrightarrow> 0 \<le> d i" "q \<noteq> 0"
  shows "acct (fd_proc_release q s) d"
proof (cases "fd_proc_find q s")
  case (Some p)
  have "0 \<le> surplus s i" if "0 < i" for i using assms(1) assms(2) [OF that] that by (simp add: acct_def)
  then have "holders s i \<le> fr_refs (file_refs s i)" if "0 < i" for i using that by (simp add: surplus_def)
  then have cov: "refs_cover s" using assms(1) by (simp add: refs_cover_def acct_def files_ok_def)
  note r = release_refs [OF cov Some] and pb = proc_find_bound [OF Some]
  have "holders (fd_proc_release q s) i + table_holds (fds (fd_procs s p)) i = holders s i" for i
    using holders_proc_upd [of p s zero_fd_proc i] r(1) pb by (simp add: holders_def zero_fd_proc_def)
  moreover have "table_holds (fds (fd_procs s p)) i \<le> fr_refs (file_refs s i)" if "0 < i" for i
    using holders_ge_table [of p s i] pb cov that unfolding refs_cover_def by (meson le_trans)
  ultimately have "surplus (fd_proc_release q s) i = surplus s i" if "0 < i" for i
    using r(2) [OF that] that unfolding surplus_def by (smt (verit) of_nat_add of_nat_diff)
  then show ?thesis
    using assms(1) r unfolding acct_def files_ok_def by (auto simp: zero_fd_proc_def EDGE_MAX_FILE_REFS_def)
qed (use assms(1) in \<open>simp add: fd_proc_release_def Let_def\<close>)

inductive fd_step :: "'a kern_scheme \<Rightarrow> 'a kern_scheme \<Rightarrow> bool" where
  close: "process_getpid s \<noteq> 0 \<Longrightarrow> fd_step s (snd (do_sys_close fd s))"
| fsync: "process_getpid s \<noteq> 0 \<Longrightarrow> fd_step s (snd (do_sys_fsync fd s))"
| lseek: "process_getpid s \<noteq> 0 \<Longrightarrow> fd_step s (snd (do_sys_lseek fd off whence s))"
| fcntl: "process_getpid s \<noteq> 0 \<Longrightarrow> fd_step s (snd (snd (do_sys_fcntl fd cmd arg um s)))"
| dup: "process_getpid s \<noteq> 0 \<Longrightarrow> fd_step s (snd (snd (do_sys_dup fd um s)))"
| dup2: "process_getpid s \<noteq> 0 \<Longrightarrow> fd_step s (snd (do_sys_dup2 oldfd newfd s))"
| dup3: "process_getpid s \<noteq> 0 \<Longrightarrow> fd_step s (snd (do_sys_dup3 oldfd newfd flags s))"
| pipe: "process_getpid s \<noteq> 0 \<Longrightarrow> fd_step s (snd (snd (do_sys_pipe pipefd flags um s)))"
| eventfd2: "process_getpid s \<noteq> 0 \<Longrightarrow> fd_step s (snd (do_sys_eventfd2 initval flags s))"
| eventfd: "process_getpid s \<noteq> 0 \<Longrightarrow> fd_step s (snd (do_sys_eventfd initval s))"
| timerfd_create: "process_getpid s \<noteq> 0 \<Longrightarrow> fd_step s (snd (do_sys_timerfd_create clockid flags s))"
| signalfd4: "process_getpid s \<noteq> 0 \<Longrightarrow> fd_step s (snd (do_sys_signalfd4 fd sigs siz flags um s))"
| signalfd: "process_getpid s \<noteq> 0 \<Longrightarrow> fd_step s (snd (do_sys_signalfd fd sigs siz um s))"
| epoll_create1: "process_getpid s \<noteq> 0 \<Longrightarrow> fd_step s (snd (do_sys_epoll_create1 flags s))"
| epoll_create: "process_getpid s \<noteq> 0 \<Longrightarrow> fd_step s (snd (do_sys_epoll_create siz s))"
| epoll_ctl: "process_getpid s \<noteq> 0 \<Longrightarrow> fd_step s (snd (do_sys_epoll_ctl epfd op fd ev um s))"
| release: "q \<noteq> 0 \<Longrightarrow> fd_step s (fd_proc_release q s)"
| other: "same_files s s' \<Longrightarrow> fd_step s s'"

lemma dup3_keeps:
  assumes "acct s d" "\<And>i. 0 < i \<Longrightarrow> 0 \<le> d i" "process_getpid s \<noteq> 0"
  shows "acct (snd (do_sys_dup3 old_u new_u flags_u s)) d"
  using dup3_acct [OF assms] dup2_getpid [OF assms(1,3)] assms(3) by simp

lemma fd_step_acct:
  assumes "fd_step s s'" "acct s d" "\<And>i. 0 < i \<Longrightarrow> 0 \<le> d i"
  shows "acct s' d"
  using assms(1)
proof cases
  case other
  then show ?thesis using acct_same_files assms(2) by blast
qed (auto simp: do_sys_dup_def do_sys_eventfd_def do_sys_signalfd_def do_sys_epoll_create_def assms(2)
    intro!: close_acct fsync_acct lseek_acct fcntl_acct dup2_acct dup3_keeps pipe_acct eventfd2_acct timerfd_create_acct
      signalfd4_acct epoll_create1_acct epoll_ctl_acct release_acct assms(2,3))


text \<open>
  C11: No system call leaks or loses an open file. Over any sequence of closes, seeks, duplications, pipe, event,
  timer, signal and epoll calls by any processes, process exits, and steps that touch neither descriptors nor file
  references, the reference counts and the descriptors change together: the references to an open file that
  no descriptor accounts for stay exactly those of the first state, whichever calls succeed, fail or undo
  themselves half-way, a file is in use exactly while it is referenced, and free tables hold nothing.
\<close>
theorem fd_calls_conserve:
  assumes "fd_step\<^sup>*\<^sup>* s s'" "files_ok s" "\<forall>i>0. 0 \<le> surplus s i"
  shows "files_ok s' \<and> (\<forall>i>0. surplus s' i = surplus s i)"
proof -
  have "acct s' (surplus s)"
    using assms(1)
  proof (induction rule: rtranclp_induct)
    case base
    then show ?case using assms(2) by (simp add: acct_def)
  next
    case (step u v)
    then show ?case using fd_step_acct assms(3) by blast
  qed
  then show ?thesis by (simp add: acct_def)
qed

lemma demo_open_files:
  "files_ok demo_open" "0 < i \<Longrightarrow> surplus demo_open i = 0" "process_getpid demo_open = 2"
proof -
  have h: "holders demo_open i = (if i = 1 then 1 else 0)" for i
    unfolding holders_def demo_open_table by (auto simp: EDGE_MAX_FD_PROCS_def sum.delta)
  have "table_holds (fds (fd_procs demo_open p)) i = 0" if "fdp_pid (fd_procs demo_open p) = 0" for p i
    using that unfolding demo_open_table by (auto simp: demo_open_def)
  then show "files_ok demo_open"
    using demo_open_cover by (simp add: files_ok_def refs_cover_def)
  show "0 < i \<Longrightarrow> surplus demo_open i = 0" by (simp add: surplus_def h) (simp add: demo_open_def)
  have "same_sched demo_kern demo_open" by (simp add: demo_open_def same_sched_def)
  then have "process_getpid demo_open = process_getpid demo_kern" by (rule getpid_same_sched)
  then show "process_getpid demo_open = 2"
    by (simp add: process_getpid_def demo_kern_inv(3) demo_kern_base demo_tree_facts)
qed

theorem fd_calls_conserve_witness:
  "files_ok (snd (do_sys_close 1 (snd (do_sys_dup2 1 5 demo_open)))) \<and>
   surplus (snd (do_sys_close 1 (snd (do_sys_dup2 1 5 demo_open)))) 3 = 0"
proof -
  let ?s = "snd (do_sys_dup2 1 5 demo_open)"
  have "acct demo_open (surplus demo_open)" using demo_open_files(1) by (simp add: acct_def)
  then have "process_getpid ?s = 2" using dup2_getpid [of demo_open "surplus demo_open" 1 5] demo_open_files(3) by simp
  then have "fd_step demo_open ?s" "fd_step ?s (snd (do_sys_close 1 ?s))"
    by (simp_all add: fd_step.dup2 fd_step.close demo_open_files(3))
  then have "fd_step\<^sup>*\<^sup>* demo_open (snd (do_sys_close 1 ?s))" by (rule converse_rtranclp_into_rtranclp [OF _ r_into_rtranclp])
  then have "files_ok (snd (do_sys_close 1 ?s)) \<and> (\<forall>i>0. surplus (snd (do_sys_close 1 ?s)) i = surplus demo_open i)"
    by (rule fd_calls_conserve) (simp_all add: demo_open_files)
  then show ?thesis by (simp add: demo_open_files)
qed

section \<open>The watch list of an epoll object\<close>

definition watch_map :: "edge_epoll_watch list \<Rightarrow> int \<rightharpoonup> u32 \<times> u64" where
  "watch_map ws = map_of (map (\<lambda>w. (w_fd w, w_events w, w_data w)) ws)"

definition watches_ok :: "edge_epoll_watch list \<Rightarrow> bool" where
  "watches_ok ws \<longleftrightarrow> distinct (map w_fd ws) \<and> length ws \<le> EDGE_EPOLL_MAX_WATCH"

text \<open>What \<^verbatim>\<open>epoll_ctl\<close> promises: a finite map from descriptors to an event mask and a datum, of bounded size.\<close>

definition watch_ctl :: "int \<Rightarrow> int \<Rightarrow> u32 \<times> u64 \<Rightarrow> (int \<rightharpoonup> u32 \<times> u64) \<Rightarrow> u64 \<times> (int \<rightharpoonup> u32 \<times> u64)" where
  "watch_ctl op fd v m =
     (if op = 1 then
        if fd \<in> dom m then (uerr EEXIST, m)
        else if card (dom m) = EDGE_EPOLL_MAX_WATCH then (uerr ENOMEM, m) else (0, m(fd \<mapsto> v))
      else if op = 3 then if fd \<in> dom m then (0, m(fd \<mapsto> v)) else (uerr ENOENT, m)
      else if op = 2 then if fd \<in> dom m then (0, m(fd := None)) else (uerr ENOENT, m)
      else (uerr EINVAL, m))"

lemma watch_map_dom: "dom (watch_map ws) = w_fd ` set ws"
  by (simp add: watch_map_def dom_map_of_conv_image_fst image_image)

lemma watch_map_card: "watches_ok ws \<Longrightarrow> card (dom (watch_map ws)) = length ws"
  by (simp add: watch_map_dom watches_ok_def distinct_card flip: set_map)

lemma watch_index_None: "watch_index ws fd = None \<longleftrightarrow> fd \<notin> dom (watch_map ws)"
  by (auto simp: watch_index_def first_idx_None watch_map_dom set_conv_nth)

lemma watch_index_Some: "watch_index ws fd = Some i \<Longrightarrow> i < length ws \<and> w_fd (ws ! i) = fd"
  by (auto simp: watch_index_def dest: first_idx_SomeD)

lemma watch_map_eqI:
  assumes "distinct (map w_fd ws)"
  shows "watch_map ws = m \<longleftrightarrow> (\<forall>w \<in> set ws. m (w_fd w) = Some (w_events w, w_data w)) \<and> dom m \<subseteq> w_fd ` set ws"
proof -
  have d: "distinct (map fst (map (\<lambda>w. (w_fd w, w_events w, w_data w)) ws))" using assms by (simp add: comp_def)
  have k: "watch_map ws (w_fd w) = Some (w_events w, w_data w)" if "w \<in> set ws" for w
    unfolding watch_map_def map_of_eq_Some_iff [OF d] using that by force
  show ?thesis
  proof
    assume r: "(\<forall>w \<in> set ws. m (w_fd w) = Some (w_events w, w_data w)) \<and> dom m \<subseteq> w_fd ` set ws"
    show "watch_map ws = m"
    proof
      fix x show "watch_map ws x = m x"
      proof (cases "x \<in> w_fd ` set ws")
        case True
        then show ?thesis using k r by auto
      next
        case False
        then have "x \<notin> dom (watch_map ws)" "x \<notin> dom m" using r watch_map_dom by auto
        then show ?thesis by (metis domIff)
      qed
    qed
  qed (use k in \<open>simp add: watch_map_dom [symmetric]; blast\<close>)
qed

lemma watch_mod:
  assumes "distinct (map w_fd ws)" "i < length ws"
  shows "map w_fd (ws[i := (ws ! i)\<lparr>w_events := ev, w_data := dat\<rparr>]) = map w_fd ws"
    "watch_map (ws[i := (ws ! i)\<lparr>w_events := ev, w_data := dat\<rparr>]) = (watch_map ws)(w_fd (ws ! i) \<mapsto> (ev, dat))"
proof -
  let ?w = "(ws ! i)\<lparr>w_events := ev, w_data := dat\<rparr>"
  show m: "map w_fd (ws[i := ?w]) = map w_fd ws"
    using assms(2) by (simp add: map_update list_update_same_conv)
  have d: "dom (watch_map ws) = w_fd ` set (ws[i := ?w])"
    unfolding watch_map_dom by (metis m list.set_map)
  have "w_fd w \<noteq> w_fd (ws ! i)" if "w \<in> set (ws[i := ?w])" "w \<noteq> ?w" for w
    using that assms by (auto simp: in_set_conv_nth nth_list_update distinct_conv_nth split: if_splits)
  moreover have "watch_map ws (w_fd w) = Some (w_events w, w_data w)" if "w \<in> set (ws[i := ?w])" "w \<noteq> ?w" for w
    using watch_map_eqI [OF assms(1), of "watch_map ws"] that set_update_subset_insert [of ws i ?w] by auto
  ultimately have "((watch_map ws)(w_fd (ws ! i) \<mapsto> (ev, dat))) (w_fd w) = Some (w_events w, w_data w)" if "w \<in> set (ws[i := ?w])" for w
    using that by (cases "w = ?w") auto
  moreover have "dom ((watch_map ws)(w_fd (ws ! i) \<mapsto> (ev, dat))) \<subseteq> w_fd ` set (ws[i := ?w])"
    using assms(2) d watch_map_dom [of ws] by auto
  ultimately show "watch_map (ws[i := ?w]) = (watch_map ws)(w_fd (ws ! i) \<mapsto> (ev, dat))"
    using assms(1) m by (subst watch_map_eqI) (simp, blast)
qed

lemma watch_del:
  assumes "distinct (map w_fd ws)" "i < length ws"
  defines "ws' \<equiv> butlast (ws[i := ws ! (length ws - 1)])"
  shows "distinct (map w_fd ws')" "watch_map ws' = (watch_map ws)(w_fd (ws ! i) := None)"
proof -
  obtain xs x where ws: "ws = xs @ [x]" using assms(2) by (metis append_butlast_last_id less_nat_zero_code list.size(3))
  consider "i = length xs" | "i < length xs" using assms(2) ws by (auto simp: less_Suc_eq)
  then have "distinct (map w_fd ws') \<and> set ws' = set ws - {ws ! i}"
  proof cases
    case 1
    then show ?thesis using assms(1) by (auto simp: ws'_def ws butlast_append list_update_append image_iff)
  next
    case 2
    then have e: "ws' = xs[i := x]" by (simp add: ws'_def ws list_update_append nth_append)
    have "map w_fd ws' = (map w_fd xs)[i := w_fd x]" by (simp add: e map_update)
    moreover have "set ws' = insert x (set xs - {xs ! i})"
      using assms(1) 2 unfolding e by (subst set_update_distinct) (auto simp: ws distinct_map)
    ultimately show ?thesis
      using assms(1) 2 by (auto simp: ws nth_append distinct_map intro!: distinct_list_update)
  qed
  note s = this
  then show d: "distinct (map w_fd ws')" by simp
  have "w_fd w \<noteq> w_fd (ws ! i)" if "w \<in> set ws - {ws ! i}" for w
    using that assms(1,2) by (auto simp: distinct_map dest: inj_onD)
  then show "watch_map ws' = (watch_map ws)(w_fd (ws ! i) := None)"
    using s watch_map_eqI [OF assms(1), of "watch_map ws"] by (subst watch_map_eqI [OF d]) (auto simp: watch_map_dom)
qed

lemma epoll_update_refines:
  assumes "watches_ok ws" "epoll_update op fd ev dat ws = (r, ws')"
  shows "watches_ok ws' \<and> watch_ctl op fd (ev, dat) (watch_map ws) = (r, watch_map ws')"
proof -
  have d: "distinct (map w_fd ws)" "length ws \<le> EDGE_EPOLL_MAX_WATCH" using assms(1) by (auto simp: watches_ok_def)
  note c = watch_map_card [OF assms(1)]
  show ?thesis
  proof (cases "watch_index ws fd")
    case None
    then have n: "fd \<notin> dom (watch_map ws)" using watch_index_None by blast
    have "watch_map (ws @ [\<lparr>w_fd = fd, w_events = ev, w_data = dat\<rparr>]) = (watch_map ws)(fd \<mapsto> (ev, dat))"
      using n by (auto simp: watch_map_def map_add_def fun_eq_iff split: option.split)
    then show ?thesis
      using assms None n c d by (auto simp: epoll_update_def watch_ctl_def watches_ok_def watch_map_dom split: if_splits)
  next
    case (Some i)
    then have f: "fd \<in> dom (watch_map ws)" using watch_index_None by (metis option.distinct(1))
    show ?thesis
      using assms Some f d watch_index_Some [OF Some] watch_mod [OF d(1), where i = i and ev = ev and dat = dat] watch_del [OF d(1), of i]
      by (auto simp: epoll_update_def watch_ctl_def watches_ok_def split: if_splits)
  qed
qed

text \<open>
  C29: The watch list of an epoll object is a finite map. For a valid epoll descriptor and a readable event, \<^verbatim>\<open>epoll_ctl\<close>
  changes nothing but that object's list, and the list implements the map operation of the call with its
  errors: adding refuses a watched descriptor and a full list, modifying and deleting need a watched
  descriptor, no descriptor is watched twice, although deletion moves the last entry into the gap.
\<close>
theorem epoll_ctl_refines:
  fixes s :: "'a kern_scheme"
  assumes "fd_here (c_int_of epfd) s = (Some (p, e), s1)" "fd_kind e = FD_EPOLL" "pipe_id e = int k" "k < EDGE_MAX_EPOLLS"
    and "ep_used (epolls s1 k)" "watches_ok (ep_watch (epolls s1 k))"
    and "0 \<le> c_int_of fd" "c_int_of fd \<noteq> c_int_of epfd"
    and "if c_int_of op = 2 then bs = replicate 16 0 else evp \<noteq> 0 \<and> copy_from_user evp 16 um = Some bs"
  shows "\<exists>r ws'. do_sys_epoll_ctl epfd op fd evp um s =
      (r, s1\<lparr>epolls := (epolls s1)(k := (epolls s1 k)\<lparr>ep_watch := ws'\<rparr>)\<rparr>) \<and> watches_ok ws' \<and>
    (r, watch_map ws') =
      watch_ctl (c_int_of op) (c_int_of fd) (ucast (of_le (take 4 bs)), of_le (drop 8 bs)) (watch_map (ep_watch (epolls s1 k)))"
proof -
  obtain r ws' where u: "epoll_update (c_int_of op) (c_int_of fd) (ucast (of_le (take 4 bs))) (of_le (drop 8 bs))
      (ep_watch (epolls s1 k)) = (r, ws')" by fastforce
  have b: "(if c_int_of op \<noteq> 2 then copy_from_user evp 16 um else Some (replicate 16 0)) = Some bs"
    "\<not> (c_int_of op \<noteq> 2 \<and> evp = 0)" using assms(9) by (auto split: if_splits)
  have "do_sys_epoll_ctl epfd op fd evp um s = (r, s1\<lparr>epolls := (epolls s1)(k := (epolls s1 k)\<lparr>ep_watch := ws'\<rparr>)\<rparr>)"
    using assms(1-8) u unfolding do_sys_epoll_ctl_def Let_def by (simp add: b in_range_def)
  then show ?thesis using epoll_update_refines [OF assms(6) u] by auto
qed


definition demo_epoll :: kern where
  "demo_epoll = demo_kern
     \<lparr>fd_procs := (\<lambda>_. zero_fd_proc)(0 := zero_fd_proc\<lparr>fdp_pid := 2,
        fds := (\<lambda>_. zero_fd)(0 := end_fd FD_CONSOLE 1 0 0 0, 1 := end_fd FD_CONSOLE 2 0 0 0, 2 := end_fd FD_CONSOLE 3 0 0 0, 3 := end_fd FD_EPOLL 4 0 0 0)\<rparr>),
      epolls := (\<lambda>_. zero_epoll)(0 := \<lparr>ep_used = True, ep_refs = 1, ep_watch =
        [\<lparr>w_fd = 0, w_events = 1, w_data = 10\<rparr>, \<lparr>w_fd = 1, w_events = 4, w_data = 11\<rparr>, \<lparr>w_fd = 2, w_events = 1, w_data = 12\<rparr>]\<rparr>)\<rparr>"

lemma demo_epoll_here: "fd_here 3 demo_epoll = (Some (0, end_fd FD_EPOLL 4 0 0 0), demo_epoll)"
proof -
  have "same_sched demo_kern demo_epoll" by (simp add: demo_epoll_def same_sched_def)
  then have pid: "process_getpid demo_epoll = 2"
    using getpid_same_sched [of demo_kern demo_epoll] by (simp add: process_getpid_def demo_kern_inv(3) demo_kern_base demo_tree_facts)
  have "fd_proc_find 2 demo_epoll = Some 0"
    by (simp add: fd_proc_find_def demo_epoll_def first_idx_eval [of _ 0] EDGE_MAX_FD_PROCS_def)
  moreover have "fd_ensure_stdio 0 demo_epoll = demo_epoll"
    by (simp add: fd_ensure_stdio_def ensure_one_def demo_epoll_def end_fd_def)
  ultimately have "fd_proc_with_stdio demo_epoll = (Some 0, demo_epoll)"
    by (simp add: fd_proc_with_stdio_def fd_proc_for_pid_def pid)
  then show ?thesis
    by (simp add: fd_here_def fd_get_def in_range_def EDGE_MAX_FD_def) (simp add: demo_epoll_def end_fd_def)
qed

text \<open>Deleting the watch of descriptor 0 keeps the two others.\<close>

theorem epoll_ctl_refines_witness:
  "\<exists>ws'. do_sys_epoll_ctl 3 2 0 0 (\<lambda>_. 0) demo_epoll =
      (0, demo_epoll\<lparr>epolls := (epolls demo_epoll)(0 := (epolls demo_epoll 0)\<lparr>ep_watch := ws'\<rparr>)\<rparr>) \<and>
    watch_map ws' = [1 \<mapsto> (4, 11), 2 \<mapsto> (1, 12)]"
proof -
  have i: "c_int_of 3 = 3" "c_int_of 2 = 2" "c_int_of 0 = 0" by (simp_all add: c_int_of_def)
  have m: "watch_map (ep_watch (epolls demo_epoll 0)) = [0 \<mapsto> (1, 10), 1 \<mapsto> (4, 11), 2 \<mapsto> (1, 12)]"
    by (auto simp: watch_map_def demo_epoll_def)
  have "\<exists>r ws'. do_sys_epoll_ctl 3 2 0 0 (\<lambda>_. 0) demo_epoll =
      (r, demo_epoll\<lparr>epolls := (epolls demo_epoll)(0 := (epolls demo_epoll 0)\<lparr>ep_watch := ws'\<rparr>)\<rparr>) \<and> watches_ok ws' \<and>
    (r, watch_map ws') = watch_ctl (c_int_of 2) (c_int_of 0) (ucast (of_le (take 4 (replicate 16 0))), of_le (drop 8 (replicate 16 0)))
      (watch_map (ep_watch (epolls demo_epoll 0)))"
    by (rule epoll_ctl_refines [where p = 0 and e = "end_fd FD_EPOLL 4 0 0 0"])
      (simp_all add: i demo_epoll_here, simp_all add: end_fd_def demo_epoll_def watches_ok_def EDGE_EPOLL_MAX_WATCH_def EDGE_MAX_EPOLLS_def)
  moreover have "([0 \<mapsto> (1, 10), 1 \<mapsto> (4, 11), 2 \<mapsto> (1, 12)])(0 := None) = ([1 \<mapsto> (4, 11), 2 \<mapsto> (1, 12)] :: int \<rightharpoonup> u32 \<times> u64)" by auto
  ultimately show ?thesis by (simp add: i m watch_ctl_def) blast
qed

end
