(* ===== verification/Timers.thy ===== *)
theory Timers
  imports FdCalls
begin

text \<open>
  Timers and signals of \<^verbatim>\<open>src/sys/syscall.c\<close>: the interval timer of a task (\<^verbatim>\<open>setitimer\<close>, \<^verbatim>\<open>getitimer\<close>, \<^verbatim>\<open>alarm\<close> and the
  poll that raises SIGALRM), timer descriptors, \<^verbatim>\<open>kill\<close> and the delivery of signals on the way back to the
  program. The readings of the clocks (theory \<open>Clock\<close>) are arguments. The lemmas show that the poll returns
  and leaves a timer that is not due, that no expiration of a timer descriptor is lost or reported twice, and
  that a handler that returns resumes the program where it was interrupted.
\<close>

definition LINUX_SIGALRM :: int where [model_simps]: "LINUX_SIGALRM = 14"
definition LINUX_SIGCHLD :: int where [model_simps]: "LINUX_SIGCHLD = 17"
definition EDGE_SIGTRAMP_ADDR :: u64 where [model_simps]: "EDGE_SIGTRAMP_ADDR = 0x7FF000"

section \<open>Time values\<close>

definition timeval_to_us :: "u64 \<times> u64 \<Rightarrow> u64" where
  "timeval_to_us tv =
     (case tv of (tv_sec, tv_usec) \<Rightarrow>
        if sint tv_sec < 0 \<or> sint tv_usec < 0 \<or> 1000000 \<le> sint tv_usec then 0 else tv_sec * 1000000 + tv_usec)"

definition timespec_to_us_checked :: "u64 \<times> u64 \<Rightarrow> u64 option" where
  "timespec_to_us_checked ts =
     (case ts of (tv_sec, tv_nsec) \<Rightarrow>
        if sint tv_sec < 0 \<or> sint tv_nsec < 0 \<or> 1000000000 \<le> sint tv_nsec then None
        else Some (tv_sec * 1000000 + tv_nsec div 1000))"

definition us_to_timeval :: "u64 \<Rightarrow> u64 \<times> u64" where
  "us_to_timeval us = (us div 1000000, us mod 1000000)"

definition us_to_timespec :: "u64 \<Rightarrow> u64 \<times> u64" where
  "us_to_timespec us = (us div 1000000, us mod 1000000 * 1000)"

definition pair_bytes :: "u64 \<times> u64 \<Rightarrow> u8 list" where
  "pair_bytes p = le_bytes 8 (fst p) @ le_bytes 8 (snd p)"

definition pair_of :: "u8 list \<Rightarrow> u64 \<times> u64" where
  "pair_of bs = (of_le (take 8 bs), of_le (take 8 (drop 8 bs)))"

section \<open>The interval timer of a task\<close>

partial_function (option) timer_catch_up :: "u64 \<Rightarrow> u64 \<Rightarrow> u64 \<Rightarrow> u64 option" where
  "timer_catch_up interval now next_us =
     (let n = next_us + interval in if n \<le> now then timer_catch_up interval now n else Some n)"

definition task_timer_poll :: "u64 \<Rightarrow> task \<Rightarrow> task option" where
  "task_timer_poll now t =
     (if \<not> itimer_real_active t then Some t
      else if now < itimer_real_next_us t then Some t
      else
        let t1 = t\<lparr>sigalrm_pending := True\<rparr>
        in if 0 < itimer_real_interval_us t1 then
             map_option (\<lambda>n. t1\<lparr>itimer_real_next_us := n\<rparr>)
               (timer_catch_up (itimer_real_interval_us t1) now (itimer_real_next_us t1))
           else Some (t1\<lparr>itimer_real_active := False, itimer_real_next_us := 0\<rparr>))"

definition itimer_rest :: "u64 \<Rightarrow> task \<Rightarrow> u64" where
  "itimer_rest now t = (if itimer_real_active t \<and> now < itimer_real_next_us t then itimer_real_next_us t - now else 0)"

definition itimer_bytes :: "u64 \<Rightarrow> task \<Rightarrow> u8 list" where
  "itimer_bytes now t = pair_bytes (us_to_timeval (itimer_real_interval_us t)) @ pair_bytes (us_to_timeval (itimer_rest now t))"

definition set_itimer :: "u64 \<Rightarrow> u64 \<Rightarrow> u64 \<Rightarrow> task \<Rightarrow> task" where
  "set_itimer now val_us int_us t =
     (let t1 = t\<lparr>itimer_real_interval_us := int_us, sigalrm_pending := False\<rparr>
      in if val_us = 0 then t1\<lparr>itimer_real_active := False, itimer_real_next_us := 0\<rparr>
         else t1\<lparr>itimer_real_active := True, itimer_real_next_us := now + val_us\<rparr>)"

definition do_sys_setitimer :: "u64 \<Rightarrow> u64 \<Rightarrow> u64 \<Rightarrow> u64 \<Rightarrow> umem \<Rightarrow> 'a sched_scheme \<Rightarrow> u64 \<times> umem \<times> 'a sched_scheme" where
  "do_sys_setitimer now which_u new_u old_u um s =
     (let t = process_current_task s
      in if which_u \<noteq> 0 then (uerr EINVAL, um, s)
         else if new_u = 0 \<and> old_u = 0 then (uerr EINVAL, um, s)
         else case (if old_u = 0 then Some um else copy_to_user old_u (itimer_bytes now (tasks s t)) 32 um) of
           None \<Rightarrow> (uerr EFAULT, um, s)
         | Some um1 \<Rightarrow>
             if new_u = 0 then (0, um1, s)
             else case copy_from_user new_u 32 um1 of
                    None \<Rightarrow> (uerr EFAULT, um1, s)
                  | Some bs \<Rightarrow>
                      (0, um1, upd_task t (set_itimer now (timeval_to_us (pair_of (drop 16 bs))) (timeval_to_us (pair_of bs))) s))"

definition do_sys_getitimer :: "u64 \<Rightarrow> u64 \<Rightarrow> u64 \<Rightarrow> umem \<Rightarrow> 'a sched_scheme \<Rightarrow> u64 \<times> umem" where
  "do_sys_getitimer now which_u old_u um s =
     (if old_u = 0 then (uerr EINVAL, um)
      else if which_u \<noteq> 0 then (uerr EINVAL, um)
      else case copy_to_user old_u (itimer_bytes now (tasks s (process_current_task s))) 32 um of
             None \<Rightarrow> (uerr EFAULT, um)
           | Some um1 \<Rightarrow> (0, um1))"

definition do_sys_alarm :: "u64 \<Rightarrow> u64 \<Rightarrow> 'a sched_scheme \<Rightarrow> u64 \<times> 'a sched_scheme" where
  "do_sys_alarm now seconds s =
     (let t = process_current_task s; rem_us = itimer_rest now (tasks s t);
          old_secs = (if rem_us = 0 then 0 else (rem_us + 999999) div 1000000)
      in (old_secs, upd_task t (\<lambda>x.
           let t1 = x\<lparr>itimer_real_interval_us := 0, sigalrm_pending := False\<rparr>
           in if seconds = 0 then t1\<lparr>itimer_real_active := False, itimer_real_next_us := 0\<rparr>
              else t1\<lparr>itimer_real_active := True, itimer_real_next_us := now + seconds * 1000000\<rparr>) s))"

section \<open>Timer descriptors\<close>

text \<open>\<open>mono_us\<close> and \<open>real_us\<close> are the readings of the two clocks at the call.\<close>

definition timerfd_now_us :: "int \<Rightarrow> u64 \<Rightarrow> u64 \<Rightarrow> u64" where
  "timerfd_now_us clockid mono_us real_us = (if clockid = 0 then real_us else mono_us)"

definition timerfd_expire_count :: "u64 \<Rightarrow> bool \<Rightarrow> edge_timerfd \<Rightarrow> u64 \<times> edge_timerfd" where
  "timerfd_expire_count now consume t =
     (if \<not> tm_used t \<or> \<not> tm_active t then (0, t)
      else if now < tm_next_us t then (0, t)
      else if 0 < tm_interval_us t then
        let cnt = 1 + (if tm_next_us t < now then (now - tm_next_us t) div tm_interval_us t else 0)
        in (cnt, if consume then t\<lparr>tm_next_us := tm_next_us t + cnt * tm_interval_us t\<rparr> else t)
      else (1, if consume then t\<lparr>tm_active := False\<rparr> else t))"

definition upd_timerfd :: "nat \<Rightarrow> (edge_timerfd \<Rightarrow> edge_timerfd) \<Rightarrow> 'a kern_scheme \<Rightarrow> 'a kern_scheme" where
  "upd_timerfd i f s = s\<lparr>timerfds := (timerfds s)(i := f (timerfds s i))\<rparr>"

definition timerfd_rest :: "u64 \<Rightarrow> edge_timerfd \<Rightarrow> u64" where
  "timerfd_rest now t = (if tm_active t \<and> now < tm_next_us t then tm_next_us t - now else 0)"

definition do_sys_timerfd_settime ::
  "u64 \<Rightarrow> u64 \<Rightarrow> u64 \<Rightarrow> u64 \<Rightarrow> u64 \<Rightarrow> u64 \<Rightarrow> umem \<Rightarrow> 'a kern_scheme \<Rightarrow> u64 \<times> umem \<times> 'a kern_scheme"
where
  "do_sys_timerfd_settime mono_us real_us fd_u flags_u new_u old_u um s =
     (case fd_here (c_int_of fd_u) s of
        (None, s1) \<Rightarrow> (uerr EBADF, um, s1)
      | (Some (p, e), s1) \<Rightarrow>
          let k = nat (pipe_id e); tf = timerfds s1 k; now = timerfd_now_us (tm_clockid tf) mono_us real_us
          in if fd_kind e \<noteq> FD_TIMERFD \<or> \<not> in_range (pipe_id e) EDGE_MAX_TIMERFDS then (uerr EBADF, um, s1)
             else if \<not> tm_used tf \<or> new_u = 0 then (uerr EINVAL, um, s1)
             else case (if old_u = 0 then Some um
                        else copy_to_user old_u (pair_bytes (us_to_timespec (tm_interval_us tf)) @
                          pair_bytes (us_to_timespec (timerfd_rest now tf))) 32 um) of
               None \<Rightarrow> (uerr EFAULT, um, s1)
             | Some um1 \<Rightarrow>
                 (case copy_from_user new_u 32 um1 of
                    None \<Rightarrow> (uerr EFAULT, um1, s1)
                  | Some bs \<Rightarrow>
                      (case (timespec_to_us_checked (pair_of (drop 16 bs)), timespec_to_us_checked (pair_of bs)) of
                         (Some val_us, Some int_us) \<Rightarrow>
                           (0, um1, upd_timerfd k (\<lambda>t.
                              if val_us = 0 then t\<lparr>tm_interval_us := int_us, tm_active := False, tm_next_us := 0\<rparr>
                              else t\<lparr>tm_interval_us := int_us, tm_active := True,
                                     tm_next_us := (if flags_u AND 1 \<noteq> 0 then val_us else now + val_us)\<rparr>) s1)
                       | _ \<Rightarrow> (uerr EINVAL, um1, s1))))"

definition do_sys_timerfd_gettime :: "u64 \<Rightarrow> u64 \<Rightarrow> u64 \<Rightarrow> u64 \<Rightarrow> umem \<Rightarrow> 'a kern_scheme \<Rightarrow> u64 \<times> umem \<times> 'a kern_scheme" where
  "do_sys_timerfd_gettime mono_us real_us fd_u cur_u um s =
     (case fd_here (c_int_of fd_u) s of
        (None, s1) \<Rightarrow> (uerr EINVAL, um, s1)
      | (Some (p, e), s1) \<Rightarrow>
          let tf = timerfds s1 (nat (pipe_id e)); now = timerfd_now_us (tm_clockid tf) mono_us real_us;
              val = (if tm_active tf \<and> now < tm_next_us tf then us_to_timespec (tm_next_us tf - now)
                     else if tm_active tf then (0, 1) else (0, 0))
          in if fd_kind e \<noteq> FD_TIMERFD \<or> cur_u = 0 then (uerr EINVAL, um, s1)
             else if \<not> in_range (pipe_id e) EDGE_MAX_TIMERFDS then (uerr EBADF, um, s1)
             else if \<not> tm_used tf then (uerr EBADF, um, s1)
             else case copy_to_user cur_u (pair_bytes (us_to_timespec (tm_interval_us tf)) @ pair_bytes val) 32 um of
                    None \<Rightarrow> (uerr EFAULT, um, s1)
                  | Some um1 \<Rightarrow> (0, um1, s1))"

section \<open>Signals\<close>

definition pending_interrupt :: "task \<Rightarrow> bool \<times> task" where
  "pending_interrupt t =
     (if sigint_pending t \<and> sigint_handler t \<noteq> LINUX_SIG_IGN then (True, t)
      else
        let t1 = t\<lparr>sigint_pending := False\<rparr>
        in if sigterm_pending t1 \<and> sigterm_handler t1 \<noteq> LINUX_SIG_IGN then (True, t1)
           else
             let t2 = t1\<lparr>sigterm_pending := False\<rparr>
             in if sigchld_pending t2 \<and> sigchld_handler t2 \<noteq> LINUX_SIG_IGN \<and> sigchld_handler t2 \<noteq> LINUX_SIG_DFL then (True, t2)
                else
                  let t3 = t2\<lparr>sigchld_pending := False\<rparr>
                  in if sigalrm_pending t3 then
                       if sigalrm_handler t3 = LINUX_SIG_IGN then (False, t3\<lparr>sigalrm_pending := False\<rparr>)
                       else (sigalrm_handler t3 \<noteq> LINUX_SIG_DFL, t3)
                     else (False, t3))"

definition signal_pending_interrupt :: "u64 \<Rightarrow> 'a sched_scheme \<Rightarrow> (bool \<times> 'a sched_scheme) option" where
  "signal_pending_interrupt now s =
     (let c = process_current_task s
      in map_option (\<lambda>t. case pending_interrupt t of (b, t1) \<Rightarrow> (b, upd_task c (\<lambda>_. t1) s)) (task_timer_poll now (tasks s c)))"

definition sig_bit :: "int \<Rightarrow> u64" where
  "sig_bit sig = push_bit (nat (sig - 1)) 1"

text \<open>The order in which pending signals are looked at, with what clears each.\<close>

definition signalfd_peek_current :: "edge_signalfd \<Rightarrow> bool \<Rightarrow> 'a sched_scheme \<Rightarrow> int option \<times> 'a sched_scheme" where
  "signalfd_peek_current sf consume s =
     (let c = process_current_task s; t = tasks s c; wants = (\<lambda>sig. sg_mask sf AND sig_bit sig \<noteq> 0);
          take1 = (\<lambda>sig clear. (Some sig, if consume then upd_task c clear s else s))
      in if wants LINUX_SIGINT \<and> sigint_pending t then take1 LINUX_SIGINT (sigint_pending_update (\<lambda>_. False))
         else if wants LINUX_SIGTERM \<and> sigterm_pending t then take1 LINUX_SIGTERM (sigterm_pending_update (\<lambda>_. False))
         else if wants LINUX_SIGALRM \<and> sigalrm_pending t then take1 LINUX_SIGALRM (sigalrm_pending_update (\<lambda>_. False))
         else if wants LINUX_SIGCHLD \<and> sigchld_pending t then take1 LINUX_SIGCHLD (sigchld_pending_update (\<lambda>_. False))
         else (None, s))"

definition neg_int :: "u64 \<Rightarrow> int" where
  "neg_int v = sint (- (ucast v :: c_int))"

definition do_sys_kill :: "u64 \<Rightarrow> u64 \<Rightarrow> 'a sched_scheme \<Rightarrow> (u64 \<times> 'a sched_scheme) option" where
  "do_sys_kill pid_u sig_u s =
     (let ipid = c_int_of pid_u; isig = c_int_of sig_u; result = map_option (\<lambda>(rc, s'). (if rc = 0 then 0 else uerr ESRCH, s'))
      in if ipid = 0 then Some (uerr EINVAL, s)
         else if isig = 0 then
           if 0 < ipid then Some (if process_get_task ipid s \<noteq> None then 0 else uerr ESRCH, s)
           else Some (if first_idx (\<lambda>i. state (tasks s (TaskP i)) \<noteq> TASK_UNUSED \<and> pgid (tasks s (TaskP i)) = neg_int pid_u) 0 PROC_MAX_TASKS \<noteq> None
                      then 0 else uerr ESRCH, s)
         else if isig \<noteq> LINUX_SIGTERM \<and> isig \<noteq> LINUX_SIGKILL \<and> isig \<noteq> LINUX_SIGINT then Some (uerr EINVAL, s)
         else if 0 < ipid then result (process_send_signal ipid isig s)
         else result (process_send_signal_pgid (neg_int pid_u) isig s))"

text \<open>The registers of the interrupted program that delivery uses; the others stay as they are.\<close>

record regs =
  r_rax :: u64
  r_rdi :: u64
  r_rip :: u64
  r_rsp :: u64

definition install_user_sig_stub :: "tptr \<Rightarrow> umem \<Rightarrow> 'a sched_scheme \<Rightarrow> (umem \<times> 'a sched_scheme) option" where
  "install_user_sig_stub t um s =
     (if sig_stub_installed (tasks s t) then Some (um, s)
      else map_option (\<lambda>um1. (um1, upd_task t (sig_stub_installed_update (\<lambda>_. True)) s))
             (copy_to_user EDGE_SIGTRAMP_ADDR [0x58, 0xC3] 2 um))"

definition pick_signal :: "task \<Rightarrow> (int \<times> u64 \<times> (task \<Rightarrow> task)) option" where
  "pick_signal t =
     (let open1 = (\<lambda>sig. sigmask t AND sig_bit sig = 0)
      in if sigint_pending t \<and> open1 LINUX_SIGINT then Some (LINUX_SIGINT, sigint_handler t, sigint_pending_update (\<lambda>_. False))
         else if sigterm_pending t \<and> open1 LINUX_SIGTERM then Some (LINUX_SIGTERM, sigterm_handler t, sigterm_pending_update (\<lambda>_. False))
         else if sigalrm_pending t \<and> open1 LINUX_SIGALRM then Some (LINUX_SIGALRM, sigalrm_handler t, sigalrm_pending_update (\<lambda>_. False))
         else if sigchld_pending t \<and> open1 LINUX_SIGCHLD then Some (LINUX_SIGCHLD, sigchld_handler t, sigchld_pending_update (\<lambda>_. False))
         else None)"

definition signal_frame :: "u64 \<Rightarrow> u64 \<Rightarrow> u8 list" where
  "signal_frame saved_rax old_rip = le_bytes 8 EDGE_SIGTRAMP_ADDR @ le_bytes 8 saved_rax @ le_bytes 8 old_rip"

text \<open>A delivery resumes the program, perhaps in the handler, or ends the task: the release of its descriptors
  and its exit, after which another task is scheduled. \<^term>\<open>None\<close> is a loop that does not end.\<close>

datatype 's delivery = Resume regs umem 's | Killed 's | Stopped

definition deliver :: "int \<Rightarrow> u64 \<Rightarrow> (task \<Rightarrow> task) \<Rightarrow> regs \<Rightarrow> umem \<Rightarrow> 'a sched_scheme \<Rightarrow> regs \<times> umem \<times> 'a sched_scheme" where
  "deliver sig handler clear r um s =
     (let c = process_current_task s
      in if \<not> user_range_ok handler 1 then (r, um, s)
         else case install_user_sig_stub c um s of
           None \<Rightarrow> (r, um, s)
         | Some (um1, s1) \<Rightarrow>
             if r_rsp r < USER_MIN_ADDR + 24 \<or> USER_MAX_ADDR < r_rsp r then (r, um1, s1)
             else
               let new_rsp = r_rsp r - 24
               in if \<not> user_range_ok new_rsp 24 then (r, um1, s1)
                  else case copy_to_user new_rsp (signal_frame (r_rax r) (r_rip r)) 24 um1 of
                    None \<Rightarrow> (r, um1, s1)
                  | Some um2 \<Rightarrow> (r\<lparr>r_rsp := new_rsp, r_rip := handler, r_rdi := word_of_int sig\<rparr>, um2, upd_task c clear s1))"

definition maybe_deliver_signal_on_sysret :: "u64 \<Rightarrow> regs \<Rightarrow> umem \<Rightarrow> 'a kern_scheme \<Rightarrow> ('a kern_scheme delivery) option" where
  "maybe_deliver_signal_on_sysret now r um s =
     (let c = process_current_task s
      in case task_timer_poll now (tasks s c) of
           None \<Rightarrow> None
         | Some t \<Rightarrow>
             let s1 = upd_task c (\<lambda>_. t) s
             in case pick_signal t of
                  None \<Rightarrow> Some (Resume r um s1)
                | Some (sig, handler, clear) \<Rightarrow>
                    if handler = LINUX_SIG_IGN then Some (Resume r um (upd_task c clear s1))
                    else if handler = LINUX_SIG_DFL then
                      let s2 = upd_task c clear s1
                      in if sig = LINUX_SIGINT \<or> sig = LINUX_SIGTERM then
                           (case process_exit_current (128 + sig) (fd_proc_release (process_getpid s2) s2) of
                              None \<Rightarrow> None
                            | Some Halted \<Rightarrow> Some Stopped
                            | Some (Exited s3) \<Rightarrow> map_option Killed (scheduler_yield s3))
                         else Some (Resume r um s2)
                    else case deliver sig handler clear r um s1 of (r1, um1, s2) \<Rightarrow> Some (Resume r1 um1 s2))"

section \<open>The poll of the interval timer\<close>

lemma catch_up_unfold:
  "timer_catch_up iv now x = (if x + iv \<le> now then timer_catch_up iv now (x + iv) else Some (x + iv))"
  by (simp add: timer_catch_up.simps [of iv now x] Let_def)

lemma catch_up_small:
  fixes x iv now :: u64
  assumes "unat iv < 2 ^ 63" "0 < iv" "unat now < 2 ^ 63" "x \<le> now"
  shows "\<exists>n. timer_catch_up iv now x = Some n \<and> unat n = unat x + ((unat now - unat x) div unat iv + 1) * unat iv"
  using assms(4)
proof (induction "unat now - unat x" arbitrary: x rule: less_induct)
  case less
  have iv: "0 < unat iv" using assms(2) by (simp add: unat_gt_0)
  have xn: "unat x \<le> unat now" using less.prems by (simp add: word_le_nat_alt)
  have add: "unat (x + iv) = unat x + unat iv" using assms(1,3) xn by (intro unat_sum) simp
  show ?case
  proof (cases "x + iv \<le> now")
    case True
    then have le: "unat x + unat iv \<le> unat now" by (simp add: word_le_nat_alt add)
    have "unat now - unat (x + iv) < unat now - unat x" unfolding add using le iv by linarith
    then obtain n where n: "timer_catch_up iv now (x + iv) = Some n"
      "unat n = unat (x + iv) + ((unat now - unat (x + iv)) div unat iv + 1) * unat iv"
      using less.hyps True by blast
    have "(unat now - unat x) div unat iv = Suc ((unat now - unat (x + iv)) div unat iv)"
      using le iv le_div_geq [of "unat iv" "unat now - unat x"] by (simp add: add)
    then show ?thesis using n True by (auto simp: catch_up_unfold [of iv now x] add)
  next
    case False
    then have "unat now - unat x < unat iv" using iv by (simp add: word_le_nat_alt add)
    then show ?thesis using False by (auto simp: catch_up_unfold [of iv now x] add)
  qed
qed

lemma catch_up_large:
  fixes x iv now :: u64
  assumes "2 ^ 63 \<le> unat iv" "unat now < 2 ^ 63" "x \<le> now"
  shows "\<exists>n. timer_catch_up iv now x = Some n \<and> now < n"
  using assms(3)
proof (induction "unat x" arbitrary: x rule: less_induct)
  case less
  show ?case
  proof (cases "x + iv \<le> now")
    case True
    then have s: "unat (x + iv) < 2 ^ 63" using assms(2) by (simp add: word_le_nat_alt)
    have "unat (x + iv) < unat x"
      using s assms(1) unat_below [of x] unat_below [of iv] by (cases "unat x + unat iv < 2 ^ 64") (auto simp: unat_word_ariths mod_if)
    then show ?thesis using less.hyps [OF _ True] True by (simp add: catch_up_unfold [of iv now x])
  qed (auto simp: catch_up_unfold [of iv now x])
qed

lemma catch_up_returns:
  fixes x iv now :: u64
  assumes "0 < iv" "unat now < 2 ^ 63" "x \<le> now"
  shows "\<exists>n. timer_catch_up iv now x = Some n \<and> now < n"
proof (cases "unat iv < 2 ^ 63")
  case True
  obtain n where n: "timer_catch_up iv now x = Some n" "unat n = unat x + ((unat now - unat x) div unat iv + 1) * unat iv"
    using catch_up_small [OF True assms] by blast
  have "unat now - unat x < ((unat now - unat x) div unat iv + 1) * unat iv"
    using dividend_less_div_times [of "unat iv" "unat now - unat x"] assms(1) by (simp add: unat_gt_0)
  then have "now < n" using n(2) assms(3) by (simp add: word_less_nat_alt word_le_nat_alt)
  then show ?thesis using n(1) by blast
qed (use catch_up_large assms in auto)

text \<open>
  C32: The poll of the interval timer. While the clock is below 2^63 microseconds the poll returns, for any interval,
  although it advances the timer one interval at a time and the sum may wrap. Afterwards the timer is not
  due; SIGALRM is pending if it was, or if the timer was due; a one-shot timer that was due is off; and an
  interval timer below 2^63 is set to the first multiple of its interval after now.
\<close>
theorem timer_poll_returns:
  assumes "unat now < 2 ^ 63"
  shows "\<exists>t'. task_timer_poll now t = Some t' \<and>
    (let due = itimer_real_active t \<and> itimer_real_next_us t \<le> now; iv = itimer_real_interval_us t; x = itimer_real_next_us t
     in \<not> (itimer_real_active t' \<and> itimer_real_next_us t' \<le> now) \<and>
        sigalrm_pending t' = (sigalrm_pending t \<or> due) \<and>
        itimer_real_active t' = (itimer_real_active t \<and> (due \<longrightarrow> 0 < iv)) \<and>
        (due \<and> 0 < iv \<and> unat iv < 2 ^ 63 \<longrightarrow>
           unat (itimer_real_next_us t') = unat x + ((unat now - unat x) div unat iv + 1) * unat iv))"
proof (cases "itimer_real_active t \<and> itimer_real_next_us t \<le> now \<and> 0 < itimer_real_interval_us t")
  case True
  let ?x = "itimer_real_next_us t" and ?iv = "itimer_real_interval_us t"
  obtain n where n: "timer_catch_up ?iv now ?x = Some n" "now < n" using catch_up_returns True assms by blast
  then have f: "unat n = unat ?x + ((unat now - unat ?x) div unat ?iv + 1) * unat ?iv" if "unat ?iv < 2 ^ 63"
    using catch_up_small [OF that, of now ?x] True assms by auto
  have "task_timer_poll now t = Some (t\<lparr>sigalrm_pending := True, itimer_real_next_us := n\<rparr>)"
    using True n(1) by (simp add: task_timer_poll_def Let_def not_less [symmetric])
  then show ?thesis using True n(2) f by (simp add: Let_def)
next
  case False
  then show ?thesis
    by (cases "itimer_real_active t \<and> itimer_real_next_us t \<le> now") (auto simp: task_timer_poll_def Let_def not_less)
qed

section \<open>Expirations of a timer descriptor\<close>

lemma multiples_below:
  assumes "0 < (d :: nat)"
  shows "{k. a + k * d \<le> b} = (if a \<le> b then {..(b - a) div d} else {})"
proof (cases "a \<le> b")
  case True
  have "a + k * d \<le> b \<longleftrightarrow> k \<le> (b - a) div d" for k
    using True assms by (simp add: less_eq_div_iff_mult_less_eq add.commute le_diff_conv2)
  then show ?thesis using True by auto
qed auto

lemma timerfd_next_twice: "t\<lparr>tm_next_us := x\<rparr>\<lparr>tm_next_us := y\<rparr> = t\<lparr>tm_next_us := y\<rparr>"
  by simp

lemma expire_counts:
  assumes "tm_used t" "tm_active t" "0 < tm_interval_us t" "now \<noteq> - 1"
    and "timerfd_expire_count now True t = (c, t')"
  shows "{k. unat (tm_next_us t) + k * unat (tm_interval_us t) \<le> unat now} = {..<unat c}"
    and "t' = t\<lparr>tm_next_us := tm_next_us t'\<rparr>" "tm_next_us t' = tm_next_us t + c * tm_interval_us t"
    and "unat now < unat (tm_next_us t) + unat c * unat (tm_interval_us t)"
    and "c \<noteq> 0 \<Longrightarrow> unat (tm_next_us t) + unat c * unat (tm_interval_us t) \<le> unat now + unat (tm_interval_us t)"
proof -
  let ?x = "unat (tm_next_us t)" and ?d = "unat (tm_interval_us t)" and ?n = "unat now"
  have d: "0 < ?d" using assms(3) by (simp add: unat_gt_0)
  have *: "{k. ?x + k * ?d \<le> ?n} = {..<unat c} \<and> t' = t\<lparr>tm_next_us := tm_next_us t'\<rparr> \<and> tm_next_us t' = tm_next_us t + c * tm_interval_us t \<and>
      ?n < ?x + unat c * ?d \<and> (c \<noteq> 0 \<longrightarrow> ?x + unat c * ?d \<le> ?n + ?d)"
  proof (cases "now < tm_next_us t")
    case True
    then have "{k. ?x + k * ?d \<le> ?n} = {}" by (auto simp: word_less_nat_alt)
    moreover have "c = 0" "t' = t" using True assms by (simp_all add: timerfd_expire_count_def)
    ultimately show ?thesis using True by (simp add: word_less_nat_alt)
  next
    case False
    then have xn: "?x \<le> ?n" by (simp add: word_less_nat_alt)
    let ?q = "(now - tm_next_us t) div tm_interval_us t"
    have c: "c = 1 + ?q" "t' = t\<lparr>tm_next_us := tm_next_us t + c * tm_interval_us t\<rparr>"
      using assms False by (auto simp: timerfd_expire_count_def Let_def not_less split: if_splits)
    have uq: "unat ?q = (?n - ?x) div ?d" using xn by (simp add: unat_div unat_sub word_le_nat_alt)
    have "unat now \<noteq> unat (- 1 :: u64)" using assms(4) word_unat_eq_iff by blast
    then have "?n < 2 ^ 64 - 1" using unat_below [of now] by (simp add: unsigned_minus_1_eq_mask mask_eq_exp_minus_1)
    moreover have "(?n - ?x) div ?d \<le> ?n" by (meson div_le_dividend diff_le_self le_trans)
    ultimately have "unat (1 :: u64) + unat ?q < 2 ^ 64" using uq by simp
    then have uc: "unat c = 1 + (?n - ?x) div ?d" using unat_sum [of 1 ?q] uq c(1) by simp
    have "(?n - ?x) div ?d * ?d \<le> ?n - ?x" by simp
    then have "?x + unat c * ?d \<le> ?n + ?d" using xn unfolding uc add_mult_distrib by linarith
    moreover have "?n < ?x + unat c * ?d"
      using dividend_less_div_times [OF d, of "?n - ?x"] xn unfolding uc by simp
    moreover have "{k. ?x + k * ?d \<le> ?n} = {..<unat c}"
      using multiples_below [OF d, of ?x ?n] xn by (simp add: uc lessThan_Suc_atMost)
    ultimately show ?thesis using c(2) by simp
  qed
  then show "{k. ?x + k * ?d \<le> ?n} = {..<unat c}" "t' = t\<lparr>tm_next_us := tm_next_us t'\<rparr>" "tm_next_us t' = tm_next_us t + c * tm_interval_us t"
    "?n < ?x + unat c * ?d" "c \<noteq> 0 \<Longrightarrow> ?x + unat c * ?d \<le> ?n + ?d" by blast+
qed

lemma unat_next: "unat (x + c * d :: u64) = (unat x + unat c * unat d) mod 2 ^ 64"
  by (simp add: unat_word_ariths mod_simps)

text \<open>Where the timer is afterwards: beyond the time of the call, or, if that is not a 64-bit number, before it.\<close>

lemma expire_next:
  assumes "tm_used t" "tm_active t" "0 < tm_interval_us t" "now \<noteq> - 1"
    and "timerfd_expire_count now True t = (c, t')"
  shows "let nxt = unat (tm_next_us t) + unat c * unat (tm_interval_us t)
    in unat now < nxt \<and> (if nxt < 2 ^ 64 then unat (tm_next_us t') = nxt else tm_next_us t' < now \<and> fst (timerfd_expire_count now True t') \<noteq> 0)"
proof -
  let ?nxt = "unat (tm_next_us t) + unat c * unat (tm_interval_us t)"
  note e = expire_counts [OF assms]
  have "tm_next_us t' < now \<and> fst (timerfd_expire_count now True t') \<noteq> 0" if o: "2 ^ 64 \<le> ?nxt"
  proof -
    have "c \<noteq> 0" using o unat_below [of "tm_next_us t"] by (auto simp: not_less)
    from e(5) [OF this] have b: "?nxt \<le> unat now + unat (tm_interval_us t)" .
    have "unat now < 2 ^ 64" "unat (tm_interval_us t) < 2 ^ 64" using unat_below by blast+
    then have m: "?nxt mod 2 ^ 64 = ?nxt - 2 ^ 64" using o b by (simp add: mod_if)
    have l: "tm_next_us t' < now"
      unfolding word_less_nat_alt e(3) unat_next m using b \<open>unat (tm_interval_us t) < 2 ^ 64\<close> o by linarith
    have t': "tm_used t'" "tm_active t'" "tm_interval_us t' = tm_interval_us t" using assms(1,2) by (subst e(2), simp)+
    obtain c2 t2 where e2: "timerfd_expire_count now True t' = (c2, t2)" by fastforce
    have "0 < tm_interval_us t'" using assms(3) t'(3) by simp
    note s = expire_counts(1) [OF t'(1,2) this assms(4) e2]
    have "0 \<in> {..<unat c2}" unfolding s [symmetric] using l by (simp add: word_less_nat_alt)
    then have "c2 \<noteq> 0" by (metis lessThan_iff less_irrefl unat_0)
    then show ?thesis using l e2 by simp
  qed
  moreover have "unat (tm_next_us t') = ?nxt" if "?nxt < 2 ^ 64" unfolding e(3) unat_next using that by simp
  ultimately show ?thesis using e(4) by (auto simp: Let_def not_less)
qed

lemma expire_twice:
  assumes "tm_used t" "tm_active t" "0 < tm_interval_us t" "now \<le> now2" "now2 \<noteq> - 1"
    and e1: "timerfd_expire_count now True t = (c1, t1)" and e2: "timerfd_expire_count now2 True t1 = (c2, t2)"
    and e3: "timerfd_expire_count now2 True t = (c3, t3)"
    and fits: "unat (tm_next_us t) + unat c3 * unat (tm_interval_us t) < 2 ^ 64"
  shows "c3 = c1 + c2" "t3 = t2"
proof -
  let ?d = "unat (tm_interval_us t)" and ?x = "unat (tm_next_us t)"
  have n1: "now \<noteq> - 1" using assms(4,5) by (metis word_n1_ge order_antisym)
  note a = expire_counts [OF assms(1-3) n1 e1] and c = expire_counts [OF assms(1-3,5) e3]
  have t1: "tm_used t1" "tm_active t1" "tm_interval_us t1 = tm_interval_us t"
    using assms(1,2) by (subst a(2), simp)+
  have "{..<unat c1} \<subseteq> {..<unat c3}"
    unfolding a(1) [symmetric] c(1) [symmetric] using assms(4) by (auto simp: word_le_nat_alt)
  then have le: "unat c1 \<le> unat c3" by simp
  then have "?x + unat c1 * ?d < 2 ^ 64" using fits by (meson add_left_mono le_less_trans mult_le_mono1)
  then have x1: "unat (tm_next_us t1) = ?x + unat c1 * ?d" unfolding a(3) unat_next by simp
  have b: "{k. unat (tm_next_us t1) + k * ?d \<le> unat now2} = {..<unat c2}" "t2 = t1\<lparr>tm_next_us := tm_next_us t2\<rparr>"
      "tm_next_us t2 = tm_next_us t1 + c2 * tm_interval_us t"
    using expire_counts [OF t1(1,2) _ assms(5) e2] assms(3) t1(3) by simp_all
  have "unat c1 + k < unat c3 \<longleftrightarrow> k < unat c2" for k
  proof -
    have "unat c1 + k \<in> {k. ?x + k * ?d \<le> unat now2} \<longleftrightarrow> k \<in> {k. unat (tm_next_us t1) + k * ?d \<le> unat now2}"
      by (simp add: x1 add_mult_distrib add.assoc)
    then show ?thesis by (simp only: b(1) c(1) lessThan_iff)
  qed
  from this [of "unat c2"] this [of "unat c3 - unat c1"] le have s: "unat c3 = unat c1 + unat c2" by auto
  then show s2: "c3 = c1 + c2" using unat_sum [of c1 c2] unat_below [of c3] by (simp add: word_unat_eq_iff)
  have "tm_next_us t3 = tm_next_us t2" unfolding b(3) c(3) a(3) s2 by (simp add: algebra_simps)
  then show "t3 = t2" using a(2) b(2) c(2) by (metis timerfd_next_twice)
qed

text \<open>
  C31: Expirations of a timer descriptor, as \<^const>\<open>timerfd_expire_count\<close> counts and consumes them. For a periodic timer and any
  interval the count is the number of multiples of the interval that have passed, and consuming moves the
  timer to the next multiple, if that is below 2^64 microseconds; if it is not, the sum wraps, the timer is set to a time that has passed
  and the next count, even at once, reports expirations that did not happen. Two consumptions, up to the end of the
  64-bit time, report together exactly what the second alone would have reported and leave the timer in the same state: none is lost and none is
  counted twice. A one-shot timer expires once, when it is due, and is then inactive. The clock is not at its last value.
\<close>
theorem timerfd_expirations:
  assumes "tm_used t" "tm_active t" "now \<le> now2" "now2 \<noteq> - 1"
    and "timerfd_expire_count now True t = (c1, t1)" "timerfd_expire_count now2 True t1 = (c2, t2)" "timerfd_expire_count now2 True t = (c3, t3)"
  shows "if 0 < tm_interval_us t
    then unat c1 = card {k. unat (tm_next_us t) + k * unat (tm_interval_us t) \<le> unat now} \<and>
      (let nxt = unat (tm_next_us t) + unat c1 * unat (tm_interval_us t)
       in unat now < nxt \<and>
          (if nxt < 2 ^ 64 then unat (tm_next_us t1) = nxt else tm_next_us t1 < now \<and> fst (timerfd_expire_count now True t1) \<noteq> 0)) \<and>
      (unat (tm_next_us t) + unat c3 * unat (tm_interval_us t) < 2 ^ 64 \<longrightarrow> c3 = c1 + c2 \<and> t3 = t2)
    else c1 = (if tm_next_us t \<le> now then 1 else 0) \<and> tm_active t1 = (now < tm_next_us t) \<and> c3 = c1 + c2 \<and> t3 = t2"
proof (cases "0 < tm_interval_us t")
  case True
  have n1: "now \<noteq> - 1" using assms(3,4) by (metis word_n1_ge order_antisym)
  show ?thesis
    using True expire_counts(1) [OF assms(1,2) True n1 assms(5)] expire_next [OF assms(1,2) True n1 assms(5)]
      expire_twice [OF assms(1,2) True assms(3-7)] by simp
next
  case False
  then show ?thesis
    using assms by (cases "now < tm_next_us t"; cases "now2 < tm_next_us t") (auto simp: timerfd_expire_count_def)
qed
definition demo_timerfd :: edge_timerfd where
  "demo_timerfd = \<lparr>tm_used = True, tm_refs = 1, tm_clockid = 1, tm_active = True, tm_next_us = 100, tm_interval_us = 10\<rparr>"

text \<open>A timer due at 100 with interval 10: three expirations at 125, two more at 149. With the interval 2^64 - 50 the timer wraps.\<close>

theorem timerfd_expirations_witness:
  "timerfd_expire_count 149 True demo_timerfd = (3 + 2, demo_timerfd\<lparr>tm_next_us := 150\<rparr>) \<and> card {k. 100 + k * 10 \<le> (125 :: nat)} = 3 \<and>
   fst (timerfd_expire_count 125 True (demo_timerfd\<lparr>tm_interval_us := 0xFFFFFFFFFFFFFFCE, tm_next_us := 50\<rparr>)) \<noteq> 0"
proof -
  have e: "timerfd_expire_count 125 True demo_timerfd = (3, demo_timerfd\<lparr>tm_next_us := 130\<rparr>)"
    "timerfd_expire_count 149 True (demo_timerfd\<lparr>tm_next_us := 130\<rparr>) = (2, demo_timerfd\<lparr>tm_next_us := 150\<rparr>)"
    "timerfd_expire_count 149 True demo_timerfd = (5, demo_timerfd\<lparr>tm_next_us := 150\<rparr>)"
    by (simp_all add: timerfd_expire_count_def demo_timerfd_def)
  let ?w = "demo_timerfd\<lparr>tm_interval_us := 0xFFFFFFFFFFFFFFCE\<rparr>" and ?w1 = "demo_timerfd\<lparr>tm_interval_us := 0xFFFFFFFFFFFFFFCE, tm_next_us := 50\<rparr>"
  have f: "timerfd_expire_count 125 True ?w = (1, ?w1)" "timerfd_expire_count 125 True ?w1 = (1, ?w1\<lparr>tm_next_us := 0\<rparr>)"
    by (simp_all add: timerfd_expire_count_def demo_timerfd_def word_div_def)
  have t: "tm_used demo_timerfd" "tm_active demo_timerfd" "tm_next_us demo_timerfd = 100" "tm_interval_us demo_timerfd = 10"
    by (simp_all add: demo_timerfd_def)
  have "fst (timerfd_expire_count 125 True ?w1) \<noteq> 0"
    using timerfd_expirations [of ?w 125 125, OF _ _ _ _ f(1) f(2) f(1)] by (simp add: t)
  moreover have "card {k. 100 + k * 10 \<le> (125 :: nat)} = 3"
    using timerfd_expirations [of demo_timerfd 125 149, OF _ _ _ _ e] by (simp add: t)
  ultimately show ?thesis by (simp add: e)
qed
theorem timer_poll_returns_witness:
  "\<exists>t'. task_timer_poll 125 (zero_task\<lparr>itimer_real_active := True, itimer_real_next_us := 100, itimer_real_interval_us := 10\<rparr>) = Some t' \<and>
     sigalrm_pending t' \<and> unat (itimer_real_next_us t') = 130"
  using timer_poll_returns [of 125 "zero_task\<lparr>itimer_real_active := True, itimer_real_next_us := 100, itimer_real_interval_us := 10\<rparr>"]
  by (auto simp: Let_def)

section \<open>Return from a signal handler\<close>

text \<open>The two instructions of the processor that the return uses, decoded from memory: \<^verbatim>\<open>0x58\<close> is
  \<^verbatim>\<open>pop rax\<close>, \<^verbatim>\<open>0xC3\<close> is \<^verbatim>\<open>ret\<close>.\<close>

definition pop64 :: "umem \<Rightarrow> u64 \<Rightarrow> u64" where "pop64 um a = of_le (get_user um a 8)"

definition step_insn :: "umem \<Rightarrow> regs \<Rightarrow> regs option" where
  "step_insn um r =
     (if um (r_rip r) = 0x58 then Some (r\<lparr>r_rax := pop64 um (r_rsp r), r_rsp := r_rsp r + 8, r_rip := r_rip r + 1\<rparr>)
      else if um (r_rip r) = 0xC3 then Some (r\<lparr>r_rip := pop64 um (r_rsp r), r_rsp := r_rsp r + 8\<rparr>)
      else None)"

text \<open>Whether a signal is pending for a task, and its handler.\<close>

definition signal_state :: "int \<Rightarrow> task \<Rightarrow> bool \<times> u64" where
  "signal_state sig t =
     (if sig = LINUX_SIGINT then (sigint_pending t, sigint_handler t)
      else if sig = LINUX_SIGTERM then (sigterm_pending t, sigterm_handler t)
      else if sig = LINUX_SIGALRM then (sigalrm_pending t, sigalrm_handler t)
      else (sigchld_pending t, sigchld_handler t))"

lemma sig_bit_clear: "m AND sig_bit sig = 0 \<longleftrightarrow> \<not> bit m (nat (sig - 1))"
  by (simp add: sig_bit_def push_bit_eq_mult and_exp_eq_0_iff_not_bit)

lemma pick_signal_sound:
  assumes "pick_signal t = Some (sig, handler, clear)"
  shows "sig \<in> {LINUX_SIGINT, LINUX_SIGTERM, LINUX_SIGALRM, LINUX_SIGCHLD} \<and> signal_state sig t = (True, handler) \<and>
    \<not> bit (sigmask t) (nat (sig - 1)) \<and> (\<forall>x. \<not> fst (signal_state sig (clear x)))"
  using assms
  by (auto simp: pick_signal_def Let_def sig_bit_clear signal_state_def model_simps split: if_splits)

lemma deliver_effect:
  assumes "deliver sig handler clear r um s = (r1, um1, s1)" "r1 \<noteq> r"
  obtains um0 s0 where "r1 = r\<lparr>r_rsp := r_rsp r - 24, r_rip := handler, r_rdi := word_of_int sig\<rparr>"
    "install_user_sig_stub (process_current_task s) um s = Some (um0, s0)"
    "um1 = put_user um0 (r_rsp r - 24) (signal_frame (r_rax r) (r_rip r))"
    "s1 = upd_task (process_current_task s) clear s0"
  using assms by (auto simp: deliver_def Let_def copy_to_user_def signal_frame_def split: if_splits option.splits)

lemma stub_in_memory:
  assumes "install_user_sig_stub t um s = Some (um0, s0)" "sig_stub_installed (tasks s t) \<Longrightarrow> get_user um EDGE_SIGTRAMP_ADDR 2 = [0x58, 0xC3]"
  shows "get_user um0 EDGE_SIGTRAMP_ADDR 2 = [0x58, 0xC3]"
  using assms get_put_user [of 0 2 "[0x58, 0xC3]" EDGE_SIGTRAMP_ADDR EDGE_SIGTRAMP_ADDR um]
  by (auto simp: install_user_sig_stub_def copy_to_user_def split: if_splits)

lemma sysret_effect:
  assumes "maybe_deliver_signal_on_sysret now r um s = Some (Resume r1 um1 s1)" "r1 \<noteq> r"
  obtains t1 sig handler clear where "task_timer_poll now (tasks s (process_current_task s)) = Some t1"
    "pick_signal t1 = Some (sig, handler, clear)"
    "deliver sig handler clear r um (upd_task (process_current_task s) (\<lambda>_. t1) s) = (r1, um1, s1)"
  using assms by (auto simp: maybe_deliver_signal_on_sysret_def Let_def split: option.splits prod.splits if_splits exit_result.splits)

lemma poll_keeps_stub: "task_timer_poll now t = Some t1 \<Longrightarrow> sig_stub_installed t1 = sig_stub_installed t"
  by (auto simp: task_timer_poll_def Let_def split: if_splits)

text \<open>Three instructions, from the \<^verbatim>\<open>ret\<close> of the handler on: they return through the stub.\<close>

lemma return_through_stub:
  assumes "get_user um a 24 = signal_frame ax ip" "get_user um EDGE_SIGTRAMP_ADDR 2 = [0x58, 0xC3]"
    and "r_rsp rh = a" "um (r_rip rh) = 0xC3"
  shows "\<exists>ra rb rc. step_insn um rh = Some ra \<and> step_insn um ra = Some rb \<and> step_insn um rb = Some rc \<and>
    r_rax rc = ax \<and> r_rip rc = ip \<and> r_rsp rc = a + 24"
proof -
  have g: "pop64 um (a + of_nat k) = of_le (take 8 (drop k (signal_frame ax ip)))" if "k + 8 \<le> 24" for k
  proof -
    have "get_user um (a + of_nat k) 8 = take 8 (drop k (get_user um a 24))"
      using that by (intro nth_equalityI) (auto simp: get_user_def add.assoc)
    then show ?thesis by (simp add: pop64_def assms(1))
  qed
  have p: "pop64 um a = EDGE_SIGTRAMP_ADDR" "pop64 um (a + 8) = ax" "pop64 um (a + 16) = ip"
    using g [of 0] g [of 8] g [of 16] by (simp_all add: signal_frame_def)
  have b: "um EDGE_SIGTRAMP_ADDR = 0x58" "um (EDGE_SIGTRAMP_ADDR + 1) = 0xC3"
    using assms(2) by (simp_all add: get_user_def numeral_2_eq_2)
  show ?thesis by (simp add: step_insn_def assms(3,4) p b add.assoc)
qed

text \<open>
  C33: Return from a signal handler. When a system call returns into a signal handler, the signal is one that was pending and
  not blocked after the poll of the timer; the handler is the one of that signal, it finds the signal number in \<^verbatim>\<open>rdi\<close> and its stack
  24 bytes lower, and the signal is no longer pending. If the handler leaves its return frame and the stub alone and executes
  \<^verbatim>\<open>ret\<close> with the stack pointer it started with, then three instructions, decoded from the memory at the
  instruction pointer (the handler's \<^verbatim>\<open>ret\<close> and the two bytes of the stub), restore the interrupted
  program: the result of the system call in \<^verbatim>\<open>rax\<close>, the instruction pointer and the stack pointer are as
  before the delivery. The stub is written when the task has none; one that was written before must still be there, and
  the frame must not lie over it.
\<close>
theorem signal_handler_returns:
  assumes "maybe_deliver_signal_on_sysret now r um s = Some (Resume r1 um1 s1)" "r1 \<noteq> r"
    and "sig_stub_installed (tasks s (process_current_task s)) \<Longrightarrow> get_user um EDGE_SIGTRAMP_ADDR 2 = [0x58, 0xC3]"
    and "\<forall>i < 2. 24 \<le> unat (EDGE_SIGTRAMP_ADDR + of_nat i - (r_rsp r - 24))"
    and "get_user um2 (r_rsp r1) 24 = get_user um1 (r_rsp r1) 24" "get_user um2 EDGE_SIGTRAMP_ADDR 2 = get_user um1 EDGE_SIGTRAMP_ADDR 2"
    and "r_rsp rh = r_rsp r1" "um2 (r_rip rh) = 0xC3"
  shows "(\<exists>sig t1. task_timer_poll now (tasks s (process_current_task s)) = Some t1 \<and>
      sig \<in> {LINUX_SIGINT, LINUX_SIGTERM, LINUX_SIGALRM, LINUX_SIGCHLD} \<and>
      signal_state sig t1 = (True, r_rip r1) \<and> \<not> bit (sigmask t1) (nat (sig - 1)) \<and>
      r_rdi r1 = word_of_int sig \<and> \<not> fst (signal_state sig (tasks s1 (process_current_task s)))) \<and>
    r_rsp r1 = r_rsp r - 24 \<and>
    (\<exists>ra rb rc. step_insn um2 rh = Some ra \<and> step_insn um2 ra = Some rb \<and> step_insn um2 rb = Some rc \<and>
       r_rax rc = r_rax r \<and> r_rip rc = r_rip r \<and> r_rsp rc = r_rsp r)"
proof -
  let ?c = "process_current_task s" and ?a = "r_rsp r - 24" and ?f = "signal_frame (r_rax r) (r_rip r)"
  obtain t1 sig handler clear where d: "task_timer_poll now (tasks s ?c) = Some t1" "pick_signal t1 = Some (sig, handler, clear)"
    "deliver sig handler clear r um (upd_task ?c (\<lambda>_. t1) s) = (r1, um1, s1)"
    using sysret_effect [OF assms(1,2)] .
  obtain um0 s0 where e: "r1 = r\<lparr>r_rsp := ?a, r_rip := handler, r_rdi := word_of_int sig\<rparr>"
    "install_user_sig_stub ?c um (upd_task ?c (\<lambda>_. t1) s) = Some (um0, s0)"
    "um1 = put_user um0 ?a ?f" "s1 = upd_task ?c clear s0"
    using deliver_effect [OF d(3) assms(2), simplified] by blast
  have st: "get_user um0 EDGE_SIGTRAMP_ADDR 2 = [0x58, 0xC3]"
    using stub_in_memory [OF e(2)] assms(3) poll_keeps_stub [OF d(1)] by (simp add: upd_task_def)
  have l: "length ?f = 24" by (simp add: signal_frame_def)
  have "get_user um1 EDGE_SIGTRAMP_ADDR 2 = get_user um0 EDGE_SIGTRAMP_ADDR 2"
    using assms(4) by (auto simp: get_user_def e(3) put_user_def l)
  moreover have "get_user um1 ?a 24 = ?f" using get_put_user [of 0 24 ?f ?a ?a um0] by (simp add: e(3) l)
  ultimately have "\<exists>ra rb rc. step_insn um2 rh = Some ra \<and> step_insn um2 ra = Some rb \<and> step_insn um2 rb = Some rc \<and>
       r_rax rc = r_rax r \<and> r_rip rc = r_rip r \<and> r_rsp rc = ?a + 24"
    using assms(5-8) st e(1) by (intro return_through_stub) simp_all
  moreover have "\<not> fst (signal_state sig (tasks s1 ?c))"
    using pick_signal_sound [OF d(2)] by (simp add: e(4) upd_task_def)
  ultimately show ?thesis using pick_signal_sound [OF d(2)] d(1) e(1) by auto
qed

definition demo_sig :: kern where
  "demo_sig = upd_task (TaskP 0) (\<lambda>t. t\<lparr>sigint_pending := True, sigint_handler := 0x400000, sigmask := 0,
     itimer_real_active := False, sig_stub_installed := False\<rparr>) demo_kern"

definition demo_regs :: regs where
  "demo_regs = \<lparr>r_rax = 7, r_rdi = 0, r_rip = 0x401000, r_rsp = 0x20300000\<rparr>"

text \<open>Memory with a handler that consists of a single \<^verbatim>\<open>ret\<close>, and after the delivery.\<close>

definition demo_mem :: umem where
  "demo_mem = (\<lambda>_. 0)(0x400000 := 0xC3)"

definition demo_mem1 :: umem where
  "demo_mem1 = put_user (put_user demo_mem EDGE_SIGTRAMP_ADDR [0x58, 0xC3]) 0x202FFFE8 (signal_frame 7 0x401000)"

definition demo_entry :: regs where
  "demo_entry = demo_regs\<lparr>r_rsp := 0x202FFFE8, r_rip := 0x400000, r_rdi := 2\<rparr>"

lemma demo_sig_delivers:
  obtains s1 where "maybe_deliver_signal_on_sysret 5 demo_regs demo_mem demo_sig = Some (Resume demo_entry demo_mem1 s1)"
proof -
  let ?t = "tasks demo_sig (TaskP 0)" and ?s = "upd_task (TaskP 0) (\<lambda>_. tasks demo_sig (TaskP 0)) demo_sig"
  let ?clear = "sigint_pending_update (\<lambda>_. False)" and ?s1 = "upd_task (TaskP 0) (sig_stub_installed_update (\<lambda>_. True))
    (upd_task (TaskP 0) (\<lambda>_. tasks demo_sig (TaskP 0)) demo_sig)"
  have c: "process_current_task demo_sig = TaskP 0" by (simp add: demo_sig_def demo_kern_inv(3))
  have t: "sigint_pending ?t" "sigint_handler ?t = 0x400000" "sigmask ?t = 0" "\<not> itimer_real_active ?t" "\<not> sig_stub_installed ?t"
    by (simp_all add: demo_sig_def upd_task_def)
  have p: "pick_signal ?t = Some (2, 0x400000, ?clear)" by (simp add: pick_signal_def t model_simps)
  have stub: "install_user_sig_stub (TaskP 0) um ?s = Some (put_user um EDGE_SIGTRAMP_ADDR [0x58, 0xC3], ?s1)" for um
    using t(5) by (simp add: install_user_sig_stub_def upd_task_def copy_to_user_def user_range_ok_def model_simps)
  have "deliver 2 0x400000 ?clear demo_regs demo_mem ?s = (demo_entry, demo_mem1, upd_task (TaskP 0) ?clear ?s1)"
    by (simp add: deliver_def c stub Let_def demo_mem1_def demo_entry_def)
      (simp add: demo_regs_def user_range_ok_def copy_to_user_def signal_frame_def model_simps)
  then have "maybe_deliver_signal_on_sysret 5 demo_regs demo_mem demo_sig =
    Some (Resume demo_entry demo_mem1 (upd_task (TaskP 0) ?clear ?s1))"
    by (simp add: maybe_deliver_signal_on_sysret_def c task_timer_poll_def t p LINUX_SIG_IGN_def LINUX_SIG_DFL_def Let_def)
  then show thesis by (rule that)
qed

theorem signal_handler_returns_witness:
  "\<exists>ra rb rc. step_insn demo_mem1 demo_entry = Some ra \<and> step_insn demo_mem1 ra = Some rb \<and> step_insn demo_mem1 rb = Some rc \<and>
     r_rax rc = 7 \<and> r_rip rc = 0x401000 \<and> r_rsp rc = 0x20300000"
proof -
  obtain s1 where s1: "maybe_deliver_signal_on_sysret 5 demo_regs demo_mem demo_sig = Some (Resume demo_entry demo_mem1 s1)"
    by (rule demo_sig_delivers)
  have n: "demo_entry \<noteq> demo_regs" by (simp add: demo_entry_def demo_regs_def)
  have "process_current_task demo_sig = TaskP 0" by (simp add: demo_sig_def demo_kern_inv(3))
  then have b: "\<not> sig_stub_installed (tasks demo_sig (process_current_task demo_sig))"
    by (simp add: demo_sig_def upd_task_def)
  have o: "\<forall>i < 2. 24 \<le> unat (EDGE_SIGTRAMP_ADDR + of_nat i - (r_rsp demo_regs - 24))"
    by (auto simp: less_2_cases_iff demo_regs_def model_simps)
  have h: "demo_mem1 (r_rip demo_entry) = 0xC3"
    by (simp add: demo_mem1_def demo_mem_def put_user_def demo_entry_def signal_frame_def model_simps)
  show ?thesis
    using signal_handler_returns [OF s1 n _ o refl refl refl h] b by (simp add: demo_regs_def)
qed
end
