(* ===== verification/FdIo.thy ===== *)
theory FdIo
  imports Timers
begin

text \<open>
  Reading and writing descriptors in \<^verbatim>\<open>src/sys/syscall.c\<close>: pipes, pseudo terminals with their line discipline,
  event, timer and signal descriptors, and the two system calls that dispatch on the kind of the
  descriptor. A call that waits yields the processor inside its loop. The lemmas relate the ring buffers to
  lists: a pipe is a queue of bytes for all its readers and writers together, and a pseudo terminal passes
  on output with its newlines translated.
\<close>

definition LINUX_VERASE :: nat where [model_simps]: "LINUX_VERASE = 2"

section \<open>Blocking\<close>

text \<open>One pass through a blocking call from the head of its waiting loop: the call returns, or it yields the
  processor (\<^verbatim>\<open>wait_blocking_step\<close>) and later continues at the head of the loop in the state that other tasks
  have left. \<^term>\<open>None\<close> stands for a loop of the timer poll that does not end.\<close>

datatype 's io = Done u64 umem 's | Wait 's

definition blocked :: "u64 \<Rightarrow> edge_fd \<Rightarrow> umem \<Rightarrow> 'a sched_scheme \<Rightarrow> ('a sched_scheme io) option" where
  "blocked now e um s =
     (if fd_oflags e AND LINUX_O_NONBLOCK \<noteq> 0 then Some (Done (uerr EAGAIN) um s)
      else map_option (\<lambda>(intr, s1). if intr then Done (uerr EINTR) um s1 else Wait s1) (signal_pending_interrupt now s))"

section \<open>Rings\<close>

definition ring_pop :: "nat \<Rightarrow> ring \<Rightarrow> u8 \<times> ring" where
  "ring_pop sz r = (rbuf r (rpos r), r\<lparr>rpos := (rpos r + 1) mod sz, rcount := rcount r - 1\<rparr>)"

definition ring_put :: "nat \<Rightarrow> u8 \<Rightarrow> ring \<Rightarrow> ring" where
  "ring_put sz c r = r\<lparr>rbuf := (rbuf r)(wpos r := c), wpos := (wpos r + 1) mod sz, rcount := rcount r + 1\<rparr>"

text \<open>The copy loop of the readers: \<open>chunk\<close> holds the bytes since the last copy to the user.\<close>

function drain_ring :: "nat \<Rightarrow> u64 \<Rightarrow> nat \<Rightarrow> nat \<Rightarrow> u8 list \<Rightarrow> ring \<Rightarrow> umem \<Rightarrow> bool \<times> ring \<times> umem" where
  "drain_ring sz buf n i chunk r um =
     (if n \<le> i then (True, r, um)
      else
        let (c, r1) = ring_pop sz r; chunk1 = chunk @ [c]
        in if i mod 4096 = 4095 \<or> i + 1 = n then
             (case copy_to_user (buf + of_nat (i - i mod 4096)) chunk1 (of_nat (i mod 4096 + 1)) um of
                None \<Rightarrow> (False, r1, um)
              | Some um1 \<Rightarrow> drain_ring sz buf n (i + 1) [] r1 um1)
           else drain_ring sz buf n (i + 1) chunk1 r1 um)"
  by auto
termination by (relation "measure (\<lambda>(_, _, n, i, _). n - i)") auto

declare drain_ring.simps [simp del]

definition drained :: "u64 \<Rightarrow> (ring \<Rightarrow> 's) \<Rightarrow> bool \<times> ring \<times> umem \<Rightarrow> 's io" where
  "drained n put res = (case res of (ok, r, um) \<Rightarrow> Done (if ok then n else uerr EFAULT) um (put r))"

fun fill_ring :: "nat \<Rightarrow> u64 \<Rightarrow> nat \<Rightarrow> ring \<Rightarrow> umem \<Rightarrow> bool \<times> ring" where
  "fill_ring sz buf 0 r um = (True, r)"
| "fill_ring sz buf (Suc n) r um =
     (case copy_from_user buf 1 um of
        None \<Rightarrow> (False, r)
      | Some bs \<Rightarrow> fill_ring sz (buf + 1) n (ring_put sz (hd bs) r) um)"

section \<open>Pipes\<close>

definition pipe_ring :: "edge_pipe \<Rightarrow> ring" where
  "pipe_ring p = \<lparr>rpos = pp_rpos p, wpos = pp_wpos p, rcount = pp_count p, rbuf = pp_buf p\<rparr>"

definition set_pipe_ring :: "nat \<Rightarrow> 'a kern_scheme \<Rightarrow> ring \<Rightarrow> 'a kern_scheme" where
  "set_pipe_ring k s r = s\<lparr>pipes := (pipes s)(k := (pipes s k)\<lparr>pp_buf := rbuf r, pp_rpos := rpos r, pp_wpos := wpos r, pp_count := rcount r\<rparr>)\<rparr>"

text \<open>The waiting loop of a read of a pipe and what follows it.\<close>

definition pipe_read_loop :: "u64 \<Rightarrow> edge_fd \<Rightarrow> u64 \<Rightarrow> u64 \<Rightarrow> umem \<Rightarrow> 'a kern_scheme \<Rightarrow> ('a kern_scheme io) option" where
  "pipe_read_loop now e buf len um s =
     (let k = nat (pipe_id e); pp = pipes s k
      in if pp_count pp = 0 then (if writers pp = 0 then Some (Done 0 um s) else blocked now e um s)
         else
           let n = min (unat len) (pp_count pp)
           in Some (drained (of_nat n) (set_pipe_ring k s) (drain_ring EDGE_PIPE_SIZE buf n 0 [] (pipe_ring pp) um)))"

definition pipe_read :: "u64 \<Rightarrow> edge_fd \<Rightarrow> u64 \<Rightarrow> u64 \<Rightarrow> umem \<Rightarrow> 'a kern_scheme \<Rightarrow> ('a kern_scheme io) option" where
  "pipe_read now e buf len um s =
     (if \<not> in_range (pipe_id e) EDGE_MAX_PIPES \<or> \<not> pp_used (pipes s (nat (pipe_id e))) then Some (Done (uerr EBADF) um s)
      else pipe_read_loop now e buf len um s)"

text \<open>The waiting loop of a write to a pipe and what follows it.\<close>

definition pipe_write_loop :: "u64 \<Rightarrow> edge_fd \<Rightarrow> u64 \<Rightarrow> u64 \<Rightarrow> umem \<Rightarrow> 'a kern_scheme \<Rightarrow> ('a kern_scheme io) option" where
  "pipe_write_loop now e buf len um s =
     (let k = nat (pipe_id e); pp = pipes s k
      in if EDGE_PIPE_SIZE \<le> pp_count pp then (if readers pp = 0 then Some (Done (uerr EPIPE) um s) else blocked now e um s)
         else
           let n = min (unat len) (EDGE_PIPE_SIZE - pp_count pp)
           in case fill_ring EDGE_PIPE_SIZE buf n (pipe_ring pp) um of
                (ok, r) \<Rightarrow> Some (Done (if ok then of_nat n else uerr EFAULT) um (set_pipe_ring k s r)))"

definition pipe_write :: "u64 \<Rightarrow> edge_fd \<Rightarrow> u64 \<Rightarrow> u64 \<Rightarrow> umem \<Rightarrow> 'a kern_scheme \<Rightarrow> ('a kern_scheme io) option" where
  "pipe_write now e buf len um s =
     (let pp = pipes s (nat (pipe_id e))
      in if \<not> in_range (pipe_id e) EDGE_MAX_PIPES then Some (Done (uerr EBADF) um s)
         else if \<not> pp_used pp \<or> readers pp = 0 then Some (Done (uerr EPIPE) um s)
         else pipe_write_loop now e buf len um s)"

section \<open>Event, timer and signal descriptors\<close>

definition eventfd_read :: "u64 \<Rightarrow> edge_fd \<Rightarrow> u64 \<Rightarrow> u64 \<Rightarrow> umem \<Rightarrow> 'a kern_scheme \<Rightarrow> ('a kern_scheme io) option" where
  "eventfd_read now e buf len um s =
     (let k = nat (pipe_id e); ev = eventfds s k
      in if len < 8 then Some (Done (uerr EINVAL) um s)
         else if \<not> in_range (pipe_id e) EDGE_MAX_EVENTFDS \<or> \<not> ev_used ev then Some (Done (uerr EBADF) um s)
         else if ev_counter ev = 0 then blocked now e um s
         else
           let v = (if ev_semaphore ev then 1 else ev_counter ev);
               s1 = s\<lparr>eventfds := (eventfds s)(k := ev\<lparr>ev_counter := ev_counter ev - v\<rparr>)\<rparr>
           in Some (case copy_to_user buf (le_bytes 8 v) 8 um of
                      None \<Rightarrow> Done (uerr EFAULT) um s1
                    | Some um1 \<Rightarrow> Done 8 um1 s1))"

definition eventfd_write :: "u64 \<Rightarrow> edge_fd \<Rightarrow> u64 \<Rightarrow> u64 \<Rightarrow> umem \<Rightarrow> 'a kern_scheme \<Rightarrow> ('a kern_scheme io) option" where
  "eventfd_write now e buf len um s =
     (let k = nat (pipe_id e); ev = eventfds s k
      in if len < 8 then Some (Done (uerr EINVAL) um s)
         else if \<not> in_range (pipe_id e) EDGE_MAX_EVENTFDS \<or> \<not> ev_used ev then Some (Done (uerr EBADF) um s)
         else case copy_from_user buf 8 um of
           None \<Rightarrow> Some (Done (uerr EFAULT) um s)
         | Some bs \<Rightarrow>
             let v = of_le bs
             in if v = - 1 then Some (Done (uerr EINVAL) um s)
                else if - 1 - 1 - ev_counter ev < v then blocked now e um s
                else Some (Done 8 um (s\<lparr>eventfds := (eventfds s)(k := ev\<lparr>ev_counter := ev_counter ev + v\<rparr>)\<rparr>)))"

definition timerfd_read :: "u64 \<Rightarrow> u64 \<Rightarrow> edge_fd \<Rightarrow> u64 \<Rightarrow> u64 \<Rightarrow> umem \<Rightarrow> 'a kern_scheme \<Rightarrow> ('a kern_scheme io) option" where
  "timerfd_read mono_us real_us e buf len um s =
     (let k = nat (pipe_id e); tf = timerfds s k
      in if len < 8 then Some (Done (uerr EINVAL) um s)
         else if \<not> in_range (pipe_id e) EDGE_MAX_TIMERFDS \<or> \<not> tm_used tf then Some (Done (uerr EBADF) um s)
         else case timerfd_expire_count (timerfd_now_us (tm_clockid tf) mono_us real_us) True tf of
           (cnt, tf1) \<Rightarrow>
             if cnt = 0 then blocked mono_us e um s
             else
               let s1 = upd_timerfd k (\<lambda>_. tf1) s
               in Some (case copy_to_user buf (le_bytes 8 cnt) 8 um of
                          None \<Rightarrow> Done (uerr EFAULT) um s1
                        | Some um1 \<Rightarrow> Done 8 um1 s1))"

definition siginfo_bytes :: "int \<Rightarrow> 'a sched_scheme \<Rightarrow> u8 list" where
  "siginfo_bytes sig s = le_bytes 4 (word_of_int sig) @ replicate 8 0 @ le_bytes 4 (word_of_int (process_getpid s)) @
     le_bytes 4 (ucast (process_getuid s)) @ replicate 108 0"

definition signalfd_read :: "edge_fd \<Rightarrow> u64 \<Rightarrow> u64 \<Rightarrow> umem \<Rightarrow> 'a kern_scheme \<Rightarrow> 'a kern_scheme io" where
  "signalfd_read e buf len um s =
     (let sf = signalfds s (nat (pipe_id e))
      in if len < 128 then Done (uerr EINVAL) um s
         else if \<not> in_range (pipe_id e) EDGE_MAX_SIGNALFDS \<or> \<not> sg_used sf then Done (uerr EBADF) um s
         else case signalfd_peek_current sf True s of
           (None, s1) \<Rightarrow> if fd_oflags e AND LINUX_O_NONBLOCK \<noteq> 0 then Done (uerr EAGAIN) um s1 else Wait s1
         | (Some sig, s1) \<Rightarrow>
             (case copy_to_user buf (siginfo_bytes sig s1) 128 um of
                None \<Rightarrow> Done (uerr EFAULT) um s1
              | Some um1 \<Rightarrow> Done 128 um1 s1))"

section \<open>Pseudo terminals\<close>

definition upd_pty :: "nat \<Rightarrow> (edge_pty \<Rightarrow> edge_pty) \<Rightarrow> 'a kern_scheme \<Rightarrow> 'a kern_scheme" where
  "upd_pty k f s = s\<lparr>ptys := (ptys s)(k := f (ptys s k))\<rparr>"

definition pty_in :: "bool \<Rightarrow> edge_pty \<Rightarrow> ring" where "pty_in master p = (if master then s2m p else m2s p)"

definition pty_out :: "bool \<Rightarrow> edge_pty \<Rightarrow> ring" where "pty_out master p = (if master then m2s p else s2m p)"

definition set_pty_in :: "bool \<Rightarrow> ring \<Rightarrow> edge_pty \<Rightarrow> edge_pty" where
  "set_pty_in master r p = (if master then p\<lparr>s2m := r\<rparr> else p\<lparr>m2s := r\<rparr>)"

definition set_pty_out :: "bool \<Rightarrow> ring \<Rightarrow> edge_pty \<Rightarrow> edge_pty" where
  "set_pty_out master r p = (if master then p\<lparr>m2s := r\<rparr> else p\<lparr>s2m := r\<rparr>)"

definition pty_peers :: "bool \<Rightarrow> edge_pty \<Rightarrow> nat" where
  "pty_peers master p = (if master then refs_slave p else refs_master p)"

definition pty_read :: "u64 \<Rightarrow> edge_fd \<Rightarrow> u64 \<Rightarrow> u64 \<Rightarrow> umem \<Rightarrow> 'a kern_scheme \<Rightarrow> ('a kern_scheme io) option" where
  "pty_read now e buf len um s =
     (let k = nat (pipe_id e); p = ptys s k; master = (fd_kind e = FD_PTY_MASTER); r = pty_in master p
      in if \<not> in_range (pipe_id e) EDGE_MAX_PTYS \<or> \<not> pty_used p then Some (Done (uerr EBADF) um s)
         else if rcount r = 0 \<or>
           \<not> master \<and> c_lflag (pty_termios p) AND LINUX_ICANON \<noteq> 0 \<and> \<not> pty_slave_input_have_canonical_line p
         then (if pty_peers master p = 0 then Some (Done 0 um s) else blocked now e um s)
         else
           let n = (if master then min (unat len) (rcount r) else pty_slave_read_limit p (unat len) (rcount r))
           in Some (drained (of_nat n) (\<lambda>r1. upd_pty k (set_pty_in master r1) s) (drain_ring EDGE_PTY_BUF_SIZE buf n 0 [] r um)))"

definition onlcr :: "edge_pty \<Rightarrow> bool" where
  "onlcr p \<longleftrightarrow> c_oflag (pty_termios p) AND LINUX_OPOST \<noteq> 0 \<and> c_oflag (pty_termios p) AND LINUX_ONLCR \<noteq> 0"

definition pty_erase :: "edge_pty \<Rightarrow> edge_pty" where
  "pty_erase p =
     (let prev = (wpos (m2s p) + EDGE_PTY_BUF_SIZE - 1) mod EDGE_PTY_BUF_SIZE
      in if 0 < rcount (m2s p) \<and> rbuf (m2s p) prev \<noteq> 10 then
           let p1 = p\<lparr>m2s := (m2s p)\<lparr>wpos := prev, rcount := rcount (m2s p) - 1\<rparr>\<rparr>
           in if c_lflag (pty_termios p1) AND LINUX_ECHO \<noteq> 0 then pty_echo_seq_to_master [8, 32, 8] p1 else p1
         else p)"

definition pty_echo :: "u8 \<Rightarrow> edge_pty \<Rightarrow> edge_pty" where
  "pty_echo c p =
     (if c_lflag (pty_termios p) AND LINUX_ECHO = 0 then p
      else if (c = 13 \<or> c = 10) \<and> onlcr p then pty_echo_seq_to_master [13, 10] p
      else pty_echo_to_master c p)"

text \<open>The interrupt character: SIGINT to the foreground process group, and its echo.\<close>

definition pty_interrupt :: "nat \<Rightarrow> 'a kern_scheme \<Rightarrow> 'a kern_scheme option" where
  "pty_interrupt k s =
     (let fg0 = fg_pgid (ptys s k); fg = (if fg0 \<le> 0 then process_getpgid 0 s else fg0)
      in case (if 0 < fg then map_option snd (do_sys_kill (uret (- fg)) 2 s) else Some s) of
           None \<Rightarrow> None
         | Some s1 \<Rightarrow>
             Some (if c_lflag (pty_termios (ptys s1 k)) AND LINUX_ECHO \<noteq> 0
                   then upd_pty k (pty_echo_seq_to_master [94, 67, 10]) s1 else s1))"

fun pty_write_loop :: "bool \<Rightarrow> nat \<Rightarrow> u64 \<Rightarrow> nat \<Rightarrow> nat \<Rightarrow> umem \<Rightarrow> 'a kern_scheme \<Rightarrow> (u64 \<times> 'a kern_scheme) option" where
  "pty_write_loop master k buf 0 i um s = Some (of_nat i, s)"
| "pty_write_loop master k buf (Suc m) i um s =
     (case copy_from_user (buf + of_nat i) 1 um of
        None \<Rightarrow> Some (uerr EFAULT, s)
      | Some bs \<Rightarrow>
          let c = hd bs; p = ptys s k; nl = (\<not> master \<and> c = 10 \<and> onlcr p)
          in if EDGE_PTY_BUF_SIZE - rcount (pty_out master p) < (if nl then 2 else 1) then Some (of_nat i, s)
             else
               let s1 = (if nl then upd_pty k (set_pty_out master (ring_put EDGE_PTY_BUF_SIZE 13 (pty_out master p))) s else s)
               in if master \<and> c_lflag (pty_termios p) AND LINUX_ISIG \<noteq> 0 \<and> c = 3 then
                    (case pty_interrupt k s1 of None \<Rightarrow> None | Some s2 \<Rightarrow> pty_write_loop master k buf m (i + 1) um s2)
                  else if master \<and> c_lflag (pty_termios p) AND LINUX_ICANON \<noteq> 0 \<and> c = c_cc (pty_termios p) ! LINUX_VERASE then
                    pty_write_loop master k buf m (i + 1) um (upd_pty k pty_erase s1)
                  else
                    let s2 = (if master then upd_pty k (pty_echo c) s1 else s1)
                    in pty_write_loop master k buf m (i + 1) um
                         (upd_pty k (\<lambda>q. set_pty_out master (ring_put EDGE_PTY_BUF_SIZE c (pty_out master q)) q) s2))"

definition pty_write :: "u64 \<Rightarrow> edge_fd \<Rightarrow> u64 \<Rightarrow> u64 \<Rightarrow> umem \<Rightarrow> 'a kern_scheme \<Rightarrow> ('a kern_scheme io) option" where
  "pty_write now e buf len um s =
     (let k = nat (pipe_id e); p = ptys s k; master = (fd_kind e = FD_PTY_MASTER); cnt = rcount (pty_out master p)
      in if \<not> in_range (pipe_id e) EDGE_MAX_PTYS \<or> \<not> pty_used p then Some (Done (uerr EBADF) um s)
         else if EDGE_PTY_BUF_SIZE \<le> cnt then (if pty_peers master p = 0 then Some (Done (uerr EPIPE) um s) else blocked now e um s)
         else map_option (\<lambda>(n, s1). Done n um s1)
                (pty_write_loop master k buf (min (unat len) (EDGE_PTY_BUF_SIZE - cnt)) 0 um s))"

section \<open>The system calls\<close>

text \<open>The branches for the console, sockets and files are the argument \<open>other\<close>.\<close>

definition do_sys_fd_read ::
  "(edge_fd \<Rightarrow> u64 \<Rightarrow> u64 \<Rightarrow> umem \<Rightarrow> 'a kern_scheme \<Rightarrow> ('a kern_scheme io) option) \<Rightarrow> u64 \<Rightarrow> u64 \<Rightarrow> u64 \<Rightarrow> u64 \<Rightarrow> u64 \<Rightarrow> umem \<Rightarrow>
   'a kern_scheme \<Rightarrow> ('a kern_scheme io) option"
where
  "do_sys_fd_read other mono_us real_us fd_u buf_u len um s =
     (if buf_u = 0 then Some (Done (uerr EINVAL) um s)
      else if len = 0 then Some (Done 0 um s)
      else case fd_here (c_int_of fd_u) s of
        (None, s1) \<Rightarrow> Some (Done (uerr EBADF) um s1)
      | (Some (p, e), s1) \<Rightarrow>
          (case fd_kind e of
             FD_PTY_MASTER \<Rightarrow> pty_read mono_us e buf_u len um s1
           | FD_PTY_SLAVE \<Rightarrow> pty_read mono_us e buf_u len um s1
           | FD_EVENTFD \<Rightarrow> eventfd_read mono_us e buf_u len um s1
           | FD_TIMERFD \<Rightarrow> timerfd_read mono_us real_us e buf_u len um s1
           | FD_SIGNALFD \<Rightarrow> Some (signalfd_read e buf_u len um s1)
           | FD_PIDFD \<Rightarrow> Some (Done (uerr EINVAL) um s1)
           | FD_EPOLL \<Rightarrow> Some (Done (uerr EINVAL) um s1)
           | FD_PIPE_R \<Rightarrow> pipe_read mono_us e buf_u len um s1
           | FD_PIPE_W \<Rightarrow> Some (Done (uerr EBADF) um s1)
           | FD_NONE \<Rightarrow> Some (Done (uerr EBADF) um s1)
           | _ \<Rightarrow> other e buf_u len um s1))"

definition do_sys_fd_write ::
  "(edge_fd \<Rightarrow> u64 \<Rightarrow> u64 \<Rightarrow> umem \<Rightarrow> 'a kern_scheme \<Rightarrow> ('a kern_scheme io) option) \<Rightarrow> u64 \<Rightarrow> u64 \<Rightarrow> u64 \<Rightarrow> u64 \<Rightarrow> umem \<Rightarrow>
   'a kern_scheme \<Rightarrow> ('a kern_scheme io) option"
where
  "do_sys_fd_write other mono_us fd_u buf_u len um s =
     (if buf_u = 0 then Some (Done (uerr EINVAL) um s)
      else if len = 0 then Some (Done 0 um s)
      else case fd_here (c_int_of fd_u) s of
        (None, s1) \<Rightarrow> Some (Done (uerr EBADF) um s1)
      | (Some (p, e), s1) \<Rightarrow>
          (case fd_kind e of
             FD_PTY_MASTER \<Rightarrow> pty_write mono_us e buf_u len um s1
           | FD_PTY_SLAVE \<Rightarrow> pty_write mono_us e buf_u len um s1
           | FD_EVENTFD \<Rightarrow> eventfd_write mono_us e buf_u len um s1
           | FD_TIMERFD \<Rightarrow> Some (Done (uerr EINVAL) um s1)
           | FD_SIGNALFD \<Rightarrow> Some (Done (uerr EINVAL) um s1)
           | FD_EPOLL \<Rightarrow> Some (Done (uerr EINVAL) um s1)
           | FD_PIDFD \<Rightarrow> Some (Done (uerr EINVAL) um s1)
           | FD_PIPE_W \<Rightarrow> pipe_write mono_us e buf_u len um s1
           | FD_PIPE_R \<Rightarrow> Some (Done (uerr EBADF) um s1)
           | FD_NONE \<Rightarrow> Some (Done (uerr EBADF) um s1)
           | _ \<Rightarrow> other e buf_u len um s1))"

section \<open>Rings as queues\<close>

lemma pipe_size: "EDGE_PIPE_SIZE = EDGE_PTY_BUF_SIZE"
  by (simp add: EDGE_PIPE_SIZE_def EDGE_PTY_BUF_SIZE_def)

lemma ring_list_length [simp]: "length (ring_list r) = rcount r"
  by (simp add: ring_list_def)

definition ring_skip :: "nat \<Rightarrow> ring \<Rightarrow> ring" where
  "ring_skip n r = r\<lparr>rpos := (rpos r + n) mod EDGE_PTY_BUF_SIZE, rcount := rcount r - n\<rparr>"

lemma ring_skip_list:
  assumes "ring_ok r" "n \<le> rcount r"
  shows "ring_ok (ring_skip n r)" "ring_list (ring_skip n r) = drop n (ring_list r)"
proof -
  have s: "0 < EDGE_PTY_BUF_SIZE" by (simp add: EDGE_PTY_BUF_SIZE_def)
  have "((rpos r + n) mod EDGE_PTY_BUF_SIZE + (rcount r - n)) mod EDGE_PTY_BUF_SIZE = (rpos r + rcount r) mod EDGE_PTY_BUF_SIZE"
    unfolding mod_add_left_eq using assms(2) by simp
  then show "ring_ok (ring_skip n r)" using assms s by (auto simp: ring_ok_def ring_skip_def simp del: add_diff_assoc)
  show "ring_list (ring_skip n r) = drop n (ring_list r)"
    by (rule nth_equalityI) (use assms(2) in \<open>auto simp: ring_list_def ring_skip_def mod_simps add.assoc\<close>)
qed

lemma ring_pop_skip:
  assumes "ring_ok r" "0 < rcount r"
  shows "ring_pop EDGE_PTY_BUF_SIZE r = (hd (ring_list r), ring_skip 1 r)"
  using assms by (simp add: ring_pop_def ring_skip_def ring_list_def upt_conv_Cons ring_ok_def)

lemma ring_skip_skip: "ring_skip m (ring_skip n r) = ring_skip (n + m) r"
  by (simp add: ring_skip_def mod_simps add.assoc)

lemma ring_put_list:
  assumes "ring_ok r" "rcount r < EDGE_PTY_BUF_SIZE"
  shows "ring_ok (ring_put EDGE_PTY_BUF_SIZE c r)" "ring_list (ring_put EDGE_PTY_BUF_SIZE c r) = ring_list r @ [c]"
proof -
  have "pty_ring_push c r = Some (ring_put EDGE_PTY_BUF_SIZE c r)"
    using assms(2) by (simp add: pty_ring_push_def ring_put_def)
  then show "ring_ok (ring_put EDGE_PTY_BUF_SIZE c r)" "ring_list (ring_put EDGE_PTY_BUF_SIZE c r) = ring_list r @ [c]"
    using ring_push_list [OF assms(1)] by simp_all
qed

text \<open>The copy loop of the readers transfers the oldest bytes in one piece.\<close>

lemma drain_closed:
  assumes "ring_ok r" "length chunk = i" "i < n" "n \<le> EDGE_PTY_BUF_SIZE" "n - i \<le> rcount r"
  shows "drain_ring EDGE_PTY_BUF_SIZE buf n i chunk r um =
    (case copy_to_user buf (chunk @ take (n - i) (ring_list r)) (of_nat n) um of
       None \<Rightarrow> (False, ring_skip (n - i) r, um) | Some um1 \<Rightarrow> (True, ring_skip (n - i) r, um1))"
  using assms
proof (induction "n - i" arbitrary: i chunk r)
  case (Suc d)
  have n: "n \<le> 4096" using Suc.prems(4) by (simp add: EDGE_PTY_BUF_SIZE_def)
  have im: "i mod 4096 = i" "i mod 4096 = 4095 \<longrightarrow> i + 1 = n" using Suc.prems(3) n by auto
  have cnt: "0 < rcount r" using Suc.prems(3,5) by simp
  note pop = ring_pop_skip [OF Suc.prems(1) cnt] and sk = ring_skip_list [OF Suc.prems(1), of 1]
  have hd: "take (n - i) (ring_list r) = hd (ring_list r) # take (n - Suc i) (drop 1 (ring_list r))"
    using cnt Suc.prems(3) by (cases "ring_list r") (auto simp: Suc_diff_Suc [symmetric] dest: arg_cong [of _ _ length])
  show ?case
  proof (cases "i + 1 = n")
    case True
    then have "n - i = 1" "n - Suc i = 0" by auto
    then show ?thesis
      using True hd im(1) by (simp add: drain_ring.simps [of _ _ _ i] pop drain_ring.simps [of _ _ n n] split: option.split)
  next
    case False
    have "drain_ring EDGE_PTY_BUF_SIZE buf n (i + 1) (chunk @ [hd (ring_list r)]) (ring_skip 1 r) um =
      (case copy_to_user buf ((chunk @ [hd (ring_list r)]) @ take (n - (i + 1)) (ring_list (ring_skip 1 r))) (of_nat n) um of
         None \<Rightarrow> (False, ring_skip (n - (i + 1)) (ring_skip 1 r), um)
       | Some um1 \<Rightarrow> (True, ring_skip (n - (i + 1)) (ring_skip 1 r), um1))"
      by (rule Suc.hyps(1)) (use Suc False cnt sk in \<open>auto simp: ring_skip_def\<close>)
    moreover have "drain_ring EDGE_PTY_BUF_SIZE buf n i chunk r um =
        drain_ring EDGE_PTY_BUF_SIZE buf n (i + 1) (chunk @ [hd (ring_list r)]) (ring_skip 1 r) um"
      using False im Suc.prems(3) by (subst drain_ring.simps) (simp add: pop)
    moreover have "ring_skip (n - (i + 1)) (ring_skip 1 r) = ring_skip (n - i) r"
      using Suc.prems(3) by (simp add: ring_skip_skip Suc_diff_Suc)
    ultimately show ?thesis using hd sk(2) cnt by (simp split: option.split)
  qed
qed simp

lemma fill_closed:
  assumes "ring_ok r" "n \<le> EDGE_PTY_BUF_SIZE - rcount r" "fill_ring EDGE_PTY_BUF_SIZE buf n r um = (ok, r')"
  shows "ring_ok r' \<and> (\<exists>j \<le> n. ring_list r' = ring_list r @ get_user um buf j \<and> (ok \<longrightarrow> j = n))"
  using assms
proof (induction n arbitrary: buf r)
  case (Suc n)
  show ?case
  proof (cases "copy_from_user buf 1 um")
    case (Some bs)
    then have bs: "bs = [um buf]" by (auto simp: copy_byte split: if_splits)
    have p: "ring_ok (ring_put EDGE_PTY_BUF_SIZE (um buf) r)" "ring_list (ring_put EDGE_PTY_BUF_SIZE (um buf) r) = ring_list r @ [um buf]"
      using ring_put_list [OF Suc.prems(1), of "um buf"] Suc.prems(2) by auto
    have "rcount (ring_put EDGE_PTY_BUF_SIZE (um buf) r) = rcount r + 1" by (simp add: ring_put_def)
    moreover have "n \<le> EDGE_PTY_BUF_SIZE - (rcount r + 1)" using Suc.prems(2) by linarith
    ultimately obtain j where "ring_ok r'" "j \<le> n" "ring_list r' = (ring_list r @ [um buf]) @ get_user um (buf + 1) j" "ok \<longrightarrow> j = n"
      using Suc.IH [OF p(1), of "buf + 1"] Suc.prems(2,3) Some bs p(2) by auto
    then show ?thesis by (intro conjI exI [of _ "Suc j"]) (auto simp: get_user_Cons)
  qed (use Suc.prems in \<open>auto simp: get_user_def intro!: exI [of _ 0]\<close>)
qed (simp add: get_user_def)

section \<open>A pipe is a queue\<close>

definition pipe_bytes :: "nat \<Rightarrow> 'a kern_scheme \<Rightarrow> u8 list" where
  "pipe_bytes k s = ring_list (pipe_ring (pipes s k))"

text \<open>What can happen to pipe \<open>k\<close>: a pass through a read or a write of it, from the start of the call or from the head of
  its waiting loop, that returns any result (\<open>Got\<close> with the result, the length asked for and, for a result that is not an error, the bytes then found in the
  buffer of the caller; \<open>Put\<close> with the result and the buffer offered), or one that waits, or a step that does not touch the pipe (\<open>Other\<close>).\<close>

datatype pipe_act = Got u64 nat "u8 list" | Put u64 "u8 list" | Other

definition got_act :: "u64 \<Rightarrow> u64 \<Rightarrow> u64 \<Rightarrow> umem \<Rightarrow> pipe_act" where
  "got_act r buf len um1 = Got r (unat len) (if 0 \<le> sint r then get_user um1 buf (unat r) else [])"

definition put_act :: "u64 \<Rightarrow> u64 \<Rightarrow> u64 \<Rightarrow> umem \<Rightarrow> pipe_act" where
  "put_act r buf len um = Put r (get_user um buf (unat len))"

inductive pipe_step :: "nat \<Rightarrow> 'a kern_scheme \<Rightarrow> pipe_act \<Rightarrow> 'a kern_scheme \<Rightarrow> bool" for k where
  step_read: "call \<in> {pipe_read, pipe_read_loop} \<Longrightarrow> call now e buf len um s = Some (Done r um1 s1) \<Longrightarrow> pipe_id e = int k \<Longrightarrow>
    pipe_step k s (got_act r buf len um1) s1"
| step_write: "call \<in> {pipe_write, pipe_write_loop} \<Longrightarrow> call now e buf len um s = Some (Done r um1 s1) \<Longrightarrow> pipe_id e = int k \<Longrightarrow>
    pipe_step k s (put_act r buf len um) s1"
| step_wait: "call \<in> {pipe_read, pipe_read_loop, pipe_write, pipe_write_loop} \<Longrightarrow> call now e buf len um s = Some (Wait s1) \<Longrightarrow>
    pipe_id e = int k \<Longrightarrow> pipe_step k s Other s1"
| step_other: "pipes s1 k = pipes s k \<Longrightarrow> pipe_step k s Other s1"

inductive pipe_run :: "nat \<Rightarrow> 'a kern_scheme \<Rightarrow> pipe_act list \<Rightarrow> 'a kern_scheme \<Rightarrow> bool" for k s where
  start: "pipe_run k s [] s"
| more: "pipe_run k s acts s1 \<Longrightarrow> pipe_step k s1 a s2 \<Longrightarrow> pipe_run k s (acts @ [a]) s2"

text \<open>The bytes that an action puts into the queue and takes out of it. A result that is not an error is exact; \<^verbatim>\<open>EFAULT\<close> of a
  write leaves some initial part of its buffer in the pipe, \<^verbatim>\<open>EFAULT\<close> of a read has taken bytes, at most as many as it asked for; every other
  error, and everything else, moves nothing.\<close>

fun moves :: "pipe_act \<Rightarrow> u8 list \<Rightarrow> u8 list \<Rightarrow> bool" where
  "moves (Got r n bs) i out \<longleftrightarrow> i = [] \<and>
     (if 0 \<le> sint r then out = bs \<and> length bs = unat r \<and> unat r \<le> n else if r = uerr EFAULT then length out \<le> n else out = [])"
| "moves (Put r bs) i out \<longleftrightarrow> out = [] \<and>
     (if 0 \<le> sint r then i = take (unat r) bs \<and> unat r \<le> length bs else if r = uerr EFAULT then (\<exists>n. i = take n bs) else i = [])"
| "moves Other i out \<longleftrightarrow> i = [] \<and> out = []"

lemma pipe_ring_set [simp]: "pipe_ring (pipes (set_pipe_ring k s r) k) = r"
  by (simp add: pipe_ring_def set_pipe_ring_def)

lemma uerr_negative [simp]:
  "\<not> 0 \<le> sint (uerr EBADF)" "\<not> 0 \<le> sint (uerr EAGAIN)" "\<not> 0 \<le> sint (uerr EINTR)" "\<not> 0 \<le> sint (uerr EFAULT)"
  "\<not> 0 \<le> sint (uerr EPIPE)"
  by (simp_all add: uerr_def model_simps)

lemma blocked_result:
  fixes s :: "'a kern_scheme"
  assumes "blocked now e um s = Some io"
  shows "\<exists>s1. pipes s1 = pipes s \<and> (io = Wait s1 \<or> io = Done (uerr EAGAIN) um s1 \<or> io = Done (uerr EINTR) um s1)"
proof (cases "fd_oflags e AND LINUX_O_NONBLOCK \<noteq> 0")
  case False
  then obtain z where p: "task_timer_poll now (tasks s (process_current_task s)) = Some z"
    using assms by (cases "task_timer_poll now (tasks s (process_current_task s))") (auto simp: blocked_def signal_pending_interrupt_def Let_def)
  have z: "io = (case pending_interrupt z of (b, t1) \<Rightarrow>
      let s1 = upd_task (process_current_task s) (\<lambda>_. t1) s in if b then Done (uerr EINTR) um s1 else Wait s1)"
    using assms False p by (cases "pending_interrupt z") (auto simp: blocked_def signal_pending_interrupt_def Let_def)
  show ?thesis
    by (rule exI [of _ "upd_task (process_current_task s) (\<lambda>_. snd (pending_interrupt z)) s"])
      (simp add: z Let_def upd_task_def split: prod.splits)
qed (use assms in \<open>auto simp: blocked_def\<close>)

lemma blocked_done: "blocked now e um s = Some (Done r um1 s1) \<Longrightarrow> \<not> 0 \<le> sint r"
  by (auto simp: blocked_def split: if_splits)

lemma copy_to_user_get:
  assumes "copy_to_user buf bs (of_nat n) um = Some um1" "length bs = n" "n \<le> 4096"
  shows "get_user um1 buf n = bs"
proof -
  have "unat (ucast (of_nat n :: u64) :: u32) = n"
    using assms(3) by (simp add: unsigned_ucast_eq unsigned_of_nat take_bit_nat_eq_self)
  then have "um1 = put_user um buf bs" using assms(1,2) by (auto simp: copy_to_user_def split: if_splits)
  then show ?thesis using get_put_user [of 0 n bs buf buf um] assms(2,3) by simp
qed

lemma unat_of_small: "n \<le> 4096 \<Longrightarrow> unat (of_nat n :: u64) = n"
  by (simp add: unsigned_of_nat take_bit_nat_eq_self)

lemma drained_result:
  assumes "ring_ok r" "n \<le> rcount r" "drained (of_nat n) store (drain_ring EDGE_PTY_BUF_SIZE buf n 0 [] r um) = Done v um1 s1"
  shows "s1 = store (ring_skip n r) \<and> (v = of_nat n \<and> get_user um1 buf n = take n (ring_list r) \<or> v = uerr EFAULT)"
proof (cases "n = 0")
  case True
  have "ring_skip 0 r = r" using assms(1) by (simp add: ring_skip_def ring_ok_def)
  then show ?thesis using True assms(3) by (simp add: drain_ring.simps drained_def get_user_def)
next
  case False
  have n: "n \<le> 4096" "n \<le> EDGE_PTY_BUF_SIZE" using assms(1,2) by (simp_all add: ring_ok_def EDGE_PTY_BUF_SIZE_def)
  then show ?thesis
    using drain_closed [OF assms(1), of "[]" 0 n buf um] False assms(2,3) copy_to_user_get [of buf "take n (ring_list r)" n um um1]
    by (auto simp: drained_def split: option.splits)
qed

lemma small_result: "n \<le> 4096 \<Longrightarrow> unat (of_nat n :: u64) = n \<and> 0 \<le> sint (of_nat n :: u64)"
  by (simp add: unat_of_small sint_uint signed_take_bit_eq_if_positive bit_iff_odd uint_nat)

lemma uerr_distinct [simp]: "uerr EBADF \<noteq> uerr EFAULT" "uerr EAGAIN \<noteq> uerr EFAULT" "uerr EINTR \<noteq> uerr EFAULT" "uerr EPIPE \<noteq> uerr EFAULT"
  by (simp_all add: uerr_def model_simps)

text \<open>What one step does to the queue.\<close>

definition pipe_moves :: "nat \<Rightarrow> 'a kern_scheme \<Rightarrow> pipe_act \<Rightarrow> 'a kern_scheme \<Rightarrow> bool" where
  "pipe_moves k s a s1 \<longleftrightarrow> ring_ok (pipe_ring (pipes s1 k)) \<and>
     (\<exists>i out. moves a i out \<and> pipe_bytes k s @ i = out @ pipe_bytes k s1)"

lemma pipe_moves_none:
  assumes "ring_ok (pipe_ring (pipes s k))" "pipes s1 k = pipes s k" "moves a [] []"
  shows "pipe_moves k s a s1"
  using assms unfolding pipe_moves_def pipe_bytes_def by (intro conjI exI [of _ "[]"]) simp_all

lemma blocked_moves:
  fixes s :: "'a kern_scheme"
  assumes "ring_ok (pipe_ring (pipes s k))" "blocked now e um s = Some (Done r um1 s1)"
  shows "pipe_moves k s (got_act r buf len um1) s1" "pipe_moves k s (put_act r buf len um1) s1"
  using blocked_result [OF assms(2)] by (auto intro!: pipe_moves_none assms(1) simp: got_act_def put_act_def)

lemma pipe_read_moves:
  assumes "pipe_read_loop now e buf len um s = Some (Done r um1 s1)" "pipe_id e = int k" "ring_ok (pipe_ring (pipes s k))"
  shows "pipe_moves k s (got_act r buf len um1) s1"
proof (cases "pp_count (pipes s k) = 0")
  case True
  show ?thesis
  proof (cases "writers (pipes s k) = 0")
    case True
    with \<open>pp_count (pipes s k) = 0\<close> have "r = 0" "s1 = s" using assms(1,2) by (simp_all add: pipe_read_loop_def)
    then show ?thesis by (intro pipe_moves_none assms(3)) (simp_all add: got_act_def get_user_def)
  next
    case False
    with True have "blocked now e um s = Some (Done r um1 s1)" using assms(1,2) by (simp add: pipe_read_loop_def)
    then show ?thesis by (rule blocked_moves [OF assms(3)])
  qed
next
  case False
  let ?r = "pipe_ring (pipes s k)" and ?n = "min (unat len) (pp_count (pipes s k))"
  have d: "drained (of_nat ?n) (set_pipe_ring k s) (drain_ring EDGE_PTY_BUF_SIZE buf ?n 0 [] ?r um) = Done r um1 s1"
    using assms(1,2) False by (simp add: pipe_read_loop_def Let_def pipe_size)
  have n: "?n \<le> rcount ?r" "?n \<le> 4096" using assms(3) by (auto simp: pipe_ring_def ring_ok_def EDGE_PTY_BUF_SIZE_def)
  note l = ring_skip_list [OF assms(3) n(1)] and c = drained_result [OF assms(3) n(1) d]
  have "length (take ?n (ring_list ?r)) = ?n" using n(1) by simp
  then have "moves (got_act r buf len um1) [] (take ?n (ring_list ?r))"
    using c small_result [OF n(2)] by (auto simp: got_act_def)
  moreover have "pipe_bytes k s @ [] = take ?n (ring_list ?r) @ pipe_bytes k s1" "ring_ok (pipe_ring (pipes s1 k))"
    using c l by (auto simp: pipe_bytes_def)
  ultimately show ?thesis unfolding pipe_moves_def by blast
qed

lemma pipe_write_moves:
  assumes "pipe_write_loop now e buf len um s = Some (Done r um1 s1)" "pipe_id e = int k" "ring_ok (pipe_ring (pipes s k))"
  shows "pipe_moves k s (put_act r buf len um) s1"
proof (cases "EDGE_PIPE_SIZE \<le> pp_count (pipes s k)")
  case True
  show ?thesis
  proof (cases "readers (pipes s k) = 0")
    case False
    with True have b: "blocked now e um s = Some (Done r um1 s1)" using assms(1,2) by (simp add: pipe_write_loop_def)
    moreover have "um1 = um" using blocked_result [OF b] by auto
    ultimately show ?thesis using blocked_moves(2) [OF assms(3), of now e um r um1 s1 buf len] by simp
  qed (use True assms in \<open>auto simp: pipe_write_loop_def put_act_def intro!: pipe_moves_none\<close>)
next
  case False
  let ?r = "pipe_ring (pipes s k)" and ?n = "min (unat len) (EDGE_PIPE_SIZE - pp_count (pipes s k))"
  obtain ok r' where f: "fill_ring EDGE_PTY_BUF_SIZE buf ?n ?r um = (ok, r')" by fastforce
  have n: "?n \<le> EDGE_PTY_BUF_SIZE - rcount ?r" "?n \<le> 4096" by (simp_all add: pipe_ring_def pipe_size EDGE_PTY_BUF_SIZE_def)
  obtain j where j: "ring_ok r'" "j \<le> ?n" "ring_list r' = ring_list ?r @ get_user um buf j" "ok \<Longrightarrow> j = ?n"
    using fill_closed [OF assms(3) n(1) f] by blast
  have s1: "r = (if ok then of_nat ?n else uerr EFAULT)" "s1 = set_pipe_ring k s r'"
    using assms(1,2) False f by (auto simp: pipe_write_loop_def Let_def pipe_size)
  have t: "get_user um buf j = take j (get_user um buf (unat len))" using j(2) by (simp add: get_user_def take_map)
  then have "moves (put_act r buf len um) (get_user um buf j) []"
    using s1(1) j(4) small_result [OF n(2)] by (auto simp: put_act_def get_user_def)
  then show ?thesis using j(1,3) s1(2) by (auto simp: pipe_moves_def pipe_bytes_def)
qed

lemma pipe_waits:
  assumes "call \<in> {pipe_read, pipe_read_loop, pipe_write, pipe_write_loop}" "call now e buf len um s = Some (Wait s1)"
  shows "pipes s1 = pipes s"
  using assms blocked_result [of now e um s "Wait s1"]
  by (auto simp: pipe_read_def pipe_read_loop_def pipe_write_def pipe_write_loop_def Let_def drained_def split: if_splits prod.splits)

lemma pipe_step_moves:
  assumes "pipe_step k s a s1" "ring_ok (pipe_ring (pipes s k))"
  shows "pipe_moves k s a s1"
  using assms
proof cases
  case (step_write call now e buf len um r um1)
  then have "pipe_write_loop now e buf len um s = Some (Done r um1 s1) \<or> s1 = s \<and> (r = uerr EBADF \<or> r = uerr EPIPE)"
    by (auto simp: pipe_write_def Let_def split: if_splits)
  then show ?thesis
  proof (elim disjE conjE)
    assume "pipe_write_loop now e buf len um s = Some (Done r um1 s1)"
    then show ?thesis unfolding step_write(1) using step_write(4) assms(2) by (rule pipe_write_moves)
  qed (use step_write(1) assms(2) in \<open>auto simp: put_act_def intro!: pipe_moves_none\<close>)
next
  case (step_read call now e buf len um r um1)
  then have "pipe_read_loop now e buf len um s = Some (Done r um1 s1) \<or> s1 = s \<and> r = uerr EBADF"
    by (auto simp: pipe_read_def split: if_splits)
  then show ?thesis
  proof (elim disjE conjE)
    assume "pipe_read_loop now e buf len um s = Some (Done r um1 s1)"
    then show ?thesis unfolding step_read(1) using step_read(4) assms(2) by (rule pipe_read_moves)
  qed (use step_read(1) assms(2) in \<open>auto simp: got_act_def intro!: pipe_moves_none\<close>)
next
  case (step_wait call now e buf len um)
  have "pipes s1 = pipes s" using step_wait(2,3) by (rule pipe_waits)
  then show ?thesis using step_wait(1) assms(2) by (auto intro!: pipe_moves_none)
qed (use assms(2) in \<open>auto intro!: pipe_moves_none\<close>)

text \<open>
  C13: A pipe is a queue. Whatever reads and writes of a pipe are made, by any processes, in any order and with any
  sizes and results, first or after waiting, between any steps that leave the pipe alone: every action puts bytes at the end of the queue or takes
  bytes from its front, and the bytes it held at the start followed by all that were put in are all that were taken out followed by
  what it holds at the end; the positions in the ring stay consistent. A write that returns a count has put in exactly that many first bytes of its buffer, a read that
  returns a count has delivered exactly the bytes it took; errors move nothing, except \<^verbatim>\<open>EFAULT\<close>: a faulting
  write may leave a part of its buffer in the pipe without reporting it, and a faulting read loses the bytes it took,
  at most as many as it asked for. Without such faults nothing is lost, duplicated or reordered.
\<close>
theorem pipe_fifo:
  assumes "pipe_run k s acts s'" "ring_ok (pipe_ring (pipes s k))"
  shows "ring_ok (pipe_ring (pipes s' k)) \<and>
    (\<exists>tr. list_all2 (\<lambda>a t. moves a (fst t) (snd t)) acts tr \<and>
       pipe_bytes k s @ concat (map fst tr) = concat (map snd tr) @ pipe_bytes k s')"
  using assms
proof induction
  case (more acts s1 a s2)
  then obtain tr where tr: "list_all2 (\<lambda>a t. moves a (fst t) (snd t)) acts tr"
    "pipe_bytes k s @ concat (map fst tr) = concat (map snd tr) @ pipe_bytes k s1" by blast
  obtain i out where m: "moves a i out" "pipe_bytes k s1 @ i = out @ pipe_bytes k s2" "ring_ok (pipe_ring (pipes s2 k))"
    using pipe_step_moves more by (metis pipe_moves_def)
  have "list_all2 (\<lambda>a t. moves a (fst t) (snd t)) (acts @ [a]) (tr @ [(i, out)])"
    using tr(1) m(1) by (simp add: list_all2_appendI)
  moreover have "pipe_bytes k s @ concat (map fst (tr @ [(i, out)])) = concat (map snd (tr @ [(i, out)])) @ pipe_bytes k s2"
    using arg_cong [OF tr(2), of "\<lambda>xs. xs @ i"] m(2) by simp
  ultimately show ?case using m(3) by blast
qed (auto intro!: exI [of _ "[]"])


definition demo_pipe_end :: edge_fd where
  "demo_pipe_end = end_fd FD_PIPE_W 1 0 0 0"

definition demo_pipe :: kern where
  "demo_pipe = demo_kern\<lparr>pipes := (\<lambda>_. zero_pipe)(0 := zero_pipe\<lparr>pp_used := True, readers := 1, writers := 1\<rparr>)\<rparr>"

definition demo_umem :: umem where
  "demo_umem = put_user (\<lambda>_. 0) 0x2000 [104, 101, 121]"

text \<open>Three bytes are written and two are read: one remains.\<close>

theorem pipe_fifo_witness:
  "\<exists>s1 um2 s2. pipe_write 0 demo_pipe_end 0x2000 3 demo_umem demo_pipe = Some (Done 3 demo_umem s1) \<and>
     pipe_read 0 demo_pipe_end 0x3000 2 demo_umem s1 = Some (Done 2 um2 s2) \<and>
     [104, 101, 121] = get_user um2 0x3000 2 @ pipe_bytes 0 s2"
proof -
  let ?r = "\<lparr>rpos = 0, wpos = 3, rcount = 3, rbuf = (\<lambda>_. 0)(0 := 104, 1 := 101, 2 := 121)\<rparr>"
  let ?s1 = "set_pipe_ring 0 demo_pipe ?r"
  have m: "demo_umem 0x2000 = 104" "demo_umem 0x2001 = 101" "demo_umem 0x2002 = 121" "get_user demo_umem 0x2000 3 = [104, 101, 121]"
    by (simp_all add: demo_umem_def put_user_def get_user_def upt_rec)
  have ok: "ring_ok ?r" "ring_ok (pipe_ring (pipes demo_pipe 0))"
    by (simp_all add: ring_ok_def pipe_ring_def demo_pipe_def zero_pipe_def EDGE_PTY_BUF_SIZE_def)
  have g: "user_range_ok 0x2000 1" "user_range_ok 0x2001 1" "user_range_ok 0x2002 1" by (simp_all add: user_byte_ok)
  have p0: "pipe_ring (pipes demo_pipe 0) = zero_ring" by (simp add: pipe_ring_def demo_pipe_def zero_pipe_def zero_ring_def)
  have "fill_ring 4096 0x2000 (Suc (Suc (Suc 0))) zero_ring demo_umem = (True, ?r)"
    by (simp add: copy_byte g m(1-3) ring_put_def zero_ring_def numeral_2_eq_2)
  then have "fill_ring EDGE_PIPE_SIZE 0x2000 3 (pipe_ring (pipes demo_pipe 0)) demo_umem = (True, ?r)"
    by (simp add: p0 EDGE_PIPE_SIZE_def numeral_3_eq_3 [symmetric])
  then have w: "pipe_write 0 demo_pipe_end 0x2000 3 demo_umem demo_pipe = Some (Done 3 demo_umem ?s1)"
    by (simp add: pipe_write_def pipe_write_loop_def Let_def demo_pipe_end_def end_fd_def in_range_def)
      (simp add: demo_pipe_def zero_pipe_def model_simps)
  obtain um2 where r: "pipe_read 0 demo_pipe_end 0x3000 2 demo_umem ?s1 = Some (Done 2 um2 (set_pipe_ring 0 ?s1 (ring_skip 2 ?r)))"
  proof -
    have "user_range_ok 0x3000 2" by (simp add: user_range_ok_def model_simps)
    then obtain um2 where "copy_to_user 0x3000 (take 2 (ring_list ?r)) 2 demo_umem = Some um2"
      unfolding copy_to_user_def by auto
    then have "drain_ring EDGE_PIPE_SIZE 0x3000 2 0 [] ?r demo_umem = (True, ring_skip 2 ?r, um2)"
      using drain_closed [OF ok(1), of "[]" 0 2 "0x3000" demo_umem] by (simp add: pipe_size EDGE_PTY_BUF_SIZE_def)
    moreover have "pp_used (pipes ?s1 0)" "pp_count (pipes ?s1 0) = 3" by (simp_all add: set_pipe_ring_def demo_pipe_def)
    ultimately have "pipe_read 0 demo_pipe_end 0x3000 2 demo_umem ?s1 = Some (Done 2 um2 (set_pipe_ring 0 ?s1 (ring_skip 2 ?r)))"
      unfolding pipe_read_def pipe_read_loop_def Let_def demo_pipe_end_def end_fd_def by (simp add: in_range_def EDGE_MAX_PIPES_def drained_def)
    then show thesis by (rule that)
  qed
  let ?s2 = "set_pipe_ring 0 ?s1 (ring_skip 2 ?r)" and ?w = "put_act 3 0x2000 3 demo_umem" and ?g = "got_act 2 0x3000 2 um2"
  have e: "pipe_id demo_pipe_end = int 0" by (simp add: demo_pipe_end_def end_fd_def)
  have "pipe_step 0 demo_pipe ?w ?s1" "pipe_step 0 ?s1 ?g ?s2"
    using pipe_step.step_write [where call = pipe_write, OF _ w e] pipe_step.step_read [where call = pipe_read, OF _ r e] by simp_all
  then have "pipe_run 0 demo_pipe (([] @ [?w]) @ [?g]) ?s2" by (blast intro: pipe_run.intros)
  from pipe_fifo [OF this ok(2)] obtain tr where tr: "list_all2 (\<lambda>a t. moves a (fst t) (snd t)) [?w, ?g] tr"
    "pipe_bytes 0 demo_pipe @ concat (map fst tr) = concat (map snd tr) @ pipe_bytes 0 ?s2" by auto
  then obtain t1 t2 where t: "tr = [t1, t2]" "moves ?w (fst t1) (snd t1)" "moves ?g (fst t2) (snd t2)"
    by (auto simp: list_all2_Cons1)
  have "fst t1 = [104, 101, 121]" "snd t1 = []" "fst t2 = []" "snd t2 = get_user um2 0x3000 2"
    using t(2,3) m(4) by (simp_all add: put_act_def got_act_def)
  then have "pipe_bytes 0 demo_pipe @ [104, 101, 121] = get_user um2 0x3000 2 @ pipe_bytes 0 ?s2"
    using tr(2) t(1) by simp
  moreover have "pipe_bytes 0 demo_pipe = []"
    by (simp add: pipe_bytes_def ring_list_def pipe_ring_def demo_pipe_def zero_pipe_def)
  ultimately show ?thesis using w r by auto
qed

section \<open>The line discipline\<close>

text \<open>Editing of the input line: the erase character removes the last byte of an unfinished line.\<close>

definition edit_line :: "edge_termios \<Rightarrow> u8 list \<Rightarrow> u8 \<Rightarrow> u8 list" where
  "edit_line t xs c =
     (if c_lflag t AND LINUX_ICANON \<noteq> 0 \<and> c = c_cc t ! LINUX_VERASE
      then (if xs \<noteq> [] \<and> last xs \<noteq> 10 then butlast xs else xs) else xs @ [c])"

text \<open>Output: a newline becomes a carriage return and a newline.\<close>

definition out_bytes :: "bool \<Rightarrow> u8 \<Rightarrow> u8 list" where
  "out_bytes crnl c = (if crnl \<and> c = 10 then [13, 10] else [c])"

lemma ring_unput:
  assumes "ring_ok r" "0 < rcount r"
  defines "prev \<equiv> (wpos r + EDGE_PTY_BUF_SIZE - 1) mod EDGE_PTY_BUF_SIZE"
  shows "rbuf r prev = last (ring_list r)" "ring_ok (r\<lparr>wpos := prev, rcount := rcount r - 1\<rparr>)"
    "ring_list (r\<lparr>wpos := prev, rcount := rcount r - 1\<rparr>) = butlast (ring_list r)"
proof -
  have s: "0 < EDGE_PTY_BUF_SIZE" by (simp add: EDGE_PTY_BUF_SIZE_def)
  have "wpos r + EDGE_PTY_BUF_SIZE - 1 = wpos r + (EDGE_PTY_BUF_SIZE - 1)" using s by simp
  moreover have "wpos r = (rpos r + rcount r) mod EDGE_PTY_BUF_SIZE" using assms(1) by (simp add: ring_ok_def)
  ultimately have "prev = (rpos r + rcount r + (EDGE_PTY_BUF_SIZE - 1)) mod EDGE_PTY_BUF_SIZE"
    unfolding prev_def by (simp only: mod_add_left_eq)
  also have "rpos r + rcount r + (EDGE_PTY_BUF_SIZE - 1) = rpos r + (rcount r - 1) + EDGE_PTY_BUF_SIZE" using assms(2) s by simp
  finally have prev: "prev = (rpos r + (rcount r - 1)) mod EDGE_PTY_BUF_SIZE" by simp
  show "ring_ok (r\<lparr>wpos := prev, rcount := rcount r - 1\<rparr>)" using assms(1) by (auto simp: ring_ok_def prev)
  obtain n where n: "rcount r = Suc n" using assms(2) by (cases "rcount r") auto
  show "rbuf r prev = last (ring_list r)" "ring_list (r\<lparr>wpos := prev, rcount := rcount r - 1\<rparr>) = butlast (ring_list r)"
    by (simp_all add: prev n ring_list_def)
qed

lemma echo_seq_input [simp]:
  "m2s (pty_echo_seq_to_master cs p) = m2s p" "pty_termios (pty_echo_seq_to_master cs p) = pty_termios p"
  by (induction cs arbitrary: p) (auto split: option.splits)

lemma echo_input [simp]: "m2s (pty_echo c p) = m2s p" "pty_termios (pty_echo c p) = pty_termios p"
  by (simp_all add: pty_echo_def pty_echo_to_master_def split: option.splits)

lemma erase_input:
  assumes "ring_ok (m2s p)"
  shows "ring_ok (m2s (pty_erase p))" "pty_termios (pty_erase p) = pty_termios p"
    "ring_list (m2s (pty_erase p)) = (if ring_list (m2s p) \<noteq> [] \<and> last (ring_list (m2s p)) \<noteq> 10 then butlast (ring_list (m2s p)) else ring_list (m2s p))"
proof -
  let ?r = "m2s p" and ?prev = "(wpos (m2s p) + EDGE_PTY_BUF_SIZE - 1) mod EDGE_PTY_BUF_SIZE"
  have e: "(0 < rcount ?r) = (ring_list ?r \<noteq> [])" by (simp flip: length_greater_0_conv)
  have m: "m2s (pty_erase p) = (if 0 < rcount ?r \<and> rbuf ?r ?prev \<noteq> 10 then ?r\<lparr>wpos := ?prev, rcount := rcount ?r - 1\<rparr> else ?r)"
    "pty_termios (pty_erase p) = pty_termios p"
    by (simp_all add: pty_erase_def Let_def del: pty_echo_seq_to_master.simps)
  then show "pty_termios (pty_erase p) = pty_termios p" by simp
  show "ring_ok (m2s (pty_erase p))" "ring_list (m2s (pty_erase p)) = (if ring_list ?r \<noteq> [] \<and> last (ring_list ?r) \<noteq> 10 then butlast (ring_list ?r) else ring_list ?r)"
    using ring_unput [OF assms] assms e unfolding m by (auto split: if_splits)
qed

lemma upd_pty_same [simp]: "ptys (upd_pty k f s) k = f (ptys s k)"
  by (simp add: upd_pty_def)

lemma master_write_edits:
  assumes "pty_write_loop True k buf m i um s = Some (r, s1)" "0 \<le> sint r" "i + m \<le> 4096" "ring_ok (m2s (ptys s k))"
    and "c_lflag (pty_termios (ptys s k)) AND LINUX_ISIG = 0 \<or> 3 \<notin> set (get_user um (buf + of_nat i) m)"
  shows "ring_ok (m2s (ptys s1 k)) \<and> i \<le> unat r \<and> unat r \<le> i + m \<and>
    ring_list (m2s (ptys s1 k)) =
      foldl (edit_line (pty_termios (ptys s k))) (ring_list (m2s (ptys s k))) (get_user um (buf + of_nat i) (unat r - i))"
  using assms
proof (induction m arbitrary: i s)
  case 0
  then show ?case by (auto simp: get_user_def unat_of_small)
next
  case (Suc m)
  let ?p = "ptys s k" and ?a = "buf + of_nat i" and ?c = "um (buf + of_nat i)"
  have b: "copy_from_user ?a 1 um = Some [?c]" using Suc.prems(1,2) by (auto simp: copy_byte split: if_splits)
  show ?case
  proof (cases "EDGE_PTY_BUF_SIZE - rcount (m2s ?p) < 1")
    case True
    then have "r = of_nat i" "s1 = s" using Suc.prems(1) b by (auto simp: pty_out_def Let_def)
    then show ?thesis using Suc.prems(3,4) by (simp add: get_user_def unat_of_small)
  next
    case False
    have ni: "\<not> (c_lflag (pty_termios ?p) AND LINUX_ISIG \<noteq> 0 \<and> ?c = 3)"
      using Suc.prems(5) by (auto simp: get_user_Cons)
    have next1: "buf + of_nat (i + 1) = ?a + 1" by (simp add: add.assoc)
    define s2 where "s2 = (if c_lflag (pty_termios ?p) AND LINUX_ICANON \<noteq> 0 \<and> ?c = c_cc (pty_termios ?p) ! LINUX_VERASE
      then upd_pty k pty_erase s
      else upd_pty k (\<lambda>q. set_pty_out True (ring_put EDGE_PTY_BUF_SIZE ?c (pty_out True q)) q) (upd_pty k (pty_echo ?c) s))"
    have run: "pty_write_loop True k buf m (i + 1) um s2 = Some (r, s1)"
      using Suc.prems(1) b False ni by (auto simp: Let_def pty_out_def s2_def split: if_splits)
    have st: "ring_ok (m2s (ptys s2 k))" "pty_termios (ptys s2 k) = pty_termios ?p"
      "ring_list (m2s (ptys s2 k)) = edit_line (pty_termios ?p) (ring_list (m2s ?p)) ?c"
      using erase_input [OF Suc.prems(4)] ring_put_list [OF Suc.prems(4), of ?c] False
      by (auto simp: s2_def edit_line_def set_pty_out_def pty_out_def)
    have IH: "ring_ok (m2s (ptys s1 k)) \<and> i + 1 \<le> unat r \<and> unat r \<le> i + 1 + m \<and>
      ring_list (m2s (ptys s1 k)) = foldl (edit_line (pty_termios ?p)) (ring_list (m2s (ptys s2 k))) (get_user um (?a + 1) (unat r - (i + 1)))"
      using Suc.IH [OF run Suc.prems(2) _ st(1)] Suc.prems(3,5) unfolding st(2) next1 by (auto simp: get_user_Cons)
    then have "unat r - i = Suc (unat r - (i + 1))" by linarith
    then show ?thesis using IH st(3) by (simp add: get_user_Cons)
  qed
qed

lemma slave_write_translates:
  assumes "pty_write_loop False k buf m i um s = Some (r, s1)" "0 \<le> sint r" "i + m \<le> 4096" "ring_ok (s2m (ptys s k))"
  shows "ring_ok (s2m (ptys s1 k)) \<and> i \<le> unat r \<and> unat r \<le> i + m \<and>
    ring_list (s2m (ptys s1 k)) =
      ring_list (s2m (ptys s k)) @ concat (map (out_bytes (onlcr (ptys s k))) (get_user um (buf + of_nat i) (unat r - i)))"
  using assms
proof (induction m arbitrary: i s)
  case 0
  then show ?case by (auto simp: get_user_def unat_of_small)
next
  case (Suc m)
  let ?p = "ptys s k" and ?a = "buf + of_nat i" and ?c = "um (buf + of_nat i)"
  have b: "copy_from_user ?a 1 um = Some [?c]" using Suc.prems(1,2) by (auto simp: copy_byte split: if_splits)
  let ?nl = "?c = 10 \<and> onlcr ?p"
  show ?case
  proof (cases "EDGE_PTY_BUF_SIZE - rcount (s2m ?p) < (if ?nl then 2 else 1)")
    case True
    then have "r = of_nat i" "s1 = s" using Suc.prems(1) b by (auto simp: pty_out_def Let_def split: if_splits)
    then show ?thesis using Suc.prems(3,4) by (simp add: get_user_def unat_of_small)
  next
    case False
    have next1: "buf + of_nat (i + 1) = ?a + 1" by (simp add: add.assoc)
    define r1 where "r1 = (if ?nl then ring_put EDGE_PTY_BUF_SIZE 13 (s2m ?p) else s2m ?p)"
    have r1: "ring_ok r1" "ring_list r1 = ring_list (s2m ?p) @ (if ?nl then [13] else [])" "rcount r1 < EDGE_PTY_BUF_SIZE"
      using ring_put_list [OF Suc.prems(4), of 13] Suc.prems(4) False by (auto simp: r1_def ring_put_def split: if_splits)
    define s2 where "s2 = upd_pty k (\<lambda>q. set_pty_out False (ring_put EDGE_PTY_BUF_SIZE ?c (pty_out False q)) q)
      (if ?nl then upd_pty k (set_pty_out False (ring_put EDGE_PTY_BUF_SIZE 13 (s2m ?p))) s else s)"
    have run: "pty_write_loop False k buf m (i + 1) um s2 = Some (r, s1)"
      using Suc.prems(1) b False by (auto simp: Let_def pty_out_def s2_def split: if_splits)
    have "s2m (ptys s2 k) = ring_put EDGE_PTY_BUF_SIZE ?c r1"
      by (simp add: s2_def r1_def set_pty_out_def pty_out_def)
    then have st: "ring_ok (s2m (ptys s2 k))" "onlcr (ptys s2 k) = onlcr ?p"
      "ring_list (s2m (ptys s2 k)) = ring_list (s2m ?p) @ out_bytes (onlcr ?p) ?c"
      using ring_put_list [OF r1(1,3), of ?c] r1(2) by (auto simp: s2_def set_pty_out_def onlcr_def out_bytes_def)
    have IH: "ring_ok (s2m (ptys s1 k)) \<and> i + 1 \<le> unat r \<and> unat r \<le> i + 1 + m \<and>
      ring_list (s2m (ptys s1 k)) = ring_list (s2m (ptys s2 k)) @ concat (map (out_bytes (onlcr ?p)) (get_user um (?a + 1) (unat r - (i + 1))))"
      using Suc.IH [OF run Suc.prems(2) _ st(1)] Suc.prems(3) unfolding st(2) next1 by simp
    then have "unat r - i = Suc (unat r - (i + 1))" by linarith
    then show ?thesis using IH st(3) by (simp add: get_user_Cons)
  qed
qed


lemma get_user_take: "m \<le> n \<Longrightarrow> set (get_user um a m) \<subseteq> set (get_user um a n)"
  by (auto simp: get_user_def)

lemma pty_write_runs:
  assumes "pty_write now e buf len um s = Some (Done r um1 s1)" "pipe_id e = int k" "0 \<le> sint r"
  shows "\<exists>m \<le> unat len. m \<le> 4096 \<and> pty_write_loop (fd_kind e = FD_PTY_MASTER) k buf m 0 um s = Some (r, s1)"
  using assms blocked_done
  by (fastforce simp: pty_write_def Let_def EDGE_PTY_BUF_SIZE_def split: if_splits)

text \<open>
  C30: The line discipline of a pseudo terminal. What the terminal emulator writes on the master side (without an
  interrupt character that raises a signal) reaches the input queue of the program exactly as the reference
  editor leaves it: each erase character in canonical mode removes the last byte, but never past the end of a
  line, whatever the ring's position. What the program writes on the slave side is appended to the queue of the
  master in order, with every newline preceded by a carriage return when the terminal is set so. The number
  returned is the number of bytes taken, also when the queue fills up in between.
\<close>
theorem pty_line_discipline:
  assumes "pty_write now e buf len um s = Some (Done r um1 s1)" "pipe_id e = int k" "0 \<le> sint r"
    and "ring_ok (m2s (ptys s k))" "ring_ok (s2m (ptys s k))"
  shows "(fd_kind e = FD_PTY_MASTER \<longrightarrow>
      c_lflag (pty_termios (ptys s k)) AND LINUX_ISIG = 0 \<or> 3 \<notin> set (get_user um buf (unat len)) \<longrightarrow>
      unat r \<le> unat len \<and> ring_ok (m2s (ptys s1 k)) \<and>
      ring_list (m2s (ptys s1 k)) = foldl (edit_line (pty_termios (ptys s k))) (ring_list (m2s (ptys s k))) (get_user um buf (unat r))) \<and>
    (fd_kind e = FD_PTY_SLAVE \<longrightarrow>
      unat r \<le> unat len \<and> ring_ok (s2m (ptys s1 k)) \<and>
      ring_list (s2m (ptys s1 k)) = ring_list (s2m (ptys s k)) @ concat (map (out_bytes (onlcr (ptys s k))) (get_user um buf (unat r))))"
proof -
  obtain m where m: "m \<le> unat len" "m \<le> 4096" "pty_write_loop (fd_kind e = FD_PTY_MASTER) k buf m 0 um s = Some (r, s1)"
    using pty_write_runs [OF assms(1-3)] by blast
  show ?thesis
  proof (intro conjI impI)
    assume k: "fd_kind e = FD_PTY_MASTER"
      and i: "c_lflag (pty_termios (ptys s k)) AND LINUX_ISIG = 0 \<or> 3 \<notin> set (get_user um buf (unat len))"
    have "c_lflag (pty_termios (ptys s k)) AND LINUX_ISIG = 0 \<or> 3 \<notin> set (get_user um (buf + of_nat 0) m)"
      using i get_user_take [OF m(1), of um buf] by auto
    moreover have "pty_write_loop True k buf m 0 um s = Some (r, s1)" using m(3) k by simp
    ultimately have "ring_ok (m2s (ptys s1 k)) \<and> 0 \<le> unat r \<and> unat r \<le> 0 + m \<and> ring_list (m2s (ptys s1 k)) =
        foldl (edit_line (pty_termios (ptys s k))) (ring_list (m2s (ptys s k))) (get_user um (buf + of_nat 0) (unat r - 0))"
      using m(2) by (intro master_write_edits assms) simp_all
    then show "unat r \<le> unat len" "ring_ok (m2s (ptys s1 k))"
      "ring_list (m2s (ptys s1 k)) = foldl (edit_line (pty_termios (ptys s k))) (ring_list (m2s (ptys s k))) (get_user um buf (unat r))"
      using m(1) by auto
  next
    assume k: "fd_kind e = FD_PTY_SLAVE"
    then have "pty_write_loop False k buf m 0 um s = Some (r, s1)" using m(3) by simp
    then have "ring_ok (s2m (ptys s1 k)) \<and> 0 \<le> unat r \<and> unat r \<le> 0 + m \<and> ring_list (s2m (ptys s1 k)) =
        ring_list (s2m (ptys s k)) @ concat (map (out_bytes (onlcr (ptys s k))) (get_user um (buf + of_nat 0) (unat r - 0)))"
      using m(2) by (intro slave_write_translates assms) simp_all
    then show "unat r \<le> unat len" "ring_ok (s2m (ptys s1 k))"
      "ring_list (s2m (ptys s1 k)) = ring_list (s2m (ptys s k)) @ concat (map (out_bytes (onlcr (ptys s k))) (get_user um buf (unat r)))"
      using m(1) by auto
  qed
qed


text \<open>A write that fits is taken completely.\<close>

lemma master_write_accepts:
  fixes s :: "'a kern_scheme"
  assumes "rcount (m2s (ptys s k)) + m \<le> EDGE_PTY_BUF_SIZE" "c_lflag (pty_termios (ptys s k)) AND LINUX_ISIG = 0"
    and "\<And>j. j < m \<Longrightarrow> user_range_ok (buf + of_nat (i + j)) 1"
  shows "\<exists>s1. pty_write_loop True k buf m i um s = Some (of_nat (i + m), s1)"
  using assms
proof (induction m arbitrary: i s)
  case (Suc m)
  let ?c = "um (buf + of_nat i)" and ?p = "ptys s k"
  have b: "copy_from_user (buf + of_nat i) 1 um = Some [?c]" using Suc.prems(3) [of 0] by (simp add: copy_byte)
  have go: "\<exists>s1. pty_write_loop True k buf m (i + 1) um s2 = Some (of_nat (i + Suc m), s1)"
    if "rcount (m2s (ptys s2 k)) \<le> rcount (m2s ?p) + 1" "pty_termios (ptys s2 k) = pty_termios ?p" for s2 :: "'a kern_scheme"
  proof -
    have "user_range_ok (buf + of_nat (i + 1 + j)) 1" if "j < m" for j using Suc.prems(3) [of "Suc j"] that by simp
    then have "\<exists>s1. pty_write_loop True k buf m (i + 1) um s2 = Some (of_nat (i + 1 + m), s1)"
      using Suc.prems(1,2) that by (intro Suc.IH) simp_all
    then show ?thesis by simp
  qed
  have "rcount (m2s (pty_erase ?p)) \<le> rcount (m2s ?p) + 1" "pty_termios (pty_erase ?p) = pty_termios ?p"
    by (auto simp: pty_erase_def Let_def simp del: pty_echo_seq_to_master.simps)
  then show ?case
    using Suc.prems(1,2) b by (auto simp: Let_def pty_out_def set_pty_out_def ring_put_def intro!: go [simplified])
qed simp

definition demo_terminal :: kern where
  "demo_terminal = demo_kern\<lparr>ptys := (\<lambda>_. zero_pty)(0 := zero_pty\<lparr>pty_used := True, refs_master := 1, refs_slave := 1,
     pty_termios := zero_termios\<lparr>c_lflag := LINUX_ICANON, c_cc := (replicate 19 0)[2 := 127]\<rparr>\<rparr>)\<rparr>"

definition demo_keys :: umem where
  "demo_keys = put_user (\<lambda>_. 0) 0x2000 [97, 127, 98]"

text \<open>The keys \<^verbatim>\<open>a\<close>, erase, \<^verbatim>\<open>b\<close> leave a \<^verbatim>\<open>b\<close> in the input queue.\<close>

theorem pty_line_discipline_witness:
  "\<exists>s1. pty_write 0 (end_fd FD_PTY_MASTER 1 0 0 0) 0x2000 3 demo_keys demo_terminal = Some (Done 3 demo_keys s1) \<and>
     ring_list (m2s (ptys s1 0)) = [98]"
proof -
  have m: "demo_keys 0x2000 = 97" "demo_keys 0x2001 = 127" "demo_keys 0x2002 = 98" "get_user demo_keys 0x2000 3 = [97, 127, 98]"
    by (simp_all add: demo_keys_def put_user_def get_user_def upt_rec)
  have g: "user_range_ok 0x2000 1" "user_range_ok 0x2001 1" "user_range_ok 0x2002 1" by (simp_all add: user_byte_ok)
  have p: "pty_used (ptys demo_terminal 0)" "m2s (ptys demo_terminal 0) = zero_ring" "s2m (ptys demo_terminal 0) = zero_ring"
    "c_lflag (pty_termios (ptys demo_terminal 0)) = 2" "c_cc (pty_termios (ptys demo_terminal 0)) ! 2 = 127"
    by (simp_all add: demo_terminal_def zero_pty_def LINUX_ICANON_def)
  have "user_range_ok (0x2000 + of_nat (0 + j)) 1" if "j < 3" for j
    using that g by (auto simp: less_Suc_eq numeral_3_eq_3)
  then obtain s1 where "pty_write_loop True 0 0x2000 3 0 demo_keys demo_terminal = Some (3, s1)"
    using master_write_accepts [of demo_terminal 0 3 "0x2000" 0 demo_keys] p by (auto simp: zero_ring_def EDGE_PTY_BUF_SIZE_def LINUX_ISIG_def)
  then have w: "pty_write 0 (end_fd FD_PTY_MASTER 1 0 0 0) 0x2000 3 demo_keys demo_terminal = Some (Done 3 demo_keys s1)"
    using p by (simp add: pty_write_def Let_def end_fd_def in_range_def pty_out_def zero_ring_def EDGE_MAX_PTYS_def EDGE_PTY_BUF_SIZE_def)
  have "ring_list (m2s (ptys s1 0)) = foldl (edit_line (pty_termios (ptys demo_terminal 0))) [] [97, 127, 98]"
    using pty_line_discipline [OF w, of 0] m(4) p
    by (simp add: end_fd_def ring_ok_def zero_ring_def EDGE_PTY_BUF_SIZE_def LINUX_ISIG_def ring_list_def)
  then show ?thesis using w p by (auto simp: edit_line_def LINUX_ICANON_def LINUX_VERASE_def)
qed

end
