(* ===== verification/SchedCalls.thy ===== *)
theory SchedCalls
  imports FdCalls
begin

text \<open>
  The scheduling system calls of \<^verbatim>\<open>src/sys/syscall.c\<close>: the affinity of a task, the scheduling policy, which is accepted and
  ignored, and the number of the processor. \<^verbatim>\<open>sched_setaffinity\<close> assigns a CPU to a task from outside the
  scheduler. The lemmas say when this is a step of the scheduler's step relation, and what the debug check of the
  scheduler reports when it is not.
\<close>

unbundle bit_operations_syntax

definition LINUX_SCHED_OTHER :: int where [model_simps]: "LINUX_SCHED_OTHER = 0"
definition LINUX_SCHED_FIFO :: int where [model_simps]: "LINUX_SCHED_FIFO = 1"
definition LINUX_SCHED_RR :: int where [model_simps]: "LINUX_SCHED_RR = 2"

definition do_sys_sched_getaffinity :: "u64 \<Rightarrow> u64 \<Rightarrow> u64 \<Rightarrow> umem \<Rightarrow> 'a sched_scheme \<Rightarrow> u64 \<times> umem" where
  "do_sys_sched_getaffinity pid_u cpusetsize_u mask_u um s =
     (if mask_u = 0 \<or> cpusetsize_u = 0 then (uerr EINVAL, um)
      else case task_by_pid_mutable_local (c_int_of pid_u) s of
        None \<Rightarrow> (uerr ESRCH, um)
      | Some t \<Rightarrow>
          let cpu = (if 0 \<le> assigned_cpu (tasks s t) then assigned_cpu (tasks s t) else 0);
              cpu1 = (if 64 \<le> cpu then 0 else cpu);
              n = (if 8 < cpusetsize_u then 8 else cpusetsize_u)
          in case copy_to_user mask_u (le_bytes 8 (push_bit (nat cpu1) 1)) n um of
               None \<Rightarrow> (uerr EFAULT, um)
             | Some um1 \<Rightarrow> (n, um1))"

text \<open>The loop that looks for the lowest CPU of the mask: it ends at 64 at the latest.\<close>

definition lowest_cpu :: "u64 \<Rightarrow> nat" where
  "lowest_cpu m = (case first_idx (\<lambda>c. drop_bit c m AND 1 \<noteq> 0) 0 64 of None \<Rightarrow> 64 | Some c \<Rightarrow> c)"

definition do_sys_sched_setaffinity :: "u64 \<Rightarrow> u64 \<Rightarrow> u64 \<Rightarrow> umem \<Rightarrow> 'a sched_scheme \<Rightarrow> u64 \<times> 'a sched_scheme" where
  "do_sys_sched_setaffinity pid_u cpusetsize_u mask_u um s =
     (if mask_u = 0 \<or> cpusetsize_u = 0 then (uerr EINVAL, s)
      else case task_by_pid_mutable_local (c_int_of pid_u) s of
        None \<Rightarrow> (uerr ESRCH, s)
      | Some t \<Rightarrow>
          (case copy_from_user mask_u (if 8 < cpusetsize_u then 8 else cpusetsize_u) um of
             None \<Rightarrow> (uerr EFAULT, s)
           | Some bs \<Rightarrow>
               let m = of_le bs; cpu = lowest_cpu m
               in if m = 0 then (uerr EINVAL, s)
                  else (0, upd_task t (assigned_cpu_update (\<lambda>_. int (if SCHED_MAX_CPUS \<le> cpu then 0 else cpu))) s)))"

definition do_sys_sched_getparam :: "u64 \<Rightarrow> u64 \<Rightarrow> umem \<Rightarrow> 'a sched_scheme \<Rightarrow> u64 \<times> umem" where
  "do_sys_sched_getparam pid_u param_u um s =
     (if task_by_pid_mutable_local (c_int_of pid_u) s = None then (uerr ESRCH, um)
      else if param_u = 0 then (uerr EINVAL, um)
      else case copy_to_user param_u (replicate 4 0) 4 um of None \<Rightarrow> (uerr EFAULT, um) | Some um1 \<Rightarrow> (0, um1))"

definition do_sys_sched_setscheduler :: "u64 \<Rightarrow> u64 \<Rightarrow> u64 \<Rightarrow> umem \<Rightarrow> 'a sched_scheme \<Rightarrow> u64" where
  "do_sys_sched_setscheduler pid_u policy_u param_u um s =
     (let policy = c_int_of policy_u
      in if task_by_pid_mutable_local (c_int_of pid_u) s = None then uerr ESRCH
         else if \<not> (policy = LINUX_SCHED_OTHER \<or> policy = LINUX_SCHED_FIFO \<or> policy = LINUX_SCHED_RR) then uerr EINVAL
         else if param_u = 0 then 0
         else case copy_from_user param_u 4 um of
                None \<Rightarrow> uerr EFAULT
              | Some bs \<Rightarrow> if policy = LINUX_SCHED_OTHER \<and> (ucast (of_le bs) :: u32) \<noteq> 0 then uerr EINVAL else 0)"

definition do_sys_getcpu :: "u64 \<Rightarrow> u64 \<Rightarrow> umem \<Rightarrow> 'a sched_scheme \<Rightarrow> u64 \<times> umem" where
  "do_sys_getcpu cpu_u node_u um s =
     (case (if cpu_u = 0 then Some um else copy_to_user cpu_u (le_bytes 4 (of_nat (scheduler_cpu_id s))) 4 um) of
        None \<Rightarrow> (uerr EFAULT, um)
      | Some um1 \<Rightarrow>
          (case (if node_u = 0 then Some um1 else copy_to_user node_u (le_bytes 4 0) 4 um1) of
             None \<Rightarrow> (uerr EFAULT, um1)
           | Some um2 \<Rightarrow> (0, um2)))"

section \<open>Affinity and the scheduler\<close>

lemma odd_bit: "drop_bit c (m :: u64) AND 1 \<noteq> 0 \<longleftrightarrow> bit m c"
  by (simp add: and_one_eq bit_iff_odd_drop_bit odd_iff_mod_2_eq_one)

lemma lowest_cpu_bit:
  assumes "m \<noteq> 0"
  shows "lowest_cpu m < 64 \<and> bit m (lowest_cpu m) \<and> (\<forall>c < lowest_cpu m. \<not> bit m c)"
proof -
  obtain c where c: "c < 64" "bit m c" using assms bit_eq_iff [of m 0] by (auto simp: bit_imp_le_length)
  then obtain k where k: "first_idx (\<lambda>c. bit m c) 0 64 = Some k"
    by (cases "first_idx (\<lambda>c. bit m c) 0 64") (auto simp: first_idx_None)
  then have "lowest_cpu m = k" by (simp add: lowest_cpu_def odd_bit)
  then show ?thesis using k by (auto simp: first_idx_Some)
qed

text \<open>A call that succeeds assigns the lowest CPU of the mask, or CPU 0 if that does not exist, and changes nothing else.\<close>

lemma setaffinity_effect:
  assumes "do_sys_sched_setaffinity pid_u n mask_u um s = (r, s1)"
  obtains (refused) "r \<noteq> 0" "s1 = s"
  | (assigned) t k where "r = 0" "task_by_pid_mutable_local (c_int_of pid_u) s = Some t" "k < SCHED_MAX_CPUS"
      "s1 = upd_task t (assigned_cpu_update (\<lambda>_. int k)) s"
proof -
  have e: "uerr EINVAL \<noteq> 0" "uerr ESRCH \<noteq> 0" "uerr EFAULT \<noteq> 0" by (simp_all add: uerr_def model_simps)
  let ?m = "copy_from_user mask_u (if 8 < n then 8 else n) um"
  show thesis
  proof (cases "mask_u = 0 \<or> n = 0 \<or> task_by_pid_mutable_local (c_int_of pid_u) s = None \<or> ?m = None \<or> of_le (the ?m) = 0")
    case True
    then show thesis using assms e by (intro refused) (auto simp: do_sys_sched_setaffinity_def split: option.splits if_splits)
  next
    case False
    then obtain t bs where t: "task_by_pid_mutable_local (c_int_of pid_u) s = Some t" "?m = Some bs" "of_le bs \<noteq> 0" by auto
    let ?k = "if SCHED_MAX_CPUS \<le> lowest_cpu (of_le bs) then 0 else lowest_cpu (of_le bs)"
    have "(r, s1) = (0, upd_task t (assigned_cpu_update (\<lambda>_. int ?k)) s)"
      using False t assms unfolding do_sys_sched_setaffinity_def by (simp add: Let_def)
    then show thesis using t(1) by (intro assigned [of t ?k]) (simp_all add: SCHED_MAX_CPUS_def)
  qed
qed

text \<open>For a task that is neither queued nor running, or that keeps its CPU, the call is a step of the scheduler.\<close>

lemma setaffinity_step:
  assumes "do_sys_sched_setaffinity pid_u n mask_u um s = (0, s1)" "task_by_pid_mutable_local (c_int_of pid_u) s = Some t"
    and "assigned_cpu (tasks s1 t) = assigned_cpu (tasks s t) \<or> \<not> on_runqueue (tasks s t) \<and> not_current t s"
  shows "sched_step s s1"
  using assms by (cases rule: setaffinity_effect [OF assms(1)]) (auto intro: sched_step.affinity)

text \<open>For a queued task that is given another CPU, the debug check reports the task: the call does not move it.\<close>

lemma setaffinity_queued:
  assumes "sched_reach s" "do_sys_sched_setaffinity pid_u n mask_u um s = (0, s1)" "task_by_pid_mutable_local (c_int_of pid_u) s = Some t"
    and "on_runqueue (tasks s t)" "assigned_cpu (tasks s1 t) \<noteq> assigned_cpu (tasks s t)"
  shows "check_task s1 t = Some [ERR_owner t]"
proof -
  obtain qs where inv: "sched_inv s qs" using sched_reach_inv [OF assms(1)] ..
  show ?thesis
    using assms(3-5) by (cases rule: setaffinity_effect [OF assms(2)]) (auto intro: affinity_reported [OF inv])
qed

text \<open>What was set is what the calling process reads back, as a mask of one CPU.\<close>

lemma affinity_roundtrip:
  assumes "do_sys_sched_setaffinity pid_u n mask_u um s = (0, s1)" "task_by_pid_mutable_local (c_int_of pid_u) s = Some t"
    and "task_by_pid_mutable_local (c_int_of pid_u) s1 = Some t" "8 \<le> n" "do_sys_sched_getaffinity pid_u n mask_u um s1 = (8, um1)"
  shows "\<exists>k < SCHED_MAX_CPUS. assigned_cpu (tasks s1 t) = int k \<and> of_le (get_user um1 mask_u 8) = push_bit k 1"
proof -
  obtain k where k: "k < SCHED_MAX_CPUS" "assigned_cpu (tasks s1 t) = int k"
    using assms(2) by (cases rule: setaffinity_effect [OF assms(1)]) auto
  have "um1 = put_user um mask_u (le_bytes 8 (push_bit k 1))"
    using assms(3-5) k
    by (auto simp: do_sys_sched_getaffinity_def copy_to_user_def Let_def uerr_def model_simps split: if_splits option.splits)
  then have "get_user um1 mask_u 8 = le_bytes 8 (push_bit k 1)"
    using get_put_user [of 0 8 "le_bytes 8 (push_bit k 1)" mask_u mask_u um] by simp
  then show ?thesis using k by simp
qed

end
