(* ===== verification/Clock.thy ===== *)
theory Clock
  imports Prelude
begin

text \<open>
  The clock of \<^verbatim>\<open>src/sys/boottime.c\<close>: reading the real-time clock, calibrating the time stamp counter and the
  monotonic and real-time clocks. What the devices return (the registers of the real-time clock, the interval
  timer's counter, the time stamp counter) is an argument of the routines that read them. A month register
  beyond 13 indexes \<^verbatim>\<open>mdays\<close> out of bounds, which is the value \<^term>\<open>None\<close>.
\<close>

section \<open>The real-time clock\<close>

definition bcd_to_bin :: "u8 \<Rightarrow> u8" where
  "bcd_to_bin v = (v AND 0x0F) + drop_bit 4 v * 10"

definition is_leap :: "int \<Rightarrow> bool" where
  "is_leap y \<longleftrightarrow> (y mod 4 = 0 \<and> y mod 100 \<noteq> 0) \<or> y mod 400 = 0"

definition mdays :: "nat list" where
  "mdays = [31, 28, 31, 30, 31, 30, 31, 31, 30, 31, 30, 31]"

definition year_days :: "int \<Rightarrow> u64" where
  "year_days y = (if is_leap y then 366 else 365)"

definition month_days :: "int \<Rightarrow> int \<Rightarrow> u64" where
  "month_days y mm = of_nat (mdays ! nat (mm - 1)) + (if mm = 2 \<and> is_leap y then 1 else 0)"

definition ymd_hms_to_unix :: "int \<Rightarrow> int \<Rightarrow> int \<Rightarrow> int \<Rightarrow> int \<Rightarrow> int \<Rightarrow> u64 option" where
  "ymd_hms_to_unix y mon day h m s =
     (if 13 < mon then None
      else
        let days = sum_list (map year_days [1970..y - 1]) + sum_list (map (month_days y) [1..mon - 1]) + word_of_int (day - 1)
        in Some (days * 86400 + word_of_int h * 3600 + word_of_int m * 60 + word_of_int s))"

partial_function (option) rtc_wait :: "(nat \<Rightarrow> bool) \<Rightarrow> nat \<Rightarrow> nat option" where
  "rtc_wait upd k = (if upd k then rtc_wait upd (Suc k) else Some k)"

definition rtc_seconds :: "(u8 \<Rightarrow> u8) \<Rightarrow> u64 option" where
  "rtc_seconds reg =
     (let bcd = reg 0x0B AND 0x04 = 0;
          conv = (if bcd then bcd_to_bin else id);
          hour = conv (reg 0x04 AND 0x7F);
          mon = conv (reg 0x08);
          day = conv (reg 0x07);
          full_year = 2000 + uint (conv (reg 0x09))
      in ymd_hms_to_unix (if full_year < 1970 then 1970 else full_year) (if mon = 0 then 1 else uint mon)
           (if day = 0 then 1 else uint day) (uint hour) (uint (conv (reg 0x02))) (uint (conv (reg 0x00))))"

definition rtc_unix_seconds :: "(nat \<Rightarrow> bool) \<Rightarrow> (u8 \<Rightarrow> u8) \<Rightarrow> u64 option" where
  "rtc_unix_seconds upd reg = Option.bind (rtc_wait upd 0) (\<lambda>_. rtc_seconds reg)"

lemma rtc_wait_returns: "\<not> upd n \<Longrightarrow> k \<le> n \<Longrightarrow> \<exists>j. rtc_wait upd k = Some j"
proof (induction "n - k" arbitrary: k)
  case 0
  then have "k = n" by simp
  then show ?case using "0.prems" by (simp add: rtc_wait.simps [of upd n])
next
  case (Suc d)
  show ?case
  proof (cases "upd k")
    case True
    then have "Suc k \<le> n" using Suc.prems by (metis Suc_leI le_neq_implies_less)
    then show ?thesis using Suc.hyps Suc.prems True by (simp add: rtc_wait.simps [of upd k])
  qed (simp add: rtc_wait.simps [of upd k])
qed

section \<open>The clocks\<close>

record boot_clock =
  g_boot_realtime_us :: u64
  g_last_monotonic_us :: u64
  g_last_pit_counter :: u16
  g_fallback_pit_counts :: u64
  g_boot_tsc :: u64
  g_tsc_hz :: u64
  g_tsc_ready :: bool

definition PIT_HZ_NUM :: u64 where [model_simps]: "PIT_HZ_NUM = 1193182"

text \<open>\<open>pit j\<close> is the \<open>j\<close>-th reading of the counter after the first.\<close>

function calibrate_wait :: "(nat \<Rightarrow> u16) \<Rightarrow> u16 \<Rightarrow> nat \<Rightarrow> u32 option" where
  "calibrate_wait pit start_pit spins =
     (let elapsed_counts = ucast (start_pit - pit spins) :: u32
      in if 40000 \<le> elapsed_counts then Some elapsed_counts
         else if 10000000 < Suc spins then None
         else calibrate_wait pit start_pit (Suc spins))"
  by auto
termination by (relation "measure (\<lambda>(_, _, k). 10000001 - k)") auto

declare calibrate_wait.simps [simp del]

definition boottime_calibrate_tsc :: "u16 \<Rightarrow> u64 \<Rightarrow> (nat \<Rightarrow> u16) \<Rightarrow> u64 \<Rightarrow> boot_clock \<Rightarrow> int \<times> boot_clock" where
  "boottime_calibrate_tsc start_pit start_tsc pit end_tsc c =
     (case calibrate_wait pit start_pit 0 of
        None \<Rightarrow> (-1, c)
      | Some elapsed_counts \<Rightarrow>
          if end_tsc \<le> start_tsc \<or> elapsed_counts = 0 then (-1, c)
          else
            let hz = (end_tsc - start_tsc) * PIT_HZ_NUM div ucast elapsed_counts;
                c1 = c\<lparr>g_tsc_hz := hz\<rparr>
            in if hz < 1000000 then (-1, c1) else (0, c1))"

text \<open>The readings of the devices during \<^verbatim>\<open>boottime_init\<close>, in the order in which they are taken.\<close>

record boot_readings =
  r_pit0 :: u16
  r_rtc_seconds :: u64
  r_start_pit :: u16
  r_start_tsc :: u64
  r_pit :: "nat \<Rightarrow> u16"
  r_end_tsc :: u64
  r_boot_tsc :: u64

definition boottime_init :: "boot_readings \<Rightarrow> boot_clock \<Rightarrow> boot_clock" where
  "boottime_init r c =
     (let c1 = c\<lparr>g_last_pit_counter := r_pit0 r, g_fallback_pit_counts := 0,
                 g_boot_realtime_us := r_rtc_seconds r * 1000000, g_last_monotonic_us := 0, g_tsc_ready := False, g_tsc_hz := 0\<rparr>
      in case boottime_calibrate_tsc (r_start_pit r) (r_start_tsc r) (r_pit r) (r_end_tsc r) c1 of
           (rc, c2) \<Rightarrow> if rc = 0 then c2\<lparr>g_boot_tsc := r_boot_tsc r, g_tsc_ready := True\<rparr> else c2)"

definition clock_raw :: "u64 \<Rightarrow> u16 \<Rightarrow> boot_clock \<Rightarrow> u64 \<times> boot_clock" where
  "clock_raw tsc pit c =
     (if g_tsc_ready c \<and> 0 < g_tsc_hz c then ((tsc - g_boot_tsc c) * 1000000 div g_tsc_hz c, c)
      else
        let counts = g_fallback_pit_counts c + ucast (g_last_pit_counter c - pit)
        in (counts * 1000000 div PIT_HZ_NUM, c\<lparr>g_last_pit_counter := pit, g_fallback_pit_counts := counts\<rparr>))"

definition boottime_monotonic_us :: "u64 \<Rightarrow> u16 \<Rightarrow> boot_clock \<Rightarrow> u64 \<times> boot_clock" where
  "boottime_monotonic_us tsc pit c =
     (case clock_raw tsc pit c of
        (now_us, c1) \<Rightarrow>
          if now_us < g_last_monotonic_us c1 then (g_last_monotonic_us c1, c1)
          else (now_us, c1\<lparr>g_last_monotonic_us := now_us\<rparr>))"

definition boottime_realtime_us :: "u64 \<Rightarrow> u16 \<Rightarrow> boot_clock \<Rightarrow> u64 \<times> boot_clock" where
  "boottime_realtime_us tsc pit c =
     (case boottime_monotonic_us tsc pit c of (t, c1) \<Rightarrow> (g_boot_realtime_us c1 + t, c1))"

definition boottime_now_us :: "u64 \<Rightarrow> u16 \<Rightarrow> boot_clock \<Rightarrow> u32 \<times> boot_clock" where
  "boottime_now_us tsc pit c = (case boottime_monotonic_us tsc pit c of (t, c1) \<Rightarrow> (ucast t, c1))"

section \<open>Calendar\<close>

text \<open>The Gregorian calendar, written out independently of the tables of the code.\<close>

definition month_length :: "int \<Rightarrow> int \<Rightarrow> int" where
  "month_length y mon =
     (if mon = 2 then (if 4 dvd y \<and> (100 dvd y \<longrightarrow> 400 dvd y) then 29 else 28)
      else if mon \<in> {4, 6, 9, 11} then 30 else 31)"

definition valid_date :: "int \<times> int \<times> int \<Rightarrow> bool" where
  "valid_date d \<longleftrightarrow> (case d of (y, mon, day) \<Rightarrow> 1970 \<le> y \<and> 1 \<le> mon \<and> mon \<le> 12 \<and> 1 \<le> day \<and> day \<le> month_length y mon)"

definition next_date :: "int \<times> int \<times> int \<Rightarrow> int \<times> int \<times> int" where
  "next_date d = (case d of (y, mon, day) \<Rightarrow>
     if day < month_length y mon then (y, mon, day + 1) else if mon < 12 then (y, mon + 1, 1) else (y + 1, 1, 1))"

definition day_number :: "int \<times> int \<times> int \<Rightarrow> u64" where
  "day_number d = (case d of (y, mon, day) \<Rightarrow>
     sum_list (map year_days [1970..y - 1]) + sum_list (map (month_days y) [1..mon - 1]) + word_of_int (day - 1))"

lemma unix_by_day_number: "mon \<le> 13 \<Longrightarrow> ymd_hms_to_unix y mon day h m s =
    Some (day_number (y, mon, day) * 86400 + word_of_int h * 3600 + word_of_int m * 60 + word_of_int s)"
  by (simp add: ymd_hms_to_unix_def day_number_def)

lemma upto_snoc: "i \<le> j \<Longrightarrow> [i..j] = [i..j - 1] @ [j]"
  by (rule upto_rec2)

lemma is_leap_gregorian: "is_leap y \<longleftrightarrow> 4 dvd y \<and> (100 dvd y \<longrightarrow> 400 dvd y)"
  unfolding is_leap_def by presburger

lemma month_days_length:
  assumes "1 \<le> mon" "mon \<le> 12"
  shows "month_days y mon = word_of_int (month_length y mon)"
proof -
  have "mon \<in> {1, 2, 3, 4, 5, 6, 7, 8, 9, 10, 11, 12}" using assms by (simp only: insert_iff empty_iff) presburger
  then show ?thesis by (auto simp: month_days_def month_length_def mdays_def is_leap_gregorian)
qed

lemma whole_year: "sum_list (map (month_days y) [1..12]) = year_days y"
  by (simp add: upto.simps month_days_def year_days_def mdays_def)

lemma month_length_pos: "1 \<le> month_length y mon"
  by (simp add: month_length_def)

lemma next_date_valid: "valid_date d \<Longrightarrow> valid_date (next_date d)"
  using month_length_pos by (auto simp: valid_date_def next_date_def split: prod.splits)

lemma day_number_next:
  assumes "valid_date d"
  shows "day_number (next_date d) = day_number d + 1"
proof -
  obtain y mon day where d: "d = (y, mon, day)" by (cases d) auto
  have v: "1970 \<le> y" "1 \<le> mon" "mon \<le> 12" "1 \<le> day" "day \<le> month_length y mon" using assms by (auto simp: d valid_date_def)
  consider "day < month_length y mon" | "day = month_length y mon" "mon < 12" | "day = month_length y mon" "mon = 12"
    using v by linarith
  then show ?thesis
  proof cases
    case 1
    then show ?thesis by (simp add: d next_date_def day_number_def algebra_simps)
  next
    case 2
    then show ?thesis
      using upto_snoc [of 1 mon] v by (simp add: d next_date_def day_number_def month_days_length algebra_simps)
  next
    case 3
    have "[1970..y] = [1970..y - 1] @ [y]" using upto_snoc v by simp
    moreover have "year_days y = sum_list (map (month_days y) [1..11]) + month_days y 12"
      using whole_year [of y] upto_snoc [of 1 12] by simp
    ultimately show ?thesis
      using 3 by (simp add: d next_date_def day_number_def month_days_length algebra_simps)
  qed
qed

text \<open>
  C40: Calendar. The conversion of a date and time to Unix seconds agrees with counting days: for the date that is
  reached \<open>n\<close> days after 1 January 1970 by the Gregorian calendar (\<open>month_length\<close>: months of 30 and 31 days, February,
  every fourth year a leap year except the centuries that 400 does not divide), it returns \<open>n\<close> days of 86400 seconds plus the time of day.
\<close>
theorem unix_time_counts_days:
  "case (next_date ^^ n) (1970, 1, 1) of (y, mon, day) \<Rightarrow>
     ymd_hms_to_unix y mon day h m s =
       Some (of_nat n * 86400 + word_of_int h * 3600 + word_of_int m * 60 + word_of_int s)"
proof -
  have *: "valid_date ((next_date ^^ n) (1970, 1, 1)) \<and> day_number ((next_date ^^ n) (1970, 1, 1)) = of_nat n"
  proof (induction n)
    case 0
    show ?case by (simp add: valid_date_def month_length_def day_number_def)
  next
    case (Suc n)
    then show ?case using next_date_valid day_number_next by simp
  qed
  obtain y mon day where d: "(next_date ^^ n) (1970, 1, 1) = (y, mon, day)" by (metis prod_cases3)
  then show ?thesis
    using * unix_by_day_number [of mon y day h m s] by (simp add: valid_date_def)
qed

section \<open>Readings of the clock\<close>

fun clock_reads :: "(u64 \<times> u16) list \<Rightarrow> boot_clock \<Rightarrow> u64 list" where
  "clock_reads [] c = []"
| "clock_reads ((tsc, pit) # rs) c = (case boottime_monotonic_us tsc pit c of (t, c1) \<Rightarrow> t # clock_reads rs c1)"

lemma word_div_max: "(x :: u64) div h \<le> - 1 div h"
proof -
  have "unat x \<le> unat (- 1 :: u64)" using word_le_nat_alt by (metis word_n1_ge)
  then show ?thesis unfolding word_le_nat_alt unat_div by (rule div_le_mono)
qed

lemma monotonic_step:
  assumes "boottime_monotonic_us tsc pit c = (t, c1)"
  shows "g_last_monotonic_us c \<le> t" "g_last_monotonic_us c1 = t" "g_tsc_ready c1 = g_tsc_ready c" "g_tsc_hz c1 = g_tsc_hz c"
    "g_boot_tsc c1 = g_boot_tsc c"
    "g_tsc_ready c \<Longrightarrow> 0 < g_tsc_hz c \<Longrightarrow> t = max (g_last_monotonic_us c) ((tsc - g_boot_tsc c) * 1000000 div g_tsc_hz c)"
  using assms by (auto simp: boottime_monotonic_us_def clock_raw_def Let_def max_def not_less split: if_splits)

lemma clock_reads_sorted: "sorted (g_last_monotonic_us c # clock_reads rs c)"
proof (induction rs arbitrary: c)
  case (Cons r rs)
  obtain tsc pit where r: "r = (tsc, pit)" by fastforce
  obtain t c1 where m: "boottime_monotonic_us tsc pit c = (t, c1)" by fastforce
  show ?case using Cons.IH [of c1] monotonic_step(1,2) [OF m] by (auto simp: r m)
qed simp

lemma clock_reads_bound:
  assumes "g_tsc_ready c" "0 < g_tsc_hz c" "t \<in> set (clock_reads rs c)"
  shows "t \<le> max (g_last_monotonic_us c) (- 1 div g_tsc_hz c)"
  using assms
proof (induction rs arbitrary: c)
  case (Cons r rs)
  obtain tsc pit where r: "r = (tsc, pit)" by fastforce
  obtain u c1 where m: "boottime_monotonic_us tsc pit c = (u, c1)" by fastforce
  note st = monotonic_step [OF m]
  have "(tsc - g_boot_tsc c) * 1000000 div g_tsc_hz c \<le> - 1 div g_tsc_hz c"
    by (rule word_div_max)
  then have u: "u \<le> max (g_last_monotonic_us c) (- 1 div g_tsc_hz c)"
    using st(6) [OF Cons.prems(1,2)] by (simp add: max.coboundedI2)
  show ?case
  proof (cases "t = u")
    case False
    then have "t \<le> max u (- 1 div g_tsc_hz c)"
      using Cons.IH [of c1] Cons.prems st by (simp add: r m)
    then show ?thesis using u by (simp add: max_def split: if_splits)
  qed (use u in simp)
qed simp

text \<open>
  C35: The monotonic clock. Any sequence of readings, from the time stamp counter or from the interval timer, never
  decreases. With the time stamp counter each reading is the elapsed count scaled to microseconds, as long
  as the product fits 64 bits; and no reading ever exceeds \<open>(2^64 - 1) / hz\<close>, where the product
  wraps: the clock stops there for good (after 102 minutes on a 3 GHz processor).
\<close>
theorem monotonic_clock_reads:
  "sorted (g_last_monotonic_us c # clock_reads rs c) \<and>
   (g_tsc_ready c \<and> 0 < g_tsc_hz c \<longrightarrow>
     (\<forall>tsc pit. unat (tsc - g_boot_tsc c) * 1000000 < 2 ^ 64 \<longrightarrow>
        unat (fst (boottime_monotonic_us tsc pit c)) =
          max (unat (g_last_monotonic_us c)) (unat (tsc - g_boot_tsc c) * 1000000 div unat (g_tsc_hz c))) \<and>
     (\<forall>t \<in> set (clock_reads rs c). t \<le> max (g_last_monotonic_us c) (- 1 div g_tsc_hz c)))"
proof (intro conjI impI allI ballI)
  show "sorted (g_last_monotonic_us c # clock_reads rs c)" by (rule clock_reads_sorted)
next
  fix tsc :: u64 and pit :: u16
  assume r: "g_tsc_ready c \<and> 0 < g_tsc_hz c" and f: "unat (tsc - g_boot_tsc c) * 1000000 < 2 ^ 64"
  obtain t c1 where m: "boottime_monotonic_us tsc pit c = (t, c1)" by fastforce
  have "unat ((tsc - g_boot_tsc c) * 1000000) = unat (tsc - g_boot_tsc c) * 1000000"
    using f unfolding unat_word_ariths(2) by simp
  then show "unat (fst (boottime_monotonic_us tsc pit c)) =
      max (unat (g_last_monotonic_us c)) (unat (tsc - g_boot_tsc c) * 1000000 div unat (g_tsc_hz c))"
    using monotonic_step(6) [OF m] r m by (simp add: max_def word_le_nat_alt unat_div)
qed (use clock_reads_bound in blast)

definition demo_clock :: boot_clock where
  "demo_clock = \<lparr>g_boot_realtime_us = 0, g_last_monotonic_us = 0, g_last_pit_counter = 0, g_fallback_pit_counts = 0,
     g_boot_tsc = 0, g_tsc_hz = 3000000000, g_tsc_ready = True\<rparr>"

text \<open>Three hours after boot the clock of a 3 GHz machine shows less than 103 minutes.\<close>

theorem monotonic_clock_reads_witness:
  "fst (boottime_monotonic_us 3000000000 0 demo_clock) = 1000000 \<and>
   (case clock_reads [(10800 * 3000000000, 0)] demo_clock of [t] \<Rightarrow> t \<le> 6148914691)"
proof -
  have a: "unat (fst (boottime_monotonic_us 3000000000 0 demo_clock)) = unat (1000000 :: u64)"
    using monotonic_clock_reads [of demo_clock "[]"] by (simp add: demo_clock_def)
  have b: "\<forall>t \<in> set (clock_reads [(10800 * 3000000000, 0)] demo_clock). t \<le> max 0 (- 1 div 3000000000)"
    using monotonic_clock_reads [of demo_clock "[(10800 * 3000000000, 0)]"] by (simp add: demo_clock_def)
  have "(- 1 div 3000000000 :: u64) = 6148914691" by simp
  moreover have "fst (boottime_monotonic_us 3000000000 0 demo_clock) = 1000000"
    using a by (simp only: word_unat_eq_iff)
  ultimately show ?thesis using b by (simp split: prod.split prod.split_asm)
qed

end
