(* ===== verification/Elf.thy ===== *)
theory Elf
  imports UserMem VfsExt2
begin

text \<open>
  The program loader of \<^verbatim>\<open>src/elf/elf_loader.c\<close>: it resolves a path, reads the headers of the ELF file, copies its
  segments into user memory, applies relative relocations and does the same for the interpreter the file
  names. \<open>umem\<close> is here the whole address space, which the loader writes through plain pointers. The lemmas show
  that no file, however malformed, makes the loader write outside the range of user addresses, and that the segments
  of a file end up in memory as they are in the file. What the loader relies on when it reads is the locale
  \<open>readable_file\<close>, interpreted on the read operation of ext2.
\<close>

definition ELF64_EHDR_SIZE :: nat where [model_simps]: "ELF64_EHDR_SIZE = 64"
definition ELF64_PHDR_SIZE :: nat where [model_simps]: "ELF64_PHDR_SIZE = 56"
definition ELF64_RELA_SIZE :: u64 where [model_simps]: "ELF64_RELA_SIZE = 24"
definition ELF_IO_CHUNK :: u64 where [model_simps]: "ELF_IO_CHUNK = 4096"
definition ELF_MAX_PHNUM :: u16 where [model_simps]: "ELF_MAX_PHNUM = 128"
definition PT_LOAD :: u32 where [model_simps]: "PT_LOAD = 1"
definition PT_DYNAMIC :: u32 where [model_simps]: "PT_DYNAMIC = 2"
definition PT_INTERP :: u32 where [model_simps]: "PT_INTERP = 3"
definition PT_PHDR :: u32 where [model_simps]: "PT_PHDR = 6"
definition ET_EXEC :: u16 where [model_simps]: "ET_EXEC = 2"
definition ET_DYN :: u16 where [model_simps]: "ET_DYN = 3"
definition EDGE_MAIN_ET_DYN_BASE :: u64 where [model_simps]: "EDGE_MAIN_ET_DYN_BASE = 0x400000"
definition EDGE_MAIN_ET_DYN_BASE_LARGE :: u64 where [model_simps]: "EDGE_MAIN_ET_DYN_BASE_LARGE = 0x30000000"
definition EDGE_INTERP_ET_DYN_BASE :: u64 where [model_simps]: "EDGE_INTERP_ET_DYN_BASE = 0x20000000"
definition USER_LOW_LIMIT_ADDR :: u64 where [model_simps]: "USER_LOW_LIMIT_ADDR = 0x800000"

section \<open>Headers\<close>

record elf64_ehdr =
  e_ident :: "u8 list"
  e_type :: u16
  e_machine :: u16
  e_entry :: u64
  e_phoff :: u64
  e_phentsize :: u16
  e_phnum :: u16

record elf64_phdr =
  p_type :: u32
  p_offset :: u64
  p_vaddr :: u64
  p_filesz :: u64
  p_memsz :: u64

definition field :: "nat \<Rightarrow> nat \<Rightarrow> u8 list \<Rightarrow> u64" where
  "field off n bs = of_le (take n (drop off bs))"

definition ehdr_of :: "u8 list \<Rightarrow> elf64_ehdr" where
  "ehdr_of bs = \<lparr>e_ident = take 16 bs, e_type = ucast (field 16 2 bs), e_machine = ucast (field 18 2 bs),
     e_entry = field 24 8 bs, e_phoff = field 32 8 bs, e_phentsize = ucast (field 54 2 bs), e_phnum = ucast (field 56 2 bs)\<rparr>"

definition phdr_of :: "u8 list \<Rightarrow> elf64_phdr" where
  "phdr_of bs = \<lparr>p_type = ucast (field 0 4 bs), p_offset = field 8 8 bs, p_vaddr = field 16 8 bs,
     p_filesz = field 32 8 bs, p_memsz = field 40 8 bs\<rparr>"

definition phdrs_of :: "nat \<Rightarrow> u8 list \<Rightarrow> elf64_phdr list" where
  "phdrs_of n bs = map (\<lambda>i. phdr_of (drop (ELF64_PHDR_SIZE * i) bs)) [0..<n]"

definition elf_valid :: "elf64_ehdr \<Rightarrow> bool" where
  "elf_valid eh \<longleftrightarrow> take 4 (e_ident eh) = [0x7F, 69, 76, 70] \<and> e_ident eh ! 4 = 2 \<and> e_machine eh = 62 \<and>
     (e_type eh = ET_EXEC \<or> e_type eh = ET_DYN)"

definition user_addr_range_ok :: "u64 \<Rightarrow> u64 \<Rightarrow> bool" where
  "user_addr_range_ok addr len =
     (if addr < USER_MIN_ADDR then False
      else if USER_MAX_ADDR \<le> addr then False
      else if len = 0 then True
      else if addr + len < addr then False
      else if USER_MAX_ADDR < addr + len then False
      else True)"

section \<open>Relocation\<close>

partial_function (option) dyn_scan :: "umem \<Rightarrow> u64 \<Rightarrow> u64 \<Rightarrow> u64 \<Rightarrow> u64 \<Rightarrow> (u64 \<times> u64 \<times> u64) option" where
  "dyn_scan um dyn rela_addr rela_sz rela_ent =
     (let d_tag = of_le (get_user um dyn 8); d_val = of_le (get_user um (dyn + 8) 8)
      in if d_tag = 0 then Some (rela_addr, rela_sz, rela_ent)
         else dyn_scan um (dyn + 16) (if d_tag = 7 then d_val else rela_addr) (if d_tag = 8 then d_val else rela_sz)
                (if d_tag = 9 then d_val else rela_ent))"

fun rela_loop :: "nat \<Rightarrow> u64 \<Rightarrow> u64 \<Rightarrow> u64 \<Rightarrow> umem \<Rightarrow> bool \<times> umem" where
  "rela_loop 0 r rela_ent load_bias um = (True, um)"
| "rela_loop (Suc n) r rela_ent load_bias um =
     (let r_offset = of_le (get_user um r 8); r_info = of_le (get_user um (r + 8) 8); r_addend = of_le (get_user um (r + 16) 8);
          where1 = load_bias + r_offset; val = load_bias + r_addend
      in if (ucast r_info :: u32) \<noteq> 8 then rela_loop n (r + rela_ent) rela_ent load_bias um
         else if \<not> user_addr_range_ok where1 8 then (False, um)
         else rela_loop n (r + rela_ent) rela_ent load_bias (put_user um where1 (le_bytes 8 val)))"

definition edge_load_relative_relocs :: "elf64_phdr list \<Rightarrow> u64 \<Rightarrow> umem \<Rightarrow> (bool \<times> umem) option" where
  "edge_load_relative_relocs ph load_bias um =
     (case find (\<lambda>p. p_type p = PT_DYNAMIC) ph of
        None \<Rightarrow> Some (True, um)
      | Some p \<Rightarrow>
          if load_bias + p_vaddr p = 0 then Some (True, um)
          else case dyn_scan um (load_bias + p_vaddr p) 0 0 ELF64_RELA_SIZE of
            None \<Rightarrow> None
          | Some (rela_addr, rela_sz, rela_ent) \<Rightarrow>
              if rela_addr = 0 \<or> rela_sz = 0 \<or> rela_ent < ELF64_RELA_SIZE then Some (True, um)
              else Some (rela_loop (unat (rela_sz div rela_ent)) (load_bias + rela_addr) rela_ent load_bias um))"

section \<open>Reading the file\<close>

text \<open>An open file: whether it has a superblock, the size in its inode and the read operation of its superblock applied to the inode, which is missing
  when there is no superblock or no such operation. A read returns an error or the bytes, and the state of the file
  system.\<close>

record 's elf_file =
  f_sb :: bool
  f_size :: u32
  f_read :: "(u32 \<Rightarrow> u32 \<Rightarrow> 's \<Rightarrow> (int + u8 list) \<times> 's) option"

function pread_loop ::
  "(u32 \<Rightarrow> u32 \<Rightarrow> 's \<Rightarrow> (int + u8 list) \<times> 's) \<Rightarrow> u32 \<Rightarrow> u32 \<Rightarrow> nat \<Rightarrow> nat \<Rightarrow> u8 list \<Rightarrow> 's \<Rightarrow> u8 list option \<times> 's" where
  "pread_loop rd fsize off len dn acc st =
     (if len \<le> dn then (Some acc, st)
      else case rd (off + of_nat dn) (of_nat (len - dn)) st of
        (Inl _, st1) \<Rightarrow> (None, st1)
      | (Inr bs, st1) \<Rightarrow>
          if bs = [] then ((if off + of_nat dn < fsize then Some (acc @ replicate (len - dn) 0) else None), st1)
          else pread_loop rd fsize off len (dn + length bs) (acc @ bs) st1)"
  by pat_completeness auto
termination by (relation "measure (\<lambda>(_, _, _, len, dn, _, _). len - dn)") (auto simp flip: length_greater_0_conv)

declare pread_loop.simps [simp del]

definition vfs_pread_exact :: "'s elf_file \<Rightarrow> u32 \<Rightarrow> u32 \<Rightarrow> 's \<Rightarrow> u8 list option \<times> 's" where
  "vfs_pread_exact f off len st =
     (if \<not> f_sb f then (None, st)
      else if len = 0 then (Some [], st)
      else case f_read f of None \<Rightarrow> (None, st) | Some rd \<Rightarrow> pread_loop rd (f_size f) off (unat len) 0 [] st)"

section \<open>Segments\<close>

text \<open>Bytes of one step of the copy of a segment: up to the next boundary of 4096 in the file.\<close>

definition chunk_size :: "u64 \<Rightarrow> u64 \<Rightarrow> u32" where
  "chunk_size foff left1 =
     (let n = ucast left1 :: u32; mis = ucast (foff AND (ELF_IO_CHUNK - 1)) :: u32
      in if mis \<noteq> 0 then min n (4096 - mis) else min n 4096)"

text \<open>A step of no bytes would repeat for ever: the value \<^term>\<open>None\<close>.\<close>

function copy_segment :: "'s elf_file \<Rightarrow> u64 \<Rightarrow> u64 \<Rightarrow> u64 \<Rightarrow> nat \<Rightarrow> umem \<Rightarrow> 's \<Rightarrow> (bool \<times> umem \<times> 's) option" where
  "copy_segment f offset filesz dst dn um st =
     (if unat filesz \<le> dn then Some (True, um, st)
      else
        let foff = offset + of_nat dn; n = chunk_size foff (filesz - of_nat dn)
        in if n = 0 then None
           else case vfs_pread_exact f (ucast foff) n st of
                  (None, st1) \<Rightarrow> Some (False, um, st1)
                | (Some bs, st1) \<Rightarrow>
                    copy_segment f offset filesz dst (dn + unat n) (put_user um (dst + of_nat dn) (take (unat n) bs)) st1)"
  by pat_completeness auto
termination
proof (relation "measure (\<lambda>(_, _, filesz, _, dn, _, _). unat filesz - dn)", goal_cases)
  case (2 f offset filesz dst dn um st foff n)
  then have "0 < unat n" by (simp add: unat_gt_0)
  then show ?case using 2 by simp
qed simp

declare copy_segment.simps [simp del]

fun load_segments ::
  "'s elf_file \<Rightarrow> u64 \<Rightarrow> elf64_phdr list \<Rightarrow> u64 \<Rightarrow> umem \<Rightarrow> 's \<Rightarrow> (u64 option \<times> umem \<times> 's) option" where
  "load_segments f load_bias [] load_hi um st = Some (Some load_hi, um, st)"
| "load_segments f load_bias (p # ps) load_hi um st =
     (let dst = load_bias + p_vaddr p; end1 = dst + p_memsz p
      in if p_type p \<noteq> PT_LOAD then load_segments f load_bias ps load_hi um st
         else if ucast (f_size f) < p_offset p + p_filesz p then Some (None, um, st)
         else if p_memsz p < p_filesz p then Some (None, um, st)
         else if \<not> user_addr_range_ok dst (p_memsz p) then Some (None, um, st)
         else if end1 < dst then Some (None, um, st)
         else case copy_segment f (p_offset p) (p_filesz p) dst 0 um st of
           None \<Rightarrow> None
         | Some (False, um1, st1) \<Rightarrow> Some (None, um1, st1)
         | Some (True, um1, st1) \<Rightarrow>
             load_segments f load_bias ps (max load_hi end1)
               (if p_filesz p < p_memsz p
                then put_user um1 (dst + p_filesz p) (replicate (unat (ucast (p_memsz p - p_filesz p) :: u32)) 0) else um1) st1)"

text \<open>The end of the image relative to its base, for the choice of the base of a position independent program.\<close>

fun image_span :: "elf64_phdr list \<Rightarrow> u64 \<Rightarrow> u64 option" where
  "image_span [] rel_hi = Some rel_hi"
| "image_span (p # ps) rel_hi =
     (let end1 = p_vaddr p + p_memsz p
      in if p_type p \<noteq> PT_LOAD then image_span ps rel_hi
         else if end1 < p_vaddr p then None
         else image_span ps (max rel_hi end1))"

definition choose_bias :: "elf64_ehdr \<Rightarrow> elf64_phdr list \<Rightarrow> u64 \<Rightarrow> u64 option" where
  "choose_bias eh ph et_dyn_base =
     (if e_type eh = ET_DYN \<and> et_dyn_base = EDGE_MAIN_ET_DYN_BASE then
        map_option (\<lambda>rel_hi. if USER_LOW_LIMIT_ADDR < EDGE_MAIN_ET_DYN_BASE + rel_hi then EDGE_MAIN_ET_DYN_BASE_LARGE else et_dyn_base)
          (image_span ph 0)
      else Some (if e_type eh = ET_DYN then et_dyn_base else 0))"

record edge_elf_loaded =
  l_load_bias :: u64
  l_entry :: u64
  l_phdr :: u64
  l_phnum :: u64
  l_load_hi :: u64
  l_interp_off :: u64
  l_interp_sz :: u64
  l_has_interp :: bool
  l_interp_path :: cbuf

fun scan_headers ::
  "'s elf_file \<Rightarrow> u64 \<Rightarrow> elf64_phdr list \<Rightarrow> edge_elf_loaded \<Rightarrow> 's \<Rightarrow> edge_elf_loaded option \<times> 's" where
  "scan_headers f load_bias [] img st = (Some img, st)"
| "scan_headers f load_bias (p # ps) img st =
     (if p_type p = PT_PHDR then scan_headers f load_bias ps (img\<lparr>l_phdr := load_bias + p_vaddr p\<rparr>) st
      else if p_type p \<noteq> PT_INTERP then scan_headers f load_bias ps img st
      else if p_filesz p < 2 \<or> 256 \<le> p_filesz p then (None, st)
      else if ucast (f_size f) < p_offset p + p_filesz p then (None, st)
      else case vfs_pread_exact f (ucast (p_offset p)) (ucast (p_filesz p)) st of
        (None, st1) \<Rightarrow> (None, st1)
      | (Some bs, st1) \<Rightarrow>
          let k = unat (p_filesz p)
          in scan_headers f load_bias ps
               (img\<lparr>l_has_interp := True, l_interp_off := p_offset p, l_interp_sz := p_filesz p,
                    l_interp_path := (take k bs)[k - 1 := 0] @ drop k (l_interp_path img)\<rparr>) st1)"

definition find_phdr :: "elf64_ehdr \<Rightarrow> elf64_phdr list \<Rightarrow> u64 \<Rightarrow> u64" where
  "find_phdr eh ph load_bias =
     (case find (\<lambda>p. p_type p = PT_LOAD \<and> p_offset p \<le> e_phoff eh \<and>
                   \<not> p_offset p + p_filesz p < e_phoff eh + ucast (e_phnum eh) * 56) ph of
        None \<Rightarrow> 0
      | Some p \<Rightarrow> load_bias + p_vaddr p + (e_phoff eh - p_offset p))"

text \<open>The headers of a file that is accepted for loading.\<close>

definition read_headers :: "'s elf_file \<Rightarrow> 's \<Rightarrow> (elf64_ehdr \<times> elf64_phdr list) option \<times> 's" where
  "read_headers f st =
     (if f_size f < 64 then (None, st)
      else case vfs_pread_exact f 0 64 st of
        (None, st1) \<Rightarrow> (None, st1)
      | (Some hb, st1) \<Rightarrow>
          let eh = ehdr_of hb; ph_bytes = ucast (e_phnum eh) * 56
          in if \<not> elf_valid eh then (None, st1)
             else if e_phentsize eh \<noteq> 56 then (None, st1)
             else if e_phnum eh = 0 \<or> ELF_MAX_PHNUM < e_phnum eh then (None, st1)
             else if ucast (f_size f) < e_phoff eh + ph_bytes then (None, st1)
             else case vfs_pread_exact f (ucast (e_phoff eh)) (ucast ph_bytes) st1 of
               (None, st2) \<Rightarrow> (None, st2)
             | (Some bs, st2) \<Rightarrow> (Some (eh, phdrs_of (unat (e_phnum eh)) bs), st2))"

text \<open>The description of the image from its headers.\<close>

definition describe_image ::
  "'s elf_file \<Rightarrow> elf64_ehdr \<Rightarrow> elf64_phdr list \<Rightarrow> u64 \<Rightarrow> u64 \<Rightarrow> 's \<Rightarrow> edge_elf_loaded option \<times> 's" where
  "describe_image f eh ph load_bias load_hi st =
     (case scan_headers f load_bias ph
             \<lparr>l_load_bias = load_bias, l_entry = load_bias + e_entry eh, l_phdr = 0, l_phnum = ucast (e_phnum eh),
              l_load_hi = load_hi, l_interp_off = 0, l_interp_sz = 0, l_has_interp = False, l_interp_path = replicate 256 0\<rparr> st of
        (None, st1) \<Rightarrow> (None, st1)
      | (Some img1, st1) \<Rightarrow>
          let img = (if l_phdr img1 = 0 then img1\<lparr>l_phdr := find_phdr eh ph load_bias\<rparr> else img1)
          in (if l_phdr img = 0 then None else Some img, st1))"

text \<open>Loading an open file gives the description of the image, or a failure, with the memory and the file system;
  \<^term>\<open>None\<close> is a table of dynamic entries that does not end.\<close>

definition load_file :: "'s elf_file \<Rightarrow> u64 \<Rightarrow> umem \<Rightarrow> 's \<Rightarrow> (edge_elf_loaded option \<times> umem \<times> 's) option" where
  "load_file f et_dyn_base um st =
     (case read_headers f st of
        (None, st1) \<Rightarrow> Some (None, um, st1)
      | (Some (eh, ph), st1) \<Rightarrow>
          (case choose_bias eh ph et_dyn_base of
             None \<Rightarrow> Some (None, um, st1)
           | Some load_bias \<Rightarrow>
               (case load_segments f load_bias ph 0 um st1 of
                  None \<Rightarrow> None
                | Some (None, um1, st2) \<Rightarrow> Some (None, um1, st2)
                | Some (Some load_hi, um1, st2) \<Rightarrow>
                    (case edge_load_relative_relocs ph load_bias um1 of
                       None \<Rightarrow> None
                     | Some (False, um2) \<Rightarrow> Some (None, um2, st2)
                     | Some (True, um2) \<Rightarrow>
                         (case describe_image f eh ph load_bias load_hi st2 of (r, st3) \<Rightarrow> Some (r, um2, st3))))))"

definition open_image :: "vfs_inode \<Rightarrow> nat option \<Rightarrow> 'd vfs \<Rightarrow> 'd ext2_st elf_file" where
  "open_image ino sbi st =
     \<lparr>f_sb = (sbi \<noteq> None), f_size = i_size ino,
      f_read = Option.bind sbi (\<lambda>k. map_option (\<lambda>rd. rd (fs_private (g_mounts st ! k)) ino) (op_read (sb_ops (g_mounts st ! k))))\<rparr>"

definition edge_load_elf_from_vfs ::
  "cstr option \<Rightarrow> u64 \<Rightarrow> umem \<Rightarrow> 'd vfs \<Rightarrow> (edge_elf_loaded vres \<times> umem \<times> 'd vfs) option" where
  "edge_load_elf_from_vfs path et_dyn_base um st =
     (if path = None then Some (failed, um, st)
      else case vfs_resolve path st of
        (Inl Overflow, s1) \<Rightarrow> Some (Inl Overflow, um, s1)
      | (Inl _, s1) \<Rightarrow> Some (failed, um, s1)
      | (Inr (ino, sbi), s1) \<Rightarrow>
          if i_mode ino AND 0xF000 = VFS_INODE_DIR then Some (failed, um, s1)
          else map_option (\<lambda>(r, um1, x). ((case r of None \<Rightarrow> failed | Some img \<Rightarrow> Inr img), um1, s1\<lparr>e2 := x\<rparr>))
                 (load_file (open_image ino sbi s1) et_dyn_base um (e2 s1)))"

section \<open>Programs\<close>

record edge_elf_image =
  entry_rip :: u64
  at_phdr :: u64
  at_phnum :: u64
  at_entry :: u64
  at_base :: u64
  main_load_hi :: u64

definition elf_loader_exec :: "cstr option \<Rightarrow> umem \<Rightarrow> 'd vfs \<Rightarrow> (edge_elf_image vres \<times> umem \<times> 'd vfs) option" where
  "elf_loader_exec path um st =
     (case edge_load_elf_from_vfs path EDGE_MAIN_ET_DYN_BASE um st of
        None \<Rightarrow> None
      | Some (Inl e, um1, s1) \<Rightarrow> Some (Inl e, um1, s1)
      | Some (Inr img, um1, s1) \<Rightarrow>
          let out = \<lparr>entry_rip = l_entry img, at_phdr = l_phdr img, at_phnum = l_phnum img, at_entry = l_entry img,
                     at_base = 0, main_load_hi = l_load_hi img\<rparr>;
              ip = cstr_of (l_interp_path img)
          in if \<not> l_has_interp img then Some (Inr out, um1, s1)
             else if take 1 ip \<noteq> [47] then Some (failed, um1, s1)
             else case edge_load_elf_from_vfs (Some ip) EDGE_INTERP_ET_DYN_BASE um1 s1 of
               None \<Rightarrow> None
             | Some (Inl e, um2, s2) \<Rightarrow> Some (Inl e, um2, s2)
             | Some (Inr img2, um2, s2) \<Rightarrow> Some (Inr (out\<lparr>entry_rip := l_entry img2, at_base := l_load_bias img2\<rparr>), um2, s2))"

definition elf_loader_probe :: "'d vfs_io \<Rightarrow> cstr option \<Rightarrow> 'd vfs \<Rightarrow> int vres \<times> 'd vfs" where
  "elf_loader_probe io path st =
     (case vfs_read_file io path 64 st of
        (Inl (Fail _), s1) \<Rightarrow> (Inr (-1), s1)
      | (Inl e, s1) \<Rightarrow> (Inl e, s1)
      | (Inr bs, s1) \<Rightarrow> (Inr (if length bs < 64 then -1 else if elf_valid (ehdr_of bs) then 0 else -1), s1))"

section \<open>Confinement\<close>

definition confined :: "umem \<Rightarrow> umem \<Rightarrow> bool" where
  "confined um um' \<longleftrightarrow> (\<forall>a. a < USER_MIN_ADDR \<or> USER_MAX_ADDR \<le> a \<longrightarrow> um' a = um a)"

lemma confined_refl [simp]: "confined um um"
  by (simp add: confined_def)

lemma confined_trans: "confined um um' \<Longrightarrow> confined um' um'' \<Longrightarrow> confined um um''"
  by (simp add: confined_def)

lemma put_user_confined:
  assumes "4096 \<le> unat a" "unat a + length bs \<le> 2 ^ 30"
  shows "confined um (put_user um a bs)"
  using assms by (auto simp: confined_def put_user_at word_less_nat_alt word_le_nat_alt model_simps)

lemma range_okD:
  assumes "user_addr_range_ok a n"
  shows "4096 \<le> unat a" "unat a + unat n \<le> 2 ^ 30"
proof -
  have "user_range_ok a n" using assms by (simp add: user_addr_range_ok_def user_range_ok_def)
  then show "4096 \<le> unat a" "unat a + unat n \<le> 2 ^ 30" unfolding user_range_ok_iff by auto
qed

lemma chunk_size_le: "unat (chunk_size foff left1) \<le> unat left1"
proof -
  have "unat (chunk_size foff left1) \<le> unat (ucast left1 :: u32)"
    by (auto simp: chunk_size_def Let_def min_def word_le_nat_alt)
  also have "\<dots> \<le> unat left1" by (simp add: unsigned_ucast_eq take_bit_nat_less_eq_self)
  finally show ?thesis .
qed

lemma left_bytes: "dn < unat filesz \<Longrightarrow> unat (filesz - of_nat dn) = unat filesz - dn" for filesz :: u64
proof -
  assume "dn < unat filesz"
  moreover have "dn < 2 ^ 64" using calculation unat_below [of filesz] by simp
  then have "unat (of_nat dn :: u64) = dn" by (simp add: unsigned_of_nat take_bit_nat_eq_self)
  ultimately show ?thesis by (simp add: unat_sub word_le_nat_alt)
qed

lemma dst_at: "unat dst + unat filesz \<le> 2 ^ 30 \<Longrightarrow> dn \<le> unat filesz \<Longrightarrow> unat (dst + of_nat dn) = unat dst + dn" for dst filesz :: u64
  by (subst unat_sum) (simp_all add: unsigned_of_nat take_bit_nat_eq_self)

lemma copy_segment_confined:
  assumes "copy_segment f offset filesz dst dn um st = Some (b, um', st')" "4096 \<le> unat dst" "unat dst + unat filesz \<le> 2 ^ 30"
  shows "confined um um'"
  using assms
proof (induction f offset filesz dst dn um st rule: copy_segment.induct)
  case (1 f offset filesz dst dn um st)
  let ?n = "chunk_size (offset + of_nat dn) (filesz - of_nat dn)"
  obtain r st1 where rd: "vfs_pread_exact f (ucast (offset + of_nat dn)) ?n st = (r, st1)" by fastforce
  show ?case
  proof (cases "dn < unat filesz \<and> ?n \<noteq> 0 \<and> r \<noteq> None")
    case True
    then obtain bs where bs: "r = Some bs" by auto
    have le: "dn + unat ?n \<le> unat filesz"
      using chunk_size_le [of "offset + of_nat dn" "filesz - of_nat dn"] left_bytes True by fastforce
    have at: "unat (dst + of_nat dn) = unat dst + dn" using dst_at [OF "1.prems"(3)] True by simp
    have "confined um (put_user um (dst + of_nat dn) (take (unat ?n) bs))"
      by (rule put_user_confined) (use at le "1.prems"(2,3) in auto)
    moreover have "confined (put_user um (dst + of_nat dn) (take (unat ?n) bs)) um'"
      using "1.IH" [OF _ refl refl _ rd [symmetric] bs] True "1.prems" rd bs
      by (simp add: copy_segment.simps [of f offset filesz dst dn um] Let_def)
    ultimately show ?thesis by (rule confined_trans)
  next
    case False
    then have "um' = um"
      using "1.prems"(1) rd
      by (auto simp: copy_segment.simps [of f offset filesz dst dn um] Let_def not_less split: if_splits option.splits)
    then show ?thesis by simp
  qed
qed

lemma zero_tail_confined:
  fixes dst msz fsz :: u64
  assumes "4096 \<le> unat dst" "unat dst + unat msz \<le> 2 ^ 30" "unat fsz \<le> unat msz"
  shows "confined um (put_user um (dst + fsz) (replicate (unat (ucast (msz - fsz) :: u32)) 0))"
proof (rule put_user_confined)
  have at: "unat (dst + fsz) = unat dst + unat fsz" using assms by (intro unat_sum) simp
  then show "4096 \<le> unat (dst + fsz)" using assms by simp
  have "unat (ucast (msz - fsz) :: u32) \<le> unat msz - unat fsz"
    using assms(3) by (simp add: unsigned_ucast_eq take_bit_nat_less_eq_self unat_sub word_le_nat_alt flip: unat_sub)
  then show "unat (dst + fsz) + length (replicate (unat (ucast (msz - fsz) :: u32)) (0 :: u8)) \<le> 2 ^ 30" using at assms by simp
qed

lemma load_segments_confined:
  assumes "load_segments f load_bias ph hi um st = Some (r, um', st')"
  shows "confined um um'"
  using assms
proof (induction ph arbitrary: hi um st)
  case (Cons p ps)
  let ?dst = "load_bias + p_vaddr p"
  show ?case
  proof (cases "p_type p = PT_LOAD \<and> \<not> ucast (f_size f) < p_offset p + p_filesz p \<and> \<not> p_memsz p < p_filesz p \<and>
      user_addr_range_ok ?dst (p_memsz p) \<and> \<not> ?dst + p_memsz p < ?dst")
    case True
    then obtain b um1 st1 where c: "copy_segment f (p_offset p) (p_filesz p) ?dst 0 um st = Some (b, um1, st1)"
      using Cons.prems by (auto simp: Let_def split: option.splits)
    have r: "4096 \<le> unat ?dst" "unat ?dst + unat (p_memsz p) \<le> 2 ^ 30" using True range_okD by auto
    have fm: "unat (p_filesz p) \<le> unat (p_memsz p)" using True by (simp add: word_less_nat_alt)
    have one: "confined um um1" using copy_segment_confined [OF c] r fm by simp
    let ?um2 = "if p_filesz p < p_memsz p
      then put_user um1 (?dst + p_filesz p) (replicate (unat (ucast (p_memsz p - p_filesz p) :: u32)) 0) else um1"
    have two: "confined um1 ?um2" using zero_tail_confined [OF r fm] by simp
    show ?thesis
    proof (cases b)
      case b: True
      then have "load_segments f load_bias ps (max hi (?dst + p_memsz p)) ?um2 st1 = Some (r, um', st')"
        using Cons.prems True c by (simp add: Let_def)
      then show ?thesis using Cons.IH one two confined_trans by blast
    qed (use Cons.prems True c one in \<open>simp add: Let_def\<close>)
  qed (use Cons in \<open>auto simp: Let_def split: if_splits\<close>)
qed simp

lemma rela_loop_confined: "confined um (snd (rela_loop n r ent load_bias um))"
proof (induction n arbitrary: r um)
  case (Suc n)
  have "confined um (put_user um a (le_bytes 8 v))" if "user_addr_range_ok a 8" for a v
    using range_okD [OF that] by (intro put_user_confined) simp_all
  then show ?case using Suc.IH by (auto simp: Let_def intro: confined_trans [OF _ Suc.IH])
qed simp

lemma relocs_confined: "edge_load_relative_relocs ph load_bias um = Some (b, um') \<Longrightarrow> confined um um'"
  by (auto simp: edge_load_relative_relocs_def split: option.splits if_splits) (metis rela_loop_confined snd_conv)

lemma load_file_confined: "load_file f base um st = Some (r, um', st') \<Longrightarrow> confined um um'"
  by (auto simp: load_file_def Let_def split: option.splits bool.splits prod.splits if_splits
      dest!: load_segments_confined relocs_confined intro: confined_trans)

lemma load_confined: "edge_load_elf_from_vfs path base um st = Some (r, um', st') \<Longrightarrow> confined um um'"
  by (auto simp: edge_load_elf_from_vfs_def split: if_splits prod.splits sum.splits vfs_err.splits dest!: load_file_confined)

text \<open>
  C5: The loader is confined. Whatever the files contain that the loader is given, headers, offsets, sizes, dynamic
  sections and relocations included, and whether it succeeds or fails half-way, loading a program and its
  interpreter writes only to user addresses: every byte below \<^verbatim>\<open>0x1000\<close> and from \<^verbatim>\<open>0x40000000\<close> on keeps its value.
\<close>
theorem elf_load_confined:
  assumes "elf_loader_exec path um st = Some (r, um', st')" "a < USER_MIN_ADDR \<or> USER_MAX_ADDR \<le> a"
  shows "um' a = um a"
proof -
  have "confined um um'"
    using assms(1)
    by (auto simp: elf_loader_exec_def Let_def split: option.splits prod.splits sum.splits if_splits
        dest!: load_confined intro: confined_trans)
  then show ?thesis using assms(2) by (auto simp: confined_def)
qed

section \<open>The loaded image\<close>

text \<open>What the loader relies on when it reads a file of content \<open>c\<close>: in a good state of the file system a read of some
  bytes within the file returns these bytes and leaves the state good.\<close>

locale readable_file =
  fixes rd :: "u32 \<Rightarrow> u32 \<Rightarrow> 's \<Rightarrow> (int + u8 list) \<times> 's" and ok :: "'s \<Rightarrow> bool" and c :: "u8 list"
  assumes read_within: "ok st \<Longrightarrow> n \<noteq> 0 \<Longrightarrow> unat off + unat n \<le> length c \<Longrightarrow>
      \<exists>st1. rd off n st = (Inr (take (unat n) (drop (unat off) c)), st1) \<and> ok st1"
    and content_small: "ok st \<Longrightarrow> length c < 2 ^ 32"

definition in_segment :: "u64 \<Rightarrow> elf64_phdr \<Rightarrow> u64 \<Rightarrow> bool" where
  "in_segment load_bias p a \<longleftrightarrow>
     p_type p = PT_LOAD \<and> unat (load_bias + p_vaddr p) \<le> unat a \<and> unat a < unat (load_bias + p_vaddr p) + unat (p_memsz p)"

definition segment_byte :: "u8 list \<Rightarrow> u64 \<Rightarrow> elf64_phdr \<Rightarrow> u64 \<Rightarrow> u8" where
  "segment_byte c load_bias p a =
     (let k = unat a - unat (load_bias + p_vaddr p) in if k < unat (p_filesz p) then c ! (unat (p_offset p) + k) else 0)"

text \<open>The specification of the loaded segments: the bytes of the file and zeros, later segments over earlier ones.\<close>

definition elf_memory :: "u8 list \<Rightarrow> u64 \<Rightarrow> elf64_phdr list \<Rightarrow> umem \<Rightarrow> umem" where
  "elf_memory c load_bias ph um =
     fold (\<lambda>p m a. if in_segment load_bias p a then segment_byte c load_bias p a else m a) ph um"

definition elf_end :: "u64 \<Rightarrow> elf64_phdr list \<Rightarrow> u64 \<Rightarrow> u64" where
  "elf_end load_bias ph hi = fold (\<lambda>p h. if p_type p = PT_LOAD then max h (load_bias + p_vaddr p + p_memsz p) else h) ph hi"

definition elf_phdrs :: "u8 list \<Rightarrow> elf64_phdr list" where
  "elf_phdrs c = phdrs_of (unat (e_phnum (ehdr_of c))) (drop (unat (e_phoff (ehdr_of c))) c)"

text \<open>The offsets in the headers do not wrap around.\<close>

definition elf_fits :: "u8 list \<Rightarrow> bool" where
  "elf_fits c \<longleftrightarrow> unat (e_phoff (ehdr_of c)) + unat (e_phnum (ehdr_of c)) * 56 < 2 ^ 64 \<and>
     list_all (\<lambda>p. unat (p_offset p) + unat (p_filesz p) < 2 ^ 64) (elf_phdrs c)"

lemma take_drop_take: "i + n \<le> m \<Longrightarrow> take n (drop i (take m xs)) = take n (drop i xs)"
  by (simp add: drop_take min_def)

lemma ehdr_of_take: "ehdr_of (take 64 c) = ehdr_of c"
  by (simp add: ehdr_of_def field_def take_drop_take)

lemma phdrs_of_take: "phdrs_of n (take (n * 56) c) = phdrs_of n c"
proof -
  have "phdr_of (drop (56 * i) (take (n * 56) c)) = phdr_of (drop (56 * i) c)" if "i < n" for i
  proof -
    have "56 * i + 56 \<le> n * 56" using that by linarith
    then have cut: "take k (drop j (drop (56 * i) (take (n * 56) c))) = take k (drop j (drop (56 * i) c))" if "j + k \<le> 56" for j k
      using that take_drop_take [of "j + 56 * i" k "n * 56" c] by simp
    show ?thesis unfolding phdr_of_def field_def using cut [of 0 4] by (simp add: cut del: drop_drop)
  qed
  then show ?thesis by (simp add: phdrs_of_def ELF64_PHDR_SIZE_def)
qed

lemma unat_ucast64 [simp]: "unat (ucast x :: u64) = unat x" for x :: u32
proof -
  have "unat x < 2 ^ 64" using unsigned_less [of x] by (rule less_trans) simp
  then show ?thesis by (simp add: unsigned_ucast_eq take_bit_nat_eq_self)
qed

lemma scan_headers_keeps:
  assumes "scan_headers f load_bias ph img st = (Some img', st')"
  shows "l_load_bias img' = l_load_bias img \<and> l_entry img' = l_entry img \<and> l_load_hi img' = l_load_hi img"
  using assms
proof (induction ph arbitrary: img st)
  case (Cons p ps)
  show ?case
    using Cons.prems by (auto simp: Let_def split: if_splits prod.splits option.splits dest!: Cons.IH)
qed simp

lemma describe_image_keeps:
  assumes "describe_image f eh ph load_bias load_hi st = (Some img, st')"
  shows "l_load_bias img = load_bias \<and> l_entry img = load_bias + e_entry eh \<and> l_load_hi img = load_hi \<and> l_phdr img \<noteq> 0"
  using assms by (auto simp: describe_image_def Let_def split: prod.splits option.splits if_splits dest!: scan_headers_keeps)

context readable_file
begin

definition opened :: "'s elf_file \<Rightarrow> bool" where
  "opened f \<longleftrightarrow> f_sb f \<and> f_read f = Some rd \<and> unat (f_size f) = length c"

lemma pread_content:
  assumes f: "opened f" and s: "ok st" and l: "unat off + unat len \<le> length c"
  obtains st1 where "vfs_pread_exact f off len st = (Some (take (unat len) (drop (unat off) c)), st1)" "ok st1"
proof (cases "len = 0")
  case True
  then show thesis using that [of st] f s by (simp add: vfs_pread_exact_def pread_loop.simps opened_def)
next
  case False
  obtain st1 where r: "rd off len st = (Inr (take (unat len) (drop (unat off) c)), st1)" "ok st1"
    using read_within [OF s False l] by blast
  have pos: "0 < unat len" using False by (simp add: unat_gt_0)
  have w: "(of_nat (unat len - 0) :: u32) = len" "off + of_nat 0 = off" by simp_all
  have n: "length (take (unat len) (drop (unat off) c)) = unat len" using l by simp
  have "pread_loop rd (f_size f) off (unat len) 0 [] st = (Some (take (unat len) (drop (unat off) c)), st1)"
    using pos n by (subst pread_loop.simps, unfold w r) (auto simp: pread_loop.simps [of rd _ off "unat len" "unat len"])
  then show thesis using that [OF _ r(2)] f False by (simp add: vfs_pread_exact_def opened_def)
qed

lemma copy_segment_content:
  assumes "copy_segment f offset filesz dst dn um st = Some (True, um', st')" "opened f" "ok st"
    and "unat offset + unat filesz \<le> length c" "unat dst + unat filesz \<le> 2 ^ 30"
  shows "ok st' \<and> um' a = (if unat dst + dn \<le> unat a \<and> unat a < unat dst + unat filesz then c ! (unat offset + (unat a - unat dst)) else um a)"
  using assms
proof (induction f offset filesz dst dn um st rule: copy_segment.induct)
  case (1 f offset filesz dst dn um st)
  let ?foff = "offset + of_nat dn" let ?n = "chunk_size ?foff (filesz - of_nat dn)"
  note eq = copy_segment.simps [of f offset filesz dst dn um]
  show ?case
  proof (cases "dn < unat filesz")
    case True
    have le: "dn + unat ?n \<le> unat filesz"
      using chunk_size_le [of ?foff "filesz - of_nat dn"] left_bytes [OF True] True by linarith
    have n0: "?n \<noteq> 0" using "1.prems"(1) True by (auto simp: eq Let_def split: if_splits)
    have fl: "length c < 2 ^ 32" by (rule content_small [OF "1.prems"(3)])
    have dn: "unat (of_nat dn :: u64) = dn" using True unat_below [of filesz] by (simp add: unsigned_of_nat take_bit_nat_eq_self)
    have fo: "unat ?foff = unat offset + dn" using dn "1.prems"(4) fl True by (subst unat_sum) simp_all
    then have fo32: "unat (ucast ?foff :: u32) = unat offset + dn"
      using "1.prems"(4) fl True by (simp add: unsigned_ucast_eq take_bit_nat_eq_self)
    let ?bs = "take (unat ?n) (drop (unat offset + dn) c)"
    obtain st1 where rd: "vfs_pread_exact f (ucast ?foff) ?n st = (Some ?bs, st1)" "ok st1"
      using pread_content [OF "1.prems"(2,3), of "ucast ?foff" ?n] le fo32 "1.prems"(4) by auto
    let ?um1 = "put_user um (dst + of_nat dn) (take (unat ?n) ?bs)"
    have lb: "length ?bs = unat ?n" using le "1.prems"(4) by simp
    have at: "unat (dst + of_nat dn) = unat dst + dn" using dst_at [OF "1.prems"(5)] True by simp
    have p: "?um1 x = (if unat dst + dn \<le> unat x \<and> unat x < unat dst + dn + unat ?n then c ! (unat offset + (unat x - unat dst)) else um x)" for x
      using put_user_at [of "dst + of_nat dn" "take (unat ?n) ?bs" um x] at lb le "1.prems"(4,5) by (auto simp: add.assoc)
    have "copy_segment f offset filesz dst (dn + unat ?n) ?um1 st1 = Some (True, um', st')"
      using "1.prems"(1) True n0 rd by (simp add: eq Let_def)
    then have "ok st' \<and> um' a = (if unat dst + (dn + unat ?n) \<le> unat a \<and> unat a < unat dst + unat filesz
        then c ! (unat offset + (unat a - unat dst)) else ?um1 a)"
      using "1.IH" [OF _ refl refl n0 rd(1) [symmetric] refl _ "1.prems"(2) rd(2) "1.prems"(4,5)] True by simp
    then show ?thesis using p [of a] le by auto
  next
    case False
    then show ?thesis using "1.prems"(1,3) by (auto simp: eq)
  qed
qed

lemma load_head:
  assumes "load_segments f load_bias (p # ps) hi um st = Some (Some hi', um', st')" "opened f" "ok st" "p_type p = PT_LOAD"
    and "unat (p_offset p) + unat (p_filesz p) < 2 ^ 64"
  obtains st1 where "ok st1" "load_segments f load_bias ps (max hi (load_bias + p_vaddr p + p_memsz p))
    (\<lambda>x. if in_segment load_bias p x then segment_byte c load_bias p x else um x) st1 = Some (Some hi', um', st')"
proof -
  let ?dst = "load_bias + p_vaddr p"
  have ok1: "\<not> ucast (f_size f) < p_offset p + p_filesz p" "\<not> p_memsz p < p_filesz p" "user_addr_range_ok ?dst (p_memsz p)"
    "\<not> ?dst + p_memsz p < ?dst" using assms(1,4) by (auto simp: Let_def split: if_splits)
  then obtain um1 st1 where cs: "copy_segment f (p_offset p) (p_filesz p) ?dst 0 um st = Some (True, um1, st1)"
    using assms(1,4) by (auto simp: Let_def split: option.splits bool.splits)
  have r: "unat ?dst + unat (p_memsz p) \<le> 2 ^ 30" using range_okD(2) [OF ok1(3)] .
  have fm: "unat (p_filesz p) \<le> unat (p_memsz p)" using ok1(2) by (simp add: word_less_nat_alt)
  have "unat (p_offset p + p_filesz p) \<le> unat (f_size f)" using ok1(1) by (simp add: word_less_nat_alt)
  then have sz: "unat (p_offset p) + unat (p_filesz p) \<le> length c"
    using unat_sum [OF assms(5)] assms(2) by (simp add: opened_def)
  have cp: "ok st1" "um1 x = (if unat ?dst \<le> unat x \<and> unat x < unat ?dst + unat (p_filesz p)
      then c ! (unat (p_offset p) + (unat x - unat ?dst)) else um x)" for x
    using copy_segment_content [OF cs assms(2,3) sz, of x] r fm by simp_all
  let ?len = "unat (ucast (p_memsz p - p_filesz p) :: u32)"
  have len: "?len = unat (p_memsz p) - unat (p_filesz p)"
    using fm r by (simp add: unsigned_ucast_eq take_bit_nat_eq_self unat_sub word_le_nat_alt)
  have at: "unat (?dst + p_filesz p) = unat ?dst + unat (p_filesz p)" using r fm by (intro unat_sum) simp
  let ?um2 = "if p_filesz p < p_memsz p then put_user um1 (?dst + p_filesz p) (replicate ?len 0) else um1"
  have "?um2 x = (if in_segment load_bias p x then segment_byte c load_bias p x else um x)" for x
    using put_user_at [of "?dst + p_filesz p" "replicate ?len 0" um1 x] cp(2) [of x] r fm assms(4)
    unfolding at len by (auto simp: in_segment_def segment_byte_def Let_def word_less_nat_alt)
  then have "?um2 = (\<lambda>x. if in_segment load_bias p x then segment_byte c load_bias p x else um x)" by (rule ext)
  moreover have "load_segments f load_bias ps (max hi (?dst + p_memsz p)) ?um2 st1 = Some (Some hi', um', st')"
    using assms(1,4) ok1 cs by (simp add: Let_def)
  ultimately show thesis using that [OF cp(1)] by simp
qed

lemma load_segments_image:
  assumes "load_segments f load_bias ph hi um st = Some (Some hi', um', st')" "opened f" "ok st"
    and "list_all (\<lambda>p. unat (p_offset p) + unat (p_filesz p) < 2 ^ 64) ph"
  shows "um' = elf_memory c load_bias ph um \<and> hi' = elf_end load_bias ph hi \<and> ok st'"
  using assms
proof (induction ph arbitrary: hi um st)
  case (Cons p ps)
  let ?m = "\<lambda>x. if in_segment load_bias p x then segment_byte c load_bias p x else um x"
  show ?case
  proof (cases "p_type p = PT_LOAD")
    case True
    obtain st1 where l: "ok st1"
        "load_segments f load_bias ps (max hi (load_bias + p_vaddr p + p_memsz p)) ?m st1 = Some (Some hi', um', st')"
      using load_head [OF Cons.prems(1-3) True] Cons.prems(4) by auto
    show ?thesis using Cons.IH [OF l(2) Cons.prems(2) l(1)] Cons.prems(4) True by (simp add: elf_memory_def elf_end_def)
  next
    case False
    then have "?m = um" by (simp add: in_segment_def)
    then show ?thesis using Cons False by (simp add: elf_memory_def elf_end_def)
  qed
qed (simp add: elf_memory_def elf_end_def)

lemma read_headers_content:
  assumes "read_headers f st = (Some (eh, ph), st1)" "opened f" "ok st" "elf_fits c"
  shows "eh = ehdr_of c \<and> ph = elf_phdrs c \<and> ok st1"
proof -
  have l64: "64 \<le> length c" using assms(1,2) by (auto simp: read_headers_def opened_def word_less_nat_alt split: if_splits)
  obtain st2 where r: "vfs_pread_exact f 0 64 st = (Some (take 64 c), st2)" "ok st2"
    using pread_content [OF assms(2,3), of 0 64] l64 by auto
  let ?eh = "ehdr_of c" let ?b = "ucast (e_phnum ?eh) * 56 :: u64"
  have ok1: "\<not> f_size f < 64" "\<not> ELF_MAX_PHNUM < e_phnum ?eh" "\<not> ucast (f_size f) < e_phoff ?eh + ?b"
    using assms(1) r by (auto simp: read_headers_def ehdr_of_take Let_def split: if_splits)
  have few: "unat (e_phnum ?eh) \<le> 128" using ok1(2) by (simp add: ELF_MAX_PHNUM_def word_less_nat_alt)
  have b: "unat ?b = unat (e_phnum ?eh) * 56"
    using few by (simp add: unat_word_ariths unsigned_ucast_eq take_bit_nat_eq_self)
  then have b32: "unat (ucast ?b :: u32) = unat (e_phnum ?eh) * 56" using few by (simp add: unsigned_ucast_eq take_bit_nat_eq_self)
  have sz: "unat (e_phoff ?eh) + unat (e_phnum ?eh) * 56 \<le> length c"
    using ok1(3) unat_sum [of "e_phoff ?eh" ?b] assms(2,4) b by (simp add: word_less_nat_alt opened_def elf_fits_def)
  then have o: "unat (ucast (e_phoff ?eh) :: u32) = unat (e_phoff ?eh)"
    using content_small [OF assms(3)] by (simp add: unsigned_ucast_eq take_bit_nat_eq_self)
  obtain st3 where t: "vfs_pread_exact f (ucast (e_phoff ?eh)) (ucast ?b) st2 =
      (Some (take (unat (e_phnum ?eh) * 56) (drop (unat (e_phoff ?eh)) c)), st3)" "ok st3"
    using pread_content [OF assms(2) r(2), of "ucast (e_phoff ?eh)" "ucast ?b"] sz unfolding b32 o by blast
  then show ?thesis
    using assms(1) r ok1 by (auto simp: read_headers_def ehdr_of_take Let_def phdrs_of_take elf_phdrs_def split: if_splits)
qed

lemma load_file_image:
  assumes "load_file f base um st = Some (Some img, um', st')" "opened f" "ok st" "elf_fits c"
  shows "choose_bias (ehdr_of c) (elf_phdrs c) base = Some (l_load_bias img) \<and>
    edge_load_relative_relocs (elf_phdrs c) (l_load_bias img) (elf_memory c (l_load_bias img) (elf_phdrs c) um) = Some (True, um') \<and>
    l_entry img = l_load_bias img + e_entry (ehdr_of c) \<and> l_load_hi img = elf_end (l_load_bias img) (elf_phdrs c) 0 \<and>
    l_phdr img \<noteq> 0"
proof -
  obtain eh ph st1 where h: "read_headers f st = (Some (eh, ph), st1)"
    using assms(1) by (auto simp: load_file_def split: prod.splits option.splits)
  note H = read_headers_content [OF h assms(2-4)]
  obtain bias where b: "choose_bias eh ph base = Some bias" using assms(1) h by (auto simp: load_file_def split: option.splits)
  obtain hi um1 st2 where s: "load_segments f bias ph 0 um st1 = Some (Some hi, um1, st2)"
    using assms(1) h b by (auto simp: load_file_def split: option.splits)
  have S: "um1 = elf_memory c bias ph um \<and> hi = elf_end bias ph 0 \<and> ok st2"
    using load_segments_image [OF s assms(2)] H assms(4) by (simp add: elf_fits_def)
  have r: "edge_load_relative_relocs ph bias um1 = Some (True, um')" "describe_image f eh ph bias hi st2 = (Some img, st')"
    using assms(1) h b s by (auto simp: load_file_def split: option.splits bool.splits prod.splits)
  show ?thesis using describe_image_keeps [OF r(2)] r(1) b H S by simp
qed

end

section \<open>Programs on ext2\<close>

text \<open>The file of an inode on a well-formed ext2 volume, without holes.\<close>

definition holds_file :: "('d \<Rightarrow> u32 \<Rightarrow> u8 list) \<Rightarrow> nat \<Rightarrow> u32 \<Rightarrow> u8 list \<Rightarrow> 'd ext2_st \<Rightarrow> bool" where
  "holds_file content f i c st \<longleftrightarrow>
     (let x = inode_at content f st i
      in (\<exists>L. fs_wf content f L st \<and> i \<in> L) \<and> length c = unat (e_size x) \<and>
         (\<forall>p < length c. p div bsize f st < 12 \<and> e_block x ! (p div bsize f st) \<noteq> 0 \<and> fbyte content f st x p = c ! p))"

lemma holds_file_same:
  assumes "holds_file content f i c st" "same_disk content st t"
  shows "holds_file content f i c t"
proof -
  have "bsize f t = bsize f st" using assms(2) by (simp add: same_disk_def)
  then show ?thesis
    using assms(1) fs_wf_same [OF _ assms(2)]
    by (auto simp: holds_file_def Let_def inode_at_same [OF assms(2)] fbyte_same [OF assms(2)])
qed

interpretation e2prog: readable_file "\<lambda>off n st. fail_or (ext2_read f ino off n st)" "holds_file content f (i_ino ino) c" c
proof
  fix st and n off :: u32
  assume h: "holds_file content f (i_ino ino) c st" and n: "n \<noteq> 0" "unat off + unat n \<le> length c"
  let ?x = "inode_at content f st (i_ino ino)"
  obtain L where L: "fs_wf content f L st" "i_ino ino \<in> L" using h by (auto simp: holds_file_def Let_def)
  have sz: "length c = unat (e_size ?x)" using h by (simp add: holds_file_def Let_def)
  have lt: "unat off + unat n < 2 ^ 32" using n(2) sz unat_u32_bound [of "e_size ?x"] by simp
  obtain s1 where r: "ext2_read f ino off n st = (Some (map (fbyte content f st ?x) [unat off..<unat off + unat n]), s1)"
    "same_disk content st s1"
    using read_back [OF L refl _ lt] h n(2) sz by (fastforce simp: holds_file_def Let_def)
  have "map (fbyte content f st ?x) [unat off..<unat off + unat n] = take (unat n) (drop (unat off) c)"
    by (rule nth_equalityI) (use h n(2) in \<open>auto simp: holds_file_def Let_def\<close>)
  then show "\<exists>st1. fail_or (ext2_read f ino off n st) = (Inr (take (unat n) (drop (unat off) c)), st1) \<and> holds_file content f (i_ino ino) c st1"
    using r holds_file_same [OF h r(2)] by (simp add: fail_or_def)
next
  fix st
  assume "holds_file content f (i_ino ino) c st"
  then show "length c < 2 ^ 32" using unat_u32_bound [of "e_size (inode_at content f st (i_ino ino))"] by (simp add: holds_file_def Let_def)
qed

lemma load_from_vfs_file:
  assumes "edge_load_elf_from_vfs (Some path) base um st = Some (Inr img, um', st')" "vfs_resolve (Some path) st = (Inr (ino, sbi), s1)"
  obtains x where "load_file (open_image ino sbi s1) base um (e2 s1) = Some (Some img, um', x)"
  using assms by (auto simp: edge_load_elf_from_vfs_def split: if_splits option.splits prod.splits)

text \<open>A program on an ext2 volume: the image in memory comes from the blocks of the file on the device.\<close>

lemma ext2_program_loaded:
  assumes "edge_load_elf_from_vfs (Some path) base um st = Some (Inr img, um', st')"
    and "vfs_resolve (Some path) st = (Inr (ino, Some k), s1)" "sb_ops (g_mounts s1 ! k) = ext2_ops"
    and "holds_file content (fs_private (g_mounts s1 ! k)) (i_ino ino) c (e2 s1)" "unat (i_size ino) = length c" "elf_fits c"
  shows "edge_load_relative_relocs (elf_phdrs c) (l_load_bias img) (elf_memory c (l_load_bias img) (elf_phdrs c) um) = Some (True, um')"
proof -
  obtain x where x: "load_file (open_image ino (Some k) s1) base um (e2 s1) = Some (Some img, um', x)"
    by (rule load_from_vfs_file [OF assms(1,2)])
  have "e2prog.opened (fs_private (g_mounts s1 ! k)) ino c (open_image ino (Some k) s1)"
    using assms(3,5) by (simp add: e2prog.opened_def open_image_def ext2_ops_def)
  then show ?thesis using e2prog.load_file_image [OF x _ assms(4,6)] by blast
qed

text \<open>
  C4: The loaded image. When the loader reports success for a file that its file system reads correctly, whatever that
  file system is, user memory is exactly the specification: the load bias is the chosen one, each
  loadable segment is in memory at its address plus the bias, first the bytes of the file, then zeros up to the
  size in memory, later segments over earlier ones, all other memory is unchanged, and then the relative relocations of the
  dynamic section are applied. The reported entry point and end of the image are those of the file. The
  offsets of the headers are assumed not to wrap around.
\<close>
theorem elf_image_loaded:
  assumes "edge_load_elf_from_vfs (Some path) base um st = Some (Inr img, um', st')"
    and "vfs_resolve (Some path) st = (Inr (ino, sbi), s1)" "f_read (open_image ino sbi s1) = Some rd"
    and "readable_file rd good c" "good (e2 s1)" "unat (i_size ino) = length c" "elf_fits c"
  shows "choose_bias (ehdr_of c) (elf_phdrs c) base = Some (l_load_bias img) \<and>
    edge_load_relative_relocs (elf_phdrs c) (l_load_bias img) (elf_memory c (l_load_bias img) (elf_phdrs c) um) = Some (True, um') \<and>
    l_entry img = l_load_bias img + e_entry (ehdr_of c) \<and> l_load_hi img = elf_end (l_load_bias img) (elf_phdrs c) 0 \<and>
    l_phdr img \<noteq> 0"
proof -
  obtain x where "load_file (open_image ino sbi s1) base um (e2 s1) = Some (Some img, um', x)"
    by (rule load_from_vfs_file [OF assms(1,2)])
  moreover have "readable_file.opened rd c (open_image ino sbi s1)"
    using assms(3,6) by (cases sbi) (simp_all add: readable_file.opened_def [OF assms(4)] open_image_def)
  ultimately show ?thesis using readable_file.load_file_image [OF assms(4)] assms(5,7) by blast
qed

text \<open>A program of one segment, on a file system with one file.\<close>

definition demo_program :: "u8 list" where
  "demo_program =
    [127, 69, 76, 70, 2, 1, 1, 0, 0, 0, 0, 0, 0, 0, 0, 0, 2, 0, 62, 0, 1, 0, 0, 0, 120, 0, 64, 0, 0, 0,
     0, 0, 64, 0, 0, 0, 0, 0, 0, 0, 0, 0, 0, 0, 0, 0, 0, 0, 0, 0, 0, 0, 64, 0, 56, 0, 1, 0, 0, 0,
     0, 0, 0, 0, 1, 0, 0, 0, 7, 0, 0, 0, 0, 0, 0, 0, 0, 0, 0, 0, 0, 0, 64, 0, 0, 0, 0, 0, 0, 0,
     64, 0, 0, 0, 0, 0, 122, 0, 0, 0, 0, 0, 0, 0, 128, 0, 0, 0, 0, 0, 0, 0, 0, 16, 0, 0, 0, 0, 0, 0,
     235, 254]"

definition demo_program_inode :: vfs_inode where
  "demo_program_inode = zero_inode\<lparr>i_ino := 3, i_mode := 0x81ED, i_size := 122\<rparr>"

definition demo_program_sb :: "ram ext2_st vfs_superblock" where
  "demo_program_sb = (demo_sb (lit ''/''))\<lparr>sb_ops := ext2_ops\<lparr>
     op_lookup := \<lambda>_ _ _ _ st. (Some demo_program_inode, st),
     op_read := Some (\<lambda>_ _ off n st. (Inr (take (unat n) (drop (unat off) demo_program)), st))\<rparr>\<rparr>"

definition demo_program_vfs :: "ram vfs" where
  "demo_program_vfs = demo_root_vfs\<lparr>g_mounts := [demo_program_sb]\<rparr>"

definition demo_program_file :: "'s elf_file" where
  "demo_program_file = \<lparr>f_sb = True, f_size = 122, f_read = Some (\<lambda>off n st. (Inr (take (unat n) (drop (unat off) demo_program)), st))\<rparr>"

lemma demo_program_size [simp]: "f_size demo_program_file = 122"
  by (simp add: demo_program_file_def)

lemma demo_program_len: "length demo_program = 122"
  by (simp add: demo_program_def)

lemma demo_readable: "readable_file (\<lambda>off n st. (Inr (take (unat n) (drop (unat off) demo_program)), st)) (\<lambda>_. True) demo_program"
  by unfold_locales (simp_all add: demo_program_len)

lemma demo_program_header: "ehdr_of demo_program = \<lparr>e_ident = [0x7F, 69, 76, 70, 2, 1, 1, 0, 0, 0, 0, 0, 0, 0, 0, 0], e_type = 2, e_machine = 62,
    e_entry = 0x400078, e_phoff = 64, e_phentsize = 56, e_phnum = 1\<rparr>"
  by (simp add: ehdr_of_def field_def demo_program_def of_le_def)

definition demo_phdr :: elf64_phdr where
  "demo_phdr = \<lparr>p_type = 1, p_offset = 0, p_vaddr = 0x400000, p_filesz = 122, p_memsz = 128\<rparr>"

lemma demo_program_phdrs: "elf_phdrs demo_program = [demo_phdr]"
  by (simp add: elf_phdrs_def demo_program_header phdrs_of_def) (simp add: demo_phdr_def phdr_of_def field_def demo_program_def of_le_def)

lemma demo_vfs_resolves:
  "vfs_resolve (Some (lit ''/a'')) demo_program_vfs = (Inr (demo_program_inode, Some 0), demo_program_vfs)"
proof -
  have p: "path_of [lit ''a''] = lit ''/a''" "path_ok [lit ''a'']"
    by (simp_all add: path_of_def path_ok_def name_ok_def name_part_def lit_def VFS_NAME_MAX_def VFS_PATH_MAX_def)
  have "process_current_task demo_program_vfs = process_current_task demo_vfs"
    by (simp add: demo_program_vfs_def demo_root_vfs_def process_current_task_def scheduler_current_task_def scheduler_cpu_local_def
        scheduler_cpu_id_def cong: option.case_cong)
  then have t: "process_current_task demo_program_vfs = TaskP 0" "tasks demo_program_vfs = tasks demo_vfs"
    by (simp_all add: demo_vfs_fields demo_program_vfs_def demo_root_vfs_def)
  have "vfs_current_cwd demo_program_vfs = (lit ''/'', demo_program_vfs)" by (simp add: vfs_current_cwd_def t demo_vfs_fields Let_def lit_def)
  then have "cwd_ok demo_program_vfs" by (simp add: cwd_ok_def lit_def)
  then have n: "normalize_path (Some (lit ''/a'')) demo_program_vfs = (Some (lit ''/a''), demo_program_vfs)"
    using normalize_path_of [OF _ p(2)] p(1) by simp
  have m: "g_mounts demo_program_vfs = [demo_program_sb]" by (simp add: demo_program_vfs_def)
  have "strncmp (lit ''/a'') (lit ''/dev/'') 5 \<noteq> 0" by code_simp
  then have d: "vfs_try_resolve_devpath (lit ''/a'') demo_program_vfs = None" by (simp add: vfs_try_resolve_devpath_def)
  have mp: "mountpoint demo_program_sb = lit ''/''" by (simp add: demo_program_sb_def demo_sb_def)
  have f: "vfs_find_mount (lit ''/a'') demo_program_vfs = Some 0"
    unfolding vfs_find_mount_def m by (simp add: mp) code_simp
  have w: "walk_path demo_program_sb (rel_path (lit ''/'') (lit ''/a'')) r st = (Some demo_program_inode, st)" for r st
  proof -
    have "rel_path (lit ''/'') (lit ''/a'') = [97]" by (simp add: rel_path_def lit_def)
    then show ?thesis
      by (simp add: walk_path.simps [of _ "[97]"] walk_path.simps [of _ "[]"] VFS_NAME_MAX_def lit_def strcmp_zero_iff demo_program_sb_def)
  qed
  show ?thesis by (simp add: vfs_resolve_def n resolve_abs_def d f m mp w)
qed

lemma demo_opened: "open_image demo_program_inode (Some 0) demo_program_vfs = demo_program_file"
  by (simp add: open_image_def demo_program_vfs_def demo_program_sb_def demo_program_file_def demo_program_inode_def)

lemma demo_pread:
  assumes "unat off + unat n \<le> 122" "0 < unat n"
  shows "vfs_pread_exact demo_program_file off n st = (Some (take (unat n) (drop (unat off) demo_program)), st)"
proof -
  have "length (take (unat n) (drop (unat off) demo_program)) = unat n" using assms by (simp add: demo_program_len)
  moreover have w: "(of_nat (unat n - 0) :: u32) = n" "off + of_nat 0 = off" by simp_all
  ultimately show ?thesis
    using assms(2) unfolding vfs_pread_exact_def demo_program_file_def
    by (simp, subst pread_loop.simps, unfold w) (auto simp: pread_loop.simps [of _ _ off "unat n" "unat n"])
qed

definition demo_image :: edge_elf_loaded where
  "demo_image = \<lparr>l_load_bias = 0, l_entry = 0x400078, l_phdr = 0x400040, l_phnum = 1, l_load_hi = 0x400080,
     l_interp_off = 0, l_interp_sz = 0, l_has_interp = False, l_interp_path = replicate 256 0\<rparr>"

lemma demo_headers: "read_headers demo_program_file st = (Some (ehdr_of demo_program, [demo_phdr]), st)"
proof -
  have "phdrs_of 1 (take 56 (drop 64 demo_program)) = [demo_phdr]"
    using demo_program_phdrs phdrs_of_take [of 1 "drop 64 demo_program"] by (simp add: elf_phdrs_def demo_program_header)
  then show ?thesis
    using demo_pread [of 0 64 st] demo_pread [of 64 56 st]
    by (simp add: read_headers_def ehdr_of_take demo_program_header elf_valid_def model_simps Let_def)
qed

lemma demo_segment:
  "load_segments demo_program_file 0 [demo_phdr] 0 um st =
     Some (Some 0x400080, put_user (put_user um 0x400000 demo_program) 0x40007A (replicate 6 0), st)"
proof -
  have "chunk_size 0 122 = 122" by (simp add: chunk_size_def)
  then have "copy_segment demo_program_file 0 122 0x400000 0 um st = Some (True, put_user um 0x400000 demo_program, st)"
    using demo_pread [of 0 122 st] demo_program_len
    by (subst copy_segment.simps) (simp add: copy_segment.simps [of _ _ _ _ 122])
  then show ?thesis
    by (simp add: demo_phdr_def user_addr_range_ok_def model_simps)
qed

lemma demo_loads:
  "edge_load_elf_from_vfs (Some (lit ''/a'')) EDGE_MAIN_ET_DYN_BASE um demo_program_vfs =
     Some (Inr demo_image, put_user (put_user um 0x400000 demo_program) 0x40007A (replicate 6 0), demo_program_vfs)"
proof -
  have "describe_image demo_program_file (ehdr_of demo_program) [demo_phdr] 0 0x400080 st = (Some demo_image, st)" for st :: "ram ext2_st"
    by (simp add: describe_image_def demo_phdr_def demo_program_header find_phdr_def demo_image_def model_simps)
  moreover have "choose_bias (ehdr_of demo_program) [demo_phdr] EDGE_MAIN_ET_DYN_BASE = Some 0"
    by (simp add: choose_bias_def demo_program_header ET_DYN_def)
  moreover have "edge_load_relative_relocs [demo_phdr] 0 m = Some (True, m)" for m
    by (simp add: edge_load_relative_relocs_def demo_phdr_def PT_DYNAMIC_def)
  ultimately have "load_file demo_program_file EDGE_MAIN_ET_DYN_BASE um st =
      Some (Some demo_image, put_user (put_user um 0x400000 demo_program) 0x40007A (replicate 6 0), st)" for st :: "ram ext2_st"
    by (simp add: load_file_def demo_headers demo_segment del: load_segments.simps)
  then show ?thesis
    by (simp add: edge_load_elf_from_vfs_def demo_vfs_resolves demo_opened) (simp add: demo_program_inode_def VFS_INODE_DIR_def)
qed

theorem elf_image_loaded_witness:
  "fst (the (edge_load_elf_from_vfs (Some (lit ''/a'')) EDGE_MAIN_ET_DYN_BASE (\<lambda>_. 7) demo_program_vfs)) = Inr demo_image \<and>
   edge_load_relative_relocs [demo_phdr] 0 (elf_memory demo_program 0 [demo_phdr] (\<lambda>_. 7)) =
     Some (True, put_user (put_user (\<lambda>_. 7) 0x400000 demo_program) 0x40007A (replicate 6 0)) \<and>
   l_load_hi demo_image = elf_end 0 [demo_phdr] 0"
proof -
  have "elf_fits demo_program" unfolding elf_fits_def demo_program_phdrs by (simp add: demo_program_header demo_phdr_def)
  moreover have "f_read (open_image demo_program_inode (Some 0) demo_program_vfs) =
      Some (\<lambda>off n st. (Inr (take (unat n) (drop (unat off) demo_program)), st))" by (simp add: demo_opened demo_program_file_def)
  ultimately show ?thesis
    using elf_image_loaded [OF demo_loads demo_vfs_resolves _ demo_readable TrueI] demo_program_phdrs
    by (simp add: demo_loads demo_program_len demo_program_inode_def demo_image_def)
qed

theorem elf_load_confined_witness:
  "\<exists>r um' st'. elf_loader_exec (Some (lit ''/a'')) (\<lambda>_. 7) demo_program_vfs = Some (Inr r, um', st') \<and> entry_rip r = 0x400078 \<and>
     um' 0xFFF = 7 \<and> um' 0x40000000 = 7 \<and> um' 0x400000 = 0x7F"
proof -
  let ?um = "put_user (put_user (\<lambda>_. 7) 0x400000 demo_program) 0x40007A (replicate 6 0)"
  let ?r = "\<lparr>entry_rip = 0x400078, at_phdr = 0x400040, at_phnum = 1, at_entry = 0x400078, at_base = 0, main_load_hi = 0x400080\<rparr>"
  have e: "elf_loader_exec (Some (lit ''/a'')) (\<lambda>_. 7) demo_program_vfs = Some (Inr ?r, ?um, demo_program_vfs)"
    unfolding elf_loader_exec_def demo_loads by (simp add: demo_image_def)
  have "?um 0x400000 = 0x7F" by (simp add: put_user_def demo_program_def)
  then show ?thesis
    using e elf_load_confined [OF e, where a = "0xFFF"] elf_load_confined [OF e, where a = "0x40000000"] by (auto simp: model_simps)
qed

end
