(* ===== verification/UserExec.thy ===== *)
theory UserExec
  imports UserMem FdTable
begin

text \<open>
  The start of a program in \<^verbatim>\<open>src/sys/user_exec.c\<close>: the strings of the arguments and of the environment, the vectors of
  pointers to them and the auxiliary vector are put on the stack of the new program, and the processor enters user
  mode. The lemmas show the layout that the start code of a program reads.
\<close>

section \<open>The initial stack\<close>

definition USER_CS :: u64 where [model_simps]: "USER_CS = 0x1B"
definition USER_DS :: u64 where [model_simps]: "USER_DS = 0x23"

text \<open>The registers with which user mode is entered; the other caller-saved registers are zero.\<close>

record user_entry =
  u_rip :: u64
  u_rsp :: u64
  u_rdi :: u64
  u_rsi :: u64
  u_rflags :: u64
  u_cs :: u64
  u_ss :: u64

definition user_iretq_enter :: "u64 \<Rightarrow> u64 \<Rightarrow> u64 \<Rightarrow> u64 \<Rightarrow> user_entry" where
  "user_iretq_enter rip1 rsp1 argc argv =
     \<lparr>u_rip = rip1, u_rsp = rsp1, u_rdi = argc, u_rsi = argv, u_rflags = 0x202, u_cs = USER_CS, u_ss = USER_DS\<rparr>"

definition user_exec_set_kernel_rsp0 :: "u64 \<Rightarrow> 'a sched_scheme \<Rightarrow> 'a sched_scheme" where
  "user_exec_set_kernel_rsp0 rsp0 s = s\<lparr>tss_rsp0 := rsp0\<rparr>"

definition user_push_u64 :: "u64 \<Rightarrow> u64 \<Rightarrow> umem \<Rightarrow> (u64 \<times> umem) option" where
  "user_push_u64 sp v um = (if sp < 8 then None else Some (sp - 8, put_user um (sp - 8) (le_bytes 8 v)))"

fun push_all :: "u64 list \<Rightarrow> u64 \<Rightarrow> umem \<Rightarrow> u64 option \<times> umem" where
  "push_all [] sp um = (Some sp, um)"
| "push_all (v # vs) sp um = (case user_push_u64 sp v um of None \<Rightarrow> (None, um) | Some (sp1, um1) \<Rightarrow> push_all vs sp1 um1)"

text \<open>The strings of a vector that has a length limit of 32, up to the first null pointer; the vector may be null itself.\<close>

definition real_args :: "int \<Rightarrow> cstr option list option \<Rightarrow> cstr list" where
  "real_args argc argv =
     (let n = (if argc < 0 then 0 else if 32 < argc then 32 else argc)
      in case argv of None \<Rightarrow> [] | Some xs \<Rightarrow> map the (takeWhile (\<lambda>x. x \<noteq> None) (take (nat n) xs)))"

text \<open>The last string is copied first, to the highest address.\<close>

fun push_strings :: "cstr list \<Rightarrow> u64 \<Rightarrow> umem \<Rightarrow> u64 list \<times> u64 \<times> umem" where
  "push_strings [] sp um = ([], sp, um)"
| "push_strings (x # xs) sp um =
     (case push_strings xs sp um of
        (ptrs, sp1, um1) \<Rightarrow> let sp2 = sp1 - of_nat (length x + 1) in (sp2 # ptrs, sp2, put_user um1 sp2 (x @ [0])))"

definition align_stack :: "nat \<Rightarrow> u64 \<Rightarrow> u64 option" where
  "align_stack qwords sp =
     (let sp1 = sp AND NOT 0xF
      in if qwords mod 2 \<noteq> 0 then (if sp1 < 8 then None else Some (sp1 - 8)) else Some sp1)"

definition aux_words :: "user_exec_image \<Rightarrow> task \<Rightarrow> u64 list" where
  "aux_words img cur =
     [0, 0, ucast (egid cur), 14, ucast (gid cur), 13, ucast (euid cur), 12, ucast (uid cur), 11, 4096, 6, img_at_base img, 7,
      img_at_entry img, 9, img_at_phnum img, 5, 56, 4, img_at_phdr img, 3]"

definition user_exec_run ::
  "user_exec_image \<Rightarrow> int \<Rightarrow> cstr option list option \<Rightarrow> int \<Rightarrow> cstr option list option \<Rightarrow> umem \<Rightarrow> 'a sched_scheme \<Rightarrow>
   user_entry option \<times> umem \<times> 'a sched_scheme" where
  "user_exec_run img argc argv envc envp um s =
     (let cur = tasks s (process_current_task s); args = real_args argc argv; envs = real_args envc envp;
          (aptrs, sp1, um1) = push_strings args (img_stack_top img) um;
          (eptrs, sp2, um2) = push_strings envs sp1 um1
      in case align_stack (25 + length args + length envs) sp2 of
           None \<Rightarrow> (None, um2, s)
         | Some sp3 \<Rightarrow>
             (case push_all (aux_words img cur @ [0] @ rev eptrs @ [0] @ rev aptrs @ [of_nat (length args)]) sp3 um2 of
                (None, um3) \<Rightarrow> (None, um3, s)
              | (Some sp4, um3) \<Rightarrow>
                  (Some (user_iretq_enter (img_entry img) sp4 (of_nat (length args)) (sp4 + 8)), um3,
                   user_exec_set_kernel_rsp0 (kernel_stack_top cur) s)))"

section \<open>Layout\<close>

lemma put_user_append:
  assumes "length bs + length cs \<le> 2 ^ 64"
  shows "put_user (put_user um (a + of_nat (length bs)) cs) a bs = put_user um a (bs @ cs)"
proof
  fix x
  let ?d = "x - a"
  show "put_user (put_user um (a + of_nat (length bs)) cs) a bs x = put_user um a (bs @ cs) x"
  proof (cases "unat ?d < length bs")
    case False
    then have n: "length bs < 2 ^ 64" using unat_below [of ?d] by linarith
    then have u: "unat (of_nat (length bs) :: u64) = length bs" by (simp add: unsigned_of_nat take_bit_nat_eq_self)
    then have le: "of_nat (length bs) \<le> ?d" using False by (simp add: word_le_nat_alt)
    have "x - (a + of_nat (length bs)) = ?d - of_nat (length bs)" by simp
    then have "unat (x - (a + of_nat (length bs))) = unat ?d - length bs" using unat_sub [OF le] u by presburger
    then show ?thesis using False by (auto simp: put_user_def nth_append)
  qed (simp add: put_user_def nth_append)
qed

lemma get_user_outside:
  assumes "unat a + length bs \<le> unat b" "unat b + n \<le> 2 ^ 64"
  shows "get_user (put_user um a bs) b n = get_user um b n"
proof -
  have "put_user um a bs (b + of_nat i) = um (b + of_nat i)" if "i < n" for i
  proof -
    have "unat (of_nat i :: u64) = i" using that assms(2) by (simp add: unsigned_of_nat take_bit_nat_eq_self)
    then have "unat (b + of_nat i) = unat b + i" using that assms(2) by (subst unat_sum) simp_all
    then show ?thesis using assms that by (subst put_user_at) simp_all
  qed
  then show ?thesis by (simp add: get_user_def)
qed

lemma length_words [simp]: "length (concat (map (le_bytes 8) vs)) = 8 * length vs"
  by (induction vs) simp_all

lemma push_all_spec:
  assumes "8 * length ws \<le> unat sp"
  shows "push_all ws sp um =
    (Some (sp - of_nat (8 * length ws)), put_user um (sp - of_nat (8 * length ws)) (concat (map (le_bytes 8) (rev ws))))"
  using assms
proof (induction ws arbitrary: sp um)
  case Nil
  then show ?case by (simp add: put_user_def)
next
  case (Cons v vs)
  have u: "unat (sp - 8) = unat sp - 8" and ge: "\<not> sp < 8" using Cons.prems by (simp_all add: unat_sub word_le_nat_alt word_less_nat_alt)
  have "unat sp < 2 ^ 64" by (rule unat_below)
  then have sz: "8 * length vs + 8 \<le> 2 ^ 64" using Cons.prems by simp
  let ?a = "sp - 8 - of_nat (8 * length vs)"
  have "put_user (put_user um (?a + of_nat (length (concat (map (le_bytes 8) (rev vs))))) (le_bytes 8 v)) ?a (concat (map (le_bytes 8) (rev vs))) =
      put_user um ?a (concat (map (le_bytes 8) (rev vs)) @ le_bytes 8 v)"
    by (rule put_user_append) (use sz in simp)
  then show ?case
    using Cons.IH [of "sp - 8" "put_user um (sp - 8) (le_bytes 8 v)"] Cons.prems u ge
    by (simp add: user_push_u64_def algebra_simps)
qed

definition strings_bytes :: "cstr list \<Rightarrow> u8 list" where
  "strings_bytes xs = concat (map (\<lambda>x. x @ [0]) xs)"

lemma strings_bytes_simps [simp]: "strings_bytes [] = []" "strings_bytes (x # xs) = x @ 0 # strings_bytes xs"
  by (simp_all add: strings_bytes_def)

definition string_ptrs :: "u64 \<Rightarrow> cstr list \<Rightarrow> u64 list" where
  "string_ptrs top1 xs = map (\<lambda>i. top1 - of_nat (length (strings_bytes (drop i xs)))) [0..<length xs]"

lemma string_ptrs_simps [simp]: "string_ptrs t [] = []"
  "string_ptrs t (x # xs) = (t - of_nat (length (strings_bytes (x # xs)))) # string_ptrs t xs"
  by (simp_all add: string_ptrs_def upt_conv_Cons flip: map_Suc_upt del: upt_Suc strings_bytes_simps)

lemma push_strings_spec:
  assumes "length (strings_bytes xs) \<le> 2 ^ 64"
  shows "push_strings xs sp um =
    (string_ptrs sp xs, sp - of_nat (length (strings_bytes xs)), put_user um (sp - of_nat (length (strings_bytes xs))) (strings_bytes xs))"
  using assms
proof (induction xs)
  case Nil
  then show ?case by (simp add: put_user_def)
next
  case (Cons x xs)
  let ?n = "of_nat (length (strings_bytes xs)) :: u64" let ?a = "sp - ?n - of_nat (length x + 1)"
  have "put_user (put_user um (?a + of_nat (length (x @ [0]))) (strings_bytes xs)) ?a (x @ [0]) = put_user um ?a ((x @ [0]) @ strings_bytes xs)"
    by (rule put_user_append) (use Cons.prems in simp)
  then show ?case using Cons by (simp add: Let_def algebra_simps)
qed

lemma unat_align16: "unat (x AND NOT 0xF) = unat x div 16 * 16" for x :: u64
proof -
  have m: "(0xF :: u64) = mask 4" by (simp add: mask_eq_exp_minus_1)
  have "x AND NOT (mask 4) = push_bit 4 (drop_bit 4 x)" by (rule bit_eqI) (auto simp: bit_simps)
  moreover have "unat (push_bit 4 (drop_bit 4 x)) = unat x div 16 * 16"
  proof -
    have d: "unat (drop_bit 4 x) = unat x div 16" by (simp add: drop_bit_eq_div unat_div)
    have "unat x div 16 * 16 < 2 ^ 64" using unat_below [of x] by linarith
    then show ?thesis using d by (simp add: push_bit_eq_mult unat_word_ariths)
  qed
  ultimately show ?thesis by (simp add: m)
qed

lemma align_stack_spec:
  assumes "24 \<le> unat sp"
  obtains sp1 where "align_stack q sp = Some sp1" "unat sp1 \<le> unat sp" "unat sp \<le> unat sp1 + 23" "16 dvd unat sp1 + 8 * q"
proof -
  let ?a = "sp AND NOT 0xF"
  have a: "unat ?a = unat sp div 16 * 16" by (rule unat_align16)
  have ge: "16 \<le> unat ?a" using assms unfolding a by presburger
  show thesis
  proof (cases "q mod 2 = 0")
    case True
    have "unat sp \<le> unat ?a + 23" "unat ?a \<le> unat sp" unfolding a by presburger+
    moreover have "16 dvd unat ?a + 8 * q" unfolding a using True by presburger
    ultimately show thesis using that [of ?a] True by (simp add: align_stack_def)
  next
    case False
    have u: "unat (?a - 8) = unat ?a - 8" and n: "\<not> ?a < 8" using ge by (simp_all add: unat_sub word_le_nat_alt word_less_nat_alt)
    have "unat sp \<le> unat ?a - 8 + 23" "unat ?a - 8 \<le> unat sp" unfolding a by presburger+
    moreover have "16 dvd unat ?a - 8 + 8 * q" using ge False unfolding a by presburger
    ultimately show thesis using that [of "?a - 8"] False u n by (simp add: align_stack_def)
  qed
qed

definition words_at :: "umem \<Rightarrow> u64 \<Rightarrow> nat \<Rightarrow> u64 list" where
  "words_at um a n = map (\<lambda>k. of_le (get_user um (a + of_nat (8 * k)) 8)) [0..<n]"

lemma words_at_put:
  assumes "8 * length ws < 2 ^ 64"
  shows "words_at (put_user um a (concat (map (le_bytes 8) ws))) a (length ws) = ws"
proof (rule nth_equalityI)
  fix k assume "k < length (words_at (put_user um a (concat (map (le_bytes 8) ws))) a (length ws))"
  then have k: "k < length ws" by (simp add: words_at_def)
  have nth: "take 8 (drop (8 * k) (concat (map (le_bytes 8) ws))) = le_bytes 8 (ws ! k)"
  proof -
    have "concat (map (le_bytes 8) ws) = concat (map (le_bytes 8) (take k ws)) @ concat (map (le_bytes 8) (drop k ws))"
      by (simp flip: concat_append map_append)
    moreover have "drop k ws = ws ! k # drop (Suc k) ws" using k by (simp add: Cons_nth_drop_Suc)
    ultimately show ?thesis using k by simp
  qed
  have "get_user (put_user um a (concat (map (le_bytes 8) ws))) (a + of_nat (8 * k)) 8 = le_bytes 8 (ws ! k)"
    using get_put_user [of "8 * k" 8 "concat (map (le_bytes 8) ws)" "a + of_nat (8 * k)" a um] k assms nth by simp
  then show "words_at (put_user um a (concat (map (le_bytes 8) ws))) a (length ws) ! k = ws ! k"
    using k by (simp add: words_at_def)
qed (simp add: words_at_def)

lemma strings_bytes_drop: "length (strings_bytes (drop i xs)) \<le> length (strings_bytes xs)"
proof -
  have "strings_bytes xs = strings_bytes (take i xs) @ strings_bytes (drop i xs)"
    by (simp add: strings_bytes_def flip: concat_append map_append)
  then show ?thesis by (metis length_append le_add2)
qed

lemma string_in_bytes:
  assumes "i < length xs" "n = length (strings_bytes xs) - length (strings_bytes (drop i xs))"
  shows "take (length (xs ! i) + 1) (drop n (strings_bytes xs)) = xs ! i @ [0]"
proof -
  have s: "strings_bytes xs = strings_bytes (take i xs) @ strings_bytes (drop i xs)"
    by (simp add: strings_bytes_def flip: concat_append map_append)
  have "drop n (strings_bytes xs) = strings_bytes (drop i xs)" unfolding assms(2) by (subst (2) s) (simp add: s [THEN arg_cong, of length])
  moreover have "drop i xs = xs ! i # drop (Suc i) xs" using assms(1) by (simp add: Cons_nth_drop_Suc)
  ultimately show ?thesis by simp
qed

lemma unat_minus_nat: "m \<le> unat t \<Longrightarrow> unat (t - of_nat m) = unat t - m" for t :: u64
proof -
  assume m: "m \<le> unat t"
  then have "unat (of_nat m :: u64) = m" using unat_below [of t] by (simp add: unsigned_of_nat take_bit_nat_eq_self)
  then show ?thesis using m by (simp add: unat_sub word_le_nat_alt)
qed

lemma string_ptr_bounds:
  assumes "i < length xs" "length (strings_bytes xs) \<le> unat t"
  shows "unat t - length (strings_bytes xs) \<le> unat (string_ptrs t xs ! i)" "unat (string_ptrs t xs ! i) + (length (xs ! i) + 1) \<le> unat t"
proof -
  have "drop i xs = xs ! i # drop (Suc i) xs" using assms(1) by (simp add: Cons_nth_drop_Suc)
  then have "length (xs ! i) + 1 \<le> length (strings_bytes (drop i xs))" by simp
  moreover have "unat (string_ptrs t xs ! i) = unat t - length (strings_bytes (drop i xs))"
    using strings_bytes_drop [of i xs] assms by (simp add: string_ptrs_def unat_minus_nat)
  ultimately show "unat t - length (strings_bytes xs) \<le> unat (string_ptrs t xs ! i)" "unat (string_ptrs t xs ! i) + (length (xs ! i) + 1) \<le> unat t"
    using strings_bytes_drop [of i xs] assms(2) by linarith+
qed

lemma string_read:
  assumes "i < length xs" "length (pre @ strings_bytes xs @ post) < 2 ^ 64" "a = t - of_nat (length (strings_bytes xs)) - of_nat (length pre)"
  shows "get_user (put_user um a (pre @ strings_bytes xs @ post)) (string_ptrs t xs ! i) (length (xs ! i) + 1) = xs ! i @ [0]"
proof -
  let ?n = "length (strings_bytes xs) - length (strings_bytes (drop i xs))"
  have d: "drop i xs = xs ! i # drop (Suc i) xs" using assms(1) by (simp add: Cons_nth_drop_Suc)
  have le: "?n + (length (xs ! i) + 1) \<le> length (strings_bytes xs)" using strings_bytes_drop [of i xs] unfolding d by simp
  have p: "string_ptrs t xs ! i = a + of_nat (length pre + ?n)"
    using assms(1,3) strings_bytes_drop [of i xs] by (simp add: string_ptrs_def of_nat_diff)
  have "get_user (put_user um a (pre @ strings_bytes xs @ post)) (string_ptrs t xs ! i) (length (xs ! i) + 1) =
      take (length (xs ! i) + 1) (drop (length pre + ?n) (pre @ strings_bytes xs @ post))"
    by (rule get_put_user [OF _ assms(2) p]) (use le in simp)
  also have "\<dots> = take (length (xs ! i) + 1) (drop ?n (strings_bytes xs))" using le by simp
  also have "\<dots> = xs ! i @ [0]" by (rule string_in_bytes [OF assms(1) refl])
  finally show ?thesis .
qed

text \<open>The auxiliary vector in the order of addresses, by the numbers of the System V interface.\<close>

definition auxv :: "user_exec_image \<Rightarrow> task \<Rightarrow> u64 list" where
  "auxv img cur = concat (map (\<lambda>(a, v). [a, v])
     [(3, img_at_phdr img), (4, 56), (5, img_at_phnum img), (9, img_at_entry img), (7, img_at_base img), (6, 4096),
      (11, ucast (uid cur)), (12, ucast (euid cur)), (13, ucast (gid cur)), (14, ucast (egid cur)), (0, 0)])"

lemma length_string_ptrs [simp]: "length (string_ptrs t xs) = length xs"
  by (simp add: string_ptrs_def)

text \<open>
  C34: The initial stack. When the strings and vectors fit below the top of the user stack, a program is entered at
  its entry point with a stack pointer that is a multiple of 16; from it upward lie the number of arguments, the
  pointers to the arguments, a null pointer, the pointers to the environment, a null pointer and the auxiliary vector with
  the values of the image and the identity of the task. Every pointer leads to its string with the terminating
  zero, the kernel stack of the task is installed, and memory below the stack pointer and from the top
  of the stack on is unchanged.
\<close>
theorem user_stack_layout:
  assumes "args = real_args argc argv" "envs = real_args envc envp"
    and "length (strings_bytes args) + length (strings_bytes envs) + 8 * (28 + length args + length envs) \<le> unat (img_stack_top img)"
  shows "\<exists>r um' aptrs eptrs.
    user_exec_run img argc argv envc envp um s = (Some r, um', s\<lparr>tss_rsp0 := kernel_stack_top (tasks s (process_current_task s))\<rparr>) \<and>
    u_rip r = img_entry img \<and> u_rdi r = of_nat (length args) \<and> u_rsi r = u_rsp r + 8 \<and> 16 dvd unat (u_rsp r) \<and>
    words_at um' (u_rsp r) (25 + length args + length envs) =
      of_nat (length args) # aptrs @ [0] @ eptrs @ [0] @ auxv img (tasks s (process_current_task s)) \<and>
    length aptrs = length args \<and> length eptrs = length envs \<and>
    (\<forall>i. i < length args \<longrightarrow> get_user um' (aptrs ! i) (length (args ! i) + 1) = args ! i @ [0]) \<and>
    (\<forall>i. i < length envs \<longrightarrow> get_user um' (eptrs ! i) (length (envs ! i) + 1) = envs ! i @ [0]) \<and>
    (\<forall>a. a < u_rsp r \<or> img_stack_top img \<le> a \<longrightarrow> um' a = um a)"
proof -
  let ?T = "img_stack_top img" let ?A = "strings_bytes args" let ?E = "strings_bytes envs"
  let ?cur = "tasks s (process_current_task s)" let ?q = "25 + length args + length envs"
  let ?t = "?T - of_nat (length ?A)" let ?lo = "?t - of_nat (length ?E)"
  let ?ws = "aux_words img ?cur @ [0] @ rev (string_ptrs ?t envs) @ [0] @ rev (string_ptrs ?T args) @ [of_nat (length args)]"
  have top: "unat ?T < 2 ^ 64" by (rule unat_below)
  have t: "unat ?t = unat ?T - length ?A" using assms(3) by (intro unat_minus_nat) simp
  then have lo: "unat ?lo = unat ?T - length ?A - length ?E" using assms(3) by (simp add: unat_minus_nat)
  obtain sp where sp: "align_stack ?q ?lo = Some sp" "unat sp \<le> unat ?lo" "unat ?lo \<le> unat sp + 23" "16 dvd unat sp + 8 * ?q"
    by (rule align_stack_spec [of ?lo]) (use lo assms(3) in simp)
  let ?sp = "sp - of_nat (8 * ?q)"
  have len: "length ?ws = ?q" by (simp add: aux_words_def)
  have room: "8 * ?q \<le> unat sp" using sp(3) lo assms(3) by simp
  have usp: "unat ?sp = unat sp - 8 * ?q" by (rule unat_minus_nat [OF room])
  let ?um1 = "put_user um ?lo (?E @ ?A)" let ?W = "concat (map (le_bytes 8) (rev ?ws))"
  let ?um = "put_user ?um1 ?sp ?W"
  have W: "length ?W = 8 * ?q" using len by simp
  have run: "user_exec_run img argc argv envc envp um s =
      (Some (user_iretq_enter (img_entry img) ?sp (of_nat (length args)) (?sp + 8)), ?um, s\<lparr>tss_rsp0 := kernel_stack_top ?cur\<rparr>)"
  proof -
    have "put_user (put_user um (?lo + of_nat (length ?E)) ?A) ?lo ?E = ?um1" by (rule put_user_append) (use assms(3) top in simp)
    then have "push_strings args ?T um = (string_ptrs ?T args, ?t, put_user um ?t ?A)"
      "push_strings envs ?t (put_user um ?t ?A) = (string_ptrs ?t envs, ?lo, ?um1)"
      using push_strings_spec [of args ?T um] push_strings_spec [of envs ?t "put_user um ?t ?A"] assms(3) top by simp_all
    moreover have "push_all ?ws sp ?um1 = (Some ?sp, ?um)" using push_all_spec [of ?ws sp ?um1] room unfolding len by blast
    ultimately show ?thesis
      unfolding user_exec_run_def Let_def assms(1,2) [symmetric] user_exec_set_kernel_rsp0_def by (simp only: prod.case sp(1) option.case)
  qed
  have out: "get_user ?um b n = get_user ?um1 b n" if "unat ?lo \<le> unat b" "unat b + n \<le> unat ?T" for b n
    by (rule get_user_outside) (use that W usp room sp(2) top in simp_all)
  have w: "words_at ?um ?sp ?q = rev ?ws" 
  proof -
    have "8 * length (rev ?ws) < 2 ^ 64" unfolding length_rev len using room unat_below [of sp] by linarith
    from words_at_put [OF this, of ?um1 ?sp] show ?thesis unfolding length_rev len .
  qed
  have args_at: "get_user ?um (string_ptrs ?T args ! i) (length (args ! i) + 1) = args ! i @ [0]" if i: "i < length args" for i
  proof -
    have "get_user ?um1 (string_ptrs ?T args ! i) (length (args ! i) + 1) = args ! i @ [0]"
      using string_read [OF i, of ?E "[]" ?lo ?T um] assms(3) top by simp
    moreover have "get_user ?um (string_ptrs ?T args ! i) (length (args ! i) + 1) = get_user ?um1 (string_ptrs ?T args ! i) (length (args ! i) + 1)"
      by (rule out) (use string_ptr_bounds [OF i, of ?T] lo assms(3) in simp_all)
    ultimately show ?thesis by (rule trans [rotated])
  qed
  have envs_at: "get_user ?um (string_ptrs ?t envs ! i) (length (envs ! i) + 1) = envs ! i @ [0]" if i: "i < length envs" for i
  proof -
    have "get_user ?um1 (string_ptrs ?t envs ! i) (length (envs ! i) + 1) = envs ! i @ [0]"
      using string_read [OF i, of "[]" ?A ?lo ?t um] assms(3) top by simp
    moreover have "get_user ?um (string_ptrs ?t envs ! i) (length (envs ! i) + 1) = get_user ?um1 (string_ptrs ?t envs ! i) (length (envs ! i) + 1)"
    proof -
      have "length ?E \<le> unat ?t" using t assms(3) by simp
      from string_ptr_bounds [OF i this] show ?thesis by (intro out) (use lo t in linarith)+
    qed
    ultimately show ?thesis by (rule trans [rotated])
  qed
  have rest: "?um a = um a" if "a < ?sp \<or> ?T \<le> a" for a
  proof -
    have a: "unat a < unat ?sp \<or> unat ?T \<le> unat a" using that by (simp add: word_less_nat_alt word_le_nat_alt)
    have lt: "unat ?sp + 8 * ?q \<le> unat ?lo" "unat ?lo + length (?E @ ?A) = unat ?T" using usp room sp(2) lo assms(3) by simp_all
    have "?um a = ?um1 a" by (subst put_user_at) (use a lt W top in auto)
    also have "\<dots> = um a" by (subst put_user_at) (use a lt top in auto)
    finally show ?thesis .
  qed
  have align: "16 dvd unat ?sp" using sp(4) room unfolding usp by presburger
  show ?thesis
  proof (rule exI, rule exI, rule exI [of _ "string_ptrs ?T args"], rule exI [of _ "string_ptrs ?t envs"], intro conjI)
    show "user_exec_run img argc argv envc envp um s =
      (Some (user_iretq_enter (img_entry img) ?sp (of_nat (length args)) (?sp + 8)), ?um, s\<lparr>tss_rsp0 := kernel_stack_top ?cur\<rparr>)"
      by (rule run)
    show "words_at ?um (u_rsp (user_iretq_enter (img_entry img) ?sp (of_nat (length args)) (?sp + 8))) ?q =
        of_nat (length args) # string_ptrs ?T args @ [0] @ string_ptrs ?t envs @ [0] @ auxv img ?cur"
      using w by (simp add: user_iretq_enter_def aux_words_def auxv_def)
  qed (use args_at envs_at rest align in \<open>simp_all add: user_iretq_enter_def\<close>)
qed

text \<open>A start with two arguments and one variable.\<close>

definition demo_start :: user_exec_image where
  "demo_start = \<lparr>img_entry = 0x400078, img_stack_top = 0x8000000, img_heap_base = 0, img_at_phdr = 0x400040, img_at_phnum = 1,
     img_at_entry = 0x400078, img_at_base = 0\<rparr>"

theorem user_stack_layout_witness:
  "\<exists>r um' p q e. user_exec_run demo_start 2 (Some [Some (lit ''ls''), Some (lit ''-l'')]) 1 (Some [Some (lit ''A=b'')]) (\<lambda>_. 7) demo_kern =
       (Some r, um', demo_kern\<lparr>tss_rsp0 := kernel_stack_top (tasks demo_kern (process_current_task demo_kern))\<rparr>) \<and>
     16 dvd unat (u_rsp r) \<and>
     take 6 (words_at um' (u_rsp r) 28) = [2, p, q, 0, e, 0] \<and> get_user um' p 3 = lit ''ls'' @ [0] \<and> get_user um' e 4 = lit ''A=b'' @ [0]"
proof -
  let ?args = "[lit ''ls'', lit ''-l'']" let ?envs = "[lit ''A=b'']"
  have a: "?args = real_args 2 (Some [Some (lit ''ls''), Some (lit ''-l'')])" "?envs = real_args 1 (Some [Some (lit ''A=b'')])"
    by (simp_all add: real_args_def)
  have fit: "length (strings_bytes ?args) + length (strings_bytes ?envs) + 8 * (28 + length ?args + length ?envs) \<le> unat (img_stack_top demo_start)"
    by (simp add: demo_start_def lit_def)
  obtain r um' ap ep where X: "user_exec_run demo_start 2 (Some [Some (lit ''ls''), Some (lit ''-l'')]) 1 (Some [Some (lit ''A=b'')]) (\<lambda>_. 7) demo_kern =
      (Some r, um', demo_kern\<lparr>tss_rsp0 := kernel_stack_top (tasks demo_kern (process_current_task demo_kern))\<rparr>)" "16 dvd unat (u_rsp r)"
    "words_at um' (u_rsp r) (25 + length ?args + length ?envs) =
      of_nat (length ?args) # ap @ [0] @ ep @ [0] @ auxv demo_start (tasks demo_kern (process_current_task demo_kern))"
    "length ap = length ?args" "length ep = length ?envs"
    "\<forall>i. i < length ?args \<longrightarrow> get_user um' (ap ! i) (length (?args ! i) + 1) = ?args ! i @ [0]"
    "\<forall>i. i < length ?envs \<longrightarrow> get_user um' (ep ! i) (length (?envs ! i) + 1) = ?envs ! i @ [0]"
    using user_stack_layout [OF a fit, of "\<lambda>_. 7" demo_kern] by blast
  obtain p q e where l: "ap = [p, q]" "ep = [e]" using X(4,5) by (auto simp: length_Suc_conv numeral_2_eq_2)
  have "take 6 (words_at um' (u_rsp r) 28) = [2, p, q, 0, e, 0]" using X(3) l by (simp add: numeral_2_eq_2)
  moreover have "get_user um' p 3 = lit ''ls'' @ [0]" using X(6) [rule_format, of 0] l by (simp add: lit_def numeral_3_eq_3)
  moreover have "get_user um' e 4 = lit ''A=b'' @ [0]" using X(7) [rule_format, of 0] l by (simp add: lit_def eval_nat_numeral)
  ultimately show ?thesis using X(1,2) by blast
qed

end
