(* ===== verification/Spec2Isabelle.thy ===== *)
theory Spec2Isabelle
  imports Block CString ProcTree VfsExt2 SysMem FdIo SchedCalls Clock Elf UserExec
begin

text \<open>
  EdgeOS, a small Unix-like kernel in C: its core as definitions of HOL, with the theorems that make it correct.
  All paths are relative to the directory that holds \<^verbatim>\<open>src/\<close> and \<^verbatim>\<open>include/\<close> of the kernel.

  \<^bold>\<open>The parts and how they interact.\<close>
  The scheduler keeps doubly linked run queues through the task structures and switches between tasks. The process
  layer creates tasks by fork and exec, keeps the tree of parents and children, delivers termination to the
  parent and lets it reap zombies; it calls the scheduler for every change of state and the system call layer to
  copy and release descriptors. The system call layer keeps, per process, a table of descriptors that refer to shared
  objects with reference counts: open files, pipes, pseudo terminals, sockets, event, timer, signal and epoll objects.
  It also keeps the table of mapped ranges of each task and copies data from and to user memory. The virtual
  file system normalises a path, finds the mount it belongs to and walks it with the lookup operation of the mounted
  file system. ext2 implements these operations on blocks that it reads and writes through the block layer,
  which splits transfers into batches for a driver. The program loader reads an ELF file through the virtual file system
  into user memory, and the start of a program builds its stack. The clock converts the hardware counters to the time the timers use.

  \<^bold>\<open>The theories.\<close>
  \<^item> \<open>Prelude\<close>: machine integers, byte buffers with little endian access, generic lemmas on words and lists, and the
    collections \<open>model_simps\<close> and others that the proofs use.
  \<^item> \<open>CString\<close>: \<^verbatim>\<open>src/string.c\<close>, every function on byte buffers; a run over the end of a buffer is a value.
  \<^item> \<open>Block\<close>: \<^verbatim>\<open>src/block/block.c\<close>, the registry of devices and the batched transfer of sectors. The driver is
    a function; the theorems compare the batches with one transfer of all sectors.
  \<^item> \<open>Task\<close>, \<open>DList\<close>, \<open>Sched\<close>: \<^verbatim>\<open>src/sys/scheduler.c\<close>. A task is a record; the pointers between tasks are
    functions on task addresses. The locale \<open>intrusive_list\<close> holds the laws of a doubly linked list that is
    threaded through objects, and is interpreted on the run queues (\<open>rq\<close>) and on the lists of children
    (\<open>child\<close>, in \<open>ProcTree\<close>). The theorems show the discipline of the queues under any sequence of scheduler
    calls that keeps the conditions of the step relation \<open>sched_step\<close> (a task is woken on its CPU, a slot is freed when no CPU runs
    it, the affinity of a queued or running task is left alone), that the pointer operations refine operations on lists, and that a runnable task is served.
  \<^item> \<open>Process\<close>, \<open>ProcTree\<close>: \<^verbatim>\<open>src/sys/process.c\<close>: creation, fork, exec, exit, wait, kill, credentials, working
    directories and page tables. The locale \<open>fd_release\<close> states what the process layer relies on when it asks for the
    descriptors of a process to be released; \<open>FdTable\<close> interprets it on the real routine (\<open>files\<close>).
  \<^item> \<open>FdTypes\<close>, \<open>FdTable\<close>: the descriptor tables of \<^verbatim>\<open>src/sys/syscall.c\<close> and the objects behind them. The locale
    \<open>ref_pool\<close> is the life time of a pool of counted objects (the slot is cleared with the last reference), interpreted on event, timer, signal and epoll
    objects. The theorems account for every reference when a process forks, closes, terminates or is waited for.
  \<^item> \<open>FdCalls\<close>: the calls that open, duplicate, position and close descriptors, and the epoll calls.
  \<^item> \<open>SchedCalls\<close>: the system calls for the affinity and the policy of a task. \<^verbatim>\<open>sched_setaffinity\<close> does not check the condition
    that the scheduler needs; the lemmas say when it is a step of the scheduler and what the debug check reports when not.
  \<^item> \<open>FdIo\<close>: reads and writes of pipes, pseudo terminals, event, timer and signal descriptors. A pipe is shown to be
    a bounded queue of bytes for calls with any result, faults included, the line discipline of a terminal to agree with a function on lists.
  \<^item> \<open>Timers\<close>: interval timers, timer descriptors, kill and the delivery of signals to handlers, with the return through the
    instructions of the stub, decoded from memory.
  \<^item> \<open>Clock\<close>: \<^verbatim>\<open>src/sys/boottime.c\<close>; the calendar is compared with the Gregorian rules, written out independently.
  \<^item> \<open>UserMem\<close>, \<open>Vma\<close>, \<open>SysMem\<close>: user memory in \<^verbatim>\<open>src/sys/syscall.c\<close>: range and page checks, copies, the table of
    mapped ranges, \<^verbatim>\<open>brk\<close>, \<^verbatim>\<open>mmap\<close>, \<^verbatim>\<open>munmap\<close>, \<^verbatim>\<open>mprotect\<close>. The locale \<open>address_map\<close> is the abstract map from
    addresses to protections; it is interpreted on the table (\<open>vmap\<close>), and the calls are shown to refine it.
  \<^item> \<open>VfsPath\<close>, \<open>Vfs\<close>, \<open>VfsSpec\<close>: \<^verbatim>\<open>src/vfs/vfs.c\<close>: paths and permissions, mounts, device nodes, resolution, whole-file
    operations. The theorems give the canonical form of a path, its confinement below the root of the process, the choice
    of the mount and the decision of the permission check.
  \<^item> \<open>Ext2\<close>, \<open>Ext2Disk\<close>, \<open>Ext2Wf\<close>, \<open>Ext2Dir\<close>, \<open>Ext2Ops\<close>, \<open>Ext2File\<close>, \<open>Ext2Mount\<close>: \<^verbatim>\<open>src/fs/ext2/ext2.c\<close>. \<open>Ext2\<close> has the
    structures and operations; \<open>Ext2Disk\<close> reads the volume through the cache of one block as a function from blocks
    to bytes; \<open>Ext2Wf\<close> is the invariant of a volume (no block is used twice, used blocks are marked);
    \<open>Ext2Dir\<close> and \<open>Ext2Ops\<close> treat a directory as a finite map, \<open>Ext2File\<close> a file as a function from positions to
    bytes; \<open>Ext2Mount\<close> has the operation table and the mount routines.
  \<^item> \<open>VfsExt2\<close>: the composition. The locale \<open>filesystem\<close> states what the path walk needs of a file system, the
    interpretation \<open>e2fs\<close> discharges it for ext2, and creating, writing and reading a file by path is shown to act on the
    tree of directories as a user expects.
  \<^item> \<open>Elf\<close>: \<^verbatim>\<open>src/elf/elf_loader.c\<close>. The locale \<open>readable_file\<close> states what the loader needs of a file, and
    \<open>e2prog\<close> interprets it on the files of a well-formed ext2 volume. Any file leaves memory outside the user range alone;
    a file that loads is in memory as the specification \<open>elf_memory\<close> says.
  \<^item> \<open>UserExec\<close>: \<^verbatim>\<open>src/sys/user_exec.c\<close>: the initial stack with arguments, environment and auxiliary vector.

  \<^bold>\<open>How code becomes definitions.\<close>
  Structures are records with the names of the source, enumerations are datatypes, fixed-width integers are words. A
  routine is a function from its arguments and the state to its result and the new state; one routine under its lock is
  one step, and sequences of steps are inductive relations. The layers extend one record: run queues, tasks and registers
  (\<open>sched\<close>), processes (\<open>proc\<close>), descriptors (\<open>kern\<close>), mounts and volumes (\<open>vfs\<close>). Errors are values: negative
  numbers as in the source where the number matters, \<^term>\<open>None\<close> or a sum otherwise. Calls of device
  drivers, of the network stack and of the page-table memory are arguments of the definitions that use them.

  \<^bold>\<open>Bounds and loops.\<close>
  Loops over a table or a buffer are structural recursion on what is left. Three kinds remain. The search for a free
  gap of addresses runs at most 260 times (the 256 ranges of a task and 4, as in the source), and is shown to be exact within that bound. The
  destruction of a socket with pending connections is given the number of pending connections as its fuel, which
  is proved to be enough. The loop that waits for the timer during calibration spins at most ten million times, as
  in the source. Loops that the code does not bound are functions to \<open>option\<close> whose value \<^term>\<open>None\<close> is a loop that
  never ends; where the code relies on their end, that is a theorem.

  \<^bold>\<open>Not modelled.\<close>
  Device drivers, interrupts, boot code, console and frame buffer are port and memory-mapped input and output. The glue to
  lwIP calls a library that is not part of the repository; sockets occur here only as objects with a life time. ext4, FAT32
  and procfs are further clients of the interface that is modelled with ext2. Of the system calls, those on paths,
  directories, sockets and terminals, poll and select, the signal mask calls and the dispatcher are not modelled.
  Process numbers are unbounded integers: the counter of the source is an \<^verbatim>\<open>int\<close> whose overflow after 2^31 processes C leaves
  undefined. A context switch sets the kernel stack, the page-table root and the FS base; saving and restoring the other registers is the assembly
  routine \<^verbatim>\<open>switch_to\<close>, outside the model. Interrupts between two instructions of a routine, and caches of the processor, are outside the model.
\<close>

end
